(* ===== verification/Yz_Prelude.thy ===== *)
theory Yz_Prelude
  imports Main "HOL-Library.Word"
begin

text \<open>
  Shared vocabulary of the development: the machine integers of the sources, little-endian byte
  encodings, byte-addressed memory with word reads and writes, and the generic lemmas on words,
  lists and memories that the component theories use.  Nothing here models a particular function of
  the program.
\<close>

unbundle bit_operations_syntax

named_theorems ovf \<open>overflow guards of the sources read as facts about natural numbers\<close>
named_theorems frame \<open>what an operation leaves unchanged\<close>

section \<open>Machine integers\<close>

type_synonym u8 = "8 word"
type_synonym u16 = "16 word"
type_synonym u32 = "32 word"
type_synonym u64 = "64 word"

abbreviation SIZE_MAX :: u64 where "SIZE_MAX \<equiv> - 1"
abbreviation UINTPTR_MAX :: u64 where "UINTPTR_MAX \<equiv> - 1"

lemma unat_lt_exp: "unat w < 2 ^ LENGTH('a)" for w :: "'a::len word"
  by (rule unsigned_less)

lemma unat_max: "unat (- 1 :: 'a::len word) = 2 ^ LENGTH('a) - 1"
  by (simp add: unsigned_minus_1_eq_mask mask_eq_exp_minus_1)

lemma unat_max_minus: "unat (- 1 - b) = 2 ^ LENGTH('a) - 1 - unat b" for b :: "'a::len word"
proof -
  have "unat (- 1 - b) = unat (- 1 :: 'a word) - unat b"
    by (rule unat_sub) simp
  then show ?thesis by (simp only: unat_max)
qed

text \<open>The guard \<open>a > MAX - b\<close> that the sources write before every addition.\<close>

lemma le_max_minus_iff [ovf]: "a \<le> - 1 - b \<longleftrightarrow> unat a + unat b < 2 ^ LENGTH('a)"
  for a b :: "'a::len word"
  using unat_lt_exp [of b] unfolding word_le_nat_alt unat_max_minus by linarith

lemma gr_max_minus_iff [ovf]: "- 1 - b < a \<longleftrightarrow> \<not> unat a + unat b < 2 ^ LENGTH('a)"
  for a b :: "'a::len word"
  by (simp add: le_max_minus_iff [symmetric] not_le)

lemma len64: "LENGTH(64) = 64"
  by simp

lemma gr_max_minus_u64: "- 1 - b < a \<longleftrightarrow> \<not> unat b + unat a < 2 ^ 64" for a b :: u64
  unfolding gr_max_minus_iff len64 add.commute [of "unat a"] ..

lemma unat_add_lt: "unat (a + b) = unat a + unat b" if "unat a + unat b < 2 ^ LENGTH('a)"
  for a b :: "'a::len word"
  using that by (simp add: unat_word_ariths)

lemma unat_diff_le: "unat (a - b) = unat a - unat b" if "unat b \<le> unat a"
  for a b :: "'a::len word"
  using that by (simp add: unat_sub word_le_nat_alt)

lemma uint_eq_unat: "uint w = int (unat w)"
  by simp

lemma unat_ucast_up [simp]: "unat (ucast w :: u64) = unat w" for w :: u32
proof -
  have "unat w < 2 ^ 64" using unat_lt_exp [of w] by simp
  then show ?thesis by (simp add: unsigned_ucast_eq take_bit_nat_eq_self)
qed

lemma find_SomeD: "find P xs = Some x \<Longrightarrow> x \<in> set xs \<and> P x"
  by (induction xs) (auto split: if_splits)

section \<open>Powers of two and alignment\<close>

lemma nat_and_pred_zero: "\<exists>k. n = 2 ^ k" if "0 < n" and "n AND (n - 1) = 0" for n :: nat
  using that
proof (induction n rule: less_induct)
  case (less n)
  show ?case
  proof (cases "even n")
    case True
    then obtain m where m: "n = 2 * m" by blast
    with less.prems have m0: "0 < m" by simp
    then have "n - 1 = 1 + 2 * (m - 1)" using m by simp
    then have "n AND (n - 1) = 2 * (m AND (m - 1))"
      using m by (simp add: and_rec [of "2 * m"])
    with less.prems have "m AND (m - 1) = 0" by simp
    with less.IH [of m] m0 m obtain k where "m = 2 ^ k" by auto
    with m have "n = 2 ^ Suc k" by simp
    then show ?thesis by blast
  next
    case False
    then obtain m where m: "n = 2 * m + 1" using oddE by blast
    then have "n AND (n - 1) = 2 * m"
      by (simp add: and_rec [of "Suc (2 * m)"])
    with less.prems m have "n = 2 ^ 0" by simp
    then show ?thesis by blast
  qed
qed

lemma word_pow2_exists: "\<exists>k < LENGTH('a). v = 2 ^ k" if "v \<noteq> 0" and "v AND (v - 1) = 0"
  for v :: "'a::len word"
proof -
  have pos: "0 < unat v" using that(1) by (simp add: unat_gt_0)
  have "unat v AND (unat v - 1) = unat (v AND (v - 1))"
    using that(1) by (simp add: unsigned_and_eq unat_minus_one)
  with that(2) have "unat v AND (unat v - 1) = 0" by simp
  with pos obtain k where k: "unat v = 2 ^ k" using nat_and_pred_zero by blast
  with unat_lt_exp [of v] have "k < LENGTH('a)" by (simp add: power_strict_increasing_iff)
  moreover have "v = 2 ^ k"
    using k by (metis of_nat_numeral of_nat_power of_nat_unat ucast_id)
  ultimately show ?thesis by blast
qed

lemma and_not_mask_eq: "w AND NOT (2 ^ k - 1) = push_bit k (drop_bit k w)"
  for w :: "'a::len word"
  by (rule bit_word_eqI) (auto simp: bit_simps simp flip: mask_eq_exp_minus_1)

lemma unat_align_down: "unat (w AND NOT (2 ^ k - 1)) = unat w div 2 ^ k * 2 ^ k"
  for w :: "'a::len word"
proof -
  have "unat w div 2 ^ k * 2 ^ k < 2 ^ LENGTH('a)"
    using unat_lt_exp [of w] by (meson div_times_less_eq_dividend le_less_trans)
  then show ?thesis
    unfolding and_not_mask_eq unsigned_push_bit_eq unat_drop_bit_eq
    by (simp add: push_bit_eq_mult drop_bit_eq_div take_bit_nat_eq_self_iff)
qed

lemma unat_and_mask: "unat (w AND (2 ^ k - 1)) = unat w mod 2 ^ k" for w :: "'a::len word"
  unfolding mask_eq_exp_minus_1 [symmetric] take_bit_eq_mask [symmetric] unsigned_take_bit_eq
  by (rule take_bit_eq_mod)

lemma unat_exp: "unat (2 ^ k :: 'a::len word) = 2 ^ k" if "k < LENGTH('a)"
proof -
  have "unat (2 ^ k :: 'a word) = unat (push_bit k (1 :: 'a word))" by simp
  also have "\<dots> = 2 ^ k"
    unfolding unsigned_push_bit_eq using that
    by (simp add: push_bit_eq_mult take_bit_nat_eq_self_iff)
  finally show ?thesis .
qed

lemma le_align_up: "x \<le> (x + (2 ^ k - 1)) div 2 ^ k * 2 ^ k" for x :: nat
proof -
  have "0 < (2 ^ k :: nat)" by simp
  from mod_less_divisor [OF this, of "x + (2 ^ k - 1)"]
  have "(x + (2 ^ k - 1)) mod 2 ^ k \<le> 2 ^ k - 1" by linarith
  then have "x \<le> (x + (2 ^ k - 1)) - (x + (2 ^ k - 1)) mod 2 ^ k" by linarith
  then show ?thesis by (simp add: minus_mod_eq_div_mult)
qed

lemma align_up_least: "(x + (2 ^ k - 1)) div 2 ^ k * 2 ^ k \<le> m"
  if "x \<le> m" and "2 ^ k dvd m" for x m :: nat
proof -
  from that(2) obtain q where q: "m = 2 ^ k * q" by blast
  have "0 < (2 ^ k :: nat)" by simp
  then have "x + (2 ^ k - 1) < 2 ^ k + 2 ^ k * q" using that(1) q by linarith
  then have "x + (2 ^ k - 1) < 2 ^ k * Suc q" by simp
  then have "(x + (2 ^ k - 1)) div 2 ^ k < Suc q"
    by (simp add: div_less_iff_less_mult mult.commute)
  then show ?thesis using q by (simp add: mult.commute)
qed

lemma align_down_greatest: "m \<le> x div d * d" if "m \<le> x" and "d dvd m" for x m d :: nat
proof -
  from that(2) have "m = m div d * d" by simp
  also have "\<dots> \<le> x div d * d" using that(1) by (intro mult_le_mono1 div_le_mono)
  finally show ?thesis .
qed

lemma and_one_even: "(w AND 1) = 0 \<longleftrightarrow> even (unat w)" for w :: "'a::len word"
proof -
  have "unat (w AND 1) = unat w mod 2" using unat_and_mask [of w 1] by simp
  then show ?thesis by (metis even_iff_mod_2_eq_zero unat_eq_zero)
qed

lemma and_push_bit_iff: "(drop_bit 1 w AND push_bit b 1) \<noteq> 0 \<longleftrightarrow> bit w (Suc b)" for w :: "'a::len word"
  unfolding bit_iff_and_push_bit_not_eq_0 [symmetric] by (simp add: bit_drop_bit_eq)

section \<open>Little-endian encodings\<close>

text \<open>The targets (arm64, arm) are little-endian, so a \<^verbatim>\<open>memcpy\<close> between an integer and a
  byte buffer is the encoding below.\<close>

primrec le_nat :: "u8 list \<Rightarrow> nat" where
  "le_nat [] = 0"
| "le_nat (b # bs) = unat b + 256 * le_nat bs"

primrec nat_le :: "nat \<Rightarrow> nat \<Rightarrow> u8 list" where
  "nat_le 0 v = []"
| "nat_le (Suc n) v = of_nat v # nat_le n (v div 256)"

lemma length_nat_le [simp]: "length (nat_le n v) = n"
  by (induction n arbitrary: v) auto

lemma le_nat_nat_le: "le_nat (nat_le n v) = v mod 256 ^ n"
proof (induction n arbitrary: v)
  case 0
  then show ?case by simp
next
  case (Suc n)
  have "unat (of_nat v :: u8) = v mod 256" by (simp add: unat_of_nat)
  then show ?case by (simp add: Suc mod_mult2_eq)
qed

lemma le_nat_less: "le_nat bs < 256 ^ length bs"
proof (induction bs)
  case Nil
  then show ?case by simp
next
  case (Cons b bs)
  have "unat b < 256" using unat_lt_exp [of b] by simp
  with Cons show ?case by simp
qed

lemma nat_le_le_nat: "nat_le (length bs) (le_nat bs) = bs"
proof (induction bs)
  case Nil
  then show ?case by simp
next
  case (Cons b bs)
  have "unat b < 256" using unat_lt_exp [of b] by simp
  moreover have "(of_nat (256 * le_nat bs) :: u8) = 0"
    unfolding word_of_nat_eq_0_iff by simp
  ultimately show ?case using Cons by simp
qed

definition le16 :: "u16 \<Rightarrow> u8 list" where "le16 w = nat_le 2 (unat w)"
definition le32 :: "u32 \<Rightarrow> u8 list" where "le32 w = nat_le 4 (unat w)"
definition le64 :: "u64 \<Rightarrow> u8 list" where "le64 w = nat_le 8 (unat w)"

text \<open>Reading an integer field at a byte offset of a buffer (the callers check the range).\<close>

definition get16 :: "u8 list \<Rightarrow> nat \<Rightarrow> u16" where
  "get16 bs off = of_nat (le_nat (take 2 (drop off bs)))"
definition get32 :: "u8 list \<Rightarrow> nat \<Rightarrow> u32" where
  "get32 bs off = of_nat (le_nat (take 4 (drop off bs)))"
definition get64 :: "u8 list \<Rightarrow> nat \<Rightarrow> u64" where
  "get64 bs off = of_nat (le_nat (take 8 (drop off bs)))"

lemma length_le16 [simp]: "length (le16 w) = 2" by (simp add: le16_def)
lemma length_le32 [simp]: "length (le32 w) = 4" by (simp add: le32_def)
lemma length_le64 [simp]: "length (le64 w) = 8" by (simp add: le64_def)

lemma of_nat_le_nat_le16 [simp]: "of_nat (le_nat (le16 w)) = w"
  using unat_lt_exp [of w] by (simp add: le16_def le_nat_nat_le)
lemma of_nat_le_nat_le32 [simp]: "of_nat (le_nat (le32 w)) = w"
  using unat_lt_exp [of w] by (simp add: le32_def le_nat_nat_le)
lemma of_nat_le_nat_le64 [simp]: "of_nat (le_nat (le64 w)) = w"
  using unat_lt_exp [of w] by (simp add: le64_def le_nat_nat_le)

lemma get16_at: "get16 (pre @ le16 w @ post) (length pre) = w" by (simp add: get16_def)
lemma get32_at: "get32 (pre @ le32 w @ post) (length pre) = w" by (simp add: get32_def)
lemma get64_at: "get64 (pre @ le64 w @ post) (length pre) = w" by (simp add: get64_def)

section \<open>Byte-addressed memory\<close>

type_synonym memory = "u64 \<Rightarrow> u8"

definition read_bytes :: "('a::len word \<Rightarrow> u8) \<Rightarrow> 'a word \<Rightarrow> nat \<Rightarrow> u8 list" where
  "read_bytes m a n = map (\<lambda>i. m (a + of_nat i)) [0..<n]"

definition write_bytes :: "('a::len word \<Rightarrow> u8) \<Rightarrow> 'a word \<Rightarrow> u8 list \<Rightarrow> ('a word \<Rightarrow> u8)" where
  "write_bytes m a bs = (\<lambda>x. if unat (x - a) < length bs then bs ! unat (x - a) else m x)"

text \<open>\<open>in_range a n x\<close>: the address \<open>x\<close> is one of the \<open>n\<close> bytes from \<open>a\<close> on.\<close>

definition in_range :: "'a::len word \<Rightarrow> nat \<Rightarrow> 'a word \<Rightarrow> bool" where
  "in_range a n x \<longleftrightarrow> unat (x - a) < n"

definition read8 :: "memory \<Rightarrow> u64 \<Rightarrow> u8" where "read8 m a = m a"
definition read16 :: "memory \<Rightarrow> u64 \<Rightarrow> u16" where
  "read16 m a = of_nat (le_nat (read_bytes m a 2))"
definition read32 :: "memory \<Rightarrow> u64 \<Rightarrow> u32" where
  "read32 m a = of_nat (le_nat (read_bytes m a 4))"
definition read64 :: "memory \<Rightarrow> u64 \<Rightarrow> u64" where
  "read64 m a = of_nat (le_nat (read_bytes m a 8))"
definition write32 :: "memory \<Rightarrow> u64 \<Rightarrow> u32 \<Rightarrow> memory" where
  "write32 m a v = write_bytes m a (le32 v)"
definition write64 :: "memory \<Rightarrow> u64 \<Rightarrow> u64 \<Rightarrow> memory" where
  "write64 m a v = write_bytes m a (le64 v)"

lemma length_read_bytes [simp]: "length (read_bytes m a n) = n"
  by (simp add: read_bytes_def)

lemma nth_read_bytes [simp]: "i < n \<Longrightarrow> read_bytes m a n ! i = m (a + of_nat i)"
  by (simp add: read_bytes_def)

lemma write_bytes_frame [frame]: "\<not> in_range a (length bs) x \<Longrightarrow> write_bytes m a bs x = m x"
  by (simp add: write_bytes_def in_range_def)

lemma write64_frame [frame]: "\<not> in_range a 8 x \<Longrightarrow> write64 m a v x = m x"
  by (simp add: write64_def write_bytes_frame)

lemma write_bytes_Nil [simp]: "write_bytes m a [] = m"
  by (simp add: write_bytes_def)

text \<open>Addresses as offsets from a base, for addresses of any width.\<close>

lemma unat_of_nat_len: "n < 2 ^ LENGTH('a) \<Longrightarrow> unat (of_nat n :: 'a::len word) = n"
  by (simp add: unat_of_nat)

lemma offset_diff_len: "unat ((d + of_nat j) - (d + of_nat k)) = j - k"
  if "k \<le> j" and "j < 2 ^ LENGTH('a)" for d :: "'a::len word"
proof -
  have "(d + of_nat j) - (d + of_nat k) = (of_nat (j - k) :: 'a word)" using that(1) by simp
  then show ?thesis using that by (simp only: unat_of_nat_len)
qed

lemma in_range_offset_len: "in_range (d + of_nat k) n (d + of_nat j) \<longleftrightarrow> k \<le> j \<and> j < k + n"
  if "j < 2 ^ LENGTH('a)" and "k + n \<le> 2 ^ LENGTH('a)" for d :: "'a::len word"
proof (cases "k \<le> j")
  case True
  show ?thesis unfolding in_range_def offset_diff_len [OF True that(1)] using True by linarith
next
  case False
  let ?w = "(d + of_nat j) - (d + of_nat k) :: 'a word"
  have "?w = - (of_nat (k - j) :: 'a word)" using False by (subst of_nat_diff) simp_all
  also have "\<dots> = of_nat (2 ^ LENGTH('a) - (k - j))"
    using False that by (subst of_nat_diff) simp_all
  finally have w: "?w = of_nat (2 ^ LENGTH('a) - (k - j))" .
  have "unat ?w = 2 ^ LENGTH('a) - (k - j)"
    unfolding w by (rule unat_of_nat_len) (use False that in linarith)
  with False that show ?thesis unfolding in_range_def by linarith
qed

lemma in_range_within:
  fixes d :: "'a::len word"
  assumes "in_range (d + of_nat k) n x" and "k + n \<le> m" and "k + n \<le> 2 ^ LENGTH('a)"
  shows "in_range d m x"
proof -
  have "in_range (d + of_nat k) n (d + of_nat (unat (x - d)))" using assms(1) by simp
  then have "unat (x - d) < k + n" using in_range_offset_len [OF unat_lt_exp assms(3)] by blast
  with assms(2) show ?thesis by (simp add: in_range_def)
qed

lemma write_bytes_offset_len: "write_bytes m (d + of_nat k) bs (d + of_nat j) =
    (if k \<le> j \<and> j < k + length bs then bs ! (j - k) else m (d + of_nat j))"
  if "j < 2 ^ LENGTH('a)" and "k + length bs \<le> 2 ^ LENGTH('a)" for d :: "'a::len word"
proof (cases "k \<le> j \<and> j < k + length bs")
  case True
  with that(1) have "unat ((d + of_nat j) - (d + of_nat k)) = j - k" by (simp only: offset_diff_len)
  with True show ?thesis unfolding write_bytes_def by auto
next
  case False
  with in_range_offset_len [OF that, of d] have "\<not> in_range (d + of_nat k) (length bs) (d + of_nat j)"
    by blast
  then show ?thesis using False write_bytes_frame by (simp only: if_False not_False_eq_True)
qed

lemma read_bytes_cong_len: "read_bytes m a n = read_bytes m' a n"
  if "\<And>x. in_range a n x \<Longrightarrow> m x = m' x" and "n \<le> 2 ^ LENGTH('a)" for a :: "'a::len word"
  using that by (auto simp: read_bytes_def in_range_def unat_of_nat)

lemma read_slice_len:
  fixes a :: "'a::len word"
  assumes "i + n \<le> length bs" and "length bs \<le> 2 ^ LENGTH('a)"
  shows "read_bytes (write_bytes m a bs) (a + of_nat i) n = take n (drop i bs)"
proof (rule nth_equalityI)
  fix j assume "j < length (read_bytes (write_bytes m a bs) (a + of_nat i) n)"
  then have j: "j < n" by simp
  have "write_bytes m (a + of_nat 0) bs (a + of_nat (i + j)) = bs ! (i + j)"
    using j assms by (subst write_bytes_offset_len) auto
  then show "read_bytes (write_bytes m a bs) (a + of_nat i) n ! j = take n (drop i bs) ! j"
    using j assms(1) by (simp add: add.assoc)
qed (use assms in simp)

lemma read_write_disjoint_len:
  fixes d :: "'a::len word"
  assumes "k + length bs \<le> j \<or> j + n \<le> k" and "k + length bs \<le> 2 ^ LENGTH('a)" and "j + n \<le> 2 ^ LENGTH('a)"
  shows "read_bytes (write_bytes m (d + of_nat k) bs) (d + of_nat j) n = read_bytes m (d + of_nat j) n"
proof (rule nth_equalityI)
  fix i assume "i < length (read_bytes (write_bytes m (d + of_nat k) bs) (d + of_nat j) n)"
  then have i: "i < n" by simp
  have "d + of_nat j + of_nat i = d + of_nat (j + i)" by (simp add: add.assoc)
  moreover have "write_bytes m (d + of_nat k) bs (d + of_nat (j + i)) = m (d + of_nat (j + i))"
    using i assms by (subst write_bytes_offset_len) auto
  ultimately show "read_bytes (write_bytes m (d + of_nat k) bs) (d + of_nat j) n ! i =
      read_bytes m (d + of_nat j) n ! i"
    using i by (simp only: nth_read_bytes)
qed simp

text \<open>The same facts for the 64-bit memory, and its words.\<close>

lemma read_write_bytes: "read_bytes (write_bytes m a bs) a (length bs) = bs"
  if "length bs \<le> 2 ^ 64" for a :: u64
  using read_slice_len [of 0 "length bs" bs m a] that by simp

lemma read64_write64 [simp]: "read64 (write64 m a v) a = v"
  using read_write_bytes [of "le64 v" m a] by (simp add: read64_def write64_def)

lemma unat_of_nat_u64: "n < 2 ^ 64 \<Longrightarrow> unat (of_nat n :: u64) = n"
  by (simp add: unat_of_nat)

lemma offset_repr: "x = d + of_nat (unat (x - d))" for x d :: u64
  by simp

lemma offset_diff: "unat ((d + of_nat j) - (d + of_nat k)) = j - k" if "k \<le> j" and "j < 2 ^ 64"
  for d :: u64
  using offset_diff_len [where 'a = 64] that by simp

lemma in_range_offset: "in_range (d + of_nat k) n (d + of_nat j) \<longleftrightarrow> k \<le> j \<and> j < k + n"
  if "j < 2 ^ 64" and "k + n \<le> 2 ^ 64" for d :: u64
  using that by (intro in_range_offset_len) simp_all

lemma write_bytes_offset: "write_bytes m (d + of_nat k) bs (d + of_nat j) =
    (if k \<le> j \<and> j < k + length bs then bs ! (j - k) else m (d + of_nat j))"
  if "j < 2 ^ 64" and "k + length bs \<le> 2 ^ 64" for d :: u64
  using that by (intro write_bytes_offset_len) simp_all

lemma read_bytes_cong: "read_bytes m a n = read_bytes m' a n"
  if "\<And>x. in_range a n x \<Longrightarrow> m x = m' x" and "n \<le> 2 ^ 64" for a :: u64
  using that by (intro read_bytes_cong_len) simp_all

lemma read_write_disjoint:
  fixes d :: u64
  assumes "k + length bs \<le> j \<or> j + n \<le> k" and "k + length bs \<le> 2 ^ 64" and "j + n \<le> 2 ^ 64"
  shows "read_bytes (write_bytes m (d + of_nat k) bs) (d + of_nat j) n = read_bytes m (d + of_nat j) n"
  using assms by (intro read_write_disjoint_len) simp_all

lemma read_slice:
  fixes a :: u64
  assumes "i + n \<le> length bs" and "length bs \<le> 2 ^ 64"
  shows "read_bytes (write_bytes m a bs) (a + of_nat i) n = take n (drop i bs)"
  using assms by (intro read_slice_len) simp_all

lemma read32_write32 [simp]: "read32 (write32 m a v) a = v"
  using read_write_bytes [of "le32 v" m a] by (simp add: read32_def write32_def)

lemma write64_first: "write64 m a v a = of_nat (unat v)"
proof -
  have "Suc 7 = 8" by simp
  moreover have "nat_le (Suc 7) (unat v) ! 0 = of_nat (unat v)" by (simp only: nat_le.simps nth_Cons_0)
  ultimately have "le64 v ! 0 = of_nat (unat v)" unfolding le64_def by (simp only:)
  then show ?thesis by (simp add: write64_def write_bytes_def)
qed

text \<open>Two 64-bit words that do not overlap.\<close>

definition word_apart :: "u64 \<Rightarrow> u64 \<Rightarrow> bool" where
  "word_apart a b \<longleftrightarrow> (\<forall>x. in_range a 8 x \<longrightarrow> \<not> in_range b 8 x)"

lemma word_apart_sym: "word_apart a b \<Longrightarrow> word_apart b a"
  by (auto simp: word_apart_def)

lemma read64_write64_apart: "word_apart a b \<Longrightarrow> read64 (write64 m a v) b = read64 m b"
proof -
  assume "word_apart a b"
  then have "read_bytes (write64 m a v) b 8 = read_bytes m b 8"
    by (intro read_bytes_cong write64_frame) (auto simp: word_apart_def)
  then show ?thesis by (simp add: read64_def)
qed

lemma word_apart_offset:
  assumes "i + 8 \<le> j \<or> j + 8 \<le> i" and "i + 8 \<le> 2 ^ 64" and "j + 8 \<le> 2 ^ 64"
  shows "word_apart (d + of_nat i) (d + of_nat j)"
  unfolding word_apart_def
proof (intro allI impI notI)
  fix x assume x: "in_range (d + of_nat i) 8 x" "in_range (d + of_nat j) 8 x"
  have k: "unat (x - d) < 2 ^ 64" using unat_lt_exp [of "x - d"] by simp
  have rep: "x = d + of_nat (unat (x - d))" by (rule offset_repr)
  have "i \<le> unat (x - d) \<and> unat (x - d) < i + 8" "j \<le> unat (x - d) \<and> unat (x - d) < j + 8"
    using in_range_offset [OF k assms(2), of d] in_range_offset [OF k assms(3), of d] x
    by (simp_all only: rep [symmetric])
  with assms(1) show False by linarith
qed

section \<open>Character strings\<close>

text \<open>A C string literal as bytes, and the string at an address, within a bound of \<open>n\<close> bytes.\<close>

definition ascii :: "string \<Rightarrow> u8 list" where
  "ascii s = map of_char s"

definition c_string :: "memory \<Rightarrow> u64 \<Rightarrow> nat \<Rightarrow> u8 list" where
  "c_string m a n = takeWhile (\<lambda>b. b \<noteq> 0) (read_bytes m a n)"

section \<open>C strings\<close>

text \<open>A C string ends at its first zero byte.\<close>

definition c_str :: "string \<Rightarrow> string" where
  "c_str s = takeWhile (\<lambda>c. c \<noteq> CHR 0x00) s"

end
