(* ===== verification/Elf_Arith.thy ===== *)
theory Elf_Arith
  imports Yz_Prelude
begin

text \<open>
  The checked arithmetic of the in-memory ELF loader
  (\<^verbatim>\<open>userspace/zygisk/core/src/yukilinker.cpp\<close>, 64-bit build): page size selection, overflow-checked
  addition and multiplication, addition of a signed ELF offset, page rounding.  A C++ function that
  returns \<^verbatim>\<open>bool\<close> and writes \<^verbatim>\<open>*out\<close> is an \<open>option\<close> here: \<open>None\<close> is the
  failure result, and \<open>*out\<close> is written in the other case only.  \<^verbatim>\<open>ElfW(Sxword)\<close> is a
  \<open>u64\<close> read through \<open>sint\<close>.
\<close>

section \<open>Definitions\<close>

definition is_power_of_two :: "u64 \<Rightarrow> bool" where
  "is_power_of_two value \<longleftrightarrow> value \<noteq> 0 \<and> (value AND (value - 1)) = 0"

text \<open>The cached global \<^verbatim>\<open>g_page_size\<close> is passed in and returned; \<open>aux\<close> is the value of
  \<^verbatim>\<open>getauxval(AT_PAGESZ)\<close>.\<close>

definition loader_page_size :: "u64 \<Rightarrow> u64 \<Rightarrow> u64 \<times> u64" where
  "loader_page_size aux g_page_size =
     (let g = (if g_page_size = 0
               then (if 4096 \<le> aux \<and> is_power_of_two aux then aux else 4096)
               else g_page_size)
      in (g, g))"

definition add_overflow :: "u64 \<Rightarrow> u64 \<Rightarrow> u64 option" where
  "add_overflow a b = (if a > SIZE_MAX - b then None else Some (a + b))"

definition multiply_overflow :: "u64 \<Rightarrow> u64 \<Rightarrow> u64 option" where
  "multiply_overflow a b = (if a \<noteq> 0 \<and> b > SIZE_MAX div a then None else Some (a * b))"

definition add_signed_offset :: "u64 \<Rightarrow> u64 \<Rightarrow> u64 option" where
  "add_signed_offset base offset =
     (if 0 \<le> sint offset
      then (if offset > UINTPTR_MAX - base then None else Some (base + offset))
      else let magnitude = - (offset + 1) + 1
           in if magnitude > base then None else Some (base - magnitude))"

definition page_floor :: "u64 \<Rightarrow> u64 \<Rightarrow> u64" where
  "page_floor page_size value = value AND NOT (page_size - 1)"

definition page_ceil :: "u64 \<Rightarrow> u64 \<Rightarrow> u64 option" where
  "page_ceil page_size value =
     (if value > UINTPTR_MAX - (page_size - 1) then None
      else Some (page_floor page_size (value + page_size - 1)))"

definition smaller :: "u64 \<Rightarrow> u64 \<Rightarrow> u64" where
  "smaller a b = (if a < b then a else b)"

section \<open>Properties\<close>

lemma is_power_of_two_iff: "is_power_of_two v \<longleftrightarrow> (\<exists>k < 64. v = 2 ^ k)"
proof
  assume "is_power_of_two v"
  then show "\<exists>k < 64. v = 2 ^ k"
    using word_pow2_exists [of v] by (simp add: is_power_of_two_def)
next
  assume "\<exists>k < 64. v = 2 ^ k"
  then obtain k where k: "k < 64" "v = 2 ^ k" by blast
  have "v AND (v - 1) = 0"
    unfolding k(2)
    by (rule bit_word_eqI) (auto simp: bit_simps simp flip: mask_eq_exp_minus_1)
  with k show "is_power_of_two v" by (simp add: is_power_of_two_def)
qed

lemma is_power_of_twoE:
  assumes "is_power_of_two v"
  obtains k where "k < 64" and "v = 2 ^ k" and "unat v = 2 ^ k"
  using assms unat_exp [where ?'a = 64] by (auto simp: is_power_of_two_iff)

lemma add_overflow_Some [ovf]:
  "add_overflow a b = Some c \<longleftrightarrow> unat a + unat b < 2 ^ 64 \<and> c = a + b"
  by (auto simp: add_overflow_def gr_max_minus_iff)

lemma add_overflow_unat: "add_overflow a b = Some c \<Longrightarrow> unat c = unat a + unat b"
  by (auto simp: add_overflow_Some unat_add_lt)

lemma multiply_overflow_Some [ovf]:
  "multiply_overflow a b = Some c \<longleftrightarrow> unat a * unat b < 2 ^ 64 \<and> c = a * b"
proof (cases "a = 0")
  case True
  then show ?thesis by (auto simp: multiply_overflow_def)
next
  case False
  then have pos: "0 < unat a" by (simp add: unat_gt_0)
  have "b \<le> SIZE_MAX div a \<longleftrightarrow> unat b \<le> (2 ^ 64 - 1) div unat a"
    unfolding word_le_nat_alt unat_div unat_max by simp
  also have "\<dots> \<longleftrightarrow> unat b * unat a \<le> 2 ^ 64 - 1"
    using pos by (simp add: less_eq_div_iff_mult_less_eq)
  also have "\<dots> \<longleftrightarrow> unat a * unat b < 2 ^ 64" by (simp add: mult.commute less_eq_Suc_le)
  finally show ?thesis using False by (auto simp: multiply_overflow_def not_le)
qed

lemma multiply_overflow_unat: "multiply_overflow a b = Some c \<Longrightarrow> unat c = unat a * unat b"
  by (auto simp: multiply_overflow_Some unat_word_ariths)

lemma uint_range: "0 \<le> uint w \<and> uint w < 2 ^ 64" for w :: u64
  using uint_bounded [of w] by simp

lemma sint_range: "- (2 ^ 63) \<le> sint w \<and> sint w < 2 ^ 63" for w :: u64
  using sint_ge [of w] sint_lt [of w] by simp

lemma uint_of_nonneg_sint: "uint w = sint w" if "0 \<le> sint w" for w :: u64
  using that sint_range [of w] by (simp add: uint_sint take_bit_eq_mod)

lemma uint_neg_sint: "uint (- w) = - sint w" if "sint w < 0" for w :: u64
proof -
  have "- w = word_of_int (- sint w)" by simp
  then have "uint (- w) = (- sint w) mod 2 ^ 64"
    by (metis uint_word_of_int len64)
  with that sint_range [of w] show ?thesis by simp
qed

text \<open>\<open>add_signed_offset\<close> is exact: it succeeds precisely when base plus the signed offset is
  representable as an unsigned 64-bit address, and then it returns that sum.\<close>

lemma add_signed_offset_exact:
  "add_signed_offset base offset =
     (if 0 \<le> uint base + sint offset \<and> uint base + sint offset < 2 ^ 64
      then Some (word_of_int (uint base + sint offset)) else None)"
proof (cases "0 \<le> sint offset")
  case True
  then have off: "sint offset = int (unat offset)" using uint_of_nonneg_sint by simp
  have "offset > UINTPTR_MAX - base \<longleftrightarrow> \<not> uint base + sint offset < 2 ^ 64"
    unfolding gr_max_minus_iff off uint_eq_unat len64
    by (metis add.commute of_nat_add of_nat_less_iff of_nat_numeral of_nat_power)
  with True uint_range [of base] show ?thesis
    by (simp add: add_signed_offset_def off)
next
  case False
  then have mag: "uint (- offset) = - sint offset" by (simp add: uint_neg_sint)
  have eq: "- (offset + 1) + 1 = - offset" by simp
  have "- offset > base \<longleftrightarrow> \<not> 0 \<le> uint base + sint offset"
    unfolding word_less_def mag by linarith
  moreover have "uint base + sint offset < 2 ^ 64" using False uint_range [of base] by linarith
  ultimately show ?thesis using False by (simp add: add_signed_offset_def eq)
qed

section \<open>Page rounding\<close>

text \<open>What the loader relies on of its page size: a power of two of at least 4096.\<close>

definition page_size_ok :: "u64 \<Rightarrow> bool" where
  "page_size_ok ps \<longleftrightarrow> 4096 \<le> ps \<and> is_power_of_two ps"

lemma loader_page_size_ok: "page_size_ok (fst (loader_page_size aux 0))"
  by (simp add: loader_page_size_def page_size_ok_def is_power_of_two_def Let_def)

lemma page_size_okE:
  assumes "page_size_ok ps"
  obtains k where "12 \<le> k" and "k < 64" and "ps = 2 ^ k" and "unat ps = 2 ^ k"
proof -
  from assms obtain k where k: "k < 64" "ps = 2 ^ k" "unat ps = 2 ^ k"
    by (auto simp: page_size_ok_def elim: is_power_of_twoE)
  from assms k have "(2 ^ 12 :: nat) \<le> 2 ^ k"
    by (simp add: page_size_ok_def word_le_nat_alt)
  then have "12 \<le> k" by (simp only: power_increasing_iff)
  with k that show ?thesis by blast
qed

lemma unat_page_floor:
  assumes "page_size_ok ps"
  shows "unat (page_floor ps v) = unat v div unat ps * unat ps"
  using assms unfolding page_floor_def by (auto elim!: page_size_okE simp: unat_align_down)

lemma page_floor_le: "page_size_ok ps \<Longrightarrow> page_floor ps v \<le> v"
  by (simp add: word_le_nat_alt unat_page_floor)

lemma page_ceil_Some:
  assumes "page_size_ok ps"
  shows "page_ceil ps v = Some c \<longleftrightarrow>
    unat v + (unat ps - 1) < 2 ^ 64 \<and>
    unat c = (unat v + (unat ps - 1)) div unat ps * unat ps"
proof -
  have p1: "unat (ps - 1) = unat ps - 1"
    using assms by (intro unat_minus_one) (auto simp: page_size_ok_def is_power_of_two_def)
  have up: "unat (v + ps - 1) = unat v + (unat ps - 1)" if "unat v + (unat ps - 1) < 2 ^ 64"
    using that unat_add_lt [of v "ps - 1"] by (simp add: p1 add_diff_eq)
  show ?thesis
    unfolding page_ceil_def gr_max_minus_iff p1
    by (auto simp: word_unat_eq_iff unat_page_floor [OF assms] up)
qed

lemma page_ceil_bound:
  assumes "page_size_ok ps" and "page_ceil ps v = Some c"
  shows "v \<le> c"
proof -
  from assms(1) obtain k where k: "unat ps = 2 ^ k" by (elim page_size_okE)
  from assms(2) have "unat c = (unat v + (2 ^ k - 1)) div 2 ^ k * 2 ^ k"
    unfolding page_ceil_Some [OF assms(1)] k by blast
  then show ?thesis unfolding word_le_nat_alt by (simp only: le_align_up)
qed

text \<open>Page rounding is exact and fails only on overflow: \<open>page_ceil\<close> yields the least multiple of
  the page size that is not below its argument, \<open>page_floor\<close> the greatest that is not above it, and
  \<open>page_ceil\<close> refuses exactly the values within a page of the top of the address space.\<close>

lemma page_rounding:
  assumes "page_size_ok ps"
  shows "unat ps dvd unat (page_floor ps v) \<and> page_floor ps v \<le> v \<and>
     (\<forall>m. unat ps dvd unat m \<and> m \<le> v \<longrightarrow> m \<le> page_floor ps v) \<and>
     (page_ceil ps v = None \<longleftrightarrow> 2 ^ 64 \<le> unat v + (unat ps - 1)) \<and>
     (\<forall>c. page_ceil ps v = Some c \<longrightarrow> unat ps dvd unat c \<and> v \<le> c \<and>
        (\<forall>m. unat ps dvd unat m \<and> v \<le> m \<longrightarrow> c \<le> m))"
proof -
  from assms obtain k where k: "k < 64" "ps = 2 ^ k" "unat ps = 2 ^ k"
    by (elim page_size_okE)
  have none: "page_ceil ps v = None \<longleftrightarrow> 2 ^ 64 \<le> unat v + (unat ps - 1)"
  proof -
    have "unat (ps - 1) = unat ps - 1" using k by (simp add: unat_minus_one)
    then show ?thesis unfolding page_ceil_def gr_max_minus_iff by (simp add: not_less)
  qed
  have floor: "m \<le> page_floor ps v" if "unat ps dvd unat m" "m \<le> v" for m
    using that unfolding word_le_nat_alt unat_page_floor [OF assms] by (rule align_down_greatest [rotated])
  have ceil: "unat ps dvd unat c \<and> v \<le> c \<and> (\<forall>m. unat ps dvd unat m \<and> v \<le> m \<longrightarrow> c \<le> m)"
    if "page_ceil ps v = Some c" for c
  proof -
    from that have c: "unat c = (unat v + (2 ^ k - 1)) div 2 ^ k * 2 ^ k"
      unfolding page_ceil_Some [OF assms] k(3) by blast
    show ?thesis
      unfolding word_le_nat_alt c k(3) by (blast intro: le_align_up align_up_least dvd_triv_right)
  qed
  show ?thesis using none floor ceil
    by (simp add: unat_page_floor [OF assms] page_floor_le [OF assms])
qed

end
