(* ===== verification/Elf_Layout.thy ===== *)
theory Elf_Layout
  imports Elf_Arith
begin

text \<open>
  Inspection of an ELF file before it is mapped (\<^verbatim>\<open>SourceLayout\<close>, \<^verbatim>\<open>file_region_valid\<close>,
  \<^verbatim>\<open>inspect_source\<close> in \<^verbatim>\<open>yukilinker.cpp\<close>, 64-bit build).  The mapped source file is a byte list;
  the ELF structures are read from it at the offsets of the 64-bit ABI (\<^verbatim>\<open>sizeof\<close> 64 for the file
  header, 56 for a program header).
\<close>

section \<open>Definitions\<close>

record Phdr =
  p_type :: u32
  p_flags :: u32
  p_offset :: u64
  p_vaddr :: u64
  p_filesz :: u64
  p_memsz :: u64
  p_align :: u64

definition PT_LOAD :: u32 where "PT_LOAD = 1"
definition PT_DYNAMIC :: u32 where "PT_DYNAMIC = 2"
definition PT_TLS :: u32 where "PT_TLS = 7"
definition PT_GNU_RELRO :: u32 where "PT_GNU_RELRO = 0x6474e552"

definition phdr_at :: "u8 list \<Rightarrow> nat \<Rightarrow> Phdr" where
  "phdr_at bs off =
     \<lparr>p_type = get32 bs off, p_flags = get32 bs (off + 4), p_offset = get64 bs (off + 8),
      p_vaddr = get64 bs (off + 16), p_filesz = get64 bs (off + 32), p_memsz = get64 bs (off + 40),
      p_align = get64 bs (off + 48)\<rparr>"

record SourceLayout =
  sl_program_headers :: "Phdr list"
  sl_lowest_vaddr :: u64
  sl_highest_vaddr :: u64
  sl_dynamic_index :: nat

definition file_region_valid :: "u64 \<Rightarrow> u64 \<Rightarrow> u64 \<Rightarrow> bool" where
  "file_region_valid file_size off bytes \<longleftrightarrow> \<not> off > file_size \<and> bytes \<le> file_size - off"

text \<open>The header test at the start of \<^verbatim>\<open>inspect_source\<close>: magic, class 64, little endian, machine
  AArch64, shared object, size and number of the program headers.\<close>

definition header_ok :: "u8 list \<Rightarrow> bool" where
  "header_ok source \<longleftrightarrow>
     take 4 source = [0x7f, 0x45, 0x4c, 0x46] \<and> source ! 4 = 2 \<and> source ! 5 = 1 \<and>
     get16 source 18 = 183 \<and> get16 source 16 = 3 \<and> get16 source 54 = 56 \<and> get16 source 56 \<noteq> 0"

text \<open>The local variables of the loop over the program headers.  \<^verbatim>\<open>dynamic_index == SIZE_MAX\<close> is
  \<open>None\<close>.\<close>

record inspect_acc =
  low :: u64
  high :: u64
  previous_load_end :: u64
  saw_load :: bool
  dynamic_index :: "nat option"

definition load_header_bad :: "u64 \<Rightarrow> u64 \<Rightarrow> Phdr \<Rightarrow> bool" where
  "load_header_bad page_size file_size ph \<longleftrightarrow>
     p_filesz ph > p_memsz ph \<or>
     \<not> file_region_valid file_size (p_offset ph) (p_filesz ph) \<or>
     (p_align ph > 1 \<and> (\<not> is_power_of_two (p_align ph) \<or>
        (p_vaddr ph AND (p_align ph - 1)) \<noteq> (p_offset ph AND (p_align ph - 1)))) \<or>
     (p_offset ph AND (page_size - 1)) \<noteq> (p_vaddr ph AND (page_size - 1))"

text \<open>One iteration; \<open>None\<close> is \<^verbatim>\<open>return false\<close>.\<close>

definition inspect_phdr :: "u64 \<Rightarrow> u64 \<Rightarrow> nat \<Rightarrow> Phdr \<Rightarrow> inspect_acc \<Rightarrow> inspect_acc option" where
  "inspect_phdr page_size file_size i ph acc =
     (if p_type ph = PT_DYNAMIC \<and> dynamic_index acc \<noteq> None then None else
      let acc = (if p_type ph = PT_DYNAMIC then acc\<lparr>dynamic_index := Some i\<rparr> else acc) in
      if p_type ph \<noteq> PT_LOAD then Some acc
      else if load_header_bad page_size file_size ph then None
      else if p_memsz ph = 0 then Some acc
      else if p_vaddr ph > UINTPTR_MAX - p_memsz ph then None
      else case page_ceil page_size (p_vaddr ph + p_memsz ph) of
             None \<Rightarrow> None
           | Some segment_end \<Rightarrow>
               let segment_begin = page_floor page_size (p_vaddr ph) in
               if saw_load acc \<and> segment_begin < previous_load_end acc then None
               else Some (acc\<lparr>previous_load_end := segment_end, saw_load := True,
                              low := min segment_begin (low acc), high := max segment_end (high acc)\<rparr>))"

fun inspect_phdrs :: "u64 \<Rightarrow> u64 \<Rightarrow> nat \<Rightarrow> Phdr list \<Rightarrow> inspect_acc \<Rightarrow> inspect_acc option" where
  "inspect_phdrs page_size file_size i [] acc = Some acc"
| "inspect_phdrs page_size file_size i (ph # phs) acc =
     (case inspect_phdr page_size file_size i ph acc of
        None \<Rightarrow> None
      | Some acc' \<Rightarrow> inspect_phdrs page_size file_size (Suc i) phs acc')"

definition inspect_start :: inspect_acc where
  "inspect_start = \<lparr>low = UINTPTR_MAX, high = 0, previous_load_end = 0, saw_load = False,
     dynamic_index = None\<rparr>"

definition inspect_source :: "u64 \<Rightarrow> u8 list \<Rightarrow> SourceLayout option" where
  "inspect_source page_size source =
     (let file_size = of_nat (length source) in
      if length source < 64 then None else if \<not> header_ok source then None else
      let e_phoff = get64 source 32; e_phnum = get16 source 56 in
      case multiply_overflow (ucast e_phnum) 56 of
        None \<Rightarrow> None
      | Some phdr_bytes \<Rightarrow>
          if \<not> file_region_valid file_size e_phoff phdr_bytes then None else
          let program_headers = map (\<lambda>i. phdr_at source (unat e_phoff + 56 * i)) [0..<unat e_phnum] in
          case inspect_phdrs page_size file_size 0 program_headers inspect_start of
            None \<Rightarrow> None
          | Some acc \<Rightarrow>
              if low acc = UINTPTR_MAX \<or> high acc \<le> low acc then None else
              (case dynamic_index acc of
                 None \<Rightarrow> None
               | Some d \<Rightarrow> Some \<lparr>sl_program_headers = program_headers, sl_lowest_vaddr = low acc,
                   sl_highest_vaddr = high acc, sl_dynamic_index = d\<rparr>))"

section \<open>What an accepted layout guarantees\<close>

abbreviation mapped_load :: "Phdr \<Rightarrow> bool" where
  "mapped_load ph \<equiv> p_type ph = PT_LOAD \<and> p_memsz ph \<noteq> 0"

text \<open>The page-rounded address range of a segment, as natural numbers.\<close>

definition seg_begin :: "u64 \<Rightarrow> Phdr \<Rightarrow> nat" where
  "seg_begin ps ph = unat (p_vaddr ph) div unat ps * unat ps"

definition seg_end :: "u64 \<Rightarrow> Phdr \<Rightarrow> nat" where
  "seg_end ps ph = (unat (p_vaddr ph) + unat (p_memsz ph) + (unat ps - 1)) div unat ps * unat ps"

definition load_ok :: "u64 \<Rightarrow> nat \<Rightarrow> Phdr \<Rightarrow> bool" where
  "load_ok ps fsize ph \<longleftrightarrow>
     unat (p_filesz ph) \<le> unat (p_memsz ph) \<and>
     unat (p_offset ph) + unat (p_filesz ph) \<le> fsize \<and>
     unat (p_vaddr ph) mod unat ps = unat (p_offset ph) mod unat ps \<and>
     unat (p_vaddr ph) + unat (p_memsz ph) + (unat ps - 1) < 2 ^ 64"

lemma file_region_valid_iff:
  "file_region_valid fs off bytes \<longleftrightarrow> unat off + unat bytes \<le> unat fs"
  by (auto simp: file_region_valid_def not_less word_le_nat_alt unat_diff_le)

text \<open>The loop invariant: the accumulated bounds describe the segments seen so far.\<close>

definition acc_ok :: "u64 \<Rightarrow> nat \<Rightarrow> Phdr list \<Rightarrow> inspect_acc \<Rightarrow> bool" where
  "acc_ok ps fsize phs acc \<longleftrightarrow>
     (\<forall>ph \<in> set phs. mapped_load ph \<longrightarrow> load_ok ps fsize ph \<and>
        unat (low acc) \<le> seg_begin ps ph \<and> seg_end ps ph \<le> unat (high acc) \<and>
        saw_load acc \<and> seg_end ps ph \<le> unat (previous_load_end acc)) \<and>
     sorted_wrt (\<lambda>p q. mapped_load p \<and> mapped_load q \<longrightarrow> seg_end ps p \<le> seg_begin ps q) phs \<and>
     unat ps dvd unat (high acc) \<and> (low acc = UINTPTR_MAX \<or> unat ps dvd unat (low acc)) \<and>
     (\<forall>d. dynamic_index acc = Some d \<longrightarrow> d < length phs \<and> p_type (phs ! d) = PT_DYNAMIC)"

lemma load_ok_step:
  assumes ps: "page_size_ok ps" and good: "\<not> load_header_bad ps fs ph" and fs: "unat fs = fsize"
    and nov: "\<not> p_vaddr ph > UINTPTR_MAX - p_memsz ph"
    and c: "page_ceil ps (p_vaddr ph + p_memsz ph) = Some e"
  shows "load_ok ps fsize ph" and "unat e = seg_end ps ph"
    and "unat (page_floor ps (p_vaddr ph)) = seg_begin ps ph"
proof -
  from ps obtain k where k: "ps = 2 ^ k" "unat ps = 2 ^ k" by (elim page_size_okE)
  have sum: "unat (p_vaddr ph + p_memsz ph) = unat (p_vaddr ph) + unat (p_memsz ph)"
    using nov unat_add_lt [of "p_vaddr ph" "p_memsz ph"] by (simp add: gr_max_minus_iff)
  from c have e: "unat (p_vaddr ph) + unat (p_memsz ph) + (unat ps - 1) < 2 ^ 64"
    "unat e = seg_end ps ph"
    unfolding page_ceil_Some [OF ps] sum seg_end_def by blast+
  have "(p_offset ph AND (ps - 1)) = (p_vaddr ph AND (ps - 1))"
    using good by (simp add: load_header_bad_def)
  then have "unat (p_offset ph AND (2 ^ k - 1)) = unat (p_vaddr ph AND (2 ^ k - 1))"
    by (simp only: k(1))
  then have "unat (p_offset ph) mod unat ps = unat (p_vaddr ph) mod unat ps"
    unfolding unat_and_mask k(2) .
  moreover have "unat (p_filesz ph) \<le> unat (p_memsz ph)"
    "unat (p_offset ph) + unat (p_filesz ph) \<le> fsize"
    using good fs by (auto simp: load_header_bad_def word_less_nat_alt file_region_valid_iff)
  ultimately show "load_ok ps fsize ph" using e(1) by (simp add: load_ok_def)
  show "unat e = seg_end ps ph" by (rule e(2))
  show "unat (page_floor ps (p_vaddr ph)) = seg_begin ps ph"
    by (simp add: unat_page_floor [OF ps] seg_begin_def)
qed

lemma acc_ok_start: "acc_ok ps fsize [] inspect_start"
  by (simp add: acc_ok_def inspect_start_def)

lemma acc_ok_skip:
  assumes "acc_ok ps fsize phs acc" and "\<not> mapped_load ph"
    and "acc' = acc \<or> (p_type ph = PT_DYNAMIC \<and> acc' = acc\<lparr>dynamic_index := Some (length phs)\<rparr>)"
  shows "acc_ok ps fsize (phs @ [ph]) acc'"
  using assms by (auto simp: acc_ok_def sorted_wrt_append nth_append)

lemma acc_ok_load:
  assumes ps: "page_size_ok ps" and acc: "acc_ok ps fsize phs acc" and ld: "mapped_load ph"
    and ok: "load_ok ps fsize ph" and e: "unat e = seg_end ps ph" and b: "unat b = seg_begin ps ph"
    and sep: "\<not> (saw_load acc \<and> b < previous_load_end acc)"
  shows "acc_ok ps fsize (phs @ [ph]) (acc\<lparr>previous_load_end := e, saw_load := True,
     low := min b (low acc), high := max e (high acc)\<rparr>)"
proof -
  have before: "load_ok ps fsize q \<and> unat (low acc) \<le> seg_begin ps q \<and>
      seg_end ps q \<le> unat (high acc) \<and> seg_end ps q \<le> seg_begin ps ph"
    if "q \<in> set phs" "mapped_load q" for q
  proof -
    from that acc have q: "load_ok ps fsize q" "unat (low acc) \<le> seg_begin ps q"
      "seg_end ps q \<le> unat (high acc)" "saw_load acc" "seg_end ps q \<le> unat (previous_load_end acc)"
      by (auto simp: acc_ok_def)
    with sep have "unat (previous_load_end acc) \<le> seg_begin ps ph"
      by (simp add: b [symmetric] word_less_nat_alt not_less)
    with q show ?thesis by simp
  qed
  have order: "seg_begin ps ph \<le> seg_end ps ph"
    unfolding seg_begin_def seg_end_def by (intro mult_le_mono1 div_le_mono) simp
  have dvd: "unat ps dvd unat b" "unat ps dvd unat e"
    by (simp_all add: b e seg_begin_def seg_end_def)
  have mm: "unat (min b (low acc)) = min (unat b) (unat (low acc))"
    "unat (max e (high acc)) = max (unat e) (unat (high acc))"
    by (simp_all add: min_def max_def word_le_nat_alt)
  have low': "min b (low acc) = UINTPTR_MAX \<or> unat ps dvd unat (min b (low acc))"
    using acc dvd by (auto simp: acc_ok_def min_def)
  have high': "unat ps dvd unat (max e (high acc))"
    using acc dvd by (auto simp: acc_ok_def max_def)
  have all: "load_ok ps fsize q \<and> unat (min b (low acc)) \<le> seg_begin ps q \<and>
      seg_end ps q \<le> unat (max e (high acc)) \<and> seg_end ps q \<le> unat e"
    if "q \<in> set (phs @ [ph])" "mapped_load q" for q
  proof (cases "q = ph")
    case True
    with ok show ?thesis by (simp add: mm b e)
  next
    case False
    with that have "q \<in> set phs" by auto
    from before [OF this that(2)] order show ?thesis by (auto simp: mm b e)
  qed
  show ?thesis
    using all before low' high' ld acc
    by (simp add: acc_ok_def sorted_wrt_append nth_append) fastforce
qed

lemma acc_ok_phdr:
  assumes ps: "page_size_ok ps" and fs: "unat fs = fsize" and acc: "acc_ok ps fsize phs acc"
    and step: "inspect_phdr ps fs (length phs) ph acc = Some acc'"
  shows "acc_ok ps fsize (phs @ [ph]) acc'"
proof (cases "mapped_load ph")
  case False
  with step have "acc' = acc \<or> (p_type ph = PT_DYNAMIC \<and> acc' = acc\<lparr>dynamic_index := Some (length phs)\<rparr>)"
    by (auto simp: inspect_phdr_def Let_def PT_DYNAMIC_def PT_LOAD_def split: if_splits)
  with acc False show ?thesis by (rule acc_ok_skip)
next
  case True
  then have "p_type ph \<noteq> PT_DYNAMIC" by (simp add: PT_DYNAMIC_def PT_LOAD_def)
  with True step obtain e where
    good: "\<not> load_header_bad ps fs ph" and nov: "\<not> p_vaddr ph > UINTPTR_MAX - p_memsz ph"
    and c: "page_ceil ps (p_vaddr ph + p_memsz ph) = Some e"
    and sep: "\<not> (saw_load acc \<and> page_floor ps (p_vaddr ph) < previous_load_end acc)"
    and acc': "acc' = acc\<lparr>previous_load_end := e, saw_load := True,
       low := min (page_floor ps (p_vaddr ph)) (low acc), high := max e (high acc)\<rparr>"
    by (auto simp: inspect_phdr_def Let_def split: if_splits option.splits)
  note ok = load_ok_step [OF ps good fs nov c]
  show ?thesis unfolding acc' by (rule acc_ok_load [OF ps acc True ok sep])
qed

lemma acc_ok_phdrs:
  assumes "page_size_ok ps" and "unat fs = fsize" and "acc_ok ps fsize done acc"
    and "inspect_phdrs ps fs (length done) phs acc = Some acc'"
  shows "acc_ok ps fsize (done @ phs) acc'"
  using assms(3,4)
proof (induction phs arbitrary: "done" acc)
  case Nil
  then show ?case by simp
next
  case (Cons ph phs)
  from Cons.prems(2) obtain acc1 where
    step: "inspect_phdr ps fs (length done) ph acc = Some acc1"
    and rest: "inspect_phdrs ps fs (Suc (length done)) phs acc1 = Some acc'"
    by (auto split: option.splits)
  from acc_ok_phdr [OF assms(1,2) Cons.prems(1) step]
  have "acc_ok ps fsize (done @ [ph]) acc1" .
  from Cons.IH [OF this] rest show ?case by simp
qed

lemma inspect_source_sound:
  assumes ps: "page_size_ok ps" and len: "length source < 2 ^ 64"
    and ok: "inspect_source ps source = Some l"
  shows "(\<forall>ph \<in> set (sl_program_headers l). mapped_load ph \<longrightarrow> load_ok ps (length source) ph \<and>
            unat (sl_lowest_vaddr l) \<le> seg_begin ps ph \<and> seg_end ps ph \<le> unat (sl_highest_vaddr l)) \<and>
         sorted_wrt (\<lambda>p q. mapped_load p \<and> mapped_load q \<longrightarrow> seg_end ps p \<le> seg_begin ps q)
           (sl_program_headers l) \<and>
         unat ps dvd unat (sl_lowest_vaddr l) \<and> unat ps dvd unat (sl_highest_vaddr l) \<and>
         sl_lowest_vaddr l < sl_highest_vaddr l \<and>
         sl_dynamic_index l < length (sl_program_headers l) \<and>
         p_type (sl_program_headers l ! sl_dynamic_index l) = PT_DYNAMIC"
proof -
  have fs: "unat (of_nat (length source) :: u64) = length source"
    using len by (simp add: unat_of_nat)
  from ok obtain acc d phs where
    run: "inspect_phdrs ps (of_nat (length source)) 0 phs inspect_start = Some acc"
    and fin: "low acc \<noteq> UINTPTR_MAX" "low acc < high acc" "dynamic_index acc = Some d"
    and l: "l = \<lparr>sl_program_headers = phs, sl_lowest_vaddr = low acc,
       sl_highest_vaddr = high acc, sl_dynamic_index = d\<rparr>"
    by (auto simp: inspect_source_def Let_def not_le split: if_splits option.splits)
  have "acc_ok ps (length source) ([] @ phs) acc"
    by (rule acc_ok_phdrs [OF ps fs acc_ok_start]) (use run in simp)
  then have "acc_ok ps (length source) phs acc" by simp
  with fin show ?thesis unfolding acc_ok_def l by auto
qed

text \<open>C9: An accepted ELF source has a sound segment layout: every mapped LOAD segment reads inside the
  file, does not wrap around the address space, is congruent to its file offset modulo the page size
  and lies inside the reserved range; the page-rounded segments are in ascending order and never
  overlap, and the dynamic segment index names a PT_DYNAMIC header.\<close>

theorem inspect_source_layout:
  assumes ps: "page_size_ok ps" and len: "length source < 2 ^ 64"
    and ok: "inspect_source ps source = Some l"
  shows "(\<forall>ph \<in> set (sl_program_headers l). mapped_load ph \<longrightarrow> load_ok ps (length source) ph \<and>
            unat (sl_lowest_vaddr l) \<le> seg_begin ps ph \<and> seg_end ps ph \<le> unat (sl_highest_vaddr l)) \<and>
         sorted_wrt (\<lambda>p q. mapped_load p \<and> mapped_load q \<longrightarrow> seg_end ps p \<le> seg_begin ps q)
           (sl_program_headers l) \<and>
         unat ps dvd unat (sl_lowest_vaddr l) \<and> unat ps dvd unat (sl_highest_vaddr l) \<and>
         sl_lowest_vaddr l < sl_highest_vaddr l \<and>
         sl_dynamic_index l < length (sl_program_headers l) \<and>
         p_type (sl_program_headers l ! sl_dynamic_index l) = PT_DYNAMIC"
  by (rule inspect_source_sound [OF assms])

text \<open>A small concrete image: one LOAD segment of 300 bytes (176 in the file) and a DYNAMIC header.\<close>

definition encode_phdr :: "Phdr \<Rightarrow> u8 list" where
  "encode_phdr ph = le32 (p_type ph) @ le32 (p_flags ph) @ le64 (p_offset ph) @ le64 (p_vaddr ph) @
     le64 (p_vaddr ph) @ le64 (p_filesz ph) @ le64 (p_memsz ph) @ le64 (p_align ph)"

definition encode_ehdr :: "u16 \<Rightarrow> u8 list" where
  "encode_ehdr phnum = [0x7f, 0x45, 0x4c, 0x46, 2, 1, 1, 0, 0, 0, 0, 0, 0, 0, 0, 0] @ le16 3 @ le16 183 @
     le32 1 @ le64 0 @ le64 64 @ le64 0 @ le32 0 @ le16 64 @ le16 56 @ le16 phnum @ le16 0 @ le16 0 @ le16 0"

definition tiny_load :: Phdr where
  "tiny_load = \<lparr>p_type = 1, p_flags = 5, p_offset = 0, p_vaddr = 0x1000, p_filesz = 176, p_memsz = 300, p_align = 4096\<rparr>"

definition tiny_dynamic :: Phdr where
  "tiny_dynamic = \<lparr>p_type = 2, p_flags = 4, p_offset = 160, p_vaddr = 0x10a0, p_filesz = 16, p_memsz = 16, p_align = 8\<rparr>"

definition tiny_elf :: "u8 list" where
  "tiny_elf = encode_ehdr 2 @ encode_phdr tiny_load @ encode_phdr tiny_dynamic"

lemma length_tiny_elf: "length tiny_elf = 176"
  by (simp add: tiny_elf_def encode_ehdr_def encode_phdr_def)

lemma phdr_at_encode_phdr: "phdr_at (pre @ encode_phdr ph @ post) (length pre) = ph"
  by (cases ph) (simp add: phdr_at_def encode_phdr_def get32_def get64_def)

lemma tiny_elf_phdrs: "phdr_at tiny_elf 64 = tiny_load" "phdr_at tiny_elf 120 = tiny_dynamic"
proof -
  have "length (encode_ehdr 2) = 64" and "length (encode_phdr tiny_load) = 56"
    by (simp_all add: encode_ehdr_def encode_phdr_def)
  then show "phdr_at tiny_elf 64 = tiny_load" "phdr_at tiny_elf 120 = tiny_dynamic"
    using phdr_at_encode_phdr [of "encode_ehdr 2" tiny_load "encode_phdr tiny_dynamic"]
      phdr_at_encode_phdr [of "encode_ehdr 2 @ encode_phdr tiny_load" tiny_dynamic "[]"]
    by (simp_all add: tiny_elf_def)
qed

lemma tiny_elf_header: "header_ok tiny_elf" "get64 tiny_elf 32 = 64" "get16 tiny_elf 56 = 2"
  by (simp_all add: header_ok_def tiny_elf_def encode_ehdr_def get16_def get64_def)

lemma inspect_tiny_elf:
  "inspect_source 4096 tiny_elf = Some \<lparr>sl_program_headers = [tiny_load, tiny_dynamic],
     sl_lowest_vaddr = 0x1000, sl_highest_vaddr = 0x2000, sl_dynamic_index = 1\<rparr>"
  by (simp add: inspect_source_def length_tiny_elf tiny_elf_header tiny_elf_phdrs upt_rec
      multiply_overflow_def file_region_valid_def inspect_phdr_def inspect_start_def
      load_header_bad_def is_power_of_two_def page_ceil_def page_floor_def PT_LOAD_def PT_DYNAMIC_def
      tiny_load_def tiny_dynamic_def Let_def)

theorem inspect_source_layout_witness:
  "page_size_ok 4096 \<and> length tiny_elf < 2 ^ 64 \<and>
   inspect_source 4096 tiny_elf = Some \<lparr>sl_program_headers = [tiny_load, tiny_dynamic],
     sl_lowest_vaddr = 0x1000, sl_highest_vaddr = 0x2000, sl_dynamic_index = 1\<rparr> \<and>
   load_ok 4096 176 tiny_load \<and> seg_end 4096 tiny_load \<le> 0x2000"
proof -
  have ps: "page_size_ok 4096" by (simp add: page_size_ok_def is_power_of_two_def)
  have len: "length tiny_elf < 2 ^ 64" by (simp add: length_tiny_elf)
  have ld: "mapped_load tiny_load" by (simp add: tiny_load_def PT_LOAD_def)
  show ?thesis
    using ps len inspect_tiny_elf inspect_source_layout [OF ps len inspect_tiny_elf] ld
    by (simp add: length_tiny_elf)
qed

end
