(* ===== verification/Metadata_Arena.thy ===== *)
theory Metadata_Arena
  imports Elf_Arith
begin

text \<open>
  The loader's bump allocator for its own bookkeeping (\<^verbatim>\<open>MetadataPage\<close>, \<^verbatim>\<open>metadata_allocate\<close>
  in \<^verbatim>\<open>yukilinker.cpp\<close>).  The linked list \<^verbatim>\<open>g_metadata_pages\<close> is a list of page records, newest
  first; the three header words of a page live in the record and not in the byte memory.  The mutex
  is not modelled: one call is one atomic step.  \<open>mmap\<close>, the system call that supplies a new
  anonymous mapping, is a parameter: it sees the regions that exist and returns the base of a new
  one, or \<open>None\<close> for \<^verbatim>\<open>MAP_FAILED\<close>.
\<close>

section \<open>Definitions\<close>

type_synonym region = "u64 \<times> u64"
type_synonym mmap_fn = "region list \<Rightarrow> u64 \<Rightarrow> u64 option"

record MetadataPage =
  page_base :: u64
  mapped_size :: u64
  cursor :: u64

definition kMetadataPageSize :: u64 where "kMetadataPageSize = 64 * 1024"

text \<open>\<^verbatim>\<open>sizeof(MetadataPage)\<close> is 24 and \<^verbatim>\<open>alignof(max_align_t)\<close> is 16 on arm64.\<close>

definition header_aligned :: u64 where "header_aligned = (24 + 16 - 1) AND NOT (16 - 1)"

definition bump_offset :: "u64 \<Rightarrow> MetadataPage \<Rightarrow> u64" where
  "bump_offset alignment page = (cursor page + alignment - 1) AND NOT (alignment - 1)"

text \<open>The first loop: the first page with room is bumped.\<close>

fun bump_first_fit :: "u64 \<Rightarrow> u64 \<Rightarrow> MetadataPage list \<Rightarrow> (u64 \<times> MetadataPage list) option" where
  "bump_first_fit bytes alignment [] = None"
| "bump_first_fit bytes alignment (page # rest) =
     (let offset = bump_offset alignment page
      in if offset \<le> mapped_size page \<and> bytes \<le> mapped_size page - offset
         then Some (page_base page + offset, page\<lparr>cursor := offset + bytes\<rparr> # rest)
         else (case bump_first_fit bytes alignment rest of
                 None \<Rightarrow> None
               | Some (result, rest') \<Rightarrow> Some (result, page # rest')))"

definition metadata_allocate ::
  "u64 \<Rightarrow> mmap_fn \<Rightarrow> u64 \<Rightarrow> u64 \<Rightarrow> MetadataPage list \<times> memory
     \<Rightarrow> u64 option \<times> MetadataPage list \<times> memory" where
  "metadata_allocate ps mmap bytes alignment s =
     (let (pages, m) = s in
      if bytes = 0 \<or> \<not> is_power_of_two alignment then (None, pages, m) else
      case bump_first_fit bytes alignment pages of
        Some (result, pages') \<Rightarrow> (Some result, pages', write_bytes m result (replicate (unat bytes) 0))
      | None \<Rightarrow>
         (case add_overflow header_aligned (alignment - 1) of None \<Rightarrow> (None, pages, m)
          | Some r1 \<Rightarrow>
         (case add_overflow r1 bytes of None \<Rightarrow> (None, pages, m)
          | Some required \<Rightarrow>
         (case page_ceil ps required of None \<Rightarrow> (None, pages, m)
          | Some rounded \<Rightarrow>
            let mapping_size = (if rounded < kMetadataPageSize then kMetadataPageSize else rounded) in
            case mmap (map (\<lambda>p. (page_base p, mapped_size p)) pages) mapping_size of
              None \<Rightarrow> (None, pages, m)
            | Some mapping \<Rightarrow>
               let page = \<lparr>page_base = mapping, mapped_size = mapping_size, cursor = header_aligned\<rparr>;
                   offset = bump_offset alignment page;
                   result = mapping + offset
               in (Some result, page\<lparr>cursor := offset + bytes\<rparr> # pages,
                   write_bytes m result (replicate (unat bytes) 0))))))"

lemma metadata_allocate_memory:
  assumes "metadata_allocate ps mmap n al (pages, m) = (Some a, pages', m')"
  shows "m' = write_bytes m a (replicate (unat n) 0)"
  using assms by (auto simp: metadata_allocate_def Let_def split: if_splits option.splits)

lemma metadata_allocate_fails:
  assumes "metadata_allocate ps mmap n al (pages, m) = (None, pages', m')"
  shows "pages' = pages \<and> m' = m"
  using assms by (auto simp: metadata_allocate_def Let_def split: if_splits option.splits)

section \<open>The allocator contract\<close>

type_synonym block = "nat \<times> nat"

definition block_disjoint :: "block \<Rightarrow> block \<Rightarrow> bool" where
  "block_disjoint x y \<longleftrightarrow> fst x + snd x \<le> fst y \<or> fst y + snd y \<le> fst x"

text \<open>Documented behaviour of an anonymous private \<^verbatim>\<open>mmap\<close> without an address hint: the new
  mapping is page-aligned, is not at address zero, lies in the user half of the address space, and
  overlaps no mapping that exists.\<close>

definition mmap_documented :: "mmap_fn \<Rightarrow> bool" where
  "mmap_documented mmap \<longleftrightarrow>
     (\<forall>regions size a. mmap regions size = Some a \<longrightarrow>
        0 < unat a \<and> 4096 dvd unat a \<and> unat a + unat size \<le> 2 ^ 63 \<and>
        (\<forall>(b, n) \<in> set regions. block_disjoint (unat a, unat size) (unat b, unat n)))"

text \<open>Serving a list of requests; the blocks handed out are collected, newest first.\<close>

primrec alloc_run ::
  "('req \<Rightarrow> 's \<Rightarrow> u64 option \<times> 's) \<Rightarrow> ('req \<Rightarrow> nat) \<Rightarrow> 'req list \<Rightarrow> 's \<Rightarrow> block list \<Rightarrow> 's \<times> block list"
where
  "alloc_run alloc req_size [] s bs = (s, bs)"
| "alloc_run alloc req_size (r # rs) s bs =
     (case alloc r s of
        (Some a, s') \<Rightarrow> alloc_run alloc req_size rs s' ((unat a, req_size r) # bs)
      | (None, s') \<Rightarrow> alloc_run alloc req_size rs s' bs)"

text \<open>The contract a client of the arena relies on, with the list of live blocks as ghost state.\<close>

locale fresh_allocator =
  fixes alloc :: "'req \<Rightarrow> 's \<Rightarrow> u64 option \<times> 's"
    and req_size :: "'req \<Rightarrow> nat"
    and inv :: "'s \<Rightarrow> block list \<Rightarrow> bool"
  assumes alloc_some: "inv s bs \<Longrightarrow> alloc r s = (Some a, s') \<Longrightarrow> inv s' ((unat a, req_size r) # bs)"
    and alloc_none: "inv s bs \<Longrightarrow> alloc r s = (None, s') \<Longrightarrow> s' = s"
    and inv_disjoint: "inv s bs \<Longrightarrow> sorted_wrt block_disjoint bs"
begin

lemma run_inv: "inv s bs \<Longrightarrow> alloc_run alloc req_size rs s bs = (s', bs') \<Longrightarrow> inv s' bs'"
  by (induction rs arbitrary: s bs)
    (auto split: prod.splits option.splits dest: alloc_some alloc_none)

lemma run_disjoint:
  "inv s bs \<Longrightarrow> alloc_run alloc req_size rs s bs = (s', bs') \<Longrightarrow> sorted_wrt block_disjoint bs'"
  using run_inv inv_disjoint by blast

end

section \<open>The arena provides the contract\<close>

abbreviation page_region :: "MetadataPage \<Rightarrow> block" where
  "page_region p \<equiv> (unat (page_base p), unat (mapped_size p))"

definition page_ok :: "MetadataPage \<Rightarrow> bool" where
  "page_ok p \<longleftrightarrow> 32 \<le> unat (cursor p) \<and> cursor p \<le> mapped_size p \<and>
     unat (page_base p) + unat (mapped_size p) \<le> 2 ^ 63"

definition block_in_page :: "block \<Rightarrow> MetadataPage \<Rightarrow> bool" where
  "block_in_page b p \<longleftrightarrow> unat (page_base p) + 32 \<le> fst b \<and> 0 < snd b \<and>
     fst b + snd b \<le> unat (page_base p) + unat (cursor p)"

definition pages_ok :: "MetadataPage list \<Rightarrow> bool" where
  "pages_ok pages \<longleftrightarrow> list_all page_ok pages \<and>
     sorted_wrt (\<lambda>p q. block_disjoint (page_region p) (page_region q)) pages"

definition arena_inv :: "MetadataPage list \<times> memory \<Rightarrow> block list \<Rightarrow> bool" where
  "arena_inv s bs \<longleftrightarrow> pages_ok (fst s) \<and> sorted_wrt block_disjoint bs \<and>
     (\<forall>b \<in> set bs. \<exists>p \<in> set (fst s). block_in_page b p)"

lemma block_disjoint_sym: "block_disjoint x y = block_disjoint y x"
  by (auto simp: block_disjoint_def)

lemma header_aligned_eq: "header_aligned = 32"
  by (simp add: header_aligned_def)

lemma bump_offset_bounds:
  assumes "is_power_of_two alignment" and "unat (cursor p) \<le> 2 ^ 63"
  shows "unat (cursor p) \<le> unat (bump_offset alignment p)"
    and "unat alignment dvd unat (bump_offset alignment p)"
    and "unat (bump_offset alignment p) \<le> unat (cursor p) + (unat alignment - 1)"
proof -
  from assms(1) obtain k where k: "k < 64" "alignment = 2 ^ k" "unat alignment = 2 ^ k"
    by (elim is_power_of_twoE)
  have k63: "(2 ^ k :: nat) \<le> 2 ^ 63" using k(1) by (intro power_increasing) auto
  have p1: "unat (alignment - 1) = 2 ^ k - 1" using k by (simp add: unat_minus_one)
  have "unat (cursor p) + unat (alignment - 1) < 2 ^ 64"
    using assms(2) k63 unfolding p1 by simp
  then have up: "unat (cursor p + (alignment - 1)) = unat (cursor p) + (2 ^ k - 1)"
    using unat_add_lt [where ?'a = 64] by (simp add: p1)
  have eq: "unat (bump_offset alignment p) = (unat (cursor p) + (2 ^ k - 1)) div 2 ^ k * 2 ^ k"
    unfolding bump_offset_def up [symmetric] k(2) add_diff_eq [symmetric] unat_align_down ..
  show "unat (cursor p) \<le> unat (bump_offset alignment p)"
    unfolding eq by (rule le_align_up)
  show "unat alignment dvd unat (bump_offset alignment p)" unfolding eq k(3) by simp
  show "unat (bump_offset alignment p) \<le> unat (cursor p) + (unat alignment - 1)"
    unfolding eq k(3) by (rule div_times_less_eq_dividend)
qed

lemma bump_first_fit_Some:
  assumes "bump_first_fit bytes alignment pages = Some (a, pages')"
  obtains pre p post where "pages = pre @ p # post"
    and "pages' = pre @ p\<lparr>cursor := bump_offset alignment p + bytes\<rparr> # post"
    and "a = page_base p + bump_offset alignment p"
    and "bump_offset alignment p \<le> mapped_size p"
    and "bytes \<le> mapped_size p - bump_offset alignment p"
  using assms
proof (induction pages arbitrary: pages' thesis)
  case Nil
  then show ?case by simp
next
  case (Cons q qs)
  show ?case
  proof (cases "bump_offset alignment q \<le> mapped_size q \<and>
      bytes \<le> mapped_size q - bump_offset alignment q")
    case True
    with Cons.prems(2) show ?thesis
      by (intro Cons.prems(1) [of "[]" q qs]) (auto simp: Let_def)
  next
    case False
    with Cons.prems(2) obtain qs' where
      qs': "bump_first_fit bytes alignment qs = Some (a, qs')" "pages' = q # qs'"
      by (auto simp: Let_def split: option.splits)
    from qs'(1) show ?thesis
      using Cons.prems(1) [of "q # _"] qs'(2) by (elim Cons.IH [rotated]) (auto intro: append_Cons)
  qed
qed

text \<open>Bumping one page of a well-formed arena hands out a block that is disjoint from all live ones.\<close>

lemma bump_page:
  assumes ok: "pages_ok (pre @ p # post)" and al: "is_power_of_two alignment" and "bytes \<noteq> 0"
    and fit: "bump_offset alignment p \<le> mapped_size p"
      "bytes \<le> mapped_size p - bump_offset alignment p"
  defines "off \<equiv> bump_offset alignment p"
  shows "unat (page_base p + off) = unat (page_base p) + unat off"
    and "unat (off + bytes) = unat off + unat bytes"
    and "unat (cursor p) \<le> unat off"
    and "unat off + unat bytes \<le> unat (mapped_size p)"
    and "pages_ok (pre @ p\<lparr>cursor := off + bytes\<rparr> # post)"
proof -
  from ok have pok: "page_ok p" by (simp add: pages_ok_def)
  then have cur: "unat (cursor p) \<le> 2 ^ 63" by (simp add: page_ok_def word_le_nat_alt)
  show le: "unat (cursor p) \<le> unat off"
    unfolding off_def by (rule bump_offset_bounds(1) [OF al cur])
  show sum: "unat off + unat bytes \<le> unat (mapped_size p)"
    using fit by (simp add: off_def word_le_nat_alt unat_diff_le)
  with pok show "unat (page_base p + off) = unat (page_base p) + unat off"
    by (intro unat_add_lt) (simp add: page_ok_def)
  show ob: "unat (off + bytes) = unat off + unat bytes"
    using sum pok by (intro unat_add_lt) (simp add: page_ok_def)
  have "page_ok (p\<lparr>cursor := off + bytes\<rparr>)"
    using pok le sum by (simp add: page_ok_def word_le_nat_alt ob)
  with ok show "pages_ok (pre @ p\<lparr>cursor := off + bytes\<rparr> # post)"
    by (auto simp: pages_ok_def sorted_wrt_append)
qed

lemma arena_inv_bump:
  assumes inv: "arena_inv (pre @ p # post, m) bs" and al: "is_power_of_two alignment"
    and b0: "bytes \<noteq> 0"
    and fit: "bump_offset alignment p \<le> mapped_size p"
      "bytes \<le> mapped_size p - bump_offset alignment p"
  defines "off \<equiv> bump_offset alignment p"
  shows "arena_inv (pre @ p\<lparr>cursor := off + bytes\<rparr> # post, m')
           ((unat (page_base p + off), unat bytes) # bs)"
proof -
  from inv have ok: "pages_ok (pre @ p # post)" and bs: "sorted_wrt block_disjoint bs"
    and live: "\<And>b. b \<in> set bs \<Longrightarrow> \<exists>q \<in> set (pre @ p # post). block_in_page b q"
    by (auto simp: arena_inv_def)
  note st = bump_page [OF ok al b0 fit, folded off_def]
  let ?p = "p\<lparr>cursor := off + bytes\<rparr>" and ?new = "(unat (page_base p + off), unat bytes)"
  have pos: "0 < unat bytes" using b0 by (simp add: unat_gt_0)
  have pok: "page_ok p" using ok by (simp add: pages_ok_def)
  have new: "block_in_page ?new ?p"
    using st pos pok by (simp add: block_in_page_def page_ok_def)
  have old: "block_disjoint ?new b \<and> (\<exists>q \<in> set (pre @ ?p # post). block_in_page b q)"
    if "b \<in> set bs" for b
  proof -
    from live [OF that] obtain q where q: "q \<in> set (pre @ p # post)" "block_in_page b q" by blast
    show ?thesis
    proof (cases "q = p")
      case True
      with q st show ?thesis by (auto simp: block_in_page_def block_disjoint_def)
    next
      case False
      with q ok have "block_disjoint (page_region p) (page_region q)" and "page_ok q"
        by (auto simp: pages_ok_def sorted_wrt_append list_all_iff block_disjoint_sym)
      then have "block_disjoint ?new b"
        using q(2) st by (auto simp: block_in_page_def block_disjoint_def page_ok_def word_le_nat_alt)
      with False q show ?thesis by auto
    qed
  qed
  with new bs st(5) show ?thesis by (auto simp: arena_inv_def)
qed

lemma arena_inv_new_page:
  assumes inv: "arena_inv (pages, m) bs" and doc: "mmap_documented mmap"
    and mm: "mmap (map (\<lambda>p. (page_base p, mapped_size p)) pages) msize = Some a"
    and sz: "32 \<le> unat msize"
  shows "arena_inv (\<lparr>page_base = a, mapped_size = msize, cursor = header_aligned\<rparr> # pages, m) bs"
proof -
  let ?p = "\<lparr>page_base = a, mapped_size = msize, cursor = header_aligned\<rparr>"
  from doc mm have a: "unat a + unat msize \<le> 2 ^ 63"
    and dis: "\<forall>q \<in> set pages. block_disjoint (unat a, unat msize) (page_region q)"
    unfolding mmap_documented_def by fastforce+
  have "page_ok ?p" using a sz by (simp add: page_ok_def header_aligned_eq word_le_nat_alt)
  with inv dis show ?thesis by (auto simp: arena_inv_def pages_ok_def)
qed

text \<open>The arithmetic of a fresh mapping: the header, the alignment slack and the block fit in it.\<close>

lemma new_page_fits:
  assumes al: "is_power_of_two alignment" and ps: "page_size_ok ps"
    and "add_overflow header_aligned (alignment - 1) = Some r1" "add_overflow r1 bytes = Some required"
    and c: "page_ceil ps required = Some rounded"
    and msize: "msize = (if rounded < kMetadataPageSize then kMetadataPageSize else rounded)"
    and p: "cursor p = header_aligned" "mapped_size p = msize"
  shows "bump_offset alignment p \<le> mapped_size p"
    and "bytes \<le> mapped_size p - bump_offset alignment p" and "32 \<le> unat msize"
proof -
  have a1: "unat (alignment - 1) = unat alignment - 1"
    using al by (intro unat_minus_one) (simp add: is_power_of_two_def)
  have req: "unat required = 32 + (unat alignment - 1) + unat bytes"
    using add_overflow_unat [OF assms(3)] add_overflow_unat [OF assms(4)]
    by (simp add: header_aligned_eq a1)
  have "required \<le> rounded" by (rule page_ceil_bound [OF ps c])
  moreover have "rounded \<le> msize" using msize by (auto split: if_splits)
  ultimately have le: "32 + (unat alignment - 1) + unat bytes \<le> unat msize"
    unfolding req [symmetric] word_le_nat_alt by simp
  have ub: "unat (bump_offset alignment p) \<le> 32 + (unat alignment - 1)"
    using bump_offset_bounds(3) [OF al, of p] p(1) by (simp add: header_aligned_eq)
  show 1: "bump_offset alignment p \<le> mapped_size p"
    using le ub p(2) by (simp add: word_le_nat_alt)
  show "bytes \<le> mapped_size p - bump_offset alignment p"
    using le ub p(2) 1 by (simp add: word_le_nat_alt unat_diff_le)
  show "32 \<le> unat msize" using le by simp
qed

lemma metadata_allocate_Some:
  assumes inv: "arena_inv (pages, m) bs" and doc: "mmap_documented mmap" and ps: "page_size_ok ps"
    and call: "metadata_allocate ps mmap bytes alignment (pages, m) = (Some a, s')"
  obtains pre p post where "arena_inv (pre @ p # post, m) bs"
    and "is_power_of_two alignment" and "bytes \<noteq> 0"
    and "bump_offset alignment p \<le> mapped_size p"
    and "bytes \<le> mapped_size p - bump_offset alignment p"
    and "a = page_base p + bump_offset alignment p"
    and "s' = (pre @ p\<lparr>cursor := bump_offset alignment p + bytes\<rparr> # post,
               write_bytes m a (replicate (unat bytes) 0))"
    and "p \<in> set pages \<or> (\<exists>rs n. mmap rs n = Some (page_base p))"
proof -
  from call have al: "is_power_of_two alignment" and b0: "bytes \<noteq> 0"
    by (auto simp: metadata_allocate_def split: if_splits)
  show ?thesis
  proof (cases "bump_first_fit bytes alignment pages")
    case (Some r)
    then obtain pages' where r: "bump_first_fit bytes alignment pages = Some (a, pages')"
      and s': "s' = (pages', write_bytes m a (replicate (unat bytes) 0))"
      using call al b0 by (cases r) (auto simp: metadata_allocate_def)
    from r show ?thesis
      by (rule bump_first_fit_Some) (use that al b0 inv s' in auto)
  next
    case None
    obtain r1 required rounded msize mapping where
      st: "add_overflow header_aligned (alignment - 1) = Some r1"
        "add_overflow r1 bytes = Some required" "page_ceil ps required = Some rounded"
      and msize: "msize = (if rounded < kMetadataPageSize then kMetadataPageSize else rounded)"
      and mm: "mmap (map (\<lambda>p. (page_base p, mapped_size p)) pages) msize = Some mapping"
      and res: "a = mapping + bump_offset alignment
            \<lparr>page_base = mapping, mapped_size = msize, cursor = header_aligned\<rparr>"
        "s' = (\<lparr>page_base = mapping, mapped_size = msize, cursor = header_aligned\<rparr>
            \<lparr>cursor := bump_offset alignment
              \<lparr>page_base = mapping, mapped_size = msize, cursor = header_aligned\<rparr> + bytes\<rparr> # pages,
            write_bytes m a (replicate (unat bytes) 0))"
      using call al b0 None
      by (auto simp: metadata_allocate_def Let_def split: option.splits)
    let ?p = "\<lparr>page_base = mapping, mapped_size = msize, cursor = header_aligned\<rparr>"
    note fits = new_page_fits [OF al ps st msize, of ?p, simplified]
    have "arena_inv (?p # pages, m) bs" by (rule arena_inv_new_page [OF inv doc mm fits(3)])
    then show ?thesis
      using that [of "[]" ?p pages] al b0 fits(1,2) res mm by simp blast
  qed
qed

lemma metadata_allocate_None:
  "metadata_allocate ps mmap bytes alignment s = (None, s') \<Longrightarrow> s' = s"
  by (auto simp: metadata_allocate_def Let_def split: prod.splits if_splits option.splits)

text \<open>The environment the arena runs in: a page size and an \<open>mmap\<close> that behaves as documented.
  Outside it the contract is stated for calls that refuse everything, so that the interpretation
  needs no assumption.\<close>

definition arena_alloc :: "u64 \<Rightarrow> mmap_fn \<Rightarrow> u64 \<times> u64 \<Rightarrow> MetadataPage list \<times> memory
    \<Rightarrow> u64 option \<times> MetadataPage list \<times> memory" where
  "arena_alloc ps mmap r s = metadata_allocate ps mmap (fst r) (snd r) s"

definition arena_contract :: "u64 \<Rightarrow> mmap_fn \<Rightarrow> MetadataPage list \<times> memory \<Rightarrow> block list \<Rightarrow> bool" where
  "arena_contract ps mmap s bs \<longleftrightarrow> page_size_ok ps \<and> mmap_documented mmap \<and> arena_inv s bs"

interpretation arena: fresh_allocator "arena_alloc ps mmap" "\<lambda>r. unat (fst r)" "arena_contract ps mmap"
  for ps mmap
proof
  fix s bs r a s'
  assume inv: "arena_contract ps mmap s bs" and call: "arena_alloc ps mmap r s = (Some a, s')"
  obtain pages m where s: "s = (pages, m)" by (cases s)
  from inv have env: "mmap_documented mmap" "page_size_ok ps" and ai: "arena_inv (pages, m) bs"
    by (auto simp: arena_contract_def s)
  from call have "metadata_allocate ps mmap (fst r) (snd r) (pages, m) = (Some a, s')"
    by (simp add: arena_alloc_def s)
  from metadata_allocate_Some [OF ai env this] have "arena_inv s' ((unat a, unat (fst r)) # bs)"
    by (metis arena_inv_bump)
  with env show "arena_contract ps mmap s' ((unat a, unat (fst r)) # bs)"
    by (simp add: arena_contract_def)
next
  fix s bs r s'
  assume "arena_alloc ps mmap r s = (None, s')"
  then show "s' = s" by (auto simp: arena_alloc_def dest: metadata_allocate_None)
next
  fix s bs
  assume "arena_contract ps mmap s bs"
  then show "sorted_wrt block_disjoint bs" by (simp add: arena_contract_def arena_inv_def)
qed

text \<open>Starting from an empty arena, whatever sequence of requests (sizes and alignments) is served,
  the blocks \<open>metadata_allocate\<close> hands out are pairwise disjoint.\<close>

lemma arena_blocks_disjoint:
  assumes "page_size_ok ps" and "mmap_documented mmap"
    and "alloc_run (arena_alloc ps mmap) (\<lambda>r. unat (fst r)) requests ([], m) [] = (s', blocks)"
  shows "sorted_wrt block_disjoint blocks"
  using assms(3)
  by (rule arena.run_disjoint [rotated])
    (simp add: assms arena_contract_def arena_inv_def pages_ok_def)

text \<open>A concrete \<open>mmap\<close>: one region at a fixed address, then failure.\<close>

definition mmap_once :: mmap_fn where
  "mmap_once regions n = (if regions = [] \<and> unat n \<le> 2 ^ 32 then Some 0x10000 else None)"

lemma mmap_once_documented: "mmap_documented mmap_once"
  by (auto simp: mmap_documented_def mmap_once_def split: if_splits)

lemma mmap_once_run:
  "snd (alloc_run (arena_alloc 4096 mmap_once) (\<lambda>r. unat (fst r)) [(24, 8), (7, 1), (16, 16)] ([], m) [])
    = [(65600, 16), (65592, 7), (65568, 24)]"
  by (simp add: arena_alloc_def metadata_allocate_def mmap_once_def add_overflow_def page_ceil_def
      page_floor_def header_aligned_def kMetadataPageSize_def bump_offset_def is_power_of_two_def Let_def)

text \<open>A block returned by \<open>metadata_allocate\<close> is aligned as requested (for alignments up to the
  4096 bytes an \<open>mmap\<close> result is aligned to), is zero-filled, and no byte outside it is changed.\<close>

lemma metadata_allocate_block:
  assumes "page_size_ok ps" and "mmap_documented mmap" and "arena_inv (pages, m) bs"
    and "\<forall>p \<in> set pages. 4096 dvd unat (page_base p)" and "unat alignment \<le> 4096"
    and call: "metadata_allocate ps mmap bytes alignment (pages, m) = (Some a, pages', m')"
  shows "unat alignment dvd unat a \<and>
         (\<forall>x. in_range a (unat bytes) x \<longrightarrow> m' x = 0) \<and>
         (\<forall>x. \<not> in_range a (unat bytes) x \<longrightarrow> m' x = m x)"
proof -
  from metadata_allocate_Some [OF assms(3,2,1) call] obtain pre p post where
    inv: "arena_inv (pre @ p # post, m) bs" and al: "is_power_of_two alignment" and b0: "bytes \<noteq> 0"
    and fit: "bump_offset alignment p \<le> mapped_size p"
      "bytes \<le> mapped_size p - bump_offset alignment p"
    and a: "a = page_base p + bump_offset alignment p"
    and m': "m' = write_bytes m a (replicate (unat bytes) 0)"
    and src: "p \<in> set pages \<or> (\<exists>rs n. mmap rs n = Some (page_base p))"
    by (metis Pair_inject)
  from inv have ok: "pages_ok (pre @ p # post)" by (simp add: arena_inv_def)
  then have cur: "unat (cursor p) \<le> 2 ^ 63" by (simp add: pages_ok_def page_ok_def word_le_nat_alt)
  from al obtain k where k: "unat alignment = 2 ^ k" by (elim is_power_of_twoE)
  have "(2 ^ k :: nat) \<le> 2 ^ 12" using assms(5) k by simp
  then have "k \<le> 12" by (simp only: power_increasing_iff)
  then have dvd12: "unat alignment dvd 2 ^ 12" unfolding k by (rule le_imp_power_dvd)
  have "4096 dvd unat (page_base p)"
    using src assms(2,4) by (auto simp: mmap_documented_def)
  with dvd12 have "unat alignment dvd unat (page_base p)" by (auto intro: dvd_trans)
  then have "unat alignment dvd unat a"
    using bump_offset_bounds(2) [OF al cur] bump_page(1) [OF ok al b0 fit] by (simp add: a)
  then show ?thesis by (auto simp: m' write_bytes_def in_range_def)
qed

end
