(* ===== verification/Address_Space.thy ===== *)
theory Address_Space
  imports Elf_Layout Metadata_Arena
begin

text \<open>
  The address space of a loaded image (\<^verbatim>\<open>AddressSpace\<close>, \<^verbatim>\<open>address_space_contains\<close>,
  \<^verbatim>\<open>runtime_pointer\<close>, \<^verbatim>\<open>map_one_segment\<close>, \<^verbatim>\<open>create_address_space\<close>,
  \<^verbatim>\<open>restore_anonymous_protections\<close>, \<^verbatim>\<open>protect_relro\<close> in \<^verbatim>\<open>yukilinker.cpp\<close>).

  The process memory is a byte map, a protection per address (\<open>None\<close> when unmapped) and the log of
  \<^verbatim>\<open>munmap\<close> calls.  The kernel decides whether a mapping call succeeds and which address an
  unhinted \<^verbatim>\<open>mmap\<close> gets; those decisions are the fields of the parameter \<open>os\<close>.  The effect of a
  successful call (zero-filled anonymous memory, file contents followed by zeros) is part of the
  model.  Instruction cache maintenance has no effect on it.
\<close>

section \<open>Process memory\<close>

record vm =
  vm_mem :: memory
  vm_prot :: "u64 \<Rightarrow> u32 option"
  vm_munmaps :: "region list"

record os =
  os_mmap :: mmap_fn
  os_mmap_fixed :: "vm \<Rightarrow> u64 \<Rightarrow> u64 \<Rightarrow> u32 \<Rightarrow> bool"
  os_mprotect :: "vm \<Rightarrow> u64 \<Rightarrow> u64 \<Rightarrow> u32 \<Rightarrow> bool"

abbreviation (input) PROT_READ :: u32 where "PROT_READ \<equiv> 1"
abbreviation (input) PROT_WRITE :: u32 where "PROT_WRITE \<equiv> 2"
abbreviation (input) PROT_EXEC :: u32 where "PROT_EXEC \<equiv> 4"

definition vm_protect :: "u64 \<Rightarrow> u64 \<Rightarrow> u32 option \<Rightarrow> vm \<Rightarrow> vm" where
  "vm_protect a len p v =
     v\<lparr>vm_prot := (\<lambda>x. if in_range a (unat len) x then p else vm_prot v x)\<rparr>"

definition vm_map_anon :: "u64 \<Rightarrow> u64 \<Rightarrow> u32 \<Rightarrow> vm \<Rightarrow> vm" where
  "vm_map_anon a len p v =
     vm_protect a len (Some p)
       (v\<lparr>vm_mem := (\<lambda>x. if in_range a (unat len) x then 0 else vm_mem v x)\<rparr>)"

definition vm_map_file :: "u64 \<Rightarrow> u64 \<Rightarrow> u32 \<Rightarrow> u8 list \<Rightarrow> u64 \<Rightarrow> vm \<Rightarrow> vm" where
  "vm_map_file a len p file off v =
     vm_protect a len (Some p)
       (v\<lparr>vm_mem := (\<lambda>x. if in_range a (unat len) x
                         then let i = unat off + unat (x - a) in if i < length file then file ! i else 0
                         else vm_mem v x)\<rparr>)"

definition vm_munmap :: "u64 \<Rightarrow> u64 \<Rightarrow> vm \<Rightarrow> vm" where
  "vm_munmap a len v = (vm_protect a len None v)\<lparr>vm_munmaps := vm_munmaps v @ [(a, len)]\<rparr>"

definition vm_store :: "u64 \<Rightarrow> u8 list \<Rightarrow> vm \<Rightarrow> vm" where
  "vm_store a bs v = v\<lparr>vm_mem := write_bytes (vm_mem v) a bs\<rparr>"

lemma vm_store_simps [simp]:
  "vm_mem (vm_store a bs v) = write_bytes (vm_mem v) a bs" "vm_prot (vm_store a bs v) = vm_prot v"
  by (simp_all add: vm_store_def)

text \<open>The same pages are mapped, with the same protections and contents.\<close>

definition same_pages :: "vm \<Rightarrow> vm \<Rightarrow> bool" where
  "same_pages v w \<longleftrightarrow> vm_prot w = vm_prot v \<and> (\<forall>x. vm_prot v x \<noteq> None \<longrightarrow> vm_mem w x = vm_mem v x)"

text \<open>One page is new: it was unmapped before; outside of it nothing changed.\<close>

definition one_more_page :: "vm \<Rightarrow> u64 \<Rightarrow> u32 \<Rightarrow> vm \<Rightarrow> bool" where
  "one_more_page v p prot w \<longleftrightarrow>
     (\<forall>x. in_range p 0x1000 x \<longrightarrow> vm_prot v x = None) \<and>
     vm_prot w = (\<lambda>x. if in_range p 0x1000 x then Some prot else vm_prot v x) \<and>
     (\<forall>x. vm_prot v x \<noteq> None \<longrightarrow> vm_mem w x = vm_mem v x)"

lemma same_pages_refl: "same_pages v v"
  by (simp add: same_pages_def)

lemma same_pages_trans: "same_pages u v \<Longrightarrow> same_pages v w \<Longrightarrow> same_pages u w"
  by (simp add: same_pages_def)

lemma same_then_more: "same_pages u v \<Longrightarrow> one_more_page v p prot w \<Longrightarrow> one_more_page u p prot w"
  by (auto simp: same_pages_def one_more_page_def fun_eq_iff)

lemma more_then_unmap: "one_more_page u p prot w \<Longrightarrow> same_pages u (vm_munmap p 0x1000 w)"
  by (auto simp: same_pages_def one_more_page_def vm_munmap_def vm_protect_def fun_eq_iff)

section \<open>The image's address space\<close>

record AddressSpace =
  reservation :: u64
  span :: u64
  lowest_vaddr :: u64
  bias :: u64
  program_headers :: "Phdr list"
  file_backed :: bool

definition empty_space :: AddressSpace where
  "empty_space = \<lparr>reservation = 0, span = 0, lowest_vaddr = 0, bias = 0, program_headers = [],
     file_backed = False\<rparr>"

definition address_space_contains :: "AddressSpace \<Rightarrow> u64 \<Rightarrow> u64 \<Rightarrow> bool" where
  "address_space_contains sp pointer bytes \<longleftrightarrow>
     reservation sp \<noteq> 0 \<and> pointer \<noteq> 0 \<and>
     \<not> (pointer < reservation sp \<or> pointer - reservation sp > span sp) \<and>
     bytes \<le> span sp - (pointer - reservation sp)"

text \<open>\<open>size_of_T\<close> is \<^verbatim>\<open>sizeof(T)\<close> of the template; \<open>None\<close> is \<^verbatim>\<open>nullptr\<close>.\<close>

definition runtime_pointer :: "AddressSpace \<Rightarrow> u64 \<Rightarrow> u64 \<Rightarrow> u64 \<Rightarrow> u64 option" where
  "runtime_pointer sp size_of_T virtual_address count =
     (case multiply_overflow size_of_T count of
        None \<Rightarrow> None
      | Some bytes \<Rightarrow>
          if virtual_address > UINTPTR_MAX - bias sp then None
          else let pointer = bias sp + virtual_address
               in if address_space_contains sp pointer bytes then Some pointer else None)"

definition protection_for :: "u32 \<Rightarrow> u32" where
  "protection_for flags =
     (if (flags AND 4) \<noteq> 0 then PROT_READ else 0) OR (if (flags AND 2) \<noteq> 0 then PROT_WRITE else 0) OR
     (if (flags AND 1) \<noteq> 0 then PROT_EXEC else 0)"

text \<open>The result is the C++ result together with the memory reached: a failing call leaves what it
  had mapped, and its caller unmaps the whole reservation.\<close>

definition map_one_segment ::
  "os \<Rightarrow> u64 \<Rightarrow> u8 list \<Rightarrow> AddressSpace \<Rightarrow> Phdr \<Rightarrow> vm \<Rightarrow> bool \<times> vm" where
  "map_one_segment os ps source sp ph v =
     (let segment_page = page_floor ps (p_vaddr ph);
          page_prefix = p_vaddr ph - segment_page in
      case page_ceil ps (page_prefix + p_memsz ph) of
        None \<Rightarrow> (False, v)
      | Some mapped_bytes \<Rightarrow>
        let destination = bias sp + segment_page in
        if \<not> file_backed sp then
          (let loading_protection = protection_for (p_flags ph) OR PROT_READ OR PROT_WRITE in
           if \<not> os_mmap_fixed os v destination mapped_bytes loading_protection then (False, v) else
           let v1 = vm_map_anon destination mapped_bytes loading_protection v in
           if p_filesz ph \<noteq> 0 then
             (if \<not> file_region_valid (of_nat (length source)) (p_offset ph) (p_filesz ph) then (False, v1)
              else (True, vm_store (destination + page_prefix)
                      (take (unat (p_filesz ph)) (drop (unat (p_offset ph)) source)) v1))
           else (True, v1))
        else
          (case page_ceil ps (page_prefix + p_filesz ph) of
             None \<Rightarrow> (False, v)
           | Some file_mapping_bytes \<Rightarrow>
             let final_protection = protection_for (p_flags ph);
                 aligned_file_offset = p_offset ph - page_prefix in
             if file_mapping_bytes \<noteq> 0 \<and>
                \<not> os_mmap_fixed os v destination file_mapping_bytes final_protection then (False, v) else
             let v1 = (if file_mapping_bytes \<noteq> 0
                       then vm_map_file destination file_mapping_bytes final_protection source
                              aligned_file_offset v
                       else v);
                 data_end = page_prefix + p_filesz ph;
                 zero_available = (if file_mapping_bytes > data_end then file_mapping_bytes - data_end else 0);
                 bss_bytes = p_memsz ph - p_filesz ph;
                 zero_bytes = smaller zero_available bss_bytes in
             if zero_bytes \<noteq> 0 \<and> (final_protection AND PROT_WRITE) = 0 then (False, v1) else
             let v2 = (if zero_bytes \<noteq> 0
                       then vm_store (destination + data_end) (replicate (unat zero_bytes) 0) v1
                       else v1) in
             if mapped_bytes > file_mapping_bytes then
               (let bss = destination + file_mapping_bytes in
                if \<not> os_mmap_fixed os v2 bss (mapped_bytes - file_mapping_bytes) final_protection
                then (False, v2)
                else (True, vm_map_anon bss (mapped_bytes - file_mapping_bytes) final_protection v2))
             else (True, v2)))"

fun map_segments :: "os \<Rightarrow> u64 \<Rightarrow> u8 list \<Rightarrow> AddressSpace \<Rightarrow> Phdr list \<Rightarrow> vm \<Rightarrow> bool \<times> vm" where
  "map_segments os ps source sp [] v = (True, v)"
| "map_segments os ps source sp (ph # phs) v =
     (if p_type ph = PT_LOAD \<and> p_memsz ph \<noteq> 0
      then (case map_one_segment os ps source sp ph v of
              (False, v') \<Rightarrow> (False, v')
            | (True, v') \<Rightarrow> map_segments os ps source sp phs v')
      else map_segments os ps source sp phs v)"

text \<open>\<open>live\<close> lists the regions mapped elsewhere in the process, \<open>pages\<close> the metadata arena.\<close>

definition create_address_space ::
  "os \<Rightarrow> u64 \<Rightarrow> region list \<Rightarrow> u8 list \<Rightarrow> SourceLayout \<Rightarrow> bool \<Rightarrow> AddressSpace
     \<Rightarrow> MetadataPage list \<Rightarrow> vm \<Rightarrow> bool \<times> AddressSpace \<times> MetadataPage list \<times> vm" where
  "create_address_space os ps live source layout fbacked sp pages v =
     (let sz = sl_highest_vaddr layout - sl_lowest_vaddr layout in
      case os_mmap os (live @ map (\<lambda>p. (page_base p, mapped_size p)) pages) sz of
        None \<Rightarrow> (False, sp, pages, v)
      | Some res \<Rightarrow>
        let v1 = vm_map_anon res sz 0 v;
            sp1 = sp\<lparr>reservation := res, span := sz, lowest_vaddr := sl_lowest_vaddr layout,
                     bias := res - sl_lowest_vaddr layout, file_backed := fbacked\<rparr>;
            phs = sl_program_headers layout in
        case multiply_overflow (of_nat (length phs)) 56 of
          None \<Rightarrow> (False, sp1, pages, vm_munmap res sz v1)
        | Some phdr_bytes \<Rightarrow>
          case metadata_allocate ps (\<lambda>rs. os_mmap os ((res, sz) # live @ rs)) phdr_bytes 8
                 (pages, vm_mem v1) of
            (None, pages1, m1) \<Rightarrow> (False, sp1, pages1, vm_munmap res sz (v1\<lparr>vm_mem := m1\<rparr>))
          | (Some copy, pages1, m1) \<Rightarrow>
            let sp2 = sp1\<lparr>program_headers := phs\<rparr> in
            case map_segments os ps source sp2 phs (v1\<lparr>vm_mem := m1\<rparr>) of
              (True, v2) \<Rightarrow> (True, sp2, pages1, v2)
            | (False, v2) \<Rightarrow> (False, sp2\<lparr>reservation := 0, span := 0\<rparr>, pages1, vm_munmap res sz v2))"

fun restore_protections :: "os \<Rightarrow> u64 \<Rightarrow> AddressSpace \<Rightarrow> Phdr list \<Rightarrow> vm \<Rightarrow> bool \<times> vm" where
  "restore_protections os ps sp [] v = (True, v)"
| "restore_protections os ps sp (ph # phs) v =
     (if p_type ph \<noteq> PT_LOAD \<or> p_memsz ph = 0 then restore_protections os ps sp phs v else
      let segment_page = page_floor ps (p_vaddr ph);
          prefix = p_vaddr ph - segment_page in
      case page_ceil ps (prefix + p_memsz ph) of
        None \<Rightarrow> (False, v)
      | Some rounded \<Rightarrow>
        (case runtime_pointer sp 1 segment_page rounded of
           None \<Rightarrow> (False, v)
         | Some address \<Rightarrow>
           let protection = protection_for (p_flags ph) in
           if \<not> os_mprotect os v address rounded protection then (False, v)
           else restore_protections os ps sp phs (vm_protect address rounded (Some protection) v)))"

definition restore_anonymous_protections :: "os \<Rightarrow> u64 \<Rightarrow> AddressSpace \<Rightarrow> vm \<Rightarrow> bool \<times> vm" where
  "restore_anonymous_protections os ps sp v =
     (if file_backed sp then (True, v) else restore_protections os ps sp (program_headers sp) v)"

fun protect_relro_loop :: "os \<Rightarrow> u64 \<Rightarrow> AddressSpace \<Rightarrow> Phdr list \<Rightarrow> vm \<Rightarrow> bool \<times> vm" where
  "protect_relro_loop os ps sp [] v = (True, v)"
| "protect_relro_loop os ps sp (ph # phs) v =
     (if p_type ph \<noteq> PT_GNU_RELRO \<or> p_memsz ph = 0 then protect_relro_loop os ps sp phs v else
      if p_vaddr ph > UINTPTR_MAX - bias sp then (False, v) else
      let unrounded_start = bias sp + p_vaddr ph in
      if p_memsz ph > UINTPTR_MAX - unrounded_start then (False, v) else
      let start = page_floor ps unrounded_start in
      case page_ceil ps (unrounded_start + p_memsz ph) of
        None \<Rightarrow> (False, v)
      | Some relro_end \<Rightarrow>
        if relro_end \<le> start then (False, v) else
        if \<not> address_space_contains sp start (relro_end - start) then (False, v) else
        if \<not> os_mprotect os v start (relro_end - start) PROT_READ then (False, v) else
        protect_relro_loop os ps sp phs (vm_protect start (relro_end - start) (Some PROT_READ) v))"

definition protect_relro :: "os \<Rightarrow> u64 \<Rightarrow> AddressSpace \<Rightarrow> vm \<Rightarrow> bool \<times> vm" where
  "protect_relro os ps sp v = protect_relro_loop os ps sp (program_headers sp) v"

section \<open>Checked pointers\<close>

text \<open>A reservation that does not wrap around the address space, as every mapping is.\<close>

definition space_ok :: "AddressSpace \<Rightarrow> bool" where
  "space_ok sp \<longleftrightarrow> reservation sp \<noteq> 0 \<and> unat (reservation sp) + unat (span sp) < 2 ^ 64 \<and>
     bias sp = reservation sp - lowest_vaddr sp"

definition in_image :: "AddressSpace \<Rightarrow> u64 \<Rightarrow> bool" where
  "in_image sp x \<longleftrightarrow> in_range (reservation sp) (unat (span sp)) x"

lemma address_space_contains_iff:
  "address_space_contains sp p n \<longleftrightarrow> reservation sp \<noteq> 0 \<and> unat (reservation sp) \<le> unat p \<and>
     unat p + unat n \<le> unat (reservation sp) + unat (span sp)"
proof (cases "unat (reservation sp) \<le> unat p")
  case True
  then have d: "unat (p - reservation sp) = unat p - unat (reservation sp)" by (rule unat_diff_le)
  have nz: "reservation sp \<noteq> 0 \<Longrightarrow> p \<noteq> 0"
    unfolding unat_gt_0 [symmetric] using True by linarith
  show ?thesis
  proof (cases "unat p - unat (reservation sp) \<le> unat (span sp)")
    case inside: True
    then have "unat (span sp - (p - reservation sp)) =
        unat (span sp) - (unat p - unat (reservation sp))"
      using unat_diff_le [of "p - reservation sp" "span sp"] by (simp add: d)
    with True inside nz d show ?thesis
      by (auto simp: address_space_contains_def word_less_nat_alt word_le_nat_alt)
  next
    case False
    with True d show ?thesis
      by (auto simp: address_space_contains_def word_less_nat_alt word_le_nat_alt)
  qed
next
  case False
  then show ?thesis by (auto simp: address_space_contains_def word_less_nat_alt)
qed

lemma contains_in_image:
  assumes "space_ok sp" and "address_space_contains sp p n" and "in_range p (unat n) x"
  shows "in_image sp x"
proof -
  let ?r = "reservation sp"
  from assms(2) have c: "unat ?r \<le> unat p" "unat p + unat n \<le> unat ?r + unat (span sp)"
    by (simp_all add: address_space_contains_iff)
  have "x - ?r = (p - ?r) + (x - p)" by simp
  moreover have "unat (p - ?r) = unat p - unat ?r" using c(1) by (rule unat_diff_le)
  moreover have "unat ((p - ?r) + (x - p)) = unat (p - ?r) + unat (x - p)"
    using assms(1,3) c calculation(2)
    by (intro unat_add_lt) (simp add: space_ok_def in_range_def, linarith)
  ultimately show ?thesis using assms(3) c by (simp add: in_image_def in_range_def)
qed

lemma runtime_pointerD:
  assumes "runtime_pointer sp size_of_T va count = Some p"
  obtains bytes where "unat bytes = unat size_of_T * unat count" and "p = bias sp + va"
    and "address_space_contains sp p bytes" and "unat (bias sp) + unat va < 2 ^ 64"
proof -
  from assms obtain bytes where m: "multiply_overflow size_of_T count = Some bytes"
    by (cases "multiply_overflow size_of_T count") (simp_all add: runtime_pointer_def)
  from assms have "(if va > UINTPTR_MAX - bias sp then None
      else if address_space_contains sp (bias sp + va) bytes then Some (bias sp + va) else None) = Some p"
    by (simp only: runtime_pointer_def Let_def m option.case)
  then have nov: "\<not> va > UINTPTR_MAX - bias sp" and p: "p = bias sp + va"
    and c: "address_space_contains sp p bytes"
    by (metis option.distinct(1) option.inject)+
  from nov have "unat (bias sp) + unat va < 2 ^ 64"
    unfolding gr_max_minus_u64 not_not .
  with that [OF multiply_overflow_unat [OF m] p c] show ?thesis by blast
qed

text \<open>\<open>runtime_pointer\<close> is a bounds check: a pointer it returns is \<open>bias\<close> plus the virtual
  address without wrap-around, and all the bytes of the requested objects lie inside the image.\<close>

lemma runtime_pointer_safe:
  assumes "space_ok sp" and "runtime_pointer sp size_of_T va count = Some p"
  shows "p = bias sp + va \<and> unat p = unat (bias sp) + unat va \<and> p \<noteq> 0 \<and>
    (\<forall>x. in_range p (unat size_of_T * unat count) x \<longrightarrow> in_image sp x)"
proof -
  from assms(2) obtain bytes where b: "unat bytes = unat size_of_T * unat count"
    and p: "p = bias sp + va" and c: "address_space_contains sp p bytes"
    and nov: "unat (bias sp) + unat va < 2 ^ 64"
    by (rule runtime_pointerD)
  from nov have "unat p = unat (bias sp) + unat va" unfolding p by (intro unat_add_lt) simp
  moreover have "p \<noteq> 0" using c by (simp add: address_space_contains_def)
  moreover have "in_image sp x" if "in_range p (unat size_of_T * unat count) x" for x
    using contains_in_image [OF assms(1) c] that b by simp
  ultimately show ?thesis using p by blast
qed

end
