(* ===== verification/Segment_Mapping.thy ===== *)
theory Segment_Mapping
  imports Address_Space
begin

text \<open>
  Correctness of segment mapping: what the memory of an image holds after \<^verbatim>\<open>map_one_segment\<close> and
  \<^verbatim>\<open>create_address_space\<close>, in both modes (anonymous copy and file-backed mapping).  Addresses are
  handled as offsets from the start of a segment or of the reservation.
\<close>

section \<open>Arithmetic of one segment\<close>

text \<open>What byte \<open>i\<close> of a loaded segment must hold.\<close>

definition seg_byte :: "u8 list \<Rightarrow> Phdr \<Rightarrow> nat \<Rightarrow> u8" where
  "seg_byte source ph i = (if i < unat (p_filesz ph) then source ! (unat (p_offset ph) + i) else 0)"

definition seg_prefix :: "u64 \<Rightarrow> Phdr \<Rightarrow> nat" where
  "seg_prefix ps ph = unat (p_vaddr ph) mod unat ps"

definition seg_mapped :: "u64 \<Rightarrow> Phdr \<Rightarrow> nat" where
  "seg_mapped ps ph = (seg_prefix ps ph + unat (p_memsz ph) + (unat ps - 1)) div unat ps * unat ps"

definition seg_file_mapped :: "u64 \<Rightarrow> Phdr \<Rightarrow> nat" where
  "seg_file_mapped ps ph = (seg_prefix ps ph + unat (p_filesz ph) + (unat ps - 1)) div unat ps * unat ps"

lemma seg_split: "unat (p_vaddr ph) = seg_begin ps ph + seg_prefix ps ph"
  by (simp add: seg_begin_def seg_prefix_def)

lemma seg_end_mapped:
  assumes "page_size_ok ps"
  shows "seg_end ps ph = seg_begin ps ph + seg_mapped ps ph"
proof -
  have pos: "0 < unat ps" using assms by (elim page_size_okE) simp
  have "unat (p_vaddr ph) + unat (p_memsz ph) + (unat ps - 1)
      = (seg_prefix ps ph + unat (p_memsz ph) + (unat ps - 1)) + unat (p_vaddr ph) div unat ps * unat ps"
    using seg_split [of ph ps] by (simp add: seg_begin_def)
  then show ?thesis
    using pos by (simp only: seg_end_def seg_mapped_def seg_begin_def div_mult_self1 neq0_conv add_mult_distrib)
qed

lemma round_up_bounds:
  assumes "page_size_ok ps"
  shows "n \<le> (n + (unat ps - 1)) div unat ps * unat ps"
    and "n \<le> m \<Longrightarrow> (n + (unat ps - 1)) div unat ps * unat ps \<le> (m + (unat ps - 1)) div unat ps * unat ps"
    and "(n + (unat ps - 1)) div unat ps * unat ps \<le> n + (unat ps - 1)"
proof -
  from assms obtain k where k: "unat ps = 2 ^ k" by (elim page_size_okE)
  show "n \<le> (n + (unat ps - 1)) div unat ps * unat ps" unfolding k by (rule le_align_up)
  show "(n + (unat ps - 1)) div unat ps * unat ps \<le> n + (unat ps - 1)"
    by (rule div_times_less_eq_dividend)
  show "n \<le> m \<Longrightarrow> (n + (unat ps - 1)) div unat ps * unat ps \<le> (m + (unat ps - 1)) div unat ps * unat ps"
    by (intro mult_le_mono1 div_le_mono) simp
qed

lemma seg_arith:
  assumes ps: "page_size_ok ps" and ok: "load_ok ps n ph"
  defines "pre \<equiv> p_vaddr ph - page_floor ps (p_vaddr ph)"
  obtains M F where
    "pre = of_nat (seg_prefix ps ph)" and "unat pre = seg_prefix ps ph"
    and "page_ceil ps (pre + p_memsz ph) = Some M" and "unat M = seg_mapped ps ph"
    and "page_ceil ps (pre + p_filesz ph) = Some F" and "unat F = seg_file_mapped ps ph"
    and "seg_file_mapped ps ph \<le> seg_mapped ps ph"
    and "seg_prefix ps ph + unat (p_memsz ph) \<le> seg_mapped ps ph"
    and "seg_prefix ps ph + unat (p_filesz ph) \<le> seg_file_mapped ps ph"
    and "seg_mapped ps ph < 2 ^ 64"
    and "unat (pre + p_filesz ph) = seg_prefix ps ph + unat (p_filesz ph)"
proof -
  have fl: "unat (page_floor ps (p_vaddr ph)) = seg_begin ps ph"
    by (simp add: unat_page_floor [OF ps] seg_begin_def)
  have up: "unat pre = seg_prefix ps ph"
    unfolding pre_def using seg_split [of ph ps] unat_diff_le [of "page_floor ps (p_vaddr ph)" "p_vaddr ph"]
    by (simp add: fl)
  then have preq: "pre = of_nat (seg_prefix ps ph)" by (metis of_nat_unat ucast_id)
  from ok have lt: "unat (p_vaddr ph) + unat (p_memsz ph) + (unat ps - 1) < 2 ^ 64"
    and fm: "unat (p_filesz ph) \<le> unat (p_memsz ph)" by (simp_all add: load_ok_def)
  then have lt1: "seg_prefix ps ph + unat (p_memsz ph) + (unat ps - 1) < 2 ^ 64"
    using seg_split [of ph ps] by linarith
  then have lt2: "seg_prefix ps ph + unat (p_filesz ph) + (unat ps - 1) < 2 ^ 64" using fm by linarith
  have s1: "unat (pre + p_memsz ph) = seg_prefix ps ph + unat (p_memsz ph)"
    using lt1 up by (subst unat_add_lt) simp_all
  have s2: "unat (pre + p_filesz ph) = seg_prefix ps ph + unat (p_filesz ph)"
    using lt2 up by (subst unat_add_lt) simp_all
  have m64: "seg_mapped ps ph < 2 ^ 64"
    unfolding seg_mapped_def by (rule le_less_trans [OF round_up_bounds(3) [OF ps] lt1])
  have f64: "seg_file_mapped ps ph < 2 ^ 64"
    unfolding seg_file_mapped_def by (rule le_less_trans [OF round_up_bounds(3) [OF ps] lt2])
  have c1: "page_ceil ps (pre + p_memsz ph) = Some (of_nat (seg_mapped ps ph))"
    unfolding page_ceil_Some [OF ps] s1 unat_of_nat_u64 [OF m64] using lt1 by (simp add: seg_mapped_def)
  have c2: "page_ceil ps (pre + p_filesz ph) = Some (of_nat (seg_file_mapped ps ph))"
    unfolding page_ceil_Some [OF ps] s2 unat_of_nat_u64 [OF f64] using lt2
    by (simp add: seg_file_mapped_def)
  show ?thesis
  proof (rule that [OF preq up c1 unat_of_nat_u64 [OF m64] c2 unat_of_nat_u64 [OF f64] _ _ _ m64 s2])
    show "seg_file_mapped ps ph \<le> seg_mapped ps ph"
      unfolding seg_file_mapped_def seg_mapped_def using fm by (intro round_up_bounds(2) [OF ps]) simp
  qed (unfold seg_mapped_def seg_file_mapped_def, (rule round_up_bounds(1) [OF ps])+)
qed

section \<open>The effect of the memory operations, by offset\<close>

lemma vm_prot_protect: "vm_prot (vm_protect a len p v) x = (if in_range a (unat len) x then p else vm_prot v x)"
  and vm_mem_protect: "vm_mem (vm_protect a len p v) = vm_mem v"
  by (simp_all add: vm_protect_def)

lemma vm_mem_anon: "vm_mem (vm_map_anon a len p v) x = (if in_range a (unat len) x then 0 else vm_mem v x)"
  and vm_prot_anon: "vm_prot (vm_map_anon a len p v) x = (if in_range a (unat len) x then Some p else vm_prot v x)"
  by (simp_all add: vm_map_anon_def vm_protect_def)

lemma vm_mem_file: "vm_mem (vm_map_file a len p file off v) x =
    (if in_range a (unat len) x
     then if unat off + unat (x - a) < length file then file ! (unat off + unat (x - a)) else 0
     else vm_mem v x)"
  and vm_prot_file: "vm_prot (vm_map_file a len p file off v) x =
    (if in_range a (unat len) x then Some p else vm_prot v x)"
  by (simp_all add: vm_map_file_def vm_protect_def Let_def)

lemma vm_mem_store: "vm_mem (vm_store a bs v) = write_bytes (vm_mem v) a bs"
  and vm_prot_store: "vm_prot (vm_store a bs v) = vm_prot v"
  by (simp_all add: vm_store_def)

lemmas vm_effects = vm_prot_protect vm_mem_protect vm_mem_anon vm_prot_anon vm_mem_file vm_prot_file
  vm_mem_store vm_prot_store

lemma in_range_sub:
  fixes d :: u64
  assumes "in_range (d + of_nat k) n x" and "k + n \<le> m" and "m < 2 ^ 64"
  shows "in_range d m x"
  using assms by (elim in_range_within) simp_all

section \<open>One segment\<close>

lemma map_anonymous_result:
  assumes ps: "page_size_ok ps" and ok: "load_ok ps (length source) ph" and len: "length source < 2 ^ 64"
    and fb: "\<not> file_backed sp" and run: "map_one_segment os ps source sp ph v = (b, v')"
  defines "d \<equiv> bias sp + page_floor ps (p_vaddr ph)"
    and "lp \<equiv> protection_for (p_flags ph) OR PROT_READ OR PROT_WRITE"
    and "bytes \<equiv> take (unat (p_filesz ph)) (drop (unat (p_offset ph)) source)"
  shows "(\<not> b \<and> v' = v) \<or>
    (b \<and> v' = vm_store (d + of_nat (seg_prefix ps ph)) bytes (vm_map_anon d (of_nat (seg_mapped ps ph)) lp v))"
proof (cases rule: seg_arith [OF ps ok])
  case (1 M F)
  have M: "M = of_nat (seg_mapped ps ph)" using 1(4) by (metis of_nat_unat ucast_id)
  have fv: "file_region_valid (of_nat (length source)) (p_offset ph) (p_filesz ph)"
    using ok len by (simp add: file_region_valid_iff load_ok_def unat_of_nat_u64)
  have st: "p_filesz ph = 0 \<Longrightarrow> vm_store a bytes w = w" for a w
    by (simp add: bytes_def vm_store_def)
  show ?thesis
    using run fb fv st 1(3)
    by (auto simp: map_one_segment_def Let_def d_def lp_def bytes_def M 1(1) [symmetric]
        split: if_splits)
qed

lemma map_anonymous_effect:
  assumes ps: "page_size_ok ps" and ok: "load_ok ps (length source) ph" and len: "length source < 2 ^ 64"
    and fb: "\<not> file_backed sp" and run: "map_one_segment os ps source sp ph v = (b, v')"
  defines "d \<equiv> bias sp + page_floor ps (p_vaddr ph)"
  shows "\<not> in_range d (seg_mapped ps ph) x \<Longrightarrow> vm_mem v' x = vm_mem v x \<and> vm_prot v' x = vm_prot v x"
    and "b \<Longrightarrow> i < unat (p_memsz ph) \<Longrightarrow>
      vm_mem v' (d + of_nat (seg_prefix ps ph + i)) = seg_byte source ph i"
proof -
  let ?P = "seg_prefix ps ph" and ?bytes = "take (unat (p_filesz ph)) (drop (unat (p_offset ph)) source)"
  let ?lp = "protection_for (p_flags ph) OR PROT_READ OR PROT_WRITE"
  have res: "(\<not> b \<and> v' = v) \<or>
    (b \<and> v' = vm_store (d + of_nat ?P) ?bytes (vm_map_anon d (of_nat (seg_mapped ps ph)) ?lp v))"
    unfolding d_def by (rule map_anonymous_result [OF ps ok len fb run])
  from ok have lb: "length ?bytes = unat (p_filesz ph)"
    and src: "unat (p_offset ph) + unat (p_filesz ph) \<le> length source"
    and fm: "unat (p_filesz ph) \<le> unat (p_memsz ph)"
    by (auto simp: load_ok_def)
  obtain Pm: "?P + unat (p_memsz ph) \<le> seg_mapped ps ph" and m64: "seg_mapped ps ph < 2 ^ 64"
    by (rule seg_arith [OF ps ok])
  have uM: "unat (of_nat (seg_mapped ps ph) :: u64) = seg_mapped ps ph" by (rule unat_of_nat_u64 [OF m64])
  show "vm_mem v' x = vm_mem v x \<and> vm_prot v' x = vm_prot v x"
    if out: "\<not> in_range d (seg_mapped ps ph) x"
  proof -
    have "\<not> in_range (d + of_nat ?P) (length ?bytes) x"
      using out in_range_sub [of d ?P "length ?bytes" x "seg_mapped ps ph"] lb Pm fm m64 by fastforce
    with res out show ?thesis by (auto simp: vm_effects uM write_bytes_frame)
  qed
  show "vm_mem v' (d + of_nat (?P + i)) = seg_byte source ph i" if "b" "i < unat (p_memsz ph)"
  proof -
    have j: "?P + i < 2 ^ 64" "?P + length ?bytes \<le> 2 ^ 64" using that(2) Pm m64 lb fm by linarith+
    have in_d: "in_range d (seg_mapped ps ph) (d + of_nat (?P + i))"
      using in_range_offset [of "?P + i" 0 "seg_mapped ps ph" d] j that(2) Pm m64 by simp
    from res that(1) have v': "v' = vm_store (d + of_nat ?P) ?bytes (vm_map_anon d (of_nat (seg_mapped ps ph)) ?lp v)"
      by blast
    show ?thesis
      unfolding v' vm_mem_store write_bytes_offset [OF j] vm_mem_anon uM
      using in_d src by (simp add: seg_byte_def lb)
  qed
qed

text \<open>The file-backed mode: the three stages as total functions of the memory (an empty mapping or an
  empty store changes nothing).\<close>

definition stage_file :: "u64 \<Rightarrow> u8 list \<Rightarrow> Phdr \<Rightarrow> u64 \<Rightarrow> vm \<Rightarrow> vm" where
  "stage_file ps source ph d v = vm_map_file d (of_nat (seg_file_mapped ps ph)) (protection_for (p_flags ph))
     source (p_offset ph - of_nat (seg_prefix ps ph)) v"

definition zero_count :: "u64 \<Rightarrow> Phdr \<Rightarrow> nat" where
  "zero_count ps ph = min (seg_file_mapped ps ph - (seg_prefix ps ph + unat (p_filesz ph)))
     (unat (p_memsz ph) - unat (p_filesz ph))"

definition stage_zero :: "u64 \<Rightarrow> Phdr \<Rightarrow> u64 \<Rightarrow> vm \<Rightarrow> vm" where
  "stage_zero ps ph d v = vm_store (d + of_nat (seg_prefix ps ph + unat (p_filesz ph)))
     (replicate (zero_count ps ph) 0) v"

definition stage_bss :: "u64 \<Rightarrow> Phdr \<Rightarrow> u64 \<Rightarrow> vm \<Rightarrow> vm" where
  "stage_bss ps ph d v = vm_map_anon (d + of_nat (seg_file_mapped ps ph))
     (of_nat (seg_mapped ps ph - seg_file_mapped ps ph)) (protection_for (p_flags ph)) v"

lemma vm_map_file_0: "vm_map_file a 0 p file off v = v"
  by (simp add: vm_map_file_def vm_protect_def in_range_def)

lemma vm_map_anon_0: "vm_map_anon a 0 p v = v"
  by (simp add: vm_map_anon_def vm_protect_def in_range_def)

lemma vm_store_Nil: "vm_store a [] v = v"
  by (simp add: vm_store_def)

lemma unat_smaller: "unat (smaller a b) = min (unat a) (unat b)"
  by (auto simp: smaller_def word_less_nat_alt)

lemma map_file_result:
  assumes ps: "page_size_ok ps" and ok: "load_ok ps (length source) ph"
    and fb: "file_backed sp" and run: "map_one_segment os ps source sp ph v = (b, v')"
  defines "d \<equiv> bias sp + page_floor ps (p_vaddr ph)"
  shows "(\<not> b \<and> v' \<in> {v, stage_file ps source ph d v, stage_zero ps ph d (stage_file ps source ph d v)}) \<or>
    (b \<and> v' = stage_bss ps ph d (stage_zero ps ph d (stage_file ps source ph d v)))"
proof (cases rule: seg_arith [OF ps ok])
  case (1 M F)
  define pre where "pre = p_vaddr ph - page_floor ps (p_vaddr ph)"
  define de where "de = pre + p_filesz ph"
  define zc where "zc = smaller (if F > de then F - de else 0) (p_memsz ph - p_filesz ph)"
  let ?fp = "protection_for (p_flags ph)"
  have M: "M = of_nat (seg_mapped ps ph)" and F: "F = of_nat (seg_file_mapped ps ph)"
    using 1(4,6) by (metis of_nat_unat ucast_id)+
  have deu: "unat de = seg_prefix ps ph + unat (p_filesz ph)" using 1(11) by (simp add: de_def pre_def)
  then have der: "d + de = d + of_nat (seg_prefix ps ph + unat (p_filesz ph))"
    by (metis of_nat_unat ucast_id)
  have "unat (p_memsz ph - p_filesz ph) = unat (p_memsz ph) - unat (p_filesz ph)"
    using ok by (intro unat_diff_le) (simp add: load_ok_def)
  moreover have "unat (if F > de then F - de else 0) = unat F - unat de"
    by (simp add: word_less_nat_alt unat_diff_le)
  ultimately have zcu: "unat zc = zero_count ps ph"
    by (simp only: zc_def unat_smaller zero_count_def deu 1(6))
  have e1: "(if F \<noteq> 0 then vm_map_file d F ?fp source (p_offset ph - pre) v else v) = stage_file ps source ph d v"
    using 1(1) by (auto simp: stage_file_def F [symmetric] vm_map_file_0 pre_def)
  have e2: "(if zc \<noteq> 0 then vm_store (d + de) (replicate (unat zc) 0) w else w) = stage_zero ps ph d w" for w
    unfolding der zcu stage_zero_def using zcu by (auto simp: vm_store_Nil)
  have e3: "vm_map_anon (d + F) (M - F) ?fp w = stage_bss ps ph d w" for w
    unfolding stage_bss_def M F using 1(7) by (simp add: of_nat_diff)
  have e4: "\<not> M > F \<Longrightarrow> w = stage_bss ps ph d w" for w
    using 1(4,6) by (simp add: stage_bss_def word_less_nat_alt vm_map_anon_0)
  from run fb have "(if F \<noteq> 0 \<and> \<not> os_mmap_fixed os v d F ?fp then (False, v) else
     let v1 = stage_file ps source ph d v in
     if zc \<noteq> 0 \<and> (?fp AND PROT_WRITE) = 0 then (False, v1) else
     let v2 = stage_zero ps ph d v1 in
     if M > F then (if \<not> os_mmap_fixed os v2 (d + F) (M - F) ?fp then (False, v2) else (True, stage_bss ps ph d v2))
     else (True, v2)) = (b, v')"
    by (simp only: map_one_segment_def Let_def pre_def [symmetric] 1(3,5) [folded pre_def, folded de_def] option.case
        de_def [symmetric] zc_def [symmetric] d_def [symmetric] e1 e2 e3 if_False not_True_eq_False simp_thms)
  with e4 show ?thesis by (auto simp: Let_def split: if_splits)
qed

lemma stage_frame:
  assumes ps: "page_size_ok ps" and ok: "load_ok ps (length source) ph"
    and out: "\<not> in_range d (seg_mapped ps ph) x"
  shows "vm_mem (stage_file ps source ph d v) x = vm_mem v x \<and> vm_prot (stage_file ps source ph d v) x = vm_prot v x"
    and "vm_mem (stage_zero ps ph d v) x = vm_mem v x \<and> vm_prot (stage_zero ps ph d v) x = vm_prot v x"
    and "vm_mem (stage_bss ps ph d v) x = vm_mem v x \<and> vm_prot (stage_bss ps ph d v) x = vm_prot v x"
proof -
  let ?P = "seg_prefix ps ph" and ?F = "seg_file_mapped ps ph" and ?M = "seg_mapped ps ph"
  obtain FM: "?F \<le> ?M" and PF: "?P + unat (p_filesz ph) \<le> ?F" and m64: "?M < 2 ^ 64"
    by (rule seg_arith [OF ps ok])
  have sub: "\<not> in_range (d + of_nat k) n x" if "k + n \<le> ?M" for k n
    using in_range_sub that m64 out by blast
  have uF: "unat (of_nat ?F :: u64) = ?F" "unat (of_nat (?M - ?F) :: u64) = ?M - ?F"
    using FM m64 by (intro unat_of_nat_u64; linarith)+
  have "\<not> in_range d ?F x" using sub [of 0 ?F] FM by simp
  then show "vm_mem (stage_file ps source ph d v) x = vm_mem v x \<and> vm_prot (stage_file ps source ph d v) x = vm_prot v x"
    by (simp add: stage_file_def vm_effects uF)
  have "\<not> in_range (d + of_nat (?P + unat (p_filesz ph))) (zero_count ps ph) x"
    using FM PF by (intro sub) (simp add: zero_count_def)
  then show "vm_mem (stage_zero ps ph d v) x = vm_mem v x \<and> vm_prot (stage_zero ps ph d v) x = vm_prot v x"
    by (simp add: stage_zero_def vm_effects write_bytes_frame del: of_nat_add)
  have "\<not> in_range (d + of_nat ?F) (?M - ?F) x" using FM by (intro sub) simp
  then show "vm_mem (stage_bss ps ph d v) x = vm_mem v x \<and> vm_prot (stage_bss ps ph d v) x = vm_prot v x"
    by (simp add: stage_bss_def vm_effects uF)
qed

lemma stage_bytes:
  assumes ps: "page_size_ok ps" and ok: "load_ok ps (length source) ph" and i: "i < unat (p_memsz ph)"
  shows "vm_mem (stage_bss ps ph d (stage_zero ps ph d (stage_file ps source ph d v)))
      (d + of_nat (seg_prefix ps ph + i)) = seg_byte source ph i"
proof -
  let ?P = "seg_prefix ps ph" and ?F = "seg_file_mapped ps ph" and ?M = "seg_mapped ps ph"
  let ?fs = "unat (p_filesz ph)" and ?j = "seg_prefix ps ph + i"
  obtain FM: "?F \<le> ?M" and PF: "?P + ?fs \<le> ?F" and PM: "?P + unat (p_memsz ph) \<le> ?M" and m64: "?M < 2 ^ 64"
    by (rule seg_arith [OF ps ok])
  from ok have mo: "?P = unat (p_offset ph) mod unat ps" and src: "unat (p_offset ph) + ?fs \<le> length source"
    by (simp_all add: load_ok_def seg_prefix_def)
  have j64: "?j < 2 ^ 64" and jM: "?j < ?M" using i PM m64 by linarith+
  have uF: "unat (of_nat ?F :: u64) = ?F" "unat (of_nat (?M - ?F) :: u64) = ?M - ?F"
    using FM m64 by (intro unat_of_nat_u64; linarith)+
  have bss: "in_range (d + of_nat ?F) (?M - ?F) (d + of_nat ?j) \<longleftrightarrow> ?F \<le> ?j"
    using in_range_offset [of ?j ?F "?M - ?F" d] j64 FM m64 jM by simp
  have fil: "in_range d ?F (d + of_nat ?j) \<longleftrightarrow> ?j < ?F"
    using in_range_offset [of ?j 0 ?F d] j64 FM m64 by simp
  have z64: "(?P + ?fs) + length (replicate (zero_count ps ph) (0 :: u8)) \<le> 2 ^ 64"
    using PF FM m64 by (simp add: zero_count_def)
  have po: "?P \<le> unat (p_offset ph)" unfolding mo by (rule mod_less_eq_dividend)
  have "unat (of_nat ?P :: u64) = ?P" using j64 by (intro unat_of_nat_u64) linarith
  then have off: "unat (p_offset ph - of_nat ?P) = unat (p_offset ph) - ?P"
    using unat_diff_le [of "of_nat ?P" "p_offset ph"] po by simp
  have fbyte: "vm_mem (stage_file ps source ph d v) (d + of_nat ?j) = source ! (unat (p_offset ph) + i)"
    if "i < ?fs"
    using that src PF fil po unat_of_nat_u64 [OF j64]
    by (simp add: stage_file_def vm_effects uF off)
  have value_at: "vm_mem (stage_bss ps ph d (stage_zero ps ph d (stage_file ps source ph d v))) (d + of_nat ?j) =
     (if ?F \<le> ?j then 0
      else if ?P + ?fs \<le> ?j \<and> ?j < ?P + ?fs + length (replicate (zero_count ps ph) (0 :: u8))
           then replicate (zero_count ps ph) 0 ! (?j - (?P + ?fs))
           else vm_mem (stage_file ps source ph d v) (d + of_nat ?j))"
    unfolding stage_bss_def vm_mem_anon uF bss stage_zero_def vm_mem_store write_bytes_offset [OF j64 z64] ..
  show ?thesis
  proof (cases "i < ?fs")
    case True
    then have "\<not> ?F \<le> ?j" "\<not> ?P + ?fs \<le> ?j" using PF by linarith+
    with True fbyte show ?thesis unfolding value_at by (simp add: seg_byte_def del: of_nat_add)
  next
    case False
    have "?j - (?P + ?fs) < zero_count ps ph \<and> ?P + ?fs \<le> ?j" if "\<not> ?F \<le> ?j"
      using that False i by (auto simp: zero_count_def)
    with False show ?thesis unfolding value_at by (auto simp: seg_byte_def)
  qed
qed

lemma map_one_segment_effect:
  assumes ps: "page_size_ok ps" and ok: "load_ok ps (length source) ph" and len: "length source < 2 ^ 64"
    and run: "map_one_segment os ps source sp ph v = (b, v')"
  defines "d \<equiv> bias sp + page_floor ps (p_vaddr ph)"
  shows "\<not> in_range d (seg_mapped ps ph) x \<Longrightarrow> vm_mem v' x = vm_mem v x \<and> vm_prot v' x = vm_prot v x"
    and "b \<Longrightarrow> i < unat (p_memsz ph) \<Longrightarrow>
      vm_mem v' (bias sp + p_vaddr ph + of_nat i) = seg_byte source ph i"
proof -
  obtain pre: "p_vaddr ph - page_floor ps (p_vaddr ph) = of_nat (seg_prefix ps ph)"
    by (rule seg_arith [OF ps ok])
  then have va: "bias sp + p_vaddr ph + of_nat i = d + of_nat (seg_prefix ps ph + i)" for i
    by (simp add: d_def algebra_simps)
  note anon = map_anonymous_effect [OF ps ok len _ run, folded d_def]
  note fil = map_file_result [OF ps ok _ run, folded d_def]
  show "vm_mem v' x = vm_mem v x \<and> vm_prot v' x = vm_prot v x" if "\<not> in_range d (seg_mapped ps ph) x"
    using that anon(1) fil stage_frame [OF ps ok that] by (cases "file_backed sp") auto
  show "vm_mem v' (bias sp + p_vaddr ph + of_nat i) = seg_byte source ph i"
    if "b" "i < unat (p_memsz ph)"
    using that anon(2) fil stage_bytes [OF ps ok that(2)] unfolding va by (cases "file_backed sp") auto
qed

section \<open>All segments\<close>

text \<open>Where a segment lies inside the reservation.\<close>

definition seg_placed :: "u64 \<Rightarrow> AddressSpace \<Rightarrow> Phdr \<Rightarrow> bool" where
  "seg_placed ps sp ph \<longleftrightarrow> unat (lowest_vaddr sp) \<le> seg_begin ps ph \<and>
     seg_end ps ph \<le> unat (lowest_vaddr sp) + unat (span sp)"

lemma seg_range_iff:
  assumes ps: "page_size_ok ps" and sp: "bias sp = reservation sp - lowest_vaddr sp" and pl: "seg_placed ps sp ph"
  shows "in_range (bias sp + page_floor ps (p_vaddr ph)) (seg_mapped ps ph) x \<longleftrightarrow>
    seg_begin ps ph \<le> unat (lowest_vaddr sp) + unat (x - reservation sp) \<and>
    unat (lowest_vaddr sp) + unat (x - reservation sp) < seg_end ps ph"
proof -
  let ?L = "unat (lowest_vaddr sp)" and ?b = "seg_begin ps ph"
  have fl: "unat (page_floor ps (p_vaddr ph)) = ?b" by (simp add: unat_page_floor [OF ps] seg_begin_def)
  have "page_floor ps (p_vaddr ph) - lowest_vaddr sp = of_nat (?b - ?L)"
    using pl fl unat_diff_le [of "lowest_vaddr sp" "page_floor ps (p_vaddr ph)"]
    by (metis of_nat_unat seg_placed_def ucast_id)
  then have base: "bias sp + page_floor ps (p_vaddr ph) = reservation sp + of_nat (?b - ?L)"
    by (simp add: sp algebra_simps)
  have x: "x = reservation sp + of_nat (unat (x - reservation sp))" by simp
  have "unat (x - reservation sp) < 2 ^ 64" using unat_lt_exp [of "x - reservation sp"] by simp
  moreover have "(?b - ?L) + seg_mapped ps ph \<le> 2 ^ 64"
    using pl seg_end_mapped [OF ps, of ph] unat_lt_exp [of "span sp"] by (simp add: seg_placed_def, linarith)
  ultimately show ?thesis
    unfolding base seg_end_mapped [OF ps]
    using in_range_offset [of "unat (x - reservation sp)" "?b - ?L" "seg_mapped ps ph" "reservation sp"] pl
    by (auto simp: seg_placed_def)
qed

lemma seg_byte_in_range:
  assumes ps: "page_size_ok ps" and ok: "load_ok ps n ph" and "i < unat (p_memsz ph)"
  shows "in_range (bias sp + page_floor ps (p_vaddr ph)) (seg_mapped ps ph)
    (bias sp + p_vaddr ph + of_nat i)"
proof -
  let ?d = "bias sp + page_floor ps (p_vaddr ph)"
  obtain pre: "p_vaddr ph - page_floor ps (p_vaddr ph) = of_nat (seg_prefix ps ph)"
    and PM: "seg_prefix ps ph + unat (p_memsz ph) \<le> seg_mapped ps ph" and m: "seg_mapped ps ph < 2 ^ 64"
    by (rule seg_arith [OF ps ok])
  have va: "bias sp + p_vaddr ph + of_nat i = ?d + of_nat (seg_prefix ps ph + i)"
    using pre by (simp add: algebra_simps)
  show ?thesis
    unfolding va using in_range_offset [of "seg_prefix ps ph + i" 0 "seg_mapped ps ph" ?d] PM m assms(3)
    by simp
qed

lemma map_segments_effect:
  assumes ps: "page_size_ok ps" and len: "length source < 2 ^ 64"
    and sp: "bias sp = reservation sp - lowest_vaddr sp"
    and all: "\<forall>ph \<in> set phs. mapped_load ph \<longrightarrow> load_ok ps (length source) ph \<and> seg_placed ps sp ph"
    and sorted: "sorted_wrt (\<lambda>p q. mapped_load p \<and> mapped_load q \<longrightarrow> seg_end ps p \<le> seg_begin ps q) phs"
    and run: "map_segments os ps source sp phs v = (b, v')"
  shows "(\<forall>x. (\<forall>ph \<in> set phs. mapped_load ph \<longrightarrow>
            \<not> in_range (bias sp + page_floor ps (p_vaddr ph)) (seg_mapped ps ph) x) \<longrightarrow>
          vm_mem v' x = vm_mem v x \<and> vm_prot v' x = vm_prot v x) \<and>
    (b \<longrightarrow> (\<forall>ph \<in> set phs. mapped_load ph \<longrightarrow> (\<forall>i < unat (p_memsz ph).
          vm_mem v' (bias sp + p_vaddr ph + of_nat i) = seg_byte source ph i)))"
  using all sorted run
proof (induction phs arbitrary: v)
  case Nil
  then show ?case by simp
next
  case (Cons ph phs)
  show ?case
  proof (cases "mapped_load ph")
    case False
    with Cons show ?thesis by auto
  next
    case True
    obtain b1 v1 where one: "map_one_segment os ps source sp ph v = (b1, v1)" by fastforce
    from Cons.prems True have ok: "load_ok ps (length source) ph" and pl: "seg_placed ps sp ph" by auto
    note eff = map_one_segment_effect [OF ps ok len one]
    show ?thesis
    proof (cases b1)
      case False
      with Cons.prems True one have "\<not> b" "v' = v1" by auto
      with eff(1) True show ?thesis by auto
    next
      case b1: True
      with Cons.prems True one have rest: "map_segments os ps source sp phs v1 = (b, v')" by simp
      have IH: "(\<forall>x. (\<forall>ph \<in> set phs. mapped_load ph \<longrightarrow>
            \<not> in_range (bias sp + page_floor ps (p_vaddr ph)) (seg_mapped ps ph) x) \<longrightarrow>
          vm_mem v' x = vm_mem v1 x \<and> vm_prot v' x = vm_prot v1 x) \<and>
        (b \<longrightarrow> (\<forall>ph \<in> set phs. mapped_load ph \<longrightarrow> (\<forall>i < unat (p_memsz ph).
          vm_mem v' (bias sp + p_vaddr ph + of_nat i) = seg_byte source ph i)))"
        using Cons.prems rest by (intro Cons.IH) auto
      have keep: "vm_mem v' (bias sp + p_vaddr ph + of_nat i) = seg_byte source ph i"
        if "i < unat (p_memsz ph)" for i
      proof -
        let ?x = "bias sp + p_vaddr ph + of_nat i"
        have here: "in_range (bias sp + page_floor ps (p_vaddr ph)) (seg_mapped ps ph) ?x"
          by (rule seg_byte_in_range [OF ps ok that])
        have "\<not> in_range (bias sp + page_floor ps (p_vaddr q)) (seg_mapped ps q) ?x"
          if "q \<in> set phs" "mapped_load q" for q
        proof -
          have "seg_end ps ph \<le> seg_begin ps q" "seg_placed ps sp q" using that Cons.prems True by auto
          then show ?thesis using here seg_range_iff [OF ps sp] pl by auto
        qed
        with IH have "vm_mem v' ?x = vm_mem v1 ?x" by blast
        with eff(2) b1 that show ?thesis by simp
      qed
      show ?thesis using IH keep eff(1) True by auto
    qed
  qed
qed

section \<open>The whole image\<close>

lemma create_address_space_True:
  assumes "create_address_space os ps live source l fb sp pages v = (True, sp', pages', v')"
  obtains res copy m1 where
    "os_mmap os (live @ map (\<lambda>p. (page_base p, mapped_size p)) pages) (sl_highest_vaddr l - sl_lowest_vaddr l) = Some res"
    and "sp' = sp\<lparr>reservation := res, span := sl_highest_vaddr l - sl_lowest_vaddr l,
       lowest_vaddr := sl_lowest_vaddr l, bias := res - sl_lowest_vaddr l, file_backed := fb,
       program_headers := sl_program_headers l\<rparr>"
    and "metadata_allocate ps (\<lambda>rs. os_mmap os ((res, sl_highest_vaddr l - sl_lowest_vaddr l) # live @ rs))
       (of_nat (length (sl_program_headers l)) * 56) 8
       (pages, vm_mem (vm_map_anon res (sl_highest_vaddr l - sl_lowest_vaddr l) 0 v)) = (Some copy, pages', m1)"
    and "map_segments os ps source sp' (sl_program_headers l)
       ((vm_map_anon res (sl_highest_vaddr l - sl_lowest_vaddr l) 0 v)\<lparr>vm_mem := m1\<rparr>) = (True, v')"
proof -
  from assms obtain res where r:
    "os_mmap os (live @ map (\<lambda>p. (page_base p, mapped_size p)) pages) (sl_highest_vaddr l - sl_lowest_vaddr l) = Some res"
    by (auto simp: create_address_space_def Let_def split: option.splits)
  obtain a where a: "multiply_overflow (of_nat (length (sl_program_headers l))) 56 = Some a"
    using assms by (auto simp: create_address_space_def Let_def r split: option.splits)
  then have a': "a = of_nat (length (sl_program_headers l)) * 56"
    by (simp add: multiply_overflow_def split: if_splits)
  show ?thesis
    using assms that [OF r]
    by (auto simp: create_address_space_def Let_def r a a' split: option.splits prod.splits bool.splits)
qed

text \<open>C2: Loading is faithful to the file: when \<open>create_address_space\<close> succeeds on a source that
  \<open>inspect_source\<close> accepted, byte \<open>i\<close> of every LOAD segment is at \<open>bias + vaddr + i\<close> and holds the
  file's byte for \<open>i < filesz\<close> and zero from there to \<open>memsz\<close>, in the anonymous and in the
  file-backed mode; the image does not wrap, and outside it only the metadata copy of the program
  headers is written.\<close>

theorem create_address_space_loads:
  assumes ps: "page_size_ok ps" and doc: "mmap_documented (os_mmap os)" and len: "length source < 2 ^ 64"
    and insp: "inspect_source ps source = Some l"
    and run: "create_address_space os ps live source l fb sp pages v = (True, sp', pages', v')"
  shows "space_ok sp' \<and> program_headers sp' = sl_program_headers l \<and> file_backed sp' = fb \<and>
    (\<forall>ph \<in> set (sl_program_headers l). mapped_load ph \<longrightarrow>
       (\<forall>i < unat (p_memsz ph). in_image sp' (bias sp' + p_vaddr ph + of_nat i) \<and>
          vm_mem v' (bias sp' + p_vaddr ph + of_nat i) = seg_byte source ph i)) \<and>
    (\<exists>copy. \<forall>x. \<not> in_image sp' x \<and> \<not> in_range copy (unat (of_nat (length (sl_program_headers l)) * 56 :: u64)) x
       \<longrightarrow> vm_mem v' x = vm_mem v x)"
proof -
  note lay = inspect_source_sound [OF ps len insp]
  obtain res copy m1 where
    mm: "os_mmap os (live @ map (\<lambda>p. (page_base p, mapped_size p)) pages) (sl_highest_vaddr l - sl_lowest_vaddr l) = Some res"
    and sp': "sp' = sp\<lparr>reservation := res, span := sl_highest_vaddr l - sl_lowest_vaddr l,
       lowest_vaddr := sl_lowest_vaddr l, bias := res - sl_lowest_vaddr l, file_backed := fb,
       program_headers := sl_program_headers l\<rparr>"
    and alloc: "metadata_allocate ps (\<lambda>rs. os_mmap os ((res, sl_highest_vaddr l - sl_lowest_vaddr l) # live @ rs))
       (of_nat (length (sl_program_headers l)) * 56) 8
       (pages, vm_mem (vm_map_anon res (sl_highest_vaddr l - sl_lowest_vaddr l) 0 v)) = (Some copy, pages', m1)"
    and maps: "map_segments os ps source sp' (sl_program_headers l)
       ((vm_map_anon res (sl_highest_vaddr l - sl_lowest_vaddr l) 0 v)\<lparr>vm_mem := m1\<rparr>) = (True, v')"
    using create_address_space_True [OF run] .
  from doc mm have r: "0 < unat res" "unat res + unat (sl_highest_vaddr l - sl_lowest_vaddr l) \<le> 2 ^ 63"
    unfolding mmap_documented_def by blast+
  then have ok: "space_ok sp'" by (auto simp: space_ok_def sp' unat_gt_0)
  have sum: "unat (lowest_vaddr sp') + unat (span sp') = unat (sl_highest_vaddr l)"
    using lay unat_diff_le [of "sl_lowest_vaddr l" "sl_highest_vaddr l"] by (simp add: sp' word_less_nat_alt)
  have placed: "load_ok ps (length source) ph \<and> seg_placed ps sp' ph"
    if "ph \<in> set (sl_program_headers l)" "mapped_load ph" for ph
    using lay that sum by (auto simp: seg_placed_def sp')
  have b: "bias sp' = reservation sp' - lowest_vaddr sp'" using ok by (simp add: space_ok_def)
  note eff = map_segments_effect [OF ps len b _ _ maps]
  have segs: "(\<forall>x. (\<forall>ph \<in> set (sl_program_headers l). mapped_load ph \<longrightarrow>
            \<not> in_range (bias sp' + page_floor ps (p_vaddr ph)) (seg_mapped ps ph) x) \<longrightarrow>
          vm_mem v' x = m1 x) \<and>
    (\<forall>ph \<in> set (sl_program_headers l). mapped_load ph \<longrightarrow> (\<forall>i < unat (p_memsz ph).
          vm_mem v' (bias sp' + p_vaddr ph + of_nat i) = seg_byte source ph i))"
    using eff placed lay by auto
  have inside: "in_image sp' x"
    if "ph \<in> set (sl_program_headers l)" "mapped_load ph"
      "in_range (bias sp' + page_floor ps (p_vaddr ph)) (seg_mapped ps ph) x" for ph x
    using that placed [OF that(1,2)] seg_range_iff [OF ps b] by (auto simp: seg_placed_def in_image_def in_range_def)
  have "vm_mem v' x = vm_mem v x"
    if "\<not> in_image sp' x" "\<not> in_range copy (unat (of_nat (length (sl_program_headers l)) * 56 :: u64)) x" for x
  proof -
    have "vm_mem v' x = m1 x" using segs inside that(1) by blast
    also have "\<dots> = vm_mem (vm_map_anon res (sl_highest_vaddr l - sl_lowest_vaddr l) 0 v) x"
      using that(2) by (simp add: metadata_allocate_memory [OF alloc] write_bytes_frame)
    finally show ?thesis using that(1) by (simp add: vm_mem_anon in_image_def sp')
  qed
  moreover have "in_image sp' (bias sp' + p_vaddr ph + of_nat i)"
    if "ph \<in> set (sl_program_headers l)" "mapped_load ph" "i < unat (p_memsz ph)" for ph i
    using inside [OF that(1,2)] seg_byte_in_range [OF ps _ that(3)] placed [OF that(1,2)] by blast
  ultimately show ?thesis using ok segs by (auto simp: sp')
qed

text \<open>A concrete kernel for the small image: the reservation is at \<open>0x10000\<close>, the arena's page at
  \<open>0x20000\<close>, and every fixed mapping and protection change succeeds.\<close>

definition demo_mmap :: mmap_fn where
  "demo_mmap regions n =
     (if regions = [] \<and> n = 0x1000 then Some 0x10000
      else if regions = [(0x10000, 0x1000)] \<and> n = 0x10000 then Some 0x20000 else None)"

definition demo_os :: os where
  "demo_os = \<lparr>os_mmap = demo_mmap, os_mmap_fixed = (\<lambda>_ _ _ _. True), os_mprotect = (\<lambda>_ _ _ _. True)\<rparr>"

definition blank_vm :: vm where
  "blank_vm = \<lparr>vm_mem = (\<lambda>_. 0xcc), vm_prot = (\<lambda>_. None), vm_munmaps = []\<rparr>"

definition tiny_layout :: SourceLayout where
  "tiny_layout = \<lparr>sl_program_headers = [tiny_load, tiny_dynamic], sl_lowest_vaddr = 0x1000,
     sl_highest_vaddr = 0x2000, sl_dynamic_index = 1\<rparr>"

lemma demo_mmap_documented: "mmap_documented demo_mmap"
  by (auto simp: mmap_documented_def demo_mmap_def block_disjoint_def split: if_splits)

lemma create_tiny:
  obtains sp' pages' v' where
    "create_address_space demo_os 4096 [] tiny_elf tiny_layout False empty_space [] blank_vm = (True, sp', pages', v')"
    and "bias sp' = 0xf000"
  by (simp add: create_address_space_def demo_os_def demo_mmap_def tiny_layout_def multiply_overflow_def
      metadata_allocate_def add_overflow_def page_ceil_def page_floor_def header_aligned_def
      kMetadataPageSize_def bump_offset_def is_power_of_two_def Let_def map_one_segment_def
      tiny_load_def tiny_dynamic_def PT_LOAD_def empty_space_def file_region_valid_def length_tiny_elf)

theorem create_address_space_loads_witness:
  "page_size_ok 4096 \<and> mmap_documented (os_mmap demo_os) \<and> length tiny_elf < 2 ^ 64 \<and>
   inspect_source 4096 tiny_elf = Some tiny_layout \<and>
   (\<exists>sp' pages' v'.
     create_address_space demo_os 4096 [] tiny_elf tiny_layout False empty_space [] blank_vm = (True, sp', pages', v') \<and>
     vm_mem v' 0x10000 = 0x7f \<and> vm_mem v' 0x100c8 = 0)"
proof -
  have ps: "page_size_ok 4096" by (simp add: page_size_ok_def is_power_of_two_def)
  have doc: "mmap_documented (os_mmap demo_os)" by (simp add: demo_os_def demo_mmap_documented)
  have len: "length tiny_elf < 2 ^ 64" by (simp add: length_tiny_elf)
  have insp: "inspect_source 4096 tiny_elf = Some tiny_layout"
    by (simp add: inspect_tiny_elf tiny_layout_def)
  obtain sp' pages' v' where
    run: "create_address_space demo_os 4096 [] tiny_elf tiny_layout False empty_space [] blank_vm = (True, sp', pages', v')"
    and b: "bias sp' = 0xf000" by (rule create_tiny)
  have "\<forall>i < unat (p_memsz tiny_load).
      vm_mem v' (bias sp' + p_vaddr tiny_load + of_nat i) = seg_byte tiny_elf tiny_load i"
    using create_address_space_loads [OF ps doc len insp run]
    by (simp add: tiny_layout_def tiny_load_def PT_LOAD_def)
  from this [rule_format, of 0] this [rule_format, of 200]
  have "vm_mem v' 0x10000 = 0x7f" "vm_mem v' 0x100c8 = 0"
    by (simp_all add: b tiny_load_def seg_byte_def tiny_elf_def encode_ehdr_def)
  with ps doc len insp run show ?thesis by blast
qed

end
