(* ===== verification/Image_State.thy ===== *)
theory Image_State
  imports Address_Space
begin

text \<open>
  The state of one loaded image (\<^verbatim>\<open>ImageState\<close> and the structures it holds in
  \<^verbatim>\<open>yukilinker.cpp\<close>).  Pointers are 64-bit addresses with 0 for \<^verbatim>\<open>nullptr\<close>; the singly linked
  lists of dependencies and exit callbacks are lists in link order.  The registry links of an image
  are in theory \<open>Image_Registry\<close>, its bytes in the process memory.
\<close>

section \<open>Definitions\<close>

record Lifecycle =
  lc_init :: u64
  init_array :: u64
  init_count :: u64
  lc_fini :: u64
  fini_array :: u64
  fini_count :: u64
  initialized :: bool

record DynamicSymbols =
  entries :: u64
  sym_count :: u64
  strings :: u64
  string_bytes :: u64
  index_slots :: u64
  index_capacity :: u64

record RelocationSet =
  rel :: u64
  rel_bytes :: u64
  plt :: u64
  plt_bytes :: u64
  relr :: u64
  relr_bytes :: u64

record TlsTemplate =
  module_id :: u64
  generation :: u64
  initial_bytes :: u64
  file_bytes :: u64
  memory_bytes :: u64
  alignment :: u64
  active :: bool

record ExitCallback =
  cb_function :: u64
  cb_argument :: u64
  cb_dso :: u64

record ImageState =
  memory_of :: AddressSpace
  symbols :: DynamicSymbols
  relocations :: RelocationSet
  lifecycle :: Lifecycle
  dependencies :: "u64 list"
  tls :: TlsTemplate
  exit_callbacks :: "ExitCallback list"

definition image_contains :: "ImageState \<Rightarrow> u64 \<Rightarrow> bool" where
  "image_contains img pointer = address_space_contains (memory_of img) pointer 1"

definition mapped_bytes :: "ImageState \<Rightarrow> u64 \<Rightarrow> u64 \<Rightarrow> bool" where
  "mapped_bytes img pointer bytes = address_space_contains (memory_of img) pointer bytes"

text \<open>A value-initialised image, as \<^verbatim>\<open>metadata_object<ImageState>\<close> constructs it.\<close>

definition new_image :: ImageState where
  "new_image = \<lparr>memory_of = empty_space,
     symbols = \<lparr>entries = 0, sym_count = 0, strings = 0, string_bytes = 0, index_slots = 0, index_capacity = 0\<rparr>,
     relocations = \<lparr>rel = 0, rel_bytes = 0, plt = 0, plt_bytes = 0, relr = 0, relr_bytes = 0\<rparr>,
     lifecycle = \<lparr>lc_init = 0, init_array = 0, init_count = 0, lc_fini = 0, fini_array = 0,
       fini_count = 0, initialized = False\<rparr>,
     dependencies = [],
     tls = \<lparr>module_id = 0, generation = 0, initial_bytes = 0, file_bytes = 0, memory_bytes = 0,
       alignment = 1, active = False\<rparr>,
     exit_callbacks = []\<rparr>"

text \<open>\<^verbatim>\<open>nullptr\<close> as an address.\<close>

definition or_null :: "u64 option \<Rightarrow> u64" where
  "or_null p = (case p of None \<Rightarrow> 0 | Some a \<Rightarrow> a)"

section \<open>Reading image memory\<close>

text \<open>\<open>bytes_inside sp a n\<close>: the \<open>n\<close> bytes at \<open>a\<close> are bytes of the image.\<close>

definition bytes_inside :: "AddressSpace \<Rightarrow> u64 \<Rightarrow> nat \<Rightarrow> bool" where
  "bytes_inside sp a n \<longleftrightarrow> (\<forall>x. in_range a n x \<longrightarrow> in_image sp x)"

lemma mapped_bytes_inside:
  "space_ok (memory_of img) \<Longrightarrow> mapped_bytes img p n \<Longrightarrow> bytes_inside (memory_of img) p (unat n)"
  using contains_in_image by (auto simp: bytes_inside_def mapped_bytes_def)

lemma bytes_inside_sub:
  assumes "bytes_inside sp a n" and "k + j \<le> n" and "n \<le> 2 ^ 64"
  shows "bytes_inside sp (a + of_nat k) j"
  unfolding bytes_inside_def
proof (intro allI impI)
  fix x assume x: "in_range (a + of_nat k) j x"
  have rep: "x = a + of_nat (unat (x - a))" by (rule offset_repr)
  have "in_range (a + of_nat k) j (a + of_nat (unat (x - a)))" using x rep by simp
  moreover have "unat (x - a) < 2 ^ 64" using unat_lt_exp [of "x - a"] by simp
  moreover have "k + j \<le> 2 ^ 64" using assms(2,3) by linarith
  ultimately have "unat (x - a) < k + j" by (simp only: in_range_offset)
  with assms(2) have "in_range a n x" by (simp add: in_range_def)
  with assms(1) show "in_image sp x" by (simp add: bytes_inside_def)
qed

text \<open>Two memories that agree on the image.\<close>

definition same_image :: "AddressSpace \<Rightarrow> memory \<Rightarrow> memory \<Rightarrow> bool" where
  "same_image sp m m' \<longleftrightarrow> (\<forall>x. in_image sp x \<longrightarrow> m x = m' x)"

lemma same_image_refl [simp]: "same_image sp m m"
  by (simp add: same_image_def)

lemma same_image_trans: "same_image sp m m' \<Longrightarrow> same_image sp m' m'' \<Longrightarrow> same_image sp m m''"
  by (simp add: same_image_def)

lemma read_bytes_same_image:
  "same_image sp m m' \<Longrightarrow> bytes_inside sp a n \<Longrightarrow> n \<le> 2 ^ 64 \<Longrightarrow> read_bytes m a n = read_bytes m' a n"
  by (rule read_bytes_cong) (simp_all add: same_image_def bytes_inside_def)

lemma write_bytes_same_image:
  assumes "\<And>x. in_range a (length bs) x \<Longrightarrow> \<not> in_image sp x"
  shows "same_image sp m (write_bytes m a bs)"
  using assms write_bytes_frame unfolding same_image_def by metis

end
