(* ===== verification/Dynamic_Parse.thy ===== *)
theory Dynamic_Parse
  imports Image_State
begin

text \<open>
  The dynamic section of a mapped image (\<^verbatim>\<open>DynamicParse\<close>, \<^verbatim>\<open>parse_dynamic_tags\<close>,
  \<^verbatim>\<open>symbol_count_from_sysv\<close>, \<^verbatim>\<open>symbol_count_from_gnu\<close>, \<^verbatim>\<open>establish_symbol_count\<close> in
  \<^verbatim>\<open>yukilinker.cpp\<close>, 64-bit build).  The tables are read from the process memory.  A failing parse
  is \<open>None\<close>: its caller releases the image and reads none of the fields again.
\<close>

section \<open>Definitions\<close>

abbreviation (input) DT_NULL :: u64 where "DT_NULL \<equiv> 0"
abbreviation (input) DT_NEEDED :: u64 where "DT_NEEDED \<equiv> 1"
abbreviation (input) DT_PLTRELSZ :: u64 where "DT_PLTRELSZ \<equiv> 2"
abbreviation (input) DT_HASH :: u64 where "DT_HASH \<equiv> 4"
abbreviation (input) DT_STRTAB :: u64 where "DT_STRTAB \<equiv> 5"
abbreviation (input) DT_SYMTAB :: u64 where "DT_SYMTAB \<equiv> 6"
abbreviation (input) kDynamicRelTag :: u64 where "kDynamicRelTag \<equiv> 7"
abbreviation (input) kDynamicRelSizeTag :: u64 where "kDynamicRelSizeTag \<equiv> 8"
abbreviation (input) kDynamicRelEntryTag :: u64 where "kDynamicRelEntryTag \<equiv> 9"
abbreviation (input) DT_STRSZ :: u64 where "DT_STRSZ \<equiv> 10"
abbreviation (input) DT_SYMENT :: u64 where "DT_SYMENT \<equiv> 11"
abbreviation (input) DT_INIT :: u64 where "DT_INIT \<equiv> 12"
abbreviation (input) DT_FINI :: u64 where "DT_FINI \<equiv> 13"
abbreviation (input) DT_PLTREL :: u64 where "DT_PLTREL \<equiv> 20"
abbreviation (input) DT_JMPREL :: u64 where "DT_JMPREL \<equiv> 23"
abbreviation (input) DT_INIT_ARRAY :: u64 where "DT_INIT_ARRAY \<equiv> 25"
abbreviation (input) DT_FINI_ARRAY :: u64 where "DT_FINI_ARRAY \<equiv> 26"
abbreviation (input) DT_INIT_ARRAYSZ :: u64 where "DT_INIT_ARRAYSZ \<equiv> 27"
abbreviation (input) DT_FINI_ARRAYSZ :: u64 where "DT_FINI_ARRAYSZ \<equiv> 28"
abbreviation (input) DT_RELRSZ :: u64 where "DT_RELRSZ \<equiv> 35"
abbreviation (input) DT_RELR :: u64 where "DT_RELR \<equiv> 36"
abbreviation (input) DT_RELRENT :: u64 where "DT_RELRENT \<equiv> 37"
abbreviation (input) DT_ANDROID_RELR :: u64 where "DT_ANDROID_RELR \<equiv> 0x6fffe000"
abbreviation (input) DT_ANDROID_RELRSZ :: u64 where "DT_ANDROID_RELRSZ \<equiv> 0x6fffe001"
abbreviation (input) DT_ANDROID_RELRENT :: u64 where "DT_ANDROID_RELRENT \<equiv> 0x6fffe003"
abbreviation (input) DT_GNU_HASH :: u64 where "DT_GNU_HASH \<equiv> 0x6ffffef5"

record DynamicParse =
  dyn_entries :: u64
  entry_limit :: u64
  sysv_hash :: u64
  gnu_hash :: u64
  init_array_bytes :: u64
  fini_array_bytes :: u64
  symbol_entry_size :: u64
  rel_entry_size :: u64
  relr_entry_size :: u64
  plt_relocation_kind :: u64
  terminated :: bool

definition new_parse :: DynamicParse where
  "new_parse = \<lparr>dyn_entries = 0, entry_limit = 0, sysv_hash = 0, gnu_hash = 0, init_array_bytes = 0,
     fini_array_bytes = 0, symbol_entry_size = 24, rel_entry_size = 24, relr_entry_size = 8,
     plt_relocation_kind = kDynamicRelTag, terminated = False\<rparr>"

text \<open>\<open>size_of_T\<close> is the size of the template argument.\<close>

definition dynamic_pointer :: "ImageState \<Rightarrow> u64 \<Rightarrow> u64 \<Rightarrow> u64" where
  "dynamic_pointer img size_of_T d_ptr = or_null (runtime_pointer (memory_of img) size_of_T d_ptr 1)"

text \<open>The \<^verbatim>\<open>switch\<close> on a tag other than \<^verbatim>\<open>DT_NULL\<close>.\<close>

definition parse_tag ::
  "u64 \<Rightarrow> u64 \<Rightarrow> ImageState \<times> DynamicParse \<Rightarrow> (ImageState \<times> DynamicParse) option" where
  "parse_tag tag d st =
     (let (img, p) = st; sy = symbols img; rl = relocations img; lc = lifecycle img in
      if tag = DT_SYMTAB then Some (img\<lparr>symbols := sy\<lparr>entries := dynamic_pointer img 24 d\<rparr>\<rparr>, p)
      else if tag = DT_STRTAB then Some (img\<lparr>symbols := sy\<lparr>strings := dynamic_pointer img 1 d\<rparr>\<rparr>, p)
      else if tag = DT_STRSZ then Some (img\<lparr>symbols := sy\<lparr>string_bytes := d\<rparr>\<rparr>, p)
      else if tag = DT_SYMENT then Some (img, p\<lparr>symbol_entry_size := d\<rparr>)
      else if tag = DT_HASH then Some (img, p\<lparr>sysv_hash := dynamic_pointer img 4 d\<rparr>)
      else if tag = DT_GNU_HASH then Some (img, p\<lparr>gnu_hash := dynamic_pointer img 4 d\<rparr>)
      else if tag = kDynamicRelTag then Some (img\<lparr>relocations := rl\<lparr>rel := dynamic_pointer img 24 d\<rparr>\<rparr>, p)
      else if tag = kDynamicRelSizeTag then Some (img\<lparr>relocations := rl\<lparr>rel_bytes := d\<rparr>\<rparr>, p)
      else if tag = kDynamicRelEntryTag then Some (img, p\<lparr>rel_entry_size := d\<rparr>)
      else if tag = DT_JMPREL then Some (img\<lparr>relocations := rl\<lparr>plt := dynamic_pointer img 24 d\<rparr>\<rparr>, p)
      else if tag = DT_PLTRELSZ then Some (img\<lparr>relocations := rl\<lparr>plt_bytes := d\<rparr>\<rparr>, p)
      else if tag = DT_PLTREL then Some (img, p\<lparr>plt_relocation_kind := d\<rparr>)
      else if tag = DT_RELR \<or> tag = DT_ANDROID_RELR
        then Some (img\<lparr>relocations := rl\<lparr>relr := dynamic_pointer img 8 d\<rparr>\<rparr>, p)
      else if tag = DT_RELRSZ \<or> tag = DT_ANDROID_RELRSZ
        then Some (img\<lparr>relocations := rl\<lparr>relr_bytes := d\<rparr>\<rparr>, p)
      else if tag = DT_RELRENT \<or> tag = DT_ANDROID_RELRENT then Some (img, p\<lparr>relr_entry_size := d\<rparr>)
      else if tag = DT_INIT then
        (let pointer = (if d = 0 then 0 else or_null (runtime_pointer (memory_of img) 1 d 1)) in
         if d \<noteq> 0 \<and> pointer = 0 then None
         else Some (img\<lparr>lifecycle := lc\<lparr>lc_init := pointer\<rparr>\<rparr>, p))
      else if tag = DT_INIT_ARRAY then
        (let pointer = or_null (runtime_pointer (memory_of img) 8 d 1) in
         if d \<noteq> 0 \<and> pointer = 0 then None
         else Some (img\<lparr>lifecycle := lc\<lparr>init_array := pointer\<rparr>\<rparr>, p))
      else if tag = DT_INIT_ARRAYSZ then Some (img, p\<lparr>init_array_bytes := d\<rparr>)
      else if tag = DT_FINI then
        (let pointer = (if d = 0 then 0 else or_null (runtime_pointer (memory_of img) 1 d 1)) in
         if d \<noteq> 0 \<and> pointer = 0 then None
         else Some (img\<lparr>lifecycle := lc\<lparr>lc_fini := pointer\<rparr>\<rparr>, p))
      else if tag = DT_FINI_ARRAY then
        (let pointer = or_null (runtime_pointer (memory_of img) 8 d 1) in
         if d \<noteq> 0 \<and> pointer = 0 then None
         else Some (img\<lparr>lifecycle := lc\<lparr>fini_array := pointer\<rparr>\<rparr>, p))
      else if tag = DT_FINI_ARRAYSZ then Some (img, p\<lparr>fini_array_bytes := d\<rparr>)
      else Some (img, p))"

text \<open>The loop; the first argument is the number of iterations left, the second the index.\<close>

fun parse_tags ::
  "memory \<Rightarrow> nat \<Rightarrow> u64 \<Rightarrow> ImageState \<times> DynamicParse \<Rightarrow> (ImageState \<times> DynamicParse) option" where
  "parse_tags m 0 i st = Some st"
| "parse_tags m (Suc n) i st =
     (let entry = dyn_entries (snd st) + 16 * i;
          d_tag = read64 m entry;
          d_val = read64 m (entry + 8) in
      if d_tag = DT_NULL then Some (fst st, (snd st)\<lparr>terminated := True\<rparr>)
      else case parse_tag d_tag d_val st of
             None \<Rightarrow> None
           | Some st' \<Rightarrow> parse_tags m n (i + 1) st')"

text \<open>A table is acceptable when it is empty, or present and mapped in full.\<close>

definition table_bad :: "ImageState \<Rightarrow> u64 \<Rightarrow> u64 \<Rightarrow> bool" where
  "table_bad img pointer bytes \<longleftrightarrow> bytes \<noteq> 0 \<and> (pointer = 0 \<or> \<not> mapped_bytes img pointer bytes)"

definition parse_finish :: "ImageState \<times> DynamicParse \<Rightarrow> (ImageState \<times> DynamicParse) option" where
  "parse_finish st =
     (let (img, p) = st; sy = symbols img in
      if \<not> terminated p \<or> entries sy = 0 \<or> strings sy = 0 \<or> string_bytes sy = 0 \<or>
         symbol_entry_size p \<noteq> 24 \<or> rel_entry_size p \<noteq> 24 \<or> relr_entry_size p \<noteq> 8 \<or>
         plt_relocation_kind p \<noteq> kDynamicRelTag then None
      else if init_array_bytes p mod 8 \<noteq> 0 \<or> fini_array_bytes p mod 8 \<noteq> 0 then None
      else
        let img = img\<lparr>lifecycle := (lifecycle img)\<lparr>init_count := init_array_bytes p div 8,
                        fini_count := fini_array_bytes p div 8\<rparr>\<rparr>;
            lc = lifecycle img; rl = relocations img in
        if table_bad img (init_array lc) (init_array_bytes p) \<or>
           table_bad img (fini_array lc) (fini_array_bytes p) then None
        else if \<not> mapped_bytes img (strings sy) (string_bytes sy) then None
        else if table_bad img (rel rl) (rel_bytes rl) \<or> table_bad img (plt rl) (plt_bytes rl) \<or>
                table_bad img (relr rl) (relr_bytes rl) then None
        else Some (img, p))"

definition parse_dynamic_tags :: "memory \<Rightarrow> nat \<Rightarrow> ImageState \<Rightarrow> (ImageState \<times> DynamicParse) option" where
  "parse_dynamic_tags m dyn_index img =
     (let dynamic_ph = program_headers (memory_of img) ! dyn_index;
          ents = or_null (runtime_pointer (memory_of img) 16 (p_vaddr dynamic_ph) 1);
          limit = p_memsz dynamic_ph div 16;
          p = new_parse\<lparr>dyn_entries := ents, entry_limit := limit\<rparr> in
      if ents = 0 \<or> limit = 0 \<or> \<not> mapped_bytes img ents (limit * 16) then None
      else case parse_tags m (unat limit) 0 (img, p) of
             None \<Rightarrow> None
           | Some st \<Rightarrow> parse_finish st)"

definition symbol_count_from_sysv :: "memory \<Rightarrow> ImageState \<Rightarrow> u64 \<Rightarrow> u64" where
  "symbol_count_from_sysv m img table =
     (if table = 0 \<or> \<not> mapped_bytes img table 8 then 0 else
      let bucket_count = read32 m table; chain_count = read32 m (table + 4) in
      case add_overflow 2 (ucast bucket_count) of None \<Rightarrow> 0
      | Some w1 \<Rightarrow>
      (case add_overflow w1 (ucast chain_count) of None \<Rightarrow> 0
       | Some w2 \<Rightarrow>
       (case multiply_overflow w2 4 of None \<Rightarrow> 0
        | Some words \<Rightarrow> if \<not> mapped_bytes img table words then 0 else ucast chain_count)))"

text \<open>The maximum over the buckets; the argument is the list of bucket words.\<close>

fun largest_bucket_of :: "u32 list \<Rightarrow> u32 \<Rightarrow> u32" where
  "largest_bucket_of [] largest = largest"
| "largest_bucket_of (b # bs) largest = largest_bucket_of bs (if b > largest then b else largest)"

text \<open>The \<^verbatim>\<open>for (;;)\<close> along the hash chain.  It has no bound of its own, so not returning is \<open>None\<close>.\<close>

partial_function (option) gnu_chain_end ::
  "memory \<Rightarrow> ImageState \<Rightarrow> u64 \<Rightarrow> u64 \<Rightarrow> u64 \<Rightarrow> u64 option" where
  "gnu_chain_end m img chain_words first_hashed_symbol symbol_index =
     (let chain_index = symbol_index - first_hashed_symbol;
          chain = chain_words + 4 * chain_index in
      if \<not> mapped_bytes img chain 4 then Some 0 else
      let v = read32 m chain in
      if (v AND 1) \<noteq> 0 then Some (symbol_index + 1)
      else gnu_chain_end m img chain_words first_hashed_symbol (symbol_index + 1))"

definition symbol_count_from_gnu :: "memory \<Rightarrow> ImageState \<Rightarrow> u64 \<Rightarrow> u64 option" where
  "symbol_count_from_gnu m img table =
     (if table = 0 \<or> \<not> mapped_bytes img table 16 then Some 0 else
      let bucket_count = read32 m table; first_hashed_symbol = read32 m (table + 4);
          bloom_words = read32 m (table + 8) in
      if bucket_count = 0 \<or> bloom_words = 0 then Some 0 else
      let bloom = table + 16 in
      case multiply_overflow (ucast bloom_words) 8 of None \<Rightarrow> Some 0
      | Some bloom_bytes \<Rightarrow>
        if \<not> mapped_bytes img bloom bloom_bytes then Some 0 else
        let buckets = bloom + bloom_bytes in
        case multiply_overflow (ucast bucket_count) 4 of None \<Rightarrow> Some 0
        | Some bucket_bytes \<Rightarrow>
          if \<not> mapped_bytes img buckets bucket_bytes then Some 0 else
          let chain_words = buckets + 4 * ucast bucket_count;
              largest = largest_bucket_of
                (map (\<lambda>i. read32 m (buckets + 4 * of_nat i)) [0..<unat bucket_count]) 0 in
          if largest < first_hashed_symbol then Some (ucast first_hashed_symbol)
          else gnu_chain_end m img chain_words (ucast first_hashed_symbol) (ucast largest))"

text \<open>\<open>None\<close>: the chain walk does not return; otherwise the C++ result and the image.\<close>

definition establish_symbol_count ::
  "memory \<Rightarrow> DynamicParse \<Rightarrow> ImageState \<Rightarrow> (bool \<times> ImageState) option" where
  "establish_symbol_count m p img =
     (case symbol_count_from_gnu m img (gnu_hash p) of
        None \<Rightarrow> None
      | Some gnu_count \<Rightarrow>
        let sysv_count = symbol_count_from_sysv m img (sysv_hash p);
            c = (if sysv_count > gnu_count then sysv_count else gnu_count);
            img' = img\<lparr>symbols := (symbols img)\<lparr>sym_count := c\<rparr>\<rparr> in
        Some (c \<noteq> 0 \<and> (case multiply_overflow c 24 of None \<Rightarrow> False
                        | Some symbol_bytes \<Rightarrow> mapped_bytes img' (entries (symbols img')) symbol_bytes), img'))"

section \<open>Bounds of the parsed tables\<close>

text \<open>Everything the later stages read through the parsed pointers lies inside the image.\<close>

definition tables_inside :: "ImageState \<Rightarrow> bool" where
  "tables_inside img \<longleftrightarrow> (let sp = memory_of img; sy = symbols img; rl = relocations img; lc = lifecycle img in
     bytes_inside sp (strings sy) (unat (string_bytes sy)) \<and> strings sy \<noteq> 0 \<and> string_bytes sy \<noteq> 0 \<and>
     bytes_inside sp (rel rl) (unat (rel_bytes rl)) \<and>
     bytes_inside sp (plt rl) (unat (plt_bytes rl)) \<and>
     bytes_inside sp (relr rl) (unat (relr_bytes rl)) \<and>
     bytes_inside sp (init_array lc) (8 * unat (init_count lc)) \<and>
     bytes_inside sp (fini_array lc) (8 * unat (fini_count lc)))"

lemma bytes_inside_0 [simp]: "bytes_inside sp a 0"
  by (simp add: bytes_inside_def in_range_def)

lemma table_good_inside:
  "space_ok (memory_of img) \<Longrightarrow> \<not> table_bad img a n \<Longrightarrow> bytes_inside (memory_of img) a (unat n)"
  using mapped_bytes_inside by (auto simp: table_bad_def)

lemma eight_times_div: "8 * unat (w div 8) = unat w" if "w mod 8 = 0" for w :: u64
proof -
  have "unat (w mod 8) = unat w mod 8" by (simp add: unat_mod)
  with that have "unat w mod 8 = 0" by simp
  then have "8 * (unat w div 8) = unat w" by presburger
  then show ?thesis by (simp add: unat_div)
qed

lemma parse_tag_memory:
  "parse_tag tag d (img, p) = Some (img', p') \<Longrightarrow> memory_of img' = memory_of img"
  unfolding parse_tag_def Let_def by (simp split: if_splits; clarsimp)

lemma parse_tags_memory:
  "parse_tags m n i st = Some st' \<Longrightarrow> memory_of (fst st') = memory_of (fst st)"
proof (induction m n i st rule: parse_tags.induct)
  case (1 m i st)
  then show ?case by simp
next
  case (2 m n i st)
  show ?case
  proof (cases "read64 m (dyn_entries (snd st) + 16 * i) = DT_NULL")
    case True
    with 2(2) show ?thesis by auto
  next
    case False
    with 2(2) obtain st1 where
      s: "parse_tag (read64 m (dyn_entries (snd st) + 16 * i))
            (read64 m (dyn_entries (snd st) + 16 * i + 8)) st = Some st1"
      and r: "parse_tags m n (i + 1) st1 = Some st'"
      by (auto simp: Let_def split: option.splits)
    have "memory_of (fst st1) = memory_of (fst st)"
      using parse_tag_memory [of _ _ "fst st" "snd st" "fst st1" "snd st1"] s by simp
    moreover have "memory_of (fst st') = memory_of (fst st1)"
      by (rule 2(1) [OF refl refl refl False s r])
    ultimately show ?thesis by simp
  qed
qed

lemma parse_finish_tables:
  assumes "space_ok (memory_of img)" and "parse_finish (img, p) = Some (img', p')"
  shows "tables_inside img' \<and> memory_of img' = memory_of img"
proof -
  let ?i = "img\<lparr>lifecycle := (lifecycle img)\<lparr>init_count := init_array_bytes p div 8,
                        fini_count := fini_array_bytes p div 8\<rparr>\<rparr>"
  from assms(2) have img': "img' = ?i"
    and sy: "strings (symbols img) \<noteq> 0" "string_bytes (symbols img) \<noteq> 0"
    and div: "init_array_bytes p mod 8 = 0" "fini_array_bytes p mod 8 = 0"
    and t: "\<not> table_bad ?i (init_array (lifecycle img)) (init_array_bytes p)"
      "\<not> table_bad ?i (fini_array (lifecycle img)) (fini_array_bytes p)"
      "mapped_bytes ?i (strings (symbols img)) (string_bytes (symbols img))"
      "\<not> table_bad ?i (rel (relocations img)) (rel_bytes (relocations img))"
      "\<not> table_bad ?i (plt (relocations img)) (plt_bytes (relocations img))"
      "\<not> table_bad ?i (relr (relocations img)) (relr_bytes (relocations img))"
    by (auto simp: parse_finish_def Let_def split: if_splits)
  have ok: "space_ok (memory_of ?i)" using assms(1) by simp
  note g = table_good_inside [OF ok] mapped_bytes_inside [OF ok]
  show ?thesis
    using sy g(1) [OF t(1)] g(1) [OF t(2)] g(1) [OF t(4)] g(1) [OF t(5)] g(1) [OF t(6)] g(2) [OF t(3)]
    by (simp add: tables_inside_def img' Let_def eight_times_div [OF div(1)] eight_times_div [OF div(2)])
qed

text \<open>C21: Parsing the dynamic section is safe on any input: when \<open>parse_dynamic_tags\<close> accepts, the
  string table, the three relocation tables and the initializer and finalizer arrays all lie inside
  the image, whatever the tags claimed, and the mapping of the image is not changed.\<close>

theorem parse_dynamic_tags_inside:
  assumes "space_ok (memory_of img)" and "parse_dynamic_tags m d img = Some (img', p)"
  shows "tables_inside img' \<and> memory_of img' = memory_of img"
proof -
  from assms(2) obtain n p0 st where
    run: "parse_tags m n 0 (img, p0) = Some st" and fin: "parse_finish st = Some (img', p)"
    by (auto simp: parse_dynamic_tags_def Let_def split: if_splits option.splits)
  from parse_tags_memory [OF run] have mem: "memory_of (fst st) = memory_of img" by simp
  with assms(1) fin parse_finish_tables [of "fst st" "snd st" img' p] show ?thesis by simp
qed

section \<open>The chain walk returns\<close>

lemma contains_step:
  assumes "space_ok (memory_of img)" and "mapped_bytes img a 4"
  shows "unat (a + 4) = unat a + 4" and
    "unat a + 4 \<le> unat (reservation (memory_of img)) + unat (span (memory_of img))"
proof -
  from assms(2) show le: "unat a + 4 \<le> unat (reservation (memory_of img)) + unat (span (memory_of img))"
    by (simp add: mapped_bytes_def address_space_contains_iff)
  have "unat a + unat (4 :: u64) < 2 ^ 64" using le assms(1) by (simp add: space_ok_def)
  then show "unat (a + 4) = unat a + 4" using unat_add_lt [of a 4] by simp
qed

lemma gnu_chain_end_returns:
  assumes ok: "space_ok (memory_of img)"
  shows "\<exists>c. gnu_chain_end m img chain_words f i = Some c"
proof -
  let ?lim = "unat (reservation (memory_of img)) + unat (span (memory_of img))"
  have "\<exists>c. gnu_chain_end m img chain_words f i = Some c" if "?lim - unat (chain_words + 4 * (i - f)) = n" for n
    using that
  proof (induction n arbitrary: i rule: less_induct)
    case (less n)
    let ?a = "chain_words + 4 * (i - f)"
    show ?case
    proof (cases "mapped_bytes img ?a 4 \<and> (read32 m ?a AND 1) = 0")
      case True
      have next_addr: "chain_words + 4 * (i + 1 - f) = ?a + 4" by (simp add: algebra_simps)
      note s = contains_step [OF ok conjunct1 [OF True]]
      have "?lim - unat (chain_words + 4 * (i + 1 - f)) < n"
        unfolding next_addr s(1) using s(2) less.prems by linarith
      from less.IH [OF this refl] True show ?thesis
        by (subst gnu_chain_end.simps) (simp add: Let_def)
    next
      case False
      then show ?thesis by (subst gnu_chain_end.simps) (auto simp: Let_def)
    qed
  qed
  then show ?thesis by blast
qed

lemma symbol_count_from_gnu_returns:
  assumes ok: "space_ok (memory_of img)"
  shows "symbol_count_from_gnu m img table \<noteq> None"
proof -
  have "gnu_chain_end m img c f i \<noteq> None" for c f i
    using gnu_chain_end_returns [OF ok, of m c f i] by auto
  then show ?thesis unfolding symbol_count_from_gnu_def Let_def by (simp split: option.split)
qed

text \<open>C26: Counting the symbols always returns, although the walk along the GNU hash chain has no bound
  of its own, and when it succeeds the whole symbol table lies inside the image.\<close>

theorem establish_symbol_count_returns:
  assumes ok: "space_ok (memory_of img)"
  shows "\<exists>r img'. establish_symbol_count m p img = Some (r, img') \<and> memory_of img' = memory_of img \<and>
     (r \<longrightarrow> sym_count (symbols img') \<noteq> 0 \<and>
        bytes_inside (memory_of img) (entries (symbols img')) (24 * unat (sym_count (symbols img'))))"
proof -
  obtain g where g: "symbol_count_from_gnu m img (gnu_hash p) = Some g"
    using symbol_count_from_gnu_returns [OF ok, of m "gnu_hash p"] by auto
  let ?s = "symbol_count_from_sysv m img (sysv_hash p)"
  let ?c = "if ?s > g then ?s else g"
  let ?i = "img\<lparr>symbols := (symbols img)\<lparr>sym_count := ?c\<rparr>\<rparr>"
  have "bytes_inside (memory_of ?i) (entries (symbols ?i)) (24 * unat ?c)"
    if "multiply_overflow ?c 24 = Some b" "mapped_bytes ?i (entries (symbols ?i)) b" for b
    using mapped_bytes_inside [OF _ that(2)] ok multiply_overflow_unat [OF that(1)]
    by (simp add: mult.commute)
  then show ?thesis
    by (auto simp: establish_symbol_count_def g Let_def split: option.splits)
qed

section \<open>Concrete images\<close>

text \<open>A dynamic section of four entries and the image that holds it.\<close>

definition demo_dynamic :: memory where
  "demo_dynamic = write_bytes (\<lambda>_. 0) 0x10000 [6, 0, 0, 0, 0, 0, 0, 0, 0, 1, 0, 0, 0, 0, 0, 0,
     5, 0, 0, 0, 0, 0, 0, 0, 0, 2, 0, 0, 0, 0, 0, 0, 10, 0, 0, 0, 0, 0, 0, 0, 16, 0, 0, 0, 0, 0, 0, 0]"

definition demo_phdr :: Phdr where
  "demo_phdr = \<lparr>p_type = 2, p_flags = 4, p_offset = 0, p_vaddr = 0, p_filesz = 64, p_memsz = 64, p_align = 8\<rparr>"

definition demo_image :: ImageState where
  "demo_image = new_image\<lparr>memory_of := \<lparr>reservation = 0x10000, span = 0x1000, lowest_vaddr = 0,
     bias = 0x10000, program_headers = [demo_phdr], file_backed = False\<rparr>\<rparr>"

lemma demo_dynamic_words:
  "read64 demo_dynamic 0x10000 = 6" "read64 demo_dynamic 0x10008 = 0x100"
  "read64 demo_dynamic 0x10010 = 5" "read64 demo_dynamic 0x10018 = 0x200"
  "read64 demo_dynamic 0x10020 = 10" "read64 demo_dynamic 0x10028 = 16"
  "read64 demo_dynamic 0x10030 = 0"
  by (simp_all add: demo_dynamic_def read64_def read_bytes_def write_bytes_def upt_rec)

lemmas parse_tags_numeral = parse_tags.simps(2) [of _ "pred_numeral k" for k, folded numeral_eq_Suc]

lemma demo_parse:
  obtains img' p where "parse_dynamic_tags demo_dynamic 0 demo_image = Some (img', p)"
    and "strings (symbols img') = 0x10200" and "string_bytes (symbols img') = 16"
  by (simp add: parse_dynamic_tags_def demo_image_def new_image_def demo_phdr_def runtime_pointer_def
      multiply_overflow_def address_space_contains_def or_null_def mapped_bytes_def Let_def
      parse_tags_numeral demo_dynamic_words new_parse_def parse_tag_def
      dynamic_pointer_def parse_finish_def table_bad_def)

theorem parse_dynamic_tags_inside_witness:
  "space_ok (memory_of demo_image) \<and>
   (\<exists>img' p. parse_dynamic_tags demo_dynamic 0 demo_image = Some (img', p) \<and>
      bytes_inside (memory_of demo_image) 0x10200 16)"
proof -
  have ok: "space_ok (memory_of demo_image)" by (simp add: demo_image_def space_ok_def)
  obtain img' p where run: "parse_dynamic_tags demo_dynamic 0 demo_image = Some (img', p)"
    and s: "strings (symbols img') = 0x10200" "string_bytes (symbols img') = 16" by (rule demo_parse)
  have "bytes_inside (memory_of demo_image) 0x10200 16"
    using parse_dynamic_tags_inside [OF ok run] s by (auto simp: tables_inside_def Let_def)
  with ok run show ?thesis by blast
qed

text \<open>A GNU hash table with one bucket and one hashed symbol.\<close>

definition demo_gnu :: memory where
  "demo_gnu = write_bytes (\<lambda>_. 0) 0x10300 [1, 0, 0, 0, 1, 0, 0, 0, 1, 0, 0, 0, 0, 0, 0, 0,
     0, 0, 0, 0, 0, 0, 0, 0, 1, 0, 0, 0, 3, 0, 0, 0]"

definition demo_symtab_image :: ImageState where
  "demo_symtab_image = demo_image\<lparr>symbols := (symbols demo_image)\<lparr>entries := 0x10100\<rparr>\<rparr>"

lemma demo_gnu_words:
  "read32 demo_gnu 0x10300 = 1" "read32 demo_gnu 0x10304 = 1" "read32 demo_gnu 0x10308 = 1"
  "read32 demo_gnu 0x10318 = 1" "read32 demo_gnu 0x1031c = 3"
  by (simp_all add: demo_gnu_def read32_def read_bytes_def write_bytes_def upt_rec)

lemma demo_gnu_count:
  "establish_symbol_count demo_gnu (new_parse\<lparr>gnu_hash := 0x10300\<rparr>) demo_symtab_image =
     Some (True, demo_symtab_image\<lparr>symbols := (symbols demo_symtab_image)\<lparr>sym_count := 2\<rparr>\<rparr>)"
  by (simp add: establish_symbol_count_def symbol_count_from_sysv_def symbol_count_from_gnu_def
      new_parse_def demo_symtab_image_def demo_image_def new_image_def mapped_bytes_def
      address_space_contains_def multiply_overflow_def demo_gnu_words gnu_chain_end.simps Let_def)

theorem establish_symbol_count_returns_witness:
  "space_ok (memory_of demo_symtab_image) \<and>
   establish_symbol_count demo_gnu (new_parse\<lparr>gnu_hash := 0x10300\<rparr>) demo_symtab_image =
     Some (True, demo_symtab_image\<lparr>symbols := (symbols demo_symtab_image)\<lparr>sym_count := 2\<rparr>\<rparr>) \<and>
   bytes_inside (memory_of demo_symtab_image) 0x10100 48"
proof -
  have ok: "space_ok (memory_of demo_symtab_image)"
    by (simp add: demo_symtab_image_def demo_image_def space_ok_def)
  have e: "entries (symbols demo_symtab_image) = 0x10100" by (simp add: demo_symtab_image_def)
  have "bytes_inside (memory_of demo_symtab_image) 0x10100 48"
    using establish_symbol_count_returns [OF ok, of demo_gnu "new_parse\<lparr>gnu_hash := 0x10300\<rparr>"]
    by (auto simp: demo_gnu_count e)
  with ok demo_gnu_count show ?thesis by blast
qed

end
