(* ===== verification/Probe_Table.thy ===== *)
theory Probe_Table
  imports Main
begin

text \<open>
  Linear probing over a table of slots, the algorithm behind the loader's symbol index, stated on
  natural numbers: slot 0 is empty and slot \<open>i + 1\<close> refers to item \<open>i\<close>.  The two loops are those of
  \<^verbatim>\<open>build_symbol_index\<close> and \<^verbatim>\<open>find_defined_symbol\<close>; theory \<open>Symbol_Index\<close> shows that the loops on
  memory words are these.  The result is that a lookup finds the first inserted item with the key.
\<close>

fun find_probe :: "(nat \<Rightarrow> 'k) \<Rightarrow> nat \<Rightarrow> 'k \<Rightarrow> nat \<Rightarrow> nat \<Rightarrow> (nat \<Rightarrow> nat) \<Rightarrow> nat option" where
  "find_probe key C k 0 s t = None"
| "find_probe key C k (Suc n) s t =
     (if t s = 0 then None else if key (t s - 1) = k then Some (t s - 1)
      else find_probe key C k n (Suc s mod C) t)"

fun insert_probe :: "(nat \<Rightarrow> 'k) \<Rightarrow> nat \<Rightarrow> nat \<Rightarrow> nat \<Rightarrow> nat \<Rightarrow> (nat \<Rightarrow> nat) \<Rightarrow> nat \<Rightarrow> nat" where
  "insert_probe key C i 0 s t = t"
| "insert_probe key C i (Suc n) s t =
     (if t s = 0 then t(s := i + 1) else if key (t s - 1) = key i then t
      else insert_probe key C i n (Suc s mod C) t)"

text \<open>The invariant after the items of \<open>D\<close> were inserted in order.\<close>

definition table_ok :: "nat \<Rightarrow> ('k \<Rightarrow> nat) \<Rightarrow> (nat \<Rightarrow> 'k) \<Rightarrow> nat list \<Rightarrow> (nat \<Rightarrow> nat) \<Rightarrow> bool" where
  "table_ok C home key D t \<longleftrightarrow>
     (\<forall>s < C. t s \<noteq> 0 \<longrightarrow> find (\<lambda>i. key i = key (t s - 1)) D = Some (t s - 1)) \<and>
     (\<forall>i \<in> set D. \<exists>s < C. t s \<noteq> 0 \<and> key (t s - 1) = key i) \<and>
     (\<forall>s < C. t s \<noteq> 0 \<longrightarrow> (\<exists>d < C. s = (home (key (t s - 1)) + d) mod C \<and>
        (\<forall>j < d. t ((home (key (t s - 1)) + j) mod C) \<noteq> 0))) \<and>
     card {s. s < C \<and> t s \<noteq> 0} \<le> length D"

locale probe_table =
  fixes C :: nat and home :: "'k \<Rightarrow> nat" and key :: "nat \<Rightarrow> 'k"
  assumes C_pos: "0 < C" and home_less: "home k < C"
begin

lemma slot_reached: "\<exists>j < C. (h + j) mod C = s" if "s < C" for h s
proof
  let ?j = "(s + (C - h mod C)) mod C"
  have "(h + ?j) mod C = (h mod C + (s + (C - h mod C))) mod C" by (simp add: mod_simps)
  also have "h mod C + (s + (C - h mod C)) = s + C" using mod_less_divisor [OF C_pos, of h] by linarith
  also have "(s + C) mod C = s" using that by simp
  finally show "?j < C \<and> (h + ?j) mod C = s" using C_pos by simp
qed

lemma first_stop:
  assumes "s < C" and "t s = 0"
  obtains d where "d < C" and "t ((h + d) mod C) = 0 \<or> key (t ((h + d) mod C) - 1) = k"
    and "\<forall>j < d. t ((h + j) mod C) \<noteq> 0 \<and> key (t ((h + j) mod C) - 1) \<noteq> k"
proof -
  let ?Q = "\<lambda>j. t ((h + j) mod C) = 0 \<or> key (t ((h + j) mod C) - 1) = k"
  from slot_reached [OF assms(1), of h] assms(2) obtain j where j: "j < C" "?Q j" by auto
  have "?Q (LEAST j. ?Q j)" using j(2) by (rule LeastI)
  moreover have "(LEAST j. ?Q j) < C" using Least_le [of ?Q j] j by simp
  moreover have "\<not> ?Q j" if "j < (LEAST j. ?Q j)" for j using that by (rule not_less_Least)
  ultimately show thesis by (intro that [of "LEAST j. ?Q j"]) simp_all
qed

lemma slot_step: "Suc ((h + b) mod C) mod C = (h + Suc b) mod C"
  by (simp add: mod_Suc_eq)

lemma find_probe_stop:
  assumes "b \<le> d" and "d < b + n" and "t ((h + d) mod C) = 0 \<or> key (t ((h + d) mod C) - 1) = k"
    and "\<And>j. j < d \<Longrightarrow> t ((h + j) mod C) \<noteq> 0 \<and> key (t ((h + j) mod C) - 1) \<noteq> k"
  shows "find_probe key C k n ((h + b) mod C) t =
    (if t ((h + d) mod C) = 0 then None else Some (t ((h + d) mod C) - 1))"
  using assms(1,2)
proof (induction n arbitrary: b)
  case 0
  then show ?case by simp
next
  case (Suc n)
  show ?case
  proof (cases "b = d")
    case True
    then show ?thesis using assms(3) by auto
  next
    case False
    then have "b < d" using Suc.prems by simp
    then show ?thesis
      using Suc.IH [of "Suc b"] Suc.prems assms(4) [OF \<open>b < d\<close>] by (simp add: slot_step)
  qed
qed

lemma insert_probe_stop:
  assumes "b \<le> d" and "d < b + n" and "t ((h + d) mod C) = 0 \<or> key (t ((h + d) mod C) - 1) = key i"
    and "\<And>j. j < d \<Longrightarrow> t ((h + j) mod C) \<noteq> 0 \<and> key (t ((h + j) mod C) - 1) \<noteq> key i"
  shows "insert_probe key C i n ((h + b) mod C) t =
    (if t ((h + d) mod C) = 0 then t((h + d) mod C := i + 1) else t)"
  using assms(1,2)
proof (induction n arbitrary: b)
  case 0
  then show ?case by simp
next
  case (Suc n)
  show ?case
  proof (cases "b = d")
    case True
    then show ?thesis using assms(3) by auto
  next
    case False
    then have "b < d" using Suc.prems by simp
    then show ?thesis
      using Suc.IH [of "Suc b"] Suc.prems assms(4) [OF \<open>b < d\<close>] by (simp add: slot_step)
  qed
qed

text \<open>Fewer items than slots leave an empty slot, so every probe sequence stops.\<close>

lemma empty_slot:
  assumes "table_ok C home key D t" and "length D < C"
  obtains s where "s < C" and "t s = 0"
proof (rule ccontr)
  assume "\<not> thesis"
  then have "{s. s < C \<and> t s \<noteq> 0} = {..<C}" using that by auto
  then have "card {s. s < C \<and> t s \<noteq> 0} = C" by simp
  with assms show False by (simp add: table_ok_def)
qed

text \<open>An empty slot before any match means that the key was never inserted.\<close>

lemma empty_stop_absent:
  assumes ok: "table_ok C home key D t" and "t ((home k + d) mod C) = 0"
    and "\<And>j. j < d \<Longrightarrow> t ((home k + j) mod C) \<noteq> 0 \<and> key (t ((home k + j) mod C) - 1) \<noteq> k"
  shows "find (\<lambda>i. key i = k) D = None"
proof -
  have False if i: "i \<in> set D" "key i = k" for i
  proof -
    from ok i obtain s where s: "s < C" "t s \<noteq> 0" "key (t s - 1) = k"
      by (auto simp: table_ok_def)
    with ok obtain d' where d': "s = (home k + d') mod C" "\<forall>j < d'. t ((home k + j) mod C) \<noteq> 0"
      unfolding table_ok_def by metis
    show False
    proof (cases "d' < d")
      case True
      with assms(3) d'(1) s(3) show False by blast
    next
      case False
      then consider "d < d'" | "d = d'" by linarith
      then show False using assms(2) d' s(2) by cases auto
    qed
  qed
  then show ?thesis by (auto simp: find_None_iff)
qed

lemma find_probe_spec:
  assumes ok: "table_ok C home key D t" and room: "length D < C"
  shows "find_probe key C k C (home k) t = find (\<lambda>i. key i = k) D"
proof -
  from empty_slot [OF ok room] obtain s where "s < C" "t s = 0" .
  then obtain d where d: "d < C" "t ((home k + d) mod C) = 0 \<or> key (t ((home k + d) mod C) - 1) = k"
    "\<forall>j < d. t ((home k + j) mod C) \<noteq> 0 \<and> key (t ((home k + j) mod C) - 1) \<noteq> k"
    by (rule first_stop [where h = "home k" and k = k])
  have res: "find_probe key C k C (home k) t =
      (if t ((home k + d) mod C) = 0 then None else Some (t ((home k + d) mod C) - 1))"
    using find_probe_stop [of 0 d C t "home k" k] d home_less by simp
  show ?thesis
  proof (cases "t ((home k + d) mod C) = 0")
    case True
    with res empty_stop_absent [OF ok True d(3) [rule_format]] show ?thesis by simp
  next
    case False
    with d(2) have m: "key (t ((home k + d) mod C) - 1) = k" by simp
    have "(home k + d) mod C < C" using C_pos by simp
    with ok False have "find (\<lambda>i. key i = key (t ((home k + d) mod C) - 1)) D =
        Some (t ((home k + d) mod C) - 1)"
      unfolding table_ok_def by blast
    with res False m show ?thesis by simp
  qed
qed

lemma table_ok_duplicate:
  assumes ok: "table_ok C home key D t" and "s < C" "t s \<noteq> 0" "key (t s - 1) = key i"
  shows "table_ok C home key (D @ [i]) t"
proof -
  have "find P (D @ [i]) = Some x" if "find P D = Some x" for P x
    using that by (induction D) auto
  then show ?thesis using assms unfolding table_ok_def by (auto intro: le_SucI)
qed

lemma table_ok_new:
  assumes ok: "table_ok C home key D t" and d: "d < C" "t ((home (key i) + d) mod C) = 0"
    and path: "\<And>j. j < d \<Longrightarrow> t ((home (key i) + j) mod C) \<noteq> 0"
    and absent: "find (\<lambda>x. key x = key i) D = None"
  shows "table_ok C home key (D @ [i]) (t((home (key i) + d) mod C := i + 1))"
proof -
  let ?s = "(home (key i) + d) mod C" and ?t = "t((home (key i) + d) mod C := i + 1)"
  have sC: "?s < C" using C_pos by simp
  have found: "find P (D @ [i]) = Some x" if "find P D = Some x" for P x
    using that by (induction D) auto
  have fresh: "find (\<lambda>x. key x = key i) (D @ [i]) = Some i"
    using absent by (induction D) (auto split: if_splits)
  have first: "find (\<lambda>x. key x = key (?t s - 1)) (D @ [i]) = Some (?t s - 1)"
    if "s < C" "?t s \<noteq> 0" for s
  proof (cases "s = ?s")
    case True
    then show ?thesis using fresh by simp
  next
    case False
    with that have "s < C" "t s \<noteq> 0" "?t s = t s" by auto
    moreover from this ok have "find (\<lambda>i. key i = key (t s - 1)) D = Some (t s - 1)"
      unfolding table_ok_def by blast
    ultimately show ?thesis by (simp add: found)
  qed
  have grow: "?t x \<noteq> 0" if "t x \<noteq> 0" for x using that by simp
  have paths: "\<exists>e < C. s = (home (key (?t s - 1)) + e) mod C \<and>
      (\<forall>j < e. ?t ((home (key (?t s - 1)) + j) mod C) \<noteq> 0)" if "s < C" "?t s \<noteq> 0" for s
  proof (cases "s = ?s")
    case True
    then show ?thesis using d(1) path grow by (intro exI [of _ d]) auto
  next
    case False
    then have same: "?t s = t s" by simp
    with that have "s < C" "t s \<noteq> 0" by simp_all
    with ok obtain e where "e < C" "s = (home (key (t s - 1)) + e) mod C"
      "\<forall>j < e. t ((home (key (t s - 1)) + j) mod C) \<noteq> 0" unfolding table_ok_def by blast
    then show ?thesis unfolding same using grow by blast
  qed
  have members: "\<exists>s < C. ?t s \<noteq> 0 \<and> key (?t s - 1) = key x" if "x \<in> set (D @ [i])" for x
  proof (cases "key x = key i")
    case True
    then show ?thesis using sC by (intro exI [of _ ?s]) simp
  next
    case False
    with that ok obtain s where "s < C" "t s \<noteq> 0" "key (t s - 1) = key x"
      by (auto simp: table_ok_def)
    with d(2) show ?thesis by (intro exI [of _ s]) auto
  qed
  have "{s. s < C \<and> ?t s \<noteq> 0} \<subseteq> insert ?s {s. s < C \<and> t s \<noteq> 0}" by auto
  then have "card {s. s < C \<and> ?t s \<noteq> 0} \<le> card (insert ?s {s. s < C \<and> t s \<noteq> 0})"
    by (intro card_mono) auto
  also have "\<dots> \<le> Suc (length D)"
    using ok d(2) by (simp add: table_ok_def card_insert_if)
  finally have card: "card {s. s < C \<and> ?t s \<noteq> 0} \<le> length (D @ [i])" by simp
  show ?thesis
    unfolding table_ok_def using first members paths card by blast
qed

lemma insert_probe_ok:
  assumes ok: "table_ok C home key D t" and room: "length D < C"
  shows "table_ok C home key (D @ [i]) (insert_probe key C i C (home (key i)) t)"
proof -
  let ?h = "home (key i)"
  from empty_slot [OF ok room] obtain s where "s < C" "t s = 0" .
  then obtain d where d: "d < C" "t ((?h + d) mod C) = 0 \<or> key (t ((?h + d) mod C) - 1) = key i"
    "\<forall>j < d. t ((?h + j) mod C) \<noteq> 0 \<and> key (t ((?h + j) mod C) - 1) \<noteq> key i"
    by (rule first_stop [where h = ?h and k = "key i"])
  have res: "insert_probe key C i C ?h t =
      (if t ((?h + d) mod C) = 0 then t((?h + d) mod C := i + 1) else t)"
    using insert_probe_stop [of 0 d C t ?h i] d home_less by simp
  show ?thesis
  proof (cases "t ((?h + d) mod C) = 0")
    case True
    then show ?thesis
      unfolding res using table_ok_new [OF ok d(1) True] d(3) empty_stop_absent [OF ok True d(3) [rule_format]] by simp
  next
    case False
    then show ?thesis
      unfolding res using table_ok_duplicate [OF ok _ False] d(2) C_pos by simp
  qed
qed

lemma table_ok_empty: "table_ok C home key [] (\<lambda>_. 0)"
  by (simp add: table_ok_def)

text \<open>Only the slots below \<open>C\<close> matter.\<close>

lemma table_ok_cong:
  assumes "\<And>s. s < C \<Longrightarrow> t s = t' s" and "table_ok C home key D t"
  shows "table_ok C home key D t'"
proof -
  have slot: "(home k + j) mod C < C" for k j using C_pos by simp
  have "{s. s < C \<and> t s \<noteq> 0} = {s. s < C \<and> t' s \<noteq> 0}" using assms(1) by auto
  then show ?thesis using assms slot unfolding table_ok_def by (simp; metis)
qed

end

end
