(* ===== verification/Symbol_Index.thy ===== *)
theory Symbol_Index
  imports Dynamic_Parse Probe_Table
begin

text \<open>
  Symbol lookup in a loaded image (\<^verbatim>\<open>symbol_name_valid\<close>, \<^verbatim>\<open>requires_system_tls_runtime\<close>,
  \<^verbatim>\<open>symbol_name_hash\<close>, \<^verbatim>\<open>build_symbol_index\<close>, \<^verbatim>\<open>find_defined_symbol\<close>, \<^verbatim>\<open>symbol_at\<close> in
  \<^verbatim>\<open>yukilinker.cpp\<close>).  Symbols, strings and the index slots are read from and written to the process
  memory.  The main result is that the hash index gives the same answer as the linear scan it
  replaces, for every name.
\<close>

section \<open>Definitions\<close>

record Sym =
  st_name :: u32
  st_info :: u8
  st_other :: u8
  st_shndx :: u16
  st_value :: u64
  st_size :: u64

definition sym_at :: "memory \<Rightarrow> u64 \<Rightarrow> Sym" where
  "sym_at m a = (let bs = read_bytes m a 24 in
     \<lparr>st_name = get32 bs 0, st_info = bs ! 4, st_other = bs ! 5, st_shndx = get16 bs 6,
      st_value = get64 bs 8, st_size = get64 bs 16\<rparr>)"

abbreviation (input) SHN_UNDEF :: u16 where "SHN_UNDEF \<equiv> 0"
abbreviation (input) STT_TLS :: u8 where "STT_TLS \<equiv> 6"
abbreviation (input) STT_GNU_IFUNC :: u8 where "STT_GNU_IFUNC \<equiv> 10"

definition st_type :: "Sym \<Rightarrow> u8" where "st_type sy = st_info sy AND 0xf"
definition st_bind :: "Sym \<Rightarrow> u8" where "st_bind sy = drop_bit 4 (st_info sy)"

text \<open>\<^verbatim>\<open>&symbols.entries[i]\<close>\<close>

definition symbol_address :: "DynamicSymbols \<Rightarrow> u64 \<Rightarrow> u64" where
  "symbol_address syms i = entries syms + 24 * i"

definition symbol_at :: "ImageState \<Rightarrow> u32 \<Rightarrow> u64 option" where
  "symbol_at img index =
     (if ucast index < sym_count (symbols img) then Some (symbol_address (symbols img) (ucast index)) else None)"

definition symbol_name_valid :: "memory \<Rightarrow> DynamicSymbols \<Rightarrow> Sym \<Rightarrow> bool" where
  "symbol_name_valid m syms sy \<longleftrightarrow>
     \<not> ucast (st_name sy) \<ge> string_bytes syms \<and>
     0 \<in> set (read_bytes m (strings syms + ucast (st_name sy))
               (unat (string_bytes syms - ucast (st_name sy))))"

text \<open>The C string a symbol names.  Its callers have checked that it ends inside the string table,
  so the bound never cuts it short.\<close>

definition symbol_name :: "memory \<Rightarrow> DynamicSymbols \<Rightarrow> Sym \<Rightarrow> u8 list" where
  "symbol_name m syms sy =
     c_string m (strings syms + ucast (st_name sy)) (unat (string_bytes syms - ucast (st_name sy)))"

text \<open>The loop over the symbols; the pair holds \<^verbatim>\<open>uses_thread_atexit\<close> and \<^verbatim>\<open>uses_emulated_tls\<close>.\<close>

fun tls_runtime_scan :: "memory \<Rightarrow> ImageState \<Rightarrow> nat list \<Rightarrow> bool \<Rightarrow> bool \<Rightarrow> bool" where
  "tls_runtime_scan m img [] uses_thread_atexit uses_emulated_tls \<longleftrightarrow>
     uses_thread_atexit \<and> (memory_bytes (tls img) \<noteq> 0 \<or> uses_emulated_tls)"
| "tls_runtime_scan m img (i # is) uses_thread_atexit uses_emulated_tls \<longleftrightarrow>
     (let sy = sym_at m (symbol_address (symbols img) (of_nat i)) in
      if \<not> symbol_name_valid m (symbols img) sy
      then tls_runtime_scan m img is uses_thread_atexit uses_emulated_tls
      else let nm = symbol_name m (symbols img) sy in
        if st_shndx sy = SHN_UNDEF \<and> st_type sy = STT_TLS then True
        else tls_runtime_scan m img is
          (uses_thread_atexit \<or> (st_shndx sy = SHN_UNDEF \<and>
             (nm = ascii ''__cxa_thread_atexit'' \<or> nm = ascii ''__cxa_thread_atexit_impl'')))
          (uses_emulated_tls \<or> nm = ascii ''__emutls_get_address'' \<or> take 11 nm = ascii ''__emutls_v.''))"

definition requires_system_tls_runtime :: "memory \<Rightarrow> ImageState \<Rightarrow> bool" where
  "requires_system_tls_runtime m img =
     tls_runtime_scan m img [0..<unat (sym_count (symbols img))] False False"

definition symbol_name_hash :: "u8 list \<Rightarrow> u32" where
  "symbol_name_hash name = foldl (\<lambda>hash c. (hash XOR ucast c) * 16777619) 2166136261 name"

text \<open>The test both loops of \<^verbatim>\<open>build_symbol_index\<close> and the scan of \<^verbatim>\<open>find_defined_symbol\<close> make.\<close>

definition symbol_defined :: "memory \<Rightarrow> DynamicSymbols \<Rightarrow> nat \<Rightarrow> bool" where
  "symbol_defined m syms i \<longleftrightarrow>
     (let candidate = sym_at m (symbol_address syms (of_nat i)) in
      st_shndx candidate \<noteq> SHN_UNDEF \<and> symbol_name_valid m syms candidate)"

definition nth_symbol_name :: "memory \<Rightarrow> DynamicSymbols \<Rightarrow> nat \<Rightarrow> u8 list" where
  "nth_symbol_name m syms i = symbol_name m syms (sym_at m (symbol_address syms (of_nat i)))"

text \<open>The loop that doubles the capacity; the inner option is the early \<^verbatim>\<open>return\<close>, the outer one tells
  whether the loop ends.\<close>

partial_function (option) grow_capacity :: "u64 \<Rightarrow> u64 \<Rightarrow> u64 option option" where
  "grow_capacity target_capacity capacity =
     (if capacity < target_capacity then
        (if capacity > SIZE_MAX div 2 then Some None else grow_capacity target_capacity (capacity * 2))
      else Some (Some capacity))"

text \<open>The probe loop that stores symbol \<open>i\<close>; the first argument counts the probes left.\<close>

fun index_insert :: "nat \<Rightarrow> DynamicSymbols \<Rightarrow> u64 \<Rightarrow> u64 \<Rightarrow> nat \<Rightarrow> u8 list \<Rightarrow> u64 \<Rightarrow> memory \<Rightarrow> memory" where
  "index_insert 0 syms slots msk i candidate_name slot m = m"
| "index_insert (Suc n) syms slots msk i candidate_name slot m =
     (let encoded = read32 m (slots + 4 * slot) in
      if encoded = 0 then write32 m (slots + 4 * slot) (of_nat (i + 1))
      else let existing = sym_at m (symbol_address syms (ucast (encoded - 1))) in
        if symbol_name m syms existing = candidate_name then m
        else index_insert n syms slots msk i candidate_name ((slot + 1) AND msk) m)"

definition index_step :: "DynamicSymbols \<Rightarrow> u64 \<Rightarrow> u64 \<Rightarrow> nat \<Rightarrow> memory \<Rightarrow> memory" where
  "index_step syms slots capacity i m =
     (if \<not> symbol_defined m syms i then m
      else let candidate_name = nth_symbol_name m syms i; msk = capacity - 1 in
        index_insert (unat capacity) syms slots msk i candidate_name
          (ucast (symbol_name_hash candidate_name) AND msk) m)"

text \<open>\<open>None\<close> is a loop that does not end.  \<open>mmap\<close> and \<open>ps\<close> serve the metadata arena.\<close>

definition build_symbol_index ::
  "u64 \<Rightarrow> mmap_fn \<Rightarrow> DynamicSymbols \<times> MetadataPage list \<times> memory
     \<Rightarrow> (DynamicSymbols \<times> MetadataPage list \<times> memory) option" where
  "build_symbol_index ps mmap s =
     (let (syms, pages, m) = s in
      if sym_count syms > 0xffffffff then Some s else
      let defined_count = of_nat (length (filter (symbol_defined m syms) [0..<unat (sym_count syms)])) in
      if defined_count = 0 then Some s else
      case multiply_overflow defined_count 2 of None \<Rightarrow> Some s
      | Some target_capacity \<Rightarrow>
        (case grow_capacity target_capacity 8 of
           None \<Rightarrow> None
         | Some None \<Rightarrow> Some s
         | Some (Some capacity) \<Rightarrow>
           (case multiply_overflow capacity 4 of None \<Rightarrow> Some s
            | Some index_bytes \<Rightarrow>
              (case metadata_allocate ps mmap index_bytes 4 (pages, m) of
                 (None, pages1, m1) \<Rightarrow> Some (syms, pages1, m1)
               | (Some slots, pages1, m1) \<Rightarrow>
                 Some (syms\<lparr>index_slots := slots, index_capacity := capacity\<rparr>, pages1,
                       fold (index_step syms slots capacity) [0..<unat (sym_count syms)] m1)))))"

fun index_find :: "nat \<Rightarrow> memory \<Rightarrow> DynamicSymbols \<Rightarrow> u64 \<Rightarrow> u8 list \<Rightarrow> u64 \<Rightarrow> u64 option" where
  "index_find 0 m syms msk name slot = None"
| "index_find (Suc n) m syms msk name slot =
     (let encoded = read32 m (index_slots syms + 4 * slot) in
      if encoded = 0 then None
      else let candidate = symbol_address syms (ucast (encoded - 1)) in
        if symbol_name m syms (sym_at m candidate) = name then Some candidate
        else index_find n m syms msk name ((slot + 1) AND msk))"

definition linear_find :: "memory \<Rightarrow> DynamicSymbols \<Rightarrow> u8 list \<Rightarrow> u64 option" where
  "linear_find m syms name =
     map_option (\<lambda>i. symbol_address syms (of_nat i))
       (find (\<lambda>i. symbol_defined m syms i \<and> nth_symbol_name m syms i = name) [0..<unat (sym_count syms)])"

definition find_defined_symbol :: "memory \<Rightarrow> DynamicSymbols \<Rightarrow> u8 list \<Rightarrow> u64 option" where
  "find_defined_symbol m syms name =
     (if index_slots syms \<noteq> 0 \<and> index_capacity syms \<noteq> 0 then
        let msk = index_capacity syms - 1 in
        index_find (unat (index_capacity syms)) m syms msk name (ucast (symbol_name_hash name) AND msk)
      else linear_find m syms name)"

section \<open>Slots as a table of numbers\<close>

text \<open>The symbol and string tables lie inside the image.\<close>

definition syms_inside :: "AddressSpace \<Rightarrow> DynamicSymbols \<Rightarrow> bool" where
  "syms_inside sp syms \<longleftrightarrow> 24 * unat (sym_count syms) < 2 ^ 64 \<and>
     bytes_inside sp (entries syms) (24 * unat (sym_count syms)) \<and>
     bytes_inside sp (strings syms) (unat (string_bytes syms))"

definition slot_table :: "memory \<Rightarrow> u64 \<Rightarrow> nat \<Rightarrow> nat" where
  "slot_table m slots s = unat (read32 m (slots + 4 * of_nat s))"

lemma sym_at_same:
  assumes "same_image sp m m'" and "syms_inside sp syms" and "i < unat (sym_count syms)"
  shows "sym_at m' (symbol_address syms (of_nat i)) = sym_at m (symbol_address syms (of_nat i))"
proof -
  have "symbol_address syms (of_nat i) = entries syms + of_nat (24 * i)"
    by (simp add: symbol_address_def)
  moreover have "bytes_inside sp (entries syms + of_nat (24 * i)) 24"
    using assms(2,3) by (intro bytes_inside_sub [of _ _ "24 * unat (sym_count syms)"]) (auto simp: syms_inside_def)
  ultimately have "read_bytes m (symbol_address syms (of_nat i)) 24 =
      read_bytes m' (symbol_address syms (of_nat i)) 24"
    using read_bytes_same_image [OF assms(1)] by simp
  then show ?thesis by (simp add: sym_at_def)
qed

lemma string_tail_same:
  assumes "same_image sp m m'" and "syms_inside sp syms" and "ucast (st_name sy) < string_bytes syms"
  shows "read_bytes m' (strings syms + ucast (st_name sy)) (unat (string_bytes syms - ucast (st_name sy))) =
    read_bytes m (strings syms + ucast (st_name sy)) (unat (string_bytes syms - ucast (st_name (sy :: Sym))))"
proof -
  let ?k = "unat (ucast (st_name sy) :: u64)"
  have len: "unat (string_bytes syms - ucast (st_name sy)) = unat (string_bytes syms) - ?k"
    using assms(3) by (intro unat_diff_le) (simp add: word_less_nat_alt)
  have "bytes_inside sp (strings syms + of_nat ?k) (unat (string_bytes syms) - ?k)"
    using assms(2,3) unat_lt_exp [of "string_bytes syms"]
    by (intro bytes_inside_sub [of _ _ "unat (string_bytes syms)"]) (simp_all add: syms_inside_def word_less_nat_alt)
  moreover have "of_nat ?k = (ucast (st_name sy) :: u64)" by simp
  moreover have "unat (string_bytes syms) - ?k \<le> 2 ^ 64"
    using unat_lt_exp [of "string_bytes syms"] by simp
  ultimately show ?thesis using read_bytes_same_image [OF assms(1)] len by simp
qed

lemma symbol_name_valid_same:
  assumes "same_image sp m m'" and "syms_inside sp syms"
  shows "symbol_name_valid m' syms sy = symbol_name_valid m syms sy"
  using string_tail_same [OF assms] by (auto simp: symbol_name_valid_def not_le)

lemma symbol_defined_same:
  assumes "same_image sp m m'" and "syms_inside sp syms" and "i < unat (sym_count syms)"
  shows "symbol_defined m' syms i = symbol_defined m syms i"
  by (simp add: symbol_defined_def sym_at_same [OF assms] symbol_name_valid_same [OF assms(1,2)])

lemma nth_symbol_name_same:
  assumes "same_image sp m m'" and "syms_inside sp syms" and "i < unat (sym_count syms)"
    and "symbol_defined m syms i"
  shows "nth_symbol_name m' syms i = nth_symbol_name m syms i"
  using string_tail_same [OF assms(1,2)] assms(4)
  by (simp add: nth_symbol_name_def sym_at_same [OF assms(1-3)] symbol_name_def c_string_def
      symbol_defined_def symbol_name_valid_def Let_def not_le)

lemma slot_table_write:
  assumes "s < C" and "s' < C" and "4 * C < 2 ^ 64"
  shows "slot_table (write32 m (slots + 4 * of_nat s) v) slots s' =
    (if s' = s then unat v else slot_table m slots s')"
proof (cases "s' = s")
  case True
  then show ?thesis by (simp add: slot_table_def)
next
  case False
  then consider "s < s'" | "s' < s" by linarith
  then have "4 * s + length (le32 v) \<le> 4 * s' \<or> 4 * s' + 4 \<le> 4 * s" by cases simp_all
  moreover have "4 * s + length (le32 v) \<le> 2 ^ 64" "4 * s' + 4 \<le> 2 ^ 64" using assms by simp_all
  ultimately have "read_bytes (write_bytes m (slots + of_nat (4 * s)) (le32 v)) (slots + of_nat (4 * s')) 4 =
      read_bytes m (slots + of_nat (4 * s')) 4" by (rule read_write_disjoint)
  with False show ?thesis by (simp add: slot_table_def read32_def write32_def)
qed

lemma slot_outside:
  assumes out: "\<And>x. in_range slots (4 * C) x \<Longrightarrow> \<not> in_image sp x" and "s < C" and "4 * C < 2 ^ 64"
  shows "same_image sp m (write32 m (slots + 4 * of_nat s) v)"
proof -
  have "\<not> in_image sp x" if "in_range (slots + of_nat (4 * s)) (length (le32 v)) x" for x
  proof -
    have "in_range (slots + of_nat (4 * s)) 4 (slots + of_nat (unat (x - slots)))" using that by simp
    moreover have "unat (x - slots) < 2 ^ 64" using unat_lt_exp [of "x - slots"] by simp
    moreover have "4 * s + 4 \<le> 2 ^ 64" using assms by linarith
    ultimately have "unat (x - slots) < 4 * s + 4" by (simp only: in_range_offset)
    with assms(2) have "in_range slots (4 * C) x" by (simp add: in_range_def)
    then show ?thesis by (rule out)
  qed
  from write_bytes_same_image [of "slots + of_nat (4 * s)" "le32 v" sp m, OF this] show ?thesis by (simp add: write32_def)
qed

section \<open>The loops on memory are the loops on the table\<close>

lemma slot_next:
  assumes "capacity = 2 ^ k" and "k < 63" and "s < 2 ^ k"
  shows "(of_nat s + 1 :: u64) AND (capacity - 1) = of_nat (Suc s mod 2 ^ k)" and "Suc s mod 2 ^ k < 2 ^ k"
proof -
  have le: "(2 :: nat) ^ k \<le> 4611686018427387904"
    using power_increasing [of k 62 "2 :: nat"] assms(2) by simp
  with assms(3) have "unat (of_nat (Suc s) :: u64) = Suc s" by (intro unat_of_nat_u64) simp
  then have "unat ((of_nat s + 1 :: u64) AND (2 ^ k - 1)) = Suc s mod 2 ^ k"
    unfolding unat_and_mask by (simp add: add.commute)
  moreover have "unat (of_nat (Suc s mod 2 ^ k) :: u64) = Suc s mod 2 ^ k"
    by (rule unat_of_nat_u64, rule less_le_trans [OF mod_less_divisor]) (use le in simp_all)
  ultimately show "(of_nat s + 1 :: u64) AND (capacity - 1) = of_nat (Suc s mod 2 ^ k)"
    unfolding assms(1) word_unat_eq_iff by simp
  show "Suc s mod 2 ^ k < 2 ^ k" by simp
qed

lemma home_slot:
  assumes "capacity = 2 ^ k" and "k < 63"
  shows "(ucast (h :: u32) :: u64) AND (capacity - 1) = of_nat (unat h mod 2 ^ k)"
proof -
  have le: "(2 :: nat) ^ k \<le> 4611686018427387904"
    using power_increasing [of k 62 "2 :: nat"] assms(2) by simp
  have "unat (of_nat (unat h mod 2 ^ k) :: u64) = unat h mod 2 ^ k"
    by (rule unat_of_nat_u64, rule less_le_trans [OF mod_less_divisor]) (use le in simp_all)
  then show ?thesis unfolding assms(1) word_unat_eq_iff unat_and_mask by simp
qed

text \<open>The slots in use refer to defined symbols, and the image is still the one \<open>m0\<close> shows.\<close>

definition slots_valid :: "AddressSpace \<Rightarrow> DynamicSymbols \<Rightarrow> u64 \<Rightarrow> nat \<Rightarrow> memory \<Rightarrow> memory \<Rightarrow> bool" where
  "slots_valid sp syms slots C m0 m \<longleftrightarrow> same_image sp m0 m \<and>
     (\<forall>s < C. slot_table m slots s \<noteq> 0 \<longrightarrow> slot_table m slots s - 1 < unat (sym_count syms) \<and>
        symbol_defined m0 syms (slot_table m slots s - 1))"

lemma encoded_symbol:
  assumes "syms_inside sp syms" and "slots_valid sp syms slots C m0 m" and "s < C"
    and "read32 m (slots + 4 * of_nat s) \<noteq> 0"
  shows "(ucast (read32 m (slots + 4 * of_nat s) - 1) :: u64) = of_nat (slot_table m slots s - 1)"
    and "symbol_name m syms (sym_at m (symbol_address syms (ucast (read32 m (slots + 4 * of_nat s) - 1)))) =
      nth_symbol_name m0 syms (slot_table m slots s - 1)"
proof -
  let ?e = "read32 m (slots + 4 * of_nat s)" and ?i = "slot_table m slots s - 1"
  have t: "slot_table m slots s \<noteq> 0" using assms(4) by (simp add: slot_table_def unat_eq_zero)
  with assms(2,3) have i: "same_image sp m0 m" "?i < unat (sym_count syms)" "symbol_defined m0 syms ?i"
    by (auto simp: slots_valid_def)
  have "unat (?e - 1) = ?i" using assms(4) by (simp add: slot_table_def unat_minus_one)
  then have "of_nat ?i = (of_nat (unat (?e - 1)) :: u64)" by simp
  then show eq: "(ucast (?e - 1) :: u64) = of_nat ?i" by simp
  show "symbol_name m syms (sym_at m (symbol_address syms (ucast (?e - 1)))) = nth_symbol_name m0 syms ?i"
    unfolding eq using nth_symbol_name_same [OF i(1) assms(1) i(2,3)] by (simp add: nth_symbol_name_def)
qed

lemma index_find_probe:
  assumes inside: "syms_inside sp syms" and v: "slots_valid sp syms (index_slots syms) (2 ^ k) m0 m"
    and k: "k < 63" and s: "s < 2 ^ k"
  shows "index_find n m syms (2 ^ k - 1) name (of_nat s) =
    map_option (\<lambda>i. symbol_address syms (of_nat i))
      (find_probe (nth_symbol_name m0 syms) (2 ^ k) name n s (slot_table m (index_slots syms)))"
  using s
proof (induction n arbitrary: s)
  case 0
  then show ?case by simp
next
  case (Suc n)
  note e = encoded_symbol [OF inside v Suc.prems]
  note nxt = slot_next [OF refl k Suc.prems]
  show ?case
  proof (cases "read32 m (index_slots syms + 4 * of_nat s) = 0")
    case True
    then show ?thesis by (simp add: slot_table_def)
  next
    case False
    then have t: "slot_table m (index_slots syms) s \<noteq> 0" by (simp add: slot_table_def unat_eq_zero)
    have "index_find (Suc n) m syms (2 ^ k - 1) name (of_nat s) =
        (if nth_symbol_name m0 syms (slot_table m (index_slots syms) s - 1) = name
         then Some (symbol_address syms (of_nat (slot_table m (index_slots syms) s - 1)))
         else index_find n m syms (2 ^ k - 1) name (of_nat (Suc s mod 2 ^ k)))"
      unfolding index_find.simps Let_def using False e [OF False] nxt(1) by simp
    then show ?thesis using t Suc.IH [OF nxt(2)] by simp
  qed
qed

lemma index_insert_probe:
  assumes inside: "syms_inside sp syms" and v: "slots_valid sp syms slots (2 ^ k) m0 m"
    and k: "k < 62" and out: "\<And>x. in_range slots (4 * 2 ^ k) x \<Longrightarrow> \<not> in_image sp x"
    and i: "i < unat (sym_count syms)" "sym_count syms \<le> 0xffffffff" "symbol_defined m0 syms i"
    and s: "s < 2 ^ k"
  shows "slots_valid sp syms slots (2 ^ k) m0
      (index_insert n syms slots (2 ^ k - 1) i (nth_symbol_name m0 syms i) (of_nat s) m) \<and>
    (\<forall>x < 2 ^ k. slot_table (index_insert n syms slots (2 ^ k - 1) i (nth_symbol_name m0 syms i) (of_nat s) m) slots x =
      insert_probe (nth_symbol_name m0 syms) (2 ^ k) i n s (slot_table m slots) x)"
  using s
proof (induction n arbitrary: s)
  case 0
  then show ?case using v by simp
next
  case (Suc n)
  have k63: "k < 63" using k by simp
  note e = encoded_symbol [OF inside v Suc.prems]
  note nxt = slot_next [OF refl k63 Suc.prems]
  have "(2 :: nat) ^ k \<le> 2 ^ 61" using k by (intro power_increasing) simp_all
  then have room: "4 * (2 :: nat) ^ k < 2 ^ 64" by simp
  show ?case
  proof (cases "read32 m (slots + 4 * of_nat s) = 0")
    case True
    define m' where "m' = write32 m (slots + 4 * of_nat s) (of_nat (i + 1))"
    have "unat (sym_count syms) \<le> 0xffffffff" using i(2) by (simp add: word_le_nat_alt)
    with i(1) have "unat (of_nat (i + 1) :: u32) = i + 1" by (simp add: unat_of_nat del: of_nat_Suc of_nat_add)
    with slot_table_write [OF Suc.prems _ room] have tab: "slot_table m' slots x =
        (if x = s then i + 1 else slot_table m slots x)" if "x < 2 ^ k" for x
      using that unfolding m'_def by simp
    have "same_image sp m m'" unfolding m'_def by (rule slot_outside [OF out Suc.prems room])
    with v have same: "same_image sp m0 m'" by (auto simp: slots_valid_def intro: same_image_trans)
    have "slots_valid sp syms slots (2 ^ k) m0 m'"
      using v i(1,3) same by (auto simp: slots_valid_def tab)
    moreover have "index_insert (Suc n) syms slots (2 ^ k - 1) i (nth_symbol_name m0 syms i) (of_nat s) m = m'"
      using True by (simp add: m'_def)
    moreover have "slot_table m slots s = 0" using True by (simp add: slot_table_def)
    ultimately show ?thesis using tab by simp
  next
    case False
    then have t: "slot_table m slots s \<noteq> 0" by (simp add: slot_table_def unat_eq_zero)
    have "index_insert (Suc n) syms slots (2 ^ k - 1) i (nth_symbol_name m0 syms i) (of_nat s) m =
        (if nth_symbol_name m0 syms (slot_table m slots s - 1) = nth_symbol_name m0 syms i then m
         else index_insert n syms slots (2 ^ k - 1) i (nth_symbol_name m0 syms i) (of_nat (Suc s mod 2 ^ k)) m)"
      unfolding index_insert.simps Let_def using False e [OF False] nxt(1) by simp
    then show ?thesis using t Suc.IH [OF nxt(2)] v by simp
  qed
qed

section \<open>Building the index\<close>

interpretation idx: probe_table "2 ^ k" "\<lambda>name. unat (symbol_name_hash name) mod 2 ^ k"
    "nth_symbol_name m0 syms" for k m0 syms
  by unfold_locales simp_all

abbreviation hash_slot :: "nat \<Rightarrow> u8 list \<Rightarrow> nat" where
  "hash_slot k name \<equiv> unat (symbol_name_hash name) mod 2 ^ k"

lemma index_step_ok:
  assumes inside: "syms_inside sp syms" and v: "slots_valid sp syms slots (2 ^ k) m0 m"
    and k: "k < 62" and out: "\<And>x. in_range slots (4 * 2 ^ k) x \<Longrightarrow> \<not> in_image sp x"
    and i: "i < unat (sym_count syms)" "sym_count syms \<le> 0xffffffff"
    and tab: "table_ok (2 ^ k) (hash_slot k) (nth_symbol_name m0 syms) D (slot_table m slots)"
    and room: "length D < 2 ^ k"
  shows "slots_valid sp syms slots (2 ^ k) m0 (index_step syms slots (2 ^ k) i m) \<and>
    table_ok (2 ^ k) (hash_slot k) (nth_symbol_name m0 syms)
      (if symbol_defined m0 syms i then D @ [i] else D) (slot_table (index_step syms slots (2 ^ k) i m) slots)"
proof -
  from v have same: "same_image sp m0 m" by (simp add: slots_valid_def)
  note d = symbol_defined_same [OF same inside i(1)]
  show ?thesis
  proof (cases "symbol_defined m0 syms i")
    case False
    then show ?thesis using v tab by (simp add: index_step_def d)
  next
    case True
    let ?nm = "nth_symbol_name m0 syms i"
    have k63: "k < 63" using k by simp
    have cap: "unat (2 ^ k :: u64) = 2 ^ k" using k by (intro unat_exp) simp
    have step: "index_step syms slots (2 ^ k) i m =
        index_insert (2 ^ k) syms slots (2 ^ k - 1) i ?nm (of_nat (hash_slot k ?nm)) m"
      using True nth_symbol_name_same [OF same inside i(1) True]
      by (simp only: index_step_def d Let_def cap home_slot [OF refl k63] not_True_eq_False if_False)
    have "hash_slot k ?nm < 2 ^ k" by simp
    note ins = index_insert_probe [OF inside v k out i True this, of "2 ^ k"]
    have "table_ok (2 ^ k) (hash_slot k) (nth_symbol_name m0 syms) (D @ [i])
        (insert_probe (nth_symbol_name m0 syms) (2 ^ k) i (2 ^ k) (hash_slot k ?nm) (slot_table m slots))"
      by (rule idx.insert_probe_ok [OF tab room])
    then have "table_ok (2 ^ k) (hash_slot k) (nth_symbol_name m0 syms) (D @ [i])
        (slot_table (index_step syms slots (2 ^ k) i m) slots)"
      by (rule idx.table_ok_cong [rotated]) (use ins step in simp)
    with ins True step show ?thesis by simp
  qed
qed

lemma index_fold_ok:
  assumes inside: "syms_inside sp syms" and v: "slots_valid sp syms slots (2 ^ k) m0 m"
    and k: "k < 62" and out: "\<And>x. in_range slots (4 * 2 ^ k) x \<Longrightarrow> \<not> in_image sp x"
    and cnt: "sym_count syms \<le> 0xffffffff" and n: "n \<le> unat (sym_count syms)"
    and zero: "\<And>s. s < 2 ^ k \<Longrightarrow> slot_table m slots s = 0"
    and room: "length (filter (symbol_defined m0 syms) [0..<unat (sym_count syms)]) < 2 ^ k"
  shows "slots_valid sp syms slots (2 ^ k) m0 (fold (index_step syms slots (2 ^ k)) [0..<n] m) \<and>
    table_ok (2 ^ k) (hash_slot k) (nth_symbol_name m0 syms) (filter (symbol_defined m0 syms) [0..<n])
      (slot_table (fold (index_step syms slots (2 ^ k)) [0..<n] m) slots)"
  using n
proof (induction n)
  case 0
  have "table_ok (2 ^ k) (hash_slot k) (nth_symbol_name m0 syms) [] (slot_table m slots)"
    by (rule idx.table_ok_cong [OF _ idx.table_ok_empty]) (simp add: zero)
  with v show ?case by simp
next
  case (Suc n)
  let ?D = "filter (symbol_defined m0 syms) [0..<n]"
  have "[0..<unat (sym_count syms)] = [0..<n] @ [n..<unat (sym_count syms)]"
    using Suc.prems upt_add_eq_append [of 0 n "unat (sym_count syms) - n"] by simp
  then have "length ?D \<le> length (filter (symbol_defined m0 syms) [0..<unat (sym_count syms)])" by simp
  with room have r: "length ?D < 2 ^ k" by linarith
  from Suc have IH: "slots_valid sp syms slots (2 ^ k) m0 (fold (index_step syms slots (2 ^ k)) [0..<n] m)"
    "table_ok (2 ^ k) (hash_slot k) (nth_symbol_name m0 syms) ?D
      (slot_table (fold (index_step syms slots (2 ^ k)) [0..<n] m) slots)" by simp_all
  have "n < unat (sym_count syms)" using Suc.prems by simp
  from index_step_ok [OF inside IH(1) k out this cnt IH(2) r] show ?case by auto
qed

lemma grow_capacity_returns:
  assumes "k < 64"
  shows "\<exists>r. grow_capacity t (2 ^ k) = Some r \<and> (\<forall>c. r = Some c \<longrightarrow> (\<exists>j < 64. c = 2 ^ j \<and> t \<le> c))"
  using assms
proof (induction "64 - k" arbitrary: k)
  case 0
  then show ?case by simp
next
  case (Suc n)
  show ?case
  proof (cases "(2 ^ k :: u64) < t \<and> \<not> 2 ^ k > SIZE_MAX div 2")
    case False
    then show ?thesis
      using Suc.prems by (subst grow_capacity.simps) (auto simp: not_less)
  next
    case True
    have "k \<noteq> 63" using True by auto
    with Suc have "n = 64 - Suc k" "Suc k < 64" by simp_all
    note IH = Suc.hyps(1) [OF this]
    have "grow_capacity t (2 ^ k) = grow_capacity t (2 ^ Suc k)"
      using True by (subst grow_capacity.simps) (simp add: mult.commute)
    with IH show ?thesis by simp
  qed
qed

text \<open>The outcomes of \<open>build_symbol_index\<close>: no index, or an index with room for twice the symbols.\<close>

lemma build_symbol_index_cases:
  obtains (plain) "build_symbol_index ps mmap (syms, pages, m) = Some (syms, pages, m)"
  | (index) slots pages1 k where "k < 62" and "sym_count syms \<le> 0xffffffff"
    "length (filter (symbol_defined m syms) [0..<unat (sym_count syms)]) < 2 ^ k"
    "build_symbol_index ps mmap (syms, pages, m) = Some (syms\<lparr>index_slots := slots, index_capacity := 2 ^ k\<rparr>, pages1,
       fold (index_step syms slots (2 ^ k)) [0..<unat (sym_count syms)]
         (write_bytes m slots (replicate (4 * 2 ^ k) 0)))"
proof -
  let ?n = "length (filter (symbol_defined m syms) [0..<unat (sym_count syms)])"
  let ?r = "build_symbol_index ps mmap (syms, pages, m)"
  have bound: "?n \<le> unat (sym_count syms)" by (metis diff_zero length_filter_le length_upt)
  then have un: "unat (of_nat ?n :: u64) = ?n"
    using unat_lt_exp [of "sym_count syms"] by (intro unat_of_nat_u64) simp
  consider "?r = Some (syms, pages, m)"
  | c where "sym_count syms \<le> 0xffffffff" "(of_nat ?n :: u64) \<noteq> 0"
      "\<exists>t. multiply_overflow (of_nat ?n) 2 = Some t \<and> grow_capacity t 8 = Some (Some c)"
      "\<exists>b slots pages1. multiply_overflow c 4 = Some b \<and> ?r = Some (syms\<lparr>index_slots := slots, index_capacity := c\<rparr>,
         pages1, fold (index_step syms slots c) [0..<unat (sym_count syms)] (write_bytes m slots (replicate (unat b) 0)))"
  proof (cases "sym_count syms > 0xffffffff \<or> (of_nat ?n :: u64) = 0 \<or> multiply_overflow (of_nat ?n) 2 = None")
    case True
    then have "?r = Some (syms, pages, m)" by (auto simp: build_symbol_index_def Let_def)
    then show thesis by (rule that(1))
  next
    case False
    then obtain t where t: "multiply_overflow (of_nat ?n) 2 = Some t" by auto
    from False have pre: "sym_count syms \<le> 0xffffffff" "(of_nat ?n :: u64) \<noteq> 0" by auto
    obtain g where g: "grow_capacity t 8 = Some g" using grow_capacity_returns [of 3 t] by auto
    show thesis
    proof (cases "\<exists>c b. g = Some c \<and> multiply_overflow c 4 = Some b")
      case False
      then have "?r = Some (syms, pages, m)"
        using pre by (auto simp: build_symbol_index_def Let_def t g split: option.splits)
      then show thesis by (rule that(1))
    next
      case True
      then obtain c b where c: "g = Some c" "multiply_overflow c 4 = Some b" by blast
      obtain a pages1 m1 where al: "metadata_allocate ps mmap b 4 (pages, m) = (a, pages1, m1)"
        using prod_cases3 by blast
      show thesis
      proof (cases a)
        case None
        with metadata_allocate_fails [of ps mmap b 4 pages m pages1 m1] al
        have "?r = Some (syms, pages, m)" using pre by (simp add: build_symbol_index_def Let_def t g c)
        then show thesis by (rule that(1))
      next
        case (Some slots)
        with metadata_allocate_memory [of ps mmap b 4 pages m slots pages1 m1] al
        have "?r = Some (syms\<lparr>index_slots := slots, index_capacity := c\<rparr>, pages1,
            fold (index_step syms slots c) [0..<unat (sym_count syms)] (write_bytes m slots (replicate (unat b) 0)))"
          using pre by (auto simp: build_symbol_index_def Let_def t g c)
        with pre t g c show thesis by (intro that(2)) blast+
      qed
    qed
  qed
  then show thesis
  proof cases
    case 1
    then show thesis by (rule plain)
  next
    case (2 c)
    then obtain t b slots pages1 where t: "multiply_overflow (of_nat ?n) 2 = Some t" "grow_capacity t 8 = Some (Some c)"
      and b: "multiply_overflow c 4 = Some b" and r: "?r = Some (syms\<lparr>index_slots := slots, index_capacity := c\<rparr>,
         pages1, fold (index_step syms slots c) [0..<unat (sym_count syms)] (write_bytes m slots (replicate (unat b) 0)))"
      by blast
    from grow_capacity_returns [of 3 t] t(2) obtain j where j: "j < 64" "c = 2 ^ j" "t \<le> c" by auto
    have uc: "unat c = 2 ^ j" unfolding j(2) using j(1) by (intro unat_exp) simp
    have b4: "unat b = 4 * 2 ^ j" using multiply_overflow_unat [OF b] uc by simp
    with unat_lt_exp [of b] have "(2 :: nat) ^ j < 2 ^ 62" by simp
    then have j62: "j < 62" by (simp only: power_strict_increasing_iff)
    have "2 * ?n \<le> 2 ^ j" using multiply_overflow_unat [OF t(1)] j(3) un uc by (simp add: word_le_nat_alt)
    moreover have "?n \<noteq> 0" using 2(2) by auto
    ultimately have "?n < 2 ^ j" by linarith
    with r j62 2(1) show thesis unfolding b4 j(2) by (intro index) simp_all
  qed
qed

lemma zeroed_slots:
  assumes "k < 62" and "s < 2 ^ k"
  shows "slot_table (write_bytes m slots (replicate (4 * 2 ^ k) 0)) slots s = 0"
proof -
  have "(2 :: nat) ^ k \<le> 2305843009213693952" using power_increasing [of k 61 "2 :: nat"] assms(1) by simp
  with assms(2) have s4: "4 * s + i < 2 ^ 64" if "i < 4" for i using that by simp
  have "write_bytes m slots (replicate (4 * 2 ^ k) 0) (slots + 4 * of_nat s + of_nat i) = 0" if "i < 4" for i
  proof -
    have "slots + 4 * of_nat s + of_nat i - slots = (of_nat (4 * s + i) :: u64)" by simp
    moreover have "unat (of_nat (4 * s + i) :: u64) = 4 * s + i" by (rule unat_of_nat_u64 [OF s4 [OF that]])
    ultimately have "unat (slots + 4 * of_nat s + of_nat i - slots) = 4 * s + i" by (simp only:)
    moreover have "4 * s + i < 4 * 2 ^ k" using assms(2) that by linarith
    ultimately show ?thesis unfolding write_bytes_def by (simp only: length_replicate nth_replicate if_True)
  qed
  then have "read_bytes (write_bytes m slots (replicate (4 * 2 ^ k) 0)) (slots + 4 * of_nat s) 4 = replicate 4 0"
    by (intro nth_equalityI) simp_all
  then show ?thesis by (simp add: slot_table_def read32_def numeral_eq_Suc)
qed

lemma linear_find_same:
  assumes "same_image sp m m'" and "syms_inside sp syms"
  shows "linear_find m' syms name = linear_find m syms name"
proof -
  have "find (\<lambda>i. symbol_defined m' syms i \<and> nth_symbol_name m' syms i = name) [0..<unat (sym_count syms)] =
      find (\<lambda>i. symbol_defined m syms i \<and> nth_symbol_name m syms i = name) [0..<unat (sym_count syms)]"
    by (rule find_cong [OF refl]) (use symbol_defined_same [OF assms] nth_symbol_name_same [OF assms] in auto)
  then show ?thesis by (simp add: linear_find_def)
qed

lemma linear_find_index: "linear_find m (syms\<lparr>index_slots := s, index_capacity := c\<rparr>) = linear_find m syms"
  by (simp add: fun_eq_iff linear_find_def symbol_defined_def symbol_name_valid_def symbol_address_def
      nth_symbol_name_def symbol_name_def cong: find_cong)

lemma index_lookup:
  assumes inside: "syms_inside sp syms" and k: "k < 62" and cnt: "sym_count syms \<le> 0xffffffff"
    and room: "length (filter (symbol_defined m syms) [0..<unat (sym_count syms)]) < 2 ^ k"
    and out: "\<And>x. in_range slots (4 * 2 ^ k) x \<Longrightarrow> \<not> in_image sp x"
  defines "m' \<equiv> fold (index_step syms slots (2 ^ k)) [0..<unat (sym_count syms)]
      (write_bytes m slots (replicate (4 * 2 ^ k) 0))"
    and "syms' \<equiv> syms\<lparr>index_slots := slots, index_capacity := 2 ^ k\<rparr>"
  shows "same_image sp m m' \<and> find_defined_symbol m' syms' name = linear_find m syms name"
proof -
  let ?m1 = "write_bytes m slots (replicate (4 * 2 ^ k) 0)"
  let ?D = "filter (symbol_defined m syms) [0..<unat (sym_count syms)]"
  have k63: "k < 63" using k by simp
  have cap: "unat (2 ^ k :: u64) = 2 ^ k" using k by (intro unat_exp) simp
  have same1: "same_image sp m ?m1" by (rule write_bytes_same_image) (use out in simp)
  have v1: "slots_valid sp syms slots (2 ^ k) m ?m1"
    using same1 zeroed_slots [OF k] by (simp add: slots_valid_def)
  from index_fold_ok [OF inside v1 k out cnt le_refl zeroed_slots [OF k] room]
  have v: "slots_valid sp syms slots (2 ^ k) m m'"
    and tab: "table_ok (2 ^ k) (hash_slot k) (nth_symbol_name m syms) ?D (slot_table m' slots)"
    by (simp_all add: m'_def)
  then have same: "same_image sp m m'" by (simp add: slots_valid_def)
  have addr: "symbol_address syms' = symbol_address syms" "nth_symbol_name m syms' = nth_symbol_name m syms"
    by (simp_all add: fun_eq_iff symbol_address_def nth_symbol_name_def symbol_name_def syms'_def)
  have slot: "index_slots syms' = slots" by (simp add: syms'_def)
  have in': "syms_inside sp syms'" using inside by (simp add: syms_inside_def syms'_def)
  have def': "symbol_defined mm syms' i = symbol_defined mm syms i" for mm i
    by (simp add: symbol_defined_def symbol_name_valid_def addr syms'_def symbol_address_def)
  have v': "slots_valid sp syms' (index_slots syms') (2 ^ k) m m'"
    using v by (simp add: slots_valid_def syms'_def def'[unfolded syms'_def])
  have findD: "find P (filter Q xs) = find (\<lambda>i. Q i \<and> P i) xs" for P Q and xs :: "nat list"
    by (induction xs) auto
  have ix: "index_find (2 ^ k) m' syms' (2 ^ k - 1) name (of_nat (hash_slot k name)) =
      map_option (\<lambda>i. symbol_address syms (of_nat i)) (find (\<lambda>i. nth_symbol_name m syms i = name) ?D)"
    using index_find_probe [OF in' v' k63, of "hash_slot k name" "2 ^ k" name] idx.find_probe_spec [OF tab room]
    by (simp add: addr slot)
  show ?thesis
  proof (cases "slots = 0")
    case True
    then show ?thesis
      using same linear_find_same [OF same inside]
      by (simp add: find_defined_symbol_def syms'_def linear_find_index)
  next
    case False
    have "find_defined_symbol m' syms' name =
        index_find (2 ^ k) m' syms' (2 ^ k - 1) name (of_nat (hash_slot k name))"
      using False k by (simp add: find_defined_symbol_def syms'_def cap home_slot [OF refl k63])
    with same show ?thesis unfolding ix linear_find_def findD by simp
  qed
qed

text \<open>C1: The hash index is exact: \<open>build_symbol_index\<close> always returns, and afterwards
  \<open>find_defined_symbol\<close> gives for every name the first defined symbol of that name in the symbol
  table, or null when there is none, exactly as the linear scan it replaces (and it is that scan when
  no index could be allocated).  The block of the index must not overlap the image.\<close>

theorem symbol_index_exact:
  assumes inside: "syms_inside sp syms" and fresh: "index_slots syms = 0"
  shows "\<exists>syms' pages' m'. build_symbol_index ps mmap (syms, pages, m) = Some (syms', pages', m') \<and>
    ((\<forall>x. in_range (index_slots syms') (4 * unat (index_capacity syms')) x \<longrightarrow> \<not> in_image sp x) \<longrightarrow>
     same_image sp m m' \<and> (\<forall>name. find_defined_symbol m' syms' name = linear_find m syms name))"
proof (cases rule: build_symbol_index_cases [of ps mmap syms pages m])
  case plain
  with fresh show ?thesis by (simp add: find_defined_symbol_def)
next
  case (index slots pages1 k)
  let ?syms = "syms\<lparr>index_slots := slots, index_capacity := 2 ^ k\<rparr>"
  let ?m1 = "write_bytes m slots (replicate (4 * 2 ^ k) 0)"
  let ?m' = "fold (index_step syms slots (2 ^ k)) [0..<unat (sym_count syms)] ?m1"
  have cap: "unat (2 ^ k :: u64) = 2 ^ k" using index(1) by (intro unat_exp) simp
  have "same_image sp m ?m' \<and> find_defined_symbol ?m' ?syms name = linear_find m syms name"
    if out: "\<And>x. in_range slots (4 * 2 ^ k) x \<Longrightarrow> \<not> in_image sp x" for name
    using index_lookup [OF inside index(1-3) out] by simp
  then show ?thesis using index(4) by (auto simp: cap)
qed

text \<open>A symbol table with the null symbol and one function \<^verbatim>\<open>f\<close>.\<close>

definition demo_symtab :: memory where
  "demo_symtab = write_bytes (write_bytes (\<lambda>_. 0) 0x10118 [1, 0, 0, 0, 0x12, 0, 1, 0]) 0x10200 [0, 102, 0]"

definition demo_syms :: DynamicSymbols where
  "demo_syms = \<lparr>entries = 0x10100, sym_count = 2, strings = 0x10200, string_bytes = 3, index_slots = 0,
     index_capacity = 0\<rparr>"

definition demo_index_mmap :: mmap_fn where
  "demo_index_mmap regions n = (if regions = [] \<and> n = 0x10000 then Some 0x20000 else None)"

lemma demo_symbols:
  "sym_at demo_symtab 0x10100 = \<lparr>st_name = 0, st_info = 0, st_other = 0, st_shndx = 0, st_value = 0, st_size = 0\<rparr>"
  "sym_at demo_symtab 0x10118 = \<lparr>st_name = 1, st_info = 0x12, st_other = 0, st_shndx = 1, st_value = 0, st_size = 0\<rparr>"
  by (simp_all add: sym_at_def demo_symtab_def read_bytes_def write_bytes_def upt_rec get32_def get16_def get64_def
      unat_max)

lemma demo_strings: "demo_symtab 0x10200 = 0" "demo_symtab 0x10201 = 102" "demo_symtab 0x10202 = 0"
  by (simp_all add: demo_symtab_def write_bytes_def)

lemma demo_string_bytes: "read_bytes demo_symtab 0x10201 2 = [102, 0]"
  by (simp add: read_bytes_def upt_rec demo_strings)

lemma demo_symbol_addresses:
  "symbol_address demo_syms (of_nat 0) = 0x10100" "symbol_address demo_syms (of_nat (Suc 0)) = 0x10118"
  by (simp_all add: symbol_address_def demo_syms_def)

lemma demo_defined: "\<not> symbol_defined demo_symtab demo_syms 0" "symbol_defined demo_symtab demo_syms (Suc 0)"
  "nth_symbol_name demo_symtab demo_syms (Suc 0) = [102]"
  unfolding symbol_defined_def nth_symbol_name_def demo_symbol_addresses demo_symbols
  by (simp_all add: symbol_name_valid_def symbol_name_def c_string_def demo_syms_def demo_string_bytes
      word_le_nat_alt)

lemma demo_build:
  "\<exists>pages' m'. build_symbol_index 4096 demo_index_mmap (demo_syms, [], demo_symtab) =
     Some (demo_syms\<lparr>index_slots := 0x20020, index_capacity := 8\<rparr>, pages', m')"
proof -
  have n: "filter (symbol_defined demo_symtab demo_syms) [0..<unat (sym_count demo_syms)] = [Suc 0]"
    using demo_defined by (simp add: demo_syms_def upt_rec)
  have "metadata_allocate 4096 demo_index_mmap 32 4 ([], demo_symtab) =
      (Some 0x20020, [\<lparr>page_base = 0x20000, mapped_size = 0x10000, cursor = 64\<rparr>],
       write_bytes demo_symtab 0x20020 (replicate 32 0))"
    by (simp add: metadata_allocate_def demo_index_mmap_def add_overflow_def page_ceil_def page_floor_def
      header_aligned_def kMetadataPageSize_def bump_offset_def is_power_of_two_def Let_def)
  moreover have "sym_count demo_syms \<le> 0xffffffff" by (simp add: demo_syms_def)
  moreover have "grow_capacity 2 8 = Some (Some 8)" by (simp add: grow_capacity.simps)
  ultimately show ?thesis
    unfolding build_symbol_index_def Let_def prod.case n by (auto simp: multiply_overflow_def)
qed

theorem symbol_index_exact_witness:
  "syms_inside (memory_of demo_image) demo_syms \<and> index_slots demo_syms = 0 \<and>
   (\<exists>syms' pages' m'. build_symbol_index 4096 demo_index_mmap (demo_syms, [], demo_symtab) =
        Some (syms', pages', m') \<and>
      find_defined_symbol m' syms' (ascii ''f'') = Some 0x10118 \<and>
      find_defined_symbol m' syms' (ascii ''g'') = None)"
proof -
  have ok: "space_ok (memory_of demo_image)" by (simp add: demo_image_def space_ok_def)
  have "mapped_bytes demo_image 0x10100 48" "mapped_bytes demo_image 0x10200 3"
    by (simp_all add: mapped_bytes_def demo_image_def address_space_contains_def)
  from this [THEN mapped_bytes_inside [OF ok]]
  have inside: "syms_inside (memory_of demo_image) demo_syms" by (simp add: syms_inside_def demo_syms_def)
  have fresh: "index_slots demo_syms = 0" by (simp add: demo_syms_def)
  from demo_build obtain pages' m' where
    run: "build_symbol_index 4096 demo_index_mmap (demo_syms, [], demo_symtab) =
      Some (demo_syms\<lparr>index_slots := 0x20020, index_capacity := 8\<rparr>, pages', m')" by blast
  have out: "\<not> in_image (memory_of demo_image) x" if "in_range 0x20020 32 x" for x
  proof -
    have "x - 0x10000 = (x - 0x20020) + 0x10020" by simp
    moreover have "unat ((x - 0x20020) + 0x10020 :: u64) = unat (x - 0x20020) + unat (0x10020 :: u64)"
      using that by (intro unat_add_lt) (simp add: in_range_def)
    ultimately show ?thesis by (simp add: in_image_def in_range_def demo_image_def)
  qed
  have lin: "linear_find demo_symtab demo_syms (ascii ''f'') = Some 0x10118"
    "linear_find demo_symtab demo_syms (ascii ''g'') = None"
    using demo_defined by (simp_all add: linear_find_def demo_syms_def upt_rec ascii_def symbol_address_def)
  from symbol_index_exact [OF inside fresh, of 4096 demo_index_mmap "[]" demo_symtab] run out lin
  have "find_defined_symbol m' (demo_syms\<lparr>index_slots := 0x20020, index_capacity := 8\<rparr>) (ascii ''f'') = Some 0x10118"
    "find_defined_symbol m' (demo_syms\<lparr>index_slots := 0x20020, index_capacity := 8\<rparr>) (ascii ''g'') = None"
    by auto
  with inside fresh run show ?thesis by blast
qed

end
