(* ===== verification/Tls_Runtime.thy ===== *)
theory Tls_Runtime
  imports Image_State
begin

text \<open>
  The thread-local storage runtime of the loader (\<^verbatim>\<open>activate_tls\<close>, \<^verbatim>\<open>deactivate_tls\<close>,
  \<^verbatim>\<open>yuki_tls_get_addr\<close>, \<^verbatim>\<open>current_thread_tls_data\<close> and the functions below them in
  \<^verbatim>\<open>yukilinker.cpp\<close>, full arm64 build).  A template is part of its image, so the list
  \<^verbatim>\<open>g_tls_templates\<close> is a list of images and the templates are read from the store of images.  A thread
  owns its blocks; block \<open>i\<close> of a thread is the block of module slot \<open>i\<close>.  Every function is one atomic
  step: the source runs it under \<^verbatim>\<open>g_tls_mutex\<close> or on data of the calling thread.  The C library
  decides which allocations succeed; those decisions are the fields of the parameter \<open>libc\<close>.
\<close>

section \<open>Definitions\<close>

record ThreadTlsBlock =
  blk_generation :: u64
  blk_storage :: u64
  blk_module_id :: u64

text \<open>\<open>first_blocks\<close> is the list from \<^verbatim>\<open>first\<close> on, as the slots its blocks are in.\<close>

record ThreadTlsState =
  blocks :: "ThreadTlsBlock option list"
  first_blocks :: "u64 list"

text \<open>\<open>g_thread_tls_key_valid\<close> is \<open>None\<close> before the first \<^verbatim>\<open>pthread_once\<close>.\<close>

record TlsRuntime =
  g_tls_templates :: "u64 list"
  g_tls_module_generations :: "u64 \<Rightarrow> u64"
  g_next_tls_generation :: u64
  g_thread_tls_key_valid :: "bool option"
  g_tls_stopped :: bool
  tls_fast_enabled :: bool

record libc =
  lc_key_create :: bool
  lc_fast_probe :: bool
  lc_calloc_state :: bool
  lc_setspecific :: bool
  lc_realloc :: "u64 \<Rightarrow> bool"
  lc_calloc_block :: bool
  lc_memalign :: "u64 \<Rightarrow> u64 \<Rightarrow> u64 option"

definition kMaxTlsModuleSlots :: u64 where "kMaxTlsModuleSlots = 1024"

definition initial_tls :: TlsRuntime where
  "initial_tls = \<lparr>g_tls_templates = [], g_tls_module_generations = (\<lambda>_. 0), g_next_tls_generation = 1,
     g_thread_tls_key_valid = None, g_tls_stopped = False, tls_fast_enabled = False\<rparr>"

type_synonym image_store = "u64 \<Rightarrow> ImageState"
type_synonym thread_store = "u64 \<Rightarrow> ThreadTlsState option"

text \<open>The probe of bionic's key table succeeds or not (\<open>lc_fast_probe\<close>); when it does, the entry read
  directly is the thread's value of the key.\<close>

definition configure_tls_fast_path :: "libc \<Rightarrow> TlsRuntime \<Rightarrow> TlsRuntime" where
  "configure_tls_fast_path lc rt = (if lc_fast_probe lc then rt\<lparr>tls_fast_enabled := True\<rparr> else rt)"

definition disable_tls_fast_path :: "TlsRuntime \<Rightarrow> TlsRuntime" where
  "disable_tls_fast_path rt = rt\<lparr>tls_fast_enabled := False\<rparr>"

definition fast_thread_tls_state :: "TlsRuntime \<Rightarrow> thread_store \<Rightarrow> u64 \<Rightarrow> ThreadTlsState option" where
  "fast_thread_tls_state rt threads tid = (if \<not> tls_fast_enabled rt then None else threads tid)"

definition initialize_thread_tls_key :: "libc \<Rightarrow> TlsRuntime \<Rightarrow> TlsRuntime" where
  "initialize_thread_tls_key lc rt =
     (let valid = lc_key_create lc; rt1 = (if valid then configure_tls_fast_path lc rt else rt)
      in rt1\<lparr>g_thread_tls_key_valid := Some valid\<rparr>)"

definition ensure_thread_tls_key :: "libc \<Rightarrow> TlsRuntime \<Rightarrow> bool \<times> TlsRuntime" where
  "ensure_thread_tls_key lc rt =
     (let rt1 = (if g_thread_tls_key_valid rt = None then initialize_thread_tls_key lc rt else rt)
      in (g_thread_tls_key_valid rt1 = Some True, rt1))"

definition thread_tls_state ::
  "libc \<Rightarrow> u64 \<Rightarrow> TlsRuntime \<times> thread_store \<Rightarrow> ThreadTlsState option \<times> TlsRuntime \<times> thread_store" where
  "thread_tls_state lc tid s =
     (let (rt, threads) = s in
      if g_tls_stopped rt then (None, rt, threads) else
      let (valid, rt1) = ensure_thread_tls_key lc rt in
      if \<not> valid then (None, rt1, threads) else
      case threads tid of
        Some st \<Rightarrow> (Some st, rt1, threads)
      | None \<Rightarrow>
          if \<not> lc_calloc_state lc \<or> \<not> lc_setspecific lc then (None, rt1, threads)
          else let st = \<lparr>blocks = [], first_blocks = []\<rparr> in (Some st, rt1, threads(tid \<mapsto> st)))"

definition find_tls_template :: "image_store \<Rightarrow> TlsRuntime \<Rightarrow> u64 \<Rightarrow> u64 option" where
  "find_tls_template imgs rt mid =
     find (\<lambda>im. active (tls (imgs im)) \<and> module_id (tls (imgs im)) = mid) (g_tls_templates rt)"

definition block_capacity :: "ThreadTlsState \<Rightarrow> u64" where
  "block_capacity thread = of_nat (length (blocks thread))"

definition find_thread_block :: "ThreadTlsState \<Rightarrow> u64 \<Rightarrow> ThreadTlsBlock option" where
  "find_thread_block thread mid = (if mid \<ge> block_capacity thread then None else blocks thread ! unat mid)"

text \<open>The loop of \<^verbatim>\<open>ensure_thread_block_capacity\<close>; not ending is \<open>None\<close>.\<close>

partial_function (option) grow_blocks :: "u64 \<Rightarrow> u64 \<Rightarrow> u64 option" where
  "grow_blocks required capacity =
     (if capacity < required then
        (if capacity > SIZE_MAX div 2 then Some required else grow_blocks required (capacity * 2))
      else Some capacity)"

definition ensure_thread_block_capacity ::
  "libc \<Rightarrow> ThreadTlsState \<Rightarrow> u64 \<Rightarrow> (bool \<times> ThreadTlsState) option" where
  "ensure_thread_block_capacity lc thread mid =
     (if mid < block_capacity thread then Some (True, thread)
      else if mid = UINTPTR_MAX then Some (False, thread)
      else case grow_blocks (mid + 1) (if block_capacity thread = 0 then 8 else block_capacity thread) of
             None \<Rightarrow> None
           | Some capacity \<Rightarrow>
             (case multiply_overflow capacity 8 of
                None \<Rightarrow> Some (False, thread)
              | Some bytes \<Rightarrow>
                if \<not> lc_realloc lc bytes then Some (False, thread)
                else Some (True, thread\<lparr>blocks := blocks thread @
                       replicate (unat (capacity - block_capacity thread)) None\<rparr>)))"

definition allocate_thread_storage :: "libc \<Rightarrow> TlsTemplate \<Rightarrow> memory \<Rightarrow> u64 option \<times> memory" where
  "allocate_thread_storage lc t m =
     (case lc_memalign lc (if alignment t < 8 then 8 else alignment t) (memory_bytes t) of
        None \<Rightarrow> (None, m)
      | Some storage \<Rightarrow>
        let m1 = write_bytes m storage (replicate (unat (memory_bytes t)) 0)
        in (Some storage,
            if file_bytes t \<noteq> 0
            then write_bytes m1 storage (read_bytes m1 (initial_bytes t) (unat (file_bytes t))) else m1))"

definition create_thread_block :: "libc \<Rightarrow> TlsTemplate \<Rightarrow> memory \<Rightarrow> ThreadTlsBlock option \<times> memory" where
  "create_thread_block lc t m =
     (if \<not> lc_calloc_block lc then (None, m)
      else case allocate_thread_storage lc t m of
             (None, m1) \<Rightarrow> (None, m1)
           | (Some storage, m1) \<Rightarrow>
             (Some \<lparr>blk_generation = generation t, blk_storage = storage, blk_module_id = module_id t\<rparr>, m1))"

definition reset_thread_block ::
  "libc \<Rightarrow> ThreadTlsBlock \<Rightarrow> TlsTemplate \<Rightarrow> memory \<Rightarrow> ThreadTlsBlock option \<times> memory" where
  "reset_thread_block lc block t m =
     (case allocate_thread_storage lc t m of
        (None, m1) \<Rightarrow> (None, m1)
      | (Some storage, m1) \<Rightarrow>
        (Some (block\<lparr>blk_storage := storage, blk_generation := generation t, blk_module_id := module_id t\<rparr>), m1))"

definition active_tls_generation :: "TlsRuntime \<Rightarrow> u64 \<Rightarrow> u64" where
  "active_tls_generation rt mid =
     (if mid = 0 \<or> mid > kMaxTlsModuleSlots then 0 else g_tls_module_generations rt mid)"

text \<open>The search for a free slot: the first free index from 1 on, \<open>None\<close> when all 1024 are in use.\<close>

definition free_module_slot :: "TlsRuntime \<Rightarrow> u64 option" where
  "free_module_slot rt =
     find (\<lambda>mid. g_tls_module_generations rt mid = 0) (map of_nat [1..<Suc (unat kMaxTlsModuleSlots)])"

definition activate_tls :: "libc \<Rightarrow> u64 \<Rightarrow> image_store \<times> TlsRuntime \<Rightarrow> bool \<times> image_store \<times> TlsRuntime" where
  "activate_tls lc im s =
     (let (imgs, rt) = s; t = tls (imgs im) in
      if memory_bytes t = 0 then (True, imgs, rt)
      else if file_bytes t > memory_bytes t \<or>
              \<not> is_power_of_two (if alignment t = 0 then 1 else alignment t) then (False, imgs, rt)
      else
        let t1 = (if alignment t = 0 then t\<lparr>alignment := 1\<rparr> else t);
            imgs1 = imgs(im := (imgs im)\<lparr>tls := t1\<rparr>);
            (valid, rt1) = ensure_thread_tls_key lc rt in
        if \<not> valid then (False, imgs1, rt1)
        else if g_tls_stopped rt1 then (False, imgs1, rt1)
        else case free_module_slot rt1 of
               None \<Rightarrow> (False, imgs1, rt1)
             | Some mid \<Rightarrow>
               let g = g_next_tls_generation rt1;
                   gen = (if g = 0 then 1 else g);
                   nxt = gen + 1;
                   t2 = t1\<lparr>module_id := mid, generation := gen, active := True\<rparr>
               in (True, imgs1(im := (imgs1 im)\<lparr>tls := t2\<rparr>),
                   rt1\<lparr>g_next_tls_generation := nxt, g_tls_templates := im # g_tls_templates rt1,
                       g_tls_module_generations := (g_tls_module_generations rt1)(mid := gen)\<rparr>))"

definition deactivate_tls :: "u64 \<Rightarrow> image_store \<times> TlsRuntime \<Rightarrow> image_store \<times> TlsRuntime" where
  "deactivate_tls im s =
     (let (imgs, rt) = s; t = tls (imgs im) in
      if \<not> active t then (imgs, rt)
      else let mid = module_id t in
        (imgs(im := (imgs im)\<lparr>tls := t\<lparr>active := False, module_id := 0, generation := 0\<rparr>\<rparr>),
         rt\<lparr>g_tls_templates := remove1 im (g_tls_templates rt),
            g_tls_module_generations :=
              (if mid \<noteq> 0 \<and> mid \<le> kMaxTlsModuleSlots then (g_tls_module_generations rt)(mid := 0)
               else g_tls_module_generations rt)\<rparr>))"

text \<open>The part of \<^verbatim>\<open>yuki_tls_get_addr\<close> under the mutex: the thread's block of the template is created
  or, when it belongs to an earlier generation, reset.\<close>

definition refresh_block ::
  "libc \<Rightarrow> TlsTemplate \<Rightarrow> ThreadTlsState \<Rightarrow> memory \<Rightarrow> (ThreadTlsBlock option \<times> ThreadTlsState \<times> memory) option" where
  "refresh_block lc t thread m =
     (case find_thread_block thread (module_id t) of
        None \<Rightarrow>
          (case ensure_thread_block_capacity lc thread (module_id t) of
             None \<Rightarrow> None
           | Some (False, thread1) \<Rightarrow> Some (None, thread1, m)
           | Some (True, thread1) \<Rightarrow>
             (case create_thread_block lc t m of
                (None, m1) \<Rightarrow> Some (None, thread1, m1)
              | (Some block, m1) \<Rightarrow>
                Some (Some block,
                  thread1\<lparr>first_blocks := module_id t # first_blocks thread1,
                          blocks := (blocks thread1)[unat (module_id t) := Some block]\<rparr>, m1)))
      | Some block \<Rightarrow>
          if blk_generation block \<noteq> generation t
          then (case reset_thread_block lc block t m of
                  (None, m1) \<Rightarrow> Some (None, thread, m1)
                | (Some block1, m1) \<Rightarrow>
                  Some (Some block1, thread\<lparr>blocks := (blocks thread)[unat (module_id t) := Some block1]\<rparr>, m1))
          else Some (Some block, thread, m))"

text \<open>The address is 0 for \<^verbatim>\<open>nullptr\<close>.\<close>

definition yuki_tls_get_addr ::
  "libc \<Rightarrow> u64 \<Rightarrow> image_store \<Rightarrow> u64 \<Rightarrow> u64 \<Rightarrow> TlsRuntime \<times> thread_store \<times> memory
     \<Rightarrow> (u64 \<times> TlsRuntime \<times> thread_store \<times> memory) option" where
  "yuki_tls_get_addr lc tid imgs mid offset s =
     (let (rt, threads, m) = s; gen = active_tls_generation rt mid in
      if gen = 0 then Some (0, s) else
      let fast = fast_thread_tls_state rt threads tid;
          hit = (case fast of None \<Rightarrow> None
                 | Some th \<Rightarrow> (case find_thread_block th mid of
                      None \<Rightarrow> None
                    | Some block \<Rightarrow> if blk_generation block = gen then Some block else None)) in
      case hit of
        Some block \<Rightarrow> Some (blk_storage block + offset, s)
      | None \<Rightarrow>
        let (thread, rt1, threads1) =
              (case fast of Some th \<Rightarrow> (Some th, rt, threads) | None \<Rightarrow> thread_tls_state lc tid (rt, threads)) in
        (case thread of
           None \<Rightarrow> Some (0, rt1, threads1, m)
         | Some th \<Rightarrow>
           (case find_tls_template imgs rt1 mid of
              None \<Rightarrow> Some (0, rt1, threads1, m)
            | Some im \<Rightarrow>
              if offset \<ge> memory_bytes (tls (imgs im)) then Some (0, rt1, threads1, m) else
              (case refresh_block lc (tls (imgs im)) th m of
                 None \<Rightarrow> None
               | Some (None, th1, m1) \<Rightarrow> Some (0, rt1, threads1(tid \<mapsto> th1), m1)
               | Some (Some block, th1, m1) \<Rightarrow>
                 Some (blk_storage block + offset, rt1, threads1(tid \<mapsto> th1), m1)))))"

definition current_thread_tls_data :: "u64 \<Rightarrow> TlsRuntime \<Rightarrow> thread_store \<Rightarrow> u64 \<Rightarrow> u64 \<Rightarrow> u64" where
  "current_thread_tls_data tid rt threads mid gen =
     (if mid = 0 \<or> gen = 0 \<or> active_tls_generation rt mid \<noteq> gen then 0 else
      let fast = fast_thread_tls_state rt threads tid;
          thread = (case fast of Some th \<Rightarrow> Some th | None \<Rightarrow> threads tid) in
      case thread of
        None \<Rightarrow> 0
      | Some th \<Rightarrow>
        (case find_thread_block th mid of
           None \<Rightarrow> 0
         | Some block \<Rightarrow> if blk_generation block = gen then blk_storage block else 0))"

text \<open>\<^verbatim>\<open>destroy_thread_tls_state\<close>: the storages freed, in order.\<close>

definition destroy_thread_tls_state :: "ThreadTlsState \<Rightarrow> u64 list" where
  "destroy_thread_tls_state st =
     concat (map (\<lambda>mid. case blocks st ! unat mid of None \<Rightarrow> [] | Some b \<Rightarrow> [blk_storage b]) (first_blocks st))"

definition has_active_tls :: "TlsRuntime \<Rightarrow> bool" where
  "has_active_tls rt \<longleftrightarrow> g_tls_templates rt \<noteq> []"

text \<open>\<^verbatim>\<open>shutdown\<close>, called on thread \<open>tid\<close>; the last component is the storages freed.\<close>

definition shutdown ::
  "u64 \<Rightarrow> image_store \<times> TlsRuntime \<times> thread_store \<Rightarrow> image_store \<times> TlsRuntime \<times> thread_store \<times> u64 list" where
  "shutdown tid s =
     (let (imgs, rt, threads) = s;
          rt1 = disable_tls_fast_path rt;
          imgs1 = (\<lambda>im. if im \<in> set (g_tls_templates rt1)
                        then (imgs im)\<lparr>tls := (tls (imgs im))\<lparr>active := False\<rparr>\<rparr> else imgs im);
          rt2 = rt1\<lparr>g_tls_stopped := True, g_tls_templates := [],
                    g_tls_module_generations := (\<lambda>mid. if mid \<noteq> 0 \<and> mid \<le> kMaxTlsModuleSlots then 0
                                                       else g_tls_module_generations rt1 mid)\<rparr> in
      if g_thread_tls_key_valid rt2 = Some True
      then (imgs1, rt2\<lparr>g_thread_tls_key_valid := Some False\<rparr>, threads(tid := None),
            case threads tid of None \<Rightarrow> [] | Some st \<Rightarrow> destroy_thread_tls_state st)
      else (imgs1, rt2, threads, []))"

section \<open>The module table\<close>

text \<open>The template list, the templates in the images and the generation table agree.\<close>

definition tls_inv :: "image_store \<Rightarrow> TlsRuntime \<Rightarrow> bool" where
  "tls_inv imgs rt \<longleftrightarrow>
     distinct (g_tls_templates rt) \<and>
     (\<forall>im. active (tls (imgs im)) \<longleftrightarrow> im \<in> set (g_tls_templates rt)) \<and>
     (\<forall>im \<in> set (g_tls_templates rt). let t = tls (imgs im) in
        module_id t \<noteq> 0 \<and> module_id t \<le> kMaxTlsModuleSlots \<and> generation t \<noteq> 0 \<and>
        g_tls_module_generations rt (module_id t) = generation t) \<and>
     inj_on (\<lambda>im. module_id (tls (imgs im))) (set (g_tls_templates rt)) \<and>
     (\<forall>mid. mid \<noteq> 0 \<and> mid \<le> kMaxTlsModuleSlots \<and> g_tls_module_generations rt mid \<noteq> 0 \<longrightarrow>
        (\<exists>im \<in> set (g_tls_templates rt). module_id (tls (imgs im)) = mid))"

text \<open>The steps of the table: an image is loaded at an unused address, its storage is activated or
  deactivated, the loader shuts down.\<close>

inductive tls_step :: "image_store \<times> TlsRuntime \<Rightarrow> image_store \<times> TlsRuntime \<Rightarrow> bool" where
  load: "\<not> active (tls (imgs im)) \<Longrightarrow> \<not> active (tls img) \<Longrightarrow> tls_step (imgs, rt) (imgs(im := img), rt)"
| activate: "\<not> active (tls (imgs im)) \<Longrightarrow> activate_tls lc im (imgs, rt) = (r, imgs', rt') \<Longrightarrow>
    tls_step (imgs, rt) (imgs', rt')"
| deactivate: "deactivate_tls im (imgs, rt) = (imgs', rt') \<Longrightarrow> tls_step (imgs, rt) (imgs', rt')"
| shut: "shutdown tid (imgs, rt, threads) = (imgs', rt', threads', freed) \<Longrightarrow> tls_step (imgs, rt) (imgs', rt')"

inductive_cases tls_stepE: "tls_step s s'"

definition tls_initial :: "image_store \<times> TlsRuntime" where
  "tls_initial = ((\<lambda>_. new_image), initial_tls)"

lemma tls_inv_initial: "tls_inv (\<lambda>_. new_image) initial_tls"
  by (simp add: tls_inv_def initial_tls_def new_image_def)

lemma ensure_key_fields:
  assumes "ensure_thread_tls_key lc rt = (v, rt1)"
  shows "g_tls_templates rt1 = g_tls_templates rt" "g_tls_module_generations rt1 = g_tls_module_generations rt"
    "g_next_tls_generation rt1 = g_next_tls_generation rt" "g_tls_stopped rt1 = g_tls_stopped rt"
  using assms by (auto simp: ensure_thread_tls_key_def initialize_thread_tls_key_def
      configure_tls_fast_path_def Let_def split: if_splits)

lemma free_module_slot_Some:
  assumes "free_module_slot rt = Some mid"
  shows "mid \<noteq> 0" "mid \<le> kMaxTlsModuleSlots" "g_tls_module_generations rt mid = 0"
proof -
  from assms have "mid \<in> set (map of_nat [1..<Suc (unat kMaxTlsModuleSlots)])" "g_tls_module_generations rt mid = 0"
    unfolding free_module_slot_def by (blast dest: find_SomeD)+
  then obtain i where i: "mid = of_nat i" "1 \<le> i" "i \<le> 1024" "g_tls_module_generations rt mid = 0"
    by (auto simp: kMaxTlsModuleSlots_def)
  then have "unat mid = i" by (simp add: unat_of_nat)
  with i show "mid \<noteq> 0" "mid \<le> kMaxTlsModuleSlots" "g_tls_module_generations rt mid = 0"
    by (auto simp: kMaxTlsModuleSlots_def word_le_nat_alt)
qed

lemma tls_inv_update_inactive:
  assumes "tls_inv imgs rt" and "\<not> active (tls (imgs im))" and "\<not> active (tls img)"
  shows "tls_inv (imgs(im := img)) rt"
proof -
  have "im \<notin> set (g_tls_templates rt)" using assms(1,2) by (simp add: tls_inv_def)
  then show ?thesis using assms by (auto simp: tls_inv_def Let_def inj_on_def)
qed

lemma tls_inv_runtime_cong:
  assumes "tls_inv imgs rt" and "g_tls_templates rt' = g_tls_templates rt"
    and "g_tls_module_generations rt' = g_tls_module_generations rt"
  shows "tls_inv imgs rt'"
  using assms by (simp add: tls_inv_def)

lemma tls_inv_add:
  assumes inv: "tls_inv imgs rt" and new: "\<not> active (tls (imgs im))"
    and mid: "mid \<noteq> 0" "mid \<le> kMaxTlsModuleSlots" "g_tls_module_generations rt mid = 0" and gen: "gen \<noteq> 0"
    and t: "active t" "module_id t = mid" "generation t = gen"
    and rt': "g_tls_templates rt' = im # g_tls_templates rt"
      "g_tls_module_generations rt' = (g_tls_module_generations rt)(mid := gen)"
  shows "tls_inv (imgs(im := img\<lparr>tls := t\<rparr>)) rt'"
proof -
  have notin: "im \<notin> set (g_tls_templates rt)" using inv new by (simp add: tls_inv_def)
  have old: "module_id (tls (imgs x)) \<noteq> mid" if "x \<in> set (g_tls_templates rt)" for x
    using inv that mid(3) by (auto simp: tls_inv_def Let_def)
  from inv have parts: "distinct (g_tls_templates rt)"
    "\<forall>x. active (tls (imgs x)) \<longleftrightarrow> x \<in> set (g_tls_templates rt)"
    "\<forall>x \<in> set (g_tls_templates rt). module_id (tls (imgs x)) \<noteq> 0 \<and>
       module_id (tls (imgs x)) \<le> kMaxTlsModuleSlots \<and> generation (tls (imgs x)) \<noteq> 0 \<and>
       g_tls_module_generations rt (module_id (tls (imgs x))) = generation (tls (imgs x))"
    "inj_on (\<lambda>im. module_id (tls (imgs im))) (set (g_tls_templates rt))"
    "\<forall>mid. mid \<noteq> 0 \<and> mid \<le> kMaxTlsModuleSlots \<and> g_tls_module_generations rt mid \<noteq> 0 \<longrightarrow>
       (\<exists>im \<in> set (g_tls_templates rt). module_id (tls (imgs im)) = mid)"
    by (auto simp: tls_inv_def Let_def)
  show ?thesis
    unfolding tls_inv_def Let_def rt'
  proof (intro conjI)
    show "distinct (im # g_tls_templates rt)" using notin parts(1) by simp
    show "\<forall>x. active (tls ((imgs(im := img\<lparr>tls := t\<rparr>)) x)) \<longleftrightarrow> x \<in> set (im # g_tls_templates rt)"
      using t parts(2) by auto
    show "inj_on (\<lambda>x. module_id (tls ((imgs(im := img\<lparr>tls := t\<rparr>)) x))) (set (im # g_tls_templates rt))"
      using parts(4) notin old t(2) by (auto simp: inj_on_def; blast)
    show "\<forall>x \<in> set (im # g_tls_templates rt). module_id (tls ((imgs(im := img\<lparr>tls := t\<rparr>)) x)) \<noteq> 0 \<and>
        module_id (tls ((imgs(im := img\<lparr>tls := t\<rparr>)) x)) \<le> kMaxTlsModuleSlots \<and>
        generation (tls ((imgs(im := img\<lparr>tls := t\<rparr>)) x)) \<noteq> 0 \<and>
        ((g_tls_module_generations rt)(mid := gen)) (module_id (tls ((imgs(im := img\<lparr>tls := t\<rparr>)) x))) =
        generation (tls ((imgs(im := img\<lparr>tls := t\<rparr>)) x))"
      using parts(3) mid(1,2) gen t notin old by auto
    show "\<forall>m. m \<noteq> 0 \<and> m \<le> kMaxTlsModuleSlots \<and> ((g_tls_module_generations rt)(mid := gen)) m \<noteq> 0 \<longrightarrow>
        (\<exists>x \<in> set (im # g_tls_templates rt). module_id (tls ((imgs(im := img\<lparr>tls := t\<rparr>)) x)) = m)"
    proof (intro allI impI)
      fix m assume m: "m \<noteq> 0 \<and> m \<le> kMaxTlsModuleSlots \<and> ((g_tls_module_generations rt)(mid := gen)) m \<noteq> 0"
      show "\<exists>x \<in> set (im # g_tls_templates rt). module_id (tls ((imgs(im := img\<lparr>tls := t\<rparr>)) x)) = m"
      proof (cases "m = mid")
        case True
        then show ?thesis using t(2) by simp
      next
        case False
        with m parts(5) obtain x where "x \<in> set (g_tls_templates rt)" "module_id (tls (imgs x)) = m" by auto
        then show ?thesis using notin by (intro bexI [of _ x]) auto
      qed
    qed
  qed
qed

lemma activate_tls_inv:
  assumes inv: "tls_inv imgs rt" and new: "\<not> active (tls (imgs im))"
    and run: "activate_tls lc im (imgs, rt) = (r, imgs', rt')"
  shows "tls_inv imgs' rt'"
proof -
  let ?t = "tls (imgs im)"
  obtain v rt1 where k: "ensure_thread_tls_key lc rt = (v, rt1)" by fastforce
  define t1 where "t1 = (if alignment ?t = 0 then ?t\<lparr>alignment := 1\<rparr> else ?t)"
  define imgs1 where "imgs1 = imgs(im := (imgs im)\<lparr>tls := t1\<rparr>)"
  note kf = ensure_key_fields [OF k]
  have inactive: "\<not> active t1" "imgs1 im = (imgs im)\<lparr>tls := t1\<rparr>" using new by (simp_all add: t1_def imgs1_def)
  have inv1: "tls_inv imgs1 rt1"
    unfolding imgs1_def using inactive
    by (intro tls_inv_runtime_cong [OF tls_inv_update_inactive [OF inv new]]) (simp_all add: kf)
  let ?gen = "if g_next_tls_generation rt1 = 0 then 1 else g_next_tls_generation rt1"
  have "imgs' = imgs \<and> rt' = rt \<or> imgs' = imgs1 \<and> rt' = rt1 \<or>
    (\<exists>mid. free_module_slot rt1 = Some mid \<and>
      imgs' = imgs1(im := (imgs1 im)\<lparr>tls := t1\<lparr>module_id := mid, generation := ?gen, active := True\<rparr>\<rparr>) \<and>
      g_tls_templates rt' = im # g_tls_templates rt1 \<and>
      g_tls_module_generations rt' = (g_tls_module_generations rt1)(mid := ?gen))"
    using run unfolding activate_tls_def Let_def prod.case k t1_def [symmetric] imgs1_def [symmetric]
    by (auto split: if_split_asm option.split_asm)
  then consider "imgs' = imgs \<and> rt' = rt" | "imgs' = imgs1 \<and> rt' = rt1"
    | mid where "free_module_slot rt1 = Some mid"
      "imgs' = imgs1(im := (imgs1 im)\<lparr>tls := t1\<lparr>module_id := mid, generation := ?gen, active := True\<rparr>\<rparr>)"
      "g_tls_templates rt' = im # g_tls_templates rt1"
      "g_tls_module_generations rt' = (g_tls_module_generations rt1)(mid := ?gen)"
    by blast
  then show ?thesis
  proof cases
    case 3
    have "\<not> active (tls (imgs1 im))" using inactive by simp
    from tls_inv_add [OF inv1 this free_module_slot_Some [OF 3(1)] _ _ _ _ 3(3,4)]
    show ?thesis unfolding 3(2) by simp
  qed (use inv inv1 in simp_all)
qed

lemma deactivate_tls_inv:
  assumes inv: "tls_inv imgs rt" and run: "deactivate_tls im (imgs, rt) = (imgs', rt')"
  shows "tls_inv imgs' rt'"
proof (cases "active (tls (imgs im))")
  case False
  with inv run show ?thesis by (simp add: deactivate_tls_def Let_def)
next
  case True
  let ?T = "g_tls_templates rt" and ?mid = "module_id (tls (imgs im))"
  from True inv have im: "im \<in> set ?T" and dist: "distinct ?T" by (simp_all add: tls_inv_def)
  with inv have m: "?mid \<noteq> 0" "?mid \<le> kMaxTlsModuleSlots" by (auto simp: tls_inv_def Let_def)
  have set: "set (remove1 im ?T) = set ?T - {im}" using dist by simp
  have other: "module_id (tls (imgs x)) \<noteq> ?mid" if "x \<in> set ?T" "x \<noteq> im" for x
    using inv im that unfolding tls_inv_def inj_on_def by blast
  have imgs': "imgs' = imgs(im := (imgs im)\<lparr>tls := (tls (imgs im))\<lparr>active := False, module_id := 0, generation := 0\<rparr>\<rparr>)"
    and rt': "g_tls_templates rt' = remove1 im ?T"
      "g_tls_module_generations rt' = (g_tls_module_generations rt)(?mid := 0)"
    using run True m by (auto simp: deactivate_tls_def Let_def)
  show ?thesis
    unfolding tls_inv_def Let_def rt' set imgs'
  proof (intro conjI)
    show "distinct (remove1 im ?T)" using dist by simp
  qed (use inv other in \<open>auto simp: tls_inv_def Let_def inj_on_def\<close>)
qed

lemma shutdown_inv:
  assumes inv: "tls_inv imgs rt" and run: "shutdown tid (imgs, rt, threads) = (imgs', rt', threads', freed)"
  shows "tls_inv imgs' rt'"
  using assms by (auto simp: shutdown_def tls_inv_def Let_def disable_tls_fast_path_def split: if_splits)

lemma tls_step_inv: "tls_step s s' \<Longrightarrow> tls_inv (fst s) (snd s) \<Longrightarrow> tls_inv (fst s') (snd s')"
  by (induction rule: tls_step.induct)
    (auto intro: tls_inv_update_inactive activate_tls_inv deactivate_tls_inv shutdown_inv)

lemma tls_reachable_inv:
  assumes "tls_step\<^sup>*\<^sup>* tls_initial s"
  shows "tls_inv (fst s) (snd s)"
  using assms
  by (induction rule: rtranclp_induct) (simp_all add: tls_initial_def tls_inv_initial tls_step_inv)

lemma find_template_agrees:
  assumes inv: "tls_inv imgs rt"
  shows "case find_tls_template imgs rt mid of
      None \<Rightarrow> active_tls_generation rt mid = 0
    | Some im \<Rightarrow> active (tls (imgs im)) \<and> module_id (tls (imgs im)) = mid \<and>
        active_tls_generation rt mid = generation (tls (imgs im)) \<and> generation (tls (imgs im)) \<noteq> 0"
proof (cases "find_tls_template imgs rt mid")
  case None
  then have "\<forall>im \<in> set (g_tls_templates rt). module_id (tls (imgs im)) \<noteq> mid"
    using inv by (auto simp: find_tls_template_def find_None_iff tls_inv_def)
  with None inv show ?thesis by (auto simp: active_tls_generation_def tls_inv_def not_less)
next
  case (Some im)
  then have "im \<in> set (g_tls_templates rt)" "active (tls (imgs im))" "module_id (tls (imgs im)) = mid"
    by (auto simp: find_tls_template_def find_Some_iff)
  with Some inv show ?thesis by (auto simp: active_tls_generation_def tls_inv_def Let_def not_less)
qed

text \<open>C11: In every state the loader can reach by loading, activating, deactivating and shutting down,
  the generation table read without a lock agrees with the list of templates: a module id has a
  nonzero generation exactly when one active template carries the id, and it is that template's
  generation; active templates have distinct ids between 1 and 1024.\<close>

theorem tls_module_table_consistent:
  assumes "tls_step\<^sup>*\<^sup>* tls_initial (imgs, rt)"
  shows "(case find_tls_template imgs rt mid of
      None \<Rightarrow> active_tls_generation rt mid = 0
    | Some im \<Rightarrow> active (tls (imgs im)) \<and> module_id (tls (imgs im)) = mid \<and>
        active_tls_generation rt mid = generation (tls (imgs im)) \<and> generation (tls (imgs im)) \<noteq> 0) \<and>
    inj_on (\<lambda>im. module_id (tls (imgs im))) {im. active (tls (imgs im))} \<and>
    (\<forall>im. active (tls (imgs im)) \<longrightarrow> 1 \<le> unat (module_id (tls (imgs im))) \<and> unat (module_id (tls (imgs im))) \<le> 1024)"
proof -
  from tls_reachable_inv [OF assms] have inv: "tls_inv imgs rt" by simp
  then have act: "{im. active (tls (imgs im))} = set (g_tls_templates rt)" by (auto simp: tls_inv_def)
  have "1 \<le> unat (module_id (tls (imgs im))) \<and> unat (module_id (tls (imgs im))) \<le> 1024"
    if "active (tls (imgs im))" for im
  proof -
    have "module_id (tls (imgs im)) \<noteq> 0" "module_id (tls (imgs im)) \<le> kMaxTlsModuleSlots"
      using inv that by (auto simp: tls_inv_def Let_def)
    then show ?thesis by (simp add: kMaxTlsModuleSlots_def word_le_nat_alt Suc_le_eq unat_gt_0)
  qed
  with find_template_agrees [OF inv] inv act show ?thesis by (simp add: tls_inv_def)
qed

section \<open>Thread blocks\<close>

definition thread_ok :: "ThreadTlsState \<Rightarrow> bool" where
  "thread_ok th \<longleftrightarrow> length (blocks th) < 2 ^ 64"

lemma block_capacity_unat: "thread_ok th \<Longrightarrow> unat (block_capacity th) = length (blocks th)"
  unfolding thread_ok_def block_capacity_def by (rule unat_of_nat_u64)

lemma find_thread_block_alt: "thread_ok th \<Longrightarrow>
    find_thread_block th mid = (if unat mid < length (blocks th) then blocks th ! unat mid else None)"
  by (simp add: find_thread_block_def word_le_nat_alt block_capacity_unat not_less)

lemma grow_blocks_returns:
  assumes "capacity \<noteq> 0"
  shows "\<exists>c. grow_blocks required capacity = Some c \<and> required \<le> c \<and> capacity \<le> c"
  using assms
proof (induction "2 ^ 64 - unat capacity" arbitrary: capacity rule: less_induct)
  case less
  show ?case
  proof (cases "capacity < required \<and> \<not> capacity > SIZE_MAX div 2")
    case False
    then show ?thesis by (subst grow_blocks.simps) (auto simp: not_less)
  next
    case True
    have "unat capacity \<le> 9223372036854775807" using True by (simp add: word_less_nat_alt not_less)
    then have "unat capacity * unat (2 :: u64) < 2 ^ 64" by simp
    then have dbl: "unat (capacity * 2) = 2 * unat capacity" by (simp add: unat_word_ariths)
    have pos: "0 < unat capacity" using less.prems by (simp add: unat_gt_0)
    have lt: "unat (capacity * 2) < 2 ^ 64" using unat_lt_exp [of "capacity * 2"] by simp
    have "2 ^ 64 - unat (capacity * 2) < 2 ^ 64 - unat capacity" using pos lt dbl by linarith
    moreover have "capacity * 2 \<noteq> 0" unfolding unat_gt_0 [symmetric] dbl using pos by simp
    ultimately obtain c where c: "grow_blocks required (capacity * 2) = Some c" "required \<le> c" "capacity * 2 \<le> c"
      using less.hyps by blast
    have "capacity \<le> capacity * 2" unfolding word_le_nat_alt dbl by simp
    moreover have "grow_blocks required capacity = grow_blocks required (capacity * 2)"
      using True by (subst grow_blocks.simps) simp
    ultimately show ?thesis using c by (metis order_trans)
  qed
qed

lemma ensure_thread_block_capacity_ok:
  assumes ok: "thread_ok th"
  shows "\<exists>r th1. ensure_thread_block_capacity lc th mid = Some (r, th1) \<and> thread_ok th1 \<and>
    (r \<longrightarrow> unat mid < length (blocks th1))"
proof (cases "mid < block_capacity th \<or> mid = UINTPTR_MAX")
  case True
  then show ?thesis
    using ok by (auto simp: ensure_thread_block_capacity_def word_less_nat_alt block_capacity_unat)
next
  case False
  let ?cap = "if block_capacity th = 0 then 8 else block_capacity th"
  have "?cap \<noteq> 0" by simp
  from grow_blocks_returns [OF this, of "mid + 1"] obtain c where
    c: "grow_blocks (mid + 1) ?cap = Some c" "mid + 1 \<le> c" "?cap \<le> c" by blast
  show ?thesis
  proof (cases "\<exists>b. multiply_overflow c 8 = Some b \<and> lc_realloc lc b")
    case False': False
    then show ?thesis using False c(1) ok
      by (auto simp: ensure_thread_block_capacity_def split: option.split)
  next
    case True
    then obtain b where b: "multiply_overflow c 8 = Some b" "lc_realloc lc b" by blast
    let ?th = "th\<lparr>blocks := blocks th @ replicate (unat (c - block_capacity th)) None\<rparr>"
    have run: "ensure_thread_block_capacity lc th mid = Some (True, ?th)"
      using False c(1) b by (simp add: ensure_thread_block_capacity_def)
    have cap: "unat (block_capacity th) \<le> unat c"
      using c(3) by (auto simp: word_le_nat_alt split: if_splits)
    then have len: "length (blocks ?th) = unat c"
      by (simp add: unat_diff_le [OF cap] block_capacity_unat [OF ok])
    have "unat c < 2 ^ 64" using unat_lt_exp [of c] by simp
    then have ok1: "thread_ok ?th" unfolding thread_ok_def len .
    have "unat mid \<noteq> unat UINTPTR_MAX" using False by (simp only: word_unat_eq_iff [symmetric]) simp
    then have "unat mid + unat (1 :: u64) < 2 ^ 64" using unat_lt_exp [of mid] by (simp add: unat_max)
    then have "unat (mid + 1) = unat mid + 1" using unat_add_lt [of mid 1] by simp
    then have "unat mid < length (blocks ?th)" unfolding len using c(2) by (simp add: word_le_nat_alt)
    with run ok1 show ?thesis by blast
  qed
qed

text \<open>\<open>refresh_block\<close> returns; a block it returns is the thread's block of the slot and carries the
  generation of the template, and a block that already did is kept.\<close>

lemma refresh_block_ok:
  assumes ok: "thread_ok th"
  shows "\<exists>r th1 m1. refresh_block lc t th m = Some (r, th1, m1) \<and> thread_ok th1 \<and>
    (\<forall>b. r = Some b \<longrightarrow> find_thread_block th1 (module_id t) = Some b \<and> blk_generation b = generation t) \<and>
    (\<forall>b. find_thread_block th (module_id t) = Some b \<and> blk_generation b = generation t \<longrightarrow>
       r = Some b \<and> th1 = th \<and> m1 = m)"
proof (cases "find_thread_block th (module_id t)")
  case None
  obtain r th1 where e: "ensure_thread_block_capacity lc th (module_id t) = Some (r, th1)" "thread_ok th1"
    "r \<longrightarrow> unat (module_id t) < length (blocks th1)"
    using ensure_thread_block_capacity_ok [OF ok, of lc "module_id t"] by blast
  obtain b m1 where c: "create_thread_block lc t m = (b, m1)" by fastforce
  have gen: "blk_generation x = generation t" if "b = Some x" for x
    using c that by (auto simp: create_thread_block_def split: if_splits option.splits prod.splits)
  let ?th = "\<lambda>x. th1\<lparr>first_blocks := module_id t # first_blocks th1,
      blocks := (blocks th1)[unat (module_id t) := Some x]\<rparr>"
  have ok2: "thread_ok (?th x)" for x using e(2) by (simp add: thread_ok_def)
  have found: "find_thread_block (?th x) (module_id t) = Some x" if r for x
    using e(3) that by (simp add: find_thread_block_alt [OF ok2])
  show ?thesis
    using None e(2) ok2 found gen by (cases r; cases b) (auto simp: refresh_block_def e(1) c)
next
  case (Some b)
  then have idx: "unat (module_id t) < length (blocks th)"
    by (auto simp: find_thread_block_alt [OF ok] split: if_splits)
  obtain b1 m1 where c: "reset_thread_block lc b t m = (b1, m1)" by fastforce
  have gen: "blk_generation x = generation t" if "b1 = Some x" for x
    using c that by (auto simp: reset_thread_block_def split: option.splits prod.splits)
  let ?th = "\<lambda>x. th\<lparr>blocks := (blocks th)[unat (module_id t) := Some x]\<rparr>"
  have ok2: "thread_ok (?th x)" for x using ok by (simp add: thread_ok_def)
  have found: "find_thread_block (?th x) (module_id t) = Some x" for x
    using idx by (simp add: find_thread_block_alt [OF ok2])
  show ?thesis
    using Some ok ok2 found gen by (cases b1) (auto simp: refresh_block_def c)
qed

lemma thread_tls_state_fields:
  assumes "thread_tls_state lc tid (rt, threads) = (r, rt1, threads1)"
  shows "g_tls_templates rt1 = g_tls_templates rt" "g_tls_module_generations rt1 = g_tls_module_generations rt"
    and "r = Some th \<Longrightarrow> threads1 tid = Some th \<and> (threads tid = Some th \<or> thread_ok th)"
    and "x \<noteq> tid \<Longrightarrow> threads1 x = threads x"
  using assms ensure_key_fields [of lc rt]
  by (auto simp: thread_tls_state_def thread_ok_def Let_def split: if_splits option.splits prod.splits)

text \<open>C14: An access to a thread-local variable never reaches the storage of an unloaded module:
  \<open>yuki_tls_get_addr\<close> always returns, and an address it returns points, at the requested offset, into
  a block of the calling thread that carries the generation the module has now, so a block left over
  from an earlier module with the same id is replaced.\<close>

theorem tls_get_addr_current:
  assumes inv: "tls_inv imgs rt" and ok: "\<forall>th. threads tid = Some th \<longrightarrow> thread_ok th"
  shows "\<exists>a rt' threads' m'. yuki_tls_get_addr lc tid imgs mid off (rt, threads, m) = Some (a, rt', threads', m') \<and>
    (a = 0 \<or> (\<exists>th b. threads' tid = Some th \<and> find_thread_block th mid = Some b \<and>
       blk_generation b = active_tls_generation rt mid \<and> active_tls_generation rt mid \<noteq> 0 \<and>
       a = blk_storage b + off))"
proof (cases "active_tls_generation rt mid = 0")
  case True
  then show ?thesis by (simp add: yuki_tls_get_addr_def)
next
  case gen: False
  let ?g = "active_tls_generation rt mid" and ?fast = "fast_thread_tls_state rt threads tid"
  show ?thesis
  proof (cases "\<exists>th b. ?fast = Some th \<and> find_thread_block th mid = Some b \<and> blk_generation b = ?g")
    case True
    then obtain th b where h: "?fast = Some th" "find_thread_block th mid = Some b" "blk_generation b = ?g" by blast
    then have "threads tid = Some th" by (simp add: fast_thread_tls_state_def split: if_splits)
    with h gen show ?thesis by (simp add: yuki_tls_get_addr_def)
  next
    case miss: False
    obtain r rt1 threads1 where st: "(case ?fast of Some th \<Rightarrow> (Some th, rt, threads)
        | None \<Rightarrow> thread_tls_state lc tid (rt, threads)) = (r, rt1, threads1)" by (metis prod_cases3)
    have same: "g_tls_templates rt1 = g_tls_templates rt"
      "g_tls_module_generations rt1 = g_tls_module_generations rt"
      using st thread_tls_state_fields(1,2) [of lc tid rt threads] by (auto split: option.splits)
    have th_ok: "thread_ok th" if "r = Some th" for th
      using st ok that thread_tls_state_fields(3) [of lc tid rt threads r rt1 threads1 th]
      by (auto simp: fast_thread_tls_state_def split: option.splits if_splits)
    have inv1: "tls_inv imgs rt1" by (rule tls_inv_runtime_cong [OF inv same])
    have g1: "active_tls_generation rt1 mid = ?g" by (simp add: active_tls_generation_def same)
    from find_template_agrees [OF inv1, of mid] gen obtain im where
      im: "find_tls_template imgs rt1 mid = Some im" "module_id (tls (imgs im)) = mid" "generation (tls (imgs im)) = ?g"
      by (auto simp: g1 split: option.splits)
    have hit: "(case ?fast of None \<Rightarrow> None | Some th \<Rightarrow> (case find_thread_block th mid of None \<Rightarrow> None
        | Some block \<Rightarrow> if blk_generation block = ?g then Some block else None)) = None"
      using miss by (auto split: option.splits)
    note run = yuki_tls_get_addr_def [of lc tid imgs mid off "(rt, threads, m)"]
    show ?thesis
    proof (cases r)
      case None
      then show ?thesis unfolding run Let_def prod.case hit st using gen by simp
    next
      case (Some th)
      from refresh_block_ok [OF th_ok [OF Some], of lc "tls (imgs im)" m] obtain b th1 m1 where
        rf: "refresh_block lc (tls (imgs im)) th m = Some (b, th1, m1)"
        "\<forall>x. b = Some x \<longrightarrow> find_thread_block th1 mid = Some x \<and> blk_generation x = ?g"
        unfolding im by blast
      show ?thesis
        unfolding run Let_def prod.case hit st Some option.case im(1) rf(1)
        using gen rf(2) by (cases b) auto
    qed
  qed
qed

text \<open>Thread-local variables keep their place: after an access that returned a block of the thread,
  the next access to the same module by the same thread uses the same storage and changes nothing.\<close>

lemma tls_get_addr_stable:
  assumes inv: "tls_inv imgs rt" and th: "threads tid = Some th" "thread_ok th"
    and b: "find_thread_block th mid = Some b" "blk_generation b = active_tls_generation rt mid"
      "active_tls_generation rt mid \<noteq> 0"
    and key: "g_thread_tls_key_valid rt = Some True" "\<not> g_tls_stopped rt"
    and off: "\<forall>im. find_tls_template imgs rt mid = Some im \<longrightarrow> off < memory_bytes (tls (imgs im))"
  shows "yuki_tls_get_addr lc tid imgs mid off (rt, threads, m) = Some (blk_storage b + off, rt, threads, m)"
proof (cases "tls_fast_enabled rt")
  case True
  then show ?thesis using th b by (simp add: yuki_tls_get_addr_def fast_thread_tls_state_def)
next
  case False
  then have fast: "fast_thread_tls_state rt threads tid = None" by (simp add: fast_thread_tls_state_def)
  have st: "thread_tls_state lc tid (rt, threads) = (Some th, rt, threads)"
    using key th by (simp add: thread_tls_state_def ensure_thread_tls_key_def)
  from find_template_agrees [OF inv, of mid] b(3) obtain im where
    im: "find_tls_template imgs rt mid = Some im" "module_id (tls (imgs im)) = mid"
      "generation (tls (imgs im)) = active_tls_generation rt mid"
    by (auto split: option.splits)
  have rf: "refresh_block lc (tls (imgs im)) th m = Some (Some b, th, m)"
    using b by (simp add: refresh_block_def im)
  have upd: "threads(tid \<mapsto> th) = threads" using th(1) by auto
  show ?thesis
    using b(3) off im(1) by (auto simp: yuki_tls_get_addr_def fast st rf upd)
qed

section \<open>A concrete module\<close>

definition demo_libc :: libc where
  "demo_libc = \<lparr>lc_key_create = True, lc_fast_probe = True, lc_calloc_state = True, lc_setspecific = True,
     lc_realloc = (\<lambda>_. True), lc_calloc_block = True, lc_memalign = (\<lambda>_ _. Some 0x5000)\<rparr>"

definition demo_tls_template :: TlsTemplate where
  "demo_tls_template = \<lparr>module_id = 0, generation = 0, initial_bytes = 0, file_bytes = 0, memory_bytes = 16,
     alignment = 8, active = False\<rparr>"

definition demo_tls_images :: image_store where
  "demo_tls_images = (\<lambda>_. new_image)(1 := new_image\<lparr>tls := demo_tls_template\<rparr>)"

definition demo_tls_active :: image_store where
  "demo_tls_active = demo_tls_images(1 := new_image\<lparr>tls := demo_tls_template\<lparr>module_id := 1, generation := 1,
     active := True\<rparr>\<rparr>)"

definition demo_tls_runtime :: TlsRuntime where
  "demo_tls_runtime = \<lparr>g_tls_templates = [1], g_tls_module_generations = (\<lambda>_. 0)(1 := 1),
     g_next_tls_generation = 2, g_thread_tls_key_valid = Some True, g_tls_stopped = False, tls_fast_enabled = True\<rparr>"

lemma free_slot_first: "g_tls_module_generations rt 1 = 0 \<Longrightarrow> free_module_slot rt = Some 1"
proof -
  have "[1..<Suc (unat kMaxTlsModuleSlots)] = 1 # [Suc 1..<Suc (unat kMaxTlsModuleSlots)]"
    by (rule upt_conv_Cons) (simp add: kMaxTlsModuleSlots_def)
  then show "g_tls_module_generations rt 1 = 0 \<Longrightarrow> ?thesis"
    unfolding free_module_slot_def by (simp only: list.map of_nat_1 find.simps simp_thms if_True)
qed

lemma demo_activate: "activate_tls demo_libc 1 (demo_tls_images, initial_tls) = (True, demo_tls_active, demo_tls_runtime)"
  by (simp add: activate_tls_def demo_tls_images_def demo_tls_template_def demo_tls_active_def demo_tls_runtime_def
      demo_libc_def initial_tls_def ensure_thread_tls_key_def initialize_thread_tls_key_def configure_tls_fast_path_def
      is_power_of_two_def free_slot_first new_image_def)

lemma demo_reachable: "tls_step\<^sup>*\<^sup>* tls_initial (demo_tls_active, demo_tls_runtime)"
proof -
  have "tls_step tls_initial (demo_tls_images, initial_tls)"
    unfolding tls_initial_def demo_tls_images_def
    by (rule tls_step.load) (simp_all add: new_image_def demo_tls_template_def)
  moreover have "tls_step (demo_tls_images, initial_tls) (demo_tls_active, demo_tls_runtime)"
    by (rule tls_step.activate [OF _ demo_activate])
      (simp add: demo_tls_images_def demo_tls_template_def)
  ultimately show ?thesis by simp
qed

theorem tls_module_table_consistent_witness:
  "tls_step\<^sup>*\<^sup>* tls_initial (demo_tls_active, demo_tls_runtime) \<and>
   find_tls_template demo_tls_active demo_tls_runtime 1 = Some 1 \<and>
   active_tls_generation demo_tls_runtime 1 = 1"
proof -
  have f: "find_tls_template demo_tls_active demo_tls_runtime 1 = Some 1"
    by (simp add: find_tls_template_def demo_tls_active_def demo_tls_runtime_def)
  have "generation (tls (demo_tls_active 1)) = 1" by (simp add: demo_tls_active_def)
  with tls_module_table_consistent [OF demo_reachable, of 1] f demo_reachable show ?thesis by simp
qed

definition demo_thread :: ThreadTlsState where
  "demo_thread = \<lparr>blocks = [None, Some \<lparr>blk_generation = 1, blk_storage = 0x5000, blk_module_id = 1\<rparr>],
     first_blocks = [1]\<rparr>"

lemma demo_tls_inv: "tls_inv demo_tls_active demo_tls_runtime"
  using tls_reachable_inv [OF demo_reachable] by simp

theorem tls_get_addr_current_witness:
  "tls_inv demo_tls_active demo_tls_runtime \<and> thread_ok demo_thread \<and>
   (\<exists>a rt' threads' m'. yuki_tls_get_addr demo_libc 7 demo_tls_active 1 4
       (demo_tls_runtime, [7 \<mapsto> demo_thread], \<lambda>_. 0) = Some (a, rt', threads', m') \<and>
      (a = 0 \<or> (\<exists>th b. threads' 7 = Some th \<and> find_thread_block th 1 = Some b \<and> a = blk_storage b + 4)))"
proof -
  have ok: "\<forall>th. [7 \<mapsto> demo_thread] (7 :: u64) = Some th \<longrightarrow> thread_ok th"
    by (simp add: thread_ok_def demo_thread_def)
  show ?thesis
    using demo_tls_inv ok tls_get_addr_current [where threads = "[7 \<mapsto> demo_thread]" and tid = 7 and lc = demo_libc and mid = 1
        and off = 4 and m = "\<lambda>_. 0", OF demo_tls_inv ok] by auto
qed

end
