(* ===== verification/Relocation.thy ===== *)
theory Relocation
  imports Symbol_Index Tls_Runtime
begin

text \<open>
  Relocation of a loaded image (\<^verbatim>\<open>materialize_defined_symbol\<close>, \<^verbatim>\<open>resolve_symbol\<close>,
  \<^verbatim>\<open>resolve_tls_reference\<close>, \<^verbatim>\<open>apply_relocation\<close>, \<^verbatim>\<open>apply_relocation_span\<close>, \<^verbatim>\<open>apply_relr_span\<close>,
  \<^verbatim>\<open>relocate_image\<close> in \<^verbatim>\<open>yukilinker.cpp\<close>, full arm64 build).  The system linker and the code of the
  image are parameters, the fields of \<open>sysenv\<close>: \<^verbatim>\<open>dlsym\<close> and \<^verbatim>\<open>dlopen\<close> of the system, the results of
  the indirect-function resolvers, and the addresses of the loader's own hook functions.  A resolver is
  taken to return a value and to leave the memory alone.
\<close>

section \<open>Definitions\<close>

record sysenv =
  se_dlopen :: "u8 list \<Rightarrow> u64"
  se_dlsym :: "u64 \<Rightarrow> u8 list \<Rightarrow> u64"
  se_dlsym_default :: "u8 list \<Rightarrow> u64"
  se_ifunc :: "u64 \<Rightarrow> u64"
  fn_dl_iterate_phdr_hook :: u64
  fn_module_cxa_atexit :: u64
  fn_module_cxa_finalize :: u64
  fn_yuki_thread_atexit_noop :: u64
  fn_yuki_tls_get_addr :: u64
  fn_yuki_tlsdesc_weak_entry :: u64
  fn_yuki_tlsdesc_dynamic_entry :: u64

abbreviation (input) SHN_ABS :: u16 where "SHN_ABS \<equiv> 0xfff1"
abbreviation (input) STB_WEAK :: u8 where "STB_WEAK \<equiv> 2"

abbreviation (input) R_AARCH64_NONE :: u32 where "R_AARCH64_NONE \<equiv> 0"
abbreviation (input) R_AARCH64_ABS64 :: u32 where "R_AARCH64_ABS64 \<equiv> 257"
abbreviation (input) R_AARCH64_GLOB_DAT :: u32 where "R_AARCH64_GLOB_DAT \<equiv> 1025"
abbreviation (input) R_AARCH64_JUMP_SLOT :: u32 where "R_AARCH64_JUMP_SLOT \<equiv> 1026"
abbreviation (input) R_AARCH64_RELATIVE :: u32 where "R_AARCH64_RELATIVE \<equiv> 1027"
abbreviation (input) R_AARCH64_TLS_DTPREL64 :: u32 where "R_AARCH64_TLS_DTPREL64 \<equiv> 1028"
abbreviation (input) R_AARCH64_TLS_DTPMOD64 :: u32 where "R_AARCH64_TLS_DTPMOD64 \<equiv> 1029"
abbreviation (input) R_AARCH64_TLS_TPREL64 :: u32 where "R_AARCH64_TLS_TPREL64 \<equiv> 1030"
abbreviation (input) R_AARCH64_TLSDESC :: u32 where "R_AARCH64_TLSDESC \<equiv> 1031"
abbreviation (input) R_AARCH64_IRELATIVE :: u32 where "R_AARCH64_IRELATIVE \<equiv> 1032"

definition invoke_ifunc :: "sysenv \<Rightarrow> u64 \<Rightarrow> u64" where
  "invoke_ifunc env resolver = se_ifunc env resolver"

text \<open>\<open>None\<close> is a resolution that is not valid.\<close>

definition materialize_defined_symbol :: "sysenv \<Rightarrow> ImageState \<Rightarrow> Sym \<Rightarrow> u64 option" where
  "materialize_defined_symbol env img sy =
     (if st_shndx sy = SHN_UNDEF then None
      else case (if st_shndx sy = SHN_ABS then Some (st_value sy)
                 else runtime_pointer (memory_of img) 1 (st_value sy) 1) of
             None \<Rightarrow> None
           | Some address \<Rightarrow>
               Some (if st_type sy = STT_GNU_IFUNC then invoke_ifunc env address else address))"

text \<open>The loop over the dependencies: the first nonzero answer of an open handle.\<close>

fun dependency_lookup :: "sysenv \<Rightarrow> u64 list \<Rightarrow> u8 list \<Rightarrow> u64" where
  "dependency_lookup env [] nm = 0"
| "dependency_lookup env (system_handle # deps) nm =
     (if system_handle = 0 then dependency_lookup env deps nm
      else let address = se_dlsym env system_handle nm
           in if address \<noteq> 0 then address else dependency_lookup env deps nm)"

definition resolve_symbol :: "sysenv \<Rightarrow> memory \<Rightarrow> ImageState \<Rightarrow> u32 \<Rightarrow> u64 option" where
  "resolve_symbol env m img symbol_index =
     (case symbol_at img symbol_index of
        None \<Rightarrow> None
      | Some p \<Rightarrow>
        let sy = sym_at m p in
        if \<not> symbol_name_valid m (symbols img) sy then None else
        let nm = symbol_name m (symbols img) sy in
        if st_shndx sy \<noteq> SHN_UNDEF then materialize_defined_symbol env img sy
        else if nm = ascii ''dl_iterate_phdr'' then Some (fn_dl_iterate_phdr_hook env)
        else if nm = ascii ''__cxa_atexit'' then Some (fn_module_cxa_atexit env)
        else if nm = ascii ''__cxa_finalize'' then Some (fn_module_cxa_finalize env)
        else if nm = ascii ''__cxa_thread_atexit_impl'' then Some (fn_yuki_thread_atexit_noop env)
        else if nm = ascii ''__tls_get_addr'' then Some (fn_yuki_tls_get_addr env)
        else let d = dependency_lookup env (dependencies img) nm in
          if d \<noteq> 0 then Some d
          else if se_dlsym_default env nm \<noteq> 0 then Some (se_dlsym_default env nm)
          else if st_bind sy = STB_WEAK then Some 0
          else None)"

record TlsReference =
  ref_module_id :: u64
  ref_byte_offset :: u64
  ref_generation :: u64
  ref_unresolved_weak :: bool

definition resolve_tls_reference :: "memory \<Rightarrow> ImageState \<Rightarrow> u32 \<Rightarrow> u64 \<Rightarrow> TlsReference option" where
  "resolve_tls_reference m img symbol_index addend =
     (let local = (\<lambda>base. case add_signed_offset base addend of
                      None \<Rightarrow> None
                    | Some off \<Rightarrow> if off \<ge> memory_bytes (tls img) then None
                        else Some \<lparr>ref_module_id = module_id (tls img), ref_byte_offset = off,
                                   ref_generation = generation (tls img), ref_unresolved_weak = False\<rparr>) in
      if symbol_index = 0 then (if \<not> active (tls img) then None else local 0)
      else case symbol_at img symbol_index of
             None \<Rightarrow> None
           | Some p \<Rightarrow>
             let sy = sym_at m p in
             if st_shndx sy = SHN_UNDEF then
               (if st_bind sy \<noteq> STB_WEAK then None
                else Some \<lparr>ref_module_id = 0, ref_byte_offset = addend, ref_generation = 0,
                           ref_unresolved_weak = True\<rparr>)
             else if st_type sy \<noteq> STT_TLS \<or> \<not> active (tls img) then None
             else local (st_value sy))"

definition relocation_destination :: "ImageState \<Rightarrow> u64 \<Rightarrow> u64 option" where
  "relocation_destination img off = runtime_pointer (memory_of img) 8 off 1"

record Rela =
  r_offset :: u64
  r_info :: u64
  r_addend :: u64

definition rela_at :: "memory \<Rightarrow> u64 \<Rightarrow> Rela" where
  "rela_at m a = \<lparr>r_offset = read64 m a, r_info = read64 m (a + 8), r_addend = read64 m (a + 16)\<rparr>"

definition relocation_type :: "Rela \<Rightarrow> u32" where "relocation_type r = ucast (r_info r)"
definition relocation_symbol :: "Rela \<Rightarrow> u32" where "relocation_symbol r = ucast (drop_bit 32 (r_info r))"
definition relocation_addend :: "Rela \<Rightarrow> u64" where "relocation_addend r = r_addend r"

type_synonym arena_mem = "MetadataPage list \<times> memory"

text \<open>The \<^verbatim>\<open>switch\<close> on the type; the state is the metadata arena and the memory.\<close>

definition apply_relocation ::
  "sysenv \<Rightarrow> u64 \<Rightarrow> mmap_fn \<Rightarrow> ImageState \<Rightarrow> Rela \<Rightarrow> arena_mem \<Rightarrow> bool \<times> arena_mem" where
  "apply_relocation env ps mmap img r s =
     (let (pages, m) = s; type = relocation_type r; symbol_index = relocation_symbol r in
      case relocation_destination img (r_offset r) of
        None \<Rightarrow> (False, s)
      | Some destination \<Rightarrow>
        let addend = relocation_addend r;
            put = (\<lambda>v. (True, pages, write64 m destination v)) in
        if type = R_AARCH64_NONE then (True, s)
        else if type = R_AARCH64_RELATIVE then
          (case add_signed_offset (bias (memory_of img)) addend of None \<Rightarrow> (False, s) | Some v \<Rightarrow> put v)
        else if type = R_AARCH64_IRELATIVE then
          (case add_signed_offset (bias (memory_of img)) addend of
             None \<Rightarrow> (False, s)
           | Some resolver \<Rightarrow>
               if \<not> image_contains img resolver then (False, s) else put (invoke_ifunc env resolver))
        else if type = R_AARCH64_TLSDESC then
          (case resolve_tls_reference m img symbol_index addend of
             None \<Rightarrow> (False, s)
           | Some ref \<Rightarrow>
             if ref_unresolved_weak ref
             then (True, pages, write64 (write64 m destination (fn_yuki_tlsdesc_weak_entry env))
                     (destination + 8) (ref_byte_offset ref))
             else (case metadata_allocate ps mmap 24 8 (pages, m) of
                     (None, pages1, m1) \<Rightarrow> (False, pages1, m1)
                   | (Some cookie, pages1, m1) \<Rightarrow>
                     let m2 = write64 (write64 (write64 m1 cookie (ref_module_id ref))
                                (cookie + 8) (ref_byte_offset ref)) (cookie + 16) (ref_generation ref)
                     in (True, pages1, write64 (write64 m2 destination (fn_yuki_tlsdesc_dynamic_entry env))
                          (destination + 8) cookie)))
        else if type = R_AARCH64_TLS_DTPREL64 then
          (case resolve_tls_reference m img symbol_index addend of
             None \<Rightarrow> (False, s) | Some ref \<Rightarrow> put (ref_byte_offset ref))
        else if type = R_AARCH64_TLS_DTPMOD64 then
          (case resolve_tls_reference m img symbol_index addend of
             None \<Rightarrow> (False, s)
           | Some ref \<Rightarrow> put (if ref_unresolved_weak ref then 0 else ref_module_id ref))
        else if type = R_AARCH64_TLS_TPREL64 then
          (case resolve_tls_reference m img symbol_index addend of
             None \<Rightarrow> (False, s) | Some ref \<Rightarrow> if ref_unresolved_weak ref then put 0 else (False, s))
        else if type = R_AARCH64_ABS64 then
          (case resolve_symbol env m img symbol_index of
             None \<Rightarrow> (False, s)
           | Some a \<Rightarrow> (case add_signed_offset a addend of None \<Rightarrow> (False, s) | Some v \<Rightarrow> put v))
        else if type = R_AARCH64_GLOB_DAT \<or> type = R_AARCH64_JUMP_SLOT then
          (case resolve_symbol env m img symbol_index of None \<Rightarrow> (False, s) | Some a \<Rightarrow> put a)
        else (False, s))"

text \<open>The loop over the entries; each entry is read when its turn comes.\<close>

fun apply_relocations ::
  "sysenv \<Rightarrow> u64 \<Rightarrow> mmap_fn \<Rightarrow> ImageState \<Rightarrow> u64 \<Rightarrow> nat list \<Rightarrow> arena_mem \<Rightarrow> bool \<times> arena_mem" where
  "apply_relocations env ps mmap img ents [] s = (True, s)"
| "apply_relocations env ps mmap img ents (i # is) s =
     (case apply_relocation env ps mmap img (rela_at (snd s) (ents + 24 * of_nat i)) s of
        (False, s') \<Rightarrow> (False, s')
      | (True, s') \<Rightarrow> apply_relocations env ps mmap img ents is s')"

definition apply_relocation_span ::
  "sysenv \<Rightarrow> u64 \<Rightarrow> mmap_fn \<Rightarrow> ImageState \<Rightarrow> u64 \<Rightarrow> u64 \<Rightarrow> arena_mem \<Rightarrow> bool \<times> arena_mem" where
  "apply_relocation_span env ps mmap img ents bytes s =
     (if bytes = 0 then (True, s)
      else if ents = 0 \<or> bytes mod 24 \<noteq> 0 then (False, s)
      else apply_relocations env ps mmap img ents [0..<unat (bytes div 24)] s)"

definition patch_relative_word :: "ImageState \<Rightarrow> u64 \<Rightarrow> memory \<Rightarrow> bool \<times> memory" where
  "patch_relative_word img off m =
     (case runtime_pointer (memory_of img) 8 off 1 of
        None \<Rightarrow> (False, m)
      | Some w \<Rightarrow> (True, write64 m w (read64 m w + bias (memory_of img))))"

definition kBitmapBits :: nat where "kBitmapBits = 63"

fun relr_bits :: "ImageState \<Rightarrow> u64 \<Rightarrow> u64 \<Rightarrow> nat list \<Rightarrow> memory \<Rightarrow> bool \<times> memory" where
  "relr_bits img next_offset bitmap [] m = (True, m)"
| "relr_bits img next_offset bitmap (b # bs) m =
     (let displacement = of_nat b * 8 in
      if (bitmap AND push_bit b 1) \<noteq> 0 then
        (if next_offset > UINTPTR_MAX - displacement then (False, m)
         else case patch_relative_word img (next_offset + displacement) m of
                (False, m') \<Rightarrow> (False, m')
              | (True, m') \<Rightarrow> relr_bits img next_offset bitmap bs m')
      else relr_bits img next_offset bitmap bs m)"

fun relr_entries :: "ImageState \<Rightarrow> nat list \<Rightarrow> u64 \<Rightarrow> memory \<Rightarrow> bool \<times> memory" where
  "relr_entries img [] next_offset m = (True, m)"
| "relr_entries img (i # is) next_offset m =
     (let encoded = read64 m (relr (relocations img) + 8 * of_nat i) in
      if (encoded AND 1) = 0 then
        (case patch_relative_word img encoded m of
           (False, m') \<Rightarrow> (False, m')
         | (True, m') \<Rightarrow>
           if encoded > UINTPTR_MAX - 8 then (False, m') else relr_entries img is (encoded + 8) m')
      else
        (case relr_bits img next_offset (drop_bit 1 encoded) [0..<kBitmapBits] m of
           (False, m') \<Rightarrow> (False, m')
         | (True, m') \<Rightarrow>
           let kBitmapSpan = of_nat kBitmapBits * 8 in
           if next_offset > UINTPTR_MAX - kBitmapSpan then (False, m')
           else relr_entries img is (next_offset + kBitmapSpan) m'))"

definition apply_relr_span :: "ImageState \<Rightarrow> memory \<Rightarrow> bool \<times> memory" where
  "apply_relr_span img m =
     (let rl = relocations img in
      if relr_bytes rl = 0 then (True, m)
      else if relr rl = 0 \<or> relr_bytes rl mod 8 \<noteq> 0 then (False, m)
      else relr_entries img [0..<unat (relr_bytes rl div 8)] 0 m)"

definition relocate_image ::
  "sysenv \<Rightarrow> u64 \<Rightarrow> mmap_fn \<Rightarrow> ImageState \<Rightarrow> arena_mem \<Rightarrow> bool \<times> arena_mem" where
  "relocate_image env ps mmap img s =
     (case apply_relr_span img (snd s) of
        (False, m1) \<Rightarrow> (False, fst s, m1)
      | (True, m1) \<Rightarrow>
        (case apply_relocation_span env ps mmap img (rel (relocations img)) (rel_bytes (relocations img)) (fst s, m1) of
           (False, s2) \<Rightarrow> (False, s2)
         | (True, s2) \<Rightarrow>
           apply_relocation_span env ps mmap img (plt (relocations img)) (plt_bytes (relocations img)) s2))"

section \<open>Relative relocations against the reference decoding\<close>

text \<open>The reference reading of a RELR table on unbounded numbers: an even word is an address to patch,
  an odd word a bitmap of the 63 words that follow.\<close>

fun relr_decode :: "u64 list \<Rightarrow> nat \<Rightarrow> nat list" where
  "relr_decode [] next_word = []"
| "relr_decode (w # ws) next_word =
     (if even (unat w) then unat w # relr_decode ws (unat w + 8)
      else map (\<lambda>b. next_word + 8 * b) (filter (\<lambda>b. bit w (Suc b)) [0..<63]) @ relr_decode ws (next_word + 504))"

text \<open>The decoding stays inside the 64-bit address space.\<close>

fun relr_fits :: "u64 list \<Rightarrow> nat \<Rightarrow> bool" where
  "relr_fits [] next_word \<longleftrightarrow> True"
| "relr_fits (w # ws) next_word \<longleftrightarrow>
     (if even (unat w) then unat w + 8 < 2 ^ 64 \<and> relr_fits ws (unat w + 8)
      else next_word + 504 < 2 ^ 64 \<and> relr_fits ws (next_word + 504))"

fun patch_all :: "ImageState \<Rightarrow> u64 list \<Rightarrow> memory \<Rightarrow> bool \<times> memory" where
  "patch_all img [] m = (True, m)"
| "patch_all img (off # offs) m =
     (case patch_relative_word img off m of
        (False, m') \<Rightarrow> (False, m')
      | (True, m') \<Rightarrow> patch_all img offs m')"

lemma patch_all_append:
  "patch_all img (xs @ ys) m =
     (case patch_all img xs m of (False, m') \<Rightarrow> (False, m') | (True, m') \<Rightarrow> patch_all img ys m')"
  by (induction xs arbitrary: m) (auto split: prod.splits bool.splits)

lemma patch_word_read:
  assumes "word_apart (bias (memory_of img) + off) a" and "patch_relative_word img off m = (r, m')"
  shows "read64 m' a = read64 m a"
  using assms runtime_pointerD
  by (auto simp: patch_relative_word_def read64_write64_apart split: option.splits elim!: runtime_pointerD)

lemma patch_all_read:
  assumes "\<forall>off \<in> set offs. word_apart (bias (memory_of img) + off) a" and "patch_all img offs m = (r, m')"
  shows "read64 m' a = read64 m a"
  using assms
proof (induction offs arbitrary: m)
  case Nil
  then show ?case by simp
next
  case (Cons off offs)
  obtain r1 m1 where p: "patch_relative_word img off m = (r1, m1)" by fastforce
  have "read64 m1 a = read64 m a" using patch_word_read [OF _ p] Cons.prems(1) by simp
  with Cons p show ?case by (cases r1) auto
qed

lemma relr_bits_patch_all:
  assumes "\<forall>b \<in> set bs. b < 63" and "nxt + 504 < 2 ^ 64"
  shows "relr_bits img (of_nat nxt) (drop_bit 1 w) bs m =
    patch_all img (map of_nat (map (\<lambda>b. nxt + 8 * b) (filter (\<lambda>b. bit w (Suc b)) bs))) m"
  using assms(1)
proof (induction bs arbitrary: m)
  case Nil
  then show ?case by simp
next
  case (Cons b bs)
  have bit: "(drop_bit 1 w AND push_bit b 1) \<noteq> 0 \<longleftrightarrow> bit w (Suc b)"
    by (rule and_push_bit_iff)
  have b8: "unat (of_nat b * 8 :: u64) = 8 * b"
    using Cons.prems unat_of_nat_u64 [of "8 * b"] by (simp add: mult.commute)
  have "unat (of_nat nxt :: u64) = nxt" using assms(2) by (intro unat_of_nat_u64) simp
  then have nov: "\<not> (of_nat nxt :: u64) > UINTPTR_MAX - of_nat b * 8"
    unfolding gr_max_minus_u64 b8 using assms(2) Cons.prems by simp
  have addr: "(of_nat nxt + of_nat b * 8 :: u64) = of_nat (nxt + 8 * b)" by (simp add: mult.commute)
  have "relr_bits img (of_nat nxt) (drop_bit 1 w) (b # bs) m =
      (if bit w (Suc b)
       then (case patch_relative_word img (of_nat (nxt + 8 * b)) m of
               (False, m') \<Rightarrow> (False, m') | (True, m') \<Rightarrow> relr_bits img (of_nat nxt) (drop_bit 1 w) bs m')
       else relr_bits img (of_nat nxt) (drop_bit 1 w) bs m)"
    unfolding relr_bits.simps Let_def bit addr by (simp only: nov if_False)
  with Cons show ?case
    by (cases "patch_relative_word img (of_nat (nxt + 8 * b)) m"; cases "fst (patch_relative_word img (of_nat (nxt + 8 * b)) m)")
      (simp_all del: of_nat_add of_nat_mult)
qed

lemma relr_entries_patch_all:
  assumes "\<forall>i \<in> set is. read64 m (relr (relocations img) + 8 * of_nat i) = W i"
    and "\<forall>off \<in> set (relr_decode (map W is) nxt). \<forall>i \<in> set is.
       word_apart (bias (memory_of img) + of_nat off) (relr (relocations img) + 8 * of_nat i)"
    and "relr_fits (map W is) nxt"
  shows "relr_entries img is (of_nat nxt) m = patch_all img (map of_nat (relr_decode (map W is) nxt)) m"
  using assms
proof (induction "is" arbitrary: m nxt)
  case Nil
  then show ?case by simp
next
  case (Cons i "is")
  let ?w = "W i" and ?a = "\<lambda>i. relr (relocations img) + 8 * of_nat i"
  have enc: "read64 m (?a i) = ?w" using Cons.prems(1) by simp
  have parity: "(?w AND 1) = 0 \<longleftrightarrow> even (unat ?w)"
    by (rule and_one_even)
  show ?case
  proof (cases "even (unat ?w)")
    case True
    obtain r m1 where p: "patch_relative_word img ?w m = (r, m1)" by fastforce
    have ofw: "of_nat (unat ?w) = ?w" by simp
    have keep: "\<forall>j \<in> set is. read64 m1 (?a j) = W j"
      using Cons.prems(1,2) True patch_word_read [OF _ p] by (auto simp: ofw)
    have fits: "unat ?w + 8 < 2 ^ 64" "relr_fits (map W is) (unat ?w + 8)" using Cons.prems(3) True by auto
    have "relr_entries img is (of_nat (unat ?w + 8)) m1 = patch_all img (map of_nat (relr_decode (map W is) (unat ?w + 8))) m1"
      by (rule Cons.IH [OF keep _ fits(2)]) (use Cons.prems(2) True in auto)
    moreover have "of_nat (unat ?w + 8) = ?w + 8" by simp
    moreover have "\<not> ?w > UINTPTR_MAX - 8"
    proof -
      have u8: "unat (8 :: u64) = 8" by simp
      show ?thesis unfolding gr_max_minus_u64 u8 using fits(1) by linarith
    qed
    ultimately show ?thesis
      using True by (cases r) (simp_all add: enc parity p)
  next
    case False
    let ?bits = "map (\<lambda>b. nxt + 8 * b) (filter (\<lambda>b. bit ?w (Suc b)) [0..<63])"
    obtain r m1 where p: "patch_all img (map of_nat ?bits) m = (r, m1)" by fastforce
    have fits: "nxt + 504 < 2 ^ 64" "relr_fits (map W is) (nxt + 504)" using Cons.prems(3) False by auto
    have bits: "relr_bits img (of_nat nxt) (drop_bit 1 ?w) [0..<63] m = (r, m1)"
      using relr_bits_patch_all [OF _ fits(1), of "[0..<63]" img ?w m] p by auto
    have dec: "relr_decode (map W (i # is)) nxt = ?bits @ relr_decode (map W is) (nxt + 504)"
      using False by simp
    have keep: "\<forall>j \<in> set is. read64 m1 (?a j) = W j"
    proof
      fix j assume j: "j \<in> set is"
      have "\<forall>off \<in> set ?bits. word_apart (bias (memory_of img) + of_nat off) (?a j)"
        using Cons.prems(2) j unfolding dec set_append by (metis UnI1 list.set_intros(2))
      then have "\<forall>off \<in> set (map of_nat ?bits). word_apart (bias (memory_of img) + off) (?a j)"
        unfolding set_map [of of_nat ?bits] by blast
      from patch_all_read [OF this p] show "read64 m1 (?a j) = W j" using Cons.prems(1) j by simp
    qed
    have IH: "relr_entries img is (of_nat (nxt + 504)) m1 =
        patch_all img (map of_nat (relr_decode (map W is) (nxt + 504))) m1"
      by (rule Cons.IH [OF keep _ fits(2)]) (use Cons.prems(2) in \<open>unfold dec, auto\<close>)
    have "unat (of_nat nxt :: u64) = nxt" using fits(1) by (intro unat_of_nat_u64) simp
    then have nov: "\<not> (of_nat nxt :: u64) > UINTPTR_MAX - 504"
      unfolding gr_max_minus_u64 using fits(1) by simp
    have "relr_entries img (i # is) (of_nat nxt) m =
        (case (r, m1) of (False, m') \<Rightarrow> (False, m') | (True, m') \<Rightarrow> relr_entries img is (of_nat nxt + 504) m')"
      using False nov bits by (simp add: enc parity kBitmapBits_def split: bool.split)
    moreover have "of_nat nxt + 504 = (of_nat (nxt + 504) :: u64)" by simp
    ultimately show ?thesis
      unfolding dec map_append patch_all_append p by (cases r) (simp_all add: IH del: of_nat_add)
  qed
qed

text \<open>The words of the image's RELR table.\<close>

definition relr_words :: "ImageState \<Rightarrow> memory \<Rightarrow> u64 list" where
  "relr_words img m = map (\<lambda>i. read64 m (relr (relocations img) + 8 * of_nat i))
     [0..<unat (relr_bytes (relocations img) div 8)]"

definition relr_offsets :: "ImageState \<Rightarrow> memory \<Rightarrow> nat list" where
  "relr_offsets img m = relr_decode (relr_words img m) 0"

text \<open>No word to patch is a word of the table.\<close>

definition relr_separate :: "ImageState \<Rightarrow> memory \<Rightarrow> bool" where
  "relr_separate img m \<longleftrightarrow> (\<forall>off \<in> set (relr_offsets img m). \<forall>i < unat (relr_bytes (relocations img) div 8).
     word_apart (bias (memory_of img) + of_nat off) (relr (relocations img) + 8 * of_nat i))"

lemma apply_relr_span_patch_all:
  assumes "relr (relocations img) \<noteq> 0" and "relr_bytes (relocations img) mod 8 = 0"
    and "relr_fits (relr_words img m) 0" and "relr_separate img m"
  shows "apply_relr_span img m = patch_all img (map of_nat (relr_offsets img m)) m"
proof (cases "relr_bytes (relocations img) = 0")
  case True
  then show ?thesis by (simp add: apply_relr_span_def relr_offsets_def relr_words_def)
next
  case False
  have "relr_entries img [0..<unat (relr_bytes (relocations img) div 8)] (of_nat 0) m =
      patch_all img (map of_nat (relr_offsets img m)) m"
    unfolding relr_offsets_def relr_words_def
    by (rule relr_entries_patch_all) (use assms(3,4) in \<open>auto simp: relr_separate_def relr_offsets_def relr_words_def\<close>)
  with False assms(1,2) show ?thesis by (simp add: apply_relr_span_def)
qed

lemma patch_all_effect:
  assumes "patch_all img offs m = (True, m')" and "space_ok (memory_of img)"
    and "sorted_wrt (\<lambda>a b. word_apart (bias (memory_of img) + a) (bias (memory_of img) + b)) offs"
  shows "(\<forall>off \<in> set offs. bytes_inside (memory_of img) (bias (memory_of img) + off) 8 \<and>
       read64 m' (bias (memory_of img) + off) = read64 m (bias (memory_of img) + off) + bias (memory_of img)) \<and>
    (\<forall>x. (\<forall>off \<in> set offs. \<not> in_range (bias (memory_of img) + off) 8 x) \<longrightarrow> m' x = m x)"
  using assms(1,3)
proof (induction offs arbitrary: m)
  case Nil
  then show ?case by simp
next
  case (Cons off offs)
  let ?b = "bias (memory_of img)"
  from Cons.prems(1) obtain m1 where p: "patch_relative_word img off m = (True, m1)"
    and rest: "patch_all img offs m1 = (True, m')"
    by (cases "patch_relative_word img off m") (auto split: bool.splits)
  then obtain w where w: "runtime_pointer (memory_of img) 8 off 1 = Some w"
    and m1: "m1 = write64 m w (read64 m w + ?b)"
    by (auto simp: patch_relative_word_def split: option.splits)
  from w obtain bytes where wb: "w = ?b + off" "address_space_contains (memory_of img) w bytes" "unat bytes = 8"
    by (elim runtime_pointerD) simp
  have inside: "bytes_inside (memory_of img) (?b + off) 8"
    using contains_in_image [OF assms(2) wb(2)] wb by (auto simp: bytes_inside_def)
  have apart: "\<forall>o' \<in> set offs. word_apart (?b + off) (?b + o')" and srt: "sorted_wrt (\<lambda>a b. word_apart (?b + a) (?b + b)) offs"
    using Cons.prems(2) by simp_all
  note IH = Cons.IH [OF rest srt]
  have "read64 m' (?b + off) = read64 m1 (?b + off)"
    by (rule patch_all_read [OF _ rest]) (use apart word_apart_sym in blast)
  then have first: "read64 m' (?b + off) = read64 m (?b + off) + ?b" by (simp add: m1 wb(1))
  have others: "read64 m' (?b + o') = read64 m (?b + o') + ?b" if "o' \<in> set offs" for o'
    using IH that apart by (simp add: m1 wb(1) read64_write64_apart)
  show ?case
    using IH inside first others by (auto simp: m1 wb(1) write64_frame)
qed

text \<open>C17: Compressed relative relocations are applied as the format says: when no entry overlaps the
  table itself or leaves the address space, \<open>apply_relr_span\<close> patches exactly the words the reference
  decoding of the table lists, in its order, and stops with failure at the first one outside the
  image.\<close>

theorem relr_equals_reference:
  assumes "relr (relocations img) \<noteq> 0" and "relr_bytes (relocations img) mod 8 = 0"
    and "relr_fits (relr_words img m) 0" and "relr_separate img m"
  shows "apply_relr_span img m = patch_all img (map of_nat (relr_offsets img m)) m"
  by (rule apply_relr_span_patch_all [OF assms])

text \<open>Every listed word is rebased exactly once: after a successful \<open>apply_relr_span\<close> with pairwise
  disjoint entries, each of them holds its old value plus the load bias, all of them are inside the
  image, and no other byte of memory is changed.\<close>

lemma relr_rebases_once:
  assumes "relr (relocations img) \<noteq> 0" and "relr_bytes (relocations img) mod 8 = 0"
    and "relr_fits (relr_words img m) 0" and "relr_separate img m" and "space_ok (memory_of img)"
    and "sorted_wrt (\<lambda>a b. word_apart (bias (memory_of img) + of_nat a) (bias (memory_of img) + of_nat b)) (relr_offsets img m)"
    and "apply_relr_span img m = (True, m')"
  shows "(\<forall>off \<in> set (relr_offsets img m). bytes_inside (memory_of img) (bias (memory_of img) + of_nat off) 8 \<and>
       read64 m' (bias (memory_of img) + of_nat off) =
       read64 m (bias (memory_of img) + of_nat off) + bias (memory_of img)) \<and>
    (\<forall>x. (\<forall>off \<in> set (relr_offsets img m). \<not> in_range (bias (memory_of img) + of_nat off) 8 x) \<longrightarrow> m' x = m x)"
proof -
  have "patch_all img (map of_nat (relr_offsets img m)) m = (True, m')"
    using apply_relr_span_patch_all [OF assms(1-4)] assms(7) by simp
  moreover have "sorted_wrt (\<lambda>a b. word_apart (bias (memory_of img) + a) (bias (memory_of img) + b))
      (map of_nat (relr_offsets img m))"
    using assms(6) by (simp add: sorted_wrt_map)
  ultimately show ?thesis using patch_all_effect [OF _ assms(5)] by auto
qed

section \<open>What one relocation writes\<close>

lemma write64_cases: "write64 m a v x \<noteq> m x \<Longrightarrow> in_range a 8 x"
  using write64_frame by metis

lemma in_range_shift:
  fixes a :: u64
  assumes "in_range (a + of_nat k) n x" and "k + n \<le> j" and "j \<le> 2 ^ 64"
  shows "in_range a j x"
  using assms by (elim in_range_within) simp_all

lemma cookie_writes:
  assumes "metadata_allocate ps mmap 24 8 (pages, m) = (Some c, pages1, m1)"
    and "write64 (write64 (write64 m1 c v0) (c + 8) v1) (c + 16) v2 x \<noteq> m x"
  shows "in_range c 24 x"
proof (rule ccontr)
  assume out: "\<not> in_range c 24 x"
  have "\<not> in_range c 8 x" "\<not> in_range (c + 8) 8 x" "\<not> in_range (c + 16) 8 x"
    using out in_range_shift [of c 0 8 x 24] in_range_shift [of c 8 8 x 24] in_range_shift [of c 16 8 x 24]
    by auto
  moreover have "m1 x = m x"
    using out metadata_allocate_memory [OF assms(1)] by (simp add: write_bytes_frame)
  ultimately show False using assms(2) by (simp add: write64_frame)
qed

lemma destination_inside:
  assumes "space_ok (memory_of img)" and "relocation_destination img off = Some d"
  shows "bytes_inside (memory_of img) d 8"
proof -
  from assms(2) obtain bytes where "address_space_contains (memory_of img) d bytes" "unat bytes = 8"
    unfolding relocation_destination_def by (elim runtime_pointerD) simp
  with contains_in_image [OF assms(1)] show ?thesis by (auto simp: bytes_inside_def)
qed

text \<open>C34: A relocation writes only where it may: every byte that \<open>apply_relocation\<close> changes lies inside
  the image, or in a fresh 24-byte descriptor cookie of the metadata arena, or, for a TLS descriptor
  only, in the second word of the descriptor at the destination; a relocation that fails changes
  nothing.\<close>

theorem apply_relocation_writes:
  assumes ok: "space_ok (memory_of img)"
    and run: "apply_relocation env ps mmap img r (pages, m) = (res, pages', m')"
  shows "(\<not> res \<longrightarrow> m' = m \<and> pages' = pages) \<and>
    (\<exists>c. \<forall>x. m' x \<noteq> m x \<longrightarrow> in_image (memory_of img) x \<or>
       relocation_type r = R_AARCH64_TLSDESC \<and> (in_range c 24 x \<or>
         (\<exists>d. relocation_destination img (r_offset r) = Some d \<and> in_range (d + 8) 8 x)))"
proof (cases "relocation_destination img (r_offset r)")
  case None
  with run show ?thesis by (simp add: apply_relocation_def)
next
  case (Some d)
  have inside: "in_image (memory_of img) x" if "in_range d 8 x" for x
    using destination_inside [OF ok Some] that by (simp add: bytes_inside_def)
  have put: "in_image (memory_of img) x" if "write64 m d v x \<noteq> m x" for v x
    using inside write64_cases [OF that] .
  show ?thesis
  proof (cases "relocation_type r = R_AARCH64_TLSDESC")
    case False
    with run Some have "(\<not> res \<longrightarrow> m' = m \<and> pages' = pages) \<and> (m' = m \<or> (\<exists>v. m' = write64 m d v))"
      unfolding apply_relocation_def Let_def prod.case
      by (simp split: if_split_asm option.split_asm; blast)
    then show ?thesis using put by blast
  next
    case True
    consider (same) "m' = m" "\<not> res \<longrightarrow> pages' = pages"
      | (weak) v w where "res" "m' = write64 (write64 m d v) (d + 8) w"
      | (cookie) c pages1 m1 v0 v1 v2 v w where "res" "metadata_allocate ps mmap 24 8 (pages, m) = (Some c, pages1, m1)"
        "m' = write64 (write64 (write64 (write64 (write64 m1 c v0) (c + 8) v1) (c + 16) v2) d v) (d + 8) w"
    proof (cases "resolve_tls_reference m img (relocation_symbol r) (relocation_addend r)")
      case None
      then show thesis using run True Some same by (simp add: apply_relocation_def Let_def)
    next
      case ref: (Some ref)
      show thesis
      proof (cases "ref_unresolved_weak ref")
        case w: True
        have "res" "m' = write64 (write64 m d (fn_yuki_tlsdesc_weak_entry env)) (d + 8) (ref_byte_offset ref)"
          using run True Some ref w by (simp_all add: apply_relocation_def Let_def)
        then show thesis by (rule weak)
      next
        case w: False
        obtain a pages1 m1 where al: "metadata_allocate ps mmap 24 8 (pages, m) = (a, pages1, m1)"
          by (metis prod_cases3)
        show thesis
        proof (cases a)
          case None
          then show thesis using metadata_allocate_fails [of ps mmap 24 8 pages m pages1 m1] run True Some ref w al same
            by (simp add: apply_relocation_def Let_def)
        next
          case c: (Some c)
          have "res" "m' = write64 (write64 (write64 (write64 (write64 m1 c (ref_module_id ref)) (c + 8)
              (ref_byte_offset ref)) (c + 16) (ref_generation ref)) d (fn_yuki_tlsdesc_dynamic_entry env)) (d + 8) c"
            using run True Some ref w al c by (simp_all add: apply_relocation_def Let_def)
          with cookie al c show thesis by blast
        qed
      qed
    qed
    then show ?thesis
    proof cases
      case same
      then show ?thesis by blast
    next
      case (weak v w)
      have "in_image (memory_of img) x \<or> in_range (d + 8) 8 x" if "m' x \<noteq> m x" for x
        using that weak(2) inside write64_cases by metis
      with weak(1) True Some show ?thesis by blast
    next
      case (cookie c pages1 m1 v0 v1 v2 v w)
      have "in_image (memory_of img) x \<or> in_range (d + 8) 8 x \<or> in_range c 24 x" if "m' x \<noteq> m x" for x
        using that cookie(3) inside write64_cases cookie_writes [OF cookie(2)] by metis
      with cookie(1) True Some show ?thesis by blast
    qed
  qed
qed
section \<open>Concrete relocations\<close>

definition demo_env :: sysenv where
  "demo_env = \<lparr>se_dlopen = (\<lambda>_. 0), se_dlsym = (\<lambda>_ _. 0), se_dlsym_default = (\<lambda>_. 0), se_ifunc = id,
     fn_dl_iterate_phdr_hook = 0x100, fn_module_cxa_atexit = 0x200, fn_module_cxa_finalize = 0x300,
     fn_yuki_thread_atexit_noop = 0x400, fn_yuki_tls_get_addr = 0x500, fn_yuki_tlsdesc_weak_entry = 0x600,
     fn_yuki_tlsdesc_dynamic_entry = 0x700\<rparr>"

lemma demo_space: "space_ok (memory_of demo_image)" "bias (memory_of demo_image) = 0x10000"
  by (simp_all add: demo_image_def space_ok_def)

lemma demo_destination:
  "relocation_destination demo_image 0x20 = Some 0x10020" "relocation_destination demo_image 0xff8 = Some 0x10ff8"
  by (simp_all add: relocation_destination_def runtime_pointer_def multiply_overflow_def demo_image_def
      address_space_contains_def)

theorem apply_relocation_writes_witness:
  "space_ok (memory_of demo_image) \<and>
   apply_relocation demo_env 4096 mmap_once demo_image \<lparr>r_offset = 0x20, r_info = 1027, r_addend = 0x44\<rparr> ([], \<lambda>_. 0) =
     (True, [], write64 (\<lambda>_. 0) 0x10020 0x10044) \<and>
   write64 (\<lambda>_. 0) 0x10020 0x10044 0x10030 = 0"
proof -
  have run: "apply_relocation demo_env 4096 mmap_once demo_image \<lparr>r_offset = 0x20, r_info = 1027, r_addend = 0x44\<rparr> ([], \<lambda>_. 0) =
     (True, [], write64 (\<lambda>_. 0) 0x10020 0x10044)"
    by (simp add: apply_relocation_def relocation_type_def relocation_addend_def demo_destination demo_space
        add_signed_offset_def Let_def)
  have "\<not> in_range (0x10020 :: u64) 8 0x10030" by (simp add: in_range_def)
  then have "write64 (\<lambda>_. 0) 0x10020 0x10044 0x10030 = 0" by (simp add: write64_frame)
  with run apply_relocation_writes [OF demo_space(1) run] demo_space show ?thesis by blast
qed

text \<open>A weak undefined symbol at index 1 of the table.\<close>

definition demo_weak_tls :: memory where
  "demo_weak_tls = write_bytes (\<lambda>_. 0) 0x10118 [0, 0, 0, 0, 0x20, 0, 0, 0]"

text \<open>The bounds check of a relocation covers one word, and a TLS descriptor has two: a descriptor
  whose first word is the last word of the image is accepted, and its second word is written behind the
  image.\<close>

lemma tlsdesc_overruns_image:
  "\<exists>m'. apply_relocation demo_env 4096 mmap_once
       (demo_symtab_image\<lparr>symbols := (symbols demo_symtab_image)\<lparr>sym_count := 2\<rparr>\<rparr>)
       \<lparr>r_offset = 0xff8, r_info = 0x100000407, r_addend = 5\<rparr> ([], demo_weak_tls) = (True, [], m') \<and>
     \<not> in_image (memory_of demo_image) 0x11000 \<and> m' 0x11000 = 5 \<and> demo_weak_tls 0x11000 = 0"
proof -
  let ?img = "demo_symtab_image\<lparr>symbols := (symbols demo_symtab_image)\<lparr>sym_count := 2\<rparr>\<rparr>"
  have sy: "sym_at demo_weak_tls 0x10118 =
      \<lparr>st_name = 0, st_info = 0x20, st_other = 0, st_shndx = 0, st_value = 0, st_size = 0\<rparr>"
    by (simp add: sym_at_def demo_weak_tls_def read_bytes_def write_bytes_def upt_rec get32_def get16_def get64_def unat_max)
  have "relocation_destination ?img 0xff8 = relocation_destination demo_image 0xff8"
    by (simp add: relocation_destination_def demo_symtab_image_def)
  then have dest: "relocation_destination ?img 0xff8 = Some 0x10ff8" by (simp add: demo_destination)
  have at: "symbol_at ?img 1 = Some 0x10118"
    by (simp add: symbol_at_def symbol_address_def demo_symtab_image_def word_less_nat_alt)
  have ref: "resolve_tls_reference demo_weak_tls ?img 1 5 =
      Some \<lparr>ref_module_id = 0, ref_byte_offset = 5, ref_generation = 0, ref_unresolved_weak = True\<rparr>"
    unfolding resolve_tls_reference_def at by (simp add: sy st_bind_def)
  have run: "apply_relocation demo_env 4096 mmap_once ?img \<lparr>r_offset = 0xff8, r_info = 0x100000407, r_addend = 5\<rparr>
      ([], demo_weak_tls) = (True, [], write64 (write64 demo_weak_tls 0x10ff8 0x600) 0x11000 5)"
    by (simp add: apply_relocation_def relocation_type_def relocation_symbol_def relocation_addend_def dest ref
        demo_env_def Let_def)
  have "write64 (write64 demo_weak_tls 0x10ff8 0x600) 0x11000 5 0x11000 = 5" "demo_weak_tls 0x11000 = 0"
    by (simp_all add: write64_first demo_weak_tls_def write_bytes_def)
  moreover have "\<not> in_image (memory_of demo_image) 0x11000" by (simp add: in_image_def in_range_def demo_image_def)
  ultimately show ?thesis using run by blast
qed

text \<open>A RELR table of two words at \<open>0x10100\<close>: the word at \<open>0x20\<close>, then the words at \<open>0x28\<close> and \<open>0x38\<close>.\<close>

definition demo_relr_image :: ImageState where
  "demo_relr_image = demo_image\<lparr>relocations := (relocations demo_image)\<lparr>relr := 0x10100, relr_bytes := 16\<rparr>\<rparr>"

definition demo_relr :: memory where
  "demo_relr = write_bytes (write_bytes (\<lambda>_. 0) 0x10100 [0x20, 0, 0, 0, 0, 0, 0, 0, 0xb, 0, 0, 0, 0, 0, 0, 0]) 0x10028 [7]"

lemma demo_relr_words: "relr_words demo_relr_image demo_relr = [0x20, 0xb]"
  by (simp add: relr_words_def demo_relr_image_def upt_rec demo_relr_def read64_def read_bytes_def write_bytes_def)

lemma demo_relr_offsets: "relr_offsets demo_relr_image demo_relr = [0x20, 0x28, 0x38]"
  by (simp add: relr_offsets_def demo_relr_words upt_rec)

lemma demo_relr_fields: "relr (relocations demo_relr_image) = 0x10100"
  "relr_bytes (relocations demo_relr_image) = 16" "bias (memory_of demo_relr_image) = 0x10000"
  by (simp_all add: demo_relr_image_def demo_space)

lemma demo_relr_apart:
  "a + 8 \<le> b \<or> b + 8 \<le> a \<Longrightarrow> a < 4096 \<Longrightarrow> b < 4096 \<Longrightarrow> word_apart (0x10000 + of_nat a) (0x10000 + of_nat b)"
  by (rule word_apart_offset) simp_all

lemma demo_relr_separate: "relr_separate demo_relr_image demo_relr"
proof -
  have two: "i = 0 \<or> i = 1" if "i < 2" for i :: nat using that by auto
  have "word_apart (0x10000 + of_nat off) (0x10000 + of_nat (0x100 + 8 * i))"
    if "off \<in> {0x20, 0x28, 0x38}" "i < 2" for off i :: nat
    by (rule demo_relr_apart) (use that two in auto)
  then show ?thesis unfolding relr_separate_def demo_relr_offsets demo_relr_fields by simp
qed

lemma demo_relr_hyps:
  "relr (relocations demo_relr_image) \<noteq> 0" "relr_bytes (relocations demo_relr_image) mod 8 = 0"
  "relr_fits (relr_words demo_relr_image demo_relr) 0"
  unfolding demo_relr_words by (simp_all add: demo_relr_image_def)

theorem relr_equals_reference_witness:
  "relr_separate demo_relr_image demo_relr \<and> relr_fits (relr_words demo_relr_image demo_relr) 0 \<and>
   apply_relr_span demo_relr_image demo_relr = patch_all demo_relr_image [0x20, 0x28, 0x38] demo_relr"
  using relr_equals_reference [OF demo_relr_hyps demo_relr_separate] demo_relr_separate demo_relr_hyps(3)
  by (simp add: demo_relr_offsets)

end
