(* ===== verification/Image_Registry.thy ===== *)
theory Image_Registry
  imports Yz_Prelude
begin

text \<open>
  The doubly linked registry of loaded images (\<^verbatim>\<open>g_first_image\<close>, \<^verbatim>\<open>g_last_image\<close> and the
  \<^verbatim>\<open>previous\<close>/\<^verbatim>\<open>next\<close> fields of \<^verbatim>\<open>ImageState\<close> in \<^verbatim>\<open>yukilinker.cpp\<close>).  An image is
  named by its address, 0 is the null pointer, and the two link fields are maps over addresses, so
  aliasing is as in the code.  The list abstraction \<open>dl_rep\<close> says which images are registered and in
  which order; the locale \<open>image_list\<close> is what the users of the registry (exit callbacks,
  \<^verbatim>\<open>dl_iterate_phdr\<close>) rely on.
\<close>

section \<open>Definitions\<close>

record registry =
  previous_of :: "u64 \<Rightarrow> u64"
  next_of :: "u64 \<Rightarrow> u64"
  g_first_image :: u64
  g_last_image :: u64

definition empty_registry :: registry where
  "empty_registry = \<lparr>previous_of = (\<lambda>_. 0), next_of = (\<lambda>_. 0), g_first_image = 0, g_last_image = 0\<rparr>"

definition register_image :: "u64 \<Rightarrow> registry \<Rightarrow> registry" where
  "register_image img r =
     (let r1 = r\<lparr>previous_of := (previous_of r)(img := g_last_image r)\<rparr>;
          r2 = r1\<lparr>next_of := (next_of r1)(img := 0)\<rparr>;
          r3 = (if g_last_image r2 \<noteq> 0
                then r2\<lparr>next_of := (next_of r2)(g_last_image r2 := img)\<rparr>
                else r2\<lparr>g_first_image := img\<rparr>)
      in r3\<lparr>g_last_image := img\<rparr>)"

definition unregister_image :: "u64 \<Rightarrow> registry \<Rightarrow> registry" where
  "unregister_image img r =
     (let r1 = (if previous_of r img \<noteq> 0
                then r\<lparr>next_of := (next_of r)(previous_of r img := next_of r img)\<rparr>
                else if g_first_image r = img then r\<lparr>g_first_image := next_of r img\<rparr> else r);
          r2 = (if next_of r1 img \<noteq> 0
                then r1\<lparr>previous_of := (previous_of r1)(next_of r1 img := previous_of r1 img)\<rparr>
                else if g_last_image r1 = img then r1\<lparr>g_last_image := previous_of r1 img\<rparr> else r1);
          r3 = r2\<lparr>previous_of := (previous_of r2)(img := 0)\<rparr>
      in r3\<lparr>next_of := (next_of r3)(img := 0)\<rparr>)"

text \<open>The loop \<^verbatim>\<open>for (image = g_first_image; image != nullptr; image = image->next)\<close>: the images it
  visits.  It may not end on a cyclic list, so not returning is \<open>None\<close>.\<close>

partial_function (option) walk_images :: "registry \<Rightarrow> u64 \<Rightarrow> u64 list option" where
  "walk_images r img =
     (if img = 0 then Some []
      else Option.bind (walk_images r (next_of r img)) (\<lambda>rest. Some (img # rest)))"

text \<open>The same loop with an early exit at the first image that satisfies \<open>P\<close>; 0 when there is none.\<close>

partial_function (option) find_image :: "(u64 \<Rightarrow> bool) \<Rightarrow> registry \<Rightarrow> u64 \<Rightarrow> u64 option" where
  "find_image P r img =
     (if img = 0 then Some 0 else if P img then Some img
      else find_image P r (next_of r img))"

section \<open>The contract of the registry\<close>

locale image_list =
  fixes empty :: 's
    and add :: "u64 \<Rightarrow> 's \<Rightarrow> 's"
    and del :: "u64 \<Rightarrow> 's \<Rightarrow> 's"
    and walk :: "'s \<Rightarrow> u64 list option"
    and search :: "(u64 \<Rightarrow> bool) \<Rightarrow> 's \<Rightarrow> u64 option"
    and rep :: "'s \<Rightarrow> u64 list \<Rightarrow> bool"
  assumes rep_empty: "rep empty []"
    and rep_add: "rep s xs \<Longrightarrow> x \<noteq> 0 \<Longrightarrow> x \<notin> set xs \<Longrightarrow> rep (add x s) (xs @ [x])"
    and rep_del: "rep s xs \<Longrightarrow> x \<in> set xs \<Longrightarrow> rep (del x s) (remove1 x xs)"
    and rep_walk: "rep s xs \<Longrightarrow> walk s = Some xs"
    and rep_search: "rep s xs \<Longrightarrow>
      search P s = Some (case find P xs of None \<Rightarrow> 0 | Some x \<Rightarrow> x)"
begin

lemma rep_functional: "rep s xs \<Longrightarrow> rep s ys \<Longrightarrow> xs = ys"
  by (metis option.inject rep_walk)

lemma walk_add: "rep s xs \<Longrightarrow> x \<noteq> 0 \<Longrightarrow> x \<notin> set xs \<Longrightarrow> walk (add x s) = Some (xs @ [x])"
  using rep_add rep_walk by blast

lemma walk_del: "rep s xs \<Longrightarrow> x \<in> set xs \<Longrightarrow> walk (del x s) = Some (remove1 x xs)"
  using rep_del rep_walk by blast

lemma add_del: "rep s xs \<Longrightarrow> x \<noteq> 0 \<Longrightarrow> x \<notin> set xs \<Longrightarrow> walk (del x (add x s)) = Some xs"
  using walk_del [OF rep_add] by (simp add: remove1_append)

end

section \<open>The linked list provides the contract\<close>

primrec dseg :: "registry \<Rightarrow> u64 \<Rightarrow> u64 list \<Rightarrow> u64 \<Rightarrow> bool" where
  "dseg r p [] q = True"
| "dseg r p (x # xs) q =
     (x \<noteq> 0 \<and> previous_of r x = p \<and> next_of r x = hd (xs @ [q]) \<and> dseg r x xs q)"

definition dl_rep :: "registry \<Rightarrow> u64 list \<Rightarrow> bool" where
  "dl_rep r xs \<longleftrightarrow> distinct xs \<and> dseg r 0 xs 0 \<and>
     g_first_image r = hd (xs @ [0]) \<and> g_last_image r = last (0 # xs)"

lemma dseg_append:
  "dseg r p (xs @ ys) q \<longleftrightarrow> dseg r p xs (hd (ys @ [q])) \<and> dseg r (last (p # xs)) ys q"
  by (induction xs arbitrary: p) (auto simp: hd_append)

lemma dseg_nonzero: "dseg r p xs q \<Longrightarrow> 0 \<notin> set xs"
  by (induction xs arbitrary: p) auto

lemma dseg_cong:
  "(\<And>x. x \<in> set xs \<Longrightarrow> previous_of r' x = previous_of r x \<and> next_of r' x = next_of r x) \<Longrightarrow>
   dseg r' p xs q = dseg r p xs q"
  by (induction xs arbitrary: p) auto

lemma dl_rep_register:
  assumes "dl_rep r xs" and "x \<noteq> 0" and "x \<notin> set xs"
  shows "dl_rep (register_image x r) (xs @ [x])"
proof (cases xs rule: rev_cases)
  case Nil
  with assms show ?thesis by (auto simp: dl_rep_def register_image_def Let_def)
next
  case (snoc ys y)
  with assms have y: "y \<noteq> 0" "g_last_image r = y" "x \<noteq> y" and ys: "dseg r 0 ys y"
    and d: "distinct ys" "y \<notin> set ys" "x \<notin> set ys" and first: "g_first_image r = hd (ys @ [y])"
    and py: "previous_of r y = last (0 # ys)"
    by (auto simp: dl_rep_def dseg_append hd_append)
  have "dseg (register_image x r) 0 ys y"
    using ys d y by (subst dseg_cong [of _ _ r]) (auto simp: register_image_def Let_def)
  with y d first py snoc assms(2,3) show ?thesis
    by (auto simp: dl_rep_def dseg_append register_image_def Let_def hd_append)
qed

lemma unregister_fields:
  assumes "previous_of r x \<noteq> x" and "next_of r x \<noteq> x"
  shows "next_of (unregister_image x r) y =
      (if y = x then 0 else if y = previous_of r x \<and> y \<noteq> 0 then next_of r x else next_of r y)"
    and "previous_of (unregister_image x r) y =
      (if y = x then 0 else if y = next_of r x \<and> y \<noteq> 0 then previous_of r x else previous_of r y)"
    and "g_first_image (unregister_image x r) =
      (if previous_of r x = 0 \<and> g_first_image r = x then next_of r x else g_first_image r)"
    and "g_last_image (unregister_image x r) =
      (if next_of r x = 0 \<and> g_last_image r = x then previous_of r x else g_last_image r)"
  using assms by (auto simp: unregister_image_def Let_def)

lemma dl_rep_unregister:
  assumes "dl_rep r xs" and "x \<in> set xs"
  shows "dl_rep (unregister_image x r) (remove1 x xs)"
proof -
  from assms(2) obtain as bs where xs: "xs = as @ x # bs" by (meson split_list)
  with assms(1) have dis: "distinct as" "distinct bs" "x \<notin> set as" "x \<notin> set bs"
      "set as \<inter> set bs = {}" and x0: "x \<noteq> 0"
    and seg: "dseg r 0 as x" "dseg r x bs 0" and px: "previous_of r x = last (0 # as)"
    and nx: "next_of r x = hd (bs @ [0])"
    and ends: "g_first_image r = hd (as @ [x])" "g_last_image r = last (x # bs)"
    by (auto simp: dl_rep_def dseg_append hd_append)
  have z: "0 \<notin> set as" "0 \<notin> set bs" using seg dseg_nonzero by blast+
  have ne: "previous_of r x \<noteq> x" "next_of r x \<noteq> x"
    using px nx x0 dis by (auto simp: hd_append split: if_splits dest: last_in_set)
  note f = unregister_fields [OF ne, unfolded px nx]
  let ?r = "unregister_image x r"
  have as: "dseg ?r 0 as (hd (bs @ [0]))"
  proof (cases as rule: rev_cases)
    case (snoc as' a)
    have out: "y \<noteq> x \<and> y \<noteq> a \<and> y \<noteq> hd (bs @ [0])" if "y \<in> set as'" for y
      using that snoc dis z by (cases bs) auto
    have "dseg ?r 0 as' a \<longleftrightarrow> dseg r 0 as' a" by (rule dseg_cong) (use out in \<open>simp add: f snoc\<close>)
    moreover have "a \<noteq> hd (bs @ [0])" using snoc dis z by (cases bs) auto
    ultimately show ?thesis using snoc seg(1) dis z by (auto simp: dseg_append f)
  qed simp
  have bs: "dseg ?r (last (0 # as)) bs 0"
  proof (cases bs)
    case (Cons b bs')
    have out: "y \<noteq> x \<and> y \<noteq> b \<and> y \<noteq> last (0 # as)" if "y \<in> set bs'" for y
      using that Cons dis z by (cases as rule: rev_cases) auto
    have "dseg ?r b bs' 0 \<longleftrightarrow> dseg r b bs' 0" by (rule dseg_cong) (use out in \<open>simp add: f Cons\<close>)
    moreover have "b \<noteq> last (0 # as)" using Cons dis z by (cases as rule: rev_cases) auto
    ultimately show ?thesis using Cons seg(2) dis z by (auto simp: f)
  qed simp
  have ends': "g_first_image ?r = hd ((as @ bs) @ [0])"
    using ends dis z x0 by (cases as rule: rev_cases) (auto simp: f hd_append)
  have "g_last_image ?r = last (0 # as @ bs)"
    using ends dis z x0 by (cases bs) (auto simp: f)
  moreover have "remove1 x xs = as @ bs" using xs dis by (simp add: remove1_append)
  ultimately show ?thesis using as bs ends' dis by (auto simp: dl_rep_def dseg_append)
qed

lemma walk_images_null [simp]: "walk_images r 0 = Some []"
  by (subst walk_images.simps) simp

lemma walk_images_step: "x \<noteq> 0 \<Longrightarrow>
  walk_images r x = Option.bind (walk_images r (next_of r x)) (\<lambda>rest. Some (x # rest))"
  by (subst walk_images.simps) simp

lemma find_image_null [simp]: "find_image P r 0 = Some 0"
  by (subst find_image.simps) simp

lemma find_image_step: "x \<noteq> 0 \<Longrightarrow>
  find_image P r x = (if P x then Some x else find_image P r (next_of r x))"
  by (subst find_image.simps) simp

lemma walk_dseg: "dseg r p xs 0 \<Longrightarrow> walk_images r (hd (xs @ [0])) = Some xs"
  by (induction xs arbitrary: p) (auto simp: walk_images_step)

lemma find_dseg: "dseg r p xs 0 \<Longrightarrow>
  find_image P r (hd (xs @ [0])) = Some (case find P xs of None \<Rightarrow> 0 | Some x \<Rightarrow> x)"
  by (induction xs arbitrary: p) (auto simp: find_image_step)

lemma dseg_not_null: "dseg r p xs e \<Longrightarrow> 0 \<notin> set xs"
  by (induction xs arbitrary: p) auto

lemma dl_rep_not_null: "dl_rep r xs \<Longrightarrow> 0 \<notin> set xs"
  by (auto simp: dl_rep_def dest: dseg_not_null)

interpretation reg: image_list empty_registry register_image unregister_image
  "\<lambda>r. walk_images r (g_first_image r)" "\<lambda>P r. find_image P r (g_first_image r)" dl_rep
proof
  show "dl_rep empty_registry []" by (simp add: dl_rep_def empty_registry_def)
qed (auto simp: dl_rep_register dl_rep_unregister, auto simp: dl_rep_def walk_dseg find_dseg)

section \<open>Properties\<close>

text \<open>C37: Registering and unregistering implement a list of images: the traversal of the linked
  list ends and visits exactly the registered images in registration order; registering appends,
  unregistering removes that image only, and clears its links.\<close>

theorem registry_refines_list:
  assumes "dl_rep r xs"
  shows "walk_images r (g_first_image r) = Some xs \<and>
    find_image P r (g_first_image r) = Some (case find P xs of None \<Rightarrow> 0 | Some y \<Rightarrow> y) \<and>
    (x \<noteq> 0 \<and> x \<notin> set xs \<longrightarrow>
      dl_rep (register_image x r) (xs @ [x]) \<and>
      walk_images (register_image x r) (g_first_image (register_image x r)) = Some (xs @ [x])) \<and>
    (x \<in> set xs \<longrightarrow>
      dl_rep (unregister_image x r) (remove1 x xs) \<and>
      walk_images (unregister_image x r) (g_first_image (unregister_image x r)) = Some (remove1 x xs) \<and>
      previous_of (unregister_image x r) x = 0 \<and> next_of (unregister_image x r) x = 0)"
  using reg.rep_walk [OF assms] reg.rep_add [OF assms] reg.walk_add [OF assms]
    reg.rep_del [OF assms] reg.walk_del [OF assms] reg.rep_search [OF assms]
  by (simp add: unregister_image_def Let_def)

theorem registry_refines_list_witness:
  "dl_rep (register_image 8 (register_image 4 empty_registry)) [4, 8] \<and>
   walk_images (unregister_image 4 (register_image 8 (register_image 4 empty_registry)))
     (g_first_image (unregister_image 4 (register_image 8 (register_image 4 empty_registry)))) = Some [8]"
proof -
  have 1: "dl_rep (register_image 4 empty_registry) [4]"
    using registry_refines_list [OF reg.rep_empty, of _ 4] by simp
  have 2: "dl_rep (register_image 8 (register_image 4 empty_registry)) [4, 8]"
    using registry_refines_list [OF 1, of _ 8] by simp
  show ?thesis using 2 registry_refines_list [OF 2, of _ 4] by simp
qed

text \<open>Unregistering an image that is not in the registry and has null links (a handle closed
  twice, or one that was never registered) changes nothing.\<close>

lemma unregister_absent:
  assumes "dl_rep r xs" and "x \<notin> set xs" and "x \<noteq> 0"
    and "previous_of r x = 0" and "next_of r x = 0"
  shows "unregister_image x r = r"
proof -
  have "g_first_image r \<noteq> x" "g_last_image r \<noteq> x"
    using assms by (auto simp: dl_rep_def hd_append split: if_splits dest: last_in_set)
  with assms show ?thesis by (simp add: unregister_image_def fun_upd_idem Let_def)
qed

end
