(* ===== verification/Exit_Callbacks.thy ===== *)
theory Exit_Callbacks
  imports Image_State Image_Registry
begin

text \<open>
  The exit callbacks of loaded modules (\<^verbatim>\<open>find_exit_owner\<close>, \<^verbatim>\<open>drain_exit_callbacks\<close>,
  \<^verbatim>\<open>discard_exit_callbacks\<close>, \<^verbatim>\<open>module_cxa_atexit\<close>, \<^verbatim>\<open>module_cxa_finalize\<close> in \<^verbatim>\<open>yukilinker.cpp\<close>).
  A callback may itself register further callbacks, so running one is a parameter: \<open>run cb xs\<close> is the
  callback list of the image after \<open>cb\<close> ran, when it was \<open>xs\<close> before, together with the event it
  leaves in the trace.
\<close>

section \<open>Definitions\<close>

type_synonym images = "u64 \<Rightarrow> ImageState"

text \<open>\<open>None\<close>: the registry walk does not end.  0 is \<^verbatim>\<open>nullptr\<close>.\<close>

definition find_exit_owner :: "images \<Rightarrow> registry \<Rightarrow> u64 \<Rightarrow> u64 \<Rightarrow> u64 option" where
  "find_exit_owner imgs r g_initializing_image dso =
     (if dso \<noteq> 0
      then (case find_image (\<lambda>im. image_contains (imgs im) dso) r (g_first_image r) of
              None \<Rightarrow> None
            | Some im \<Rightarrow> if im \<noteq> 0 then Some im else Some g_initializing_image)
      else Some g_initializing_image)"

text \<open>The inner loop: the first callback for \<open>dso\<close> (any callback when \<open>dso\<close> is null) is unlinked.\<close>

fun take_callback :: "u64 \<Rightarrow> ExitCallback list \<Rightarrow> (ExitCallback \<times> ExitCallback list) option" where
  "take_callback dso [] = None"
| "take_callback dso (cb # cbs) =
     (if dso \<noteq> 0 \<and> cb_dso cb \<noteq> dso
      then map_option (\<lambda>(c, rest). (c, cb # rest)) (take_callback dso cbs)
      else Some (cb, cbs))"

type_synonym callback_run = "ExitCallback \<Rightarrow> ExitCallback list \<Rightarrow> ExitCallback list"

text \<open>The \<^verbatim>\<open>for (;;)\<close>; the result is the callbacks called, in order, and the list left.  Callbacks that
  keep registering callbacks can make it run forever, which is \<open>None\<close>.\<close>

partial_function (option) drain_exit_callbacks ::
  "callback_run \<Rightarrow> u64 \<Rightarrow> ExitCallback list \<Rightarrow> (ExitCallback list \<times> ExitCallback list) option" where
  "drain_exit_callbacks run dso cbs =
     (case take_callback dso cbs of
        None \<Rightarrow> Some ([], cbs)
      | Some (callback, rest) \<Rightarrow>
          Option.bind (drain_exit_callbacks run dso (run callback rest))
            (\<lambda>(called, left). Some (callback # called, left)))"

definition discard_exit_callbacks :: "ImageState \<Rightarrow> ImageState" where
  "discard_exit_callbacks img = img\<lparr>exit_callbacks := []\<rparr>"

text \<open>The result is the C result and the images; \<open>malloc_ok\<close> tells whether \<^verbatim>\<open>malloc\<close> succeeds.\<close>

definition module_cxa_atexit ::
  "bool \<Rightarrow> registry \<Rightarrow> u64 \<Rightarrow> u64 \<Rightarrow> u64 \<Rightarrow> u64 \<Rightarrow> images \<Rightarrow> (int \<times> images) option" where
  "module_cxa_atexit malloc_ok r g_initializing_image function_ptr argument dso imgs =
     (if function_ptr = 0 then Some (- 1, imgs)
      else case find_exit_owner imgs r g_initializing_image dso of
             None \<Rightarrow> None
           | Some own \<Rightarrow>
             if own = 0 then Some (- 1, imgs)
             else if \<not> malloc_ok then Some (- 1, imgs)
             else Some (0, imgs(own := (imgs own)\<lparr>exit_callbacks :=
                    \<lparr>cb_function = function_ptr, cb_argument = argument, cb_dso = dso\<rparr> #
                    exit_callbacks (imgs own)\<rparr>)))"

definition module_cxa_finalize ::
  "callback_run \<Rightarrow> registry \<Rightarrow> u64 \<Rightarrow> u64 \<Rightarrow> images \<Rightarrow> (ExitCallback list \<times> images) option" where
  "module_cxa_finalize run r g_initializing_image dso imgs =
     (case find_exit_owner imgs r g_initializing_image dso of
        None \<Rightarrow> None
      | Some own \<Rightarrow>
        if own = 0 then Some ([], imgs)
        else (case drain_exit_callbacks run dso (exit_callbacks (imgs own)) of
                None \<Rightarrow> None
              | Some (called, left) \<Rightarrow> Some (called, imgs(own := (imgs own)\<lparr>exit_callbacks := left\<rparr>))))"

section \<open>Order of the callbacks\<close>

abbreviation for_dso :: "u64 \<Rightarrow> ExitCallback \<Rightarrow> bool" where
  "for_dso dso cb \<equiv> dso = 0 \<or> cb_dso cb = dso"

lemma take_callback_None: "take_callback dso cbs = None \<longleftrightarrow> (\<forall>cb \<in> set cbs. \<not> for_dso dso cb)"
  by (induction cbs) auto

lemma take_callback_Some:
  "take_callback dso cbs = Some (cb, rest) \<Longrightarrow>
     for_dso dso cb \<and> filter (for_dso dso) cbs = cb # filter (for_dso dso) rest \<and>
     filter (\<lambda>c. \<not> for_dso dso c) cbs = filter (\<lambda>c. \<not> for_dso dso c) rest \<and> length cbs = Suc (length rest)"
  by (induction cbs arbitrary: cb rest) (auto split: if_splits)

lemma drain_order:
  "drain_exit_callbacks (\<lambda>_ cbs. cbs) dso cbs =
     Some (filter (for_dso dso) cbs, filter (\<lambda>cb. \<not> for_dso dso cb) cbs)"
proof (induction "length cbs" arbitrary: cbs)
  case 0
  then show ?case by (subst drain_exit_callbacks.simps) simp
next
  case (Suc n)
  show ?case
  proof (cases "take_callback dso cbs")
    case None
    then have "\<forall>cb \<in> set cbs. \<not> for_dso dso cb" by (simp only: take_callback_None)
    then have "filter (for_dso dso) cbs = []" "filter (\<lambda>cb. \<not> for_dso dso cb) cbs = cbs"
      by (simp_all add: filter_empty_conv filter_id_conv)
    with None show ?thesis by (subst drain_exit_callbacks.simps) simp
  next
    case (Some p)
    then obtain cb rest where p: "take_callback dso cbs = Some (cb, rest)" by (cases p) simp
    note t = take_callback_Some [OF p]
    have "n = length rest" using t Suc.hyps(2) by simp
    from Suc.hyps(1) [OF this] show ?thesis using p t by (subst drain_exit_callbacks.simps) simp
  qed
qed

text \<open>Exit callbacks run last-registered first and exactly once: draining ends and calls, in list
  order (the newest registration is first), exactly the callbacks of the given library, and leaves the
  others in place, when the callbacks register no further ones.\<close>

lemma drain_exit_callbacks_order:
  "drain_exit_callbacks (\<lambda>_ cbs. cbs) dso cbs =
     Some (filter (for_dso dso) cbs, filter (\<lambda>cb. \<not> for_dso dso cb) cbs)"
  by (rule drain_order)

text \<open>A callback registered while its library is being finalized is not lost.\<close>

lemma drain_exit_callbacks_complete:
  "drain_exit_callbacks run dso cbs = Some r \<Longrightarrow> \<forall>cb \<in> set (snd r). \<not> for_dso dso cb"
proof (induction run dso cbs r rule: drain_exit_callbacks.raw_induct [rotated, consumes 1, case_names step])
  case (step f run dso cbs r)
  show ?case
  proof (cases "take_callback dso cbs")
    case None
    with step(2) show ?thesis by (auto simp: take_callback_None)
  next
    case (Some p)
    then obtain cb rest where p: "take_callback dso cbs = Some (cb, rest)" by (cases p) simp
    with step(2) obtain called left where "f run dso (run cb rest) = Some (called, left)" "snd r = left"
      by (auto simp: bind_eq_Some_conv)
    with step(1) show ?thesis by fastforce
  qed
qed

lemma find_exit_owner_rep:
  assumes "dl_rep r ims" and "dso \<noteq> 0"
  shows "find_exit_owner imgs r g dso =
    Some (case find (\<lambda>im. image_contains (imgs im) dso) ims of None \<Rightarrow> g | Some im \<Rightarrow> im)"
proof -
  have "0 \<notin> set ims" using assms(1) by (rule dl_rep_not_null)
  then show ?thesis
    using reg.rep_search [OF assms(1), of "\<lambda>im. image_contains (imgs im) dso"] assms(2)
    by (auto simp: find_exit_owner_def split: option.split dest: find_SomeD)
qed

text \<open>Registration and finalization meet: a callback registered with \<open>module_cxa_atexit\<close> for an
  address inside a registered image is attached to that image, and \<open>module_cxa_finalize\<close> for the same
  address runs it first, then the older callbacks for that address, newest first, and leaves only
  callbacks for other addresses.\<close>

lemma atexit_then_finalize:
  assumes rep: "dl_rep r ims" and dso: "dso \<noteq> 0" and f: "function_ptr \<noteq> 0"
    and own: "find (\<lambda>im. image_contains (imgs im) dso) ims = Some im"
  shows "\<exists>imgs'. module_cxa_atexit True r g function_ptr argument dso imgs = Some (0, imgs') \<and>
    module_cxa_finalize (\<lambda>_ cbs. cbs) r g dso imgs' =
      Some (\<lparr>cb_function = function_ptr, cb_argument = argument, cb_dso = dso\<rparr> #
              filter (\<lambda>cb. cb_dso cb = dso) (exit_callbacks (imgs im)),
            imgs(im := (imgs im)\<lparr>exit_callbacks := filter (\<lambda>cb. cb_dso cb \<noteq> dso) (exit_callbacks (imgs im))\<rparr>))"
proof -
  let ?cb = "\<lparr>cb_function = function_ptr, cb_argument = argument, cb_dso = dso\<rparr>"
  let ?imgs = "imgs(im := (imgs im)\<lparr>exit_callbacks := ?cb # exit_callbacks (imgs im)\<rparr>)"
  have im: "im \<noteq> 0" using find_SomeD [OF own] dl_rep_not_null [OF rep] by auto
  have same: "image_contains (?imgs x) dso = image_contains (imgs x) dso" for x
    by (simp add: image_contains_def)
  have reg: "module_cxa_atexit True r g function_ptr argument dso imgs = Some (0, ?imgs)"
    using f im own by (simp add: module_cxa_atexit_def find_exit_owner_rep [OF rep dso])
  have drain: "drain_exit_callbacks (\<lambda>_ cbs. cbs) dso (?cb # exit_callbacks (imgs im)) =
      Some (?cb # filter (\<lambda>cb. cb_dso cb = dso) (exit_callbacks (imgs im)),
            filter (\<lambda>cb. cb_dso cb \<noteq> dso) (exit_callbacks (imgs im)))"
    using drain_order [of dso "?cb # exit_callbacks (imgs im)"] dso by simp
  have "module_cxa_finalize (\<lambda>_ cbs. cbs) r g dso ?imgs =
      Some (?cb # filter (\<lambda>cb. cb_dso cb = dso) (exit_callbacks (imgs im)),
        imgs(im := (imgs im)\<lparr>exit_callbacks := filter (\<lambda>cb. cb_dso cb \<noteq> dso) (exit_callbacks (imgs im))\<rparr>))"
    using im own drain unfolding module_cxa_finalize_def find_exit_owner_rep [OF rep dso] same by simp
  with reg show ?thesis by blast
qed

text \<open>An image of 4096 bytes at \<open>0x10000\<close>, registered under the address 64.\<close>

definition demo_exit_images :: images where
  "demo_exit_images = (\<lambda>_. new_image)(64 := new_image\<lparr>memory_of := empty_space\<lparr>reservation := 0x10000, span := 0x1000\<rparr>\<rparr>)"

end
