(* ===== verification/Loader.thy ===== *)
theory Loader
  imports Segment_Mapping Symbol_Index Relocation Exit_Callbacks
begin

text \<open>
  The loader's entry points (\<^verbatim>\<open>open_dependencies\<close>, \<^verbatim>\<open>close_dependencies\<close>, \<^verbatim>\<open>discover_tls_segment\<close>,
  \<^verbatim>\<open>run_initializers\<close>, \<^verbatim>\<open>run_finalizers\<close>, \<^verbatim>\<open>release_failed_image\<close>, \<^verbatim>\<open>dlopen_memfd\<close>, \<^verbatim>\<open>dlsym\<close>,
  \<^verbatim>\<open>dlclose\<close> and \<^verbatim>\<open>dl_iterate_phdr_hook\<close> in \<^verbatim>\<open>yukilinker.cpp\<close>, full arm64 build) over one state: the
  images and handles by address, the registry, the TLS runtime, the process memory, the metadata arena
  and the trace of calls into loaded code.  What that code does to memory or to the loader while it
  runs is outside the model; the trace records that and in which order it is called.
\<close>

section \<open>State\<close>

record SoHandle =
  load_bias :: u64
  map_size :: u64
  private_state :: u64

datatype event =
    Call u64
  | ExitCall u64 u64
  | SysClose u64

record loader =
  images_of :: "u64 \<Rightarrow> ImageState"
  handles :: "u64 \<Rightarrow> SoHandle"
  registry_of :: registry
  tls_of :: TlsRuntime
  threads_of :: thread_store
  vm_of :: vm
  pages_of :: "MetadataPage list"
  live_of :: "region list"
  g_initializing_image :: u64
  trace :: "event list"

abbreviation image_at :: "loader \<Rightarrow> u64 \<Rightarrow> ImageState" where
  "image_at st im \<equiv> images_of st im"

definition set_image :: "u64 \<Rightarrow> ImageState \<Rightarrow> loader \<Rightarrow> loader" where
  "set_image im img st = st\<lparr>images_of := (images_of st)(im := img)\<rparr>"

text \<open>The arena and the memory, as the allocating functions see them.\<close>

definition set_arena :: "MetadataPage list \<times> memory \<Rightarrow> loader \<Rightarrow> loader" where
  "set_arena s st = st\<lparr>pages_of := fst s, vm_of := (vm_of st)\<lparr>vm_mem := snd s\<rparr>\<rparr>"

definition arena_mmap :: "os \<Rightarrow> loader \<Rightarrow> mmap_fn" where
  "arena_mmap os st = (\<lambda>rs. os_mmap os (live_of st @ rs))"

definition unmap :: "u64 \<Rightarrow> u64 \<Rightarrow> loader \<Rightarrow> loader" where
  "unmap a n st = st\<lparr>vm_of := vm_munmap a n (vm_of st), live_of := remove1 (a, n) (live_of st)\<rparr>"

text \<open>\<^verbatim>\<open>metadata_object<T>\<close> for an object of the given size and alignment 8; the object itself is kept in
  the field of the state that holds its type.\<close>

definition metadata_object :: "os \<Rightarrow> u64 \<Rightarrow> u64 \<Rightarrow> loader \<Rightarrow> u64 option \<times> loader" where
  "metadata_object os ps bytes st =
     (let (a, s) = metadata_allocate ps (arena_mmap os st) bytes 8 (pages_of st, vm_mem (vm_of st))
      in (a, set_arena s st))"

definition sizeof_SoHandle :: u64 where "sizeof_SoHandle = 24"
definition sizeof_ImageState :: u64 where "sizeof_ImageState = 328"
definition sizeof_Dependency :: u64 where "sizeof_Dependency = 16"

section \<open>Dependencies\<close>

fun open_dependency_entries ::
  "sysenv \<Rightarrow> os \<Rightarrow> u64 \<Rightarrow> u64 \<Rightarrow> u64 \<Rightarrow> nat list \<Rightarrow> loader \<Rightarrow> bool \<times> loader" where
  "open_dependency_entries env os ps im ents [] st = (True, st)"
| "open_dependency_entries env os ps im ents (i # is) st =
     (let m = vm_mem (vm_of st); entry = ents + 16 * of_nat i;
          d_tag = read64 m entry; d_val = read64 m (entry + 8); sy = symbols (image_at st im) in
      if d_tag = DT_NULL then (True, st)
      else if d_tag \<noteq> DT_NEEDED then open_dependency_entries env os ps im ents is st
      else if d_val \<ge> string_bytes sy then (False, st)
      else if 0 \<notin> set (read_bytes m (strings sy + d_val) (unat (string_bytes sy - d_val))) then (False, st)
      else case metadata_object os ps sizeof_Dependency st of
             (None, st1) \<Rightarrow> (False, st1)
           | (Some dependency, st1) \<Rightarrow>
             let nm = c_string m (strings sy + d_val) (unat (string_bytes sy - d_val));
                 img = image_at st1 im
             in open_dependency_entries env os ps im ents is
                  (set_image im (img\<lparr>dependencies := dependencies img @ [se_dlopen env nm]\<rparr>) st1))"

definition open_dependencies ::
  "sysenv \<Rightarrow> os \<Rightarrow> u64 \<Rightarrow> u64 \<Rightarrow> DynamicParse \<Rightarrow> loader \<Rightarrow> bool \<times> loader" where
  "open_dependencies env os ps im p st =
     open_dependency_entries env os ps im (dyn_entries p) [0..<unat (entry_limit p)] st"

definition close_dependencies :: "u64 \<Rightarrow> loader \<Rightarrow> loader" where
  "close_dependencies im st =
     (let img = image_at st im in
      set_image im (img\<lparr>dependencies := map (\<lambda>_. 0) (dependencies img)\<rparr>)
        (st\<lparr>trace := trace st @ map SysClose (filter (\<lambda>h. h \<noteq> 0) (dependencies img))\<rparr>))"

section \<open>Lifecycle\<close>

text \<open>The loop over the program headers; \<open>found\<close> is set by the first TLS segment.\<close>

fun discover_tls_phdrs :: "bool \<Rightarrow> Phdr list \<Rightarrow> ImageState \<Rightarrow> ImageState option" where
  "discover_tls_phdrs found [] img = Some img"
| "discover_tls_phdrs found (ph # phs) img =
     (if p_type ph \<noteq> PT_TLS then discover_tls_phdrs found phs img
      else if found \<or> p_filesz ph > p_memsz ph \<or> (p_align ph > 1 \<and> \<not> is_power_of_two (p_align ph)) then None
      else let p = or_null (runtime_pointer (memory_of img) 1 (p_vaddr ph) (p_filesz ph)) in
        if p_filesz ph \<noteq> 0 \<and> p = 0 then None
        else discover_tls_phdrs True phs
               (img\<lparr>tls := (tls img)\<lparr>initial_bytes := p, file_bytes := p_filesz ph, memory_bytes := p_memsz ph,
                                    alignment := (if p_align ph = 0 then 1 else p_align ph)\<rparr>\<rparr>))"

definition discover_tls_segment :: "ImageState \<Rightarrow> ImageState option" where
  "discover_tls_segment img = discover_tls_phdrs False (program_headers (memory_of img)) img"

definition normalized_lifecycle_function :: "ImageState \<Rightarrow> u64 \<Rightarrow> u64" where
  "normalized_lifecycle_function img value =
     (if value = 0 \<or> image_contains img value then value
      else case runtime_pointer (memory_of img) 1 value 1 of Some rebased \<Rightarrow> rebased | None \<Rightarrow> value)"

text \<open>The calls to the functions that are not null after normalization, in the given order.\<close>

definition lifecycle_calls :: "ImageState \<Rightarrow> u64 list \<Rightarrow> event list" where
  "lifecycle_calls img fs = map Call (filter (\<lambda>f. f \<noteq> 0) (map (normalized_lifecycle_function img) fs))"

definition function_array :: "memory \<Rightarrow> u64 \<Rightarrow> u64 \<Rightarrow> u64 list" where
  "function_array m a n = map (\<lambda>i. read64 m (a + 8 * of_nat i)) [0..<unat n]"

definition run_initializers :: "u64 \<Rightarrow> loader \<Rightarrow> loader" where
  "run_initializers im st =
     (let st1 = st\<lparr>g_initializing_image := im\<rparr>;
          img = image_at st1 im; lc = lifecycle img;
          st2 = st1\<lparr>trace := trace st1 @ lifecycle_calls img [lc_init lc] @
                  lifecycle_calls img (function_array (vm_mem (vm_of st1)) (init_array lc) (init_count lc))\<rparr>;
          st3 = (if g_initializing_image st2 = im then st2\<lparr>g_initializing_image := 0\<rparr> else st2)
      in set_image im (img\<lparr>lifecycle := lc\<lparr>initialized := True\<rparr>\<rparr>) st3)"

definition exit_event :: "ExitCallback \<Rightarrow> event" where
  "exit_event cb = ExitCall (cb_function cb) (cb_argument cb)"

text \<open>The exit callbacks are drained with a null library, so all of them run; here they register no
  further ones, so draining ends.\<close>

definition run_finalizers :: "u64 \<Rightarrow> loader \<Rightarrow> loader" where
  "run_finalizers im st =
     (let img = image_at st im; lc = lifecycle img in
      if \<not> initialized lc then st
      else
        let called = (case drain_exit_callbacks (\<lambda>_ cbs. cbs) 0 (exit_callbacks img) of
                        None \<Rightarrow> ([], exit_callbacks img) | Some r \<Rightarrow> r) in
        set_image im (img\<lparr>exit_callbacks := snd called, lifecycle := lc\<lparr>initialized := False\<rparr>\<rparr>)
          (st\<lparr>trace := trace st @
                lifecycle_calls img (rev (function_array (vm_mem (vm_of st)) (fini_array lc) (fini_count lc))) @
                lifecycle_calls img [lc_fini lc] @ map exit_event (fst called)\<rparr>))"

section \<open>Loading\<close>

definition deactivate_image_tls :: "u64 \<Rightarrow> loader \<Rightarrow> loader" where
  "deactivate_image_tls im st =
     (let (imgs, rt) = deactivate_tls im (images_of st, tls_of st) in st\<lparr>images_of := imgs, tls_of := rt\<rparr>)"

text \<open>The handle of the image is \<open>h\<close> (\<^verbatim>\<open>image->public_handle\<close>).\<close>

definition release_failed_image :: "u64 \<Rightarrow> u64 \<Rightarrow> loader \<Rightarrow> loader" where
  "release_failed_image im h st =
     (let st1 = close_dependencies im (deactivate_image_tls im st);
          sp = memory_of (image_at st1 im);
          st2 = (if reservation sp \<noteq> 0
                 then set_image im ((image_at st1 im)\<lparr>memory_of := sp\<lparr>reservation := 0\<rparr>\<rparr>)
                        (unmap (reservation sp) (span sp) st1)
                 else st1)
      in st2\<lparr>handles := (handles st2)(h := \<lparr>load_bias = 0, map_size = 0, private_state = 0\<rparr>)\<rparr>)"

definition create_image_space ::
  "os \<Rightarrow> u64 \<Rightarrow> u8 list \<Rightarrow> SourceLayout \<Rightarrow> bool \<Rightarrow> u64 \<Rightarrow> loader \<Rightarrow> bool \<times> loader" where
  "create_image_space os ps source layout fbacked im st =
     (let (ok, sp, pages, v) = create_address_space os ps (live_of st) source layout fbacked
                                 (memory_of (image_at st im)) (pages_of st) (vm_of st);
          st1 = set_image im ((image_at st im)\<lparr>memory_of := sp\<rparr>) (st\<lparr>pages_of := pages, vm_of := v\<rparr>)
      in (ok, if ok then st1\<lparr>live_of := (reservation sp, span sp) # live_of st1\<rparr> else st1))"

text \<open>\<^verbatim>\<open>metadata_ready\<close> with the parsed image; \<open>None\<close> when counting the symbols does not end.\<close>

definition image_metadata ::
  "memory \<Rightarrow> nat \<Rightarrow> ImageState \<Rightarrow> (bool \<times> ImageState \<times> DynamicParse) option" where
  "image_metadata m d img =
     (case discover_tls_segment img of
        None \<Rightarrow> Some (False, img, new_parse)
      | Some img1 \<Rightarrow>
        (case parse_dynamic_tags m d img1 of
           None \<Rightarrow> Some (False, img1, new_parse)
         | Some (img2, p) \<Rightarrow>
           (case establish_symbol_count m p img2 of
              None \<Rightarrow> None
            | Some (ok, img3) \<Rightarrow> Some (ok, img3, p))))"

text \<open>A C++ \<open>&&\<close> over functions that update the state.\<close>

definition and_then :: "bool \<times> 's \<Rightarrow> ('s \<Rightarrow> bool \<times> 's) \<Rightarrow> bool \<times> 's" where
  "and_then r f = (case r of (False, s) \<Rightarrow> (False, s) | (True, s) \<Rightarrow> f s)"

definition activate_image_tls :: "libc \<Rightarrow> u64 \<Rightarrow> loader \<Rightarrow> bool \<times> loader" where
  "activate_image_tls lc im st =
     (let (ok, imgs, rt) = activate_tls lc im (images_of st, tls_of st)
      in (ok, st\<lparr>images_of := imgs, tls_of := rt\<rparr>))"

definition relocate_loaded_image :: "sysenv \<Rightarrow> os \<Rightarrow> u64 \<Rightarrow> u64 \<Rightarrow> loader \<Rightarrow> bool \<times> loader" where
  "relocate_loaded_image env os ps im st =
     (let (ok, s) = relocate_image env ps (arena_mmap os st) (image_at st im) (pages_of st, vm_mem (vm_of st))
      in (ok, set_arena s st))"

definition with_vm :: "(vm \<Rightarrow> bool \<times> vm) \<Rightarrow> loader \<Rightarrow> bool \<times> loader" where
  "with_vm f st = (let (ok, v) = f (vm_of st) in (ok, st\<lparr>vm_of := v\<rparr>))"

text \<open>The part of \<^verbatim>\<open>dlopen_memfd\<close> from \<^verbatim>\<open>DynamicParse dynamic\<close> to the last check; \<open>False\<close> is each of its
  failing exits.\<close>

definition link_image ::
  "sysenv \<Rightarrow> os \<Rightarrow> libc \<Rightarrow> u64 \<Rightarrow> nat \<Rightarrow> u64 \<Rightarrow> loader \<Rightarrow> (bool \<times> loader) option" where
  "link_image env os lc ps d im st2 =
     (case image_metadata (vm_mem (vm_of st2)) d (image_at st2 im) of
        None \<Rightarrow> None
      | Some (metadata_ready, img, p) \<Rightarrow>
        let st3 = set_image im img st2 in
        if \<not> metadata_ready \<or> requires_system_tls_runtime (vm_mem (vm_of st3)) img then Some (False, st3)
        else
          (case build_symbol_index ps (arena_mmap os st3) (symbols img, pages_of st3, vm_mem (vm_of st3)) of
             None \<Rightarrow> None
           | Some (syms, s) \<Rightarrow>
             let st4 = set_image im (img\<lparr>symbols := syms\<rparr>) (set_arena s st3) in
             Some (and_then (and_then (and_then (and_then
               (open_dependencies env os ps im p st4)
               (activate_image_tls lc im))
               (relocate_loaded_image env os ps im))
               (\<lambda>st. with_vm (restore_anonymous_protections os ps (memory_of (image_at st im))) st))
               (\<lambda>st. with_vm (protect_relro os ps (memory_of (image_at st im))) st))))"

text \<open>Everything between the allocation of the image and the last check of \<^verbatim>\<open>dlopen_memfd\<close>.\<close>

definition load_image ::
  "sysenv \<Rightarrow> os \<Rightarrow> libc \<Rightarrow> u64 \<Rightarrow> u8 list \<Rightarrow> SourceLayout \<Rightarrow> bool \<Rightarrow> u64 \<Rightarrow> u64 \<Rightarrow> loader \<Rightarrow> (bool \<times> loader) option" where
  "load_image env os lc ps source layout fbacked im h st =
     (case create_image_space os ps source layout fbacked im st of
        (False, st1) \<Rightarrow> Some (False, st1)
      | (True, st1) \<Rightarrow>
        let sp = memory_of (image_at st1 im) in
        link_image env os lc ps (sl_dynamic_index layout) im
          (st1\<lparr>handles := (handles st1)(h := (handles st1 h)\<lparr>load_bias := bias sp, map_size := span sp\<rparr>)\<rparr>))"

text \<open>The end of \<^verbatim>\<open>dlopen_memfd\<close>: a failed image is released, a loaded one registered and initialized;
  the mapping of the source at \<open>src\<close> is given up in both cases.\<close>

definition finish_open :: "u64 \<Rightarrow> u64 \<Rightarrow> u64 \<Rightarrow> u64 \<Rightarrow> bool \<times> loader \<Rightarrow> u64 \<times> loader" where
  "finish_open src n h im r =
     (case r of
        (False, st5) \<Rightarrow> (0, release_failed_image im h (unmap src n st5))
      | (True, st5) \<Rightarrow>
          let st6 = unmap src n st5;
              st7 = st6\<lparr>registry_of := register_image im (registry_of st6)\<rparr>
          in (h, run_initializers im st7))"

text \<open>\<open>file\<close> is the contents of the descriptor, \<open>None\<close> when it cannot be examined.  The result is the
  handle, 0 for \<^verbatim>\<open>nullptr\<close>.\<close>

definition dlopen_memfd ::
  "sysenv \<Rightarrow> os \<Rightarrow> libc \<Rightarrow> u64 \<Rightarrow> u8 list option \<Rightarrow> bool \<Rightarrow> loader \<Rightarrow> (u64 \<times> loader) option" where
  "dlopen_memfd env os lc ps file fbacked st =
     (case file of None \<Rightarrow> Some (0, st)
      | Some source \<Rightarrow>
        let n = of_nat (length source) in
        if source = [] then Some (0, st) else
        (case os_mmap os (live_of st @ map (\<lambda>p. (page_base p, mapped_size p)) (pages_of st)) n of
           None \<Rightarrow> Some (0, st)
         | Some src \<Rightarrow>
           let st1 = st\<lparr>vm_of := vm_map_file src n PROT_READ source 0 (vm_of st), live_of := (src, n) # live_of st\<rparr> in
           (case inspect_source ps source of
              None \<Rightarrow> Some (0, unmap src n st1)
            | Some layout \<Rightarrow>
              let (h, st2) = metadata_object os ps sizeof_SoHandle st1;
                  (im, st3) = metadata_object os ps sizeof_ImageState st2 in
              (case (h, im) of
                 (Some h, Some im) \<Rightarrow>
                   let st4 = set_image im new_image
                               (st3\<lparr>handles := (handles st3)(h := \<lparr>load_bias = 0, map_size = 0, private_state = im\<rparr>)\<rparr>) in
                   map_option (finish_open src n h im) (load_image env os lc ps source layout fbacked im h st4)
               | _ \<Rightarrow> Some (0, unmap src n st3)))))"

definition dlsym ::
  "sysenv \<Rightarrow> libc \<Rightarrow> u64 \<Rightarrow> u64 \<Rightarrow> u8 list \<Rightarrow> loader \<Rightarrow> (u64 \<times> loader) option" where
  "dlsym env lc tid h nm st =
     (let im = (if h = 0 then 0 else private_state (handles st h)) in
      if im = 0 then Some (0, st) else
      let img = image_at st im; m = vm_mem (vm_of st) in
      case find_defined_symbol m (symbols img) nm of
        None \<Rightarrow> Some (0, st)
      | Some p \<Rightarrow>
        let sy = sym_at m p in
        if st_type sy = STT_TLS then
          (if \<not> active (tls img) then Some (0, st)
           else (case yuki_tls_get_addr lc tid (images_of st) (module_id (tls img)) (st_value sy)
                        (tls_of st, threads_of st, m) of
                   None \<Rightarrow> None
                 | Some (a, rt, threads, m') \<Rightarrow>
                   Some (a, st\<lparr>tls_of := rt, threads_of := threads, vm_of := (vm_of st)\<lparr>vm_mem := m'\<rparr>\<rparr>)))
        else Some (case materialize_defined_symbol env img sy of None \<Rightarrow> 0 | Some a \<Rightarrow> a, st))"

definition dlclose :: "u64 \<Rightarrow> loader \<Rightarrow> loader" where
  "dlclose h st =
     (let im = (if h = 0 then 0 else private_state (handles st h)) in
      if im = 0 then st else
      let st1 = run_finalizers im st;
          st2 = set_image im (discard_exit_callbacks (image_at st1 im)) st1;
          st3 = deactivate_image_tls im st2;
          st4 = st3\<lparr>registry_of := unregister_image im (registry_of st3)\<rparr>;
          st5 = close_dependencies im st4;
          sp = memory_of (image_at st5 im);
          st6 = (if reservation sp \<noteq> 0 then unmap (reservation sp) (span sp) st5 else st5);
          st7 = set_image im ((image_at st6 im)\<lparr>memory_of := sp\<lparr>reservation := 0\<rparr>\<rparr>) st6
      in st7\<lparr>handles := (handles st7)(h := \<lparr>load_bias = 0, map_size = 0, private_state = 0\<rparr>)\<rparr>)"

section \<open>Enumeration\<close>

record dl_phdr_info =
  dlpi_addr :: u64
  dlpi_phdr :: "Phdr list"
  dlpi_phnum :: u16
  dlpi_tls_modid :: u64
  dlpi_tls_data :: u64

definition phdr_snapshot :: "ImageState \<Rightarrow> dl_phdr_info \<times> u64" where
  "phdr_snapshot img =
     (let info = \<lparr>dlpi_addr = bias (memory_of img), dlpi_phdr = program_headers (memory_of img),
                  dlpi_phnum = of_nat (length (program_headers (memory_of img))),
                  dlpi_tls_modid = 0, dlpi_tls_data = 0\<rparr> in
      if active (tls img) then (info\<lparr>dlpi_tls_modid := module_id (tls img)\<rparr>, generation (tls img)) else (info, 0))"

text \<open>The second loop: the callback is called for each snapshot until it returns nonzero.  \<open>cb\<close> is the
  caller's callback; the result also lists what it was given.\<close>

fun report_images ::
  "u64 \<Rightarrow> loader \<Rightarrow> (dl_phdr_info \<Rightarrow> int) \<Rightarrow> (dl_phdr_info \<times> u64) list \<Rightarrow> int \<times> dl_phdr_info list" where
  "report_images tid st cb [] = (0, [])"
| "report_images tid st cb ((info, gen) # rest) =
     (let info = info\<lparr>dlpi_tls_data := current_thread_tls_data tid (tls_of st) (threads_of st) (dlpi_tls_modid info) gen\<rparr>;
          result = cb info in
      if result \<noteq> 0 then (result, [info])
      else let (r, seen) = report_images tid st cb rest in (r, info # seen))"

text \<open>\<open>system\<close> is the result of the system's \<^verbatim>\<open>dl_iterate_phdr\<close> with the callback, 0 when it is not
  available; \<open>malloc_ok\<close> the outcome of the allocation of the snapshot.  72 is \<^verbatim>\<open>sizeof(PhdrSnapshot)\<close>.\<close>

definition dl_iterate_phdr_hook ::
  "int \<Rightarrow> bool \<Rightarrow> u64 \<Rightarrow> (dl_phdr_info \<Rightarrow> int) \<Rightarrow> loader \<Rightarrow> (int \<times> dl_phdr_info list) option" where
  "dl_iterate_phdr_hook system malloc_ok tid cb st =
     (if system \<noteq> 0 then Some (system, [])
      else case walk_images (registry_of st) (g_first_image (registry_of st)) of
             None \<Rightarrow> None
           | Some ims \<Rightarrow>
             (case multiply_overflow (of_nat (length ims)) 72 of
                None \<Rightarrow> Some (0, [])
              | Some snapshot_bytes \<Rightarrow>
                if snapshot_bytes \<noteq> 0 \<and> \<not> malloc_ok then Some (0, [])
                else Some (report_images tid st cb (map (\<lambda>im. phdr_snapshot (image_at st im)) ims))))"

end
