(* ===== verification/Loader_Safety.thy ===== *)
theory Loader_Safety
  imports Loader
begin

text \<open>
  What the entry points of the loader guarantee over the whole state: a failing load leaves no trace
  besides closed system libraries, and closing a handle gives back everything the image holds.  The
  lemmas follow the stages of \<^verbatim>\<open>dlopen_memfd\<close>; \<open>same_frame\<close> is what every stage after the reservation
  of memory leaves unchanged.
\<close>

section \<open>What loading leaves unchanged\<close>

text \<open>Two states with the same registry, trace, mappings and handles, and with the images at the same
  places.\<close>

definition same_frame :: "loader \<Rightarrow> loader \<Rightarrow> bool" where
  "same_frame st st' \<longleftrightarrow> registry_of st' = registry_of st \<and> trace st' = trace st \<and> live_of st' = live_of st \<and>
     g_initializing_image st' = g_initializing_image st \<and> handles st' = handles st \<and>
     (\<forall>x. memory_of (image_at st' x) = memory_of (image_at st x))"

lemma same_frame_refl [simp]: "same_frame st st"
  by (simp add: same_frame_def)

lemma same_frame_trans: "same_frame a b \<Longrightarrow> same_frame b c \<Longrightarrow> same_frame a c"
  by (simp add: same_frame_def)

lemma same_frame_arena [simp]: "same_frame st (set_arena s st)"
  by (simp add: same_frame_def set_arena_def)

lemma same_frame_image: "memory_of img = memory_of (image_at st im) \<Longrightarrow> same_frame st (set_image im img st)"
  by (auto simp: same_frame_def set_image_def)

lemma same_frame_object: "metadata_object os ps n st = (a, st') \<Longrightarrow> same_frame st st'"
  by (auto simp: metadata_object_def Let_def split: prod.splits)

lemma same_frame_dependencies:
  "open_dependency_entries env os ps im ents is st = (r, st') \<Longrightarrow> same_frame st st'"
proof (induction "is" arbitrary: st)
  case Nil
  then show ?case by simp
next
  case (Cons i "is")
  let ?m = "vm_mem (vm_of st)" and ?sy = "symbols (image_at st im)" and ?e = "ents + 16 * of_nat i"
  show ?case
  proof (cases "read64 ?m ?e = DT_NULL \<or> read64 ?m (?e + 8) \<ge> string_bytes ?sy \<or> read64 ?m ?e \<noteq> DT_NEEDED \<or>
      0 \<notin> set (read_bytes ?m (strings ?sy + read64 ?m (?e + 8)) (unat (string_bytes ?sy - read64 ?m (?e + 8))))")
    case True
    with Cons show ?thesis by (auto simp: Let_def split: if_splits)
  next
    case False
    obtain d st1 where o1: "metadata_object os ps sizeof_Dependency st = (d, st1)" by fastforce
    from same_frame_object [OF o1] have f1: "same_frame st st1" .
    show ?thesis
    proof (cases d)
      case None
      with Cons.prems False o1 f1 show ?thesis by (simp add: Let_def)
    next
      case (Some x)
      let ?nm = "c_string ?m (strings ?sy + read64 ?m (?e + 8)) (unat (string_bytes ?sy - read64 ?m (?e + 8)))"
      let ?st2 = "set_image im ((image_at st1 im)\<lparr>dependencies := dependencies (image_at st1 im) @ [se_dlopen env ?nm]\<rparr>) st1"
      have "open_dependency_entries env os ps im ents is ?st2 = (r, st')"
        using Cons.prems False o1 Some by (simp add: Let_def)
      then have "same_frame ?st2 st'" by (rule Cons.IH)
      moreover have "same_frame st1 ?st2" by (rule same_frame_image) simp
      ultimately show ?thesis using f1 same_frame_trans by blast
    qed
  qed
qed

lemma activate_tls_memory:
  "activate_tls lc im (imgs, rt) = (r, imgs', rt') \<Longrightarrow> memory_of (imgs' x) = memory_of (imgs x)"
  by (auto simp: activate_tls_def Let_def split: if_splits prod.splits option.splits)

lemma deactivate_tls_memory:
  "deactivate_tls im (imgs, rt) = (imgs', rt') \<Longrightarrow> memory_of (imgs' x) = memory_of (imgs x)"
  by (auto simp: deactivate_tls_def Let_def split: if_splits)

lemma same_frame_activate: "activate_image_tls lc im st = (r, st') \<Longrightarrow> same_frame st st'"
  using activate_tls_memory by (auto simp: activate_image_tls_def same_frame_def Let_def split: prod.splits)

lemma same_frame_relocate: "relocate_loaded_image env os ps im st = (r, st') \<Longrightarrow> same_frame st st'"
  by (auto simp: relocate_loaded_image_def Let_def split: prod.splits)

lemma same_frame_vm: "with_vm f st = (r, st') \<Longrightarrow> same_frame st st'"
  by (auto simp: with_vm_def same_frame_def Let_def split: prod.splits)

lemma same_frame_and_then:
  assumes "same_frame st (snd r)" and "\<And>s r'. f s = r' \<Longrightarrow> same_frame s (snd r')"
  shows "same_frame st (snd (and_then r f))"
  using assms same_frame_trans by (auto simp: and_then_def split: prod.splits bool.splits)

lemma same_frame_chain:
  assumes "same_frame st (snd r)"
  shows "same_frame st (snd (and_then (and_then (and_then (and_then r (activate_image_tls lc im))
      (relocate_loaded_image env os ps im))
      (\<lambda>st. with_vm (restore_anonymous_protections os ps (memory_of (image_at st im))) st))
      (\<lambda>st. with_vm (protect_relro os ps (memory_of (image_at st im))) st)))"
  by (intro same_frame_and_then assms)
    (metis same_frame_activate same_frame_relocate same_frame_vm prod.collapse)+

lemma discover_tls_memory: "discover_tls_phdrs found phs img = Some img' \<Longrightarrow> memory_of img' = memory_of img"
  by (induction found phs img rule: discover_tls_phdrs.induct) (auto simp: Let_def split: if_splits)

lemma parse_finish_memory: "parse_finish (img, p) = Some (img', p') \<Longrightarrow> memory_of img' = memory_of img"
  by (auto simp: parse_finish_def Let_def split: if_splits)

lemma parse_dynamic_tags_memory:
  assumes "parse_dynamic_tags m d img = Some (img', p)"
  shows "memory_of img' = memory_of img"
proof -
  from assms obtain n p0 st where run: "parse_tags m n 0 (img, p0) = Some st" and fin: "parse_finish st = Some (img', p)"
    by (auto simp: parse_dynamic_tags_def Let_def split: if_splits option.splits)
  from parse_tags_memory [OF run] parse_finish_memory [of "fst st" "snd st" img' p] fin show ?thesis by simp
qed

lemma establish_memory: "establish_symbol_count m p img = Some (ok, img') \<Longrightarrow> memory_of img' = memory_of img"
  by (auto simp: establish_symbol_count_def Let_def split: option.splits)

lemma image_metadata_memory:
  assumes "image_metadata m d img = Some (ok, img', p)"
  shows "memory_of img' = memory_of img"
proof (cases "discover_tls_segment img")
  case None
  with assms show ?thesis by (simp add: image_metadata_def)
next
  case (Some img1)
  then have 1: "memory_of img1 = memory_of img" unfolding discover_tls_segment_def by (rule discover_tls_memory)
  show ?thesis
  proof (cases "parse_dynamic_tags m d img1")
    case None
    with assms Some 1 show ?thesis by (simp add: image_metadata_def)
  next
    case P: (Some r)
    then obtain img2 p2 where r: "r = (img2, p2)" by fastforce
    from parse_dynamic_tags_memory P r 1 have 2: "memory_of img2 = memory_of img" by simp
    with assms Some P r establish_memory [of m p2 img2] show ?thesis
      by (auto simp: image_metadata_def split: option.splits)
  qed
qed

lemma same_frame_link:
  assumes "link_image env os lc ps d im st = Some (ok, st')"
  shows "same_frame st st'"
proof -
  from assms obtain ready img p where
    md: "image_metadata (vm_mem (vm_of st)) d (image_at st im) = Some (ready, img, p)"
    by (cases "image_metadata (vm_mem (vm_of st)) d (image_at st im)") (auto simp: link_image_def)
  define st3 where "st3 = set_image im img st"
  have f3: "same_frame st st3" unfolding st3_def by (rule same_frame_image) (rule image_metadata_memory [OF md])
  have run: "(if \<not> ready \<or> requires_system_tls_runtime (vm_mem (vm_of st3)) img then Some (False, st3)
      else case build_symbol_index ps (arena_mmap os st3) (symbols img, pages_of st3, vm_mem (vm_of st3)) of
             None \<Rightarrow> None
           | Some (syms, s) \<Rightarrow>
             Some (and_then (and_then (and_then (and_then
               (open_dependencies env os ps im p (set_image im (img\<lparr>symbols := syms\<rparr>) (set_arena s st3)))
               (activate_image_tls lc im))
               (relocate_loaded_image env os ps im))
               (\<lambda>st. with_vm (restore_anonymous_protections os ps (memory_of (image_at st im))) st))
               (\<lambda>st. with_vm (protect_relro os ps (memory_of (image_at st im))) st))) = Some (ok, st')"
    using assms unfolding link_image_def md st3_def Let_def by simp
  show ?thesis
  proof (cases "\<not> ready \<or> requires_system_tls_runtime (vm_mem (vm_of st3)) img")
    case True
    with run f3 show ?thesis by auto
  next
    case False
    with run obtain syms s where
      b: "build_symbol_index ps (arena_mmap os st3) (symbols img, pages_of st3, vm_mem (vm_of st3)) = Some (syms, s)"
      by (auto split: option.splits)
    define st4 where "st4 = set_image im (img\<lparr>symbols := syms\<rparr>) (set_arena s st3)"
    have "memory_of (img\<lparr>symbols := syms\<rparr>) = memory_of (image_at (set_arena s st3) im)"
      by (simp add: set_arena_def st3_def set_image_def)
    then have f4: "same_frame st3 st4"
      unfolding st4_def by (rule same_frame_trans [OF same_frame_arena same_frame_image])
    have dep: "same_frame st4 (snd (open_dependencies env os ps im p st4))"
      unfolding open_dependencies_def by (rule same_frame_dependencies) (rule prod.collapse [symmetric])
    have "same_frame st4 st'"
      using same_frame_chain [OF dep, of lc im env os ps] run False b by (simp add: st4_def [symmetric])
    with f3 f4 show ?thesis using same_frame_trans by blast
  qed
qed

lemma load_image_frame:
  assumes run: "load_image env os lc ps source layout fb im h st = Some (ok, st')"
    and create: "create_image_space os ps source layout fb im st = (c, st1)"
  shows "registry_of st' = registry_of st \<and> trace st' = trace st \<and>
    g_initializing_image st' = g_initializing_image st \<and> live_of st' = live_of st1 \<and>
    memory_of (image_at st' im) = memory_of (image_at st1 im) \<and>
    (\<forall>x. x \<noteq> h \<longrightarrow> handles st' x = handles st x) \<and> private_state (handles st' h) = private_state (handles st h) \<and> (ok \<longrightarrow> c)"
proof -
  have st1: "registry_of st1 = registry_of st" "trace st1 = trace st" "handles st1 = handles st"
    "g_initializing_image st1 = g_initializing_image st"
    using create by (auto simp: create_image_space_def set_image_def Let_def split: prod.splits)
  show ?thesis
  proof (cases c)
    case False
    with run create st1 show ?thesis by (simp add: load_image_def)
  next
    case True
    from run create True have "link_image env os lc ps (sl_dynamic_index layout) im
        (st1\<lparr>handles := (handles st1)(h := (handles st1 h)\<lparr>load_bias := bias (memory_of (image_at st1 im)),
           map_size := span (memory_of (image_at st1 im))\<rparr>)\<rparr>) = Some (ok, st')"
      by (simp add: load_image_def Let_def)
    from same_frame_link [OF this] show ?thesis using st1 True by (auto simp: same_frame_def)
  qed
qed
section \<open>A failing load leaves nothing behind\<close>

lemma metadata_allocate_nonnull:
  assumes "arena_inv s bs" and "mmap_documented mmap" and "page_size_ok ps"
    and "metadata_allocate ps mmap n 8 s = (Some a, s')"
  shows "arena_inv s' ((unat a, unat n) # bs) \<and> a \<noteq> 0"
proof -
  have inv: "arena_inv s' ((unat a, unat n) # bs)"
    using arena.alloc_some [of ps mmap s bs "(n, 8)" a s'] assms by (simp add: arena_contract_def arena_alloc_def)
  then obtain p where "block_in_page (unat a, unat n) p" by (auto simp: arena_inv_def)
  then have "0 < unat a" by (simp add: block_in_page_def)
  with inv show ?thesis by (auto simp: unat_gt_0)
qed

lemma arena_inv_memory: "arena_inv (pages, m) bs = arena_inv (pages, m') bs"
  by (simp add: arena_inv_def)

lemma arena_mmap_documented: "mmap_documented (os_mmap os) \<Longrightarrow> mmap_documented (arena_mmap os st)"
  unfolding mmap_documented_def arena_mmap_def by (auto 0 3)

lemma mmap_result_fresh:
  assumes "mmap_documented mmap" and "mmap regions n = Some a" and "n \<noteq> 0"
  shows "(a, n) \<notin> set regions" and "a \<noteq> 0"
proof -
  have "0 < unat n" using assms(3) by (simp add: unat_gt_0)
  with assms(1,2) show "(a, n) \<notin> set regions"
    unfolding mmap_documented_def block_disjoint_def by fastforce
  show "a \<noteq> 0" using assms(1,2) unfolding mmap_documented_def by (auto simp: unat_gt_0 dest!: spec)
qed

lemma create_address_space_reservation:
  assumes doc: "mmap_documented (os_mmap os)" and sz: "sl_highest_vaddr l - sl_lowest_vaddr l \<noteq> 0"
    and run: "create_address_space os ps live source l fb empty_space pages v = (c, sp, pages', v')"
  shows "(c \<longrightarrow> reservation sp \<noteq> 0) \<and> (reservation sp = 0 \<or> (reservation sp, span sp) \<notin> set live)"
proof (cases "os_mmap os (live @ map (\<lambda>p. (page_base p, mapped_size p)) pages) (sl_highest_vaddr l - sl_lowest_vaddr l)")
  case None
  with run show ?thesis by (auto simp: create_address_space_def empty_space_def)
next
  case (Some res)
  note fresh = mmap_result_fresh [OF doc Some sz]
  from run Some have "c \<and> reservation sp = res \<and> span sp = sl_highest_vaddr l - sl_lowest_vaddr l \<or>
      \<not> c \<and> (reservation sp = 0 \<or> reservation sp = res \<and> span sp = sl_highest_vaddr l - sl_lowest_vaddr l)"
    by (auto simp: create_address_space_def Let_def split: option.splits prod.splits bool.splits)
  with fresh show ?thesis by auto
qed

lemma create_image_space_live:
  assumes doc: "mmap_documented (os_mmap os)" and sz: "sl_highest_vaddr l - sl_lowest_vaddr l \<noteq> 0"
    and new: "memory_of (image_at st im) = empty_space"
    and run: "create_image_space os ps source l fb im st = (c, st1)"
  defines "sp \<equiv> memory_of (image_at st1 im)"
  shows "live_of st1 = (if c then (reservation sp, span sp) # live_of st else live_of st)"
    and "c \<longrightarrow> reservation sp \<noteq> 0" and "reservation sp = 0 \<or> (reservation sp, span sp) \<notin> set (live_of st)"
proof -
  obtain c' sp' pages v where cr: "create_address_space os ps (live_of st) source l fb empty_space (pages_of st) (vm_of st) =
      (c', sp', pages, v)" by (metis prod_cases4)
  have c: "c = c'" "sp = sp'"
    "live_of st1 = (if c then (reservation sp, span sp) # live_of st else live_of st)"
    using run by (auto simp: create_image_space_def new cr set_image_def Let_def sp_def split: if_splits)
  then show "live_of st1 = (if c then (reservation sp, span sp) # live_of st else live_of st)" by simp
  from create_address_space_reservation [OF doc sz cr] c
  show "c \<longrightarrow> reservation sp \<noteq> 0" "reservation sp = 0 \<or> (reservation sp, span sp) \<notin> set (live_of st)" by auto
qed

lemma close_dependencies_frame:
  "registry_of (close_dependencies im st) = registry_of st" "live_of (close_dependencies im st) = live_of st"
  "handles (close_dependencies im st) = handles st" "g_initializing_image (close_dependencies im st) = g_initializing_image st"
  "memory_of (image_at (close_dependencies im st) x) = memory_of (image_at st x)"
  "\<exists>hs. trace (close_dependencies im st) = trace st @ map SysClose hs"
  by (auto simp: close_dependencies_def set_image_def Let_def)

lemma deactivate_image_frame: "same_frame st (deactivate_image_tls im st)"
  using deactivate_tls_memory by (auto simp: deactivate_image_tls_def same_frame_def Let_def split: prod.splits)

lemma release_failed_image_frame:
  defines "sp st im \<equiv> memory_of (image_at st im)"
  shows "registry_of (release_failed_image im h st) = registry_of st"
    "g_initializing_image (release_failed_image im h st) = g_initializing_image st"
    "live_of (release_failed_image im h st) =
       (if reservation (sp st im) = 0 then live_of st else remove1 (reservation (sp st im), span (sp st im)) (live_of st))"
    "handles (release_failed_image im h st) = (handles st)(h := \<lparr>load_bias = 0, map_size = 0, private_state = 0\<rparr>)"
    "\<exists>hs. trace (release_failed_image im h st) = trace st @ map SysClose hs"
proof -
  let ?st1 = "close_dependencies im (deactivate_image_tls im st)"
  note d = deactivate_image_frame [of st im, unfolded same_frame_def]
  have f: "registry_of ?st1 = registry_of st" "live_of ?st1 = live_of st" "handles ?st1 = handles st"
    "g_initializing_image ?st1 = g_initializing_image st" "memory_of (image_at ?st1 im) = sp st im"
    "\<exists>hs. trace ?st1 = trace st @ map SysClose hs"
    using d close_dependencies_frame(1-5) [of im "deactivate_image_tls im st"]
      close_dependencies_frame(6) [of im "deactivate_image_tls im st"] by (simp_all add: sp_def)
  show "registry_of (release_failed_image im h st) = registry_of st"
    "g_initializing_image (release_failed_image im h st) = g_initializing_image st"
    "live_of (release_failed_image im h st) =
       (if reservation (sp st im) = 0 then live_of st else remove1 (reservation (sp st im), span (sp st im)) (live_of st))"
    "handles (release_failed_image im h st) = (handles st)(h := \<lparr>load_bias = 0, map_size = 0, private_state = 0\<rparr>)"
    "\<exists>hs. trace (release_failed_image im h st) = trace st @ map SysClose hs"
    using f by (simp_all add: release_failed_image_def Let_def set_image_def unmap_def)
qed

text \<open>The frame of the whole failing path, from the state in which the image was allocated.\<close>

lemma failed_load_clean:
  assumes doc: "mmap_documented (os_mmap os)" and sz: "sl_highest_vaddr l - sl_lowest_vaddr l \<noteq> 0"
    and live: "live_of st = (src, n) # L" and new: "memory_of (image_at st im) = empty_space"
    and run: "load_image env os lc ps source l fb im h st = Some (False, st5)"
  defines "st' \<equiv> release_failed_image im h (unmap src n st5)"
  shows "registry_of st' = registry_of st \<and> live_of st' = L \<and> g_initializing_image st' = g_initializing_image st \<and>
    private_state (handles st' h) = 0 \<and> (\<forall>x. x \<noteq> h \<longrightarrow> handles st' x = handles st x) \<and>
    (\<exists>hs. trace st' = trace st @ map SysClose hs)"
proof -
  obtain c st1 where cr: "create_image_space os ps source l fb im st = (c, st1)" by fastforce
  note cl = create_image_space_live [OF doc sz new cr]
  note fr = load_image_frame [OF run cr]
  let ?sp = "memory_of (image_at st1 im)" and ?st6 = "unmap src n st5"
  have u: "registry_of ?st6 = registry_of st" "g_initializing_image ?st6 = g_initializing_image st"
    "trace ?st6 = trace st" "memory_of (image_at ?st6 im) = ?sp" "handles ?st6 = handles st5"
    "live_of ?st6 = remove1 (src, n) (live_of st1)"
    using fr by (simp_all add: unmap_def)
  have "live_of st' = L"
  proof (cases c)
    case True
    then have "live_of ?st6 = (reservation ?sp, span ?sp) # L" "reservation ?sp \<noteq> 0"
      using cl live u(6) by auto
    then show ?thesis unfolding st'_def release_failed_image_frame(3) u(4) by simp
  next
    case False
    then have "live_of ?st6 = L" using cl(1) live u(6) by simp
    moreover have "reservation ?sp = 0 \<or> (reservation ?sp, span ?sp) \<notin> set L" using cl(3) live by auto
    ultimately show ?thesis unfolding st'_def release_failed_image_frame(3) u(4) by (auto simp: remove1_idem)
  qed
  moreover have "\<exists>hs. trace st' = trace st @ map SysClose hs"
    using release_failed_image_frame(5) [of im h ?st6] by (simp add: st'_def u)
  ultimately show ?thesis
    using fr by (auto simp: st'_def release_failed_image_frame(1,2,4) u)
qed

section \<open>Closing\<close>

lemma run_finalizers_calls:
  "trace (run_finalizers im st) = trace st @
     (let img = image_at st im; lc = lifecycle img in
      if initialized lc
      then lifecycle_calls img (rev (function_array (vm_mem (vm_of st)) (fini_array lc) (fini_count lc))) @
           lifecycle_calls img [lc_fini lc] @ map exit_event (exit_callbacks img)
      else [])"
  using drain_order [of 0 "exit_callbacks (image_at st im)"]
  by (simp add: run_finalizers_def Let_def set_image_def)

lemma run_finalizers_frame:
  "registry_of (run_finalizers im st) = registry_of st" "live_of (run_finalizers im st) = live_of st"
  "handles (run_finalizers im st) = handles st" "vm_of (run_finalizers im st) = vm_of st"
  "tls_of (run_finalizers im st) = tls_of st"
  "memory_of (image_at (run_finalizers im st) x) = memory_of (image_at st x)"
  "dependencies (image_at (run_finalizers im st) x) = dependencies (image_at st x)"
  "tls (image_at (run_finalizers im st) x) = tls (image_at st x)"
  by (simp_all add: run_finalizers_def Let_def set_image_def)

lemma deactivate_image_fields:
  "dependencies (image_at (deactivate_image_tls im st) x) = dependencies (image_at st x)"
  "vm_of (deactivate_image_tls im st) = vm_of st" "\<not> active (tls (image_at (deactivate_image_tls im st) im))"
  by (auto simp: deactivate_image_tls_def deactivate_tls_def Let_def split: prod.splits)

text \<open>C30: Closing a handle releases everything the image holds, once: \<open>dlclose\<close> calls the finalizer
  array from the last entry to the first, then the finalizer, then the exit callbacks from the newest
  on, each only if the initializers ran; it closes the system libraries, takes the image off the
  registry, ends its thread-local storage and unmaps its memory by one call; closing the handle again
  changes nothing.\<close>

theorem dlclose_releases:
  assumes rep: "dl_rep (registry_of st) ims" and h: "h \<noteq> 0" "private_state (handles st h) = im" "im \<noteq> 0"
    and reg: "im \<in> set ims" and res: "reservation (memory_of (image_at st im)) \<noteq> 0"
  shows "(let st' = dlclose h st; img = image_at st im; lc = lifecycle img; sp = memory_of img in
    dl_rep (registry_of st') (remove1 im ims) \<and> live_of st' = remove1 (reservation sp, span sp) (live_of st) \<and>
    vm_munmaps (vm_of st') = vm_munmaps (vm_of st) @ [(reservation sp, span sp)] \<and>
    \<not> active (tls (image_at st' im)) \<and>
    trace st' = trace st @
      (if initialized lc
       then lifecycle_calls img (rev (function_array (vm_mem (vm_of st)) (fini_array lc) (fini_count lc))) @
            lifecycle_calls img [lc_fini lc] @ map exit_event (exit_callbacks img)
       else []) @ map SysClose (filter (\<lambda>d. d \<noteq> 0) (dependencies img)) \<and>
    dlclose h st' = st')"
proof -
  define st1 where "st1 = run_finalizers im st"
  define st2 where "st2 = set_image im (discard_exit_callbacks (image_at st1 im)) st1"
  define st3 where "st3 = deactivate_image_tls im st2"
  define st4 where "st4 = st3\<lparr>registry_of := unregister_image im (registry_of st3)\<rparr>"
  define st5 where "st5 = close_dependencies im st4"
  let ?sp = "memory_of (image_at st im)"
  have f2: "registry_of st2 = registry_of st" "live_of st2 = live_of st" "handles st2 = handles st"
    "vm_of st2 = vm_of st" "memory_of (image_at st2 im) = ?sp" "trace st2 = trace st1"
    "dependencies (image_at st2 im) = dependencies (image_at st im)"
    by (simp_all add: st2_def st1_def set_image_def discard_exit_callbacks_def run_finalizers_frame)
  note d = deactivate_image_frame [of st2 im, folded st3_def, unfolded same_frame_def]
  note d' = deactivate_image_fields [of im st2, folded st3_def]
  have f5: "registry_of st5 = unregister_image im (registry_of st)" "live_of st5 = live_of st"
    "handles st5 = handles st" "vm_of st5 = vm_of st" "memory_of (image_at st5 im) = ?sp"
    "trace st5 = trace st1 @ map SysClose (filter (\<lambda>d. d \<noteq> 0) (dependencies (image_at st im)))"
    "\<not> active (tls (image_at st5 im))"
    using d d' f2 by (simp_all add: st5_def st4_def close_dependencies_def set_image_def Let_def)
  have run: "dlclose h st = (let st6 = unmap (reservation ?sp) (span ?sp) st5;
      st7 = set_image im ((image_at st6 im)\<lparr>memory_of := ?sp\<lparr>reservation := 0\<rparr>\<rparr>) st6
      in st7\<lparr>handles := (handles st7)(h := \<lparr>load_bias = 0, map_size = 0, private_state = 0\<rparr>)\<rparr>)"
    unfolding dlclose_def Let_def using h res f5(5)
    by (simp add: st1_def [symmetric] st2_def [symmetric] st3_def [symmetric] st4_def [symmetric] st5_def [symmetric])
  have again: "dlclose h (dlclose h st) = dlclose h st"
    by (simp add: dlclose_def [of h "dlclose h st"]) (simp add: run Let_def set_image_def unmap_def)
  have "trace (dlclose h st) = trace st5" "registry_of (dlclose h st) = registry_of st5"
    "live_of (dlclose h st) = remove1 (reservation ?sp, span ?sp) (live_of st)"
    "vm_munmaps (vm_of (dlclose h st)) = vm_munmaps (vm_of st) @ [(reservation ?sp, span ?sp)]"
    "\<not> active (tls (image_at (dlclose h st) im))"
    using f5 by (simp_all add: run Let_def set_image_def unmap_def vm_munmap_def vm_protect_def)
  with again f5 run_finalizers_calls [of im st, folded st1_def] reg.rep_del [OF rep reg] show ?thesis
    by (simp add: Let_def)
qed

section \<open>Concrete states\<close>

definition start_loader :: loader where
  "start_loader = \<lparr>images_of = (\<lambda>_. new_image), handles = (\<lambda>_. \<lparr>load_bias = 0, map_size = 0, private_state = 0\<rparr>),
     registry_of = empty_registry, tls_of = initial_tls, threads_of = Map.empty, vm_of = blank_vm, pages_of = [],
     live_of = [], g_initializing_image = 0, trace = []\<rparr>"

text \<open>Three bytes are no ELF file: the source is mapped, refused and unmapped.\<close>

definition demo_source_os :: os where
  "demo_source_os = \<lparr>os_mmap = (\<lambda>regions n. if regions = [] \<and> n = 3 then Some 0x30000 else None),
     os_mmap_fixed = (\<lambda>_ _ _ _. True), os_mprotect = (\<lambda>_ _ _ _. True)\<rparr>"


definition open_loader :: loader where
  "open_loader = start_loader\<lparr>
     images_of := (\<lambda>_. new_image)(64 := new_image\<lparr>memory_of := empty_space\<lparr>reservation := 0x10000, span := 0x1000\<rparr>,
       dependencies := [0, 5], lifecycle := (lifecycle new_image)\<lparr>lc_fini := 0x10040, initialized := True\<rparr>,
       exit_callbacks := [\<lparr>cb_function = 7, cb_argument = 9, cb_dso = 0x10010\<rparr>]\<rparr>),
     handles := (\<lambda>_. \<lparr>load_bias = 0, map_size = 0, private_state = 0\<rparr>)(32 := \<lparr>load_bias = 0x10000, map_size = 0x1000,
       private_state = 64\<rparr>),
     registry_of := register_image 64 empty_registry, live_of := [(0x10000, 0x1000)]\<rparr>"

theorem dlclose_releases_witness:
  "dl_rep (registry_of open_loader) [64] \<and>
   live_of (dlclose 32 open_loader) = [] \<and> dl_rep (registry_of (dlclose 32 open_loader)) [] \<and>
   trace (dlclose 32 open_loader) = [Call 0x10040, ExitCall 7 9, SysClose 5]"
proof -
  have rep: "dl_rep (registry_of open_loader) [64]"
    using reg.rep_add [OF reg.rep_empty, of 64] by (simp add: open_loader_def)
  have h: "(32 :: u64) \<noteq> 0" "private_state (handles open_loader 32) = 64" "(64 :: u64) \<noteq> 0"
    "reservation (memory_of (image_at open_loader 64)) \<noteq> 0" by (simp_all add: open_loader_def)
  from dlclose_releases [OF rep h(1-3) _ h(4)] have
    "live_of (dlclose 32 open_loader) = []" "dl_rep (registry_of (dlclose 32 open_loader)) []"
    "trace (dlclose 32 open_loader) = [Call 0x10040, ExitCall 7 9, SysClose 5]"
    by (simp_all add: Let_def open_loader_def start_loader_def new_image_def empty_space_def function_array_def
        lifecycle_calls_def normalized_lifecycle_function_def image_contains_def address_space_contains_def exit_event_def)
  with rep show ?thesis by blast
qed

text \<open>A kernel that grants the reservation and nothing else.\<close>

definition starved_os :: os where
  "starved_os = \<lparr>os_mmap = (\<lambda>regions n. if regions = [] \<and> n = 0x1000 then Some 0x10000 else None),
     os_mmap_fixed = (\<lambda>_ _ _ _. True), os_mprotect = (\<lambda>_ _ _ _. True)\<rparr>"

text \<open>When the reservation succeeds and the metadata arena cannot grow,
  \<^verbatim>\<open>create_address_space\<close> unmaps the reservation but leaves it recorded in the image, and \<^verbatim>\<open>release_failed_image\<close> unmaps the same
  range a second time.\<close>

lemma failed_reservation_unmapped_twice:
  "\<exists>st1. create_image_space starved_os 4096 tiny_elf tiny_layout False 64 start_loader = (False, st1) \<and>
     vm_munmaps (vm_of (release_failed_image 64 32 st1)) = [(0x10000, 0x1000), (0x10000, 0x1000)]"
  by (simp add: create_image_space_def create_address_space_def starved_os_def start_loader_def tiny_layout_def
      multiply_overflow_def metadata_allocate_def is_power_of_two_def add_overflow_def header_aligned_def page_ceil_def
      page_floor_def kMetadataPageSize_def Let_def new_image_def set_image_def release_failed_image_def
      deactivate_image_tls_def deactivate_tls_def close_dependencies_def unmap_def vm_munmap_def vm_protect_def
      vm_map_anon_def blank_vm_def)

end
