(* ===== verification/Page_Writes.thy ===== *)
theory Page_Writes
  imports Yz_Prelude
begin

text \<open>
  Building up the contents of one 4096-byte page by writes at offsets: what later writes leave of an
  earlier one, and that nothing outside the page changes.  Shared by the two inline hook back ends,
  so the addresses may have any width of at least 13 bits.
\<close>

definition page_writes :: "'a::len word \<Rightarrow> (nat \<times> u8 list) list \<Rightarrow> ('a word \<Rightarrow> u8) \<Rightarrow> ('a word \<Rightarrow> u8)" where
  "page_writes p ws m = foldl (\<lambda>m (k, bs). write_bytes m (p + of_nat k) bs) m ws"

definition within_page :: "(nat \<times> u8 list) list \<Rightarrow> bool" where
  "within_page ws \<longleftrightarrow> list_all (\<lambda>(k, bs). k + length bs \<le> 0x1000) ws"

definition off_limits :: "nat \<Rightarrow> nat \<Rightarrow> (nat \<times> u8 list) list \<Rightarrow> bool" where
  "off_limits k n ws \<longleftrightarrow> list_all (\<lambda>(j, bs). j + length bs \<le> k \<or> k + n \<le> j) ws"

lemma page_bound: "12 < LENGTH('a::len) \<Longrightarrow> n \<le> 0x1000 \<Longrightarrow> n \<le> 2 ^ LENGTH('a)" for n :: nat
proof -
  assume "12 < LENGTH('a)" and n: "n \<le> 0x1000"
  then have "(2 :: nat) ^ 12 \<le> 2 ^ LENGTH('a)" by (intro power_increasing) simp_all
  with n show ?thesis by simp
qed

lemma in_page:
  fixes p :: "'a::len word"
  assumes "in_range (p + of_nat k) n x" and "k + n \<le> 0x1000" and "12 < LENGTH('a)"
  shows "in_range p 0x1000 x"
  using assms(1,2) page_bound [OF assms(3,2)] by (rule in_range_within)

lemma page_writes_frame [frame]:
  fixes p :: "'a::len word"
  assumes len: "12 < LENGTH('a)"
  shows "within_page ws \<Longrightarrow> \<not> in_range p 0x1000 x \<Longrightarrow> page_writes p ws m x = m x"
proof (induction ws arbitrary: m)
  case (Cons w ws)
  obtain k bs where w: "w = (k, bs)" by fastforce
  have "write_bytes m (p + of_nat k) bs x = m x"
    using Cons.prems w in_page [of p k "length bs" x, OF _ _ len]
    by (intro write_bytes_frame) (auto simp: within_page_def)
  with Cons w show ?case by (simp add: page_writes_def within_page_def)
qed (simp add: page_writes_def)

lemma page_writes_keep:
  fixes p :: "'a::len word"
  assumes len: "12 < LENGTH('a)"
  shows "within_page ws \<Longrightarrow> off_limits k n ws \<Longrightarrow> k + n \<le> 0x1000 \<Longrightarrow>
     read_bytes (page_writes p ws m) (p + of_nat k) n = read_bytes m (p + of_nat k) n"
proof (induction ws arbitrary: m)
  case (Cons w ws)
  obtain j bs where w: "w = (j, bs)" by fastforce
  have "read_bytes (write_bytes m (p + of_nat j) bs) (p + of_nat k) n = read_bytes m (p + of_nat k) n"
    using Cons.prems w
    by (intro read_write_disjoint_len page_bound [OF len]) (auto simp: within_page_def off_limits_def)
  with Cons w show ?case by (simp add: page_writes_def within_page_def off_limits_def)
qed (simp add: page_writes_def)

lemma page_writes_read:
  fixes p :: "'a::len word"
  assumes "within_page (ws @ (k, bs) # ws')" and "off_limits (k + i) n ws'" and "i + n \<le> length bs"
    and len: "12 < LENGTH('a)"
  shows "read_bytes (page_writes p (ws @ (k, bs) # ws') m) (p + of_nat (k + i)) n = take n (drop i bs)"
proof -
  let ?m = "page_writes p ws m"
  have bs: "k + length bs \<le> 0x1000" and w: "within_page ws'"
    using assms(1) by (simp_all add: within_page_def)
  have "read_bytes (page_writes p (ws @ (k, bs) # ws') m) (p + of_nat (k + i)) n =
      read_bytes (write_bytes ?m (p + of_nat k) bs) (p + of_nat (k + i)) n"
    using page_writes_keep [OF len w assms(2)] assms(3) bs by (simp add: page_writes_def)
  also have "\<dots> = take n (drop i bs)"
    using read_slice_len [of i n bs ?m "p + of_nat k"] page_bound [OF len, of "length bs"] assms(3) bs
    by (simp add: add.assoc)
  finally show ?thesis .
qed

end
