(* ===== verification/Inline_Hook64.thy ===== *)
theory Inline_Hook64
  imports Address_Space Page_Writes
begin

text \<open>
  The inline hook of \<^verbatim>\<open>inline_hook.hpp\<close>, its arm64 part: \<^verbatim>\<open>install\<close> overwrites the first two
  instructions of a function with a landing pad and a branch to a capture stub on a nearby page, and
  keeps a trampoline there that runs the two saved instructions and branches back;
  \<^verbatim>\<open>uninstall\<close> takes the patch away again.

  The kernel and the daemon are the parameter \<open>hook_env\<close>: which pages \<^verbatim>\<open>mmap\<close> gives, whether
  \<^verbatim>\<open>mprotect\<close>, \<^verbatim>\<open>madvise\<close> and the text patch service succeed, and the contents of the files
  behind private mappings.  The capture stub is assembled in \<^verbatim>\<open>self_unmap.S\<close>; its bytes and the
  offsets of its two slots are fields as well.
\<close>

section \<open>Environment\<close>

record hook_env =
  he_mmap :: "vm \<Rightarrow> u64 \<Rightarrow> u64 option"
  he_mprotect :: "vm \<Rightarrow> u64 \<Rightarrow> bool"
  he_patch :: "vm \<Rightarrow> u64 \<Rightarrow> u8 list \<Rightarrow> bool \<times> nat"
  he_madvise :: "vm \<Rightarrow> u64 \<Rightarrow> u64 \<Rightarrow> bool"
  he_page_size :: u64
  he_backing :: memory
  he_tmpl :: "u8 list"
  he_ctx_off :: nat
  he_wrap_off :: nat
  he_ret_ctx :: u64

text \<open>\<open>he_patch\<close> gives what the patch service reports and how many bytes it wrote.\<close>

definition yz_patch_text :: "hook_env \<Rightarrow> u64 \<Rightarrow> u8 list \<Rightarrow> vm \<Rightarrow> bool \<times> vm" where
  "yz_patch_text env addr bs v = (case he_patch env v addr bs of (ok, n) \<Rightarrow> (ok, vm_store addr (take n bs) v))"

text \<open>\<^verbatim>\<open>MADV_DONTNEED\<close> on a private file mapping: the next access sees the file again.\<close>

definition drop_private :: "hook_env \<Rightarrow> u64 \<Rightarrow> u64 \<Rightarrow> vm \<Rightarrow> vm" where
  "drop_private env a len v =
     v\<lparr>vm_mem := (\<lambda>x. if in_range a (unat len) x then he_backing env x else vm_mem v x)\<rparr>"

datatype UnhookMode = RestoreBytes | DiscardCowPages

text \<open>The range given to \<^verbatim>\<open>madvise\<close>, for either pointer width; \<open>None\<close> is \<^verbatim>\<open>return false\<close>.\<close>

definition cow_range :: "'a::len word \<Rightarrow> 'a word \<Rightarrow> 'a word \<Rightarrow> ('a word \<times> 'a word) option" where
  "cow_range page_size address patch_size =
     (if patch_size = 0 \<or> address > - 1 - (patch_size - 1) then None
      else
        let first_page = address - address mod page_size;
            last = address + patch_size - 1;
            last_page = last - last mod page_size
        in if last_page > - 1 - page_size then None
           else Some (first_page, last_page - first_page + page_size))"

definition discard_cow_patch_pages :: "hook_env \<Rightarrow> u64 \<Rightarrow> u64 \<Rightarrow> vm \<Rightarrow> bool \<times> vm" where
  "discard_cow_patch_pages env address patch_size v =
     (case cow_range (he_page_size env) address patch_size of
        None \<Rightarrow> (False, v)
      | Some (first_page, len) \<Rightarrow>
          if he_madvise env v first_page len then (True, drop_private env first_page len v) else (False, v))"

section \<open>Instructions\<close>

record Hook =
  hk_target :: u64
  hk_saved :: "u32 list"
  hk_trampoline :: u64
  hk_active :: bool

definition is_pcrel :: "u32 \<Rightarrow> bool" where
  "is_pcrel i \<longleftrightarrow>
     i AND 0x1F000000 = 0x10000000 \<or>
     i AND 0x7C000000 = 0x14000000 \<or>
     i AND 0xFF000010 = 0x54000000 \<or>
     i AND 0x7E000000 = 0x34000000 \<or>
     i AND 0x7E000000 = 0x36000000 \<or>
     i AND 0x3B000000 = 0x18000000"

text \<open>The signed difference of two addresses, shifted arithmetically and cut to 26 bits.\<close>

definition enc_b :: "u64 \<Rightarrow> u64 \<Rightarrow> u32" where
  "enc_b from to = 0x14000000 OR (ucast (signed_drop_bit 2 (to - from)) AND 0x03FFFFFF)"

section \<open>The trampoline page\<close>

definition try_hint :: "hook_env \<Rightarrow> u64 \<Rightarrow> vm \<Rightarrow> u64 option \<times> vm" where
  "try_hint env hint v =
     (case he_mmap env v hint of
        None \<Rightarrow> (None, v)
      | Some p \<Rightarrow>
          let v1 = vm_map_anon p 0x1000 (PROT_READ OR PROT_WRITE OR PROT_EXEC) v
          in if p = hint then (Some p, v1) else (None, vm_munmap p 0x1000 v1))"

text \<open>The loop over the distances; for each of them the page below is tried before the page above.\<close>

function alloc_from :: "hook_env \<Rightarrow> u64 \<Rightarrow> u64 \<Rightarrow> vm \<Rightarrow> u64 option \<times> vm" where
  "alloc_from env base off v =
     (if off \<le> 0x7800000
      then case try_hint env (base - off) v of
             (Some p, v1) \<Rightarrow> (Some p, v1)
           | (None, v1) \<Rightarrow>
               (case try_hint env (base + off) v1 of
                  (Some p, v2) \<Rightarrow> (Some p, v2)
                | (None, v2) \<Rightarrow> alloc_from env base (off + 0x10000) v2)
      else (None, v))"
  by pat_completeness auto
termination
proof (relation "measure (\<lambda>(env, base, off, v). 0x7810000 - unat off)", goal_cases)
  case (2 env base off v)
  then have le: "unat off \<le> 0x7800000" by (simp add: word_le_nat_alt)
  then have "unat (off + 0x10000) = unat off + 0x10000" by (subst unat_add_lt) simp_all
  with le show ?case by simp
qed simp

declare alloc_from.simps [simp del]

text \<open>The page address, or 0 for \<^verbatim>\<open>nullptr\<close>.\<close>

definition alloc_near :: "hook_env \<Rightarrow> u64 \<Rightarrow> vm \<Rightarrow> u64 \<times> vm" where
  "alloc_near env target v =
     (case alloc_from env (target AND NOT 0xFFF) 0x10000 v of
        (None, w) \<Rightarrow> (0, w)
      | (Some p, w) \<Rightarrow> (p, w))"

section \<open>Installing and removing a hook\<close>

definition co_offset :: "hook_env \<Rightarrow> u64" where
  "co_offset env = (of_nat (length (he_tmpl env)) + 3) AND NOT 3"

text \<open>The capture stub with its two slots.\<close>

definition fill_stub :: "hook_env \<Rightarrow> u64 \<Rightarrow> u64 \<Rightarrow> vm \<Rightarrow> vm" where
  "fill_stub env replacement base v =
     vm_store (base + of_nat (he_wrap_off env)) (le64 replacement)
       (vm_store (base + of_nat (he_ctx_off env)) (le64 (he_ret_ctx env))
         (vm_store base (he_tmpl env) v))"

text \<open>The call-original trampoline: the saved instructions and a branch to the third one.\<close>

definition fill_original :: "hook_env \<Rightarrow> u64 \<Rightarrow> u64 \<Rightarrow> vm \<Rightarrow> u32 list \<times> vm" where
  "fill_original env target base v =
     (let co = base + co_offset env;
          insn0 = read32 (vm_mem v) target;
          v1 = vm_store co (le32 insn0) v;
          insn1 = read32 (vm_mem v1) (target + 4);
          v2 = vm_store (co + 4) (le32 insn1) v1
      in ([insn0, insn1], vm_store (co + 8) (le32 (enc_b (co + 8) (target + 8))) v2))"

definition patch_words :: "u64 \<Rightarrow> u64 \<Rightarrow> u8 list" where
  "patch_words target page = le32 0xD503245F @ le32 (enc_b (target + 4) page)"

definition install :: "hook_env \<Rightarrow> u64 \<Rightarrow> u64 \<Rightarrow> Hook \<Rightarrow> vm \<Rightarrow> u64 option \<times> Hook \<times> vm" where
  "install env target replacement out v =
     (if is_pcrel (read32 (vm_mem v) target) \<or> is_pcrel (read32 (vm_mem v) (target + 4))
      then (None, out, v)
      else case alloc_near env target v of (page, v1) \<Rightarrow>
        if page = 0 then (None, out, v1)
        else
          let (saved, v2) = fill_original env target page (fill_stub env replacement page v1);
              out1 = out\<lparr>hk_saved := saved\<rparr>
          in if \<not> he_mprotect env v2 page then (None, out1, vm_munmap page 0x1000 v2)
             else
               let v3 = vm_protect page 0x1000 (Some (PROT_READ OR PROT_EXEC)) v2
               in case yz_patch_text env target (patch_words target page) v3 of (ok, v4) \<Rightarrow>
                    if \<not> ok then (None, out1, vm_munmap page 0x1000 v4)
                    else (Some (page + co_offset env),
                          out1\<lparr>hk_target := target, hk_trampoline := page, hk_active := True\<rparr>, v4))"

definition remove_patch :: "hook_env \<Rightarrow> UnhookMode \<Rightarrow> Hook \<Rightarrow> vm \<Rightarrow> bool \<times> vm" where
  "remove_patch env mode h v =
     (case mode of
        DiscardCowPages \<Rightarrow> discard_cow_patch_pages env (hk_target h) 8 v
      | RestoreBytes \<Rightarrow> yz_patch_text env (hk_target h) (concat (map le32 (hk_saved h))) v)"

definition uninstall :: "hook_env \<Rightarrow> UnhookMode \<Rightarrow> Hook \<Rightarrow> vm \<Rightarrow> bool \<times> Hook \<times> vm" where
  "uninstall env mode h v =
     (if \<not> hk_active h then (True, h, v)
      else case remove_patch env mode h v of (ok, v1) \<Rightarrow>
        if \<not> ok then (False, h, v1)
        else
          (True, h\<lparr>hk_trampoline := 0, hk_active := False\<rparr>,
           if hk_trampoline h \<noteq> 0 then vm_munmap (hk_trampoline h) 0x1000 v1 else v1))"

section \<open>Branches\<close>

text \<open>Where the arm64 instruction \<^verbatim>\<open>B imm26\<close> at address \<open>from\<close> branches to.\<close>

definition b_target :: "u64 \<Rightarrow> u32 \<Rightarrow> u64" where
  "b_target from insn = from + push_bit 2 (signed_take_bit 25 (ucast insn))"

lemma short_word_bits:
  fixes w :: "'a::len word"
  assumes "- (2 ^ k) \<le> sint w" and "sint w < 2 ^ k" and "k \<le> n" and "n < LENGTH('a)"
  shows "bit w n = bit w k"
proof -
  have low: "j < LENGTH('a) \<Longrightarrow> bit (sint w) j = bit w j" for j by (simp add: bit_sint_iff)
  have "signed_take_bit k (sint w) = sint w" using assms(1,2) by (simp add: signed_take_bit_int_eq_self)
  moreover have "bit (signed_take_bit k (sint w)) n = bit (sint w) k"
    using assms(3) by (simp add: bit_signed_take_bit_iff min_def)
  ultimately have "bit (sint w) n = bit (sint w) k" by simp
  then show ?thesis using assms(3,4) by (simp only: low)
qed

lemma bit_word_of_int_low: "4 dvd k \<Longrightarrow> n < 2 \<Longrightarrow> \<not> bit (word_of_int k :: u64) n"
proof -
  assume k: "4 dvd k" and n: "n < 2"
  from k have "take_bit 2 k = 0" by (simp add: take_bit_eq_mod)
  then have "\<not> bit (take_bit 2 k) n" by simp
  with n show ?thesis by (simp add: bit_word_of_int_iff bit_take_bit_iff)
qed

lemma enc_b_bits: "j \<le> 25 \<Longrightarrow> bit (enc_b from to) j = bit (to - from) (j + 2)"
proof -
  assume j: "j \<le> 25"
  have "(0x14000000 :: u32) = push_bit 26 5" by (simp add: push_bit_eq_mult)
  then have op: "\<not> bit (0x14000000 :: u32) j" using j by (simp only: bit_push_bit_iff) simp
  have field: "(0x03FFFFFF :: u32) = mask 26" by (simp add: mask_eq_exp_minus_1)
  show ?thesis
    unfolding enc_b_def field bit_or_iff using op j
    by (simp add: bit_and_iff bit_mask_iff bit_unsigned_iff bit_signed_drop_bit_iff)
qed

text \<open>The branch that \<^verbatim>\<open>enc_b\<close> encodes reaches every word-aligned place within 128 MB.\<close>

lemma b_target_enc_b:
  assumes to: "to - from = word_of_int k" and "4 dvd k" and "- (2 ^ 27) \<le> k" and "k < 2 ^ 27"
  shows "b_target from (enc_b from to) = to"
proof -
  have s: "sint (to - from) = k"
    unfolding to using assms(3,4) by (simp add: sint_sbintrunc' signed_take_bit_int_eq_self)
  have "push_bit 2 (signed_take_bit 25 (ucast (enc_b from to) :: u64)) = to - from"
  proof (rule bit_word_eqI)
    fix n assume n: "n < LENGTH(64)"
    show "bit (push_bit 2 (signed_take_bit 25 (ucast (enc_b from to) :: u64))) n = bit (to - from) n"
    proof (cases "n < 2")
      case True
      then show ?thesis using bit_word_of_int_low [OF assms(2) True] to by (simp add: bit_push_bit_iff)
    next
      case False
      have "bit (push_bit 2 (signed_take_bit 25 (ucast (enc_b from to) :: u64))) n =
          bit (enc_b from to) (min 25 (n - 2))"
        using False n by (auto simp: bit_push_bit_iff bit_signed_take_bit_iff bit_unsigned_iff)
      also have "\<dots> = bit (to - from) (min 25 (n - 2) + 2)" by (rule enc_b_bits) simp
      also have "\<dots> = bit (to - from) n"
      proof (cases "n \<le> 27")
        case True
        then have "min 25 (n - 2) + 2 = n" using False by linarith
        then show ?thesis by (simp only:)
      next
        case False
        then show ?thesis using short_word_bits [of 27 "to - from" n] assms(3,4) n s by simp
      qed
      finally show ?thesis .
    qed
  qed
  then show ?thesis by (simp add: b_target_def)
qed

section \<open>What the kernel and the patch service promise\<close>

definition fresh_pages :: "hook_env \<Rightarrow> bool" where
  "fresh_pages env \<longleftrightarrow>
     (\<forall>v h p x. he_mmap env v h = Some p \<longrightarrow> p \<noteq> 0 \<and> (in_range p 0x1000 x \<longrightarrow> vm_prot v x = None))"

definition patch_all_or_nothing :: "hook_env \<Rightarrow> bool" where
  "patch_all_or_nothing env \<longleftrightarrow>
     (\<forall>v a bs. he_patch env v a bs = (True, length bs) \<or> he_patch env v a bs = (False, 0))"

definition stub_ok :: "hook_env \<Rightarrow> bool" where
  "stub_ok env \<longleftrightarrow>
     he_ctx_off env + 8 \<le> he_wrap_off env \<and> he_wrap_off env + 8 \<le> length (he_tmpl env) \<and>
     length (he_tmpl env) \<le> 0xFF0"

definition mapped :: "vm \<Rightarrow> u64 \<Rightarrow> nat \<Rightarrow> bool" where
  "mapped v a n \<longleftrightarrow> (\<forall>x. in_range a n x \<longrightarrow> vm_prot v x \<noteq> None)"

lemma map_one_more:
  "fresh_pages env \<Longrightarrow> he_mmap env v h = Some p \<Longrightarrow> one_more_page v p prot (vm_map_anon p 0x1000 prot v)"
  unfolding one_more_page_def vm_map_anon_def vm_protect_def fresh_pages_def by fastforce

lemma try_hint_pages:
  assumes "fresh_pages env" and "try_hint env hint v = (r, w)"
  shows "case r of None \<Rightarrow> same_pages v w | Some p \<Rightarrow> p = hint \<and> p \<noteq> 0 \<and> one_more_page v p 7 w"
proof (cases "he_mmap env v hint")
  case None
  with assms(2) show ?thesis by (auto simp: try_hint_def same_pages_refl)
next
  case (Some p)
  note m = map_one_more [OF assms(1) Some]
  have "p \<noteq> 0" using assms(1) Some by (auto simp: fresh_pages_def)
  then show ?thesis
    using assms(2) Some m [of 7] more_then_unmap [OF m [of 7]]
    by (cases "p = hint") (auto simp: try_hint_def Let_def split: option.splits)
qed

definition at_hint :: "u64 \<Rightarrow> u64 \<Rightarrow> bool" where
  "at_hint base p \<longleftrightarrow> (\<exists>d \<le> 0x7800000. 0x10000 dvd d \<and> (p = base - of_nat d \<or> p = base + of_nat d))"

lemma alloc_from_pages:
  assumes "fresh_pages env" and "alloc_from env base off v = (r, w)" and "0x10000 dvd unat off"
  shows "case r of None \<Rightarrow> same_pages v w
     | Some p \<Rightarrow> p \<noteq> 0 \<and> one_more_page v p 7 w \<and> at_hint base p"
  using assms
proof (induction env base off v arbitrary: r w rule: alloc_from.induct)
  case (1 env base off v)
  obtain r1 v1 where h1: "try_hint env (base - off) v = (r1, v1)" by fastforce
  obtain r2 v2 where h2: "try_hint env (base + off) v1 = (r2, v2)" by fastforce
  note p1 = try_hint_pages [OF 1(2) h1] and p2 = try_hint_pages [OF 1(2) h2]
  note eq = 1(3) [unfolded alloc_from.simps [of env base off]]
  show ?case
  proof (cases "off \<le> 0x7800000")
    case False
    then show ?thesis using eq same_pages_refl by auto
  next
    case True
    then have le: "unat off \<le> 0x7800000" by (simp add: word_le_nat_alt)
    have nxt: "unat (off + 0x10000) = unat off + 0x10000" using le by (subst unat_add_lt) simp_all
    have here: "at_hint base (base - off)" "at_hint base (base + off)"
      unfolding at_hint_def using le 1(4) by (auto intro!: exI [of _ "unat off"])
    show ?thesis
    proof (cases r1)
      case (Some p)
      then show ?thesis using eq True h1 p1 here by auto
    next
      case None
      then have s1: "same_pages v v1" using p1 by simp
      show ?thesis
      proof (cases r2)
        case (Some p)
        then have "r = Some p" "w = v2" using eq True h1 h2 None by auto
        then show ?thesis using p2 Some here same_then_more [OF s1] by auto
      next
        case None2: None
        then have "same_pages v v2" using p2 same_pages_trans [OF s1] by simp
        moreover have "alloc_from env base (off + 0x10000) v2 = (r, w)"
          using eq True h1 h2 None None2 by simp
        then have "case r of None \<Rightarrow> same_pages v2 w
           | Some p \<Rightarrow> p \<noteq> 0 \<and> one_more_page v2 p 7 w \<and> at_hint base p"
          using 1(1) [OF True h1 [symmetric] None h2 [symmetric] None2 1(2)] nxt 1(4) by simp
        ultimately show ?thesis
          by (cases r) (auto intro: same_pages_trans same_then_more)
      qed
    qed
  qed
qed

text \<open>The page lies at a word-aligned distance of at most 120 MB and one page from the function.\<close>

lemma alloc_near_page:
  assumes "fresh_pages env" and "alloc_near env target v = (p, w)" and "p \<noteq> 0" and "4 dvd unat target"
  shows "one_more_page v p 7 w"
    and "\<exists>k. p - target = word_of_int k \<and> 4 dvd k \<and> - 0x7801000 \<le> k \<and> k \<le> 0x7800000"
proof -
  let ?base = "target AND NOT 0xFFF"
  from assms(2,3) have "alloc_from env ?base 0x10000 v = (Some p, w)"
    by (simp add: alloc_near_def split: prod.splits option.splits)
  from alloc_from_pages [OF assms(1) this]
  obtain d :: nat where o: "one_more_page v p 7 w"
    and d: "d \<le> 0x7800000" "0x10000 dvd d" "p = ?base - of_nat d \<or> p = ?base + of_nat d" by (auto simp: at_hint_def)
  show "one_more_page v p 7 w" by fact
  let ?r = "int (unat target mod 0x1000)"
  have "unat ?base = unat target div 2 ^ 12 * 2 ^ 12" using unat_align_down [of target 12] by simp
  then have sum: "unat ?base + unat target mod 0x1000 = unat target" by simp
  have "?base + of_nat (unat target mod 0x1000) = of_nat (unat ?base + unat target mod 0x1000)"
    by (simp only: of_nat_add ucast_id of_nat_unat)
  also have "\<dots> = target" unfolding sum by simp
  finally have base: "?base = target - word_of_int ?r" by (simp only: eq_diff_eq of_int_of_nat_eq)
  have "4 dvd unat target mod 0x1000" using assms(4) by (rule dvd_mod) simp
  then have r4: "4 dvd ?r" by (simp only: int_dvd_int_iff [symmetric] of_nat_numeral)
  have "4 dvd d" using d(2) by (rule dvd_trans [rotated]) simp
  then have d4: "4 dvd int d" by (simp only: int_dvd_int_iff [symmetric] of_nat_numeral)
  have rb: "0 \<le> ?r" "?r < 0x1000" by simp_all
  have "p - target = word_of_int (- ?r - int d) \<or> p - target = word_of_int (- ?r + int d)"
    using d(3) unfolding base by auto
  moreover have "4 dvd - ?r - int d \<and> 4 dvd - ?r + int d" using r4 d4 by simp
  moreover have "- 0x7801000 \<le> - ?r - int d" "- ?r - int d \<le> 0x7800000"
    "- 0x7801000 \<le> - ?r + int d" "- ?r + int d \<le> 0x7800000" using rb d(1) by linarith+
  ultimately show "\<exists>k. p - target = word_of_int k \<and> 4 dvd k \<and> - 0x7801000 \<le> k \<and> k \<le> 0x7800000"
    by blast
qed

lemma alloc_near_none:
  assumes "fresh_pages env" and "alloc_near env target v = (0, w)"
  shows "same_pages v w"
proof -
  obtain r where r: "alloc_from env (target AND NOT 0xFFF) 0x10000 v = (r, w)"
    using assms(2) by (auto simp: alloc_near_def split: prod.splits option.splits)
  from alloc_from_pages [OF assms(1) r] r assms(2) show ?thesis
    by (auto simp: alloc_near_def split: option.splits)
qed

section \<open>The contents of the page\<close>

lemma co_offset_nat:
  assumes "stub_ok env"
  obtains c where "co_offset env = of_nat c" and "length (he_tmpl env) \<le> c" and "c \<le> 0xFF0" and "4 dvd c"
proof
  let ?n = "length (he_tmpl env)" and ?c = "(length (he_tmpl env) + 3) div 4 * 4"
  have n: "?n \<le> 0xFF0" using assms by (simp add: stub_ok_def)
  have u: "unat (of_nat (?n + 3) :: u64) = ?n + 3" using n by (intro unat_of_nat_u64) simp
  have "unat (co_offset env) = ?c"
    using unat_align_down [of "of_nat (?n + 3) :: u64" 2] u
    by (simp add: co_offset_def)
  then have "of_nat (unat (co_offset env)) = (of_nat ?c :: u64)" by (simp only:)
  then show "co_offset env = of_nat ?c" by (simp only: of_nat_unat ucast_id)
  show "?n \<le> ?c" by presburger
  show "?c \<le> 0xFF0" using n by presburger
  show "4 dvd ?c" by simp
qed

text \<open>The six writes of the two fill steps.\<close>

definition hook_writes :: "hook_env \<Rightarrow> nat \<Rightarrow> u32 \<Rightarrow> u32 \<Rightarrow> u32 \<Rightarrow> u64 \<Rightarrow> (nat \<times> u8 list) list" where
  "hook_writes env c i0 i1 i2 r =
     [(0, he_tmpl env), (he_ctx_off env, le64 (he_ret_ctx env)), (he_wrap_off env, le64 r),
      (c, le32 i0), (c + 4, le32 i1), (c + 8, le32 i2)]"

lemma hook_writes_within:
  "stub_ok env \<Longrightarrow> c \<le> 0xFF0 \<Longrightarrow> within_page (hook_writes env c i0 i1 i2 r)"
  by (simp add: hook_writes_def within_page_def stub_ok_def)

lemma hook_writes_read:
  fixes p r :: u64 and m :: memory and i0 i1 i2 :: u32
  assumes "stub_ok env" and "length (he_tmpl env) \<le> c" and "c \<le> 0xFF0"
  defines "m' \<equiv> page_writes p (hook_writes env c i0 i1 i2 r) m"
  shows "read32 m' (p + of_nat c) = i0" and "read32 m' (p + of_nat (c + 4)) = i1"
    and "read32 m' (p + of_nat (c + 8)) = i2"
    and "read64 m' (p + of_nat (he_ctx_off env)) = he_ret_ctx env"
    and "read64 m' (p + of_nat (he_wrap_off env)) = r"
    and "read_bytes m' p (he_ctx_off env) = take (he_ctx_off env) (he_tmpl env)"
proof -
  note w = hook_writes_within [OF assms(1,3), of i0 i1 i2 r, unfolded hook_writes_def]
  note rd = page_writes_read [where p = p and m = m and i = 0, simplified]
  note rules = assms(2,3) assms(1) [unfolded stub_ok_def]
  let ?t = "(0, he_tmpl env)" and ?x = "(he_ctx_off env, le64 (he_ret_ctx env))"
    and ?r = "(he_wrap_off env, le64 r)" and ?a = "(c, le32 i0)" and ?b = "(c + 4, le32 i1)"
    and ?d = "(c + 8, le32 i2)"
  show "read32 m' (p + of_nat c) = i0"
    using rd [of "[?t, ?x, ?r]" c "le32 i0" "[?b, ?d]" 4] w rules
    by (simp add: m'_def hook_writes_def read32_def off_limits_def)
  show "read32 m' (p + of_nat (c + 4)) = i1"
    using rd [of "[?t, ?x, ?r, ?a]" "c + 4" "le32 i1" "[?d]" 4] w rules
    by (simp add: m'_def hook_writes_def read32_def off_limits_def)
  show "read32 m' (p + of_nat (c + 8)) = i2"
    using rd [of "[?t, ?x, ?r, ?a, ?b]" "c + 8" "le32 i2" "[]" 4] w rules
    by (simp add: m'_def hook_writes_def read32_def off_limits_def)
  show "read64 m' (p + of_nat (he_ctx_off env)) = he_ret_ctx env"
    using rd [of "[?t]" "he_ctx_off env" "le64 (he_ret_ctx env)" "[?r, ?a, ?b, ?d]" 8] w rules
    by (simp add: m'_def hook_writes_def read64_def off_limits_def)
  show "read64 m' (p + of_nat (he_wrap_off env)) = r"
    using rd [of "[?t, ?x]" "he_wrap_off env" "le64 r" "[?a, ?b, ?d]" 8] w rules
    by (simp add: m'_def hook_writes_def read64_def off_limits_def)
  show "read_bytes m' p (he_ctx_off env) = take (he_ctx_off env) (he_tmpl env)"
    using rd [of "[]" 0 "he_tmpl env" "[?x, ?r, ?a, ?b, ?d]" "he_ctx_off env"] w rules
    by (simp add: m'_def hook_writes_def off_limits_def)
qed

section \<open>The two fill steps and the patch\<close>

lemma fill_result:
  fixes v :: vm
  assumes "stub_ok env" and "\<And>x. in_range target 8 x \<Longrightarrow> \<not> in_range p 0x1000 x"
    and "co_offset env = of_nat c" and "c \<le> 0xFF0"
  defines "i0 \<equiv> read32 (vm_mem v) target" and "i1 \<equiv> read32 (vm_mem v) (target + 4)"
  shows "fill_original env target p (fill_stub env r p v) =
     ([i0, i1], v\<lparr>vm_mem := page_writes p
        (hook_writes env c i0 i1 (enc_b (p + of_nat (c + 8)) (target + 8)) r) (vm_mem v)\<rparr>)"
proof -
  let ?t = "(0, he_tmpl env)" and ?x = "(he_ctx_off env, le64 (he_ret_ctx env))"
    and ?r = "(he_wrap_off env, le64 r)"
  let ?m1 = "page_writes p [?t, ?x, ?r] (vm_mem v)"
  have far: "read32 (page_writes p ws m) (target + of_nat k) = read32 m (target + of_nat k)"
    if "within_page ws" and "k + 4 \<le> 8" for ws m k
  proof -
    have "in_range (target + of_nat k) 4 x \<Longrightarrow> in_range target 8 x" for x
      using that(2) by (elim in_range_within) simp_all
    then have "read_bytes (page_writes p ws m) (target + of_nat k) 4 = read_bytes m (target + of_nat k) 4"
      using page_writes_frame [where 'a = 64, OF _ that(1), simplified] assms(2) by (intro read_bytes_cong) auto
    then show ?thesis by (simp add: read32_def)
  qed
  have w: "within_page [?t, ?x, ?r]" "within_page [?t, ?x, ?r, (c, le32 i)]" for i
    using assms(1,4) by (simp_all add: within_page_def stub_ok_def)
  have "fill_stub env r p v = v\<lparr>vm_mem := ?m1\<rparr>"
    by (simp add: fill_stub_def page_writes_def vm_store_def)
  moreover have "read32 ?m1 target = i0" using far [OF w(1), of 0] by (simp add: i0_def)
  moreover have "read32 (write_bytes ?m1 (p + of_nat c) (le32 i0)) (target + 4) = i1"
    using far [OF w(2), of 4] by (simp add: i1_def page_writes_def)
  ultimately show ?thesis
    using assms(3)
    by (simp add: fill_original_def Let_def vm_store_def)
      (simp add: page_writes_def hook_writes_def add.assoc)
qed

lemma fill_keeps_others:
  assumes "one_more_page v p prot v1" and "within_page ws"
  shows "one_more_page v p prot (v1\<lparr>vm_mem := page_writes p ws (vm_mem v1)\<rparr>)"
proof -
  have "page_writes p ws (vm_mem v1) x = vm_mem v1 x" if "vm_prot v x \<noteq> None" for x
  proof (rule page_writes_frame [OF _ assms(2)])
    show "\<not> in_range p 0x1000 x" using assms(1) that by (auto simp: one_more_page_def)
  qed simp
  with assms(1) show ?thesis unfolding one_more_page_def by simp
qed

lemma protect_page: "one_more_page v p prot v1 \<Longrightarrow> one_more_page v p prot' (vm_protect p 0x1000 (Some prot') v1)"
  by (auto simp: one_more_page_def vm_protect_def fun_eq_iff)

lemma patch_result:
  assumes "patch_all_or_nothing env" and "yz_patch_text env a bs v = (ok, w)"
  shows "w = (if ok then vm_store a bs v else v)"
  using assms(2) assms(1) [unfolded patch_all_or_nothing_def, rule_format, of v a bs]
  by (auto simp: yz_patch_text_def vm_store_def)

lemma length_patch_words [simp]: "length (patch_words target page) = 8"
  by (simp add: patch_words_def)

text \<open>The state in which a successful \<^verbatim>\<open>install\<close> leaves the process.\<close>

definition hooked :: "hook_env \<Rightarrow> u64 \<Rightarrow> u64 \<Rightarrow> u64 \<Rightarrow> vm \<Rightarrow> vm \<Rightarrow> bool" where
  "hooked env target r p v w \<longleftrightarrow>
     (\<exists>v1 c. one_more_page v p 5 v1 \<and> co_offset env = of_nat c \<and> length (he_tmpl env) \<le> c \<and> c \<le> 0xFF0 \<and>
        4 dvd c \<and> w = vm_store target (patch_words target p) v1 \<and>
        (\<exists>m. \<forall>x. in_range p 0x1000 x \<longrightarrow> vm_mem v1 x = page_writes p (hook_writes env c
          (read32 (vm_mem v) target) (read32 (vm_mem v) (target + 4))
          (enc_b (p + of_nat (c + 8)) (target + 8)) r) m x))"

text \<open>What a call of \<^verbatim>\<open>install\<close> relies on: the promises above and a mapped, word-aligned function.\<close>

definition hook_ready :: "hook_env \<Rightarrow> u64 \<Rightarrow> vm \<Rightarrow> bool" where
  "hook_ready env target v \<longleftrightarrow>
     fresh_pages env \<and> patch_all_or_nothing env \<and> stub_ok env \<and> mapped v target 8 \<and> 4 dvd unat target"

lemma in_code: "in_range (target + of_nat k) 4 x \<Longrightarrow> k + 4 \<le> 8 \<Longrightarrow> in_range target 8 x" for target :: u64
  by (erule in_range_within) simp_all

lemma read_code:
  assumes "\<And>x. in_range target 8 x \<Longrightarrow> m x = m' x"
  shows "read32 m target = read32 m' target" and "read32 m (target + 4) = read32 m' (target + 4)"
proof -
  have "read_bytes m (target + of_nat k) 4 = read_bytes m' (target + of_nat k) 4" if "k + 4 \<le> 8" for k
    using in_code [OF _ that] assms by (intro read_bytes_cong) auto
  from this [of 0] this [of 4]
  show "read32 m target = read32 m' target" and "read32 m (target + 4) = read32 m' (target + 4)"
    by (simp_all add: read32_def)
qed

lemma install_filled:
  assumes "hook_ready env target v" and "alloc_near env target v = (p, v1)" and "p \<noteq> 0"
  obtains saved v2 where "fill_original env target p (fill_stub env r p v1) = (saved, v2)"
    and "saved = [read32 (vm_mem v) target, read32 (vm_mem v) (target + 4)]"
    and "one_more_page v p 7 v2"
    and "hooked env target r p v
           (vm_store target (patch_words target p) (vm_protect p 0x1000 (Some 5) v2))"
proof -
  note h = assms(1) [unfolded hook_ready_def]
  obtain c where c: "co_offset env = of_nat c" "length (he_tmpl env) \<le> c" "c \<le> 0xFF0" "4 dvd c"
    using co_offset_nat h by blast
  have o1: "one_more_page v p 7 v1" using alloc_near_page(1) assms h by blast
  have away: "in_range target 8 x \<Longrightarrow> \<not> in_range p 0x1000 x" for x
    using o1 h by (auto simp: one_more_page_def mapped_def)
  have "in_range target 8 x \<Longrightarrow> vm_mem v1 x = vm_mem v x" for x
    using o1 h by (auto simp: one_more_page_def mapped_def)
  note rd = read_code [of target "vm_mem v1" "vm_mem v", OF this]
  let ?ws = "hook_writes env c (read32 (vm_mem v) target) (read32 (vm_mem v) (target + 4))
      (enc_b (p + of_nat (c + 8)) (target + 8)) r"
  let ?v2 = "v1\<lparr>vm_mem := page_writes p ?ws (vm_mem v1)\<rparr>"
  have o2: "one_more_page v p 7 ?v2" using fill_keeps_others [OF o1] hook_writes_within h c(3) by blast
  have "hooked env target r p v (vm_store target (patch_words target p) (vm_protect p 0x1000 (Some 5) ?v2))"
    unfolding hooked_def
    using c protect_page [OF o2, of 5]
    by (intro exI [of _ "vm_protect p 0x1000 (Some 5) ?v2"] exI [of _ c] conjI exI [of _ "vm_mem v1"])
      (simp_all add: vm_protect_def)
  with o2 fill_result [where v = v1 and r = r, OF _ away c(1,3)] h rd show thesis by (intro that) simp_all
qed

section \<open>Installing\<close>

definition near_page :: "u64 \<Rightarrow> u64 \<Rightarrow> bool" where
  "near_page target p \<longleftrightarrow> (\<exists>k. p - target = word_of_int k \<and> 4 dvd k \<and> - 0x7801000 \<le> k \<and> k \<le> 0x7800000)"

lemma install_cases:
  assumes ready: "hook_ready env target v" and run: "install env target r out v = (res, out', w)"
  shows "case res of
      None \<Rightarrow> same_pages v w \<and> hk_active out' = hk_active out \<and> hk_trampoline out' = hk_trampoline out
    | Some co \<Rightarrow> (\<exists>p. p \<noteq> 0 \<and> near_page target p \<and> co = p + co_offset env \<and> hooked env target r p v w \<and>
        out' = out\<lparr>hk_target := target, hk_trampoline := p, hk_active := True,
          hk_saved := [read32 (vm_mem v) target, read32 (vm_mem v) (target + 4)]\<rparr>)"
proof (cases "is_pcrel (read32 (vm_mem v) target) \<or> is_pcrel (read32 (vm_mem v) (target + 4))")
  case True
  then show ?thesis using run same_pages_refl by (auto simp: install_def)
next
  case False
  note h = ready [unfolded hook_ready_def]
  obtain p v1 where a: "alloc_near env target v = (p, v1)" by fastforce
  show ?thesis
  proof (cases "p = 0")
    case True
    then show ?thesis using run False a alloc_near_none h by (auto simp: install_def)
  next
    case p: False
    obtain saved v2 where f: "fill_original env target p (fill_stub env r p v1) = (saved, v2)"
      and saved: "saved = [read32 (vm_mem v) target, read32 (vm_mem v) (target + 4)]"
      and o2: "one_more_page v p 7 v2"
      and hk: "hooked env target r p v
           (vm_store target (patch_words target p) (vm_protect p 0x1000 (Some 5) v2))"
      by (rule install_filled [OF ready a p])
    let ?v3 = "vm_protect p 0x1000 (Some 5) v2"
    obtain ok v4 where y: "yz_patch_text env target (patch_words target p) ?v3 = (ok, v4)" by fastforce
    have v4: "v4 = (if ok then vm_store target (patch_words target p) ?v3 else ?v3)"
      using patch_result y h by blast
    have near: "near_page target p" using alloc_near_page(2) a p h by (auto simp: near_page_def)
    note un = more_then_unmap [OF o2] more_then_unmap [OF protect_page [OF o2, of 5]]
    show ?thesis
      using run False a p f y v4 un hk near saved
      by (cases "he_mprotect env v2 p"; cases ok) (auto simp: install_def)
  qed
qed

lemma hooked_reads:
  assumes ready: "hook_ready env target v" and hk: "hooked env target r p v w"
  defines "co \<equiv> p + co_offset env"
  shows "read32 (vm_mem w) target = 0xD503245F"
    and "read32 (vm_mem w) (target + 4) = enc_b (target + 4) p"
    and "read_bytes (vm_mem w) p (he_ctx_off env) = take (he_ctx_off env) (he_tmpl env)"
    and "read64 (vm_mem w) (p + of_nat (he_ctx_off env)) = he_ret_ctx env"
    and "read64 (vm_mem w) (p + of_nat (he_wrap_off env)) = r"
    and "read32 (vm_mem w) co = read32 (vm_mem v) target"
    and "read32 (vm_mem w) (co + 4) = read32 (vm_mem v) (target + 4)"
    and "read32 (vm_mem w) (co + 8) = enc_b (co + 8) (target + 8)"
proof -
  from hk obtain v1 c m where o: "one_more_page v p 5 v1" and c: "co_offset env = of_nat c"
      "length (he_tmpl env) \<le> c" "c \<le> 0xFF0"
    and w: "w = vm_store target (patch_words target p) v1"
    and m: "\<And>x. in_range p 0x1000 x \<Longrightarrow> vm_mem v1 x = page_writes p (hook_writes env c
          (read32 (vm_mem v) target) (read32 (vm_mem v) (target + 4))
          (enc_b (p + of_nat (c + 8)) (target + 8)) r) m x"
    unfolding hooked_def by auto
  note h = ready [unfolded hook_ready_def]
  let ?pm = "page_writes p (hook_writes env c (read32 (vm_mem v) target) (read32 (vm_mem v) (target + 4))
          (enc_b (p + of_nat (c + 8)) (target + 8)) r) m"
  have code: "read_bytes (vm_mem w) (target + of_nat i) 4 = take 4 (drop i (patch_words target p))"
    if "i + 4 \<le> 8" for i
    unfolding w vm_store_simps using that by (intro read_slice) simp_all
  show "read32 (vm_mem w) target = 0xD503245F"
    using code [of 0] of_nat_le_nat_le32 [of "0xD503245F"] by (simp add: read32_def patch_words_def)
  show "read32 (vm_mem w) (target + 4) = enc_b (target + 4) p"
    using code [of 4] by (simp add: read32_def patch_words_def)
  have page: "read_bytes (vm_mem w) (p + of_nat k) n = read_bytes ?pm (p + of_nat k) n"
    if "k + n \<le> 0x1000" for k n
  proof (rule read_bytes_cong)
    fix x assume "in_range (p + of_nat k) n x"
    then have x: "in_range p 0x1000 x" using that by (rule in_page) simp
    then have "\<not> in_range target 8 x" using o h by (auto simp: one_more_page_def mapped_def)
    then show "vm_mem w x = ?pm x" using m [OF x] by (simp add: w write_bytes_frame)
  qed (use that in simp)
  have page32: "read32 (vm_mem w) (p + of_nat k) = read32 ?pm (p + of_nat k)" if "k + 4 \<le> 0x1000" for k
    using page [OF that] by (simp add: read32_def)
  note st = h [THEN conjunct2, THEN conjunct2, THEN conjunct1]
  note rd = hook_writes_read [OF st c(2,3), where p = p and m = m and r = r]
  note b = st [unfolded stub_ok_def]
  have co: "co = p + of_nat c" "co + 4 = p + of_nat (c + 4)" "co + 8 = p + of_nat (c + 8)"
    by (simp_all add: co_def c(1) add.assoc)
  show "read_bytes (vm_mem w) p (he_ctx_off env) = take (he_ctx_off env) (he_tmpl env)"
    using page [of 0 "he_ctx_off env"] b rd(6) by simp
  show "read64 (vm_mem w) (p + of_nat (he_ctx_off env)) = he_ret_ctx env"
    using page [of "he_ctx_off env" 8] b rd(4) by (simp add: read64_def)
  show "read64 (vm_mem w) (p + of_nat (he_wrap_off env)) = r"
    using page [of "he_wrap_off env" 8] b rd(5) by (simp add: read64_def)
  show "read32 (vm_mem w) co = read32 (vm_mem v) target"
    unfolding co(1) by (rule trans [OF page32 rd(1)]) (use c(3) in simp)
  show "read32 (vm_mem w) (co + 4) = read32 (vm_mem v) (target + 4)"
    unfolding co(2) by (rule trans [OF page32 rd(2)]) (use c(3) in simp)
  show "read32 (vm_mem w) (co + 8) = enc_b (co + 8) (target + 8)"
    unfolding co(3) by (rule trans [OF page32 rd(3)]) (use c(3) in simp)
qed

lemma near_page_branches:
  assumes near: "near_page target p" and c: "co_offset env = of_nat c" "c \<le> 0xFF0" "4 dvd c"
  shows "b_target (target + 4) (enc_b (target + 4) p) = p"
    and "b_target (p + co_offset env + 8) (enc_b (p + co_offset env + 8) (target + 8)) = target + 8"
proof -
  from near obtain k where k: "p - target = word_of_int k" "4 dvd k" "- 0x7801000 \<le> k" "k \<le> 0x7800000"
    unfolding near_page_def by blast
  have "p - (target + 4) = word_of_int (k - 4)" using k(1) by (simp add: algebra_simps)
  then show "b_target (target + 4) (enc_b (target + 4) p) = p"
    by (rule b_target_enc_b) (use k in simp_all)
  have p: "p = target + word_of_int k" using k(1) by (simp add: algebra_simps)
  have "target + 8 - (p + co_offset env + 8) = word_of_int (- k - int c)" by (simp add: p c(1))
  moreover have "4 dvd - k - int c"
    using k(2) c(3) by (metis dvd_diff dvd_minus_iff int_dvd_int_iff of_nat_numeral)
  ultimately show "b_target (p + co_offset env + 8) (enc_b (p + co_offset env + 8) (target + 8)) = target + 8"
    by (rule b_target_enc_b) (use k c(2) in simp_all)
qed

lemma hooked_frame:
  assumes "hooked env target r p v w"
  shows "\<And>x. vm_prot w x = (if in_range p 0x1000 x then Some 5 else vm_prot v x)"
    and "\<And>x. vm_prot v x \<noteq> None \<Longrightarrow> \<not> in_range target 8 x \<Longrightarrow> vm_mem w x = vm_mem v x"
    and "\<And>x. in_range p 0x1000 x \<Longrightarrow> vm_prot v x = None"
  using assms unfolding hooked_def one_more_page_def by (auto simp: write_bytes_frame)


section \<open>Removing\<close>

lemma saved_words:
  assumes "in_range target 8 x"
  shows "write_bytes m target (le32 (read32 m' target) @ le32 (read32 m' (target + 4))) x = m' x"
proof -
  let ?i = "unat (x - target)"
  have i: "?i < 8" using assms by (simp add: in_range_def)
  have bytes: "le32 (read32 m' a) = read_bytes m' a 4" for a
  proof -
    have "le_nat (read_bytes m' a 4) < 2 ^ 32" using le_nat_less [of "read_bytes m' a 4"] by simp
    then have "unat (read32 m' a) = le_nat (read_bytes m' a 4)" by (simp add: read32_def unat_of_nat)
    then show ?thesis using nat_le_le_nat [of "read_bytes m' a 4"] by (simp add: le32_def)
  qed
  have "(read_bytes m' target 4 @ read_bytes m' (target + 4) 4) ! ?i = m' (target + of_nat ?i)"
  proof (cases "?i < 4")
    case False
    then have "target + 4 + of_nat (?i - 4) = target + of_nat ?i" by simp
    then show ?thesis using False i by (simp add: nth_append)
  qed (simp add: nth_append)
  with i show ?thesis by (simp add: write_bytes_def bytes)
qed

text \<open>The pages that a patch of \<open>n\<close> bytes touches, and that they hold what their files hold.\<close>

definition clean_pages :: "hook_env \<Rightarrow> u64 \<Rightarrow> u64 \<Rightarrow> vm \<Rightarrow> bool" where
  "clean_pages env a n v \<longleftrightarrow>
     (\<forall>f len x. cow_range (he_page_size env) a n = Some (f, len) \<longrightarrow> in_range f (unat len) x \<longrightarrow>
        vm_prot v x \<noteq> None \<longrightarrow> vm_mem v x = he_backing env x)"

lemma unat_page_start: "unat (a - a mod p) = unat a div unat p * unat p" for a p :: "'a::len word"
proof -
  have "unat (a mod p) = unat a mod unat p" by (rule unat_mod)
  then have "unat (a - a mod p) = unat a - unat a mod unat p" by (subst unat_diff_le) simp_all
  then show ?thesis by (simp add: minus_mod_eq_div_mult)
qed

lemma cow_covers:
  fixes a n x f len ps :: "'a::len word"
  assumes ps: "ps \<noteq> 0" and run: "cow_range ps a n = Some (f, len)" and x: "in_range a (unat n) x"
  shows "in_range f (unat len) x"
proof -
  let ?P = "unat ps" and ?A = "unat a" and ?L = "unat a + (unat n - 1)"
  let ?f = "?A div ?P * ?P" and ?l = "?L div ?P * ?P"
  let ?lp = "(a + n - 1) - (a + n - 1) mod ps"
  from run have n: "n \<noteq> 0" and no_wrap: "\<not> a > - 1 - (n - 1)" and top: "\<not> ?lp > - 1 - ps"
    and fl_def: "f = a - a mod ps" "len = ?lp - f + ps"
    by (auto simp: cow_range_def Let_def split: if_splits)
  have P: "0 < ?P" using ps by (simp add: unat_gt_0)
  have n1: "unat (n - 1) = unat n - 1" "0 < unat n" using n by (simp_all add: unat_minus_one unat_gt_0)
  have L: "?L < 2 ^ LENGTH('a)" using no_wrap unfolding gr_max_minus_iff n1(1) by simp
  have "unat (a + (n - 1)) = ?L" using L by (subst unat_add_lt) (simp_all add: n1(1))
  then have last: "unat (a + n - 1) = ?L" by (simp only: add_diff_eq)
  have f: "unat f = ?f" and l: "unat ?lp = ?l" unfolding fl_def unat_page_start last by (rule refl)+
  have fl: "?f \<le> ?l" by (intro mult_le_mono1 div_le_mono) simp
  have lP: "?l + ?P < 2 ^ LENGTH('a)" using top unfolding gr_max_minus_iff l by simp
  have "unat len = ?l - ?f + ?P"
    unfolding fl_def(2) using fl lP by (subst unat_add_lt) (simp_all add: unat_diff_le f l)
  moreover have "?L < ?l + ?P"
    using mod_less_divisor [OF P, of ?L] div_mult_mod_eq [of ?L ?P] by linarith
  moreover have "unat (x - f) = ?A - ?f + unat (x - a)"
  proof -
    have split: "x - f = (a - f) + (x - a)" by simp
    have d: "unat (a - f) = ?A - ?f" by (simp add: unat_diff_le f)
    have "unat (x - a) < unat n" using x by (simp add: in_range_def)
    then have "unat (a - f) + unat (x - a) < 2 ^ LENGTH('a)" using L unfolding d by linarith
    then show ?thesis unfolding split by (subst unat_add_lt) (simp_all add: d)
  qed
  moreover have "unat (x - a) < unat n" "?f \<le> ?A" using x by (simp_all add: in_range_def)
  ultimately show ?thesis unfolding in_range_def using fl by linarith
qed

lemma remove_patch_effect:
  assumes ready: "hook_ready env target v" and ps: "he_page_size env \<noteq> 0"
    and hk: "hooked env target r p v w"
    and h: "hk_target h = target" "hk_saved h = [read32 (vm_mem v) target, read32 (vm_mem v) (target + 4)]"
    and clean: "mode = DiscardCowPages \<longrightarrow> clean_pages env target 8 v"
    and run: "remove_patch env mode h w = (True, u)"
  shows "vm_prot u = vm_prot w" and "\<And>x. vm_prot v x \<noteq> None \<Longrightarrow> vm_mem u x = vm_mem v x"
proof -
  note frame = hooked_frame [OF hk]
  have "vm_prot u = vm_prot w \<and> (\<forall>x. vm_prot v x \<noteq> None \<longrightarrow> vm_mem u x = vm_mem v x)"
  proof (cases mode)
    case RestoreBytes
    then have "yz_patch_text env target (le32 (read32 (vm_mem v) target) @ le32 (read32 (vm_mem v) (target + 4))) w
        = (True, u)" using run h by (simp add: remove_patch_def)
    then have u: "u = vm_store target (le32 (read32 (vm_mem v) target) @ le32 (read32 (vm_mem v) (target + 4))) w"
      using patch_result ready unfolding hook_ready_def by (metis (full_types))
    have "vm_mem u x = vm_mem v x" if "vm_prot v x \<noteq> None" for x
    proof (cases "in_range target 8 x")
      case True
      then show ?thesis unfolding u vm_store_simps by (rule saved_words)
    next
      case False
      then show ?thesis using frame(2) [OF that False] by (simp add: u write_bytes_frame)
    qed
    then show ?thesis by (simp add: u)
  next
    case DiscardCowPages
    then have run': "discard_cow_patch_pages env target 8 w = (True, u)"
      using run h by (simp add: remove_patch_def)
    then obtain f len where rng: "cow_range (he_page_size env) target 8 = Some (f, len)"
      and u: "u = drop_private env f len w"
      by (auto simp: discard_cow_patch_pages_def split: option.splits if_splits)
    have cov: "in_range target 8 x \<Longrightarrow> in_range f (unat len) x" for x
      using cow_covers [OF ps rng, of x] by simp
    have "vm_mem u x = vm_mem v x" if "vm_prot v x \<noteq> None" for x
      using that clean DiscardCowPages cov rng frame(2) [OF that]
      by (auto simp: u drop_private_def clean_pages_def)
    then show ?thesis by (simp add: u drop_private_def)
  qed
  then show "vm_prot u = vm_prot w" and "\<And>x. vm_prot v x \<noteq> None \<Longrightarrow> vm_mem u x = vm_mem v x" by auto
qed

text \<open>C32: Removing a hook undoes installing it, in both modes: every page that was mapped before
  \<^verbatim>\<open>install\<close> is mapped with the same protection and contents, the trampoline page is gone, the
  hook is inactive, and removing it again changes nothing.  Discarding the private pages needs that
  they held what their files hold.\<close>

theorem uninstall_restores:
  assumes "hook_ready env target v" and "he_page_size env \<noteq> 0"
    and "install env target r out v = (Some co, out', w)"
    and "mode = DiscardCowPages \<longrightarrow> clean_pages env target 8 v"
    and "uninstall env mode out' w = (True, h, u)"
  shows "same_pages v u \<and> \<not> hk_active h \<and> hk_trampoline h = 0 \<and> uninstall env mode h u = (True, h, u)"
proof -
  from install_cases [OF assms(1,3)] obtain p where p: "p \<noteq> 0" "hooked env target r p v w"
    and out': "out' = out\<lparr>hk_target := target, hk_trampoline := p, hk_active := True,
          hk_saved := [read32 (vm_mem v) target, read32 (vm_mem v) (target + 4)]\<rparr>"
    by auto
  obtain ok w1 where rm: "remove_patch env mode out' w = (ok, w1)" by fastforce
  with assms(5) out' p(1) have ok: "ok" and u: "u = vm_munmap p 0x1000 w1"
    and h: "h = out'\<lparr>hk_trampoline := 0, hk_active := False\<rparr>"
    by (auto simp: uninstall_def split: if_splits)
  note eff = remove_patch_effect [OF assms(1,2) p(2) _ _ assms(4) rm [unfolded ok [THEN eqTrueI]]]
  have "vm_prot w1 = vm_prot w" "\<And>x. vm_prot v x \<noteq> None \<Longrightarrow> vm_mem w1 x = vm_mem v x"
    using eff out' by simp_all
  moreover note hooked_frame(1,3) [OF p(2)]
  ultimately have "same_pages v u"
    by (auto simp: u same_pages_def vm_munmap_def vm_protect_def fun_eq_iff)
  then show ?thesis by (simp add: h uninstall_def)
qed

text \<open>An install that returns null leaves everything as it was: the same pages are mapped with
  the same protections and contents (the page obtained for the trampoline is released again), and
  the hook object is not marked as installed.\<close>

lemma install_failure_clean:
  assumes "hook_ready env target v" and "install env target r out v = (None, out', w)"
  shows "same_pages v w \<and> hk_active out' = hk_active out \<and> hk_trampoline out' = hk_trampoline out"
  using install_cases [OF assms] by simp

section \<open>A concrete function\<close>

text \<open>A code page at \<open>0x100000\<close> that starts with \<^verbatim>\<open>paciasp; sub sp, sp, #32\<close>, a kernel that grants
  every free page asked for, and a stub of 24 bytes.\<close>

definition demo_text :: memory where
  "demo_text = write_bytes (\<lambda>x. 0x1F) 0x100000 (le32 0xD503233F @ le32 0xD10083FF)"

definition demo_process :: vm where
  "demo_process = \<lparr>vm_mem = demo_text,
     vm_prot = (\<lambda>x. if in_range 0x100000 0x1000 x then Some 5 else None), vm_munmaps = []\<rparr>"

definition demo_hook_env :: "bool \<Rightarrow> hook_env" where
  "demo_hook_env patch_ok = \<lparr>
     he_mmap = (\<lambda>v h. if h \<noteq> 0 \<and> (\<forall>x. in_range h 0x1000 x \<longrightarrow> vm_prot v x = None) then Some h else None),
     he_mprotect = (\<lambda>v a. True),
     he_patch = (\<lambda>v a bs. if patch_ok then (True, length bs) else (False, 0)),
     he_madvise = (\<lambda>v a n. True), he_page_size = 0x1000, he_backing = demo_text,
     he_tmpl = replicate 24 0x1F, he_ctx_off = 8, he_wrap_off = 16, he_ret_ctx = 0x5000\<rparr>"

definition no_hook :: Hook where
  "no_hook = \<lparr>hk_target = 0, hk_saved = [0, 0], hk_trampoline = 0, hk_active = False\<rparr>"

lemma demo_ready: "hook_ready (demo_hook_env b) 0x100000 demo_process"
proof -
  have "in_range 0x100000 8 x \<Longrightarrow> in_range 0x100000 0x1000 x" for x by (simp add: in_range_def)
  then show ?thesis
    by (auto simp: hook_ready_def fresh_pages_def patch_all_or_nothing_def stub_ok_def mapped_def
      demo_hook_env_def demo_process_def split: if_splits)
qed

lemma demo_alloc: "alloc_near (demo_hook_env b) 0x100000 demo_process =
    (0xF0000, vm_map_anon 0xF0000 0x1000 7 demo_process)"
proof -
  have "in_range 0xF0000 0x1000 x \<Longrightarrow> \<not> in_range 0x100000 0x1000 x" for x :: u64
    using in_range_offset [of "unat (x - 0xF0000)" "0x10000" "0x1000" "0xF0000"] unat_lt_exp [of "x - 0xF0000"]
    by (simp add: in_range_def)
  then have "he_mmap (demo_hook_env b) demo_process 0xF0000 = Some 0xF0000"
    by (simp add: demo_hook_env_def demo_process_def)
  then show ?thesis by (simp add: alloc_near_def alloc_from.simps try_hint_def Let_def)
qed

lemma demo_code_insns:
  "read32 (vm_mem demo_process) 0x100000 = 0xD503233F" "read32 (vm_mem demo_process) 0x100004 = 0xD10083FF"
proof -
  note sl = read_slice [of _ 4 "le32 0xD503233F @ le32 0xD10083FF" "\<lambda>x. 0x1F" "0x100000"]
  note le = of_nat_le_nat_le32 [of "0xD503233F"] of_nat_le_nat_le32 [of "0xD10083FF"]
  show "read32 (vm_mem demo_process) 0x100000 = 0xD503233F"
    using sl [of 0] le(1) by (simp add: demo_process_def demo_text_def read32_def)
  show "read32 (vm_mem demo_process) 0x100004 = 0xD10083FF"
    using sl [of 4] le(2) by (simp add: demo_process_def demo_text_def read32_def)
qed

lemma demo_install:
  "\<exists>co h w. install (demo_hook_env b) 0x100000 0x7777 no_hook demo_process = (if b then Some co else None, h, w)"
proof -
  have mp: "he_mprotect (demo_hook_env b) v a" for v a by (simp add: demo_hook_env_def)
  have pt: "yz_patch_text (demo_hook_env b) a bs v = (b, vm_store a (take (if b then length bs else 0) bs) v)"
    for a bs v by (simp add: yz_patch_text_def demo_hook_env_def)
  obtain saved v2 where f: "fill_original (demo_hook_env b) 0x100000 0xF0000 (fill_stub (demo_hook_env b) 0x7777
      0xF0000 (vm_map_anon 0xF0000 0x1000 7 demo_process)) = (saved, v2)" by fastforce
  have insns: "\<not> is_pcrel 0xD503233F" "\<not> is_pcrel 0xD10083FF" by (simp_all add: is_pcrel_def)
  show ?thesis
    using f mp pt by (cases b) (simp_all add: install_def demo_code_insns insns demo_alloc)
qed


theorem uninstall_restores_witness:
  "\<exists>co h w h' u. install (demo_hook_env True) 0x100000 0x7777 no_hook demo_process = (Some co, h, w) \<and>
     uninstall (demo_hook_env True) DiscardCowPages h w = (True, h', u) \<and> same_pages demo_process u"
proof -
  obtain co h w where i: "install (demo_hook_env True) 0x100000 0x7777 no_hook demo_process = (Some co, h, w)"
    using demo_install [of True] by auto
  have h: "hk_active h" "hk_target h = 0x100000"
    using install_cases [OF demo_ready i] by auto
  have "remove_patch (demo_hook_env True) DiscardCowPages h w =
      (True, drop_private (demo_hook_env True) 0x100000 0x1000 w)"
    by (simp add: remove_patch_def h discard_cow_patch_pages_def cow_range_def demo_hook_env_def)
  then obtain h' u where u: "uninstall (demo_hook_env True) DiscardCowPages h w = (True, h', u)"
    using h by (auto simp: uninstall_def)
  have "clean_pages (demo_hook_env True) 0x100000 8 demo_process"
    by (simp add: clean_pages_def demo_hook_env_def demo_process_def)
  with uninstall_restores [OF demo_ready _ i _ u] i u show ?thesis by (auto simp: demo_hook_env_def)
qed

end
