(* ===== verification/Inline_Hook32.thy ===== *)
theory Inline_Hook32
  imports Inline_Hook64
begin

text \<open>
  The 32-bit ARM part of \<^verbatim>\<open>inline_hook.hpp\<close>: how many bytes of a function may be moved
  (\<^verbatim>\<open>arm32_copy_size\<close>), the relative and absolute jumps in ARM and Thumb encoding, the search for a
  page within branch range, and installing and removing a hook.  Addresses are 32-bit words.
  Jump encoders return the bytes they write.  The names of the definitions that share theirs with
  the arm64 part end in \<open>32\<close>.
\<close>

section \<open>Process memory and environment\<close>

record vm32 =
  v_mem :: "u32 \<Rightarrow> u8"
  v_prot :: "u32 \<Rightarrow> u32 option"

record hook_env32 =
  h_mmap :: "vm32 \<Rightarrow> u32 option"
  h_mmap_hint :: "vm32 \<Rightarrow> u32 \<Rightarrow> u32 option"
  h_mprotect :: "vm32 \<Rightarrow> u32 \<Rightarrow> bool"
  h_patch :: "vm32 \<Rightarrow> u32 \<Rightarrow> u8 list \<Rightarrow> bool \<times> nat"
  h_madvise :: "vm32 \<Rightarrow> u32 \<Rightarrow> u32 \<Rightarrow> bool"
  h_page_size :: u32
  h_backing :: "u32 \<Rightarrow> u8"
  h_tmpl :: "bool \<Rightarrow> u32"
  h_tmpl_ctx :: "bool \<Rightarrow> u32"
  h_tmpl_wrap :: "bool \<Rightarrow> u32"
  h_tmpl_end :: "bool \<Rightarrow> u32"
  h_ret_ctx :: u32

text \<open>The template symbols are addresses; the argument is \<open>True\<close> for the Thumb template.\<close>

definition store32 :: "u32 \<Rightarrow> u8 list \<Rightarrow> vm32 \<Rightarrow> vm32" where
  "store32 a bs v = v\<lparr>v_mem := write_bytes (v_mem v) a bs\<rparr>"

definition protect32 :: "u32 \<Rightarrow> u32 option \<Rightarrow> vm32 \<Rightarrow> vm32" where
  "protect32 a p v = v\<lparr>v_prot := (\<lambda>x. if in_range a 0x1000 x then p else v_prot v x)\<rparr>"

definition map_page32 :: "u32 \<Rightarrow> vm32 \<Rightarrow> vm32" where
  "map_page32 a v =
     protect32 a (Some 7) (v\<lparr>v_mem := (\<lambda>x. if in_range a 0x1000 x then 0 else v_mem v x)\<rparr>)"

definition unmap_page32 :: "u32 \<Rightarrow> vm32 \<Rightarrow> vm32" where
  "unmap_page32 a v = protect32 a None v"

definition patch_text32 :: "hook_env32 \<Rightarrow> u32 \<Rightarrow> u8 list \<Rightarrow> vm32 \<Rightarrow> bool \<times> vm32" where
  "patch_text32 env addr bs v = (case h_patch env v addr bs of (ok, n) \<Rightarrow> (ok, store32 addr (take n bs) v))"

definition half_at :: "(u32 \<Rightarrow> u8) \<Rightarrow> u32 \<Rightarrow> u16" where
  "half_at m a = of_nat (le_nat (read_bytes m a 2))"

definition word_at :: "(u32 \<Rightarrow> u8) \<Rightarrow> u32 \<Rightarrow> u32" where
  "word_at m a = of_nat (le_nat (read_bytes m a 4))"

section \<open>Instructions\<close>

record Hook32 =
  k_target :: u32
  k_saved :: "u8 list"
  k_trampoline :: u32
  k_patched_size :: nat
  k_active :: bool

definition thumb_is_32bit :: "u16 \<Rightarrow> bool" where
  "thumb_is_32bit instruction =
     (let prefix = drop_bit 11 instruction in prefix = 0x1d \<or> prefix = 0x1e \<or> prefix = 0x1f)"

text \<open>The second half-word is only looked at when the instruction is wide.\<close>

definition thumb_is_pcrel :: "u16 \<Rightarrow> u16 \<Rightarrow> bool \<Rightarrow> bool" where
  "thumb_is_pcrel first second wide =
     (if \<not> wide
      then if first AND 0xf800 = 0x4800 \<or> first AND 0xf800 = 0xa000 \<or> first AND 0xf000 = 0xd000 \<or>
              first AND 0xf800 = 0xe000 \<or> first AND 0xf500 = 0xb100
           then True
           else if first AND 0xfc00 = 0x4400
           then let rm = drop_bit 3 first AND 0xf; rd = (first AND 7) OR (drop_bit 4 first AND 8)
                in rm = 15 \<or> rd = 15
           else False
      else if first AND 0xff7f = 0xf85f \<or> first AND 0xfbf0 = 0xf20f \<or> first AND 0xfbf0 = 0xf2af
      then True
      else first AND 0xf800 = 0xf000 \<and> second AND 0x8000 \<noteq> 0)"

definition arm_is_pcrel :: "u32 \<Rightarrow> bool" where
  "arm_is_pcrel instruction =
     (if instruction AND 0x0ffffff0 = 0x012fff10 \<or> instruction AND 0x0ffffff0 = 0x012fff30 then False
      else if instruction AND 0x0e000000 = 0x0a000000 then True
      else let rn = drop_bit 16 instruction AND 0xf
           in if rn \<noteq> 15 then False
              else let group = instruction AND 0x0c000000
                   in group = 0 \<or> group = 0x04000000 \<or> group = 0x0c000000)"

section \<open>How much of a function to move\<close>

fun arm_words_ok :: "(u32 \<Rightarrow> u8) \<Rightarrow> u32 \<Rightarrow> nat \<Rightarrow> bool" where
  "arm_words_ok m target 0 \<longleftrightarrow> True"
| "arm_words_ok m target (Suc n) \<longleftrightarrow> \<not> arm_is_pcrel (word_at m target) \<and> arm_words_ok m (target + 4) n"

function thumb_copy :: "(u32 \<Rightarrow> u8) \<Rightarrow> u32 \<Rightarrow> nat \<Rightarrow> nat \<Rightarrow> nat" where
  "thumb_copy m target minimum_size bytes =
     (if bytes < minimum_size
      then let a = target + of_nat (bytes div 2 * 2);
               wide = thumb_is_32bit (half_at m a);
               instruction_size = (if wide then 4 else 2)
           in if bytes + instruction_size > 12 \<or> thumb_is_pcrel (half_at m a) (half_at m (a + 2)) wide then 0
              else thumb_copy m target minimum_size (bytes + instruction_size)
      else bytes)"
  by pat_completeness auto
termination
  by (relation "measure (\<lambda>(m, target, minimum_size, bytes). minimum_size - bytes)") auto

declare thumb_copy.simps [simp del]

definition arm32_copy_size :: "(u32 \<Rightarrow> u8) \<Rightarrow> u32 \<Rightarrow> bool \<Rightarrow> nat \<Rightarrow> nat" where
  "arm32_copy_size m target thumb minimum_size =
     (if \<not> thumb
      then let words_needed = (minimum_size + 3) div 4
           in if arm_words_ok m target words_needed then words_needed * 4 else 0
      else thumb_copy m target minimum_size 0)"

section \<open>Jumps\<close>

definition absolute_jump_size :: "u32 \<Rightarrow> bool \<Rightarrow> nat" where
  "absolute_jump_size instruction_address thumb =
     (if thumb \<and> instruction_address AND 2 \<noteq> 0 then 10 else 8)"

definition jump_offset :: "u32 \<Rightarrow> u32 \<Rightarrow> bool \<Rightarrow> int" where
  "jump_offset from to thumb = uint to - uint (from + (if thumb then 4 else 8))"

definition relative_jump_reachable :: "u32 \<Rightarrow> u32 \<Rightarrow> bool \<Rightarrow> bool" where
  "relative_jump_reachable from to thumb =
     (let offset = jump_offset from to thumb;
          limit = (if thumb then 0x01000000 else 0x02000000);
          alignment = (if thumb then 2 else 4)
      in offset \<ge> - limit \<and> offset < limit \<and> offset AND (alignment - 1) = 0)"

definition emit_relative_jump :: "u32 \<Rightarrow> u32 \<Rightarrow> bool \<Rightarrow> u8 list" where
  "emit_relative_jump from to thumb =
     (let encoded = word_of_int (jump_offset from to thumb) :: u32
      in if \<not> thumb then le32 (0xea000000 OR (drop_bit 2 encoded AND 0x00ffffff))
         else
           let sign = drop_bit 24 encoded AND 1;
               i1 = drop_bit 23 encoded AND 1;
               i2 = drop_bit 22 encoded AND 1;
               j1 = (NOT i1 XOR sign) AND 1;
               j2 = (NOT i2 XOR sign) AND 1
           in le16 (ucast (0xf000 OR push_bit 10 sign OR (drop_bit 12 encoded AND 0x03ff))) @
              le16 (ucast (0x9000 OR push_bit 13 j1 OR push_bit 11 j2 OR (drop_bit 1 encoded AND 0x07ff))))"

definition emit_absolute_jump :: "u32 \<Rightarrow> u32 \<Rightarrow> bool \<Rightarrow> u8 list" where
  "emit_absolute_jump instruction_address destination thumb =
     (if thumb
      then let needs_padding = instruction_address AND 2 \<noteq> 0
           in le16 0xf8df @ le16 (0xf000 OR (if needs_padding then 4 else 0)) @
              (if needs_padding then le16 0xbf00 else []) @ le32 destination
      else le32 0xe51ff004 @ le32 destination)"

section \<open>A page within branch range\<close>

definition try_hint32 :: "hook_env32 \<Rightarrow> u32 \<Rightarrow> bool \<Rightarrow> u32 \<Rightarrow> vm32 \<Rightarrow> u32 option \<times> vm32" where
  "try_hint32 env target thumb hint v =
     (case h_mmap_hint env v hint of
        None \<Rightarrow> (None, v)
      | Some page \<Rightarrow>
          let v1 = map_page32 page v
          in if page = hint \<and> relative_jump_reachable target hint thumb then (Some page, v1)
             else (None, unmap_page32 page v1))"

definition try_below32 :: "hook_env32 \<Rightarrow> u32 \<Rightarrow> bool \<Rightarrow> u32 \<Rightarrow> u32 \<Rightarrow> vm32 \<Rightarrow> u32 option \<times> vm32" where
  "try_below32 env target thumb base off v =
     (if base < off then (None, v) else try_hint32 env target thumb (base - off) v)"

definition try_above32 :: "hook_env32 \<Rightarrow> u32 \<Rightarrow> bool \<Rightarrow> u32 \<Rightarrow> u32 \<Rightarrow> vm32 \<Rightarrow> u32 option \<times> vm32" where
  "try_above32 env target thumb base off v =
     (if base > - 1 - off then (None, v) else try_hint32 env target thumb (base + off) v)"

function near_from32 :: "hook_env32 \<Rightarrow> u32 \<Rightarrow> bool \<Rightarrow> u32 \<Rightarrow> u32 \<Rightarrow> vm32 \<Rightarrow> u32 option \<times> vm32" where
  "near_from32 env target thumb base off v =
     (if off \<le> 0x00f00000
      then case try_below32 env target thumb base off v of
             (Some p, v1) \<Rightarrow> (Some p, v1)
           | (None, v1) \<Rightarrow>
               (case try_above32 env target thumb base off v1 of
                  (Some p, v2) \<Rightarrow> (Some p, v2)
                | (None, v2) \<Rightarrow> near_from32 env target thumb base (off + 0x10000) v2)
      else (None, v))"
  by pat_completeness auto
termination
proof (relation "measure (\<lambda>(env, target, thumb, base, off, v). 0xf10000 - unat off)", goal_cases)
  case (2 env target thumb base off v)
  then have le: "unat off \<le> 0xf00000" by (simp add: word_le_nat_alt)
  then have "unat (off + 0x10000) = unat off + 0x10000" by (subst unat_add_lt) simp_all
  with le show ?case by simp
qed simp

declare near_from32.simps [simp del]

definition alloc_arm32_near :: "hook_env32 \<Rightarrow> u32 \<Rightarrow> bool \<Rightarrow> vm32 \<Rightarrow> u32 \<times> vm32" where
  "alloc_arm32_near env target thumb v =
     (let base = target AND NOT 0xfff;
          search = (\<lambda>v1. case near_from32 env target thumb base 0x10000 v1 of
                          (None, w) \<Rightarrow> (0, w) | (Some p, w) \<Rightarrow> (p, w))
      in case h_mmap env v of
           None \<Rightarrow> search v
         | Some page \<Rightarrow>
             if relative_jump_reachable target page thumb then (page, map_page32 page v)
             else search (unmap_page32 page (map_page32 page v)))"

section \<open>Installing and removing a hook\<close>

definition arm32_code_bytes :: "u32 \<Rightarrow> u32" where
  "arm32_code_bytes symbol_address = symbol_address AND NOT 1"

definition capture_size32 :: "hook_env32 \<Rightarrow> bool \<Rightarrow> u32" where
  "capture_size32 env thumb = arm32_code_bytes (h_tmpl_end env thumb) - arm32_code_bytes (h_tmpl env thumb)"

definition call_original_offset :: "hook_env32 \<Rightarrow> bool \<Rightarrow> u32" where
  "call_original_offset env thumb = (capture_size32 env thumb + 3) AND NOT 3"

text \<open>The choice of page: a near one for a relative jump when that is preferred and possible,
  otherwise any page.  \<open>None\<close> is an early \<^verbatim>\<open>return nullptr\<close>; a page of \<open>None\<close> is \<^verbatim>\<open>MAP_FAILED\<close>.\<close>

record plan32 =
  pl_relative :: bool
  pl_patch_size :: nat
  pl_copy_size :: nat
  pl_page :: "u32 option"

definition plan_absolute :: "hook_env32 \<Rightarrow> u32 \<Rightarrow> bool \<Rightarrow> vm32 \<Rightarrow> plan32 option \<times> vm32" where
  "plan_absolute env target thumb v =
     (let patch_size = absolute_jump_size target thumb;
          copy_size = arm32_copy_size (v_mem v) target thumb patch_size
      in if copy_size = 0 then (None, v)
         else case h_mmap env v of
                None \<Rightarrow> (Some \<lparr>pl_relative = False, pl_patch_size = patch_size, pl_copy_size = copy_size,
                          pl_page = None\<rparr>, v)
              | Some page \<Rightarrow> (Some \<lparr>pl_relative = False, pl_patch_size = patch_size, pl_copy_size = copy_size,
                          pl_page = Some page\<rparr>, map_page32 page v))"

definition plan_hook :: "hook_env32 \<Rightarrow> u32 \<Rightarrow> bool \<Rightarrow> bool \<Rightarrow> vm32 \<Rightarrow> plan32 option \<times> vm32" where
  "plan_hook env target thumb prefer_relative v =
     (let copy_size = arm32_copy_size (v_mem v) target thumb 4
      in if prefer_relative \<and> copy_size \<noteq> 0
         then case alloc_arm32_near env target thumb v of (page, v1) \<Rightarrow>
                if page \<noteq> 0
                then (Some \<lparr>pl_relative = True, pl_patch_size = 4, pl_copy_size = copy_size,
                        pl_page = Some page\<rparr>, v1)
                else plan_absolute env target thumb v1
         else plan_absolute env target thumb v)"

definition fill_page32 :: "hook_env32 \<Rightarrow> u32 \<Rightarrow> bool \<Rightarrow> u32 \<Rightarrow> nat \<Rightarrow> u32 \<Rightarrow> vm32 \<Rightarrow> vm32" where
  "fill_page32 env target thumb replacement copy_size base v =
     (let capture = arm32_code_bytes (h_tmpl env thumb);
          v1 = store32 base (read_bytes (v_mem v) capture (unat (capture_size32 env thumb))) v;
          v2 = store32 (base + (arm32_code_bytes (h_tmpl_ctx env thumb) - capture)) (le32 (h_ret_ctx env)) v1;
          v3 = store32 (base + (arm32_code_bytes (h_tmpl_wrap env thumb) - capture)) (le32 replacement) v2;
          call_original = base + call_original_offset env thumb;
          v4 = store32 call_original (read_bytes (v_mem v3) target copy_size) v3
      in store32 (call_original + of_nat copy_size)
           (emit_absolute_jump (call_original + of_nat copy_size)
              (target + of_nat copy_size + (if thumb then 1 else 0)) thumb) v4)"

definition patch_bytes32 :: "u32 \<Rightarrow> bool \<Rightarrow> plan32 \<Rightarrow> u32 \<Rightarrow> u8 list" where
  "patch_bytes32 target thumb pl page =
     take (pl_patch_size pl)
       (if pl_relative pl then emit_relative_jump target page thumb
        else emit_absolute_jump target (page + (if thumb then 1 else 0)) thumb)"

definition install32 ::
  "hook_env32 \<Rightarrow> u32 \<Rightarrow> u32 \<Rightarrow> Hook32 \<Rightarrow> bool \<Rightarrow> vm32 \<Rightarrow> u32 option \<times> Hook32 \<times> vm32" where
  "install32 env callable replacement out prefer_relative v =
     (let thumb = (callable AND 1 \<noteq> 0);
          target = callable AND NOT 1
      in case plan_hook env target thumb prefer_relative v of
           (None, v1) \<Rightarrow> (None, out, v1)
         | (Some pl, v1) \<Rightarrow>
             (case pl_page pl of
                None \<Rightarrow> (None, out, v1)
              | Some page \<Rightarrow>
                  if call_original_offset env thumb + of_nat (pl_copy_size pl) + 10 > 0x1000
                  then (None, out, unmap_page32 page v1)
                  else
                    let v2 = fill_page32 env target thumb replacement (pl_copy_size pl) page v1
                    in if \<not> h_mprotect env v2 page then (None, out, unmap_page32 page v2)
                       else
                         let v3 = protect32 page (Some 5) v2;
                             out1 = out\<lparr>k_saved := read_bytes (v_mem v3) target (pl_copy_size pl)\<rparr>
                         in case patch_text32 env target (patch_bytes32 target thumb pl page) v3 of (ok, v4) \<Rightarrow>
                              if \<not> ok then (None, out1, unmap_page32 page v4)
                              else (Some (page + call_original_offset env thumb + (if thumb then 1 else 0)),
                                    out1\<lparr>k_target := target, k_trampoline := page,
                                      k_patched_size := pl_patch_size pl, k_active := True\<rparr>, v4)))"

definition discard_cow_patch_pages32 :: "hook_env32 \<Rightarrow> u32 \<Rightarrow> u32 \<Rightarrow> vm32 \<Rightarrow> bool \<times> vm32" where
  "discard_cow_patch_pages32 env address patch_size v =
     (case cow_range (h_page_size env) address patch_size of
        None \<Rightarrow> (False, v)
      | Some (first_page, len) \<Rightarrow>
          if h_madvise env v first_page len
          then (True, v\<lparr>v_mem := (\<lambda>x. if in_range first_page (unat len) x then h_backing env x else v_mem v x)\<rparr>)
          else (False, v))"

definition remove_patch32 :: "hook_env32 \<Rightarrow> UnhookMode \<Rightarrow> Hook32 \<Rightarrow> vm32 \<Rightarrow> bool \<times> vm32" where
  "remove_patch32 env mode h v =
     (case mode of
        DiscardCowPages \<Rightarrow> discard_cow_patch_pages32 env (k_target h) (of_nat (k_patched_size h)) v
      | RestoreBytes \<Rightarrow> patch_text32 env (k_target h) (take (k_patched_size h) (k_saved h)) v)"

definition uninstall32 :: "hook_env32 \<Rightarrow> UnhookMode \<Rightarrow> Hook32 \<Rightarrow> vm32 \<Rightarrow> bool \<times> Hook32 \<times> vm32" where
  "uninstall32 env mode h v =
     (if \<not> k_active h then (True, h, v)
      else case remove_patch32 env mode h v of (ok, v1) \<Rightarrow>
        if \<not> ok then (False, h, v1)
        else (True, h\<lparr>k_trampoline := 0, k_patched_size := 0, k_active := False\<rparr>,
              if k_trampoline h \<noteq> 0 then unmap_page32 (k_trampoline h) v1 else v1))"

section \<open>Whole instructions\<close>

text \<open>\<open>whole_thumb m a b e\<close>: from offset \<open>b\<close> to offset \<open>e\<close> there are whole Thumb instructions, none of
  which \<^verbatim>\<open>thumb_is_pcrel\<close> rejects.\<close>

inductive whole_thumb :: "(u32 \<Rightarrow> u8) \<Rightarrow> u32 \<Rightarrow> nat \<Rightarrow> nat \<Rightarrow> bool" for m a where
  wt_end: "whole_thumb m a b b"
| wt_narrow: "\<not> thumb_is_32bit (half_at m (a + of_nat b)) \<Longrightarrow>
     \<not> thumb_is_pcrel (half_at m (a + of_nat b)) h2 False \<Longrightarrow>
     whole_thumb m a (b + 2) e \<Longrightarrow> whole_thumb m a b e"
| wt_wide: "thumb_is_32bit (half_at m (a + of_nat b)) \<Longrightarrow>
     \<not> thumb_is_pcrel (half_at m (a + of_nat b)) (half_at m (a + of_nat b + 2)) True \<Longrightarrow>
     whole_thumb m a (b + 4) e \<Longrightarrow> whole_thumb m a b e"

lemma thumb_copy_whole:
  "even b \<Longrightarrow> b \<le> 12 \<Longrightarrow>
   thumb_copy m a n b = 0 \<or>
   (n \<le> thumb_copy m a n b \<and> thumb_copy m a n b \<le> 12 \<and> even (thumb_copy m a n b) \<and>
    whole_thumb m a b (thumb_copy m a n b))"
proof (induction m a n b rule: thumb_copy.induct)
  case (1 m a n b)
  have b2: "b div 2 * 2 = b" using 1(2) by simp
  let ?h = "half_at m (a + of_nat b)" and ?h2 = "half_at m (a + of_nat b + 2)"
  let ?s = "if thumb_is_32bit ?h then 4 else 2 :: nat"
  show ?case
  proof (cases "b < n")
    case False
    then show ?thesis using 1(2,3) by (simp add: thumb_copy.simps wt_end)
  next
    case True
    show ?thesis
    proof (cases "b + ?s > 12 \<or> thumb_is_pcrel ?h ?h2 (thumb_is_32bit ?h)")
      case bad: True
      then show ?thesis using True by (simp add: thumb_copy.simps [of m a n b] b2 Let_def)
    next
      case good: False
      then have step: "thumb_copy m a n b = thumb_copy m a n (b + ?s)"
        using True by (simp add: thumb_copy.simps [of m a n b] b2 Let_def)
      have s: "even (b + ?s)" "b + ?s \<le> 12" using 1(2) good by auto
      from 1(1) [OF True refl refl refl, unfolded b2] good s
      have "thumb_copy m a n (b + ?s) = 0 \<or>
        (n \<le> thumb_copy m a n (b + ?s) \<and> thumb_copy m a n (b + ?s) \<le> 12 \<and>
         even (thumb_copy m a n (b + ?s)) \<and> whole_thumb m a (b + ?s) (thumb_copy m a n (b + ?s)))"
        by blast
      then show ?thesis
        unfolding step using good
        by (cases "thumb_is_32bit ?h") (auto intro: wt_narrow wt_wide)
    qed
  qed
qed

lemma arm_words_ok_iff:
  "arm_words_ok m a n \<longleftrightarrow> (\<forall>i < n. \<not> arm_is_pcrel (word_at m (a + of_nat (4 * i))))"
proof (induction n arbitrary: a)
  case (Suc n)
  have "(\<forall>i < Suc n. P i) \<longleftrightarrow> P 0 \<and> (\<forall>i < n. P (Suc i))" for P :: "nat \<Rightarrow> bool"
    by (auto simp: less_Suc_eq_0_disj)
  moreover have "a + 4 + of_nat (4 * i) = a + of_nat (4 * Suc i)" for i by simp
  ultimately show ?case by (simp add: Suc add.assoc)
qed simp

text \<open>\<^verbatim>\<open>arm32_copy_size\<close> returns 0 or a size that covers the patch, fits the saved words of the
  hook, and consists of whole instructions that the position checks accept.\<close>

lemma arm32_copy_size_whole:
  assumes "n \<le> 10" and "arm32_copy_size m a thumb n \<noteq> 0"
  shows "n \<le> arm32_copy_size m a thumb n \<and> arm32_copy_size m a thumb n \<le> 12 \<and>
    (if thumb then whole_thumb m a 0 (arm32_copy_size m a thumb n)
     else 4 dvd arm32_copy_size m a thumb n \<and>
       (\<forall>i < arm32_copy_size m a thumb n div 4. \<not> arm_is_pcrel (word_at m (a + of_nat (4 * i)))))"
proof (cases thumb)
  case True
  then show ?thesis using assms(2) thumb_copy_whole [of 0 m a n] by (simp add: arm32_copy_size_def)
next
  case False
  let ?w = "(n + 3) div 4"
  have r: "arm_words_ok m a ?w" "arm32_copy_size m a thumb n = ?w * 4"
    using assms(2) False by (simp_all add: arm32_copy_size_def Let_def split: if_splits)
  have "n \<le> ?w * 4" "?w * 4 \<le> 12" using assms(1) by presburger+
  then show ?thesis using False r(1) unfolding r(2) arm_words_ok_iff by simp
qed

lemma zero_code_copy: "arm32_copy_size (\<lambda>x. 0) a True 8 = 8"
proof -
  have "half_at (\<lambda>x. 0) a = 0" for a by (simp add: half_at_def read_bytes_def upt_rec)
  then show ?thesis by (simp add: arm32_copy_size_def thumb_copy.simps thumb_is_32bit_def thumb_is_pcrel_def)
qed

section \<open>Where the jumps go\<close>

text \<open>The branch semantics of the architecture: ARM \<^verbatim>\<open>B\<close> with a 24-bit word offset from the
  instruction address plus 8; Thumb \<^verbatim>\<open>B.W\<close> (encoding T4), whose offset from the instruction address
  plus 4 is assembled from \<open>S\<close>, \<open>I1 = NOT (J1 XOR S)\<close>, \<open>I2 = NOT (J2 XOR S)\<close> and two fields.\<close>

definition arm_b_target :: "u32 \<Rightarrow> u32 \<Rightarrow> u32" where
  "arm_b_target from insn = from + 8 + push_bit 2 (signed_take_bit 23 insn)"

definition thumb_bw_bit :: "u16 \<Rightarrow> u16 \<Rightarrow> nat \<Rightarrow> bool" where
  "thumb_bw_bit h1 h2 j =
     (if j < 11 then bit h2 j
      else if j < 21 then bit h1 (j - 11)
      else if j = 21 then bit h2 11 = bit h1 10
      else if j = 22 then bit h2 13 = bit h1 10
      else bit h1 10)"

definition thumb_bw_target :: "u32 \<Rightarrow> u16 \<Rightarrow> u16 \<Rightarrow> u32" where
  "thumb_bw_target from h1 h2 = from + 4 + horner_sum of_bool 2 (False # map (thumb_bw_bit h1 h2) [0..<31])"

definition branch_target :: "bool \<Rightarrow> u32 \<Rightarrow> u8 list \<Rightarrow> u32" where
  "branch_target thumb from bs =
     (if thumb then thumb_bw_target from (get16 bs 0) (get16 bs 2) else arm_b_target from (get32 bs 0))"

lemma offset_word: "to = from + (if thumb then 4 else 8) + word_of_int (jump_offset from to thumb)"
  by (simp add: jump_offset_def)

lemma arm_b_bits:
  fixes e :: u32 
  assumes "j \<le> 23" 
  shows "bit (0xea000000 OR (drop_bit 2 e AND 0x00ffffff)) j = bit e (j + 2)"
proof -
  have "(0xea000000 :: u32) = push_bit 24 0xea" by (simp add: push_bit_eq_mult)
  then have op: "\<not> bit (0xea000000 :: u32) j" using assms by (simp only: bit_push_bit_iff) simp
  have field: "(0x00ffffff :: u32) = mask 24" by (simp add: mask_eq_exp_minus_1)
  show ?thesis unfolding field bit_or_iff using op assms
    by (simp add: bit_and_iff bit_mask_iff bit_drop_bit_eq add.commute)
qed

lemma arm_b_reaches:
  assumes "- (2 ^ 25) \<le> sint e" and "sint e < 2 ^ 25" and "\<not> bit e 0" and "\<not> bit e 1"
  shows "push_bit 2 (signed_take_bit 23 (0xea000000 OR (drop_bit 2 e AND 0x00ffffff))) = (e :: u32)"
proof (rule bit_word_eqI)
  fix n assume n: "n < LENGTH(32)"
  show "bit (push_bit 2 (signed_take_bit 23 (0xea000000 OR (drop_bit 2 e AND 0x00ffffff)))) n = bit e n"
  proof (cases "n < 2")
    case True
    then have "n = 0 \<or> n = 1" by linarith
    then show ?thesis using assms(3,4) True by (auto simp: bit_push_bit_iff)
  next
    case False
    have "bit (push_bit 2 (signed_take_bit 23 (0xea000000 OR (drop_bit 2 e AND 0x00ffffff)))) n =
        bit (0xea000000 OR (drop_bit 2 e AND 0x00ffffff)) (min 23 (n - 2))"
      using False n by (auto simp: bit_push_bit_iff bit_signed_take_bit_iff)
    also have "\<dots> = bit e (min 23 (n - 2) + 2)" by (rule arm_b_bits) simp
    also have "\<dots> = bit e n"
    proof (cases "n \<le> 25")
      case True
      then have "min 23 (n - 2) + 2 = n" using False by linarith
      then show ?thesis by (simp only:)
    next
      case False
      then have "min 23 (n - 2) + 2 = 25" by linarith
      then show ?thesis using False n short_word_bits [OF assms(1,2), of n] by simp
    qed
    finally show ?thesis .
  qed
qed

lemma low_mask: "(0x03ff :: u32) = mask 10" "(0x07ff :: u32) = mask 11"
  by (simp_all add: mask_eq_exp_minus_1)

lemma low_clear: "j < 12 \<Longrightarrow> \<not> bit (0xf000 :: u32) j" "j \<noteq> 12 \<Longrightarrow> j < 15 \<Longrightarrow> \<not> bit (0x9000 :: u32) j"
proof -
  have "(0xf000 :: u32) = push_bit 12 0xf" by (simp add: push_bit_eq_mult)
  then show "j < 12 \<Longrightarrow> \<not> bit (0xf000 :: u32) j" by (simp only: bit_push_bit_iff) simp
  have "(0x9000 :: u32) = push_bit 12 (1 OR push_bit 3 1)" by (simp add: push_bit_eq_mult)
  then show "j \<noteq> 12 \<Longrightarrow> j < 15 \<Longrightarrow> \<not> bit (0x9000 :: u32) j"
    by (simp only: bit_push_bit_iff bit_or_iff) (auto simp: bit_1_iff)
qed

lemma thumb_h1_bits:
  fixes e :: u32
  assumes "j \<le> 10"
  shows "bit (ucast (0xf000 OR push_bit 10 (drop_bit 24 e AND 1) OR (drop_bit 12 e AND 0x03ff)) :: u16) j =
    (if j = 10 then bit e 24 else bit e (12 + j))"
  using assms low_clear(1) [of j] unfolding low_mask
  by (auto simp: bit_unsigned_iff bit_or_iff bit_push_bit_iff bit_and_iff bit_drop_bit_eq bit_1_iff bit_mask_iff)

lemma thumb_h2_bits:
  fixes e :: u32
  assumes "j \<le> 10 \<or> j = 11 \<or> j = 13"
  shows "bit (ucast (0x9000 OR push_bit 13 ((NOT (drop_bit 23 e AND 1) XOR (drop_bit 24 e AND 1)) AND 1) OR
       push_bit 11 ((NOT (drop_bit 22 e AND 1) XOR (drop_bit 24 e AND 1)) AND 1) OR
       (drop_bit 1 e AND 0x07ff)) :: u16) j =
    (if j = 13 then bit e 23 = bit e 24 else if j = 11 then bit e 22 = bit e 24 else bit e (1 + j))"
proof -
  note bits = bit_unsigned_iff bit_or_iff bit_push_bit_iff bit_and_iff bit_drop_bit_eq bit_1_iff bit_mask_iff
    bit_not_iff bit_xor_iff
  from assms consider "j \<le> 10" | "j = 11" | "j = 13" by blast
  then show ?thesis
  proof cases
    case 1
    then show ?thesis using low_clear(2) [of j] unfolding low_mask bits by simp
  next
    case 2
    then show ?thesis using low_clear(2) [of 11] unfolding low_mask bits by simp
  next
    case 3
    then show ?thesis using low_clear(2) [of 13] unfolding low_mask bits by simp
  qed
qed

lemma thumb_bw_reaches:
  fixes e :: u32
  assumes "- (2 ^ 24) \<le> sint e" and "sint e < 2 ^ 24" and "\<not> bit e 0"
  defines "h1 \<equiv> ucast (0xf000 OR push_bit 10 (drop_bit 24 e AND 1) OR (drop_bit 12 e AND 0x03ff)) :: u16"
    and "h2 \<equiv> ucast (0x9000 OR push_bit 13 ((NOT (drop_bit 23 e AND 1) XOR (drop_bit 24 e AND 1)) AND 1) OR
       push_bit 11 ((NOT (drop_bit 22 e AND 1) XOR (drop_bit 24 e AND 1)) AND 1) OR
       (drop_bit 1 e AND 0x07ff)) :: u16"
  shows "horner_sum of_bool 2 (False # map (thumb_bw_bit h1 h2) [0..<31]) = e"
proof (rule bit_word_eqI)
  fix n assume n: "n < LENGTH(32)"
  have b: "thumb_bw_bit h1 h2 j = bit e (j + 1)" if j: "j < 31" for j
  proof -
    consider "j < 11" | "11 \<le> j" "j < 21" | "j = 21" | "j = 22" | "23 \<le> j" by linarith
    then show ?thesis
    proof cases
      case 5
      then have "bit e (j + 1) = bit e 24" using short_word_bits [OF assms(1,2), of "j + 1"] j by simp
      then show ?thesis using 5 thumb_h1_bits [of 10 e, folded h1_def] by (simp add: thumb_bw_bit_def)
    qed (use thumb_h1_bits [of _ e, folded h1_def] thumb_h2_bits [of _ e, folded h2_def]
          in \<open>auto simp: thumb_bw_bit_def\<close>)
  qed
  show "bit (horner_sum of_bool 2 (False # map (thumb_bw_bit h1 h2) [0..<31]) :: u32) n = bit e n"
    unfolding bit_horner_sum_bit_word_iff using n b [of "n - 1"] assms(3)
    by (cases n) (simp_all add: nth_Cons del: upt.simps)
qed

lemma jump_offset_word:
  assumes "relative_jump_reachable from to thumb"
  defines "e \<equiv> word_of_int (jump_offset from to thumb) :: u32" and "k \<equiv> if thumb then 24 else 25"
  shows "- (2 ^ k) \<le> sint e" and "sint e < 2 ^ k" and "\<not> bit e 0" and "\<not> thumb \<Longrightarrow> \<not> bit e 1"
proof -
  let ?o = "jump_offset from to thumb"
  have lim: "- (2 ^ k) \<le> ?o" "?o < 2 ^ k" and al: "?o AND (if thumb then 1 else 3) = 0"
    using assms(1) by (cases thumb; simp add: relative_jump_reachable_def Let_def k_def)+
  have "(2 :: int) ^ k \<le> 2 ^ 31" by (rule power_increasing) (simp_all add: k_def)
  then have "sint e = ?o" unfolding e_def using lim by (simp add: sint_sbintrunc' signed_take_bit_int_eq_self)
  with lim show "- (2 ^ k) \<le> sint e" "sint e < 2 ^ k" by simp_all
  have m: "(1 :: int) = mask 1" "(3 :: int) = mask 2" by (simp_all add: mask_eq_exp_minus_1)
  have low: "take_bit (if thumb then 1 else 2) ?o = 0"
    using al unfolding m by (cases thumb) (simp_all add: take_bit_eq_mask)
  have clear: "\<not> bit e j" if "j < (if thumb then 1 else 2)" for j
  proof -
    have "\<not> bit (take_bit (if thumb then 1 else 2) ?o) j" unfolding low by simp
    with that show ?thesis by (simp add: e_def bit_word_of_int_iff bit_take_bit_iff)
  qed
  show "\<not> bit e 0" using clear [of 0] by simp
  show "\<not> thumb \<Longrightarrow> \<not> bit e 1" using clear [of 1] by simp
qed

lemma get16_le16: "get16 (le16 a @ le16 b) 0 = a" "get16 (le16 a @ le16 b) 2 = b"
  using get16_at [of "[]" a "le16 b"] get16_at [of "le16 a" b "[]"] by simp_all

lemma get32_le32: "get32 (le32 a) 0 = a"
  using get32_at [of "[]" a "[]"] by simp

lemma branch_lands:
  assumes "relative_jump_reachable from to thumb"
  shows "branch_target thumb from (emit_relative_jump from to thumb) = to"
proof -
  note e = jump_offset_word [OF assms] and to = offset_word [of to "from" thumb, symmetric]
  show ?thesis
  proof (cases thumb)
    case True
    then have T: "thumb = True" by simp
    note e' = e(1-3) [unfolded T if_True]
    show ?thesis
      unfolding T branch_target_def emit_relative_jump_def Let_def if_True not_True_eq_False if_False
        get16_le16 thumb_bw_target_def thumb_bw_reaches [OF e']
      using to [unfolded T if_True] .
  next
    case False
    with e to arm_b_reaches [of "word_of_int (jump_offset from to thumb)"] show ?thesis
      by (simp add: branch_target_def emit_relative_jump_def Let_def get32_le32 arm_b_target_def)
  qed
qed

text \<open>An absolute jump is a load of the program counter from a literal.  Thumb \<^verbatim>\<open>LDR.W pc, [pc, #imm]\<close>
  reads at the instruction address plus 4, rounded down to a word, plus \<open>imm\<close>; ARM
  \<^verbatim>\<open>LDR pc, [pc, #-4]\<close> reads at the instruction address plus 8 minus 4.\<close>

definition literal_address :: "bool \<Rightarrow> u32 \<Rightarrow> u8 list \<Rightarrow> u32" where
  "literal_address thumb addr bs =
     (if thumb then ((addr + 4) AND NOT 3) + ucast (get16 bs 2 AND 0xfff) else addr + 8 - 4)"

definition absolute_target :: "bool \<Rightarrow> u32 \<Rightarrow> u8 list \<Rightarrow> u32" where
  "absolute_target thumb addr bs = get32 bs (unat (literal_address thumb addr bs - addr))"

definition loads_pc :: "bool \<Rightarrow> u8 list \<Rightarrow> bool" where
  "loads_pc thumb bs \<longleftrightarrow>
     (if thumb then get16 bs 0 = 0xf8df \<and> get16 bs 2 AND 0xf000 = 0xf000 else get32 bs 0 = 0xe51ff004)"

lemma length_emit_absolute [simp]: "length (emit_absolute_jump a d thumb) = absolute_jump_size a thumb"
  by (simp add: emit_absolute_jump_def absolute_jump_size_def Let_def)

lemma align3: "(a + 4) AND NOT 3 = a + 4 - take_bit 2 a" for a :: u32
proof -
  have "(a + 4) AND NOT 3 = push_bit 2 (drop_bit 2 (a + 4))" using and_not_mask_eq [of "a + 4" 2] by simp
  then have "((a + 4) AND NOT 3) + take_bit 2 (a + 4) = a + 4" by (simp only: bits_ident)
  then have "(a + 4) AND NOT 3 = a + 4 - take_bit 2 (a + 4)" by (simp only: eq_diff_eq)
  moreover have "take_bit 2 (a + 4) = take_bit 2 a"
  proof (rule unsigned_word_eqI)
    have "uint (a + 4) = take_bit 32 (uint a + 4)" using uint_word_ariths(1) [of a 4] by (simp add: take_bit_eq_mod)
    then have "uint (take_bit 2 (a + 4)) = take_bit 2 (uint a + 4)" by (simp add: unsigned_take_bit_eq)
    also have "\<dots> = take_bit 2 (uint a)" by (simp add: take_bit_eq_mod)
    finally show "uint (take_bit 2 (a + 4)) = uint (take_bit 2 a)" by (simp only: unsigned_take_bit_eq)
  qed
  ultimately show ?thesis by simp
qed

lemma low2: "even a \<Longrightarrow> take_bit 2 a = (if a AND 2 \<noteq> 0 then 2 else 0)" for a :: u32
proof (rule bit_word_eqI)
  fix n assume e: "even a" and n: "n < LENGTH(32)"
  have b0: "\<not> bit a 0" using e by (simp add: bit_0)
  have b1: "a AND 2 \<noteq> 0 \<longleftrightarrow> bit a 1" using and_exp_eq_0_iff_not_bit [of a 1] by simp
  have two: "bit (2 :: u32) n \<longleftrightarrow> n = 1" using n bit_exp_iff [where 'a = u32, of 1 n] by auto
  show "bit (take_bit 2 a) n = bit (if a AND 2 \<noteq> 0 then (2 :: u32) else 0) n"
    unfolding b1 using b0 two by (cases "n = 0"; cases "n = 1"; cases "bit a 1") (simp_all add: bit_take_bit_iff)
qed

lemma get16_skip: "get16 (le16 a @ bs) 2 = get16 bs 0" "get16 (le16 a @ bs) 0 = a"
  using get16_at [of "[]" a bs] by (simp_all add: get16_def)

lemma absolute_jump_reaches:
  assumes "thumb \<longrightarrow> even addr"
  shows "loads_pc thumb (emit_absolute_jump addr destination thumb) \<and>
    absolute_target thumb addr (emit_absolute_jump addr destination thumb) = destination \<and>
    length (emit_absolute_jump addr destination thumb) = absolute_jump_size addr thumb"
proof (cases thumb)
  case False
  have "get32 (le32 0xe51ff004 @ le32 destination) 0 = 0xe51ff004"
    using get32_at [of "[]" "0xe51ff004" "le32 destination"] by simp
  moreover have "get32 (le32 0xe51ff004 @ le32 destination) 4 = destination"
    using get32_at [of "le32 0xe51ff004" destination "[]"] by simp
  ultimately show ?thesis using False
    by (simp add: loads_pc_def absolute_target_def literal_address_def emit_absolute_jump_def
        absolute_jump_size_def)
next
  case True
  note d = get32_at [of _ destination "[]", simplified]
  note al = align3 [of addr] low2 [of addr]
  show ?thesis
  proof (cases "addr AND 2 = 0")
    case even: True
    then show ?thesis using True assms d [of "le16 0xf8df @ le16 0xf000"] al
      by (simp add: loads_pc_def absolute_target_def literal_address_def emit_absolute_jump_def
        absolute_jump_size_def get16_skip)
  next
    case odd: False
    then show ?thesis using True assms d [of "le16 0xf8df @ le16 0xf004 @ le16 0xbf00"] al
      by (simp add: loads_pc_def absolute_target_def literal_address_def emit_absolute_jump_def
        absolute_jump_size_def get16_skip)
  qed
qed

section \<open>A position-dependent instruction that is not recognised\<close>

lemma split_bit: "w = (w AND NOT (push_bit k 1)) \<or> w = (w AND NOT (push_bit k 1)) OR push_bit k 1"
  for w :: "'a::len word"
proof (cases "bit w k")
  case True
  then have "w = (w AND NOT (push_bit k 1)) OR push_bit k 1"
    by (intro bit_word_eqI) (auto simp: bit_or_iff bit_and_iff bit_not_iff bit_push_bit_iff bit_1_iff bit_exp_iff)
  then show ?thesis ..
next
  case False
  then have "w = w AND NOT (push_bit k 1)"
    by (intro bit_word_eqI) (auto simp: bit_and_iff bit_not_iff bit_push_bit_iff bit_1_iff bit_exp_iff)
  then show ?thesis ..
qed

lemma adr_cases:
  assumes "first AND 0xfbff = 0xf20f \<or> first AND 0xfbff = (0xf2af :: u16)"
  shows "first = 0xf20f \<or> first = 0xf2af \<or> first = 0xf60f \<or> first = 0xf6af"
proof -
  have eq: "(0xfbff :: u16) = NOT (push_bit 10 1)" by simp
  have b: "push_bit 10 1 = (0x400 :: u16)" by simp
  from assms split_bit [of first 10, folded eq, unfolded b] show ?thesis by fastforce
qed

text \<open>The checks \<^verbatim>\<open>(first & 0xfbf0) == 0xf20f\<close> and \<^verbatim>\<open>(first & 0xfbf0) == 0xf2af\<close> can never hold,
  since the mask clears the low four bits and the constants have them set.  So no Thumb-2
  \<^verbatim>\<open>ADR.W\<close> (first half-word \<open>F20F\<close> or \<open>F2AF\<close>, bit 10 free; second half-word below \<open>0x8000\<close>) is
  recognised as position dependent, although its result depends on its address.\<close>

lemma thumb_adr_undetected:
  "\<forall>first second. (first AND 0xfbff = 0xf20f \<or> first AND 0xfbff = 0xf2af) \<and> second AND 0x8000 = 0 \<longrightarrow>
     thumb_is_32bit first \<and> \<not> thumb_is_pcrel first second True"
proof (intro allI impI)
  fix first second :: u16
  assume a: "(first AND 0xfbff = 0xf20f \<or> first AND 0xfbff = 0xf2af) \<and> second AND 0x8000 = 0"
  then have "first = 0xf20f \<or> first = 0xf2af \<or> first = 0xf60f \<or> first = 0xf6af" using adr_cases by blast
  with a show "thumb_is_32bit first \<and> \<not> thumb_is_pcrel first second True"
    by (elim disjE conjE) (simp_all add: thumb_is_32bit_def thumb_is_pcrel_def)
qed

end
