(* ===== verification/Hook32_Safety.thy ===== *)
theory Hook32_Safety
  imports Inline_Hook32
begin

text \<open>
  What installing and removing a 32-bit ARM hook does to the process: the counterpart for
  \<^verbatim>\<open>install\<close> and \<^verbatim>\<open>uninstall\<close> in ARM and Thumb state of the arm64 results, on the definitions of
  theory \<open>Inline_Hook32\<close>.
\<close>

section \<open>What the kernel and the patch service promise\<close>

definition fresh_pages32 :: "hook_env32 \<Rightarrow> bool" where
  "fresh_pages32 env \<longleftrightarrow>
     (\<forall>v h p x. h_mmap env v = Some p \<or> h_mmap_hint env v h = Some p \<longrightarrow>
        p \<noteq> 0 \<and> even p \<and> (in_range p 0x1000 x \<longrightarrow> v_prot v x = None))"

definition patch_all_or_nothing32 :: "hook_env32 \<Rightarrow> bool" where
  "patch_all_or_nothing32 env \<longleftrightarrow>
     (\<forall>v a bs. h_patch env v a bs = (True, length bs) \<or> h_patch env v a bs = (False, 0))"

abbreviation (input) ctx_off32 :: "hook_env32 \<Rightarrow> bool \<Rightarrow> u32" where
  "ctx_off32 env thumb \<equiv> arm32_code_bytes (h_tmpl_ctx env thumb) - arm32_code_bytes (h_tmpl env thumb)"

abbreviation (input) wrap_off32 :: "hook_env32 \<Rightarrow> bool \<Rightarrow> u32" where
  "wrap_off32 env thumb \<equiv> arm32_code_bytes (h_tmpl_wrap env thumb) - arm32_code_bytes (h_tmpl env thumb)"

definition stub_ok32 :: "hook_env32 \<Rightarrow> bool \<Rightarrow> bool" where
  "stub_ok32 env thumb \<longleftrightarrow>
     unat (ctx_off32 env thumb) + 4 \<le> unat (wrap_off32 env thumb) \<and>
     unat (wrap_off32 env thumb) + 4 \<le> unat (capture_size32 env thumb) \<and>
     unat (capture_size32 env thumb) \<le> 0xFE0"

definition mapped32 :: "vm32 \<Rightarrow> u32 \<Rightarrow> nat \<Rightarrow> bool" where
  "mapped32 v a n \<longleftrightarrow> (\<forall>x. in_range a n x \<longrightarrow> v_prot v x \<noteq> None)"

text \<open>The function's first 12 bytes and the template are mapped.\<close>

definition hook_ready32 :: "hook_env32 \<Rightarrow> u32 \<Rightarrow> bool \<Rightarrow> vm32 \<Rightarrow> bool" where
  "hook_ready32 env target thumb v \<longleftrightarrow>
     fresh_pages32 env \<and> patch_all_or_nothing32 env \<and> stub_ok32 env thumb \<and> mapped32 v target 12 \<and>
     mapped32 v (arm32_code_bytes (h_tmpl env thumb)) (unat (capture_size32 env thumb))"

definition same_pages32 :: "vm32 \<Rightarrow> vm32 \<Rightarrow> bool" where
  "same_pages32 v w \<longleftrightarrow> v_prot w = v_prot v \<and> (\<forall>x. v_prot v x \<noteq> None \<longrightarrow> v_mem w x = v_mem v x)"

definition more_pages32 :: "vm32 \<Rightarrow> u32 \<Rightarrow> u32 \<Rightarrow> vm32 \<Rightarrow> bool" where
  "more_pages32 v p prot w \<longleftrightarrow>
     (\<forall>x. in_range p 0x1000 x \<longrightarrow> v_prot v x = None) \<and>
     v_prot w = (\<lambda>x. if in_range p 0x1000 x then Some prot else v_prot v x) \<and>
     (\<forall>x. v_prot v x \<noteq> None \<longrightarrow> v_mem w x = v_mem v x)"

lemma same32_refl: "same_pages32 v v" by (simp add: same_pages32_def)

lemma same32_trans: "same_pages32 u v \<Longrightarrow> same_pages32 v w \<Longrightarrow> same_pages32 u w"
  by (simp add: same_pages32_def)

lemma same_then_more32: "same_pages32 u v \<Longrightarrow> more_pages32 v p prot w \<Longrightarrow> more_pages32 u p prot w"
  by (auto simp: same_pages32_def more_pages32_def fun_eq_iff)

lemma more_then_unmap32: "more_pages32 u p prot w \<Longrightarrow> same_pages32 u (unmap_page32 p w)"
  by (auto simp: same_pages32_def more_pages32_def unmap_page32_def protect32_def fun_eq_iff)

lemma protect_page32: "more_pages32 v p prot w \<Longrightarrow> more_pages32 v p prot' (protect32 p (Some prot') w)"
  by (auto simp: more_pages32_def protect32_def fun_eq_iff)

lemma map_more32:
  assumes "\<And>x. in_range p 0x1000 x \<Longrightarrow> v_prot v x = None"
  shows "more_pages32 v p 7 (map_page32 p v)"
  using assms unfolding more_pages32_def map_page32_def protect32_def by fastforce

lemma fresh32D:
  assumes "fresh_pages32 env" and "h_mmap env v = Some p \<or> h_mmap_hint env v h = Some p"
  shows "p \<noteq> 0" and "even p" and "more_pages32 v p 7 (map_page32 p v)"
    and "same_pages32 v (unmap_page32 p (map_page32 p v))"
proof -
  show "p \<noteq> 0" and "even p" using assms unfolding fresh_pages32_def by blast+
  show m: "more_pages32 v p 7 (map_page32 p v)"
    by (rule map_more32) (use assms in \<open>unfold fresh_pages32_def, blast\<close>)
  show "same_pages32 v (unmap_page32 p (map_page32 p v))" using more_then_unmap32 [OF m] .
qed

section \<open>Finding a page\<close>

definition found32 :: "u32 \<Rightarrow> bool \<Rightarrow> vm32 \<Rightarrow> u32 option \<times> vm32 \<Rightarrow> bool" where
  "found32 target thumb v r \<longleftrightarrow>
     (case fst r of
        None \<Rightarrow> same_pages32 v (snd r)
      | Some p \<Rightarrow> p \<noteq> 0 \<and> even p \<and> more_pages32 v p 7 (snd r) \<and> relative_jump_reachable target p thumb)"

lemma found32_trans: "same_pages32 u v \<Longrightarrow> found32 target thumb v r \<Longrightarrow> found32 target thumb u r"
  by (auto simp: found32_def intro: same32_trans same_then_more32 split: option.splits)

lemma try_hint32_found:
  assumes "fresh_pages32 env"
  shows "found32 target thumb v (try_hint32 env target thumb hint v)"
proof (cases "h_mmap_hint env v hint")
  case None
  then show ?thesis by (simp add: try_hint32_def found32_def same32_refl)
next
  case (Some p)
  then have "h_mmap env v = Some p \<or> h_mmap_hint env v hint = Some p" by blast
  from fresh32D [OF assms this] Some show ?thesis by (auto simp: try_hint32_def found32_def Let_def)
qed

lemma try_sides32_found:
  assumes "fresh_pages32 env"
  shows "found32 target thumb v (try_below32 env target thumb base off v)"
    and "found32 target thumb v (try_above32 env target thumb base off v)"
  using try_hint32_found [OF assms]
  by (simp_all add: try_below32_def try_above32_def found32_def same32_refl)

lemma near_from32_found:
  "fresh_pages32 env \<Longrightarrow> found32 target thumb v (near_from32 env target thumb base off v)"
proof (induction env target thumb base off v rule: near_from32.induct)
  case (1 env target thumb base off v)
  obtain r1 v1 where b: "try_below32 env target thumb base off v = (r1, v1)" by fastforce
  obtain r2 v2 where a: "try_above32 env target thumb base off v1 = (r2, v2)" by fastforce
  note f1 = try_sides32_found(1) [OF 1(2), of target thumb v base off, unfolded b]
  note f2 = try_sides32_found(2) [OF 1(2), of target thumb v1 base off, unfolded a]
  show ?case
  proof (cases "off \<le> 0x00f00000")
    case False
    then show ?thesis by (simp add: near_from32.simps [of env target thumb base off] found32_def same32_refl)
  next
    case True
    show ?thesis
    proof (cases r1)
      case (Some p)
      then show ?thesis using f1 True b by (simp add: near_from32.simps [of env target thumb base off])
    next
      case None
      then have s1: "same_pages32 v v1" using f1 by (simp add: found32_def)
      show ?thesis
      proof (cases r2)
        case (Some p)
        then show ?thesis using found32_trans [OF s1 f2] True b a None
          by (simp add: near_from32.simps [of env target thumb base off])
      next
        case None2: None
        then have "same_pages32 v v2" using f2 s1 same32_trans by (simp add: found32_def)
        moreover have "found32 target thumb v2 (near_from32 env target thumb base (off + 0x10000) v2)"
          using 1(1) [OF True b [symmetric] None a [symmetric] None2 1(2)] .
        ultimately show ?thesis using found32_trans True b a None None2
          by (simp add: near_from32.simps [of env target thumb base off])
      qed
    qed
  qed
qed

lemma alloc_arm32_near_found:
  assumes "fresh_pages32 env" and "alloc_arm32_near env target thumb v = (p, w)"
  shows "if p = 0 then same_pages32 v w
    else even p \<and> more_pages32 v p 7 w \<and> relative_jump_reachable target p thumb"
proof -
  have search: "if p = 0 then same_pages32 v w
      else even p \<and> more_pages32 v p 7 w \<and> relative_jump_reachable target p thumb"
    if s: "same_pages32 v u"
      and r: "(case near_from32 env target thumb base 0x10000 u of (None, w) \<Rightarrow> (0, w) | (Some p, w) \<Rightarrow> (p, w)) = (p, w)"
    for u base
    using found32_trans [OF s near_from32_found [OF assms(1), of target thumb u base "0x10000"]] r
    by (auto simp: found32_def split: prod.splits option.splits)
  show ?thesis
  proof (cases "h_mmap env v")
    case None
    then show ?thesis using search [of v "target AND NOT 0xfff", OF same32_refl] assms(2) by (simp add: alloc_arm32_near_def Let_def)
  next
    case (Some q)
    then have "h_mmap env v = Some q \<or> h_mmap_hint env v 0 = Some q" by blast
    note f = fresh32D [OF assms(1) this]
    show ?thesis
      using search [of _ "target AND NOT 0xfff", OF f(4)] f(1-3) Some assms(2)
      by (cases "relative_jump_reachable target q thumb") (auto simp: alloc_arm32_near_def Let_def)
  qed
qed

section \<open>Planning\<close>

definition plan_ok :: "u32 \<Rightarrow> bool \<Rightarrow> plan32 \<Rightarrow> u32 \<Rightarrow> bool" where
  "plan_ok target thumb pl p \<longleftrightarrow>
     p \<noteq> 0 \<and> even p \<and> pl_patch_size pl \<le> pl_copy_size pl \<and> pl_copy_size pl \<le> 12 \<and>
     even (pl_copy_size pl) \<and>
     (if pl_relative pl then pl_patch_size pl = 4 \<and> relative_jump_reachable target p thumb
      else pl_patch_size pl = absolute_jump_size target thumb)"

definition planned :: "u32 \<Rightarrow> bool \<Rightarrow> vm32 \<Rightarrow> plan32 option \<times> vm32 \<Rightarrow> bool" where
  "planned target thumb v r \<longleftrightarrow>
     (case fst r of
        None \<Rightarrow> same_pages32 v (snd r)
      | Some pl \<Rightarrow> (case pl_page pl of
            None \<Rightarrow> same_pages32 v (snd r)
          | Some p \<Rightarrow> more_pages32 v p 7 (snd r) \<and> plan_ok target thumb pl p))"

lemma planned_trans: "same_pages32 u v \<Longrightarrow> planned target thumb v r \<Longrightarrow> planned target thumb u r"
  by (auto simp: planned_def intro: same32_trans same_then_more32 split: option.splits)

lemma copy_size_bounds:
  assumes "n \<le> 10" and "arm32_copy_size m a thumb n \<noteq> 0"
  shows "n \<le> arm32_copy_size m a thumb n" and "arm32_copy_size m a thumb n \<le> 12"
    and "even (arm32_copy_size m a thumb n)"
proof -
  have "n \<le> (n + 3) div 4 * 4" "(n + 3) div 4 * 4 \<le> 12" using assms(1) by presburger+
  then have "n \<le> arm32_copy_size m a thumb n \<and> arm32_copy_size m a thumb n \<le> 12 \<and>
      (even (arm32_copy_size m a thumb n))"
    using assms(2) thumb_copy_whole [of 0 m a n]
    by (cases thumb) (auto simp: arm32_copy_size_def Let_def split: if_splits)
  then show "n \<le> arm32_copy_size m a thumb n" and "arm32_copy_size m a thumb n \<le> 12"
    and "even (arm32_copy_size m a thumb n)" by blast+
qed

lemma plan_absolute_planned:
  assumes "fresh_pages32 env"
  shows "planned target thumb v (plan_absolute env target thumb v)"
proof -
  let ?n = "absolute_jump_size target thumb"
  have n: "?n \<le> 10" by (simp add: absolute_jump_size_def)
  show ?thesis
  proof (cases "arm32_copy_size (v_mem v) target thumb ?n = 0 \<or> h_mmap env v = None")
    case True
    then show ?thesis by (auto simp: plan_absolute_def planned_def Let_def same32_refl)
  next
    case False
    then obtain p where p: "h_mmap env v = Some p \<or> h_mmap_hint env v 0 = Some p" "h_mmap env v = Some p" by auto
    then show ?thesis
      using False copy_size_bounds [OF n, of "v_mem v" target thumb] fresh32D(1-3) [OF assms p(1)]
      by (simp add: plan_absolute_def planned_def plan_ok_def Let_def)
  qed
qed

lemma plan_hook_planned:
  assumes "fresh_pages32 env"
  shows "planned target thumb v (plan_hook env target thumb prefer_relative v)"
proof (cases "prefer_relative \<and> arm32_copy_size (v_mem v) target thumb 4 \<noteq> 0")
  case False
  then show ?thesis using plan_absolute_planned [OF assms] by (auto simp: plan_hook_def Let_def)
next
  case True
  obtain p w where a: "alloc_arm32_near env target thumb v = (p, w)" by fastforce
  show ?thesis
  proof (cases "p = 0")
    case p0: True
    then have "same_pages32 v w" using alloc_arm32_near_found [OF assms a] by simp
    then show ?thesis using True a p0 planned_trans plan_absolute_planned [OF assms]
      by (simp add: plan_hook_def Let_def)
  next
    case False
    then show ?thesis
      using True a alloc_arm32_near_found [OF assms a] copy_size_bounds [of 4 "v_mem v" target thumb]
      by (simp add: plan_hook_def planned_def plan_ok_def Let_def)
  qed
qed

section \<open>Filling the page\<close>

lemma store32_simps [simp]:
  "v_mem (store32 a bs v) = write_bytes (v_mem v) a bs" "v_prot (store32 a bs v) = v_prot v"
  by (simp_all add: store32_def)

lemma call_original_nat:
  assumes "stub_ok32 env thumb"
  obtains c where "call_original_offset env thumb = of_nat c" and "unat (capture_size32 env thumb) \<le> c"
    and "c \<le> 0xFE0" and "even c"
proof
  let ?n = "unat (capture_size32 env thumb)" and ?c = "(unat (capture_size32 env thumb) + 3) div 4 * 4"
  have n: "?n \<le> 0xFE0" using assms by (simp add: stub_ok32_def)
  have u: "unat (capture_size32 env thumb + 3) = ?n + 3" using n by (subst unat_add_lt) simp_all
  have "unat (call_original_offset env thumb) = ?c"
    using unat_align_down [of "capture_size32 env thumb + 3" 2] u by (simp add: call_original_offset_def)
  then have "of_nat (unat (call_original_offset env thumb)) = (of_nat ?c :: u32)" by (simp only:)
  then show "call_original_offset env thumb = of_nat ?c" by (simp only: of_nat_unat ucast_id)
  show "?n \<le> ?c" by presburger
  show "?c \<le> 0xFE0" using n by presburger
  show "even ?c" by simp
qed

definition hook_writes32 ::
  "hook_env32 \<Rightarrow> bool \<Rightarrow> u32 \<Rightarrow> u32 \<Rightarrow> u32 \<Rightarrow> nat \<Rightarrow> nat \<Rightarrow> (u32 \<Rightarrow> u8) \<Rightarrow> (nat \<times> u8 list) list" where
  "hook_writes32 env thumb target r p c n m =
     [(0, read_bytes m (arm32_code_bytes (h_tmpl env thumb)) (unat (capture_size32 env thumb))),
      (unat (ctx_off32 env thumb), le32 (h_ret_ctx env)), (unat (wrap_off32 env thumb), le32 r),
      (c, read_bytes m target n),
      (c + n, emit_absolute_jump (p + of_nat (c + n)) (target + of_nat n + (if thumb then 1 else 0)) thumb)]"

lemma absolute_size_le: "absolute_jump_size a thumb \<le> 10"
  by (simp add: absolute_jump_size_def)

lemma hook_writes32_within:
  "stub_ok32 env thumb \<Longrightarrow> c \<le> 0xFE0 \<Longrightarrow> n \<le> 12 \<Longrightarrow> within_page (hook_writes32 env thumb target r p c n m)"
  using absolute_size_le [of "p + of_nat (c + n)" thumb]
  by (simp add: hook_writes32_def within_page_def stub_ok32_def)

lemma fill_page32_result:
  assumes ready: "hook_ready32 env target thumb v" and more: "more_pages32 v p 7 v1"
    and c: "call_original_offset env thumb = of_nat c" "c \<le> 0xFE0" and n: "n \<le> 12"
  shows "fill_page32 env target thumb r n p v1 =
    v1\<lparr>v_mem := page_writes p (hook_writes32 env thumb target r p c n (v_mem v)) (v_mem v1)\<rparr>"
proof -
  note h = ready [unfolded hook_ready32_def]
  let ?cap = "arm32_code_bytes (h_tmpl env thumb)" and ?k = "unat (capture_size32 env thumb)"
  have keep: "read_bytes (page_writes p ws (v_mem v1)) a k = read_bytes (v_mem v) a k"
    if "mapped32 v a k'" and "k \<le> k'" and "k' \<le> 0x1000" and ws: "within_page ws" for a k k' ws
  proof (rule read_bytes_cong_len)
    fix x assume "in_range a k x"
    then have x: "v_prot v x \<noteq> None" using that(1,2) unfolding mapped32_def in_range_def by fastforce
    then have "\<not> in_range p 0x1000 x" using more unfolding more_pages32_def by auto
    then have "page_writes p ws (v_mem v1) x = v_mem v1 x" by (intro page_writes_frame ws) simp_all
    then show "page_writes p ws (v_mem v1) x = v_mem v x" using more x unfolding more_pages32_def by auto
  qed (use that in simp)
  let ?W = "hook_writes32 env thumb target r p c n (v_mem v)"
  have w: "within_page (take 0 ?W)" "within_page (take 3 ?W)"
    using hook_writes32_within [of env thumb c n target r p "v_mem v"] h c(2) n
    by (simp_all add: within_page_def hook_writes32_def)
  have cap: "read_bytes (v_mem v1) ?cap ?k = read_bytes (v_mem v) ?cap ?k"
    using keep [of ?cap ?k ?k "take 0 ?W"] h w(1) by (simp add: page_writes_def stub_ok32_def)
  have code: "read_bytes (page_writes p (take 3 ?W) (v_mem v1)) target n = read_bytes (v_mem v) target n"
    using keep [of target 12 n "take 3 ?W"] h w(2) n by simp
  have "p + of_nat c + of_nat n = p + of_nat (c + n)" by (simp add: add.assoc)
  then show ?thesis
    using c(1) code unfolding fill_page32_def Let_def store32_def
    by (simp add: cap split del: if_split) (simp add: page_writes_def hook_writes32_def add.assoc split del: if_split)
qed

section \<open>Installing\<close>

definition hooked32 :: "hook_env32 \<Rightarrow> bool \<Rightarrow> u32 \<Rightarrow> u32 \<Rightarrow> plan32 \<Rightarrow> u32 \<Rightarrow> vm32 \<Rightarrow> vm32 \<Rightarrow> bool" where
  "hooked32 env thumb target r pl p v w \<longleftrightarrow>
     (\<exists>v1 c. more_pages32 v p 5 v1 \<and> call_original_offset env thumb = of_nat c \<and>
        unat (capture_size32 env thumb) \<le> c \<and> c \<le> 0xFE0 \<and> even c \<and>
        w = store32 target (patch_bytes32 target thumb pl p) v1 \<and>
        (\<exists>m. \<forall>x. in_range p 0x1000 x \<longrightarrow>
           v_mem v1 x = page_writes p (hook_writes32 env thumb target r p c (pl_copy_size pl) (v_mem v)) m x))"

lemma patch_result32:
  assumes "patch_all_or_nothing32 env" and "patch_text32 env a bs v = (ok, w)"
  shows "w = (if ok then store32 a bs v else v)"
  using assms(2) assms(1) [unfolded patch_all_or_nothing32_def, rule_format, of v a bs]
  by (auto simp: patch_text32_def store32_def)

lemma code_read32:
  assumes "mapped32 v target 12" and "more_pages32 v p prot w" and "n \<le> 12"
  shows "read_bytes (v_mem w) target n = read_bytes (v_mem v) target n"
proof (rule read_bytes_cong_len)
  fix x assume "in_range target n x"
  then have "v_prot v x \<noteq> None" using assms(1,3) unfolding mapped32_def in_range_def by fastforce
  then show "v_mem w x = v_mem v x" using assms(2) unfolding more_pages32_def by auto
qed (use assms in simp)

definition after_plan ::
  "hook_env32 \<Rightarrow> u32 \<Rightarrow> u32 \<Rightarrow> Hook32 \<Rightarrow> bool \<Rightarrow> plan32 \<Rightarrow> u32 \<Rightarrow> vm32 \<Rightarrow> u32 option \<times> Hook32 \<times> vm32" where
  "after_plan env target r out thumb pl page v1 =
     (let v2 = fill_page32 env target thumb r (pl_copy_size pl) page v1
      in if \<not> h_mprotect env v2 page then (None, out, unmap_page32 page v2)
         else
           let v3 = protect32 page (Some 5) v2;
               out1 = out\<lparr>k_saved := read_bytes (v_mem v3) target (pl_copy_size pl)\<rparr>
           in case patch_text32 env target (patch_bytes32 target thumb pl page) v3 of (ok, v4) \<Rightarrow>
                if \<not> ok then (None, out1, unmap_page32 page v4)
                else (Some (page + call_original_offset env thumb + (if thumb then 1 else 0)),
                      out1\<lparr>k_target := target, k_trampoline := page,
                        k_patched_size := pl_patch_size pl, k_active := True\<rparr>, v4))"

text \<open>The two possible outcomes of an install.\<close>

definition outcome32 :: "hook_env32 \<Rightarrow> bool \<Rightarrow> u32 \<Rightarrow> u32 \<Rightarrow> Hook32 \<Rightarrow> vm32 \<Rightarrow> u32 option \<times> Hook32 \<times> vm32 \<Rightarrow> bool" where
  "outcome32 env thumb target r out v result \<longleftrightarrow>
     (case result of (res, out', w) \<Rightarrow>
       (case res of
          None \<Rightarrow> same_pages32 v w \<and> k_active out' = k_active out \<and> k_trampoline out' = k_trampoline out
        | Some entry \<Rightarrow> (\<exists>pl p. plan_ok target thumb pl p \<and> hooked32 env thumb target r pl p v w \<and>
            entry = p + call_original_offset env thumb + (if thumb then 1 else 0) \<and>
            out' = out\<lparr>k_saved := read_bytes (v_mem v) target (pl_copy_size pl), k_target := target,
              k_trampoline := p, k_patched_size := pl_patch_size pl, k_active := True\<rparr>)))"

lemma after_plan_outcome:
  assumes ready: "hook_ready32 env target thumb v" and more: "more_pages32 v p 7 v1"
    and ok: "plan_ok target thumb pl p"
  shows "outcome32 env thumb target r out v (after_plan env target r out thumb pl p v1)"
proof -
  note h = ready [unfolded hook_ready32_def]
  obtain c where c: "call_original_offset env thumb = of_nat c" "unat (capture_size32 env thumb) \<le> c"
      "c \<le> 0xFE0" "even c" using call_original_nat h by blast
  have n: "pl_copy_size pl \<le> 12" using ok by (simp add: plan_ok_def)
  let ?ws = "hook_writes32 env thumb target r p c (pl_copy_size pl) (v_mem v)"
  let ?v2 = "v1\<lparr>v_mem := page_writes p ?ws (v_mem v1)\<rparr>" and ?bs = "patch_bytes32 target thumb pl p"
  let ?v3 = "protect32 p (Some 5) ?v2"
  have fill: "fill_page32 env target thumb r (pl_copy_size pl) p v1 = ?v2"
    by (rule fill_page32_result [OF ready more c(1,3) n])
  have "page_writes p ?ws (v_mem v1) x = v_mem v1 x" if "v_prot v x \<noteq> None" for x
  proof (rule page_writes_frame)
    show "within_page ?ws" using hook_writes32_within h c(3) n by blast
    show "\<not> in_range p 0x1000 x" using more that by (auto simp: more_pages32_def)
  qed simp
  then have m2: "more_pages32 v p 7 ?v2" using more by (simp add: more_pages32_def)
  have m3: "more_pages32 v p 5 ?v3" using protect_page32 [OF m2] .
  have saved: "read_bytes (v_mem ?v3) target (pl_copy_size pl) = read_bytes (v_mem v) target (pl_copy_size pl)"
    using code_read32 [OF _ m3 n] h by blast
  have hk: "hooked32 env thumb target r pl p v (store32 target ?bs ?v3)"
    unfolding hooked32_def using c m3
    by (intro exI [of _ ?v3] exI [of _ c] conjI exI [of _ "v_mem v1"]) (simp_all add: protect32_def)
  obtain b v4 where y: "patch_text32 env target ?bs ?v3 = (b, v4)" by fastforce
  have v4: "v4 = (if b then store32 target ?bs ?v3 else ?v3)" using patch_result32 y h by blast
  note un = more_then_unmap32 [OF m2] more_then_unmap32 [OF m3]
  show ?thesis
  proof (cases "h_mprotect env ?v2 p \<and> b")
    case True
    then have "after_plan env target r out thumb pl p v1 =
        (Some (p + call_original_offset env thumb + (if thumb then 1 else 0)),
         out\<lparr>k_saved := read_bytes (v_mem v) target (pl_copy_size pl), k_target := target,
           k_trampoline := p, k_patched_size := pl_patch_size pl, k_active := True\<rparr>, store32 target ?bs ?v3)"
      using y v4 saved by (simp add: after_plan_def fill Let_def)
    then show ?thesis unfolding outcome32_def using hk ok by auto
  next
    case False
    then show ?thesis using un y v4
      by (cases "h_mprotect env ?v2 p") (simp_all add: outcome32_def after_plan_def fill Let_def)
  qed
qed

lemma install32_outcome:
  assumes "hook_ready32 env (callable AND NOT 1) (callable AND 1 \<noteq> 0) v"
  shows "outcome32 env (callable AND 1 \<noteq> 0) (callable AND NOT 1) r out v
    (install32 env callable r out prefer_relative v)"
proof -
  let ?th = "callable AND 1 \<noteq> 0" and ?t = "callable AND NOT 1"
  have fresh: "fresh_pages32 env" using assms by (simp add: hook_ready32_def)
  obtain po v1 where pl: "plan_hook env ?t ?th prefer_relative v = (po, v1)" by fastforce
  note planned = plan_hook_planned [OF fresh, of ?t ?th v prefer_relative, unfolded pl planned_def fst_conv snd_conv]
  show ?thesis
  proof (cases "po = None \<or> pl_page (the po) = None")
    case True
    then show ?thesis using planned pl
      by (auto simp: install32_def Let_def outcome32_def split: option.splits)
  next
    case False
    then obtain q p where q: "po = Some q" "pl_page q = Some p" by auto
    then have mo: "more_pages32 v p 7 v1" "plan_ok ?t ?th q p" using planned by auto
    have eq: "install32 env callable r out prefer_relative v =
        (if call_original_offset env ?th + of_nat (pl_copy_size q) + 10 > 0x1000 then (None, out, unmap_page32 p v1)
         else after_plan env ?t r out ?th q p v1)"
      unfolding install32_def Let_def pl q after_plan_def by (simp only: prod.case option.case q)
    show ?thesis unfolding eq
      using after_plan_outcome [OF assms mo, of r out] more_then_unmap32 [OF mo(1)]
      by (simp add: outcome32_def)
  qed
qed

section \<open>Contents after an install\<close>

lemma even_of_nat32: "even n \<Longrightarrow> even (of_nat n :: u32)"
  by (elim evenE) simp

lemma even_target: "even (callable AND NOT 1 :: u32)"
proof -
  have "\<not> bit (callable AND NOT 1 :: u32) 0" by (simp add: bit_and_iff bit_not_iff)
  then show ?thesis by (simp add: bit_0)
qed

lemma length_patch_bytes32:
  assumes "plan_ok target thumb pl p"
  shows "length (patch_bytes32 target thumb pl p) = pl_patch_size pl"
    and "pl_patch_size pl \<le> 10"
    and "patch_bytes32 target thumb pl p =
      (if pl_relative pl then emit_relative_jump target p thumb
       else emit_absolute_jump target (p + (if thumb then 1 else 0)) thumb)"
proof -
  have r: "length (emit_relative_jump target p thumb) = 4" by (simp add: emit_relative_jump_def Let_def)
  show "pl_patch_size pl \<le> 10"
    using assms absolute_size_le [of target thumb] by (auto simp: plan_ok_def split: if_splits)
  show "length (patch_bytes32 target thumb pl p) = pl_patch_size pl"
    and "patch_bytes32 target thumb pl p =
      (if pl_relative pl then emit_relative_jump target p thumb
       else emit_absolute_jump target (p + (if thumb then 1 else 0)) thumb)"
    using assms r by (auto simp: plan_ok_def patch_bytes32_def split: if_splits)
qed

lemma hooked32_code:
  assumes "hooked32 env thumb target r pl p v w" and "plan_ok target thumb pl p"
  shows "read_bytes (v_mem w) target (pl_patch_size pl) = patch_bytes32 target thumb pl p"
proof -
  from assms(1) obtain v1 where w: "w = store32 target (patch_bytes32 target thumb pl p) v1"
    by (auto simp: hooked32_def)
  show ?thesis
    using read_slice_len [of 0 "pl_patch_size pl" "patch_bytes32 target thumb pl p" "v_mem v1" target]
      length_patch_bytes32(1,2) [OF assms(2)] by (simp add: w)
qed

lemma hooked32_page:
  assumes ready: "hook_ready32 env target thumb v" and hk: "hooked32 env thumb target r pl p v w"
    and ok: "plan_ok target thumb pl p"
  obtains c m where "call_original_offset env thumb = of_nat c" "unat (capture_size32 env thumb) \<le> c"
    "c \<le> 0xFE0" "even c"
    "\<And>k l. k + l \<le> 0x1000 \<Longrightarrow> read_bytes (v_mem w) (p + of_nat k) l =
       read_bytes (page_writes p (hook_writes32 env thumb target r p c (pl_copy_size pl) (v_mem v)) m) (p + of_nat k) l"
proof -
  note h = ready [unfolded hook_ready32_def]
  from hk obtain v1 c m where mo: "more_pages32 v p 5 v1"
    and c: "call_original_offset env thumb = of_nat c" "unat (capture_size32 env thumb) \<le> c" "c \<le> 0xFE0" "even c"
    and w: "w = store32 target (patch_bytes32 target thumb pl p) v1"
    and m: "\<And>x. in_range p 0x1000 x \<Longrightarrow> v_mem v1 x =
      page_writes p (hook_writes32 env thumb target r p c (pl_copy_size pl) (v_mem v)) m x"
    unfolding hooked32_def by auto
  have "read_bytes (v_mem w) (p + of_nat k) l =
      read_bytes (page_writes p (hook_writes32 env thumb target r p c (pl_copy_size pl) (v_mem v)) m) (p + of_nat k) l"
    if kl: "k + l \<le> 0x1000" for k l
  proof (rule read_bytes_cong_len)
    fix x assume "in_range (p + of_nat k) l x"
    then have x: "in_range p 0x1000 x" using kl by (rule in_page) simp
    have "\<not> in_range target 12 x" using x mo h by (auto simp: more_pages32_def mapped32_def)
    then have "\<not> in_range target (length (patch_bytes32 target thumb pl p)) x"
      using length_patch_bytes32(1,2) [OF ok] by (simp add: in_range_def)
    then show "v_mem w x =
        page_writes p (hook_writes32 env thumb target r p c (pl_copy_size pl) (v_mem v)) m x"
      using m [OF x] by (simp add: w write_bytes_frame)
  qed (use kl in simp)
  with c show thesis by (rule that)
qed

lemma hooked32_reads:
  assumes ready: "hook_ready32 env target thumb v" and hk: "hooked32 env thumb target r pl p v w"
    and ok: "plan_ok target thumb pl p"
  defines "co \<equiv> p + call_original_offset env thumb" and "n \<equiv> pl_copy_size pl"
  shows "word_at (v_mem w) (p + ctx_off32 env thumb) = h_ret_ctx env"
    and "word_at (v_mem w) (p + wrap_off32 env thumb) = r"
    and "read_bytes (v_mem w) co n = read_bytes (v_mem v) target n"
    and "read_bytes (v_mem w) (co + of_nat n) (absolute_jump_size (co + of_nat n) thumb) =
       emit_absolute_jump (co + of_nat n) (target + of_nat n + (if thumb then 1 else 0)) thumb"
    and "even (co + of_nat n)"
proof -
  obtain c m where c: "call_original_offset env thumb = of_nat c" "unat (capture_size32 env thumb) \<le> c"
      "c \<le> 0xFE0" "even c"
    and pg: "\<And>k l. k + l \<le> 0x1000 \<Longrightarrow> read_bytes (v_mem w) (p + of_nat k) l =
       read_bytes (page_writes p (hook_writes32 env thumb target r p c n (v_mem v)) m) (p + of_nat k) l"
    using hooked32_page [OF ready hk ok] unfolding n_def by blast
  have n: "n \<le> 12" "even n" and p: "even p" using ok by (simp_all add: plan_ok_def n_def)
  note st = ready [unfolded hook_ready32_def, THEN conjunct2, THEN conjunct2, THEN conjunct1]
  note b = st [unfolded stub_ok32_def] c(2,3) n(1)
  note w = hook_writes32_within [OF st c(3) n(1), of target r p "v_mem v", unfolded hook_writes32_def]
  note rd = page_writes_read [where p = p and m = m and i = 0, simplified]
  let ?j = "emit_absolute_jump (p + of_nat (c + n)) (target + of_nat n + (if thumb then 1 else 0)) thumb"
  let ?t = "(0 :: nat, read_bytes (v_mem v) (arm32_code_bytes (h_tmpl env thumb)) (unat (capture_size32 env thumb)))"
    and ?x = "(unat (ctx_off32 env thumb), le32 (h_ret_ctx env))" and ?r = "(unat (wrap_off32 env thumb), le32 r)"
    and ?i = "(c, read_bytes (v_mem v) target n)" and ?b = "(c + n, ?j)"
  note sz = absolute_size_le [of "p + of_nat (c + n)" thumb]
  have co: "co = p + of_nat c" "co + of_nat n = p + of_nat (c + n)" by (simp_all add: co_def c(1) add.assoc)
  show "word_at (v_mem w) (p + ctx_off32 env thumb) = h_ret_ctx env"
    using pg [of "unat (ctx_off32 env thumb)" 4] rd [of "[?t]" "unat (ctx_off32 env thumb)" "le32 (h_ret_ctx env)"
      "[?r, ?i, ?b]" 4] w b by (simp add: word_at_def hook_writes32_def off_limits_def)
  show "word_at (v_mem w) (p + wrap_off32 env thumb) = r"
    using pg [of "unat (wrap_off32 env thumb)" 4] rd [of "[?t, ?x]" "unat (wrap_off32 env thumb)" "le32 r"
      "[?i, ?b]" 4] w b by (simp add: word_at_def hook_writes32_def off_limits_def)
  show "read_bytes (v_mem w) co n = read_bytes (v_mem v) target n"
    using pg [of c n] rd [of "[?t, ?x, ?r]" c "read_bytes (v_mem v) target n" "[?b]" n] w b
    by (simp add: co(1) hook_writes32_def off_limits_def)
  show "read_bytes (v_mem w) (co + of_nat n) (absolute_jump_size (co + of_nat n) thumb) =
       emit_absolute_jump (co + of_nat n) (target + of_nat n + (if thumb then 1 else 0)) thumb"
    unfolding co(2)
    using pg [of "c + n" "absolute_jump_size (p + of_nat (c + n)) thumb"]
      rd [of "[?t, ?x, ?r, ?i]" "c + n" ?j "[]" "absolute_jump_size (p + of_nat (c + n)) thumb"] w b sz
    by (simp add: hook_writes32_def off_limits_def split del: if_split)
  have "even (of_nat (c + n) :: u32)" using c(4) n(2) by (intro even_of_nat32) simp
  then show "even (co + of_nat n)" unfolding co(2) using p dvd_add by blast
qed

lemma hooked32_frame:
  assumes "hooked32 env thumb target r pl p v w" and "plan_ok target thumb pl p"
  shows "\<And>x. v_prot w x = (if in_range p 0x1000 x then Some 5 else v_prot v x)"
    and "\<And>x. v_prot v x \<noteq> None \<Longrightarrow> \<not> in_range target (pl_patch_size pl) x \<Longrightarrow> v_mem w x = v_mem v x"
    and "\<And>x. in_range p 0x1000 x \<Longrightarrow> v_prot v x = None"
  using assms(1) length_patch_bytes32(1) [OF assms(2)]
  unfolding hooked32_def more_pages32_def by (auto simp: write_bytes_frame)

text \<open>Control flow at an address: a four-byte relative branch, or a load of the program counter.\<close>

definition jumps_to :: "bool \<Rightarrow> u32 \<Rightarrow> u8 list \<Rightarrow> u32 \<Rightarrow> bool" where
  "jumps_to thumb addr bs dest \<longleftrightarrow>
     (if length bs = 4 then branch_target thumb addr bs = dest
      else loads_pc thumb bs \<and> absolute_target thumb addr bs = dest + (if thumb then 1 else 0))"

lemma emit_absolute_jumps:
  assumes "thumb \<longrightarrow> even addr"
  shows "jumps_to thumb addr (emit_absolute_jump addr (dest + (if thumb then 1 else 0)) thumb) dest"
proof -
  have "absolute_jump_size addr thumb \<noteq> 4" by (simp add: absolute_jump_size_def)
  then show ?thesis using absolute_jump_reaches [OF assms] by (simp add: jumps_to_def)
qed

lemma relative_jump_lands:
  assumes "relative_jump_reachable from to thumb"
  shows "jumps_to thumb from (emit_relative_jump from to thumb) to"
proof -
  have "length (emit_relative_jump from to thumb) = 4" by (simp add: emit_relative_jump_def Let_def)
  then show ?thesis using branch_lands [OF assms] by (simp add: jumps_to_def)
qed

lemma patch_jumps:
  assumes "plan_ok target thumb pl p" and "even target"
  shows "jumps_to thumb target (patch_bytes32 target thumb pl p) p"
  unfolding length_patch_bytes32(3) [OF assms(1)]
  using assms relative_jump_lands emit_absolute_jumps [of thumb target p]
  by (simp add: plan_ok_def split: if_splits)


section \<open>Removing\<close>

definition clean_pages32 :: "hook_env32 \<Rightarrow> u32 \<Rightarrow> u32 \<Rightarrow> vm32 \<Rightarrow> bool" where
  "clean_pages32 env a n v \<longleftrightarrow>
     (\<forall>f len x. cow_range (h_page_size env) a n = Some (f, len) \<longrightarrow> in_range f (unat len) x \<longrightarrow>
        v_prot v x \<noteq> None \<longrightarrow> v_mem v x = h_backing env x)"

lemma restore32:
  assumes "in_range target k x" and "k \<le> n" and "n \<le> 12"
  shows "write_bytes m target (take k (read_bytes m' target n)) x = m' x"
  using assms by (simp add: write_bytes_def in_range_def)

lemma remove_patch32_effect:
  assumes ready: "hook_ready32 env target thumb v" and ps: "h_page_size env \<noteq> 0"
    and hk: "hooked32 env thumb target r pl p v w" and ok: "plan_ok target thumb pl p"
    and h: "k_target h = target" "k_saved h = read_bytes (v_mem v) target (pl_copy_size pl)"
      "k_patched_size h = pl_patch_size pl"
    and clean: "mode = DiscardCowPages \<longrightarrow> clean_pages32 env target (of_nat (pl_patch_size pl)) v"
    and run: "remove_patch32 env mode h w = (True, u)"
  shows "v_prot u = v_prot w \<and> (\<forall>x. v_prot v x \<noteq> None \<longrightarrow> v_mem u x = v_mem v x)"
proof -
  note frame = hooked32_frame [OF hk ok]
  let ?k = "pl_patch_size pl"
  have k: "?k \<le> pl_copy_size pl" "pl_copy_size pl \<le> 12" using ok by (simp_all add: plan_ok_def)
  have len: "length (take ?k (read_bytes (v_mem v) target (pl_copy_size pl))) = ?k" using k by simp
  show ?thesis
  proof (cases mode)
    case RestoreBytes
    then have "patch_text32 env target (take ?k (read_bytes (v_mem v) target (pl_copy_size pl))) w = (True, u)"
      using run h by (simp add: remove_patch32_def)
    then have u: "u = store32 target (take ?k (read_bytes (v_mem v) target (pl_copy_size pl))) w"
      using patch_result32 ready unfolding hook_ready32_def by (metis (full_types))
    have "v_mem u x = v_mem v x" if "v_prot v x \<noteq> None" for x
    proof (cases "in_range target ?k x")
      case True
      then show ?thesis unfolding u store32_simps using k by (rule restore32)
    next
      case False
      then show ?thesis using frame(2) [OF that False] len by (simp add: u write_bytes_frame)
    qed
    then show ?thesis by (simp add: u)
  next
    case DiscardCowPages
    then have "discard_cow_patch_pages32 env target (of_nat ?k) w = (True, u)"
      using run h by (simp add: remove_patch32_def)
    then obtain f len where rng: "cow_range (h_page_size env) target (of_nat ?k) = Some (f, len)"
      and u: "u = w\<lparr>v_mem := (\<lambda>x. if in_range f (unat len) x then h_backing env x else v_mem w x)\<rparr>"
      by (auto simp: discard_cow_patch_pages32_def split: option.splits if_splits)
    have "unat (of_nat ?k :: u32) = ?k" using k by (intro unat_of_nat_len) simp
    then have cov: "in_range target ?k x \<Longrightarrow> in_range f (unat len) x" for x
      using cow_covers [OF ps rng, of x] by simp
    have "v_mem u x = v_mem v x" if "v_prot v x \<noteq> None" for x
      using that clean DiscardCowPages cov rng frame(2) [OF that] by (auto simp: u clean_pages32_def)
    then show ?thesis by (simp add: u)
  qed
qed

text \<open>Removing a 32-bit hook undoes installing it, in both modes; the trampoline page is gone, the
  hook is inactive, and removing it again changes nothing.\<close>

lemma uninstall32_restores:
  assumes "hook_ready32 env (callable AND NOT 1) (callable AND 1 \<noteq> 0) v" and "h_page_size env \<noteq> 0"
    and "install32 env callable r out prefer_relative v = (Some entry, out', w)"
    and "mode = DiscardCowPages \<longrightarrow>
      clean_pages32 env (callable AND NOT 1) (of_nat (k_patched_size out')) v"
    and "uninstall32 env mode out' w = (True, h, u)"
  shows "same_pages32 v u \<and> \<not> k_active h \<and> k_trampoline h = 0 \<and> uninstall32 env mode h u = (True, h, u)"
proof -
  let ?th = "callable AND 1 \<noteq> 0" and ?t = "callable AND NOT 1"
  from install32_outcome [OF assms(1), of r out prefer_relative, unfolded assms(3)]
  obtain pl p where ok: "plan_ok ?t ?th pl p" and hk: "hooked32 env ?th ?t r pl p v w"
    and out': "out' = out\<lparr>k_saved := read_bytes (v_mem v) ?t (pl_copy_size pl), k_target := ?t,
              k_trampoline := p, k_patched_size := pl_patch_size pl, k_active := True\<rparr>"
    by (auto simp: outcome32_def)
  have p: "p \<noteq> 0" using ok by (simp add: plan_ok_def)
  obtain good w1 where rm: "remove_patch32 env mode out' w = (good, w1)" by fastforce
  with assms(5) out' p have good: "good = True" and u: "u = unmap_page32 p w1"
    and h: "h = out'\<lparr>k_trampoline := 0, k_patched_size := 0, k_active := False\<rparr>"
    by (auto simp: uninstall32_def split: if_splits)
  have "v_prot w1 = v_prot w \<and> (\<forall>x. v_prot v x \<noteq> None \<longrightarrow> v_mem w1 x = v_mem v x)"
    by (rule remove_patch32_effect [OF assms(1,2) hk ok _ _ _ _ rm [unfolded good]])
      (use assms(4) out' in auto)
  moreover note hooked32_frame(1,3) [OF hk ok]
  ultimately have "same_pages32 v u"
    by (auto simp: u same_pages32_def unmap_page32_def protect32_def fun_eq_iff)
  then show ?thesis by (simp add: h uninstall32_def)
qed

section \<open>A concrete Thumb function\<close>

text \<open>A code page at \<open>0x100000\<close> with narrow instructions, the template in the same page, and a kernel
  that hands out the page at \<open>0x200000\<close> when it is free.\<close>

definition demo_process32 :: vm32 where
  "demo_process32 = \<lparr>v_mem = (\<lambda>x. 0), v_prot = (\<lambda>x. if in_range 0x100000 0x1000 x then Some 5 else None)\<rparr>"

definition demo_hook_env32 :: hook_env32 where
  "demo_hook_env32 = \<lparr>
     h_mmap = (\<lambda>v. if \<forall>x. in_range 0x200000 0x1000 x \<longrightarrow> v_prot v x = None then Some 0x200000 else None),
     h_mmap_hint = (\<lambda>v h. None), h_mprotect = (\<lambda>v a. True), h_patch = (\<lambda>v a bs. (True, length bs)),
     h_madvise = (\<lambda>v a n. True), h_page_size = 0x1000, h_backing = (\<lambda>x. 0),
     h_tmpl = (\<lambda>t. 0x100100), h_tmpl_ctx = (\<lambda>t. 0x100110), h_tmpl_wrap = (\<lambda>t. 0x100114),
     h_tmpl_end = (\<lambda>t. 0x100118), h_ret_ctx = 0x5000\<rparr>"

definition no_hook32 :: Hook32 where
  "no_hook32 = \<lparr>k_target = 0, k_saved = [], k_trampoline = 0, k_patched_size = 0, k_active = False\<rparr>"

lemma demo_far32: "in_range 0x200000 0x1000 x \<Longrightarrow> \<not> in_range 0x100000 0x1000 x" for x :: u32
proof -
  assume a: "in_range 0x200000 0x1000 x"
  have "0x100000 \<le> unat (x - 0x100000)"
    using in_range_offset_len [where d = "0x100000 :: u32" and k = "0x100000" and n = "0x1000",
      OF unat_lt_exp [of "x - 0x100000"]] a by simp
  then show ?thesis by (simp add: in_range_def)
qed

lemma demo_ready32: "hook_ready32 demo_hook_env32 0x100000 t demo_process32"
proof -
  have a: "in_range (0x100000 :: u32) 12 x \<Longrightarrow> in_range 0x100000 0x1000 x" for x by (simp add: in_range_def)
  have b: "in_range (0x100100 :: u32) 24 x \<Longrightarrow> in_range 0x100000 0x1000 x" for x
    using in_range_within [of "0x100000 :: u32" "0x100" 24 x "0x1000"] by simp
  have c: "arm32_code_bytes (h_tmpl demo_hook_env32 t) = 0x100100" "capture_size32 demo_hook_env32 t = 24"
    by (simp_all add: demo_hook_env32_def capture_size32_def arm32_code_bytes_def)
  have "fresh_pages32 demo_hook_env32" by (auto simp: fresh_pages32_def demo_hook_env32_def split: if_splits)
  moreover have "patch_all_or_nothing32 demo_hook_env32" by (simp add: patch_all_or_nothing32_def demo_hook_env32_def)
  moreover have "stub_ok32 demo_hook_env32 t"
    by (simp add: stub_ok32_def c(2)) (simp add: demo_hook_env32_def arm32_code_bytes_def)
  moreover have "mapped32 demo_process32 0x100000 12" using a by (simp add: mapped32_def demo_process32_def)
  moreover have "mapped32 demo_process32 0x100100 24" using b by (simp add: mapped32_def demo_process32_def)
  ultimately show ?thesis by (simp add: hook_ready32_def c)
qed

lemma demo_copy32: "arm32_copy_size (v_mem demo_process32) 0x100000 True 8 = 8"
  using zero_code_copy [of "0x100000"] by (simp add: demo_process32_def)

lemma demo_install32:
  "\<exists>entry h w. install32 demo_hook_env32 0x100001 0x7777 no_hook32 False demo_process32 = (Some entry, h, w) \<and>
     k_patched_size h = 8"
proof -
  have mm: "h_mmap demo_hook_env32 demo_process32 = Some 0x200000"
    using demo_far32 by (simp add: demo_hook_env32_def demo_process32_def)
  have co: "call_original_offset demo_hook_env32 True = 24"
    by (simp add: call_original_offset_def capture_size32_def arm32_code_bytes_def demo_hook_env32_def)
  have mp: "h_mprotect demo_hook_env32 v a" for v a by (simp add: demo_hook_env32_def)
  have pt: "patch_text32 demo_hook_env32 a bs v = (True, store32 a bs v)" for a bs v
    by (simp add: patch_text32_def demo_hook_env32_def)
  have sz: "absolute_jump_size 0x100000 True = 8" by (simp add: absolute_jump_size_def)
  show ?thesis
    by (simp add: install32_def plan_hook_def plan_absolute_def sz demo_copy32 mm co mp pt Let_def)
qed


end
