(* ===== verification/Kernel_Policy.thy ===== *)
theory Kernel_Policy
  imports Yz_Prelude
begin

text \<open>
  The kernel side of the root policy, \<^verbatim>\<open>kernel/host/root_impl.c\<close>: detection of the root
  implementation, the policy cache that the daemon installs as a sealed file, its binary search, and
  the decision whether the mounts of a uid are to be removed.

  The state is a record of the file's static variables.  Calling into the detected root
  implementation, looking up kernel symbols, and opening files are parameters.  Reading the sealed
  file is reading a byte list; the mutex and RCU are represented by making the commit of a validated
  cache one step.
\<close>

section \<open>State\<close>

datatype errno = EINVAL | EOPNOTSUPP | ENOMEM | ESTALE | EAGAIN | EBUSY | ENODEV | EBADF | ENOSPC | ESRCH | ENOENT | EOVERFLOW

record policy_entry =
  pe_uid :: u32
  pe_should_umount :: u32

record policy_header =
  ph_magic :: u32
  ph_version :: u16
  ph_header_size :: u16
  ph_entry_size :: u16
  ph_flags :: u16
  ph_owner :: u32
  ph_generation :: u32
  ph_count :: u32
  ph_default_should_umount :: u32
  ph_manager_appid :: u32

record policy_cache =
  pc_owner :: u32
  pc_generation :: u32
  pc_count :: u32
  pc_manager_appid :: u32
  pc_complete :: bool
  pc_default_should_umount :: bool
  pc_entries :: "policy_entry list"

abbreviation (input) REFRESH_ALL :: u32 where "REFRESH_ALL \<equiv> - 1"
abbreviation (input) CACHE_MAGIC :: u32 where "CACHE_MAGIC \<equiv> 0x43505a59"
abbreviation (input) CACHE_MAX_ENTRIES :: u32 where "CACHE_MAX_ENTRIES \<equiv> 8192"
abbreviation (input) OWNER_NONE :: u32 where "OWNER_NONE \<equiv> 0"
abbreviation (input) OWNER_KERNELSU :: u32 where "OWNER_KERNELSU \<equiv> 1"
abbreviation (input) OWNER_KERNELPATCH :: u32 where "OWNER_KERNELPATCH \<equiv> 2"

text \<open>The pointers into a root implementation are optional functions.\<close>

record kernel_state =
  k_mask :: u32
  k_dispatcher_nr :: int
  k_owner :: u32
  k_policy_allowed :: bool
  k_policy_fallback :: bool
  k_cache :: "policy_cache option"
  k_ksu_is_allow_uid :: "(u32 \<Rightarrow> bool) option"
  k_ksu_uid_should_umount :: "(u32 \<Rightarrow> bool) option"
  k_ksu_get_allow_list :: bool
  k_ap_get_mod_exclude :: "(u32 \<Rightarrow> int) option"

section \<open>Installing a cache\<close>

definition yz_policy_cache_clear :: "kernel_state \<Rightarrow> kernel_state" where
  "yz_policy_cache_clear k = k\<lparr>k_cache := None\<rparr>"

definition read_header :: "u8 list \<Rightarrow> policy_header" where
  "read_header bs = \<lparr>ph_magic = get32 bs 0, ph_version = get16 bs 4, ph_header_size = get16 bs 6,
     ph_entry_size = get16 bs 8, ph_flags = get16 bs 10, ph_owner = get32 bs 12,
     ph_generation = get32 bs 16, ph_count = get32 bs 20, ph_default_should_umount = get32 bs 24,
     ph_manager_appid = get32 bs 28\<rparr>"

definition header_bad :: "u32 \<Rightarrow> policy_header \<Rightarrow> bool" where
  "header_bad owner h \<longleftrightarrow>
     ph_magic h \<noteq> CACHE_MAGIC \<or> ph_version h \<noteq> 1 \<or> ph_header_size h \<noteq> 32 \<or> ph_entry_size h \<noteq> 8 \<or>
     ph_count h > CACHE_MAX_ENTRIES \<or> ph_flags h AND NOT 1 \<noteq> 0 \<or> ph_default_should_umount h > 1 \<or>
     (ph_manager_appid h \<noteq> REFRESH_ALL \<and> ph_manager_appid h \<ge> 100000) \<or> ph_owner h \<noteq> owner"

definition read_entry :: "u8 list \<Rightarrow> nat \<Rightarrow> policy_entry" where
  "read_entry bs i = \<lparr>pe_uid = get32 bs (32 + 8 * i), pe_should_umount = get32 bs (36 + 8 * i)\<rparr>"

fun entries_ok :: "policy_entry list \<Rightarrow> bool" where
  "entries_ok [] \<longleftrightarrow> True"
| "entries_ok [e] \<longleftrightarrow> \<not> pe_should_umount e > 1"
| "entries_ok (e # f # es) \<longleftrightarrow>
     \<not> pe_should_umount e > 1 \<and> \<not> pe_uid e \<ge> pe_uid f \<and> entries_ok (f # es)"

text \<open>The part before the lock: checks and a new cache object.  \<open>alloc_ok\<close> tells whether
  \<^verbatim>\<open>kvzalloc\<close> succeeds.\<close>

definition validate_policy_cache :: "bool \<Rightarrow> kernel_state \<Rightarrow> u8 list \<Rightarrow> errno + policy_cache" where
  "validate_policy_cache alloc_ok k file =
     (if \<not> k_policy_fallback k then Inl EOPNOTSUPP
      else if length file < 32 then Inl EINVAL
      else
        let header = read_header file;
            payload_size = unat (ph_count header) * 8
        in if header_bad (k_owner k) header then Inl EINVAL
           else if length file \<noteq> 32 + payload_size then Inl EINVAL
           else if \<not> alloc_ok then Inl ENOMEM
           else
             let entries = map (read_entry file) [0..<unat (ph_count header)]
             in if \<not> entries_ok entries then Inl EINVAL
                else Inr \<lparr>pc_owner = ph_owner header, pc_generation = ph_generation header,
                       pc_count = ph_count header, pc_manager_appid = ph_manager_appid header,
                       pc_complete = (ph_flags header AND 1 \<noteq> 0),
                       pc_default_should_umount = (ph_default_should_umount header \<noteq> 0),
                       pc_entries = entries\<rparr>)"

text \<open>The part under the lock.\<close>

definition commit_policy_cache :: "policy_cache \<Rightarrow> kernel_state \<Rightarrow> errno option \<times> kernel_state" where
  "commit_policy_cache cache k =
     (if \<not> k_policy_fallback k \<or> pc_owner cache \<noteq> k_owner k then (Some ESTALE, k)
      else (None, k\<lparr>k_cache := Some cache\<rparr>))"

definition yz_host_install_policy_cache :: "bool \<Rightarrow> u8 list \<Rightarrow> kernel_state \<Rightarrow> errno option \<times> kernel_state" where
  "yz_host_install_policy_cache alloc_ok file k =
     (case validate_policy_cache alloc_ok k file of
        Inl e \<Rightarrow> (Some e, k)
      | Inr cache \<Rightarrow> commit_policy_cache cache k)"

section \<open>Looking up a decision\<close>

lemma mid_bounds:
  assumes "low < (high :: u32)"
  defines "mid \<equiv> low + (high - low) div 2"
  shows "unat mid = unat low + (unat high - unat low) div 2" and "unat (mid + 1) = unat mid + 1"
    and "unat low \<le> unat mid" and "unat mid < unat high"
proof -
  have lt: "unat low < unat high" using assms(1) by (simp add: word_less_nat_alt)
  have h: "unat high < 2 ^ 32" using unat_lt_exp [of high] by simp
  have d: "unat ((high - low) div 2) = (unat high - unat low) div 2"
    using lt by (simp add: unat_div unat_diff_le)
  have "unat low + (unat high - unat low) div 2 < unat high" using lt by linarith
  then have mid: "unat mid = unat low + (unat high - unat low) div 2"
    unfolding mid_def d [symmetric] using h by (intro unat_add_lt) simp
  show "unat mid = unat low + (unat high - unat low) div 2" by (rule mid)
  show "unat low \<le> unat mid" "unat mid < unat high" using mid lt by linarith+
  then show "unat (mid + 1) = unat mid + 1" using h by (subst unat_add_lt) simp_all
qed

function cache_search :: "policy_entry list \<Rightarrow> u32 \<Rightarrow> u32 \<Rightarrow> u32 \<Rightarrow> bool option" where
  "cache_search entries uid low high =
     (if low < high
      then let mid = low + (high - low) div 2;
               e = entries ! unat mid
           in if pe_uid e < uid then cache_search entries uid (mid + 1) high
              else if pe_uid e > uid then cache_search entries uid low mid
              else Some (pe_should_umount e \<noteq> 0)
      else None)"
  by pat_completeness auto

termination
proof (relation "measure (\<lambda>(entries, uid, low, high). unat high - unat low)", goal_cases)
  case (2 entries uid low high mid e)
  have "unat mid + 1 = unat (mid + 1)" "unat low \<le> unat mid" "unat mid < unat high"
    using mid_bounds [OF 2(1)] unfolding 2(2) by simp_all
  then show ?case by simp
next
  case (3 entries uid low high mid e)
  have "unat low \<le> unat mid" "unat mid < unat high" using mid_bounds [OF 3(1)] unfolding 3(2) by simp_all
  then show ?case by simp
qed simp

declare cache_search.simps [simp del]

definition yz_policy_cache_lookup :: "u32 \<Rightarrow> kernel_state \<Rightarrow> errno + bool" where
  "yz_policy_cache_lookup uid k =
     (case k_cache k of
        None \<Rightarrow> Inl EAGAIN
      | Some cache \<Rightarrow>
          if pc_manager_appid cache \<noteq> REFRESH_ALL \<and> uid mod 100000 = pc_manager_appid cache then Inr False
          else (case cache_search (pc_entries cache) uid 0 (pc_count cache) of
                  Some d \<Rightarrow> Inr d
                | None \<Rightarrow> if pc_complete cache then Inr (pc_default_should_umount cache) else Inl EAGAIN))"

definition yz_host_uid_should_umount :: "u32 \<Rightarrow> kernel_state \<Rightarrow> errno + bool" where
  "yz_host_uid_should_umount uid k =
     (if uid = 0 \<or> \<not> k_policy_allowed k then Inr False
      else if k_owner k = OWNER_KERNELSU
      then (case k_ksu_uid_should_umount k of
              Some f \<Rightarrow> Inr (f uid)
            | None \<Rightarrow> yz_policy_cache_lookup uid k)
      else if k_owner k = OWNER_KERNELPATCH
      then (case k_ap_get_mod_exclude k of
              Some f \<Rightarrow> Inr (f uid \<noteq> 0)
            | None \<Rightarrow> yz_policy_cache_lookup uid k)
      else Inl EOPNOTSUPP)"

section \<open>Detecting the root implementation\<close>

text \<open>What the kernel offers: addresses and values that symbol lookup gives, the outcome of the
  search for a KernelPatch symbol table, which files can be opened, and the module parameters.\<close>

record probe_env =
  pr_ksu_syscall_table :: bool
  pr_ksu_dispatcher_nr :: "int option"
  pr_ksu_uid_should_umount :: "(u32 \<Rightarrow> bool) option"
  pr_ksu_get_allow_list :: bool
  pr_ksu_is_allow_uid_for_current :: "(u32 \<Rightarrow> bool) option"
  pr_ksu_is_allow_uid :: "(u32 \<Rightarrow> bool) option"
  pr_ksu_module_present :: bool
  pr_su_get_path :: bool
  pr_get_ap_mod_exclude :: "(u32 \<Rightarrow> int) option"
  pr_kp_scan :: "(u32 \<Rightarrow> int) option option"
  pr_can_open :: "string \<Rightarrow> bool"
  pr_force_fallback :: bool

abbreviation (input) ROOT_KSU :: u32 where "ROOT_KSU \<equiv> 1"
abbreviation (input) ROOT_KSU_RDR :: u32 where "ROOT_KSU_RDR \<equiv> 2"
abbreviation (input) ROOT_APATCH :: u32 where "ROOT_APATCH \<equiv> 4"
abbreviation (input) ROOT_MAGISK :: u32 where "ROOT_MAGISK \<equiv> 8"
abbreviation (input) ROOT_MULTI :: u32 where "ROOT_MULTI \<equiv> 16"
abbreviation (input) ROOT_NON_ROOT :: u32 where "ROOT_NON_ROOT \<equiv> 32"

definition or_mask :: "u32 \<Rightarrow> kernel_state \<Rightarrow> kernel_state" where
  "or_mask b k = k\<lparr>k_mask := k_mask k OR b\<rparr>"

definition ksu_table :: "probe_env \<Rightarrow> kernel_state \<Rightarrow> kernel_state" where
  "ksu_table e k =
     (if \<not> pr_ksu_syscall_table e then k
      else
        let k1 = or_mask ROOT_KSU k
        in case pr_ksu_dispatcher_nr e of
             Some nr \<Rightarrow> if nr \<ge> 0 then or_mask ROOT_KSU_RDR (k1\<lparr>k_dispatcher_nr := nr\<rparr>) else k1
           | None \<Rightarrow> k1)"

definition ksu_policy :: "probe_env \<Rightarrow> kernel_state \<Rightarrow> kernel_state" where
  "ksu_policy e k =
     (let k1 = (case pr_ksu_uid_should_umount e of
                  Some f \<Rightarrow> or_mask ROOT_KSU k\<lparr>k_ksu_uid_should_umount := Some f\<rparr>
                | None \<Rightarrow> k)
      in if pr_ksu_get_allow_list e then or_mask ROOT_KSU k1\<lparr>k_ksu_get_allow_list := True\<rparr> else k1)"

text \<open>\<open>(seen, policy available, state)\<close>.\<close>

definition yz_ksu_detect :: "probe_env \<Rightarrow> kernel_state \<Rightarrow> bool \<times> bool \<times> kernel_state" where
  "yz_ksu_detect e k =
     (let k1 = ksu_policy e (ksu_table e k);
          has_policy = (\<not> Option.is_none (pr_ksu_uid_should_umount e));
          seen = (pr_ksu_syscall_table e \<or> has_policy \<or> pr_ksu_get_allow_list e);
          k2 = (if seen
                then case pr_ksu_is_allow_uid_for_current e of
                       Some f \<Rightarrow> k1\<lparr>k_ksu_is_allow_uid := Some f\<rparr>
                     | None \<Rightarrow> if \<not> Option.is_none (k_ksu_is_allow_uid k1) then k1
                               else (case pr_ksu_is_allow_uid e of
                                       Some f \<Rightarrow> k1\<lparr>k_ksu_is_allow_uid := Some f\<rparr>
                                     | None \<Rightarrow> k1)
                else k1)
      in if pr_ksu_module_present e then (True, has_policy, or_mask ROOT_KSU k2) else (seen, has_policy, k2))"

definition yz_apatch_detect :: "probe_env \<Rightarrow> kernel_state \<Rightarrow> bool \<times> kernel_state" where
  "yz_apatch_detect e k =
     (let k1 = k\<lparr>k_ap_get_mod_exclude := None\<rparr>
      in if pr_su_get_path e then (True, k1\<lparr>k_ap_get_mod_exclude := pr_get_ap_mod_exclude e\<rparr>)
         else case pr_kp_scan e of
                Some f \<Rightarrow> (True, k1\<lparr>k_ap_get_mod_exclude := f\<rparr>)
              | None \<Rightarrow> (False, k1))"

definition yz_magisk_detect :: "probe_env \<Rightarrow> kernel_state \<Rightarrow> bool \<times> kernel_state" where
  "yz_magisk_detect e k =
     (if list_ex (pr_can_open e) [''/sbin/magisk'', ''/debug_ramdisk/sbin/magisk'', ''/data/adb/magisk/magisk'']
      then (True, or_mask ROOT_MAGISK k) else (False, k))"

definition reset_state :: "kernel_state \<Rightarrow> kernel_state" where
  "reset_state k = (yz_policy_cache_clear k)\<lparr>k_mask := 0, k_dispatcher_nr := - 1, k_owner := OWNER_NONE,
     k_policy_allowed := False, k_policy_fallback := False, k_ksu_is_allow_uid := None,
     k_ksu_uid_should_umount := None, k_ksu_get_allow_list := False\<rparr>"

definition apply_force :: "probe_env \<Rightarrow> kernel_state \<Rightarrow> kernel_state" where
  "apply_force e k =
     (if pr_force_fallback e then k\<lparr>k_ksu_uid_should_umount := None, k_ap_get_mod_exclude := None\<rparr> else k)"

definition yz_host_root_detect :: "probe_env \<Rightarrow> kernel_state \<Rightarrow> errno option \<times> kernel_state" where
  "yz_host_root_detect e k =
     (case yz_ksu_detect e (reset_state k) of (ksu_seen, ksu_policy_found, k1) \<Rightarrow>
      case yz_apatch_detect e k1 of (apatch_seen, k2) \<Rightarrow>
        let k3 = (if apatch_seen then or_mask ROOT_APATCH k2 else k2);
            ksu_policy_available = (ksu_policy_found \<and> \<not> pr_force_fallback e);
            k4 = apply_force e k3
        in case yz_magisk_detect e k4 of (magisk_seen, k5) \<Rightarrow>
             if of_bool ksu_seen + of_bool apatch_seen + of_bool magisk_seen > (1 :: nat)
             then (Some EBUSY, or_mask ROOT_MULTI k5)
             else if ksu_seen
             then (None, k5\<lparr>k_owner := OWNER_KERNELSU, k_policy_allowed := True,
                     k_policy_fallback := \<not> ksu_policy_available\<rparr>)
             else if apatch_seen
             then (None, k5\<lparr>k_owner := OWNER_KERNELPATCH, k_policy_allowed := True,
                     k_policy_fallback := Option.is_none (k_ap_get_mod_exclude k5)\<rparr>)
             else if magisk_seen then (Some EOPNOTSUPP, k5)
             else (Some ENODEV, or_mask ROOT_NON_ROOT k5))"

definition yz_host_root_flags :: "kernel_state \<Rightarrow> u32" where
  "yz_host_root_flags k =
     (if k_mask k AND ROOT_KSU_RDR \<noteq> 0 then 1 else 0) OR
     (if k_policy_fallback k then 4 else if k_policy_allowed k then 2 else 0) OR
     (if k_cache k \<noteq> None then 8 else 0)"

definition yz_host_root_name :: "kernel_state \<Rightarrow> string" where
  "yz_host_root_name k =
     (if k_owner k = OWNER_KERNELSU
      then if k_mask k AND ROOT_KSU_RDR \<noteq> 0 then ''kernelsu-redirect'' else ''kernelsu''
      else if k_owner k = OWNER_KERNELPATCH then ''kernelpatch''
      else ''unsupported'')"

definition yz_host_root_exit :: "kernel_state \<Rightarrow> kernel_state" where
  "yz_host_root_exit k =
     (yz_policy_cache_clear (k\<lparr>k_policy_allowed := False, k_policy_fallback := False, k_owner := OWNER_NONE\<rparr>))
       \<lparr>k_ksu_is_allow_uid := None, k_ksu_uid_should_umount := None, k_ksu_get_allow_list := False,
        k_ap_get_mod_exclude := None\<rparr>"

declare Option.is_none_def [simp]

section \<open>The control device\<close>

text \<open>An event for the daemon: refresh everything, or the decision for one uid.\<close>

datatype policy_event = Refresh_Policy (ev_owner: u32) (ev_uid: u32)

definition yz_ioctl_get_root_status :: "kernel_state \<Rightarrow> (u32 \<times> u32 \<times> u32) \<times> policy_event list" where
  "yz_ioctl_get_root_status k =
     ((k_owner k, k_mask k, yz_host_root_flags k),
      if k_policy_fallback k \<and> k_cache k = None then [Refresh_Policy (k_owner k) REFRESH_ALL] else [])"

definition yz_ioctl_uid_should_umount :: "u32 \<Rightarrow> kernel_state \<Rightarrow> (errno + bool) \<times> policy_event list" where
  "yz_ioctl_uid_should_umount uid k =
     (case yz_host_uid_should_umount uid k of
        Inl EAGAIN \<Rightarrow> (Inl EAGAIN, [Refresh_Policy (k_owner k) uid])
      | r \<Rightarrow> (r, []))"

text \<open>The argument is the descriptor, the reserved word, and the file behind the descriptor.\<close>

definition yz_ioctl_set_policy_cache ::
  "bool \<Rightarrow> int \<Rightarrow> u32 \<Rightarrow> u8 list option \<Rightarrow> kernel_state \<Rightarrow> errno option \<times> kernel_state" where
  "yz_ioctl_set_policy_cache alloc_ok fd reserved file k =
     (if fd < 0 \<or> reserved \<noteq> 0 then (Some EINVAL, k)
      else case file of
        None \<Rightarrow> (Some EBADF, k)
      | Some bs \<Rightarrow> yz_host_install_policy_cache alloc_ok bs k)"

section \<open>The binary search\<close>

definition decision_of :: "policy_entry list \<Rightarrow> u32 \<Rightarrow> bool option" where
  "decision_of es uid = map_option (\<lambda>e. pe_should_umount e \<noteq> 0) (find (\<lambda>e. pe_uid e = uid) es)"

definition ascending :: "policy_entry list \<Rightarrow> bool" where
  "ascending es \<longleftrightarrow> sorted_wrt (<) (map pe_uid es)"

lemma entries_ok_iff:
  "entries_ok es \<longleftrightarrow> ascending es \<and> list_all (\<lambda>e. pe_should_umount e \<le> 1) es"
proof (induction es rule: entries_ok.induct)
  case (3 e f es)
  have "sorted_wrt (<) (map pe_uid (e # f # es)) \<longleftrightarrow>
      pe_uid e < pe_uid f \<and> sorted_wrt (<) (map pe_uid (f # es))"
    by (auto intro: less_trans)
  then show ?case using 3 by (auto simp: ascending_def not_less not_le)
qed (auto simp: ascending_def)

lemma ascending_nth:
  assumes "ascending es" and "i < j" and "j < length es"
  shows "pe_uid (es ! i) < pe_uid (es ! j)"
  using assms sorted_wrt_nth_less [of "(<)" "map pe_uid es" i j] by (simp add: ascending_def)

lemma find_ascending:
  assumes "ascending es" and "i < length es"
  shows "find (\<lambda>e. pe_uid e = pe_uid (es ! i)) es = Some (es ! i)"
proof (cases "find (\<lambda>e. pe_uid e = pe_uid (es ! i)) es")
  case None
  then have "\<not> (\<exists>x. x \<in> set es \<and> pe_uid x = pe_uid (es ! i))" by (simp add: find_None_iff)
  then show ?thesis using nth_mem [OF assms(2)] by blast
next
  case (Some e)
  then obtain j where j: "j < length es" "pe_uid (es ! j) = pe_uid (es ! i)" "e = es ! j"
    by (auto simp: find_Some_iff)
  have "\<not> i < j" using ascending_nth [OF assms(1), of i j] j(1,2) by auto
  moreover have "\<not> j < i" using ascending_nth [OF assms(1), of j i] j(2) assms(2) by auto
  ultimately have "j = i" by simp
  with j Some show ?thesis by simp
qed

lemma cache_search_exact:
  assumes "ascending es" and "unat high \<le> length es"
    and "\<And>i. i < length es \<Longrightarrow> pe_uid (es ! i) = uid \<Longrightarrow> unat low \<le> i \<and> i < unat high"
  shows "cache_search es uid low high = decision_of es uid"
  using assms
proof (induction es uid low high rule: cache_search.induct)
  case (1 es uid low high)
  show ?case
  proof (cases "low < high")
    case False
    then have "unat high \<le> unat low" by (simp add: word_less_nat_alt)
    with 1(5) have "i < length es \<Longrightarrow> pe_uid (es ! i) \<noteq> uid" for i
      using 1(5) [of i] by (auto dest: le_less_trans)
    then have "find (\<lambda>e. pe_uid e = uid) es = None" by (auto simp: find_None_iff in_set_conv_nth)
    then show ?thesis using False by (simp add: cache_search.simps [of es] decision_of_def)
  next
    case True
    define mid where "mid = low + (high - low) div 2"
    note mb = mid_bounds [OF True, folded mid_def]
    have m: "unat mid < length es" using mb(4) 1(4) by linarith
    note unfold = cache_search.simps [of es uid low high, folded mid_def, unfolded Let_def]
    consider "pe_uid (es ! unat mid) < uid" | "pe_uid (es ! unat mid) > uid" | "pe_uid (es ! unat mid) = uid"
      by (rule linorder_cases)
    then show ?thesis
    proof cases
      case 1
      have "unat (mid + 1) \<le> i \<and> i < unat high" if "i < length es" "pe_uid (es ! i) = uid" for i
      proof -
        have "\<not> i < unat mid" using ascending_nth [OF "1.prems"(1), of i "unat mid"] m that 1 by auto
        moreover have "i \<noteq> unat mid" using that 1 by auto
        ultimately show ?thesis using "1.prems"(3) [OF that] mb(2) by simp
      qed
      note inside = this
      have "cache_search es uid (mid + 1) high = decision_of es uid"
        by (rule "1.IH"(1) [OF True mid_def refl 1 "1.prems"(1,2) inside])
      then show ?thesis by (subst unfold) (simp add: 1 True)
    next
      case 2
      have "unat low \<le> i \<and> i < unat mid" if "i < length es" "pe_uid (es ! i) = uid" for i
      proof -
        have "\<not> unat mid < i" using ascending_nth [OF "1.prems"(1), of "unat mid" i] that 2 by auto
        moreover have "i \<noteq> unat mid" using that 2 by auto
        ultimately show ?thesis using "1.prems"(3) [OF that] by simp
      qed
      note inside = this
      have nlt: "\<not> pe_uid (es ! unat mid) < uid" using 2 by (simp add: not_less less_imp_le)
      have "cache_search es uid low mid = decision_of es uid"
        by (rule "1.IH"(2) [OF True mid_def refl nlt 2 "1.prems"(1) _ inside]) (rule less_imp_le [OF m])
      then show ?thesis by (subst unfold) (simp add: True nlt 2)
    next
      case 3
      then have "decision_of es uid = Some (pe_should_umount (es ! unat mid) \<noteq> 0)"
        using find_ascending [OF "1.prems"(1) m] by (simp only: decision_of_def) simp
      then show ?thesis using 3 by (subst unfold) (simp add: True)
    qed
  qed
qed

section \<open>Well-formed caches\<close>

definition cache_wf :: "policy_cache \<Rightarrow> bool" where
  "cache_wf c \<longleftrightarrow>
     ascending (pc_entries c) \<and> length (pc_entries c) = unat (pc_count c) \<and> unat (pc_count c) \<le> 8192 \<and>
     (pc_manager_appid c = REFRESH_ALL \<or> pc_manager_appid c < 100000)"

lemma validate_wf:
  assumes "validate_policy_cache alloc_ok k file = Inr c"
  shows "cache_wf c" and "pc_owner c = k_owner k" and "k_policy_fallback k"
  using assms
  by (auto simp: validate_policy_cache_def header_bad_def entries_ok_iff cache_wf_def Let_def not_less
      word_le_nat_alt split: if_splits)

text \<open>What a cache says about a uid.\<close>

definition cache_decision :: "policy_cache \<Rightarrow> u32 \<Rightarrow> bool option" where
  "cache_decision c uid =
     (if pc_manager_appid c \<noteq> REFRESH_ALL \<and> uid mod 100000 = pc_manager_appid c then Some False
      else case decision_of (pc_entries c) uid of
        Some d \<Rightarrow> Some d
      | None \<Rightarrow> if pc_complete c then Some (pc_default_should_umount c) else None)"

lemma lookup_decision:
  assumes "k_cache k = Some c" and "cache_wf c"
  shows "yz_policy_cache_lookup uid k =
    (case cache_decision c uid of Some d \<Rightarrow> Inr d | None \<Rightarrow> Inl EAGAIN)"
proof -
  have "cache_search (pc_entries c) uid 0 (pc_count c) = decision_of (pc_entries c) uid"
    using assms(2) by (intro cache_search_exact) (auto simp: cache_wf_def)
  then show ?thesis
    using assms(1) by (auto simp: yz_policy_cache_lookup_def cache_decision_def split: option.splits)
qed

section \<open>Every reachable state\<close>

text \<open>Installs may overlap with each other and with unloading: a validated cache waits until it gets the
  lock.  The second component holds the waiting caches.\<close>

type_synonym policy_system = "kernel_state \<times> policy_cache list"

inductive policy_step :: "policy_system \<Rightarrow> policy_system \<Rightarrow> bool" where
  step_detect: "policy_step (k, ws) (snd (yz_host_root_detect e k), ws)"
| step_validate: "validate_policy_cache alloc_ok k bs = Inr c \<Longrightarrow> policy_step (k, ws) (k, c # ws)"
| step_commit: "policy_step (k, us @ c # ws) (snd (commit_policy_cache c k), us @ ws)"
| step_exit: "policy_step (k, ws) (yz_host_root_exit k, ws)"

inductive policy_reachable :: "policy_system \<Rightarrow> bool" where
  reach_start: "k_cache k = None \<Longrightarrow> policy_reachable (k, [])"
| reach_step: "policy_reachable s \<Longrightarrow> policy_step s s' \<Longrightarrow> policy_reachable s'"

definition policy_inv :: "policy_system \<Rightarrow> bool" where
  "policy_inv s \<longleftrightarrow>
     list_all cache_wf (snd s) \<and>
     (case k_cache (fst s) of
        None \<Rightarrow> True
      | Some c \<Rightarrow> cache_wf c \<and> k_policy_fallback (fst s) \<and> pc_owner c = k_owner (fst s))"

lemma detect_no_cache: "k_cache (snd (yz_host_root_detect e k)) = None"
proof -
  have reset: "k_cache (reset_state k) = None" by (simp add: reset_state_def yz_policy_cache_clear_def)
  have m: "k_cache (or_mask b j) = k_cache j" for b j by (simp add: or_mask_def)
  have t: "k_cache (ksu_table e j) = k_cache j" for j
    by (simp add: ksu_table_def m Let_def split: option.splits)
  have p: "k_cache (ksu_policy e j) = k_cache j" for j
    by (simp add: ksu_policy_def m Let_def split: option.splits)
  have d: "k_cache (snd (snd (yz_ksu_detect e j))) = k_cache j" for j
    by (simp add: yz_ksu_detect_def m t p Let_def split: option.splits)
  have a: "k_cache (snd (yz_apatch_detect e j)) = k_cache j" for j
    by (simp add: yz_apatch_detect_def Let_def split: option.splits)
  have g: "k_cache (snd (yz_magisk_detect e j)) = k_cache j" for j
    by (simp add: yz_magisk_detect_def m)
  have f: "k_cache (apply_force e j) = k_cache j" for j by (simp add: apply_force_def)
  obtain ks kp k1 where 1: "yz_ksu_detect e (reset_state k) = (ks, kp, k1)" by (metis prod_cases3)
  obtain as k2 where 2: "yz_apatch_detect e k1 = (as, k2)" by fastforce
  obtain ms k5 where 5: "yz_magisk_detect e (apply_force e (if as then or_mask ROOT_APATCH k2 else k2)) = (ms, k5)"
    by fastforce
  have "k_cache k5 = None"
    using d [of "reset_state k"] a [of k1] g [of "apply_force e (if as then or_mask ROOT_APATCH k2 else k2)"]
    by (simp add: 1 2 5 f m reset split: if_splits)
  then show ?thesis by (simp add: yz_host_root_detect_def 1 2 5 m Let_def)
qed

lemma policy_step_inv:
  assumes "policy_step s s'" and "policy_inv s"
  shows "policy_inv s'"
  using assms
proof cases
  case (step_detect k ws e)
  then show ?thesis using assms(2) by (simp add: policy_inv_def detect_no_cache)
next
  case (step_validate alloc_ok k bs c ws)
  then show ?thesis using assms(2) validate_wf(1) by (auto simp: policy_inv_def split: option.splits)
next
  case (step_commit k us c ws)
  then show ?thesis using assms(2) by (auto simp: policy_inv_def commit_policy_cache_def split: option.splits)
next
  case (step_exit k ws)
  then show ?thesis using assms(2) by (simp add: policy_inv_def yz_host_root_exit_def yz_policy_cache_clear_def)
qed

lemma policy_reachable_inv: "policy_reachable s \<Longrightarrow> policy_inv s"
proof (induction rule: policy_reachable.induct)
  case (reach_start k)
  then show ?case by (simp add: policy_inv_def)
next
  case (reach_step s s')
  then show ?case using policy_step_inv by blast
qed

text \<open>C23: In every reachable state, with overlapping installs and unloading in any order, the kernel has
  no cache while the callable policy is used or nothing is loaded; a cache it has belongs to the
  current owner, and the binary search answers for every uid exactly what the cache contains: no
  unmounting for the manager, the entry of the uid, else the default when the cache is complete, else
  a request to try again.\<close>

theorem kernel_cache_answers:
  assumes "policy_reachable (k, ws)" and "k_cache k = Some c"
  shows "k_policy_fallback k \<and> pc_owner c = k_owner k \<and>
    (\<forall>uid. yz_policy_cache_lookup uid k = (case cache_decision c uid of Some d \<Rightarrow> Inr d | None \<Rightarrow> Inl EAGAIN))"
  using policy_reachable_inv [OF assms(1)] assms(2) lookup_decision [OF assms(2)]
  by (simp add: policy_inv_def)

text \<open>A kernel that accepted KernelPatch without a callable policy, and a complete cache for it with one
  entry, uid 10000.\<close>

definition sample_kernel :: kernel_state where
  "sample_kernel = \<lparr>k_mask = 4, k_dispatcher_nr = - 1, k_owner = 2, k_policy_allowed = True, k_policy_fallback = True,
     k_cache = None, k_ksu_is_allow_uid = None, k_ksu_uid_should_umount = None, k_ksu_get_allow_list = False,
     k_ap_get_mod_exclude = None\<rparr>"

definition sample_file :: "u8 list" where
  "sample_file = [0x59, 0x5a, 0x50, 0x43, 1, 0, 32, 0, 8, 0, 1, 0, 2, 0, 0, 0, 1, 0, 0, 0, 1, 0, 0, 0,
     0, 0, 0, 0, 255, 255, 255, 255, 0x10, 0x27, 0, 0, 1, 0, 0, 0]"

definition sample_cache :: policy_cache where
  "sample_cache = \<lparr>pc_owner = 2, pc_generation = 1, pc_count = 1, pc_manager_appid = 0xffffffff, pc_complete = True,
     pc_default_should_umount = False, pc_entries = [\<lparr>pe_uid = 10000, pe_should_umount = 1\<rparr>]\<rparr>"

lemma sample_header: "read_header sample_file = \<lparr>ph_magic = CACHE_MAGIC, ph_version = 1, ph_header_size = 32,
    ph_entry_size = 8, ph_flags = 1, ph_owner = 2, ph_generation = 1, ph_count = 1, ph_default_should_umount = 0,
    ph_manager_appid = 0xffffffff\<rparr>"
  by (simp add: read_header_def sample_file_def get32_def get16_def)

lemma sample_valid: "validate_policy_cache True sample_kernel sample_file = Inr sample_cache"
proof -
  have "read_entry sample_file 0 = \<lparr>pe_uid = 10000, pe_should_umount = 1\<rparr>" "length sample_file = 40"
    by (simp_all add: read_entry_def sample_file_def get32_def)
  then show ?thesis
    by (simp add: validate_policy_cache_def sample_header header_bad_def sample_kernel_def sample_cache_def)
qed

lemma sample_reachable: "policy_reachable (sample_kernel\<lparr>k_cache := Some sample_cache\<rparr>, [])"
proof -
  have "policy_reachable (sample_kernel, [])" by (rule reach_start) (simp add: sample_kernel_def)
  then have "policy_reachable (sample_kernel, [sample_cache])" by (rule reach_step) (rule step_validate [OF sample_valid])
  then have "policy_reachable (snd (commit_policy_cache sample_cache sample_kernel), [] @ [])"
    by (rule reach_step) (use step_commit [of sample_kernel "[]" sample_cache "[]"] in simp)
  then show ?thesis by (simp add: commit_policy_cache_def sample_kernel_def sample_cache_def)
qed

theorem kernel_cache_answers_witness:
  "policy_reachable (sample_kernel\<lparr>k_cache := Some sample_cache\<rparr>, []) \<and>
   yz_policy_cache_lookup 10000 (sample_kernel\<lparr>k_cache := Some sample_cache\<rparr>) = Inr True \<and>
   yz_policy_cache_lookup 10001 (sample_kernel\<lparr>k_cache := Some sample_cache\<rparr>) = Inr False"
  using kernel_cache_answers [OF sample_reachable, of sample_cache] sample_reachable
  by (simp add: cache_decision_def decision_of_def sample_cache_def)

section \<open>Detection\<close>

definition ksu_present :: "probe_env \<Rightarrow> bool" where
  "ksu_present e \<longleftrightarrow> pr_ksu_syscall_table e \<or> pr_ksu_uid_should_umount e \<noteq> None \<or> pr_ksu_get_allow_list e \<or>
     pr_ksu_module_present e"

definition apatch_present :: "probe_env \<Rightarrow> bool" where
  "apatch_present e \<longleftrightarrow> pr_su_get_path e \<or> pr_kp_scan e \<noteq> None"

definition magisk_present :: "probe_env \<Rightarrow> bool" where
  "magisk_present e \<longleftrightarrow> pr_can_open e ''/sbin/magisk'' \<or> pr_can_open e ''/debug_ramdisk/sbin/magisk'' \<or>
     pr_can_open e ''/data/adb/magisk/magisk''"

text \<open>The fields that detection of one implementation leaves alone.\<close>

definition policy_core :: "kernel_state \<Rightarrow> u32 \<times> bool \<times> bool" where
  "policy_core k = (k_owner k, k_policy_allowed k, k_policy_fallback k)"

lemma or_mask_keeps [simp]: "policy_core (or_mask b k) = policy_core k"
  "k_ksu_uid_should_umount (or_mask b k) = k_ksu_uid_should_umount k"
  "k_ap_get_mod_exclude (or_mask b k) = k_ap_get_mod_exclude k"
  by (simp_all add: or_mask_def policy_core_def)

lemma ksu_detect_facts:
  assumes "yz_ksu_detect e k = (seen, policy, k')" and "k_ksu_uid_should_umount k = None"
  shows "seen = ksu_present e" and "policy = (pr_ksu_uid_should_umount e \<noteq> None)"
    and "policy_core k' = policy_core k" and "k_ksu_uid_should_umount k' = pr_ksu_uid_should_umount e"
proof -
  have t: "policy_core (ksu_table e j) = policy_core j"
      "k_ksu_uid_should_umount (ksu_table e j) = k_ksu_uid_should_umount j" for j
    by (simp_all add: ksu_table_def Let_def policy_core_def or_mask_def split: option.splits)
  have p: "policy_core (ksu_policy e j) = policy_core j" for j
    by (simp add: ksu_policy_def Let_def policy_core_def or_mask_def split: option.splits)
  have q: "k_ksu_uid_should_umount (ksu_policy e j) = pr_ksu_uid_should_umount e"
    if "k_ksu_uid_should_umount j = None" for j
    using that by (simp add: ksu_policy_def Let_def or_mask_def split: option.splits)
  show "seen = ksu_present e" "policy = (pr_ksu_uid_should_umount e \<noteq> None)"
    using assms(1) by (auto simp: yz_ksu_detect_def Let_def ksu_present_def split: if_splits)
  have "policy_core k' = policy_core (ksu_policy e (ksu_table e k)) \<and>
      k_ksu_uid_should_umount k' = k_ksu_uid_should_umount (ksu_policy e (ksu_table e k))"
    using assms(1)
    by (auto simp: yz_ksu_detect_def Let_def policy_core_def or_mask_def split: if_splits option.splits)
  then show "policy_core k' = policy_core k" "k_ksu_uid_should_umount k' = pr_ksu_uid_should_umount e"
    using assms(2) t p q by simp_all
qed

lemma other_detect_facts:
  "yz_apatch_detect e k = (seen, k') \<Longrightarrow> seen = apatch_present e \<and> policy_core k' = policy_core k \<and>
     k_ksu_uid_should_umount k' = k_ksu_uid_should_umount k"
  "yz_magisk_detect e k = (seen, k') \<Longrightarrow> seen = magisk_present e \<and> policy_core k' = policy_core k \<and>
     k_ksu_uid_should_umount k' = k_ksu_uid_should_umount k \<and> k_ap_get_mod_exclude k' = k_ap_get_mod_exclude k"
  by (auto simp: yz_apatch_detect_def yz_magisk_detect_def apatch_present_def magisk_present_def policy_core_def
      or_mask_def Let_def split: if_splits option.splits)

text \<open>C39: The module accepts exactly one supported root implementation.  Detection succeeds only when
  either KernelSU or KernelPatch is present, without the other and without Magisk; the owner is that
  implementation, the policy is allowed, and the userspace cache is used exactly when the
  implementation offers no callable policy (or the fallback is forced).  When detection fails, no
  owner is set and no policy is allowed.\<close>

theorem root_detect_owner:
  assumes "yz_host_root_detect e k = (r, k')"
  shows "(case r of
      None \<Rightarrow> k_policy_allowed k' \<and> \<not> magisk_present e \<and>
        (ksu_present e \<and> \<not> apatch_present e \<and> k_owner k' = OWNER_KERNELSU \<and>
           k_policy_fallback k' = (k_ksu_uid_should_umount k' = None) \<or>
         apatch_present e \<and> \<not> ksu_present e \<and> k_owner k' = OWNER_KERNELPATCH \<and>
           k_policy_fallback k' = (k_ap_get_mod_exclude k' = None))
    | Some err \<Rightarrow> k_owner k' = OWNER_NONE \<and> \<not> k_policy_allowed k' \<and> \<not> k_policy_fallback k') \<and>
   k_cache k' = None"
proof -
  obtain ks kp k1 where 1: "yz_ksu_detect e (reset_state k) = (ks, kp, k1)" by (metis prod_cases3)
  obtain as k2 where 2: "yz_apatch_detect e k1 = (as, k2)" by fastforce
  obtain ms k5 where 5: "yz_magisk_detect e (apply_force e (if as then or_mask ROOT_APATCH k2 else k2)) = (ms, k5)"
    by fastforce
  have "k_ksu_uid_should_umount (reset_state k) = None" by (simp add: reset_state_def)
  note f1 = ksu_detect_facts [OF 1 this] and f2 = other_detect_facts(1) [OF 2] and f5 = other_detect_facts(2) [OF 5]
  have force: "policy_core (apply_force e j) = policy_core j"
      "k_ksu_uid_should_umount (apply_force e j) = (if pr_force_fallback e then None else k_ksu_uid_should_umount j)" for j
    by (simp_all add: apply_force_def policy_core_def)
  have core: "policy_core k5 = (OWNER_NONE, False, False)"
    using f1(3) f2 f5 by (simp add: force) (simp add: policy_core_def reset_state_def)
  have ptr: "k_ksu_uid_should_umount k5 = (if pr_force_fallback e then None else pr_ksu_uid_should_umount e)"
    using f1(4) f2 f5 by (simp add: force)
  have run: "(r, k') = (if of_bool ks + of_bool as + of_bool ms > (1 :: nat) then (Some EBUSY, or_mask ROOT_MULTI k5)
       else if ks then (None, k5\<lparr>k_owner := OWNER_KERNELSU, k_policy_allowed := True,
              k_policy_fallback := \<not> (kp \<and> \<not> pr_force_fallback e)\<rparr>)
       else if as then (None, k5\<lparr>k_owner := OWNER_KERNELPATCH, k_policy_allowed := True,
              k_policy_fallback := Option.is_none (k_ap_get_mod_exclude k5)\<rparr>)
       else if ms then (Some EOPNOTSUPP, k5) else (Some ENODEV, or_mask ROOT_NON_ROOT k5))"
    using assms by (simp add: yz_host_root_detect_def 1 2 5 Let_def)
  have seen: "as = apatch_present e" "ms = magisk_present e" using f2 f5 by blast+
  have "k_cache k' = None" using detect_no_cache [of e k] assms by simp
  then show ?thesis
    using run core ptr unfolding f1(1,2) seen policy_core_def
    by (cases "ksu_present e"; cases "apatch_present e"; cases "magisk_present e") (auto simp: or_mask_def)
qed

text \<open>A kernel with KernelSU's system call table and module, no callable policy, and no other root.\<close>

definition sample_probe :: probe_env where
  "sample_probe = \<lparr>pr_ksu_syscall_table = True, pr_ksu_dispatcher_nr = Some 449, pr_ksu_uid_should_umount = None,
     pr_ksu_get_allow_list = False, pr_ksu_is_allow_uid_for_current = None, pr_ksu_is_allow_uid = None,
     pr_ksu_module_present = True, pr_su_get_path = False, pr_get_ap_mod_exclude = None, pr_kp_scan = None,
     pr_can_open = (\<lambda>path. False), pr_force_fallback = False\<rparr>"

theorem root_detect_owner_witness:
  "yz_host_root_detect sample_probe sample_kernel =
     (None, sample_kernel\<lparr>k_mask := 3, k_dispatcher_nr := 449, k_owner := OWNER_KERNELSU\<rparr>) \<and>
   k_policy_fallback (sample_kernel\<lparr>k_mask := 3, k_dispatcher_nr := 449, k_owner := OWNER_KERNELSU\<rparr>)"
proof -
  have run: "yz_host_root_detect sample_probe sample_kernel =
     (None, sample_kernel\<lparr>k_mask := 3, k_dispatcher_nr := 449, k_owner := OWNER_KERNELSU\<rparr>)"
    by (simp add: yz_host_root_detect_def yz_ksu_detect_def yz_apatch_detect_def yz_magisk_detect_def ksu_table_def
        ksu_policy_def or_mask_def apply_force_def reset_state_def yz_policy_cache_clear_def sample_probe_def
        sample_kernel_def)
  show ?thesis using root_detect_owner [OF run] run by (simp add: sample_kernel_def)
qed

end
