(* ===== verification/Json.thy ===== *)
theory Json
  imports Yz_Prelude "HOL-Library.Char_ord" "HOL-Library.List_Lexorder"
begin

text \<open>
  The JSON library of \<^verbatim>\<open>userspace/common/json.hpp\<close>: \<^verbatim>\<open>Value\<close> with its accessors,
  \<^verbatim>\<open>escape_string\<close>, \<^verbatim>\<open>dump\<close> and the recursive-descent \<^verbatim>\<open>Parser\<close>.

  A \<^verbatim>\<open>std::map\<close> is an association list in ascending key order.  The parser's position is represented
  by the rest of the input; the code compares the position with the size before every access, so a
  position beyond the end is the empty rest.  Numbers are \<^verbatim>\<open>double\<close>: their printing
  (\<^verbatim>\<open>std::to_string\<close>) and parsing (\<^verbatim>\<open>std::stod\<close>, \<open>None\<close> when it throws) are the parameter
  \<open>num_ops\<close>.  The parser can loop forever, so it runs on fuel: \<open>No_Fuel\<close> is not an outcome of the
  code, \<open>Throws\<close> is the exception of \<^verbatim>\<open>std::stod\<close>.
\<close>

section \<open>Values\<close>

datatype jtype = TNull | TBool | TNumber | TString | TArray | TObject

datatype 'n jvalue = JValue
  (jtype_of: jtype) (as_bool: bool) (as_number: 'n) (as_string: string)
  (as_array: "'n jvalue list") (as_object: "(string \<times> 'n jvalue) list")

definition JNull :: "'n::zero jvalue" where "JNull = JValue TNull False 0 [] [] []"
definition JBool :: "bool \<Rightarrow> 'n::zero jvalue" where "JBool v = JValue TBool v 0 [] [] []"
definition JNumber :: "'n \<Rightarrow> 'n jvalue" where "JNumber v = JValue TNumber False v [] [] []"
definition JString :: "string \<Rightarrow> 'n::zero jvalue" where "JString v = JValue TString False 0 v [] []"
definition JArray :: "'n::zero jvalue list \<Rightarrow> 'n jvalue" where "JArray v = JValue TArray False 0 [] v []"
definition JObject :: "(string \<times> 'n::zero jvalue) list \<Rightarrow> 'n jvalue" where
  "JObject v = JValue TObject False 0 [] [] v"

fun map_put :: "'k::linorder \<Rightarrow> 'v \<Rightarrow> ('k \<times> 'v) list \<Rightarrow> ('k \<times> 'v) list" where
  "map_put k v [] = [(k, v)]"
| "map_put k v ((k', v') # kvs) =
     (if k < k' then (k, v) # (k', v') # kvs
      else if k = k' then (k, v) # kvs
      else (k', v') # map_put k v kvs)"

text \<open>\<^verbatim>\<open>v[key]\<close> makes \<open>v\<close> an object, inserts a null member when the key is new, and returns a
  reference to the member; here the updated value and the member.\<close>

definition subscript :: "string \<Rightarrow> 'n::zero jvalue \<Rightarrow> 'n jvalue \<times> 'n jvalue" where
  "subscript key v =
     (let members = (if jtype_of v \<noteq> TObject then [] else as_object v);
          child = (case map_of members key of None \<Rightarrow> JNull | Some c \<Rightarrow> c);
          members' = (case map_of members key of None \<Rightarrow> map_put key JNull members | Some c \<Rightarrow> members)
      in (JValue TObject (as_bool v) (as_number v) (as_string v) (as_array v) members', child))"

text \<open>The assignment \<^verbatim>\<open>v[key] = x\<close>.\<close>

definition assign_member :: "string \<Rightarrow> 'n::zero jvalue \<Rightarrow> 'n jvalue \<Rightarrow> 'n jvalue" where
  "assign_member key x v =
     (case fst (subscript key v) of JValue t b n s a ob \<Rightarrow> JValue t b n s a (map_put key x ob))"

definition at_member :: "string \<Rightarrow> 'n::zero jvalue \<Rightarrow> 'n jvalue" where
  "at_member key v =
     (if jtype_of v \<noteq> TObject then JNull
      else case map_of (as_object v) key of None \<Rightarrow> JNull | Some x \<Rightarrow> x)"

definition contains_member :: "string \<Rightarrow> 'n jvalue \<Rightarrow> bool" where
  "contains_member key v \<longleftrightarrow> jtype_of v = TObject \<and> map_of (as_object v) key \<noteq> None"

definition push_back :: "'n jvalue \<Rightarrow> 'n jvalue \<Rightarrow> 'n jvalue" where
  "push_back x v =
     (let items = (if jtype_of v \<noteq> TArray then [] else as_array v)
      in JValue TArray (as_bool v) (as_number v) (as_string v) (items @ [x]) (as_object v))"

section \<open>Printing\<close>

record 'n num_ops =
  to_string :: "'n \<Rightarrow> string"
  stod :: "string \<Rightarrow> 'n option"

abbreviation (input) quote_char :: char where "quote_char \<equiv> CHR 0x22"
abbreviation (input) backslash :: char where "backslash \<equiv> CHR 0x5C"

definition hex_digit :: "nat \<Rightarrow> char" where
  "hex_digit d = ''0123456789abcdef'' ! d"

text \<open>Characters are bytes; \<^verbatim>\<open>setw(4)\<close> with \<^verbatim>\<open>hex\<close> prints a value below 32 as two zeros and two digits.\<close>

definition escape_char :: "char \<Rightarrow> string" where
  "escape_char c =
     (if c = quote_char then [backslash, quote_char]
      else if c = backslash then [backslash, backslash]
      else if c = CHR 0x08 then [backslash, CHR ''b'']
      else if c = CHR 0x0C then [backslash, CHR ''f'']
      else if c = CHR 0x0A then [backslash, CHR ''n'']
      else if c = CHR 0x0D then [backslash, CHR ''r'']
      else if c = CHR 0x09 then [backslash, CHR ''t'']
      else if of_char c < (0x20 :: nat)
      then [backslash, CHR ''u'', CHR ''0'', CHR ''0'', hex_digit (of_char c div 16), hex_digit (of_char c mod 16)]
      else [c])"

definition escape_string :: "string \<Rightarrow> string" where
  "escape_string s = [quote_char] @ concat (map escape_char s) @ [quote_char]"

definition trim_number :: "string \<Rightarrow> string" where
  "trim_number s =
     (let t = rev (dropWhile (\<lambda>c. c = CHR ''0'') (rev s))
      in if t \<noteq> [] \<and> last t = CHR ''.'' then butlast t else t)"

definition spaces :: "int \<Rightarrow> nat \<Rightarrow> string" where
  "spaces indent level = (if indent \<ge> 0 then replicate (level * nat indent) (CHR '' '') else [])"

definition line_end :: "int \<Rightarrow> string \<Rightarrow> string" where
  "line_end indent otherwise = (if indent \<ge> 0 then [CHR 0x0A] else otherwise)"

function (sequential) dump :: "'n num_ops \<Rightarrow> int \<Rightarrow> nat \<Rightarrow> 'n jvalue \<Rightarrow> string"
  and dump_items :: "'n num_ops \<Rightarrow> int \<Rightarrow> nat \<Rightarrow> 'n jvalue list \<Rightarrow> string"
  and dump_members :: "'n num_ops \<Rightarrow> int \<Rightarrow> nat \<Rightarrow> (string \<times> 'n jvalue) list \<Rightarrow> string" where
  "dump ops indent level (JValue t b n s a ob) =
     (case t of
        TNull \<Rightarrow> ''null''
      | TBool \<Rightarrow> if b then ''true'' else ''false''
      | TNumber \<Rightarrow> trim_number (to_string ops n)
      | TString \<Rightarrow> escape_string s
      | TArray \<Rightarrow>
          if a = [] then ''[]''
          else ''['' @ line_end indent '''' @ dump_items ops indent level a @
               line_end indent '''' @ spaces indent level @ '']''
      | TObject \<Rightarrow>
          if ob = [] then ''{}''
          else ''{'' @ line_end indent '''' @ dump_members ops indent level ob @
               line_end indent '''' @ spaces indent level @ ''}'')"
| "dump_items ops indent level [] = ''''"
| "dump_items ops indent level (x # xs) =
     spaces indent (level + 1) @ dump ops indent (level + 1) x @
     (if xs \<noteq> [] then '','' @ line_end indent '' '' else '''') @ dump_items ops indent level xs"
| "dump_members ops indent level [] = ''''"
| "dump_members ops indent level ((k, x) # kvs) =
     spaces indent (level + 1) @ escape_string k @ '':'' @ (if indent \<ge> 0 then '' '' else '''') @
     dump ops indent (level + 1) x @
     (if kvs \<noteq> [] then '','' @ line_end indent '' '' else '''') @ dump_members ops indent level kvs"
  by pat_completeness auto
termination
  by (relation "measure (\<lambda>x. case x of Inl (_, _, _, v) \<Rightarrow> size v
        | Inr (Inl (_, _, _, xs)) \<Rightarrow> size_list size xs
        | Inr (Inr (_, _, _, kvs)) \<Rightarrow> size_list (size_prod (\<lambda>_. 0) size) kvs)") auto

section \<open>Parsing\<close>

datatype 'a outcome = No_Fuel | Throws | Done 'a

definition is_space :: "char \<Rightarrow> bool" where
  "is_space c \<longleftrightarrow> c = CHR '' '' \<or> (9 \<le> (of_char c :: nat) \<and> (of_char c :: nat) \<le> 13)"

definition is_digit :: "char \<Rightarrow> bool" where
  "is_digit c \<longleftrightarrow> 48 \<le> (of_char c :: nat) \<and> (of_char c :: nat) \<le> 57"

definition skip_whitespace :: "string \<Rightarrow> string" where
  "skip_whitespace s = dropWhile is_space s"

definition skip_char :: "char \<Rightarrow> string \<Rightarrow> string" where
  "skip_char c s = (case s of [] \<Rightarrow> [] | d # ds \<Rightarrow> if d = c then ds else s)"

definition unescape :: "char \<Rightarrow> char" where
  "unescape c = (if c = CHR ''n'' then CHR 0x0A else if c = CHR ''t'' then CHR 0x09 else c)"

text \<open>The loop of \<^verbatim>\<open>parse_string\<close>, after the opening character.\<close>

fun string_loop :: "string \<Rightarrow> string \<times> string" where
  "string_loop [] = ([], [])"
| "string_loop (c # cs) =
     (if c = quote_char then ([], cs)
      else if c = backslash
      then case cs of
             [] \<Rightarrow> ([], [])
           | d # ds \<Rightarrow> (case string_loop ds of (s, r) \<Rightarrow> (unescape d # s, r))
      else (case string_loop cs of (s, r) \<Rightarrow> (c # s, r)))"

definition parse_string :: "string \<Rightarrow> string \<times> string" where
  "parse_string s = string_loop (drop 1 s)"

definition number_char :: "char \<Rightarrow> bool" where
  "number_char c \<longleftrightarrow> is_digit c \<or> c = CHR ''-'' \<or> c = CHR ''.''"

definition parse_number :: "'n num_ops \<Rightarrow> string \<Rightarrow> ('n jvalue \<times> string) outcome" where
  "parse_number ops s =
     (case stod ops (takeWhile number_char s) of
        None \<Rightarrow> Throws
      | Some x \<Rightarrow> Done (JNumber x, dropWhile number_char s))"

fun parse_value :: "'n::zero num_ops \<Rightarrow> nat \<Rightarrow> string \<Rightarrow> ('n jvalue \<times> string) outcome"
  and array_loop :: "'n num_ops \<Rightarrow> nat \<Rightarrow> 'n jvalue list \<Rightarrow> string \<Rightarrow> ('n jvalue \<times> string) outcome"
  and object_loop :: "'n num_ops \<Rightarrow> nat \<Rightarrow> (string \<times> 'n jvalue) list \<Rightarrow> string \<Rightarrow> ('n jvalue \<times> string) outcome"
where
  "parse_value ops 0 s = No_Fuel"
| "parse_value ops (Suc k) s =
     (case skip_whitespace s of
        [] \<Rightarrow> Done (JNull, [])
      | c # cs \<Rightarrow>
          if c = CHR ''n'' then Done (JNull, drop 4 (c # cs))
          else if c = CHR ''t'' then Done (JBool True, drop 4 (c # cs))
          else if c = CHR ''f'' then Done (JBool False, drop 5 (c # cs))
          else if c = quote_char then (case parse_string (c # cs) of (str, r) \<Rightarrow> Done (JString str, r))
          else if c = CHR ''['' then array_loop ops k [] cs
          else if c = CHR ''{'' then object_loop ops k [] cs
          else if c = CHR ''-'' \<or> is_digit c then parse_number ops (c # cs)
          else Done (JNull, c # cs))"
| "array_loop ops 0 acc s = No_Fuel"
| "array_loop ops (Suc k) acc s =
     (case skip_whitespace s of
        [] \<Rightarrow> Done (JArray acc, [])
      | c # cs \<Rightarrow>
          if c = CHR '']'' then Done (JArray acc, cs)
          else (case parse_value ops k (c # cs) of
                  No_Fuel \<Rightarrow> No_Fuel
                | Throws \<Rightarrow> Throws
                | Done (v, r) \<Rightarrow> array_loop ops k (acc @ [v]) (skip_char (CHR '','') (skip_whitespace r))))"
| "object_loop ops 0 acc s = No_Fuel"
| "object_loop ops (Suc k) acc s =
     (case skip_whitespace s of
        [] \<Rightarrow> Done (JObject acc, [])
      | c # cs \<Rightarrow>
          if c = CHR ''}'' then Done (JObject acc, cs)
          else (case parse_string (c # cs) of (key, r) \<Rightarrow>
                 (case parse_value ops k (skip_char (CHR '':'') (skip_whitespace r)) of
                    No_Fuel \<Rightarrow> No_Fuel
                  | Throws \<Rightarrow> Throws
                  | Done (v, r') \<Rightarrow>
                      object_loop ops k (map_put key v acc) (skip_char (CHR '','') (skip_whitespace r')))))"

definition parse :: "'n::zero num_ops \<Rightarrow> nat \<Rightarrow> string \<Rightarrow> 'n jvalue outcome" where
  "parse ops fuel s =
     (case parse_value ops fuel s of No_Fuel \<Rightarrow> No_Fuel | Throws \<Rightarrow> Throws | Done (v, r) \<Rightarrow> Done v)"

section \<open>Fuel\<close>

text \<open>\<open>runs f x\<close>: with enough fuel, \<open>f\<close> gives \<open>x\<close>.\<close>

definition runs :: "(nat \<Rightarrow> 'a outcome) \<Rightarrow> 'a \<Rightarrow> bool" where
  "runs f x \<longleftrightarrow> (\<exists>k. \<forall>j \<ge> k. f j = Done x)"

lemma runs_fun: "runs f x \<Longrightarrow> runs f y \<Longrightarrow> x = y"
  unfolding runs_def by (metis max.cobounded1 max.cobounded2 outcome.inject)

lemma runs_Suc: "(\<And>k. f (Suc k) = g k) \<Longrightarrow> runs g x \<Longrightarrow> runs f x"
  unfolding runs_def by (metis Suc_le_D Suc_le_mono)

lemma runs_const: "runs (\<lambda>k. Done x) x"
  by (simp add: runs_def)

lemma runs_bind:
  assumes "runs f x" and "runs (g x) y"
  shows "runs (\<lambda>k. case f k of No_Fuel \<Rightarrow> No_Fuel | Throws \<Rightarrow> Throws | Done z \<Rightarrow> g z k) y"
proof -
  from assms obtain k l where "\<forall>j \<ge> k. f j = Done x" "\<forall>j \<ge> l. g x j = Done y" by (auto simp: runs_def)
  then have "\<forall>j \<ge> max k l. (case f j of No_Fuel \<Rightarrow> No_Fuel | Throws \<Rightarrow> Throws | Done z \<Rightarrow> g z j) = Done y"
    by simp
  then show ?thesis unfolding runs_def by blast
qed

section \<open>Strings\<close>

definition plain_char :: "char \<Rightarrow> bool" where
  "plain_char c \<longleftrightarrow> 0x20 \<le> (of_char c :: nat) \<or> c = CHR 0x0A \<or> c = CHR 0x09"

lemma string_loop_escape_char:
  assumes "plain_char c"
  shows "string_loop (escape_char c @ cs) = (case string_loop cs of (s, r) \<Rightarrow> (c # s, r))"
proof (cases "c = quote_char \<or> c = backslash \<or> c = CHR 0x0A \<or> c = CHR 0x09")
  case True
  then show ?thesis by (auto simp: escape_char_def unescape_def)
next
  case False
  then have "escape_char c = [c]" using assms by (auto simp: escape_char_def plain_char_def)
  then show ?thesis using False by simp
qed

lemma string_loop_escaped:
  "list_all plain_char s \<Longrightarrow> string_loop (concat (map escape_char s) @ [quote_char] @ r) = (s, r)"
  by (induction s) (simp_all add: string_loop_escape_char)

lemma parse_string_escape:
  "list_all plain_char s \<Longrightarrow> parse_string (escape_string s @ r) = (s, r)"
  using string_loop_escaped [of s r] by (simp add: parse_string_def escape_string_def)

section \<open>Whitespace\<close>

lemma skip_ws_append: "list_all is_space ws \<Longrightarrow> skip_whitespace (ws @ s) = skip_whitespace s"
  by (simp add: skip_whitespace_def list_all_iff dropWhile_append)

lemma skip_ws_stop: "\<not> is_space c \<Longrightarrow> skip_whitespace (c # s) = c # s"
  by (simp add: skip_whitespace_def)

lemma space_tokens [simp]: "is_space (CHR '' '')" "is_space (CHR 0x0A)" "\<not> is_space (CHR '','')"
  "\<not> is_space (CHR '':'')" "\<not> is_space (CHR '']'')" "\<not> is_space (CHR ''}'')" "\<not> is_space quote_char"
  "\<not> is_space (CHR ''['')" "\<not> is_space (CHR ''{'')" "\<not> is_space (CHR ''n'')" "\<not> is_space (CHR ''t'')"
  "\<not> is_space (CHR ''f'')"
  by (simp_all add: is_space_def)

lemma spaces_space [simp]: "list_all is_space (spaces indent level)"
  by (simp add: spaces_def list_all_iff)

lemma line_end_space [simp]: "list_all is_space (line_end indent '''')" "list_all is_space (line_end indent '' '')"
  by (simp_all add: line_end_def)

lemma loop_skips:
  assumes "list_all is_space ws"
  shows "array_loop ops k acc (ws @ s) = array_loop ops k acc s"
    and "object_loop ops k oacc (ws @ s) = object_loop ops k oacc s"
    and "parse_value ops k (ws @ s) = parse_value ops k s"
  by (cases k; simp add: skip_ws_append [OF assms])+

section \<open>The values that survive\<close>

definition num_ok :: "'n num_ops \<Rightarrow> 'n \<Rightarrow> bool" where
  "num_ok ops x \<longleftrightarrow>
     (let t = trim_number (to_string ops x)
      in t \<noteq> [] \<and> list_all number_char t \<and> (hd t = CHR ''-'' \<or> is_digit (hd t)) \<and> stod ops t = Some x)"

inductive plain :: "'n::zero num_ops \<Rightarrow> 'n jvalue \<Rightarrow> bool" for ops where
  plain_null: "plain ops JNull"
| plain_bool: "plain ops (JBool b)"
| plain_number: "num_ok ops x \<Longrightarrow> plain ops (JNumber x)"
| plain_string: "list_all plain_char s \<Longrightarrow> plain ops (JString s)"
| plain_array: "(\<And>x. x \<in> set xs \<Longrightarrow> plain ops x) \<Longrightarrow> plain ops (JArray xs)"
| plain_object: "(\<And>k x. (k, x) \<in> set kvs \<Longrightarrow> plain ops x) \<Longrightarrow>
     (\<And>k x. (k, x) \<in> set kvs \<Longrightarrow> list_all plain_char k) \<Longrightarrow>
     sorted_wrt (<) (map fst kvs) \<Longrightarrow> plain ops (JObject kvs)"

text \<open>What may follow a value: nothing that extends a number.\<close>

definition stop :: "string \<Rightarrow> bool" where
  "stop r \<longleftrightarrow> r = [] \<or> \<not> number_char (hd r)"

lemma number_head:
  assumes "c = CHR ''-'' \<or> is_digit c"
  shows "\<not> is_space c" and "c \<notin> {CHR '']'', CHR ''}'', CHR ''n'', CHR ''t'', CHR ''f'', quote_char, CHR ''['', CHR ''{''}"
  using assms by (auto simp: is_space_def is_digit_def)

lemma dump_head:
  assumes "plain ops v"
  obtains c cs where "dump ops indent level v = c # cs" and "\<not> is_space c" and "c \<noteq> CHR '']''" and "c \<noteq> CHR ''}''"
  using assms
proof cases
  case (plain_number x)
  then obtain c cs where "trim_number (to_string ops x) = c # cs" "c = CHR ''-'' \<or> is_digit c"
    by (auto simp: num_ok_def Let_def neq_Nil_conv)
  then show thesis using plain_number that number_head by (auto simp: JNumber_def)
next
  case (plain_bool b)
  then show thesis using that by (cases b) (auto simp: JBool_def)
next
  case (plain_array xs)
  then show thesis using that by (cases xs) (auto simp: JArray_def)
next
  case (plain_object kvs)
  then show thesis using that by (cases kvs) (auto simp: JObject_def)
qed (auto intro: that simp: JNull_def JString_def escape_string_def)

lemma map_put_snoc: "sorted_wrt (<) (map fst kvs @ [k]) \<Longrightarrow> map_put k v kvs = kvs @ [(k, v)]"
  by (induction k v kvs rule: map_put.induct) (auto simp: sorted_wrt_append)

section \<open>Printing, then parsing\<close>

lemma parse_number_runs:
  assumes "num_ok ops x" and "stop r"
  shows "runs (\<lambda>k. parse_value ops k (trim_number (to_string ops x) @ r)) (JNumber x, r)"
proof -
  let ?t = "trim_number (to_string ops x)"
  obtain c cs where t: "?t = c # cs" and c: "c = CHR ''-'' \<or> is_digit c"
    and all: "list_all number_char ?t" and st: "stod ops ?t = Some x"
    using assms(1) by (auto simp: num_ok_def Let_def neq_Nil_conv)
  have "takeWhile number_char (?t @ r) = ?t" "dropWhile number_char (?t @ r) = r"
    using all assms(2) by (cases r; auto simp: stop_def list_all_iff takeWhile_append dropWhile_append)+
  then have "parse_number ops (?t @ r) = Done (JNumber x, r)" using st by (simp add: parse_number_def)
  then have "parse_value ops (Suc k) (?t @ r) = Done (JNumber x, r)" for k
    using number_head [OF c] c by (simp add: t skip_ws_stop)
  then show ?thesis by (rule runs_Suc [OF _ runs_const])
qed

definition item_sep :: "int \<Rightarrow> bool \<Rightarrow> string" where
  "item_sep indent go_on = (if go_on then '','' @ line_end indent '' '' else '''')"

definition closing :: "int \<Rightarrow> nat \<Rightarrow> char \<Rightarrow> string \<Rightarrow> string" where
  "closing indent level c r = line_end indent '''' @ spaces indent level @ [c] @ r"

lemma stop_closing: "c = CHR '']'' \<or> c = CHR ''}'' \<Longrightarrow> stop (closing indent level c r)"
proof (cases "spaces indent level")
  case Nil
  then show "c = CHR '']'' \<or> c = CHR ''}'' \<Longrightarrow> ?thesis"
    by (auto simp: stop_def closing_def line_end_def number_char_def is_digit_def)
next
  case (Cons d ds)
  then have "d \<in> set (spaces indent level)" by simp
  then have "d = CHR '' ''" by (auto simp: spaces_def split: if_splits)
  then show ?thesis using Cons by (auto simp: stop_def closing_def line_end_def number_char_def is_digit_def)
qed

lemma stop_comma: "stop ('','' @ r)"
  by (simp add: stop_def number_char_def is_digit_def)

lemma stop_after_item:
  "c = CHR '']'' \<or> c = CHR ''}'' \<Longrightarrow> (go_on \<or> mid = []) \<Longrightarrow>
     stop (item_sep indent go_on @ mid @ closing indent level c r)"
  using stop_closing stop_comma by (cases go_on) (simp_all add: item_sep_def)

lemma closing_skip:
  "c = CHR '']'' \<or> c = CHR ''}'' \<Longrightarrow> skip_whitespace (closing indent level c r) = c # r"
  by (auto simp: closing_def skip_ws_append skip_ws_stop)

lemma array_close:
  "runs (\<lambda>k. array_loop ops k acc (skip_char (CHR '','') (skip_whitespace (closing indent level (CHR '']'') r)))) (JArray acc, r)"
  by (rule runs_Suc [OF _ runs_const]) (simp add: closing_skip skip_char_def skip_ws_stop)

lemma array_items_run:
  assumes "\<And>x level r. x \<in> set xs \<Longrightarrow> stop r \<Longrightarrow> runs (\<lambda>k. parse_value ops k (dump ops indent level x @ r)) (x, r)"
    and "\<And>x. x \<in> set xs \<Longrightarrow> plain ops x" and "xs \<noteq> []"
  shows "runs (\<lambda>k. array_loop ops k acc (dump_items ops indent level xs @ closing indent level (CHR '']'') r))
    (JArray (acc @ xs), r)"
  using assms
proof (induction xs arbitrary: acc)
  case (Cons x xs)
  define rest where "rest = item_sep indent (xs \<noteq> []) @ dump_items ops indent level xs @
    closing indent level (CHR '']'') r"
  obtain c cs where hd: "dump ops indent (level + 1) x = c # cs" "\<not> is_space c" "c \<noteq> CHR '']''"
    using dump_head Cons.prems(2) by (metis list.set_intros(1))
  have "stop rest" unfolding rest_def by (rule stop_after_item) auto
  then have first: "runs (\<lambda>k. parse_value ops k (dump ops indent (level + 1) x @ rest)) (x, rest)"
    using Cons.prems(1) by simp
  have nxt: "runs (\<lambda>k. array_loop ops k (acc @ [x]) (skip_char (CHR '','') (skip_whitespace rest))) (JArray (acc @ x # xs), r)"
  proof (cases "xs = []")
    case True
    then show ?thesis using array_close [of ops "acc @ [x]"] by (simp add: rest_def item_sep_def)
  next
    case False
    then have "runs (\<lambda>k. array_loop ops k (acc @ [x]) (dump_items ops indent level xs @
        closing indent level (CHR '']'') r)) (JArray ((acc @ [x]) @ xs), r)"
      using Cons.IH [of "acc @ [x]"] Cons.prems by simp
    then show ?thesis using False
      by (simp add: rest_def item_sep_def skip_ws_stop skip_char_def loop_skips)
  qed
  have "array_loop ops (Suc k) acc (dump_items ops indent level (x # xs) @ closing indent level (CHR '']'') r) =
      (case parse_value ops k (dump ops indent (level + 1) x @ rest) of
         No_Fuel \<Rightarrow> No_Fuel | Throws \<Rightarrow> Throws
       | Done z \<Rightarrow> (case z of (v, r') \<Rightarrow> array_loop ops k (acc @ [v]) (skip_char (CHR '','') (skip_whitespace r'))))" for k
    using hd by (simp add: loop_skips rest_def item_sep_def skip_ws_append skip_ws_stop split: outcome.splits)
  then show ?case
    by (rule runs_Suc) (rule runs_bind [OF first], use nxt in simp)
qed simp

lemma object_close:
  "runs (\<lambda>k. object_loop ops k acc (skip_char (CHR '','') (skip_whitespace (closing indent level (CHR ''}'') r)))) (JObject acc, r)"
  by (rule runs_Suc [OF _ runs_const]) (simp add: closing_skip skip_char_def skip_ws_stop)

lemma object_step:
  assumes key: "list_all plain_char k" and gap: "list_all is_space gap"
  shows "object_loop ops (Suc j) acc (escape_string k @ '':'' @ gap @ t) =
      (case parse_value ops j t of
         No_Fuel \<Rightarrow> No_Fuel | Throws \<Rightarrow> Throws
       | Done z \<Rightarrow> (case z of (v, r') \<Rightarrow>
           object_loop ops j (map_put k v acc) (skip_char (CHR '','') (skip_whitespace r'))))"
proof -
  have str: "escape_string k = quote_char # tl (escape_string k)" by (simp add: escape_string_def)
  have ws: "skip_whitespace (escape_string k @ u) = quote_char # tl (escape_string k) @ u" for u
    by (subst str) (simp add: skip_ws_stop)
  have "parse_string (quote_char # tl (escape_string k) @ u) = (k, u)" for u
    using parse_string_escape [OF key, of u] by (subst (asm) str) simp
  then show ?thesis
    by (simp add: ws skip_ws_stop skip_char_def loop_skips(3) [OF gap] split: outcome.splits)
qed

lemma object_members_run:
  assumes "\<And>k x level r. (k, x) \<in> set kvs \<Longrightarrow> stop r \<Longrightarrow>
      runs (\<lambda>j. parse_value ops j (dump ops indent level x @ r)) (x, r)"
    and "\<And>k x. (k, x) \<in> set kvs \<Longrightarrow> list_all plain_char k" and "kvs \<noteq> []"
    and "sorted_wrt (<) (map fst (acc @ kvs))"
  shows "runs (\<lambda>j. object_loop ops j acc (dump_members ops indent level kvs @ closing indent level (CHR ''}'') r))
    (JObject (acc @ kvs), r)"
  using assms
proof (induction kvs arbitrary: acc)
  case (Cons kv kvs)
  obtain k x where kv: "kv = (k, x)" by fastforce
  define rest where "rest = item_sep indent (kvs \<noteq> []) @ dump_members ops indent level kvs @
    closing indent level (CHR ''}'') r"
  have "stop rest" unfolding rest_def by (rule stop_after_item) auto
  then have first: "runs (\<lambda>j. parse_value ops j (dump ops indent (level + 1) x @ rest)) (x, rest)"
    using Cons.prems(1) [of k x rest "level + 1"] kv by simp
  have put: "map_put k x acc = acc @ [(k, x)]"
    using Cons.prems(4) kv by (intro map_put_snoc) (auto simp: sorted_wrt_append)
  have nxt: "runs (\<lambda>j. object_loop ops j (map_put k x acc) (skip_char (CHR '','') (skip_whitespace rest)))
      (JObject (acc @ kv # kvs), r)"
  proof (cases "kvs = []")
    case True
    then show ?thesis using object_close [of ops "acc @ [(k, x)]"] kv by (simp add: rest_def item_sep_def put)
  next
    case False
    have "runs (\<lambda>j. object_loop ops j (acc @ [(k, x)]) (dump_members ops indent level kvs @
        closing indent level (CHR ''}'') r)) (JObject ((acc @ [(k, x)]) @ kvs), r)"
    proof (rule Cons.IH)
      show "runs (\<lambda>j. parse_value ops j (dump ops indent l y @ t)) (y, t)" if "(k', y) \<in> set kvs" "stop t" for k' y l t
        using Cons.prems(1) [of k' y t l] that by simp
      show "list_all plain_char k'" if "(k', y) \<in> set kvs" for k' y using Cons.prems(2) [of k' y] that by simp
    qed (use False Cons.prems(4) kv in simp_all)
    then show ?thesis using False kv
      by (simp add: rest_def item_sep_def skip_ws_stop skip_char_def loop_skips put)
  qed
  have key: "list_all plain_char k" using Cons.prems(2) [of k x] kv by simp
  define gap where "gap = (if indent \<ge> 0 then '' '' else '''')"
  have gap: "list_all is_space gap" by (simp add: gap_def)
  have "object_loop ops (Suc j) acc (dump_members ops indent level (kv # kvs) @ closing indent level (CHR ''}'') r) =
      object_loop ops (Suc j) acc (escape_string k @ '':'' @ gap @ dump ops indent (level + 1) x @ rest)" for j
    by (simp add: kv loop_skips rest_def item_sep_def gap_def del: object_loop.simps)
  then show ?case unfolding object_step [OF key gap]
    by (rule runs_Suc) (rule runs_bind [OF first], use nxt in simp)
qed simp

lemma dump_parses:
  assumes "plain ops v" and "stop r"
  shows "runs (\<lambda>k. parse_value ops k (dump ops indent level v @ r)) (v, r)"
  using assms
proof (induction arbitrary: level r rule: plain.induct)
  case plain_null
  show ?case by (rule runs_Suc [OF _ runs_const]) (simp add: JNull_def skip_ws_stop)
next
  case (plain_bool b)
  show ?case by (cases b; rule runs_Suc [OF _ runs_const]) (simp_all add: JBool_def skip_ws_stop)
next
  case (plain_number x)
  then show ?case using parse_number_runs by (simp add: JNumber_def)
next
  case (plain_string s)
  have "parse_string (quote_char # concat (map escape_char s) @ quote_char # r) = (s, r)"
    using parse_string_escape [OF plain_string.hyps, of r] by (simp add: escape_string_def)
  then show ?case
    by (intro runs_Suc [OF _ runs_const]) (simp add: JString_def escape_string_def skip_ws_stop)
next
  case (plain_array xs)
  show ?case
  proof (cases "xs = []")
    case True
    have "runs (\<lambda>k. array_loop ops k [] (CHR '']'' # r)) (JArray [], r)"
      by (rule runs_Suc [OF _ runs_const]) (simp add: skip_ws_stop)
    then show ?thesis unfolding True by (rule runs_Suc [rotated]) (simp add: JArray_def skip_ws_stop)
  next
    case False
    have "runs (\<lambda>k. array_loop ops k [] (dump_items ops indent level xs @ closing indent level (CHR '']'') r))
        (JArray ([] @ xs), r)"
      by (rule array_items_run [OF plain_array.IH plain_array.hyps False])
    note run = this [unfolded append_Nil]
    show ?thesis
      by (rule runs_Suc [OF _ run]) (use False in \<open>simp add: JArray_def skip_ws_stop closing_def loop_skips\<close>)
  qed
next
  case (plain_object kvs)
  show ?case
  proof (cases "kvs = []")
    case True
    have "runs (\<lambda>k. object_loop ops k [] (CHR ''}'' # r)) (JObject [], r)"
      by (rule runs_Suc [OF _ runs_const]) (simp add: skip_ws_stop)
    then show ?thesis unfolding True by (rule runs_Suc [rotated]) (simp add: JObject_def skip_ws_stop)
  next
    case False
    have "runs (\<lambda>k. object_loop ops k [] (dump_members ops indent level kvs @ closing indent level (CHR ''}'') r))
        (JObject ([] @ kvs), r)"
      by (rule object_members_run [OF plain_object.IH plain_object.hyps(2) False])
        (use plain_object.hyps(3) in simp_all)
    note run = this [unfolded append_Nil]
    show ?thesis
      by (rule runs_Suc [OF _ run]) (use False in \<open>simp add: JObject_def skip_ws_stop closing_def loop_skips\<close>)
  qed
qed

text \<open>C27: Printing and parsing a configuration gives it back: for every indentation, \<^verbatim>\<open>parse\<close> returns on
  the output of \<^verbatim>\<open>dump\<close> and yields the same value, when the strings contain no control characters but
  newline and tab and the numbers print in a form that \<^verbatim>\<open>std::stod\<close> reads back.\<close>

theorem dump_parse_roundtrip:
  assumes "plain ops v"
  shows "\<exists>k. \<forall>fuel \<ge> k. parse ops fuel (dump ops indent 0 v) = Done v"
proof -
  have "runs (\<lambda>k. parse_value ops k (dump ops indent 0 v @ [])) (v, [])"
    by (rule dump_parses [OF assms]) (simp add: stop_def)
  then obtain k where "\<forall>j \<ge> k. parse_value ops j (dump ops indent 0 v) = Done (v, [])"
    by (auto simp: runs_def)
  then have "\<forall>j \<ge> k. parse ops j (dump ops indent 0 v) = Done v" by (simp add: parse_def)
  then show ?thesis by blast
qed

section \<open>The shape of parsed values\<close>

text \<open>A canonical value uses only the field of its type, and its members are in ascending key order,
  each key once.\<close>

inductive canonical :: "'n::zero jvalue \<Rightarrow> bool" where
  can_null: "canonical JNull"
| can_bool: "canonical (JBool b)"
| can_number: "canonical (JNumber x)"
| can_string: "canonical (JString s)"
| can_array: "(\<And>x. x \<in> set xs \<Longrightarrow> canonical x) \<Longrightarrow> canonical (JArray xs)"
| can_object: "(\<And>x. x \<in> snd ` set kvs \<Longrightarrow> canonical x) \<Longrightarrow>
     sorted_wrt (<) (map fst kvs) \<Longrightarrow> canonical (JObject kvs)"

lemma set_map_put: "snd ` set (map_put k v kvs) \<subseteq> insert v (snd ` set kvs)" "fst ` set (map_put k v kvs) = insert k (fst ` set kvs)"
  by (induction k v kvs rule: map_put.induct) auto

lemma sorted_map_put: "sorted_wrt (<) (map fst kvs) \<Longrightarrow> sorted_wrt (<) (map fst (map_put k v kvs))"
proof (induction kvs)
  case (Cons kv kvs)
  obtain k' v' where kv: "kv = (k', v')" by fastforce
  have above: "\<forall>x \<in> fst ` set kvs. k' < x" using Cons.prems kv by auto
  consider "k < k'" | "k = k'" | "k' < k" by (rule linorder_cases)
  then show ?case
  proof cases
    case 1
    then show ?thesis using Cons.prems above kv by (auto intro: less_trans)
  next
    case 2
    then show ?thesis using Cons.prems kv by simp
  next
    case 3
    then have "map_put k v (kv # kvs) = kv # map_put k v kvs" using kv by auto
    moreover have "\<forall>x \<in> fst ` set (map_put k v kvs). k' < x" using above 3 set_map_put(2) [of k v kvs] by simp
    ultimately show ?thesis using Cons kv by simp
  qed
qed simp

lemma map_of_map_put: "map_of (map_put k v kvs) = (map_of kvs)(k \<mapsto> v)"
  by (induction k v kvs rule: map_put.induct) auto

lemma parse_value_cases:
  assumes "parse_value ops (Suc k) s = Done (v, r)"
  obtains "canonical v"
  | cs where "skip_whitespace s = CHR ''['' # cs" "array_loop ops k [] cs = Done (v, r)"
  | cs where "skip_whitespace s = CHR ''{'' # cs" "object_loop ops k [] cs = Done (v, r)"
proof (cases "skip_whitespace s")
  case Nil
  then show thesis using assms that(1) by (auto intro: can_null)
next
  case (Cons c cs)
  note run = assms [unfolded parse_value.simps Cons list.case]
  consider "c \<in> {CHR ''n'', CHR ''t'', CHR ''f''}" | "c = quote_char" | "c = CHR ''[''" | "c = CHR ''{''"
    | "c = CHR ''-'' \<or> is_digit c"
    | "c \<notin> {CHR ''n'', CHR ''t'', CHR ''f'', quote_char, CHR ''['', CHR ''{'', CHR ''-''}" "\<not> is_digit c"
    by blast
  then show thesis
  proof cases
    case 1
    then show ?thesis using run by (intro that(1)) (auto intro: can_null can_bool)
  next
    case 2
    then show ?thesis using run by (intro that(1)) (auto intro: can_string split: prod.splits)
  next
    case 3
    then show ?thesis using run Cons by (intro that(2)) simp_all
  next
    case 4
    then show ?thesis using run Cons by (intro that(3)) simp_all
  next
    case 5
    have "parse_number ops (c # cs) = Done (v, r)" using run number_head(2) [OF 5] 5 by simp
    then show ?thesis by (intro that(1)) (auto simp: parse_number_def intro: can_number split: option.splits)
  next
    case 6
    then have "v = JNull" using run by simp
    then show ?thesis using can_null that(1) by simp
  qed
qed

lemma parse_canonical:
  fixes ops :: "'n::zero num_ops"
  shows "parse_value ops k s = Done (v, r) \<Longrightarrow> canonical v"
    and "array_loop ops k acc s = Done (v, r) \<Longrightarrow> (\<And>x. x \<in> set acc \<Longrightarrow> canonical x) \<Longrightarrow> canonical v"
    and "object_loop ops k oacc s = Done (v, r) \<Longrightarrow> (\<And>x. x \<in> snd ` set oacc \<Longrightarrow> canonical x) \<Longrightarrow>
      sorted_wrt (<) (map fst oacc) \<Longrightarrow> canonical v"
proof (induction k arbitrary: s v r acc oacc)
  case (Suc k)
  {
    case 1
    then show ?case by (rule parse_value_cases) (use Suc.IH(2) [of "[]"] Suc.IH(3) [of "[]"] in auto)
  next
    case 2
    show ?case
    proof (cases "skip_whitespace s = [] \<or> hd (skip_whitespace s) = CHR '']''")
      case True
      then show ?thesis using 2 by (cases "skip_whitespace s") (auto intro: can_array)
    next
      case False
      with 2(1) obtain x t where pv: "parse_value ops k (skip_whitespace s) = Done (x, t)"
        and loop: "array_loop ops k (acc @ [x]) (skip_char (CHR '','') (skip_whitespace t)) = Done (v, r)"
        by (cases "skip_whitespace s") (auto split: outcome.splits)
      from Suc.IH(1) [OF pv] 2(2) show ?thesis by (intro Suc.IH(2) [OF loop]) auto
    qed
  next
    case 3
    show ?case
    proof (cases "skip_whitespace s = [] \<or> hd (skip_whitespace s) = CHR ''}''")
      case True
      then show ?thesis using 3 by (cases "skip_whitespace s") (auto intro: can_object)
    next
      case False
      with 3(1) obtain key t x t' where
          pv: "parse_value ops k (skip_char (CHR '':'') (skip_whitespace t)) = Done (x, t')"
        and loop: "object_loop ops k (map_put key x oacc) (skip_char (CHR '','') (skip_whitespace t')) = Done (v, r)"
        by (cases "skip_whitespace s") (auto split: outcome.splits prod.splits)
      show ?thesis
      proof (rule Suc.IH(3) [OF loop])
        show "canonical y" if "y \<in> snd ` set (map_put key x oacc)" for y
          using that set_map_put(1) [of key x oacc] Suc.IH(1) [OF pv] 3(2) by blast
        show "sorted_wrt (<) (map fst (map_put key x oacc))" by (rule sorted_map_put [OF 3(3)])
      qed
    qed
  }
qed simp_all


text \<open>Reading a member after an assignment: \<^verbatim>\<open>at(key)\<close> gives the assigned value for that key; for
  every other key it gives what it gave before, and null when the value was no object before.\<close>

lemma assign_member_lookup:
  "at_member key' (assign_member key x v) =
     (if key' = key then x else if jtype_of v = TObject then at_member key' v else JNull) \<and>
   contains_member key (assign_member key x v)"
  by (auto simp: at_member_def contains_member_def assign_member_def subscript_def Let_def map_of_map_put
      split: option.splits)

section \<open>Inputs that are not handled\<close>

text \<open>A character that no branch of \<^verbatim>\<open>parse_value\<close> consumes.\<close>

definition unexpected :: "char \<Rightarrow> bool" where
  "unexpected c \<longleftrightarrow> \<not> is_space c \<and> \<not> is_digit c \<and>
     c \<notin> {CHR ''n'', CHR ''t'', CHR ''f'', quote_char, CHR ''['', CHR ''{'', CHR ''-'', CHR '']'', CHR '',''}"

lemma array_loop_stuck: "unexpected c \<Longrightarrow> array_loop ops k acc (c # cs) = No_Fuel"
proof (induction k arbitrary: acc rule: less_induct)
  case (less k)
  show ?case
  proof (cases k)
    case (Suc j)
    have ws: "skip_whitespace (c # cs) = c # cs" using less.prems by (simp add: skip_ws_stop unexpected_def)
    show ?thesis
    proof (cases j)
      case 0
      then show ?thesis using Suc ws less.prems by (simp add: unexpected_def)
    next
      case (Suc i)
      then have "parse_value ops j (c # cs) = Done (JNull, c # cs)"
        using ws less.prems by (simp add: unexpected_def)
      then show ?thesis
        using \<open>k = Suc j\<close> ws less.prems less.IH [of j] by (simp add: unexpected_def skip_char_def)
    qed
  qed simp
qed

text \<open>The parser does not return on an array whose next element starts with a character that it
  does not know, such as \<^verbatim>\<open>[x\<close>: no amount of fuel is enough, since each round of the loop appends a
  null element and consumes nothing.\<close>

lemma parse_array_hangs:
  assumes "unexpected c"
  shows "\<forall>fuel. parse ops fuel (''['' @ [c] @ cs) = No_Fuel"
proof
  fix fuel
  show "parse ops fuel (''['' @ [c] @ cs) = No_Fuel"
    by (cases fuel) (simp_all add: parse_def skip_ws_stop array_loop_stuck [OF assms])
qed

text \<open>Control characters other than newline and tab do not survive printing and parsing: a carriage
  return is printed as \<^verbatim>\<open>\r\<close> and read back as the letter \<^verbatim>\<open>r\<close>, and the character 1 is printed as
  \<^verbatim>\<open>\u0001\<close> and read back as the five letters after the backslash.\<close>

lemma control_characters_lost:
  "\<forall>fuel. parse ops (Suc fuel) (dump ops indent 0 (JString [CHR 0x0D])) = Done (JString ''r'') \<and>
     parse ops (Suc fuel) (dump ops indent 0 (JString [CHR 0x01])) = Done (JString ''u0001'')"
  by (simp add: parse_def JString_def escape_string_def escape_char_def skip_ws_stop parse_string_def
      unescape_def hex_digit_def)

section \<open>Concrete values\<close>

text \<open>Integers printed the way \<^verbatim>\<open>std::to_string\<close> prints a \<^verbatim>\<open>double\<close>, for the digits 0 to 9, and read back.\<close>

definition demo_nums :: "nat num_ops" where
  "demo_nums = \<lparr>to_string = (\<lambda>n. (''0123456789'' ! n) # ''.000000''),
     stod = (\<lambda>s. if s = ''7'' then Some 7 else None)\<rparr>"

definition demo_config :: "nat jvalue" where
  "demo_config = JObject [(''denylist'', JArray [JString ''com.example'', JBool True]), (''level'', JNumber 7)]"

lemma demo_plain: "plain demo_nums demo_config"
proof -
  have n: "num_ok demo_nums 7"
    by (simp add: num_ok_def demo_nums_def trim_number_def number_char_def is_digit_def)
  have s: "plain demo_nums (JString ''com.example'')" by (rule plain_string) (simp add: plain_char_def)
  have a: "plain demo_nums (JArray [JString ''com.example'', JBool True])"
    by (rule plain_array) (auto intro: s plain_bool)
  show ?thesis unfolding demo_config_def
  proof (rule plain_object)
    fix k :: string and x :: "nat jvalue"
    assume kx: "(k, x) \<in> set [(''denylist'', JArray [JString ''com.example'', JBool True]), (''level'', JNumber 7)]"
    then show "plain demo_nums x" using a plain_number [OF n] by auto
    show "list_all plain_char k" using kx by (auto simp: plain_char_def)
  qed (simp add: less_char_def)
qed

theorem dump_parse_roundtrip_witness:
  "\<exists>k. \<forall>fuel \<ge> k. parse demo_nums fuel (dump demo_nums 2 0 demo_config) = Done demo_config"
  by (rule dump_parse_roundtrip [OF demo_plain])


end
