(* ===== verification/Root_Policy.thy ===== *)
theory Root_Policy
  imports Kernel_Policy Json
begin

text \<open>
  The daemon side of the root policy, \<^verbatim>\<open>userspace/zygisk/daemon/root_policy.cpp\<close>: reading KernelSU's
  allow list and APatch's configuration, asking the KernelSU driver, building the cache file for the
  kernel, and answering queries.

  The state is the record of the global \<^verbatim>\<open>Context g\<close>; a \<^verbatim>\<open>std::map\<close> is an association list in
  ascending key order (\<open>map_put\<close> of theory \<open>Json\<close>).  Files, the answers of the driver, and the
  success of system calls are the parameter \<open>policy_env\<close>; \<^verbatim>\<open>YZ_IOCTL_SET_POLICY_CACHE\<close> is the
  kernel of theory \<open>Kernel_Policy\<close>.  Log messages are left out.
\<close>

section \<open>Numbers and fields\<close>

text \<open>\<^verbatim>\<open>strtoull\<close> in base 10: leading white space, an optional sign, digits; the value of a negative
  number is taken modulo \<open>2 ^ 64\<close>, \<open>None\<close> is \<^verbatim>\<open>ERANGE\<close>.  The result is the value and the
  characters after the number, or the whole text when there is no digit.\<close>

definition digit_value :: "char \<Rightarrow> nat" where
  "digit_value c = of_char c - 48"

definition digits_value :: "string \<Rightarrow> nat" where
  "digits_value ds = foldl (\<lambda>n c. 10 * n + digit_value c) 0 ds"

text \<open>The sign, the digits, and what follows them.\<close>

definition scan_decimal :: "string \<Rightarrow> bool \<times> string \<times> string" where
  "scan_decimal s =
     (let t = dropWhile is_space s;
          negative = (t \<noteq> [] \<and> hd t = CHR ''-'');
          u = (if t \<noteq> [] \<and> (hd t = CHR ''-'' \<or> hd t = CHR ''+'') then tl t else t)
      in (negative, takeWhile is_digit u, dropWhile is_digit u))"

definition strtoull10 :: "string \<Rightarrow> nat option \<times> string" where
  "strtoull10 s =
     (case scan_decimal s of (negative, ds, rest) \<Rightarrow>
        let n = digits_value ds
        in if ds = [] then (Some 0, s)
           else if n \<ge> 2 ^ 64 then (None, rest)
           else (Some (if negative then (2 ^ 64 - n) mod 2 ^ 64 else n), rest))"

text \<open>\<^verbatim>\<open>strtol\<close> in base 10 on a 64-bit system: the value is clamped to the range of \<^verbatim>\<open>long\<close>.\<close>

definition strtol10 :: "string \<Rightarrow> int \<times> string" where
  "strtol10 s =
     (case scan_decimal s of (negative, ds, rest) \<Rightarrow>
        let n = (if negative then - int (digits_value ds) else int (digits_value ds))
        in if ds = [] then (0, s)
           else (max (- (2 ^ 63)) (min n (2 ^ 63 - 1)), rest))"

definition parse_u32 :: "string \<Rightarrow> u32 option" where
  "parse_u32 text =
     (if text = [] then None
      else case strtoull10 (c_str text) of
        (None, rest) \<Rightarrow> None
      | (Some parsed, rest) \<Rightarrow>
          if rest = c_str text \<or> rest \<noteq> [] \<or> parsed > 2 ^ 32 - 1 then None else Some (of_nat parsed))"

text \<open>The loop of \<^verbatim>\<open>split_csv\<close>; \<open>field\<close> is the field read so far.\<close>

fun csv_loop :: "bool \<Rightarrow> string \<Rightarrow> string list \<Rightarrow> string \<Rightarrow> string list" where
  "csv_loop quoted field flds [] = flds @ [field]"
| "csv_loop quoted field flds (c # cs) =
     (if c = quote_char
      then if quoted \<and> cs \<noteq> [] \<and> hd cs = quote_char then csv_loop quoted (field @ [quote_char]) flds (tl cs)
           else csv_loop (\<not> quoted) field flds cs
      else if c = CHR '','' \<and> \<not> quoted then csv_loop quoted [] (flds @ [field]) cs
      else csv_loop quoted (field @ [c]) flds cs)"

definition split_csv :: "string \<Rightarrow> string list" where
  "split_csv line = csv_loop False [] [] line"

section \<open>The KernelSU client\<close>

datatype ksu_method = NoMethod | Ioctl | Prctl

record ksu_client =
  kc_method :: ksu_method
  kc_fd :: int

text \<open>What the process and the driver answer.  The directory \<^verbatim>\<open>/proc/self/fd\<close> is a list of names with
  the targets of the links.\<close>

record ksu_driver =
  kd_fd_dir :: "(string \<times> string option) list option"
  kd_reboot_fd :: int
  kd_info_version :: "int \<Rightarrow> u32 option"
  kd_prctl_version :: int
  kd_ioctl_umount :: "int \<Rightarrow> u32 \<Rightarrow> u8 option"
  kd_prctl_umount :: "u32 \<Rightarrow> bool \<times> u32"
  kd_ioctl_manager :: "int \<Rightarrow> u32 option"
  kd_prctl_manager :: "u32 \<times> u32"
  kd_stat_uid :: "string \<Rightarrow> u32 option"

abbreviation (input) KSU_OPTION :: u32 where "KSU_OPTION \<equiv> 0xdeadbeef"

fun contains_text :: "string \<Rightarrow> string \<Rightarrow> bool" where
  "contains_text needle [] \<longleftrightarrow> needle = []"
| "contains_text needle (c # cs) \<longleftrightarrow> take (length needle) (c # cs) = needle \<or> contains_text needle cs"

fun scan_entries :: "(string \<times> string option) list \<Rightarrow> int" where
  "scan_entries [] = - 1"
| "scan_entries ((name, target) # es) =
     (if name \<noteq> [] \<and> hd name = CHR ''.'' then scan_entries es
      else case strtol10 name of (number, rest) \<Rightarrow>
        if rest \<noteq> [] \<or> number < 0 \<or> number > 2 ^ 31 - 1 then scan_entries es
        else case target of
            None \<Rightarrow> scan_entries es
          | Some t \<Rightarrow>
              if t = [] then scan_entries es
              else if contains_text ''[ksu_driver]'' (c_str (take 127 t)) then number
              else scan_entries es)"

definition scan_driver_fd :: "ksu_driver \<Rightarrow> int" where
  "scan_driver_fd d = (case kd_fd_dir d of None \<Rightarrow> - 1 | Some es \<Rightarrow> scan_entries es)"

definition ksu_initialize :: "ksu_driver \<Rightarrow> ksu_client \<Rightarrow> bool \<times> ksu_client" where
  "ksu_initialize d c =
     (if kc_method c \<noteq> NoMethod then (True, c)
      else
        let scanned = scan_driver_fd d;
            fd = (if scanned < 0 then kd_reboot_fd d else scanned);
            ioctl_ok = (fd \<ge> 0 \<and> (case kd_info_version d fd of Some v \<Rightarrow> v \<noteq> 0 | None \<Rightarrow> False))
        in if ioctl_ok then (True, c\<lparr>kc_fd := fd, kc_method := Ioctl\<rparr>)
           else if kd_prctl_version d > 0 then (True, c\<lparr>kc_method := Prctl\<rparr>)
           else (False, c))"

definition ksu_query :: "ksu_driver \<Rightarrow> u32 \<Rightarrow> ksu_client \<Rightarrow> bool option \<times> ksu_client" where
  "ksu_query d uid c =
     (case ksu_initialize d c of (ok, c1) \<Rightarrow>
        if \<not> ok then (None, c1)
        else if kc_method c1 = Ioctl
        then (case kd_ioctl_umount d (kc_fd c1) uid of None \<Rightarrow> (None, c1) | Some b \<Rightarrow> (Some (b \<noteq> 0), c1))
        else (case kd_prctl_umount d uid of (decision, result) \<Rightarrow>
                if result \<noteq> KSU_OPTION then (None, c1) else (Some decision, c1)))"

fun first_stat :: "ksu_driver \<Rightarrow> string list \<Rightarrow> u32 option" where
  "first_stat d [] = None"
| "first_stat d (p # ps) = (case kd_stat_uid d p of Some uid \<Rightarrow> Some (uid mod 100000) | None \<Rightarrow> first_stat d ps)"

definition manager_paths :: "string list" where
  "manager_paths = [''/data/user_de/0/me.weishu.kernelsu'', ''/data/user_de/0/com.rifsxd.ksunext'',
     ''/data/user_de/0/com.anatdx.yukisu'']"

definition ksu_manager_appid :: "ksu_driver \<Rightarrow> ksu_client \<Rightarrow> u32 option \<times> ksu_client" where
  "ksu_manager_appid d c =
     (case ksu_initialize d c of (ok, c1) \<Rightarrow>
        if \<not> ok then (None, c1)
        else if kc_method c1 = Ioctl
        then (case kd_ioctl_manager d (kc_fd c1) of
                Some uid \<Rightarrow> (Some (uid mod 100000), c1)
              | None \<Rightarrow> (first_stat d manager_paths, c1))
        else (case kd_prctl_manager d of (uid, result) \<Rightarrow>
                if result = KSU_OPTION then (Some (uid mod 100000), c1)
                else (first_stat d manager_paths, c1)))"

section \<open>The context and the files\<close>

text \<open>The identity of a policy file; \<^verbatim>\<open>valid\<close> is false until the first successful refresh.\<close>

record source_stamp =
  st_dev :: u64
  st_ino :: u64
  st_size :: int
  st_sec :: int
  st_nsec :: int
  st_valid :: bool

definition same_stamp :: "source_stamp \<Rightarrow> source_stamp \<Rightarrow> bool" where
  "same_stamp a b \<longleftrightarrow> st_valid a \<and> st_valid b \<and> st_dev a = st_dev b \<and> st_ino a = st_ino b \<and>
     st_size a = st_size b \<and> st_sec a = st_sec b \<and> st_nsec a = st_nsec b"

text \<open>The result of \<^verbatim>\<open>stat\<close> is a stamp without the flag.\<close>

definition read_stamp :: "source_stamp option \<Rightarrow> source_stamp option" where
  "read_stamp st = map_option (\<lambda>s. s\<lparr>st_valid := True\<rparr>) st"

text \<open>An open file as \<^verbatim>\<open>read_all\<close> sees it: the size that \<^verbatim>\<open>fstat\<close> gives, and the results of the
  successive calls of \<^verbatim>\<open>read\<close>.  An empty chunk, or no further result, is end of file.\<close>

datatype read_result = Chunk "u8 list" | Interrupted | Read_Error

record open_file =
  of_size :: "int option"
  of_reads :: "read_result list"

fun read_loop :: "nat \<Rightarrow> u8 list \<Rightarrow> read_result list \<Rightarrow> u8 list option" where
  "read_loop out_size got [] = (if length got < out_size then None else Some got)"
| "read_loop out_size got (r # rs) =
     (if length got < out_size
      then (case r of
              Interrupted \<Rightarrow> read_loop out_size got rs
            | Read_Error \<Rightarrow> None
            | Chunk bs \<Rightarrow>
                let bs' = take (out_size - length got) bs
                in if bs' = [] then None else read_loop out_size (got @ bs') rs)
      else Some got)"

definition read_all :: "open_file option \<Rightarrow> u8 list option" where
  "read_all f =
     (case f of
        None \<Rightarrow> None
      | Some h \<Rightarrow> (case of_size h of
            None \<Rightarrow> None
          | Some n \<Rightarrow> if n < 0 \<or> n > 16 * 1024 * 1024 then None else read_loop (nat n) [] (of_reads h)))"

record context_g =
  g_enabled :: bool
  g_owner :: u32
  g_manager_appid :: u32
  g_generation :: u32
  g_control_fd :: int
  g_complete :: bool
  g_default_should_umount :: bool
  g_decisions :: "(u32 \<times> bool) list"
  g_stamp :: source_stamp
  g_ksu :: ksu_client

record policy_env =
  en_driver :: ksu_driver
  en_allowlist :: "open_file option"
  en_apatch_config :: "string option"
  en_ksu_stat :: "source_stamp option"
  en_apatch_stat :: "source_stamp option"
  en_memfd :: int
  en_write_ok :: bool
  en_seal_ok :: bool
  en_kvzalloc_ok :: bool

text \<open>The records of KernelSU's allow list: the key at offset 4 must contain a zero byte, the uid is at
  offset 260 and must not be negative.  A \<^verbatim>\<open>std::set\<close> is an ascending list; the uids read before a bad
  record stay in it.\<close>

definition record_ok :: "u8 list \<Rightarrow> bool" where
  "record_ok rec \<longleftrightarrow> 0 \<in> set (take 256 (drop 4 rec)) \<and> \<not> bit (get32 rec 260) 31"

fun set_insert :: "u32 \<Rightarrow> u32 list \<Rightarrow> u32 list" where
  "set_insert x [] = [x]"
| "set_insert x (y # ys) = (if x < y then x # y # ys else if x = y then y # ys else y # set_insert x ys)"

fun ksu_records :: "nat \<Rightarrow> u32 list \<Rightarrow> u8 list \<Rightarrow> nat \<Rightarrow> bool \<times> u32 list" where
  "ksu_records record_size uids bs 0 = (True, uids)"
| "ksu_records record_size uids bs (Suc n) =
     (if record_ok bs
      then ksu_records record_size (set_insert (get32 bs 260) uids) (drop record_size bs) n
      else (False, uids))"

definition parse_ksu_uids :: "policy_env \<Rightarrow> bool \<times> u32 list" where
  "parse_ksu_uids env =
     (case read_all (en_allowlist env) of
        None \<Rightarrow> (False, [])
      | Some bs \<Rightarrow>
          if length bs < 8 then (False, [])
          else
            let magic = get32 bs 0; version = get32 bs 4
            in if magic \<noteq> 0x7f4b5355 \<or> version < 2 \<or> version > 4 then (False, [])
               else
                 let record_size = (if version \<ge> 4 then 784 else 776)
                 in if (length bs - 8) mod record_size \<noteq> 0 \<or> (length bs - 8) div record_size > 8192 then (False, [])
                    else ksu_records record_size [] (drop 8 bs) ((length bs - 8) div record_size))"

text \<open>\<^verbatim>\<open>std::getline\<close> splits at newlines; a last line without newline counts.\<close>

fun file_lines :: "string \<Rightarrow> string list" where
  "file_lines [] = []"
| "file_lines (c # cs) =
     (if c = CHR 0x0A then [] # file_lines cs
      else case file_lines cs of
        [] \<Rightarrow> [[c]]
      | l # ls \<Rightarrow> (c # l) # ls)"

text \<open>One line of APatch's configuration: \<open>Some (uid, exclude)\<close> when it is well formed.\<close>

definition apatch_line :: "string \<Rightarrow> (u32 \<times> bool) option" where
  "apatch_line line =
     (let fs = split_csv line
      in if length fs < 4 then None
         else case parse_u32 (fs ! 1) of
           None \<Rightarrow> None
         | Some exclude \<Rightarrow> (case parse_u32 (fs ! 3) of
               None \<Rightarrow> None
             | Some uid \<Rightarrow> Some (uid, exclude \<noteq> 0)))"

definition add_decision :: "u32 \<Rightarrow> bool \<Rightarrow> (u32 \<times> bool) list \<Rightarrow> (u32 \<times> bool) list" where
  "add_decision uid b ds =
     map_put uid ((case map_of ds uid of Some d \<Rightarrow> d | None \<Rightarrow> False) \<or> b) ds"

fun apatch_loop :: "bool \<Rightarrow> nat \<Rightarrow> (u32 \<times> bool) list \<Rightarrow> string list \<Rightarrow> bool \<times> (u32 \<times> bool) list" where
  "apatch_loop valid count ds [] = (valid, ds)"
| "apatch_loop valid count ds (line # lines) =
     (if line = [] then apatch_loop valid count ds lines
      else case apatch_line line of
        None \<Rightarrow> apatch_loop False count ds lines
      | Some (uid, b) \<Rightarrow>
          if count + 1 > 8192 then (False, add_decision uid b ds)
          else apatch_loop valid (count + 1) (add_decision uid b ds) lines)"

definition parse_apatch :: "policy_env \<Rightarrow> bool \<times> (u32 \<times> bool) list" where
  "parse_apatch env =
     (case en_apatch_config env of
        None \<Rightarrow> (False, [])
      | Some text \<Rightarrow> (case file_lines text of
            [] \<Rightarrow> (False, [])
          | header # lines \<Rightarrow> apatch_loop True 0 [] lines))"

section \<open>Handing the cache to the kernel\<close>

definition header_bytes :: "context_g \<Rightarrow> u8 list" where
  "header_bytes g =
     le32 CACHE_MAGIC @ le16 1 @ le16 32 @ le16 8 @ le16 (if g_complete g then 1 else 0) @
     le32 (g_owner g) @ le32 (g_generation g) @ le32 (of_nat (length (g_decisions g))) @
     le32 (if g_default_should_umount g then 1 else 0) @ le32 (g_manager_appid g)"

definition entry_bytes :: "u32 \<times> bool \<Rightarrow> u8 list" where
  "entry_bytes e = (case e of (uid, decision) \<Rightarrow> le32 uid @ le32 (if decision then 1 else 0))"

definition cache_bytes :: "context_g \<Rightarrow> u8 list" where
  "cache_bytes g = header_bytes g @ concat (map entry_bytes (g_decisions g))"

text \<open>The generation is counted up before the header is written, whether or not the rest succeeds.\<close>

definition push_cache :: "policy_env \<Rightarrow> context_g \<Rightarrow> kernel_state \<Rightarrow> bool \<times> context_g \<times> kernel_state" where
  "push_cache env g k =
     (if g_control_fd g < 0 \<or> length (g_decisions g) > 8192 then (False, g, k)
      else if en_memfd env < 0 then (False, g, k)
      else
        let g1 = g\<lparr>g_generation := g_generation g + 1\<rparr>
        in if \<not> en_write_ok env \<or> \<not> en_seal_ok env then (False, g1, k)
           else case yz_ioctl_set_policy_cache (en_kvzalloc_ok env) (en_memfd env) 0 (Some (cache_bytes g1)) k of
             (r, k1) \<Rightarrow> (r = None, g1, k1))"

section \<open>Refreshing and answering\<close>

text \<open>The loop over the uids: decisions so far, whether all queries worked, the default decision.\<close>

fun query_all :: "ksu_driver \<Rightarrow> (u32 \<times> bool) list \<Rightarrow> bool \<Rightarrow> bool \<Rightarrow> u32 list \<Rightarrow> ksu_client \<Rightarrow>
    ((u32 \<times> bool) list \<times> bool \<times> bool) \<times> ksu_client" where
  "query_all d nxt all_queries dflt [] c = ((nxt, all_queries, dflt), c)"
| "query_all d nxt all_queries dflt (uid # uids) c =
     (case ksu_query d uid c of
        (None, c1) \<Rightarrow> query_all d nxt False dflt uids c1
      | (Some decision, c1) \<Rightarrow>
          query_all d (map_put uid decision nxt) all_queries (if uid = 9999 then decision else dflt) uids c1)"

definition refresh_ksu :: "policy_env \<Rightarrow> context_g \<Rightarrow> kernel_state \<Rightarrow> bool \<times> context_g \<times> kernel_state" where
  "refresh_ksu env g k =
     (case ksu_initialize (en_driver env) (g_ksu g) of (ok, c0) \<Rightarrow>
        if \<not> ok then (False, g\<lparr>g_ksu := c0\<rparr>, k)
        else
          let (parsed, listed) = parse_ksu_uids env;
              uids = set_insert 1053 (set_insert 9999 listed)
          in case query_all (en_driver env) [] True False uids c0 of ((nxt, all_queries, dflt), c1) \<Rightarrow>
             case ksu_manager_appid (en_driver env) c1 of (manager, c2) \<Rightarrow>
               push_cache env
                 (g\<lparr>g_decisions := nxt,
                    g_manager_appid := (case manager of Some a \<Rightarrow> a | None \<Rightarrow> REFRESH_ALL),
                    g_default_should_umount := dflt,
                    g_complete := (parsed \<and> all_queries \<and> manager \<noteq> None \<and> map_of nxt 9999 \<noteq> None),
                    g_ksu := c2\<rparr>) k)"

definition refresh_apatch :: "policy_env \<Rightarrow> context_g \<Rightarrow> kernel_state \<Rightarrow> bool \<times> context_g \<times> kernel_state" where
  "refresh_apatch env g k =
     (case parse_apatch env of (parsed, nxt) \<Rightarrow>
        push_cache env
          (g\<lparr>g_decisions := nxt, g_manager_appid := REFRESH_ALL, g_default_should_umount := False,
             g_complete := parsed\<rparr>) k)"

text \<open>The stamp of the owner's policy file, if it has one.\<close>

definition policy_stamp :: "policy_env \<Rightarrow> context_g \<Rightarrow> source_stamp option" where
  "policy_stamp env g =
     (if g_owner g = OWNER_KERNELSU then read_stamp (en_ksu_stat env)
      else if g_owner g = OWNER_KERNELPATCH then read_stamp (en_apatch_stat env)
      else None)"

definition refresh :: "policy_env \<Rightarrow> bool \<Rightarrow> context_g \<Rightarrow> kernel_state \<Rightarrow> bool \<times> context_g \<times> kernel_state" where
  "refresh env force g k =
     (if \<not> g_enabled g then (True, g, k)
      else
        let current = policy_stamp env g
        in if \<not> force \<and> (case current of Some c \<Rightarrow> same_stamp c (g_stamp g) | None \<Rightarrow> False) then (True, g, k)
           else
             case (if g_owner g = OWNER_KERNELSU then refresh_ksu env g k
                   else if g_owner g = OWNER_KERNELPATCH then refresh_apatch env g k
                   else (False, g, k)) of (ok, g1, k1) \<Rightarrow>
               (ok, if ok then case current of Some c \<Rightarrow> g1\<lparr>g_stamp := c\<rparr> | None \<Rightarrow> g1 else g1, k1))"

definition policy_setup :: "policy_env \<Rightarrow> int \<Rightarrow> u32 \<Rightarrow> u32 \<Rightarrow> context_g \<Rightarrow> kernel_state \<Rightarrow>
    bool \<times> context_g \<times> kernel_state" where
  "policy_setup env control_fd owner flags g k =
     (let g1 = g\<lparr>g_control_fd := control_fd, g_owner := owner, g_enabled := (flags AND 4 \<noteq> 0)\<rparr>
      in if \<not> g_enabled g1 then (True, g1, k)
         else if g_owner g1 \<noteq> OWNER_KERNELSU \<and> g_owner g1 \<noteq> OWNER_KERNELPATCH then (False, g1, k)
         else refresh env True g1 k)"

definition query_uid :: "policy_env \<Rightarrow> u32 \<Rightarrow> context_g \<Rightarrow> kernel_state \<Rightarrow>
    bool option \<times> context_g \<times> kernel_state" where
  "query_uid env uid g k =
     (if \<not> g_enabled g then (None, g, k)
      else case refresh env False g k of (_, g1, k1) \<Rightarrow>
        if g_owner g1 = OWNER_KERNELSU
        then (case ksu_query (en_driver env) uid (g_ksu g1) of
                (None, c) \<Rightarrow> (None, g1\<lparr>g_ksu := c\<rparr>, k1)
              | (Some decision, c) \<Rightarrow>
                  (case push_cache env (g1\<lparr>g_ksu := c, g_decisions := map_put uid decision (g_decisions g1)\<rparr>) k1 of
                     (_, g2, k2) \<Rightarrow> (Some decision, g2, k2)))
        else if g_owner g1 = OWNER_KERNELPATCH
        then (case map_of (g_decisions g1) uid of
                Some d \<Rightarrow> (Some d, g1, k1)
              | None \<Rightarrow> if g_complete g1 then (Some (g_default_should_umount g1), g1, k1) else (None, g1, k1))
        else (None, g1, k1))"

definition handle_refresh_request :: "policy_env \<Rightarrow> u32 \<Rightarrow> context_g \<Rightarrow> kernel_state \<Rightarrow> context_g \<times> kernel_state" where
  "handle_refresh_request env uid g k =
     (if \<not> g_enabled g then (g, k)
      else if uid = REFRESH_ALL then snd (refresh env True g k)
      else snd (query_uid env uid g k))"

definition source_name :: "context_g \<Rightarrow> string" where
  "source_name g =
     (if \<not> g_enabled g then ''kernel''
      else if g_owner g = OWNER_KERNELSU then ''userspace-ksu-api''
      else if g_owner g = OWNER_KERNELPATCH then ''userspace-apatch-config''
      else ''unavailable'')"

end
