(* ===== verification/Policy_Sync.thy ===== *)
theory Policy_Sync
  imports Root_Policy
begin

text \<open>
  The daemon and the kernel together: the file that \<open>push_cache\<close> writes is read back by the kernel's
  checks, every context the daemon can reach is one the kernel accepts, and the kernel then answers
  what the daemon knows.
\<close>

section \<open>The cache file\<close>

text \<open>The kernel's view of a context.\<close>

definition entry_of :: "u32 \<times> bool \<Rightarrow> policy_entry" where
  "entry_of e = \<lparr>pe_uid = fst e, pe_should_umount = (if snd e then 1 else 0)\<rparr>"

definition cache_of :: "context_g \<Rightarrow> policy_cache" where
  "cache_of g = \<lparr>pc_owner = g_owner g, pc_generation = g_generation g,
     pc_count = of_nat (length (g_decisions g)), pc_manager_appid = g_manager_appid g,
     pc_complete = g_complete g, pc_default_should_umount = g_default_should_umount g,
     pc_entries = map entry_of (g_decisions g)\<rparr>"

definition context_ok :: "context_g \<Rightarrow> bool" where
  "context_ok g \<longleftrightarrow>
     sorted_wrt (<) (map fst (g_decisions g)) \<and>
     (g_manager_appid g = REFRESH_ALL \<or> g_manager_appid g < 100000)"

lemma length_entry_bytes [simp]: "length (entry_bytes e) = 8"
  by (simp add: entry_bytes_def split: prod.split)

lemma length_header_bytes [simp]: "length (header_bytes g) = 32"
  by (simp add: header_bytes_def)

lemma length_concat_entries [simp]: "length (concat (map entry_bytes ds)) = 8 * length ds"
  by (induction ds) auto

lemma length_cache_bytes [simp]: "length (cache_bytes g) = 32 + 8 * length (g_decisions g)"
  by (simp add: cache_bytes_def)

lemma read_header_bytes:
  "read_header (header_bytes g @ rest) =
     \<lparr>ph_magic = CACHE_MAGIC, ph_version = 1, ph_header_size = 32, ph_entry_size = 8,
      ph_flags = (if g_complete g then 1 else 0), ph_owner = g_owner g, ph_generation = g_generation g,
      ph_count = of_nat (length (g_decisions g)),
      ph_default_should_umount = (if g_default_should_umount g then 1 else 0),
      ph_manager_appid = g_manager_appid g\<rparr>"
  by (simp add: read_header_def header_bytes_def get16_def get32_def)

lemma drop_entries: "drop (8 * i) (concat (map entry_bytes ds)) = concat (map entry_bytes (drop i ds))"
proof (induction ds arbitrary: i)
  case (Cons d ds)
  then show ?case by (cases i) auto
qed simp

lemma get32_drop: "get32 bs (n + m) = get32 (drop n bs) m"
  by (simp add: get32_def add.commute)

lemma read_entry_bytes:
  assumes "i < length (g_decisions g)"
  shows "read_entry (cache_bytes g) i = entry_of (g_decisions g ! i)"
proof -
  obtain uid d where e: "g_decisions g ! i = (uid, d)" by fastforce
  have "drop (32 + 8 * i) (cache_bytes g) = concat (map entry_bytes (drop i (g_decisions g)))"
    by (simp add: cache_bytes_def drop_entries)
  also have "\<dots> = entry_bytes (uid, d) @ concat (map entry_bytes (drop (Suc i) (g_decisions g)))"
    using Cons_nth_drop_Suc [OF assms] e by (metis concat.simps(2) list.simps(9))
  finally have at: "drop (32 + 8 * i) (cache_bytes g) =
      le32 uid @ le32 (if d then 1 else 0) @ concat (map entry_bytes (drop (Suc i) (g_decisions g)))"
    by (simp add: entry_bytes_def)
  have "get32 (cache_bytes g) (32 + 8 * i) = uid"
    using get32_drop [of "cache_bytes g" "32 + 8 * i" 0] by (simp only: at) (simp add: get32_def)
  moreover have "get32 (cache_bytes g) (36 + 8 * i) = (if d then 1 else 0)"
    using get32_drop [of "cache_bytes g" "32 + 8 * i" 4] by (simp only: at) (simp add: get32_def)
  ultimately show ?thesis by (simp add: read_entry_def e entry_of_def)
qed

lemma read_entries: "map (read_entry (cache_bytes g)) [0..<length (g_decisions g)] = map entry_of (g_decisions g)"
  by (rule nth_equalityI) (simp_all add: read_entry_bytes)

lemma entries_of_ok: "sorted_wrt (<) (map fst ds) \<Longrightarrow> entries_ok (map entry_of ds)"
  by (simp add: entries_ok_iff ascending_def entry_of_def comp_def list_all_iff)

text \<open>What the daemon writes passes the kernel's checks and is read back unchanged.\<close>

lemma validate_cache_bytes:
  assumes "context_ok g" and "length (g_decisions g) \<le> 8192" and "k_policy_fallback k" and "k_owner k = g_owner g"
  shows "validate_policy_cache True k (cache_bytes g) = Inr (cache_of g)"
proof -
  have n: "unat (of_nat (length (g_decisions g)) :: u32) = length (g_decisions g)"
    using assms(2) by (intro unat_of_nat_len) simp
  have h: "read_header (cache_bytes g) = \<lparr>ph_magic = CACHE_MAGIC, ph_version = 1, ph_header_size = 32, ph_entry_size = 8,
      ph_flags = (if g_complete g then 1 else 0), ph_owner = g_owner g, ph_generation = g_generation g,
      ph_count = of_nat (length (g_decisions g)),
      ph_default_should_umount = (if g_default_should_umount g then 1 else 0),
      ph_manager_appid = g_manager_appid g\<rparr>"
    unfolding cache_bytes_def by (rule read_header_bytes)
  have "\<not> header_bad (k_owner k) (read_header (cache_bytes g))"
    using assms n by (auto simp: h header_bad_def context_ok_def word_less_nat_alt not_le)
  then show ?thesis
    using assms(1,3) n
    by (simp add: validate_policy_cache_def Let_def h read_entries entries_of_ok context_ok_def cache_of_def)
qed
section \<open>Handing over\<close>

text \<open>The system calls of a push succeed.\<close>

definition calls_work :: "policy_env \<Rightarrow> context_g \<Rightarrow> bool" where
  "calls_work env g \<longleftrightarrow> g_control_fd g \<ge> 0 \<and> en_memfd env \<ge> 0 \<and> en_write_ok env \<and> en_seal_ok env \<and> en_kvzalloc_ok env"

definition kernel_wants :: "context_g \<Rightarrow> kernel_state \<Rightarrow> bool" where
  "kernel_wants g k \<longleftrightarrow> k_policy_fallback k \<and> k_owner k = g_owner g"

definition next_generation :: "context_g \<Rightarrow> context_g" where
  "next_generation g = g\<lparr>g_generation := g_generation g + 1\<rparr>"

lemma next_generation_keeps [simp]:
  "context_ok (next_generation g) = context_ok g"
  "g_decisions (next_generation g) = g_decisions g" "g_owner (next_generation g) = g_owner g"
  "g_enabled (next_generation g) = g_enabled g" "g_control_fd (next_generation g) = g_control_fd g"
  "g_manager_appid (next_generation g) = g_manager_appid g" "g_complete (next_generation g) = g_complete g"
  "g_default_should_umount (next_generation g) = g_default_should_umount g" "g_ksu (next_generation g) = g_ksu g"
  by (simp_all add: next_generation_def context_ok_def)

lemma validate_needs:
  assumes "validate_policy_cache alloc_ok k (cache_bytes g) = Inr c"
  shows "alloc_ok" and "kernel_wants g k"
proof -
  have h: "ph_owner (read_header (cache_bytes g)) = g_owner g" by (simp add: cache_bytes_def read_header_bytes)
  show "alloc_ok" "kernel_wants g k"
    using assms by (auto simp: validate_policy_cache_def Let_def header_bad_def kernel_wants_def h split: if_splits)
qed

lemma push_cache_cases:
  assumes "context_ok g"
  shows "calls_work env g \<and> length (g_decisions g) \<le> 8192 \<and> kernel_wants g k \<Longrightarrow>
      push_cache env g k = (True, next_generation g, k\<lparr>k_cache := Some (cache_of (next_generation g))\<rparr>)"
    and "\<not> (calls_work env g \<and> length (g_decisions g) \<le> 8192 \<and> kernel_wants g k) \<Longrightarrow>
      \<exists>g'. push_cache env g k = (False, g', k) \<and> (g' = g \<or> g' = next_generation g)"
proof -
  assume a: "calls_work env g \<and> length (g_decisions g) \<le> 8192 \<and> kernel_wants g k"
  then have "validate_policy_cache True k (cache_bytes (next_generation g)) = Inr (cache_of (next_generation g))"
    using assms by (intro validate_cache_bytes) (simp_all add: kernel_wants_def)
  then show "push_cache env g k = (True, next_generation g, k\<lparr>k_cache := Some (cache_of (next_generation g))\<rparr>)"
    using a by (simp add: push_cache_def calls_work_def yz_ioctl_set_policy_cache_def yz_host_install_policy_cache_def
        commit_policy_cache_def kernel_wants_def Let_def cache_of_def flip: next_generation_def)
next
  assume a: "\<not> (calls_work env g \<and> length (g_decisions g) \<le> 8192 \<and> kernel_wants g k)"
  show "\<exists>g'. push_cache env g k = (False, g', k) \<and> (g' = g \<or> g' = next_generation g)"
  proof (cases "g_control_fd g < 0 \<or> length (g_decisions g) > 8192 \<or> en_memfd env < 0 \<or> \<not> en_write_ok env \<or> \<not> en_seal_ok env")
    case True
    then show ?thesis by (auto simp: push_cache_def Let_def next_generation_def)
  next
    case False
    have "\<not> (en_kvzalloc_ok env \<and> kernel_wants g k)" using a False by (auto simp: calls_work_def not_less)
    then obtain e where "validate_policy_cache (en_kvzalloc_ok env) k (cache_bytes (next_generation g)) = Inl e"
      using validate_needs [of "en_kvzalloc_ok env" k "next_generation g"]
      by (cases "validate_policy_cache (en_kvzalloc_ok env) k (cache_bytes (next_generation g))")
         (auto simp: kernel_wants_def)
    then show ?thesis
      using False by (simp add: push_cache_def yz_ioctl_set_policy_cache_def yz_host_install_policy_cache_def Let_def
          flip: next_generation_def)
  qed
qed

lemma push_cacheD:
  assumes "push_cache env g k = (ok, g', k')" and "context_ok g"
  shows "g' = g \<or> g' = next_generation g"
    and "k' = (if ok then k\<lparr>k_cache := Some (cache_of (next_generation g))\<rparr> else k)"
    and "ok \<longleftrightarrow> calls_work env g \<and> length (g_decisions g) \<le> 8192 \<and> kernel_wants g k"
  using push_cache_cases [OF assms(2), of env k] assms(1) by auto

text \<open>What the daemon knows about a uid.\<close>

definition policy_answer :: "context_g \<Rightarrow> u32 \<Rightarrow> bool option" where
  "policy_answer g uid =
     (if g_manager_appid g \<noteq> REFRESH_ALL \<and> uid mod 100000 = g_manager_appid g then Some False
      else case map_of (g_decisions g) uid of
        Some d \<Rightarrow> Some d
      | None \<Rightarrow> if g_complete g then Some (g_default_should_umount g) else None)"

lemma decision_of_entries: "decision_of (map entry_of ds) uid = map_of ds uid"
  by (induction ds) (auto simp: decision_of_def entry_of_def)

lemma cache_decision_of [simp]: "cache_decision (cache_of g) uid = policy_answer g uid"
  by (simp add: cache_decision_def policy_answer_def cache_of_def decision_of_entries cong: option.case_cong)

lemma cache_of_wf:
  assumes "context_ok g" and "length (g_decisions g) \<le> 8192"
  shows "cache_wf (cache_of g)"
proof -
  have n: "unat (of_nat (length (g_decisions g)) :: u32) = length (g_decisions g)"
    using assms(2) by (intro unat_of_nat_len) simp
  show ?thesis
    using assms n by (simp add: cache_wf_def cache_of_def context_ok_def ascending_def entry_of_def comp_def)
qed

text \<open>The kernel asks the cache when the detected implementation has no callable policy.\<close>

definition no_callable :: "kernel_state \<Rightarrow> bool" where
  "no_callable k \<longleftrightarrow> k_policy_allowed k \<and>
     (k_owner k = OWNER_KERNELSU \<and> k_ksu_uid_should_umount k = None \<or>
      k_owner k = OWNER_KERNELPATCH \<and> k_ap_get_mod_exclude k = None)"

definition kernel_answer :: "bool option \<Rightarrow> errno + bool" where
  "kernel_answer d = (case d of Some b \<Rightarrow> Inr b | None \<Rightarrow> Inl EAGAIN)"

lemma umount_from_cache:
  assumes "no_callable k" and "k_cache k = Some (cache_of g)" and "context_ok g" and "length (g_decisions g) \<le> 8192"
    and "uid \<noteq> 0"
  shows "yz_host_uid_should_umount uid k = kernel_answer (policy_answer g uid)"
proof -
  have "yz_policy_cache_lookup uid k = kernel_answer (policy_answer g uid)"
    using lookup_decision [OF assms(2) cache_of_wf [OF assms(3,4)], of uid] by (simp add: kernel_answer_def)
  then show ?thesis using assms(1,5) by (auto simp: yz_host_uid_should_umount_def no_callable_def)
qed

lemma policy_answer_next [simp]: "policy_answer (next_generation g) uid = policy_answer g uid"
  by (simp add: policy_answer_def split: option.split)

lemma push_cache_answers:
  assumes "push_cache env g k = (True, g', k')" and "context_ok g" and "no_callable k" and "uid \<noteq> 0"
  shows "yz_host_uid_should_umount uid k' = kernel_answer (policy_answer g uid)"
proof -
  note d = push_cacheD [OF assms(1,2)]
  have "yz_host_uid_should_umount uid k' = kernel_answer (policy_answer (next_generation g) uid)"
    using assms d by (intro umount_from_cache) (simp_all add: no_callable_def)
  then show ?thesis by simp
qed

section \<open>Every context the daemon reaches\<close>

lemma first_stat_small: "first_stat d ps = Some a \<Longrightarrow> a < 100000"
  by (induction ps) (auto simp: word_mod_less_divisor split: option.splits)

lemma manager_appid_small:
  assumes "ksu_manager_appid d c = (Some a, c')"
  shows "a < 100000"
  using assms first_stat_small [of d manager_paths a]
  by (auto simp: ksu_manager_appid_def word_mod_less_divisor split: prod.splits if_splits option.splits)

lemma query_all_sorted:
  "query_all d nxt aq dflt uids c = ((nxt', aq', dflt'), c') \<Longrightarrow> sorted_wrt (<) (map fst nxt) \<Longrightarrow>
     sorted_wrt (<) (map fst nxt')"
proof (induction uids arbitrary: nxt aq dflt c)
  case (Cons uid uids)
  obtain r c1 where q: "ksu_query d uid c = (r, c1)" by fastforce
  show ?case
  proof (cases r)
    case None
    then show ?thesis using Cons.IH [OF _ Cons.prems(2)] Cons.prems(1) q by simp
  next
    case (Some b)
    then show ?thesis using Cons.IH [OF _ sorted_map_put [OF Cons.prems(2)]] Cons.prems(1) q by simp
  qed
qed simp

lemma apatch_loop_sorted:
  "apatch_loop valid n ds ls = (v', ds') \<Longrightarrow> sorted_wrt (<) (map fst ds) \<Longrightarrow> sorted_wrt (<) (map fst ds')"
  by (induction valid n ds ls arbitrary: v' ds' rule: apatch_loop.induct)
     (auto simp: add_decision_def sorted_map_put split: if_splits option.splits prod.splits)

lemma parse_apatch_sorted: "parse_apatch env = (v, ds) \<Longrightarrow> sorted_wrt (<) (map fst ds)"
  by (auto simp: parse_apatch_def dest: apatch_loop_sorted split: option.splits list.splits)

text \<open>What a daemon operation may change: the context stays well formed and keeps its owner, its switch
  and its control descriptor; of the kernel, only the cache can be new, and then it is the cache of the
  resulting context.\<close>

definition moves :: "context_g \<times> kernel_state \<Rightarrow> context_g \<times> kernel_state \<Rightarrow> bool" where
  "moves s t \<longleftrightarrow>
     context_ok (fst t) \<and> g_owner (fst t) = g_owner (fst s) \<and> g_enabled (fst t) = g_enabled (fst s) \<and>
     g_control_fd (fst t) = g_control_fd (fst s) \<and> (\<exists>c. snd t = (snd s)\<lparr>k_cache := c\<rparr>)"

lemma moves_refl: "context_ok g \<Longrightarrow> moves (g, k) (g, k)"
  by (auto simp: moves_def intro: exI [of _ "k_cache k"])

lemma same_kernel: "\<exists>c. k = k\<lparr>k_cache := c\<rparr>" by (rule exI [of _ "k_cache k"]) simp

lemma moves_trans: "moves a b \<Longrightarrow> moves b c \<Longrightarrow> moves a c"
  by (auto simp: moves_def)

lemma push_moves:
  assumes "push_cache env g1 k = (ok, g', k')" and "context_ok g1"
    and "g_owner g1 = g_owner g" "g_enabled g1 = g_enabled g" "g_control_fd g1 = g_control_fd g"
  shows "moves (g, k) (g', k')"
  using push_cacheD(1,2) [OF assms(1,2)] assms(2-) by (auto simp: moves_def intro: exI [of _ "k_cache k"])

lemma refresh_ksu_moves:
  assumes "refresh_ksu env g k = (ok, g', k')" and "context_ok g"
  shows "moves (g, k) (g', k')"
proof -
  obtain i c0 where 0: "ksu_initialize (en_driver env) (g_ksu g) = (i, c0)" by fastforce
  show ?thesis
  proof (cases i)
    case False
    then show ?thesis using assms 0 by (auto simp: refresh_ksu_def moves_def context_ok_def same_kernel)
  next
    case True
    obtain parsed listed where 1: "parse_ksu_uids env = (parsed, listed)" by fastforce
    obtain nxt aq dflt c1 where 2: "query_all (en_driver env) [] True False (set_insert 1053 (set_insert 9999 listed)) c0 =
      ((nxt, aq, dflt), c1)" by (metis prod.exhaust)
    obtain manager c2 where 3: "ksu_manager_appid (en_driver env) c1 = (manager, c2)" by fastforce
    let ?g = "g\<lparr>g_decisions := nxt, g_manager_appid := (case manager of Some a \<Rightarrow> a | None \<Rightarrow> REFRESH_ALL),
      g_default_should_umount := dflt,
      g_complete := (parsed \<and> aq \<and> manager \<noteq> None \<and> map_of nxt 9999 \<noteq> None), g_ksu := c2\<rparr>"
    have run: "push_cache env ?g k = (ok, g', k')" using assms(1) True by (simp add: refresh_ksu_def 0 1 2 3)
    have "context_ok ?g"
      using query_all_sorted [OF 2] manager_appid_small [of "en_driver env" c1 _ c2] 3
      by (auto simp: context_ok_def split: option.split)
    then show ?thesis by (rule push_moves [OF run]) simp_all
  qed
qed

lemma refresh_apatch_moves:
  assumes "refresh_apatch env g k = (ok, g', k')"
  shows "moves (g, k) (g', k')"
proof -
  obtain v ds where p: "parse_apatch env = (v, ds)" by fastforce
  have run: "push_cache env (g\<lparr>g_decisions := ds, g_manager_appid := REFRESH_ALL, g_default_should_umount := False,
      g_complete := v\<rparr>) k = (ok, g', k')"
    using assms by (simp add: refresh_apatch_def p)
  show ?thesis by (rule push_moves [OF run]) (simp_all add: context_ok_def parse_apatch_sorted [OF p])
qed

lemma stamp_moves: "moves s (g, k) \<Longrightarrow> moves s (g\<lparr>g_stamp := t\<rparr>, k)"
  by (simp add: moves_def context_ok_def)

lemma refresh_moves:
  assumes "refresh env force g k = (ok, g', k')" and "context_ok g"
  shows "moves (g, k) (g', k')"
proof -
  consider "g' = g \<and> k' = k"
    | g1 where "refresh_ksu env g k = (ok, g1, k') \<or> refresh_apatch env g k = (ok, g1, k')"
        and "g' = g1 \<or> (\<exists>t. g' = g1\<lparr>g_stamp := t\<rparr>)"
    using assms(1) by (auto simp: refresh_def Let_def split: if_splits prod.splits option.splits)
  then show ?thesis
    by cases (auto simp: moves_refl assms(2) dest: refresh_ksu_moves [OF _ assms(2)] refresh_apatch_moves intro: stamp_moves)
qed

lemma query_moves:
  assumes "query_uid env uid g k = (r, g', k')" and "context_ok g"
  shows "moves (g, k) (g', k')"
proof (cases "g_enabled g")
  case False
  then show ?thesis using assms by (simp add: query_uid_def moves_refl)
next
  case True
  obtain ok g1 k1 where 1: "refresh env False g k = (ok, g1, k1)" by (metis prod_cases3)
  note m1 = refresh_moves [OF 1 assms(2)]
  obtain q c where 2: "ksu_query (en_driver env) uid (g_ksu g1) = (q, c)" by fastforce
  have c: "moves (g, k) (g1\<lparr>g_ksu := c\<rparr>, k1)" using m1 by (simp add: moves_def context_ok_def)
  show ?thesis
  proof (cases "g_owner g1 = OWNER_KERNELSU \<and> q \<noteq> None")
    case False
    then show ?thesis
      using assms(1) True m1 c 2 by (auto simp: query_uid_def 1 split: if_splits option.splits)
  next
    case on: True
    then obtain d where d: "q = Some d" by blast
    let ?g = "g1\<lparr>g_ksu := c, g_decisions := map_put uid d (g_decisions g1)\<rparr>"
    obtain ok2 where "push_cache env ?g k1 = (ok2, g', k')"
      using assms(1) True on d 2 by (auto simp: query_uid_def 1 split: prod.splits)
    then have "moves (g1, k1) (g', k')"
    proof (rule push_moves)
      show "context_ok ?g" using m1 by (simp add: moves_def context_ok_def sorted_map_put)
    qed simp_all
    then show ?thesis by (rule moves_trans [OF m1])
  qed
qed

text \<open>The daemon starts with the defaults of \<^verbatim>\<open>Context\<close>; \<^verbatim>\<open>setup\<close>, \<^verbatim>\<open>refresh\<close>, \<^verbatim>\<open>query_uid\<close> and
  \<^verbatim>\<open>handle_refresh_request\<close> run in any order, with any answers of the system, between which the
  kernel may detect again, be given other caches, or unload.\<close>

definition initial_context :: context_g where
  "initial_context = \<lparr>g_enabled = False, g_owner = OWNER_NONE, g_manager_appid = REFRESH_ALL, g_generation = 0,
     g_control_fd = - 1, g_complete = False, g_default_should_umount = False, g_decisions = [],
     g_stamp = \<lparr>st_dev = 0, st_ino = 0, st_size = 0, st_sec = 0, st_nsec = 0, st_valid = False\<rparr>,
     g_ksu = \<lparr>kc_method = NoMethod, kc_fd = - 1\<rparr>\<rparr>"

inductive daemon_step :: "context_g \<times> kernel_state \<Rightarrow> context_g \<times> kernel_state \<Rightarrow> bool" where
  step_setup: "daemon_step (g, k) (snd (policy_setup env fd owner flags g k))"
| step_refresh: "daemon_step (g, k) (snd (refresh env force g k))"
| step_query: "daemon_step (g, k) (snd (query_uid env uid g k))"
| step_request: "daemon_step (g, k) (handle_refresh_request env uid g k)"
| step_kernel_detect: "daemon_step (g, k) (g, snd (yz_host_root_detect e k))"
| step_kernel_install: "daemon_step (g, k) (g, snd (yz_host_install_policy_cache alloc_ok bs k))"
| step_kernel_exit: "daemon_step (g, k) (g, yz_host_root_exit k)"

inductive daemon_reachable :: "context_g \<times> kernel_state \<Rightarrow> bool" where
  daemon_start: "daemon_reachable (initial_context, k)"
| daemon_more: "daemon_reachable s \<Longrightarrow> daemon_step s t \<Longrightarrow> daemon_reachable t"

lemma setup_ok:
  assumes "context_ok g"
  shows "context_ok (fst (snd (policy_setup env fd owner flags g k)))"
proof -
  define g1 where "g1 = g\<lparr>g_control_fd := fd, g_owner := owner, g_enabled := (flags AND 4 \<noteq> 0)\<rparr>"
  obtain ok g' k' where r: "refresh env True g1 k = (ok, g', k')" by (metis prod_cases3)
  have g1: "context_ok g1" using assms by (simp add: context_ok_def g1_def)
  then have "context_ok g'" using refresh_moves [OF r] by (simp add: moves_def)
  then show ?thesis using g1 unfolding policy_setup_def g1_def [symmetric] Let_def r by simp
qed

lemma daemon_step_ok:
  assumes "daemon_step s t" and "context_ok (fst s)"
  shows "context_ok (fst t)"
  using assms
proof cases
  case (step_refresh g k env force)
  then show ?thesis using refresh_moves [of env force g k] assms(2) by (cases "refresh env force g k") (auto simp: moves_def)
next
  case (step_query g k env uid)
  then show ?thesis using query_moves [of env uid g k] assms(2) by (cases "query_uid env uid g k") (auto simp: moves_def)
next
  case (step_request g k env uid)
  then show ?thesis
    using query_moves [of env uid g k] refresh_moves [of env True g k] assms(2)
    by (cases "query_uid env uid g k"; cases "refresh env True g k") (auto simp: handle_refresh_request_def moves_def)
qed (auto simp: setup_ok)

lemma daemon_reachable_ok: "daemon_reachable s \<Longrightarrow> context_ok (fst s)"
proof (induction rule: daemon_reachable.induct)
  case (daemon_start k)
  show ?case by (simp add: initial_context_def context_ok_def)
next
  case (daemon_more s t)
  then show ?case using daemon_step_ok by blast
qed

section \<open>A sample system\<close>

text \<open>A driver that answers through \<^verbatim>\<open>ioctl\<close> on descriptor 7 and excludes uid 10234 alone; an APatch
  configuration with a header and two lines for one uid; all system calls work.\<close>

definition sample_driver :: ksu_driver where
  "sample_driver = \<lparr>kd_fd_dir = None, kd_reboot_fd = 7, kd_info_version = (\<lambda>fd. Some 12000), kd_prctl_version = 0,
     kd_ioctl_umount = (\<lambda>fd uid. Some (if uid = 10234 then 1 else 0)), kd_prctl_umount = (\<lambda>uid. (False, 0)),
     kd_ioctl_manager = (\<lambda>fd. Some 1010123), kd_prctl_manager = (0, 0), kd_stat_uid = (\<lambda>path. None)\<rparr>"

definition sample_config :: string where
  "sample_config = ''pkg,exclude,allow,uid'' @ [CHR 0x0A] @ ''a.b,0,1,7'' @ [CHR 0x0A] @ ''a.b,1,0,7'' @ [CHR 0x0A]"

definition sample_env :: policy_env where
  "sample_env = \<lparr>en_driver = sample_driver, en_allowlist = None, en_apatch_config = Some sample_config,
     en_ksu_stat = None, en_apatch_stat = None, en_memfd = 9, en_write_ok = True, en_seal_ok = True,
     en_kvzalloc_ok = True\<rparr>"

text \<open>The daemon after its setup for each owner, and kernels that use the fallback for that owner.\<close>

definition apatch_context :: context_g where
  "apatch_context = initial_context\<lparr>g_control_fd := 3, g_owner := OWNER_KERNELPATCH, g_enabled := True,
     g_decisions := [(7, True)], g_complete := True\<rparr>"

definition ksu_context :: context_g where
  "ksu_context = initial_context\<lparr>g_control_fd := 3, g_owner := OWNER_KERNELSU, g_enabled := True,
     g_decisions := [(1053, False), (9999, False)], g_manager_appid := 10123,
     g_ksu := \<lparr>kc_method = Ioctl, kc_fd = 7\<rparr>\<rparr>"

definition kernel_for :: "u32 \<Rightarrow> kernel_state" where
  "kernel_for owner = sample_kernel\<lparr>k_owner := owner\<rparr>"

lemma sample_no_callable: "no_callable (kernel_for OWNER_KERNELSU)" "no_callable (kernel_for OWNER_KERNELPATCH)"
  by (simp_all add: no_callable_def kernel_for_def sample_kernel_def)

lemma sample_apatch: "parse_apatch sample_env = (True, [(7, True)])"
  by (simp add: parse_apatch_def sample_env_def sample_config_def apatch_line_def split_csv_def
      parse_u32_def strtoull10_def scan_decimal_def c_str_def is_space_def is_digit_def digits_value_def
      digit_value_def add_decision_def)

lemma sample_query:
  "ksu_initialize sample_driver \<lparr>kc_method = NoMethod, kc_fd = - 1\<rparr> = (True, \<lparr>kc_method = Ioctl, kc_fd = 7\<rparr>)"
  "ksu_initialize sample_driver \<lparr>kc_method = Ioctl, kc_fd = 7\<rparr> = (True, \<lparr>kc_method = Ioctl, kc_fd = 7\<rparr>)"
  "ksu_query sample_driver uid \<lparr>kc_method = Ioctl, kc_fd = 7\<rparr> = (Some (uid = 10234), \<lparr>kc_method = Ioctl, kc_fd = 7\<rparr>)"
  "ksu_manager_appid sample_driver \<lparr>kc_method = Ioctl, kc_fd = 7\<rparr> = (Some 10123, \<lparr>kc_method = Ioctl, kc_fd = 7\<rparr>)"
  by (simp_all add: ksu_initialize_def sample_driver_def scan_driver_fd_def ksu_query_def ksu_manager_appid_def)

text \<open>One successful push.\<close>

lemma sample_push:
  assumes "context_ok g" and "g_control_fd g = 3" and "length (g_decisions g) \<le> 8192" and "k_policy_fallback k"
    and "k_owner k = g_owner g"
  shows "push_cache sample_env g k = (True, next_generation g, k\<lparr>k_cache := Some (cache_of (next_generation g))\<rparr>)"
  using assms by (intro push_cache_cases) (simp_all add: calls_work_def kernel_wants_def sample_env_def)

lemma sample_setup:
  "snd (policy_setup sample_env 3 OWNER_KERNELPATCH 4 initial_context (kernel_for OWNER_KERNELPATCH)) =
     (next_generation apatch_context,
      (kernel_for OWNER_KERNELPATCH)\<lparr>k_cache := Some (cache_of (next_generation apatch_context))\<rparr>)"
  "snd (policy_setup sample_env 3 OWNER_KERNELSU 4 initial_context (kernel_for OWNER_KERNELSU)) =
     (next_generation ksu_context,
      (kernel_for OWNER_KERNELSU)\<lparr>k_cache := Some (cache_of (next_generation ksu_context))\<rparr>)"
proof -
  have "refresh_apatch sample_env (initial_context\<lparr>g_control_fd := 3, g_owner := OWNER_KERNELPATCH, g_enabled := True\<rparr>)
      (kernel_for OWNER_KERNELPATCH) = push_cache sample_env apatch_context (kernel_for OWNER_KERNELPATCH)"
    by (simp add: refresh_apatch_def sample_apatch apatch_context_def initial_context_def)
  moreover have "push_cache sample_env apatch_context (kernel_for OWNER_KERNELPATCH) = (True, next_generation apatch_context,
      (kernel_for OWNER_KERNELPATCH)\<lparr>k_cache := Some (cache_of (next_generation apatch_context))\<rparr>)"
    by (rule sample_push) (simp_all add: apatch_context_def initial_context_def context_ok_def kernel_for_def sample_kernel_def)
  ultimately show "snd (policy_setup sample_env 3 OWNER_KERNELPATCH 4 initial_context (kernel_for OWNER_KERNELPATCH)) =
     (next_generation apatch_context,
      (kernel_for OWNER_KERNELPATCH)\<lparr>k_cache := Some (cache_of (next_generation apatch_context))\<rparr>)"
    by (simp add: policy_setup_def refresh_def policy_stamp_def read_stamp_def sample_env_def)
  have "refresh_ksu sample_env (initial_context\<lparr>g_control_fd := 3, g_owner := OWNER_KERNELSU, g_enabled := True\<rparr>)
      (kernel_for OWNER_KERNELSU) = push_cache sample_env ksu_context (kernel_for OWNER_KERNELSU)"
    by (simp add: refresh_ksu_def sample_query parse_ksu_uids_def read_all_def ksu_context_def initial_context_def
        sample_env_def)
  moreover have "push_cache sample_env ksu_context (kernel_for OWNER_KERNELSU) = (True, next_generation ksu_context,
      (kernel_for OWNER_KERNELSU)\<lparr>k_cache := Some (cache_of (next_generation ksu_context))\<rparr>)"
    by (rule sample_push) (simp_all add: ksu_context_def initial_context_def context_ok_def kernel_for_def sample_kernel_def)
  ultimately show "snd (policy_setup sample_env 3 OWNER_KERNELSU 4 initial_context (kernel_for OWNER_KERNELSU)) =
     (next_generation ksu_context,
      (kernel_for OWNER_KERNELSU)\<lparr>k_cache := Some (cache_of (next_generation ksu_context))\<rparr>)"
    by (simp add: policy_setup_def refresh_def policy_stamp_def read_stamp_def sample_env_def)
qed

lemma sample_contexts_reachable:
  "daemon_reachable (next_generation apatch_context,
      (kernel_for OWNER_KERNELPATCH)\<lparr>k_cache := Some (cache_of (next_generation apatch_context))\<rparr>)"
  "daemon_reachable (next_generation ksu_context,
      (kernel_for OWNER_KERNELSU)\<lparr>k_cache := Some (cache_of (next_generation ksu_context))\<rparr>)"
  using daemon_more [OF daemon_start step_setup] sample_setup by metis+

section \<open>The policies the kernel enforces\<close>

text \<open>C6: In every state the daemon can reach, in any order of its operations and with any answers of the
  system, \<open>push_cache\<close> succeeds exactly when its system calls work, there are at most 8192 decisions
  and the kernel uses the fallback for the same root implementation: the kernel never rejects what
  the daemon writes.  After a success the kernel answers for every uid but root what the daemon knows,
  after a failure the kernel is unchanged.\<close>

theorem push_cache_accepted:
  assumes "daemon_reachable (g, k0)" and "push_cache env g k = (ok, g', k')"
  shows "(ok \<longleftrightarrow> calls_work env g \<and> length (g_decisions g) \<le> 8192 \<and> kernel_wants g k) \<and>
    (\<not> ok \<longrightarrow> k' = k) \<and>
    (ok \<and> no_callable k \<longrightarrow> (\<forall>uid. uid \<noteq> 0 \<longrightarrow>
       yz_host_uid_should_umount uid k' = kernel_answer (policy_answer g uid)))"
proof -
  have g: "context_ok g" using daemon_reachable_ok [OF assms(1)] by simp
  show ?thesis using push_cacheD [OF assms(2) g] push_cache_answers [OF _ g] assms(2) by auto
qed

theorem push_cache_accepted_witness:
  "push_cache sample_env (next_generation apatch_context) (kernel_for OWNER_KERNELPATCH) =
     (True, next_generation (next_generation apatch_context), (kernel_for OWNER_KERNELPATCH)
        \<lparr>k_cache := Some (cache_of (next_generation (next_generation apatch_context)))\<rparr>) \<and>
   yz_host_uid_should_umount 7 ((kernel_for OWNER_KERNELPATCH)
        \<lparr>k_cache := Some (cache_of (next_generation (next_generation apatch_context)))\<rparr>) = Inr True"
proof -
  have run: "push_cache sample_env (next_generation apatch_context) (kernel_for OWNER_KERNELPATCH) =
     (True, next_generation (next_generation apatch_context), (kernel_for OWNER_KERNELPATCH)
        \<lparr>k_cache := Some (cache_of (next_generation (next_generation apatch_context)))\<rparr>)"
    by (rule sample_push)
       (simp_all add: apatch_context_def initial_context_def context_ok_def kernel_for_def sample_kernel_def)
  show ?thesis
    using push_cache_accepted [OF sample_contexts_reachable(1) run] run sample_no_callable
    by (simp add: policy_answer_def apatch_context_def initial_context_def kernel_answer_def)
qed



section \<open>APatch's configuration\<close>

text \<open>The rules of a configuration: its well-formed lines after the first.\<close>

definition apatch_rules :: "string \<Rightarrow> (u32 \<times> bool) list" where
  "apatch_rules text = List.map_filter apatch_line (tl (file_lines text))"

lemma map_of_add_decision:
  "map_of (add_decision uid b ds) x =
     (if x = uid then Some ((map_of ds uid = Some True) \<or> b) else map_of ds x)"
  by (auto simp: add_decision_def map_of_map_put split: option.split)

lemma apatch_line_empty: "apatch_line [] = None"
  by (simp add: apatch_line_def split_csv_def)

lemma apatch_loop_rules:
  assumes "apatch_loop valid n ds ls = (True, ds')"
  shows "map_of ds' x =
     (if x \<in> fst ` set (List.map_filter apatch_line ls) \<or> map_of ds x \<noteq> None
      then Some ((x, True) \<in> set (List.map_filter apatch_line ls) \<or> map_of ds x = Some True) else None)"
  using assms
proof (induction valid n ds ls rule: apatch_loop.induct)
  case (1 valid n ds)
  then show ?case by (cases "map_of ds x") (auto simp: List.map_filter_def)
next
  case (2 valid n ds l ls)
  consider "l = []" | "l \<noteq> []" "apatch_line l = None" | uid b where "l \<noteq> []" "apatch_line l = Some (uid, b)"
    by (metis not_None_eq surj_pair)
  then show ?case
  proof cases
    case 1
    then show ?thesis using 2 by (simp add: apatch_line_empty map_filter_simps)
  next
    case 2
    then show ?thesis using "2.IH"(2) [OF 2] "2.prems" by (simp add: map_filter_simps)
  next
    case 3
    then have "\<not> n + 1 > 8192" and "apatch_loop valid (n + 1) (add_decision uid b ds) ls = (True, ds')"
      using "2.prems" by (auto split: if_splits)
    then show ?thesis
      using "2.IH"(3) [OF 3 refl] by (auto simp: map_filter_simps 3(2) map_of_add_decision)
  qed
qed

lemma parse_apatch_rules:
  assumes "parse_apatch env = (True, ds)" and "en_apatch_config env = Some text"
  shows "map_of ds x = (if x \<in> fst ` set (apatch_rules text) then Some ((x, True) \<in> set (apatch_rules text)) else None)"
proof -
  obtain l ls where l: "file_lines text = l # ls" and loop: "apatch_loop True 0 [] ls = (True, ds)"
    using assms by (auto simp: parse_apatch_def split: list.splits)
  show ?thesis using apatch_loop_rules [OF loop, of x] by (simp add: apatch_rules_def l)
qed

text \<open>C19: After the daemon has read a valid APatch configuration and handed it over, the kernel unmounts
  for a uid exactly when some line of the configuration excludes it: several lines for one uid are
  combined, uids without a line are not unmounted, and no uid is left undecided.\<close>

theorem apatch_configuration_enforced:
  assumes "refresh_apatch env g k = (True, g', k')" and "en_apatch_config env = Some text" and "g_complete g'"
    and "no_callable k" and "uid \<noteq> 0"
  shows "yz_host_uid_should_umount uid k' = Inr ((uid, True) \<in> set (apatch_rules text))"
proof -
  obtain v ds where p: "parse_apatch env = (v, ds)" by fastforce
  let ?g = "g\<lparr>g_decisions := ds, g_manager_appid := REFRESH_ALL, g_default_should_umount := False, g_complete := v\<rparr>"
  have run: "push_cache env ?g k = (True, g', k')" using assms(1) by (simp add: refresh_apatch_def p)
  have ok: "context_ok ?g" by (simp add: context_ok_def parse_apatch_sorted [OF p])
  have v: "v" using push_cacheD(1) [OF run ok] assms(3) by auto
  have "yz_host_uid_should_umount uid k' = kernel_answer (policy_answer ?g uid)"
    by (rule push_cache_answers [OF run ok assms(4,5)])
  also have "policy_answer ?g uid = Some ((uid, True) \<in> set (apatch_rules text))"
    using parse_apatch_rules [OF _ assms(2), of ds uid] p v by (force simp: policy_answer_def)
  finally show ?thesis by (simp add: kernel_answer_def)
qed

theorem apatch_configuration_enforced_witness:
  "refresh_apatch sample_env apatch_context (kernel_for OWNER_KERNELPATCH) =
     (True, next_generation apatch_context,
      (kernel_for OWNER_KERNELPATCH)\<lparr>k_cache := Some (cache_of (next_generation apatch_context))\<rparr>) \<and>
   yz_host_uid_should_umount 7
     ((kernel_for OWNER_KERNELPATCH)\<lparr>k_cache := Some (cache_of (next_generation apatch_context))\<rparr>) =
     Inr ((7, True) \<in> set (apatch_rules sample_config))"
proof -
  have "refresh_apatch sample_env apatch_context (kernel_for OWNER_KERNELPATCH) =
      push_cache sample_env apatch_context (kernel_for OWNER_KERNELPATCH)"
    by (simp add: refresh_apatch_def sample_apatch apatch_context_def initial_context_def)
  moreover have "push_cache sample_env apatch_context (kernel_for OWNER_KERNELPATCH) = (True, next_generation apatch_context,
      (kernel_for OWNER_KERNELPATCH)\<lparr>k_cache := Some (cache_of (next_generation apatch_context))\<rparr>)"
    by (rule sample_push) (simp_all add: apatch_context_def initial_context_def context_ok_def kernel_for_def sample_kernel_def)
  ultimately have run: "refresh_apatch sample_env apatch_context (kernel_for OWNER_KERNELPATCH) = (True, next_generation apatch_context,
      (kernel_for OWNER_KERNELPATCH)\<lparr>k_cache := Some (cache_of (next_generation apatch_context))\<rparr>)"
    by simp
  have "g_complete (next_generation apatch_context)" "en_apatch_config sample_env = Some sample_config"
    by (simp_all add: apatch_context_def sample_env_def)
  then show ?thesis
    using run apatch_configuration_enforced [OF run _ _ sample_no_callable(2), of sample_config 7] by simp
qed

end
