(* ===== verification/Bounded_Fifo.thy ===== *)
theory Bounded_Fifo
  imports Main
begin

text \<open>
  The contract of a bounded first-in first-out queue: a push beyond the capacity changes nothing, a pop
  gives the oldest element.  The client's view is a sequence of operations; whatever implements the
  contract gives the same results as a list.
\<close>

datatype 'e fifo_op = Push 'e | Pop

text \<open>The reference: a list of at most \<open>cap\<close> elements.  The results are those of the pops.\<close>

fun list_ops :: "nat \<Rightarrow> 'e fifo_op list \<Rightarrow> 'e list \<Rightarrow> 'e option list \<times> 'e list" where
  "list_ops cap [] q = ([], q)"
| "list_ops cap (Push e # ops) q = list_ops cap ops (if length q < cap then q @ [e] else q)"
| "list_ops cap (Pop # ops) q =
     (case q of
        [] \<Rightarrow> (case list_ops cap ops [] of (rs, q') \<Rightarrow> (None # rs, q'))
      | e # es \<Rightarrow> (case list_ops cap ops es of (rs, q') \<Rightarrow> (Some e # rs, q')))"

fun run_ops :: "('e \<Rightarrow> 's \<Rightarrow> 's) \<Rightarrow> ('s \<Rightarrow> 'e option \<times> 's) \<Rightarrow> 'e fifo_op list \<Rightarrow> 's \<Rightarrow> 'e option list \<times> 's" where
  "run_ops push pop [] s = ([], s)"
| "run_ops push pop (Push e # ops) s = run_ops push pop ops (push e s)"
| "run_ops push pop (Pop # ops) s =
     (case pop s of (r, s1) \<Rightarrow> (case run_ops push pop ops s1 of (rs, s2) \<Rightarrow> (r # rs, s2)))"

locale bounded_fifo =
  fixes rep :: "'s \<Rightarrow> 'e list \<Rightarrow> bool" and cap :: nat
    and push :: "'e \<Rightarrow> 's \<Rightarrow> 's" and pop :: "'s \<Rightarrow> 'e option \<times> 's"
  assumes push_room: "rep s q \<Longrightarrow> length q < cap \<Longrightarrow> rep (push e s) (q @ [e])"
    and push_full: "rep s q \<Longrightarrow> cap \<le> length q \<Longrightarrow> rep (push e s) q"
    and pop_oldest: "rep s (e # q) \<Longrightarrow> \<exists>s'. pop s = (Some e, s') \<and> rep s' q"
    and pop_empty: "rep s [] \<Longrightarrow> \<exists>s'. pop s = (None, s') \<and> rep s' []"
begin

lemma run_simulates:
  assumes "rep s q" and "list_ops cap ops q = (rs, q')"
  shows "\<exists>s'. run_ops push pop ops s = (rs, s') \<and> rep s' q'"
  using assms
proof (induction ops arbitrary: s q rs)
  case (Cons x ops)
  show ?case
  proof (cases x)
    case (Push e)
    have "rep (push e s) (if length q < cap then q @ [e] else q)"
      using push_room push_full Cons.prems(1) by (simp add: not_less)
    then show ?thesis using Cons.IH Cons.prems(2) Push by simp
  next
    case Pop
    show ?thesis
    proof (cases q)
      case Nil
      then obtain s1 where 1: "pop s = (None, s1)" "rep s1 []" using pop_empty Cons.prems(1) by blast
      obtain rs1 where 2: "list_ops cap ops [] = (rs1, q')" "rs = None # rs1"
        using Cons.prems(2) Nil Pop by (auto split: prod.splits)
      show ?thesis using Cons.IH [OF 1(2) 2(1)] 1 2 Pop by auto
    next
      case q: (Cons e es)
      then obtain s1 where 1: "pop s = (Some e, s1)" "rep s1 es" using pop_oldest Cons.prems(1) by blast
      obtain rs1 where 2: "list_ops cap ops es = (rs1, q')" "rs = Some e # rs1"
        using Cons.prems(2) q Pop by (auto split: prod.splits)
      show ?thesis using Cons.IH [OF 1(2) 2(1)] 1 2 Pop by auto
    qed
  qed
qed auto

lemma results_are_those_of_the_list: "rep s q \<Longrightarrow> fst (run_ops push pop ops s) = fst (list_ops cap ops q)"
  using run_simulates by (metis fst_conv prod.exhaust)

end

end
