(* ===== verification/Zygote_Orch.thy ===== *)
theory Zygote_Orch
  imports Yz_Prelude Bounded_Fifo "HOL-Library.Sublist"
begin

text \<open>
  The life cycle of app processes in the kernel, \<^verbatim>\<open>kernel/feature/zygote_orch.c\<close>: children of zygote
  are tracked from their fork, become specialised when they take an app uid, and are forgotten when
  they are freed.  A specialisation is put into a ring of events that a work item delivers.

  A function that takes a spinlock is one step.  The callbacks of the tracepoints are the operations;
  whether the parent of a process is zygote is an argument.  Scheduling of the work item is a result
  of \<open>zo_queue_specialize_event\<close>; the events that the work item emits are its output.
\<close>

section \<open>State\<close>

datatype zo_state = ZO_FORKED | ZO_SPECIALIZED

record zo_child =
  zc_pid :: int
  zc_uid :: u32
  zc_state :: zo_state

record zo_specialize_event =
  ze_pid :: int
  ze_uid :: u32
  ze_appid :: u32

record orch =
  zo_children :: "zo_child list"
  zo_specialize_events :: "zo_specialize_event list"
  zo_specialize_head :: u32
  zo_specialize_tail :: u32
  zo_specialize_dropped :: u32
  zo_specialize_work_queued :: bool

section \<open>Tracking\<close>

definition zo_slot_of :: "int \<Rightarrow> zo_child list \<Rightarrow> nat option" where
  "zo_slot_of pid cs = find (\<lambda>i. zc_pid (cs ! i) = pid) [0..<length cs]"

definition zo_track :: "int \<Rightarrow> orch \<Rightarrow> orch" where
  "zo_track pid s =
     (if zo_slot_of pid (zo_children s) = None
      then (case zo_slot_of 0 (zo_children s) of
              Some i \<Rightarrow> s\<lparr>zo_children := (zo_children s)[i := \<lparr>zc_pid = pid, zc_uid = - 1, zc_state = ZO_FORKED\<rparr>]\<rparr>
            | None \<Rightarrow> s)
      else s)"

text \<open>The callback of \<^verbatim>\<open>sched_process_fork\<close>: thread group leaders born from zygote.\<close>

definition zo_on_fork :: "int \<Rightarrow> int \<Rightarrow> bool \<Rightarrow> orch \<Rightarrow> orch" where
  "zo_on_fork pid tgid from_zygote s =
     (if pid \<noteq> tgid then s else if \<not> from_zygote then s else zo_track pid s)"

text \<open>The callback of \<^verbatim>\<open>sched_process_free\<close>; the result tells whether \<^verbatim>\<open>yz_zygote_ctl_release\<close> is called.\<close>

definition zo_on_free :: "int \<Rightarrow> int \<Rightarrow> orch \<Rightarrow> bool \<times> orch" where
  "zo_on_free pid tgid s =
     (if pid \<noteq> tgid then (False, s)
      else case zo_slot_of pid (zo_children s) of
        Some i \<Rightarrow> (True, s\<lparr>zo_children := (zo_children s)[i := (zo_children s ! i)\<lparr>zc_pid := 0\<rparr>]\<rparr>)
      | None \<Rightarrow> (False, s))"

section \<open>The ring of events\<close>

text \<open>The result tells whether the work item is scheduled.\<close>

definition zo_queue_specialize_event :: "int \<Rightarrow> u32 \<Rightarrow> u32 \<Rightarrow> orch \<Rightarrow> bool \<times> orch" where
  "zo_queue_specialize_event pid uid appid s =
     (let nxt = (zo_specialize_head s + 1) mod 128;
          s1 = (if nxt = zo_specialize_tail s
                then s\<lparr>zo_specialize_dropped := zo_specialize_dropped s + 1\<rparr>
                else s\<lparr>zo_specialize_events := (zo_specialize_events s)
                         [unat (zo_specialize_head s) := \<lparr>ze_pid = pid, ze_uid = uid, ze_appid = appid\<rparr>],
                       zo_specialize_head := nxt\<rparr>)
      in (\<not> zo_specialize_work_queued s, s1\<lparr>zo_specialize_work_queued := True\<rparr>))"

text \<open>The event if there is one, and the number of dropped events, which is read when there is none.\<close>

definition zo_pop_specialize_event :: "orch \<Rightarrow> zo_specialize_event option \<times> u32 \<times> orch" where
  "zo_pop_specialize_event s =
     (if zo_specialize_tail s \<noteq> zo_specialize_head s
      then (Some (zo_specialize_events s ! unat (zo_specialize_tail s)), 0,
            s\<lparr>zo_specialize_tail := (zo_specialize_tail s + 1) mod 128\<rparr>)
      else (None, zo_specialize_dropped s,
            s\<lparr>zo_specialize_dropped := 0,
              zo_specialize_work_queued := (if zo_specialize_dropped s = 0 then False
                                            else zo_specialize_work_queued s)\<rparr>))"

text \<open>One round of the loop of \<^verbatim>\<open>zo_specialize_work_fn\<close>: the emitted event, whether the loop goes on, and
  the state.  Other processors may queue events between the rounds.\<close>

definition zo_work_round :: "orch \<Rightarrow> zo_specialize_event list \<times> bool \<times> orch" where
  "zo_work_round s =
     (case zo_pop_specialize_event s of
        (Some e, dropped, s1) \<Rightarrow> ([e], True, s1)
      | (None, dropped, s1) \<Rightarrow> ([], dropped \<noteq> 0, s1))"

partial_function (option) zo_specialize_work_fn :: "orch \<Rightarrow> (zo_specialize_event list \<times> orch) option" where
  "zo_specialize_work_fn s =
     (case zo_work_round s of (es, go_on, s1) \<Rightarrow>
        if go_on then Option.bind (zo_specialize_work_fn s1) (\<lambda>(fs, s2). Some (es @ fs, s2))
        else Some (es, s1))"

definition zo_specialize_events_reset :: "orch \<Rightarrow> orch" where
  "zo_specialize_events_reset s =
     s\<lparr>zo_specialize_head := 0, zo_specialize_tail := 0, zo_specialize_dropped := 0,
       zo_specialize_work_queued := False\<rparr>"

section \<open>Specialisation\<close>

text \<open>The result is the event that is queued, and whether the work item is scheduled.\<close>

definition yz_zygote_orch_on_setresuid :: "int \<Rightarrow> u32 \<Rightarrow> orch \<Rightarrow> zo_specialize_event option \<times> bool \<times> orch" where
  "yz_zygote_orch_on_setresuid pid new_uid s =
     (if new_uid < 10000 then (None, False, s)
      else if new_uid mod 100000 \<ge> 90000 then (None, False, s)
      else case zo_slot_of pid (zo_children s) of
        Some i \<Rightarrow>
          if zc_state (zo_children s ! i) = ZO_FORKED
          then
            let s1 = s\<lparr>zo_children := (zo_children s)
                        [i := (zo_children s ! i)\<lparr>zc_uid := new_uid, zc_state := ZO_SPECIALIZED\<rparr>]\<rparr>;
                (schedule, s2) = zo_queue_specialize_event pid new_uid (new_uid mod 100000) s1
            in (Some \<lparr>ze_pid = pid, ze_uid = new_uid, ze_appid = new_uid mod 100000\<rparr>, schedule, s2)
          else (None, False, s)
      | None \<Rightarrow> (None, False, s))"

text \<open>The callback of \<^verbatim>\<open>sys_exit\<close>: a successful \<^verbatim>\<open>setresuid\<close> (system call 147 on arm64) of a 64-bit task.\<close>

definition zo_on_sys_exit :: "int \<Rightarrow> u32 \<Rightarrow> int \<Rightarrow> bool \<Rightarrow> int \<Rightarrow> orch \<Rightarrow> zo_specialize_event option \<times> bool \<times> orch" where
  "zo_on_sys_exit pid current_uid ret is_compat nr s =
     (if ret < 0 then (None, False, s)
      else if is_compat then (None, False, s)
      else if nr \<noteq> 147 then (None, False, s)
      else yz_zygote_orch_on_setresuid pid current_uid s)"

definition zo_initial :: orch where
  "zo_initial = \<lparr>zo_children = replicate 512 \<lparr>zc_pid = 0, zc_uid = 0, zc_state = ZO_FORKED\<rparr>,
     zo_specialize_events = replicate 128 \<lparr>ze_pid = 0, ze_uid = 0, ze_appid = 0\<rparr>,
     zo_specialize_head = 0, zo_specialize_tail = 0, zo_specialize_dropped = 0, zo_specialize_work_queued = False\<rparr>"

section \<open>The ring is a queue\<close>

text \<open>The events between tail and head, oldest first; one slot of the ring stays empty.\<close>

definition ring_rep :: "orch \<Rightarrow> zo_specialize_event list \<Rightarrow> bool" where
  "ring_rep s q \<longleftrightarrow>
     length (zo_specialize_events s) = 128 \<and> unat (zo_specialize_head s) < 128 \<and> unat (zo_specialize_tail s) < 128 \<and>
     length q < 128 \<and> unat (zo_specialize_head s) = (unat (zo_specialize_tail s) + length q) mod 128 \<and>
     (\<forall>i < length q. q ! i = zo_specialize_events s ! ((unat (zo_specialize_tail s) + i) mod 128))"

definition zo_push :: "zo_specialize_event \<Rightarrow> orch \<Rightarrow> orch" where
  "zo_push e s = snd (zo_queue_specialize_event (ze_pid e) (ze_uid e) (ze_appid e) s)"

definition zo_pop :: "orch \<Rightarrow> zo_specialize_event option \<times> orch" where
  "zo_pop s = (case zo_pop_specialize_event s of (e, dropped, s') \<Rightarrow> (e, s'))"

lemma unat_next: "unat x < 128 \<Longrightarrow> unat ((x + 1) mod 128 :: u32) = (unat x + 1) mod 128"
  by (simp add: unat_mod unat_add_lt)

lemma ring_full_iff:
  assumes "ring_rep s q"
  shows "(zo_specialize_head s + 1) mod 128 = zo_specialize_tail s \<longleftrightarrow> length q = 127"
proof -
  let ?t = "unat (zo_specialize_tail s)" and ?n = "length q"
  have b: "?t < 128" "?n < 128" "unat (zo_specialize_head s) = (?t + ?n) mod 128" "unat (zo_specialize_head s) < 128"
    using assms by (auto simp: ring_rep_def)
  have "(zo_specialize_head s + 1) mod 128 = zo_specialize_tail s \<longleftrightarrow> ((?t + ?n) mod 128 + 1) mod 128 = ?t"
    using unat_next [OF b(4)] b(3) by (metis word_unat_eq_iff)
  also have "((?t + ?n) mod 128 + 1) mod 128 = (?t + (?n + 1)) mod 128" by (simp add: mod_simps)
  also have "(?t + (?n + 1)) mod 128 = ?t \<longleftrightarrow> ?n = 127"
    using b(1,2) by (auto simp: mod_if)
  finally show ?thesis .
qed

lemma ring_empty_iff:
  assumes "ring_rep s q"
  shows "zo_specialize_tail s = zo_specialize_head s \<longleftrightarrow> q = []"
proof -
  have "unat (zo_specialize_tail s) < 128" "length q < 128"
      "unat (zo_specialize_head s) = (unat (zo_specialize_tail s) + length q) mod 128"
    using assms by (auto simp: ring_rep_def)
  then have "unat (zo_specialize_tail s) = unat (zo_specialize_head s) \<longleftrightarrow> length q = 0"
    by (auto simp: mod_if split: if_splits)
  then show ?thesis by (simp add: word_unat_eq_iff)
qed

lemma ring_push_room:
  assumes "ring_rep s q" and "length q < 127"
  shows "ring_rep (zo_push e s) (q @ [e])"
proof -
  let ?h = "unat (zo_specialize_head s)" and ?t = "unat (zo_specialize_tail s)"
  have b: "?t < 128" "?h < 128" "?h = (?t + length q) mod 128" "length (zo_specialize_events s) = 128"
    using assms by (auto simp: ring_rep_def)
  have room: "(zo_specialize_head s + 1) mod 128 \<noteq> zo_specialize_tail s" using ring_full_iff [OF assms(1)] assms(2) by simp
  have e: "\<lparr>ze_pid = ze_pid e, ze_uid = ze_uid e, ze_appid = ze_appid e\<rparr> = e" by simp
  have "(?t + i) mod 128 \<noteq> (?t + length q) mod 128" if "i < length q" for i
    using that b(1) assms(2) by (auto simp: mod_if split: if_splits)
  then have other: "(zo_specialize_events s)[(?t + length q) mod 128 := e] ! ((?t + i) mod 128) =
      zo_specialize_events s ! ((?t + i) mod 128)" if "i < length q" for i
    using that by (metis nth_list_update_neq)
  have "(?h + 1) mod 128 = (?t + (length q + 1)) mod 128" unfolding b(3) by (simp add: mod_simps)
  then show ?thesis
    using assms b room other
    by (auto simp: zo_push_def zo_queue_specialize_event_def ring_rep_def unat_next e nth_append less_Suc_eq
        simp del: mod_less)
qed

lemma ring_push_full:
  assumes "ring_rep s q" and "127 \<le> length q"
  shows "ring_rep (zo_push e s) q"
proof -
  have "length q = 127" using assms by (simp add: ring_rep_def)
  then have "(zo_specialize_head s + 1) mod 128 = zo_specialize_tail s" using ring_full_iff [OF assms(1)] by simp
  then show ?thesis using assms(1) by (simp add: zo_push_def zo_queue_specialize_event_def ring_rep_def)
qed

lemma ring_pop_oldest:
  assumes "ring_rep s (e # q)"
  shows "\<exists>s'. zo_pop s = (Some e, s') \<and> ring_rep s' q"
proof -
  let ?t = "unat (zo_specialize_tail s)"
  have b: "?t < 128" using assms by (simp add: ring_rep_def)
  have first: "zo_specialize_events s ! ?t = e"
    using assms b by (auto simp: ring_rep_def dest!: spec [of _ 0])
  have rest: "q ! i = zo_specialize_events s ! (((?t + 1) mod 128 + i) mod 128)" if "i < length q" for i
  proof -
    have "q ! i = zo_specialize_events s ! ((?t + Suc i) mod 128)"
      using assms that by (auto simp: ring_rep_def dest!: spec [of _ "Suc i"])
    also have "(?t + Suc i) mod 128 = ((?t + 1) mod 128 + i) mod 128" by (simp add: mod_simps)
    finally show ?thesis .
  qed
  have "unat (zo_specialize_head s) = ((?t + 1) mod 128 + length q) mod 128"
    using assms by (simp add: ring_rep_def mod_simps)
  then show ?thesis
    using assms b first rest ring_empty_iff [OF assms]
    by (auto simp: zo_pop_def zo_pop_specialize_event_def ring_rep_def unat_next)
qed

lemma ring_pop_empty: "ring_rep s [] \<Longrightarrow> \<exists>s'. zo_pop s = (None, s') \<and> ring_rep s' []"
  using ring_empty_iff [of s "[]"]
  by (auto simp: zo_pop_def zo_pop_specialize_event_def ring_rep_def)

interpretation ring: bounded_fifo ring_rep 127 zo_push zo_pop
  by unfold_locales (auto intro: ring_push_room ring_push_full ring_pop_oldest ring_pop_empty)

text \<open>The ring of specialisation events is a queue of 127 events: any sequence of queueing and popping
  gives the events that a list would give, in the order they were queued; when the queue is full the
  new event is dropped and the queued ones are kept.\<close>

lemma specialize_ring_is_queue:
  assumes "length (zo_specialize_events s) = 128"
  shows "fst (run_ops zo_push zo_pop ops (zo_specialize_events_reset s)) = fst (list_ops 127 ops [])"
  using assms
  by (intro ring.results_are_those_of_the_list) (simp add: ring_rep_def zo_specialize_events_reset_def)

section \<open>The whole machine\<close>

text \<open>Tracepoints fire on any processor in any order, and the rounds of the work item run in between.  The
  second component tells whether the work item is scheduled or running.  A label records a fork, a
  specialisation, a freed process, and an event that reached the daemon.\<close>

datatype orch_label = L_Fork int | L_Special zo_specialize_event | L_Free int | L_Emit zo_specialize_event

inductive orch_step :: "orch \<times> bool \<Rightarrow> orch_label list \<Rightarrow> orch \<times> bool \<Rightarrow> bool" where
  orch_fork: "orch_step (s, a) [L_Fork pid] (zo_on_fork pid tgid from_zygote s, a)"
| orch_exit: "zo_on_sys_exit pid uid ret is_compat nr s = (None, schedule, s') \<Longrightarrow> orch_step (s, a) [] (s', a \<or> schedule)"
| orch_special: "zo_on_sys_exit pid uid ret is_compat nr s = (Some e, schedule, s') \<Longrightarrow>
    orch_step (s, a) [L_Special e] (s', a \<or> schedule)"
| orch_free: "orch_step (s, a) [L_Free pid] (snd (zo_on_free pid tgid s), a)"
| orch_work: "zo_work_round s = (es, go_on, s') \<Longrightarrow> orch_step (s, True) (map L_Emit es) (s', go_on)"

inductive orch_run :: "orch_label list \<Rightarrow> orch \<times> bool \<Rightarrow> bool" where
  run_start: "orch_run [] (zo_initial, False)"
| run_more: "orch_run tr s \<Longrightarrow> orch_step s ls s' \<Longrightarrow> orch_run (tr @ ls) s'"

definition specials :: "orch_label list \<Rightarrow> zo_specialize_event list" where
  "specials tr = List.map_filter (\<lambda>l. case l of L_Special e \<Rightarrow> Some e | _ \<Rightarrow> None) tr"

definition emitted :: "orch_label list \<Rightarrow> zo_specialize_event list" where
  "emitted tr = List.map_filter (\<lambda>l. case l of L_Emit e \<Rightarrow> Some e | _ \<Rightarrow> None) tr"

definition forks :: "int \<Rightarrow> orch_label list \<Rightarrow> nat" where
  "forks pid tr = length (filter (\<lambda>l. l = L_Fork pid) tr)"

lemma map_filter_append [simp]: "List.map_filter f (xs @ ys) = List.map_filter f xs @ List.map_filter f ys"
  by (simp add: List.map_filter_def)

lemma label_simps [simp]:
  "specials (tr @ ls) = specials tr @ specials ls" "emitted (tr @ ls) = emitted tr @ emitted ls"
  "specials [] = []" "emitted [] = []" "specials [L_Fork p] = []" "emitted [L_Fork p] = []" "specials [L_Free p] = []"
  "emitted [L_Free p] = []" "specials [L_Special e] = [e]" "emitted [L_Special e] = []"
  "specials (map L_Emit es) = []" "emitted (map L_Emit es) = es" "forks pid (tr @ ls) = forks pid tr + forks pid ls"
  "forks pid [] = 0" "forks pid [L_Fork p] = (if p = pid then 1 else 0)" "forks pid [L_Special e] = 0"
  "forks pid [L_Free p] = 0" "forks pid (map L_Emit es) = 0"
  by (simp_all add: specials_def emitted_def forks_def map_filter_simps) (simp_all add: List.map_filter_def comp_def)

text \<open>Operations on the children leave the ring alone.\<close>

definition same_ring :: "orch \<Rightarrow> orch \<Rightarrow> bool" where
  "same_ring s t \<longleftrightarrow> t = s\<lparr>zo_children := zo_children t\<rparr>"

lemma same_ring_rep: "same_ring s t \<Longrightarrow> ring_rep t q = ring_rep s q \<and>
    zo_specialize_work_queued t = zo_specialize_work_queued s"
  unfolding same_ring_def by (cases s; cases t) (simp add: ring_rep_def)

lemma tracking_same_ring: "same_ring s (zo_on_fork pid tgid fz s)" "same_ring s (snd (zo_on_free pid tgid s))"
  by (auto simp: same_ring_def zo_on_fork_def zo_track_def zo_on_free_def split: option.split)

lemma sys_exit_cases:
  assumes "zo_on_sys_exit pid uid ret is_compat nr s = (ev, schedule, s')"
  obtains "ev = None" "schedule = False" "s' = s"
  | e i where "ev = Some e" "e = \<lparr>ze_pid = pid, ze_uid = uid, ze_appid = uid mod 100000\<rparr>" "10000 \<le> uid"
      "uid mod 100000 < 90000" "zo_slot_of pid (zo_children s) = Some i" "zc_state (zo_children s ! i) = ZO_FORKED"
      "zo_queue_specialize_event pid uid (uid mod 100000)
         (s\<lparr>zo_children := (zo_children s)[i := (zo_children s ! i)\<lparr>zc_uid := uid, zc_state := ZO_SPECIALIZED\<rparr>]\<rparr>) =
         (schedule, s')"
  using assms that
  by (auto simp: zo_on_sys_exit_def yz_zygote_orch_on_setresuid_def Let_def not_less not_le
      split: if_splits option.splits prod.splits)

text \<open>What the ring holds continues the events that were emitted; the work item is active exactly when it
  is marked as queued, and it is when there is something to deliver.\<close>

definition ring_inv :: "orch_label list \<Rightarrow> orch \<times> bool \<Rightarrow> bool" where
  "ring_inv tr sa \<longleftrightarrow> (\<exists>q. ring_rep (fst sa) q \<and> subseq (emitted tr @ q) (specials tr) \<and>
     snd sa = zo_specialize_work_queued (fst sa) \<and> (q \<noteq> [] \<longrightarrow> snd sa))"

lemma push_event_ring:
  assumes "ring_rep s q" and "zo_queue_specialize_event pid uid appid s = (schedule, s')"
  shows "zo_specialize_work_queued s'" and "schedule = (\<not> zo_specialize_work_queued s)"
    and "ring_rep s' (q @ [\<lparr>ze_pid = pid, ze_uid = uid, ze_appid = appid\<rparr>]) \<or> ring_rep s' q"
proof -
  show "zo_specialize_work_queued s'" "schedule = (\<not> zo_specialize_work_queued s)"
    using assms(2) by (auto simp: zo_queue_specialize_event_def Let_def)
  let ?e = "\<lparr>ze_pid = pid, ze_uid = uid, ze_appid = appid\<rparr>"
  have "s' = zo_push ?e s" using assms(2) by (simp add: zo_push_def)
  then show "ring_rep s' (q @ [?e]) \<or> ring_rep s' q"
    using ring_push_room [OF assms(1), of ?e] ring_push_full [OF assms(1), of ?e] by (cases "length q < 127") auto
qed

lemma work_round_ring:
  assumes "ring_rep s q" and "zo_work_round s = (es, go_on, s')" and "zo_specialize_work_queued s"
  shows "\<exists>q'. q = es @ q' \<and> ring_rep s' q' \<and> go_on = zo_specialize_work_queued s' \<and> (q' \<noteq> [] \<longrightarrow> go_on)"
proof (cases q)
  case Nil
  then show ?thesis
    using assms ring_empty_iff [OF assms(1)] ring_pop_empty
    by (auto simp: zo_work_round_def zo_pop_specialize_event_def ring_rep_def)
next
  case (Cons e q')
  obtain s1 where "zo_pop s = (Some e, s1)" "ring_rep s1 q'" using ring_pop_oldest assms(1) Cons by blast
  then show ?thesis
    using assms(2,3) Cons
    by (auto simp: zo_work_round_def zo_pop_def zo_pop_specialize_event_def split: if_splits)
qed

lemma ring_inv_step:
  assumes "ring_inv tr s" and "orch_step s ls s'"
  shows "ring_inv (tr @ ls) s'"
proof -
  from assms(1) obtain q where q: "ring_rep (fst s) q" "subseq (emitted tr @ q) (specials tr)"
      "snd s = zo_specialize_work_queued (fst s)" "q \<noteq> [] \<longrightarrow> snd s" by (auto simp: ring_inv_def)
  show ?thesis using assms(2)
  proof cases
    case (orch_fork s a pid tgid fz)
    then show ?thesis using q same_ring_rep [OF tracking_same_ring(1)] by (auto simp: ring_inv_def intro!: exI [of _ q])
  next
    case (orch_free s a pid tgid)
    then show ?thesis using q same_ring_rep [OF tracking_same_ring(2)] by (auto simp: ring_inv_def intro!: exI [of _ q])
  next
    case (orch_exit pid uid ret c nr s schedule s' a)
    from this(4) show ?thesis
      by (rule sys_exit_cases) (use orch_exit q in \<open>auto simp: ring_inv_def intro!: exI [of _ q]\<close>)
  next
    case (orch_special pid uid ret c nr t e schedule t' a)
    from this(4) show ?thesis
    proof (rule sys_exit_cases)
      fix f i
      let ?s1 = "t\<lparr>zo_children := (zo_children t)[i := (zo_children t ! i)\<lparr>zc_uid := uid, zc_state := ZO_SPECIALIZED\<rparr>]\<rparr>"
      assume f: "Some e = Some f" "f = \<lparr>ze_pid = pid, ze_uid = uid, ze_appid = uid mod 100000\<rparr>"
        and push: "zo_queue_specialize_event pid uid (uid mod 100000) ?s1 = (schedule, t')"
      have "ring_rep ?s1 q" using q(1) orch_special(1) by (simp add: ring_rep_def)
      note p = push_event_ring [OF this push]
      have "subseq (emitted tr @ q) (specials tr @ [e])" "subseq (emitted tr @ q @ [e]) (specials tr @ [e])"
        using q(2) list_emb_append_mono [of "(=)" "emitted tr @ q" "specials tr" "[e]" "[e]"]
        by (auto intro: subseq_rev_drop_many)
      then show ?thesis using p f q(3) orch_special(1-3) by (auto simp: ring_inv_def)
    qed simp
  next
    case (orch_work s es go_on s')
    then show ?thesis
      using work_round_ring [of s q es go_on s'] q by (auto simp: ring_inv_def)
  qed
qed

lemma orch_run_ring: "orch_run tr s \<Longrightarrow> ring_inv tr s"
proof (induction rule: orch_run.induct)
  case run_start
  then show ?case by (simp add: ring_inv_def zo_initial_def ring_rep_def)
next
  case (run_more tr s ls s')
  then show ?case using ring_inv_step by blast
qed

text \<open>Left alone, the work item delivers the whole queue and stops.\<close>

lemma work_fn_drains:
  assumes "ring_rep s q"
  shows "\<exists>s'. zo_specialize_work_fn s = Some (q, s') \<and> ring_rep s' []"
  using assms
proof (induction q arbitrary: s)
  case Nil
  let ?s1 = "snd (zo_pop s)"
  have empty: "zo_specialize_tail s = zo_specialize_head s" using ring_empty_iff [OF Nil] by simp
  have r: "ring_rep (s\<lparr>zo_specialize_dropped := d, zo_specialize_work_queued := b\<rparr>) []" for d b
    using Nil by (simp add: ring_rep_def)
  have stop: "zo_specialize_work_fn t = Some ([], t\<lparr>zo_specialize_dropped := 0, zo_specialize_work_queued := False\<rparr>)"
    if "zo_specialize_tail t = zo_specialize_head t" "zo_specialize_dropped t = 0" for t
    using that by (subst zo_specialize_work_fn.simps) (simp add: zo_work_round_def zo_pop_specialize_event_def)
  show ?case
  proof (cases "zo_specialize_dropped s = 0")
    case True
    then show ?thesis using stop [OF empty] r by auto
  next
    case False
    have "zo_specialize_work_fn s = Option.bind (zo_specialize_work_fn (s\<lparr>zo_specialize_dropped := 0\<rparr>))
        (\<lambda>(fs, s2). Some ([] @ fs, s2))"
      using False empty by (subst zo_specialize_work_fn.simps) (simp add: zo_work_round_def zo_pop_specialize_event_def)
    then show ?thesis using stop [of "s\<lparr>zo_specialize_dropped := 0\<rparr>"] empty r by auto
  qed
next
  case (Cons e q)
  obtain s1 where s1: "zo_pop s = (Some e, s1)" "ring_rep s1 q" using ring_pop_oldest [OF Cons.prems] by blast
  then have "zo_work_round s = ([e], True, s1)"
    by (auto simp: zo_work_round_def zo_pop_def split: prod.splits option.splits)
  then have "zo_specialize_work_fn s = Option.bind (zo_specialize_work_fn s1) (\<lambda>(fs, s2). Some ([e] @ fs, s2))"
    by (subst zo_specialize_work_fn.simps) simp
  then show ?case using Cons.IH [OF s1(2)] by auto
qed


section \<open>One specialisation per process\<close>

definition forked_slots :: "int \<Rightarrow> orch \<Rightarrow> nat" where
  "forked_slots pid s = length (filter (\<lambda>c. zc_pid c = pid \<and> zc_state c = ZO_FORKED) (zo_children s))"

lemma filter_update:
  "i < length xs \<Longrightarrow> length (filter P (xs[i := y])) + of_bool (P (xs ! i)) = length (filter P xs) + of_bool (P y)"
proof (induction xs arbitrary: i)
  case (Cons x xs)
  then show ?case by (cases i) auto
qed simp

lemma slot_of_Some: "zo_slot_of pid cs = Some i \<Longrightarrow> i < length cs \<and> zc_pid (cs ! i) = pid"
  by (auto simp: zo_slot_of_def find_Some_iff)

definition app_uid :: "zo_specialize_event \<Rightarrow> bool" where
  "app_uid e \<longleftrightarrow> 10000 \<le> ze_uid e \<and> ze_appid e = ze_uid e mod 100000 \<and> ze_appid e < 90000"

definition life_inv :: "int \<Rightarrow> orch_label list \<Rightarrow> orch \<times> bool \<Rightarrow> bool" where
  "life_inv pid tr sa \<longleftrightarrow>
     length (filter (\<lambda>e. ze_pid e = pid) (specials tr)) + forked_slots pid (fst sa) \<le> forks pid tr \<and>
     list_all app_uid (specials tr)"

lemma track_forked: "forked_slots pid (zo_on_fork p tgid fz s) \<le> forked_slots pid s + (if p = pid then 1 else 0)"
proof (cases "\<exists>i. p = tgid \<and> fz \<and> zo_slot_of p (zo_children s) = None \<and> zo_slot_of 0 (zo_children s) = Some i")
  case True
  then obtain i where i: "p = tgid" "fz" "zo_slot_of p (zo_children s) = None" "zo_slot_of 0 (zo_children s) = Some i"
    by blast
  let ?P = "\<lambda>c. zc_pid c = pid \<and> zc_state c = ZO_FORKED"
  have "length (filter ?P ((zo_children s)[i := \<lparr>zc_pid = p, zc_uid = - 1, zc_state = ZO_FORKED\<rparr>])) \<le>
      length (filter ?P (zo_children s)) + (if p = pid then 1 else 0)"
    using filter_update [of i "zo_children s" ?P "\<lparr>zc_pid = p, zc_uid = - 1, zc_state = ZO_FORKED\<rparr>"] slot_of_Some [OF i(4)]
    by (auto split: if_splits)
  then show ?thesis using i by (simp add: zo_on_fork_def zo_track_def forked_slots_def)
next
  case False
  then have "zo_on_fork p tgid fz s = s" by (auto simp: zo_on_fork_def zo_track_def split: option.split)
  then show ?thesis by simp
qed

lemma free_forked: "pid \<noteq> 0 \<Longrightarrow> forked_slots pid (snd (zo_on_free p tgid s)) \<le> forked_slots pid s"
proof (cases "zo_slot_of p (zo_children s)")
  case (Some i)
  assume pid: "pid \<noteq> 0"
  let ?P = "\<lambda>c. zc_pid c = pid \<and> zc_state c = ZO_FORKED"
  have "length (filter ?P ((zo_children s)[i := (zo_children s ! i)\<lparr>zc_pid := 0\<rparr>])) \<le> length (filter ?P (zo_children s))"
    using filter_update [of i "zo_children s" ?P "(zo_children s ! i)\<lparr>zc_pid := 0\<rparr>"] slot_of_Some [OF Some] pid by simp
  then show ?thesis using Some by (cases "p = tgid") (simp_all add: zo_on_free_def forked_slots_def)
qed (cases "p = tgid"; simp add: zo_on_free_def)

lemma queue_same_children:
  "zo_queue_specialize_event pid uid appid s = (schedule, s') \<Longrightarrow> zo_children s' = zo_children s"
  by (auto simp: zo_queue_specialize_event_def Let_def split: if_splits)

lemma special_forked:
  assumes "zo_slot_of p (zo_children s) = Some i" and "zc_state (zo_children s ! i) = ZO_FORKED"
  shows "forked_slots pid (s\<lparr>zo_children := (zo_children s)[i := (zo_children s ! i)\<lparr>zc_uid := uid, zc_state := ZO_SPECIALIZED\<rparr>]\<rparr>) +
    (if p = pid then 1 else 0) = forked_slots pid s"
  using filter_update [of i "zo_children s" "\<lambda>c. zc_pid c = pid \<and> zc_state c = ZO_FORKED"
      "(zo_children s ! i)\<lparr>zc_uid := uid, zc_state := ZO_SPECIALIZED\<rparr>"] slot_of_Some [OF assms(1)] assms(2)
  by (cases "p = pid") (simp_all add: forked_slots_def)

lemma work_round_children: "zo_work_round s = (es, go_on, s') \<Longrightarrow> zo_children s' = zo_children s"
  by (auto simp: zo_work_round_def zo_pop_specialize_event_def split: if_splits)

lemma life_inv_step:
  assumes "life_inv pid tr s" and "orch_step s ls s'" and "pid \<noteq> 0"
  shows "life_inv pid (tr @ ls) s'"
  using assms(2)
proof cases
  case (orch_fork t a p tgid fz)
  then show ?thesis using assms(1) track_forked [of pid p tgid fz t] by (auto simp: life_inv_def)
next
  case (orch_free t a p tgid)
  then show ?thesis using assms(1) free_forked [OF assms(3), of p tgid t] by (simp add: life_inv_def)
next
  case (orch_exit p uid ret c nr t schedule t' a)
  from this(4) have "t' = t" by (rule sys_exit_cases) simp_all
  then show ?thesis using orch_exit(1-3) assms(1) by (simp add: life_inv_def)
next
  case (orch_special p uid ret c nr t e schedule t' a)
  from this(4) show ?thesis
  proof (rule sys_exit_cases)
    fix f i
    assume f: "Some e = Some f" "f = \<lparr>ze_pid = p, ze_uid = uid, ze_appid = uid mod 100000\<rparr>" "10000 \<le> uid"
        "uid mod 100000 < 90000"
      and slot: "zo_slot_of p (zo_children t) = Some i" "zc_state (zo_children t ! i) = ZO_FORKED"
      and push: "zo_queue_specialize_event p uid (uid mod 100000)
        (t\<lparr>zo_children := (zo_children t)[i := (zo_children t ! i)\<lparr>zc_uid := uid, zc_state := ZO_SPECIALIZED\<rparr>]\<rparr>) = (schedule, t')"
    have "forked_slots pid t' + (if p = pid then 1 else 0) = forked_slots pid t"
      using special_forked [OF slot, of pid uid] queue_same_children [OF push] by (simp add: forked_slots_def)
    moreover have "ze_pid e = p" "app_uid e" using f by (simp_all add: app_uid_def)
    ultimately show ?thesis using assms(1) orch_special(1-3) by (cases "p = pid") (simp_all add: life_inv_def)
  qed simp
next
  case (orch_work t es go_on t')
  then show ?thesis using assms(1) work_round_children [of t es go_on t'] by (simp add: life_inv_def forked_slots_def)
qed


section \<open>A sample run\<close>

text \<open>Process 7 is forked from zygote and takes uid 10123.\<close>

lemma slot_first: "cs \<noteq> [] \<Longrightarrow> zc_pid (cs ! 0) = pid \<Longrightarrow> zo_slot_of pid cs = Some 0"
  by (simp add: zo_slot_of_def upt_conv_Cons)

lemma slot_replicate: "zc_pid c \<noteq> pid \<Longrightarrow> zo_slot_of pid (replicate n c) = None"
  by (auto simp: zo_slot_of_def find_None_iff)

definition sample_forked :: orch where
  "sample_forked = zo_initial\<lparr>zo_children := (zo_children zo_initial)[0 := \<lparr>zc_pid = 7, zc_uid = - 1, zc_state = ZO_FORKED\<rparr>]\<rparr>"

lemma sample_fork: "zo_on_fork 7 7 True zo_initial = sample_forked"
  by (simp add: zo_on_fork_def zo_track_def zo_initial_def slot_replicate slot_first sample_forked_def)

lemma sample_special: "\<exists>s. zo_on_sys_exit 7 10123 0 False 147 sample_forked =
    (Some \<lparr>ze_pid = 7, ze_uid = 10123, ze_appid = 10123\<rparr>, True, s)"
  by (simp add: zo_on_sys_exit_def yz_zygote_orch_on_setresuid_def sample_forked_def zo_initial_def slot_first
      zo_queue_specialize_event_def)

lemma sample_orch_run:
  "\<exists>s. orch_run [L_Fork 7, L_Special \<lparr>ze_pid = 7, ze_uid = 10123, ze_appid = 10123\<rparr>] (s, True)"
proof -
  obtain s where s: "zo_on_sys_exit 7 10123 0 False 147 sample_forked =
    (Some \<lparr>ze_pid = 7, ze_uid = 10123, ze_appid = 10123\<rparr>, True, s)" using sample_special by blast
  have "orch_run ([] @ [L_Fork 7]) (sample_forked, False)"
    using run_more [OF run_start orch_fork [of zo_initial False 7 7 True]] by (simp add: sample_fork)
  from run_more [OF this orch_special [OF s]] show ?thesis by auto
qed



end
