(* ===== verification/Zygote_Ctl.thy ===== *)
theory Zygote_Ctl
  imports Kernel_Policy
begin

text \<open>
  Handing module files to an app process, \<^verbatim>\<open>kernel/feature/zygote_ctl.c\<close>: the daemon's handoff takes
  references to its files and stores them in a slot for the target process, a task work installs them
  as descriptors when the target returns to user space, and freeing the process drops them.

  A file is a number; taking, dropping and installing a reference are recorded in a log, so that
  reference counting is a property of the log and the slots.  Each function is one step: everything
  that touches the slots is under \<^verbatim>\<open>yz_ctl_lock\<close>, and the references are in local variables otherwise.
  The list \<open>ctl_works\<close> holds the task works added and not yet run, with the target and the slot they
  are embedded in.  The entries of \<^verbatim>\<open>files\<close> from \<^verbatim>\<open>n\<close> on are never read, so a slot has the first \<^verbatim>\<open>n\<close>.
\<close>

section \<open>State\<close>

record yz_pending =
  yp_pid :: int
  yp_appid :: u32
  yp_flags :: u32
  yp_files :: "nat list"

datatype file_event = Got nat | Dropped nat | Installed int int nat

record ctl =
  ctl_pending :: "yz_pending list"
  ctl_works :: "(int \<times> nat) list"
  ctl_log :: "file_event list"

definition empty_slot :: yz_pending where
  "empty_slot = \<lparr>yp_pid = 0, yp_appid = 0, yp_flags = 0, yp_files = []\<rparr>"

definition ctl_initial :: ctl where
  "ctl_initial = \<lparr>ctl_pending = replicate 64 empty_slot, ctl_works = [], ctl_log = []\<rparr>"

definition record_events :: "file_event list \<Rightarrow> ctl \<Rightarrow> ctl" where
  "record_events es s = s\<lparr>ctl_log := ctl_log s @ es\<rparr>"

section \<open>Operations\<close>

definition yz_slot_of :: "int \<Rightarrow> yz_pending list \<Rightarrow> nat option" where
  "yz_slot_of pid ps = find (\<lambda>i. yp_pid (ps ! i) = pid) [0..<length ps]"

text \<open>The callback in the context of process \<open>pid\<close>; \<open>unused j\<close> is what \<^verbatim>\<open>get_unused_fd_flags\<close> gives for
  file \<open>j\<close>.\<close>

fun install_files :: "int \<Rightarrow> (nat \<Rightarrow> int) \<Rightarrow> nat \<Rightarrow> nat list \<Rightarrow> file_event list" where
  "install_files pid unused j [] = []"
| "install_files pid unused j (f # fs) =
     (if unused j < 0 then Dropped f else Installed pid (unused j) f) # install_files pid unused (j + 1) fs"

definition yz_deliver_cb :: "int \<Rightarrow> nat \<Rightarrow> bool \<Rightarrow> (nat \<Rightarrow> int) \<Rightarrow> ctl \<Rightarrow> ctl" where
  "yz_deliver_cb pid i exiting unused s =
     (let files = yp_files (ctl_pending s ! i);
          s1 = s\<lparr>ctl_pending := (ctl_pending s)[i := empty_slot]\<rparr>
      in if exiting then record_events (map Dropped files) s1
         else record_events (install_files pid unused 0 files) s1)"

record yz_handoff_cmd =
  hc_pid :: int
  hc_appid :: u32
  hc_flags :: u32
  hc_n_fds :: u32
  hc_fds :: "int list"

text \<open>The loop that takes references: the files so far, and whether all descriptors were open.\<close>

fun fget_all :: "(int \<Rightarrow> nat option) \<Rightarrow> int list \<Rightarrow> nat list \<times> bool" where
  "fget_all fget [] = ([], True)"
| "fget_all fget (fd # fds) =
     (case fget fd of
        None \<Rightarrow> ([], False)
      | Some f \<Rightarrow> (case fget_all fget fds of (fs, ok) \<Rightarrow> (f # fs, ok)))"

text \<open>The slot of an earlier handoff for the process, else a free one.\<close>

definition handoff_slot :: "int \<Rightarrow> yz_pending list \<Rightarrow> nat option" where
  "handoff_slot pid ps = (case yz_slot_of pid ps of Some i \<Rightarrow> Some i | None \<Rightarrow> yz_slot_of 0 ps)"

text \<open>\<open>fget\<close> gives the daemon's open files, \<open>task\<close> tells whether the target exists and \<open>added\<close> whether
  its task work could be added.\<close>

definition yz_zygote_ctl_handoff ::
  "(int \<Rightarrow> nat option) \<Rightarrow> bool \<Rightarrow> bool \<Rightarrow> yz_handoff_cmd \<Rightarrow> ctl \<Rightarrow> errno option \<times> ctl" where
  "yz_zygote_ctl_handoff fget task added cmd s =
     (if hc_n_fds cmd > 8 then (Some EINVAL, s)
      else case fget_all fget (take (unat (hc_n_fds cmd)) (hc_fds cmd)) of (files, ok) \<Rightarrow>
        let s1 = record_events (map Got files) s
        in if \<not> ok then (Some EBADF, record_events (map Dropped files) s1)
           else case handoff_slot (hc_pid cmd) (ctl_pending s) of
               None \<Rightarrow> (Some ENOSPC, record_events (map Dropped files) s1)
             | Some i \<Rightarrow>
                 let old = yp_files (ctl_pending s1 ! i);
                     s2 = s1\<lparr>ctl_pending := (ctl_pending s1)[i := \<lparr>yp_pid = hc_pid cmd, yp_appid = hc_appid cmd,
                                yp_flags = hc_flags cmd, yp_files = files\<rparr>],
                              ctl_works := (if task \<and> added then ctl_works s1 @ [(hc_pid cmd, i)] else ctl_works s1)\<rparr>
                 in (None, record_events (map Dropped old) s2))"

definition yz_zygote_ctl_release :: "int \<Rightarrow> ctl \<Rightarrow> ctl" where
  "yz_zygote_ctl_release pid s =
     (case yz_slot_of pid (ctl_pending s) of
        Some i \<Rightarrow> record_events (map Dropped (yp_files (ctl_pending s ! i)))
                    (s\<lparr>ctl_pending := (ctl_pending s)[i := empty_slot]\<rparr>)
      | None \<Rightarrow> s)"

definition yz_zygote_ctl_exit :: "ctl \<Rightarrow> ctl" where
  "yz_zygote_ctl_exit s =
     record_events (concat (map (\<lambda>p. map Dropped (yp_files p)) (ctl_pending s)))
       (s\<lparr>ctl_pending := map (\<lambda>p. p\<lparr>yp_pid := 0, yp_files := []\<rparr>) (ctl_pending s)\<rparr>)"

section \<open>Reference counting\<close>

text \<open>Handoffs, task works, releases and unloading in any order.  A task work runs once for each time it
  was added.\<close>

inductive ctl_step :: "ctl \<Rightarrow> ctl \<Rightarrow> bool" where
  ctl_handoff: "ctl_step s (snd (yz_zygote_ctl_handoff fget task added cmd s))"
| ctl_deliver: "ctl_works s = us @ (pid, i) # ws \<Longrightarrow>
    ctl_step s (yz_deliver_cb pid i exiting unused (s\<lparr>ctl_works := us @ ws\<rparr>))"
| ctl_release: "ctl_step s (yz_zygote_ctl_release pid s)"
| ctl_exit: "ctl_step s (yz_zygote_ctl_exit s)"

inductive ctl_reachable :: "ctl \<Rightarrow> bool" where
  ctl_start: "ctl_reachable ctl_initial"
| ctl_more: "ctl_reachable s \<Longrightarrow> ctl_step s s' \<Longrightarrow> ctl_reachable s'"

definition got :: "nat \<Rightarrow> file_event list \<Rightarrow> nat" where
  "got f es = length (filter (\<lambda>e. e = Got f) es)"

definition gone :: "nat \<Rightarrow> file_event list \<Rightarrow> nat" where
  "gone f es = length (filter (\<lambda>e. e = Dropped f \<or> (\<exists>pid fd. e = Installed pid fd f)) es)"

definition waiting :: "nat \<Rightarrow> yz_pending list \<Rightarrow> nat" where
  "waiting f ps = sum_list (map (\<lambda>p. count_list (yp_files p) f) ps)"

lemma event_counts [simp]:
  "got f (es @ es') = got f es + got f es'" "gone f (es @ es') = gone f es + gone f es'"
  "got f (map Got fs) = count_list fs f" "got f (map Dropped fs) = 0"
  "gone f (map Got fs) = 0" "gone f (map Dropped fs) = count_list fs f"
  "got f (install_files pid unused j fs) = 0" "gone f (install_files pid unused j fs) = count_list fs f"
proof -
  show "got f (es @ es') = got f es + got f es'" "gone f (es @ es') = gone f es + gone f es'"
    by (simp_all add: got_def gone_def)
  show "got f (map Got fs) = count_list fs f" "got f (map Dropped fs) = 0" "gone f (map Got fs) = 0"
      "gone f (map Dropped fs) = count_list fs f"
    by (induction fs) (auto simp: got_def gone_def)
  show "got f (install_files pid unused j fs) = 0" "gone f (install_files pid unused j fs) = count_list fs f"
    by (induction fs arbitrary: j) (auto simp: got_def gone_def)
qed

lemma waiting_update: "i < length ps \<Longrightarrow> count_list (yp_files (ps ! i)) f + waiting f (ps[i := p]) = waiting f ps + count_list (yp_files p) f"
proof (induction ps arbitrary: i)
  case (Cons q ps)
  then show ?case by (cases i) (auto simp: waiting_def)
qed simp

lemma waiting_clear: "i < length ps \<Longrightarrow> count_list (yp_files (ps ! i)) f + waiting f (ps[i := empty_slot]) = waiting f ps"
  using waiting_update [of i ps f empty_slot] by (simp add: empty_slot_def)

definition ctl_inv :: "ctl \<Rightarrow> bool" where
  "ctl_inv s \<longleftrightarrow> length (ctl_pending s) = 64 \<and> (\<forall>w \<in> set (ctl_works s). snd w < 64) \<and>
     (\<forall>f. got f (ctl_log s) = gone f (ctl_log s) + waiting f (ctl_pending s))"

lemma yz_slot_Some: "yz_slot_of pid ps = Some i \<Longrightarrow> i < length ps"
  by (auto simp: yz_slot_of_def find_Some_iff)

lemma handoff_inv:
  assumes "ctl_inv s"
  shows "ctl_inv (snd (yz_zygote_ctl_handoff fget task added cmd s))"
proof -
  obtain files ok where g: "fget_all fget (take (unat (hc_n_fds cmd)) (hc_fds cmd)) = (files, ok)" by fastforce
  let ?slot = "handoff_slot (hc_pid cmd) (ctl_pending s)"
  show ?thesis
  proof (cases "hc_n_fds cmd > 8 \<or> \<not> ok \<or> ?slot = None")
    case True
    then show ?thesis
      using assms by (auto simp: yz_zygote_ctl_handoff_def g record_events_def ctl_inv_def Let_def split: option.splits)
  next
    case False
    then obtain i where i: "?slot = Some i" by blast
    then have "i < 64" using assms by (auto simp: ctl_inv_def handoff_slot_def dest!: yz_slot_Some split: option.splits)
    then show ?thesis
      using assms False i waiting_update [of i "ctl_pending s"]
      by (auto simp: yz_zygote_ctl_handoff_def g record_events_def ctl_inv_def Let_def)
  qed
qed

lemma deliver_inv:
  assumes "ctl_inv s" and "i < 64"
  shows "ctl_inv (yz_deliver_cb pid i exiting unused s)"
  using assms by (auto simp: yz_deliver_cb_def record_events_def ctl_inv_def Let_def waiting_clear)

lemma release_inv:
  assumes "ctl_inv s"
  shows "ctl_inv (yz_zygote_ctl_release pid s)"
proof (cases "yz_slot_of pid (ctl_pending s)")
  case (Some i)
  then show ?thesis
    using assms yz_slot_Some [OF Some] by (auto simp: yz_zygote_ctl_release_def record_events_def ctl_inv_def waiting_clear)
qed (use assms in \<open>simp add: yz_zygote_ctl_release_def\<close>)

lemma dropped_all: "got f (concat (map (\<lambda>p. map Dropped (yp_files p)) ps)) = 0"
  "gone f (concat (map (\<lambda>p. map Dropped (yp_files p)) ps)) = waiting f ps"
  by (induction ps) (auto simp: waiting_def, auto simp: got_def gone_def)

lemma waiting_cleared: "waiting f (map (\<lambda>p. p\<lparr>yp_pid := 0, yp_files := []\<rparr>) ps) = 0"
  by (induction ps) (auto simp: waiting_def)

lemma exit_inv: "ctl_inv s \<Longrightarrow> ctl_inv (yz_zygote_ctl_exit s)"
  by (simp add: yz_zygote_ctl_exit_def record_events_def ctl_inv_def dropped_all waiting_cleared)

lemma ctl_reachable_inv: "ctl_reachable s \<Longrightarrow> ctl_inv s"
proof (induction rule: ctl_reachable.induct)
  case ctl_start
  show ?case by (simp add: ctl_inv_def ctl_initial_def waiting_def empty_slot_def got_def gone_def sum_list_replicate)
next
  case (ctl_more s s')
  from ctl_more(2) show ?case
  proof cases
    case (ctl_deliver us pid i ws exiting unused)
    moreover have "ctl_inv (s\<lparr>ctl_works := us @ ws\<rparr>)" "i < 64"
      using ctl_more.IH ctl_deliver(2) by (auto simp: ctl_inv_def)
    ultimately show ?thesis using deliver_inv by blast
  qed (use ctl_more.IH in \<open>auto intro: handoff_inv release_inv exit_inv\<close>)
qed


section \<open>A sample handoff\<close>

definition sample_handoff :: "int \<Rightarrow> yz_handoff_cmd" where
  "sample_handoff fd = \<lparr>hc_pid = 7, hc_appid = 10123, hc_flags = 0, hc_n_fds = 1, hc_fds = [fd, 0, 0, 0, 0, 0, 0, 0]\<rparr>"

lemma yz_slot_first: "ps \<noteq> [] \<Longrightarrow> yp_pid (ps ! 0) = pid \<Longrightarrow> yz_slot_of pid ps = Some 0"
  by (simp add: yz_slot_of_def upt_conv_Cons)

lemma yz_slot_absent: "yp_pid p \<noteq> pid \<Longrightarrow> yz_slot_of pid (replicate n p) = None"
  by (auto simp: yz_slot_of_def find_None_iff)

definition sample_pending :: ctl where
  "sample_pending = \<lparr>ctl_pending = (replicate 64 empty_slot)[0 := \<lparr>yp_pid = 7, yp_appid = 10123, yp_flags = 0, yp_files = [3]\<rparr>],
     ctl_works = [(7, 0)], ctl_log = [Got 3]\<rparr>"

lemma sample_first_handoff:
  "yz_zygote_ctl_handoff (\<lambda>fd. Some (nat fd)) True True (sample_handoff 3) ctl_initial = (None, sample_pending)"
  by (simp add: yz_zygote_ctl_handoff_def sample_handoff_def ctl_initial_def record_events_def yz_slot_absent
      yz_slot_first empty_slot_def sample_pending_def handoff_slot_def)

lemma sample_pending_reachable: "ctl_reachable sample_pending"
  using ctl_more [OF ctl_start ctl_handoff, of "\<lambda>fd. Some (nat fd)" True True "sample_handoff 3"]
  by (simp add: sample_first_handoff)


text \<open>A second handoff for a process whose first one was not yet delivered uses the same slot and adds
  the task work embedded in it again while it is still on the list of the task.\<close>

lemma pending_work_added_twice:
  assumes "yz_slot_of (hc_pid cmd) (ctl_pending s) = Some i" and "(hc_pid cmd, i) \<in> set (ctl_works s)"
    and "yz_zygote_ctl_handoff fget True True cmd s = (None, s')"
  shows "2 \<le> count_list (ctl_works s') (hc_pid cmd, i)"
proof -
  have "ctl_works s' = ctl_works s @ [(hc_pid cmd, i)]"
    using assms(1,3) by (auto simp: yz_zygote_ctl_handoff_def handoff_slot_def record_events_def Let_def split: if_splits prod.splits)
  moreover have "count_list (ctl_works s) (hc_pid cmd, i) \<noteq> 0" using assms(2) by (simp add: count_list_0_iff)
  ultimately show ?thesis by simp
qed

end
