(* ===== verification/Zygote_Guard.thy ===== *)
theory Zygote_Guard
  imports Kernel_Policy
begin

text \<open>
  What \<^verbatim>\<open>kernel/feature/zygote_probe.c\<close> decides about a process that executes a file: whether it is
  zygote, which zygote it is (from its arguments), whether zygote has crashed so often that injection is
  switched off (safe mode), and whether it is one of the native targets.

  A character array is the string before its terminating NUL.  The argument area of a process is the
  list of its bytes, \<open>None\<close> where reading faults.
\<close>

section \<open>Names and paths\<close>

definition NUL :: char where "NUL = CHR 0x00"

text \<open>The part of a path behind the last slash.\<close>

definition zp_basename :: "string \<Rightarrow> string" where
  "zp_basename path = rev (takeWhile (\<lambda>c. c \<noteq> CHR 0x2F) (rev path))"

definition zp_is_app_process_path :: "string option \<Rightarrow> bool" where
  "zp_is_app_process_path filename =
     (case filename of None \<Rightarrow> False | Some f \<Rightarrow> take 11 (zp_basename f) = ''app_process'')"

definition zp_copy_name :: "nat \<Rightarrow> string \<Rightarrow> string" where
  "zp_copy_name dst_len src = take (dst_len - 1) src"

section \<open>The arguments of zygote\<close>

text \<open>The loop that copies an argument; \<open>c\<close> is the last character read, \<open>room\<close> what is left of the buffer.\<close>

fun read_arg :: "char \<Rightarrow> nat \<Rightarrow> char option list \<Rightarrow> (string \<times> char \<times> char option list) option" where
  "read_arg c 0 area = Some ([], c, area)"
| "read_arg c (Suc room) [] = Some ([], c, [])"
| "read_arg c (Suc room) (None # area) = None"
| "read_arg c (Suc room) (Some d # area) =
     (if d = NUL then Some ([], d, area)
      else case read_arg d room area of None \<Rightarrow> None | Some (arg, e, rest) \<Rightarrow> Some (d # arg, e, rest))"

fun skip_arg :: "char option list \<Rightarrow> char option list option" where
  "skip_arg [] = Some []"
| "skip_arg (None # area) = None"
| "skip_arg (Some d # area) = (if d = NUL then Some area else skip_arg area)"

definition zp_next_arg :: "nat \<Rightarrow> char option list \<Rightarrow> (string \<times> char option list) option" where
  "zp_next_arg arg_len area =
     (if arg_len = 0 \<or> area = [] then None
      else case read_arg NUL (arg_len - 1) area of
        None \<Rightarrow> None
      | Some (arg, c, rest) \<Rightarrow>
          if c = NUL then Some (arg, rest)
          else (case skip_arg rest of None \<Rightarrow> None | Some rest' \<Rightarrow> Some (arg, rest')))"

definition socket_prefix :: string where "socket_prefix = ''--socket-name=''"

definition zygote_arg :: "nat \<Rightarrow> string \<Rightarrow> bool \<times> string \<Rightarrow> bool \<times> string" where
  "zygote_arg name_len arg fs =
     (if arg = ''-Xzygote'' then (True, snd fs)
      else if take 14 arg = socket_prefix then (fst fs, zp_copy_name name_len (drop 14 arg))
      else fs)"

text \<open>At most 64 arguments are looked at; a fault gives \<open>None\<close>.\<close>

fun zygote_args :: "nat \<Rightarrow> nat \<Rightarrow> char option list \<Rightarrow> bool \<times> string \<Rightarrow> (bool \<times> string) option" where
  "zygote_args name_len 0 area fs = Some fs"
| "zygote_args name_len (Suc n) area fs =
     (if area = [] then Some fs
      else case zp_next_arg 96 area of
        None \<Rightarrow> None
      | Some (arg, rest) \<Rightarrow> zygote_args name_len n rest (zygote_arg name_len arg fs))"

text \<open>\<open>area\<close> is \<open>None\<close> for a process without memory or arguments; the result is the name of the socket
  when the process is zygote.\<close>

definition zp_parse_zygote_args :: "nat \<Rightarrow> char option list option \<Rightarrow> string option" where
  "zp_parse_zygote_args name_len area =
     (case area of
        None \<Rightarrow> None
      | Some bytes \<Rightarrow>
          if bytes = [] then None
          else (case zygote_args name_len 64 bytes (False, []) of
              None \<Rightarrow> None
            | Some (found, name) \<Rightarrow>
                if \<not> found then None
                else if name_len \<noteq> 0 \<and> name = [] then Some (zp_copy_name name_len ''zygote'') else Some name))"

section \<open>Safe mode\<close>

record zp_zygote_guard =
  zg_name :: string
  zg_last_pid :: int
  zg_crashes :: u32

record safemode =
  sm_guards :: "zp_zygote_guard list"
  sm_active :: bool
  sm_crashes :: u32
  sm_zygote :: string

definition no_guard :: zp_zygote_guard where
  "no_guard = \<lparr>zg_name = [], zg_last_pid = 0, zg_crashes = 0\<rparr>"

definition safemode_initial :: safemode where
  "safemode_initial = \<lparr>sm_guards = replicate 4 no_guard, sm_active = False, sm_crashes = 0, sm_zygote = []\<rparr>"

text \<open>The guard with a name, and the first free one before it (or of all).\<close>

definition zp_zygote_guard_slot :: "string \<Rightarrow> zp_zygote_guard list \<Rightarrow> nat option" where
  "zp_zygote_guard_slot name gs = find (\<lambda>i. zg_name (gs ! i) \<noteq> [] \<and> zg_name (gs ! i) = name) [0..<length gs]"

definition free_guard_slot :: "zp_zygote_guard list \<Rightarrow> nat option" where
  "free_guard_slot gs = find (\<lambda>i. zg_name (gs ! i) = []) [0..<length gs]"

definition claim_guard :: "string \<Rightarrow> zp_zygote_guard list \<Rightarrow> nat option \<times> zp_zygote_guard list" where
  "claim_guard zygote gs =
     (case zp_zygote_guard_slot zygote gs of
        Some i \<Rightarrow> (Some i, gs)
      | None \<Rightarrow>
          (case free_guard_slot gs of
             Some i \<Rightarrow> (Some i, gs[i := (gs ! i)\<lparr>zg_name := zp_copy_name 64 zygote\<rparr>])
           | None \<Rightarrow> (None, gs)))"

text \<open>A zygote seen with the guard \<open>g\<close>: the guard afterwards, and whether this was a restart.\<close>

definition note_pid :: "int \<Rightarrow> zp_zygote_guard \<Rightarrow> zp_zygote_guard \<times> bool" where
  "note_pid pid g =
     (if zg_last_pid g = 0 then (g\<lparr>zg_last_pid := pid\<rparr>, False)
      else if zg_last_pid g \<noteq> pid then (g\<lparr>zg_last_pid := pid, zg_crashes := zg_crashes g + 1\<rparr>, True)
      else (g, False))"

definition zygote_name :: "string option \<Rightarrow> string" where
  "zygote_name name = zp_copy_name 64 (case name of Some (c # cs) \<Rightarrow> c # cs | _ \<Rightarrow> ''zygote'')"

text \<open>Whether to skip the injection, and the event for the daemon, if any.\<close>

definition zp_zygote_safemode_should_skip ::
  "string option \<Rightarrow> int \<Rightarrow> safemode \<Rightarrow> bool \<times> (int \<times> u32) option \<times> safemode" where
  "zp_zygote_safemode_should_skip name pid s =
     (let zygote = zygote_name name in
      case claim_guard zygote (sm_guards s) of (slot, gs) \<Rightarrow>
        if sm_active s then
          (True, None, s\<lparr>sm_guards := (case slot of Some i \<Rightarrow> gs[i := (gs ! i)\<lparr>zg_last_pid := pid\<rparr>] | None \<Rightarrow> gs)\<rparr>)
        else
          (case slot of
             None \<Rightarrow> (False, None, s\<lparr>sm_guards := gs\<rparr>)
           | Some i \<Rightarrow>
               (case note_pid pid (gs ! i) of (g, restart) \<Rightarrow>
                  if restart \<and> 3 \<le> zg_crashes g then
                    (True, Some (pid, zg_crashes g),
                     s\<lparr>sm_guards := gs[i := g], sm_active := True, sm_crashes := zg_crashes g, sm_zygote := zp_copy_name 64 zygote\<rparr>)
                  else (False, None, s\<lparr>sm_guards := gs[i := g]\<rparr>))))"

record yz_safemode_status =
  ss_active :: u32
  ss_zygote_crashes :: u32
  ss_zygote :: string

definition yz_zygote_probe_get_safemode :: "safemode \<Rightarrow> yz_safemode_status" where
  "yz_zygote_probe_get_safemode s =
     \<lparr>ss_active = (if sm_active s then 1 else 0), ss_zygote_crashes = sm_crashes s, ss_zygote = zp_copy_name 64 (sm_zygote s)\<rparr>"

record yz_zygote_variant =
  zv_pid :: u32
  zv_crashes :: u32
  zv_name :: string

definition yz_zygote_probe_get_variants :: "safemode \<Rightarrow> yz_zygote_variant list" where
  "yz_zygote_probe_get_variants s =
     take 4 (map (\<lambda>g. \<lparr>zv_pid = of_int (zg_last_pid g), zv_crashes = zg_crashes g, zv_name = zp_copy_name 64 (zg_name g)\<rparr>)
       (filter (\<lambda>g. zg_name g \<noteq> [] \<and> 0 < zg_last_pid g) (sm_guards s)))"

section \<open>Native targets\<close>

record yz_native_target =
  nt_type :: u8
  nt_value :: string

abbreviation (input) TARGET_NAME :: u8 where "TARGET_NAME \<equiv> 1"
abbreviation (input) TARGET_PATH :: u8 where "TARGET_PATH \<equiv> 2"

text \<open>\<open>None\<close> for a null command; a target is copied with its last byte set to NUL.\<close>

definition yz_zygote_probe_set_native_targets ::
  "(u32 \<times> yz_native_target list) option \<Rightarrow> yz_native_target list \<Rightarrow> errno option \<times> yz_native_target list" where
  "yz_zygote_probe_set_native_targets cmd old =
     (case cmd of
        None \<Rightarrow> (Some EINVAL, old)
      | Some (count, targets) \<Rightarrow>
          (None, map (\<lambda>t. t\<lparr>nt_value := take 255 (nt_value t)\<rparr>)
             (filter (\<lambda>t. (nt_type t = TARGET_NAME \<or> nt_type t = TARGET_PATH) \<and> nt_value t \<noteq> [])
               (take (if count > 64 then 64 else unat count) targets))))"

definition target_matches :: "string \<Rightarrow> u8 \<Rightarrow> string \<Rightarrow> bool" where
  "target_matches filename ttype val \<longleftrightarrow>
     (if ttype = TARGET_NAME then zp_basename filename = val
      else if ttype = TARGET_PATH then filename = val else False)"

definition zp_match_live_native_target :: "nat \<Rightarrow> string option \<Rightarrow> yz_native_target list \<Rightarrow> (string \<times> u8) option" where
  "zp_match_live_native_target label_len filename targets =
     (case filename of
        None \<Rightarrow> None
      | Some f \<Rightarrow>
          (case find (\<lambda>t. target_matches f (nt_type t) (nt_value t)) targets of
             None \<Rightarrow> None
           | Some t \<Rightarrow> Some (zp_copy_name label_len (nt_value t), nt_type t)))"

section \<open>Parsing the arguments\<close>

text \<open>The argument area of a process with the arguments \<open>args\<close>.\<close>

definition arg_area :: "string list \<Rightarrow> char option list" where
  "arg_area args = concat (map (\<lambda>a. map Some a @ [Some NUL]) args)"

lemma read_arg_whole: "NUL \<notin> set a \<Longrightarrow> length a < room \<Longrightarrow>
    read_arg c room (map Some a @ Some NUL # rest) = Some (a, NUL, rest)"
proof (induction a arbitrary: c room)
  case Nil
  then show ?case by (cases room) auto
next
  case (Cons d a)
  then show ?case by (cases room) auto
qed

lemma read_arg_cut: "NUL \<notin> set a \<Longrightarrow> room \<le> length a \<Longrightarrow>
    read_arg c room (map Some a @ rest) = Some (take room a, if room = 0 then c else a ! (room - 1), map Some (drop room a) @ rest)"
proof (induction a arbitrary: c room)
  case (Cons d a)
  show ?case
  proof (cases room)
    case (Suc n)
    then show ?thesis using Cons by (cases n) auto
  qed simp
qed simp

lemma skip_arg_rest: "NUL \<notin> set a \<Longrightarrow> skip_arg (map Some a @ Some NUL # rest) = Some rest"
  by (induction a) auto

lemma zp_next_arg_area:
  assumes "NUL \<notin> set a"
  shows "zp_next_arg 96 (map Some a @ Some NUL # rest) = Some (take 95 a, rest)"
proof (cases "length a < 95")
  case True
  then show ?thesis using read_arg_whole [OF assms True, of NUL rest] by (simp add: zp_next_arg_def)
next
  case False
  then have "a ! 94 \<in> set a" by simp
  then have "a ! 94 \<noteq> NUL" using assms by metis
  moreover have "NUL \<notin> set (drop 95 a)" using assms by (meson in_set_dropD)
  ultimately show ?thesis
    using read_arg_cut [OF assms, of 95 NUL "Some NUL # rest"] skip_arg_rest False by (simp add: zp_next_arg_def)
qed

lemma zygote_args_area:
  assumes "\<forall>a \<in> set args. NUL \<notin> set a"
  shows "zygote_args name_len n (arg_area args) fs =
    Some (foldl (\<lambda>fs a. zygote_arg name_len (take 95 a) fs) fs (take n args))"
  using assms
proof (induction args arbitrary: n fs)
  case Nil
  then show ?case by (cases n) (simp_all add: arg_area_def)
next
  case (Cons a args)
  have "arg_area (a # args) = map Some a @ Some NUL # arg_area args" by (simp add: arg_area_def)
  then show ?case using Cons zp_next_arg_area [of a "arg_area args"] by (cases n) auto
qed

text \<open>The reference: the name of the last argument for the socket, cut to the buffers, or the default.\<close>

definition socket_args :: "string list \<Rightarrow> string list" where
  "socket_args args = filter (\<lambda>a. take 14 a = socket_prefix) args"

definition socket_of :: "string list \<Rightarrow> string" where
  "socket_of args = (if socket_args args = [] then [] else take 63 (drop 14 (take 95 (last (socket_args args)))))"

lemma fold_zygote_args:
  "foldl (\<lambda>fs a. zygote_arg 64 (take 95 a) fs) (False, []) args = (''-Xzygote'' \<in> set args, socket_of args)"
proof (induction args rule: rev_induct)
  case (snoc a args)
  have x: "take 95 a = ''-Xzygote'' \<longleftrightarrow> a = ''-Xzygote''"
  proof
    assume t: "take 95 a = ''-Xzygote''"
    then have "length (take 95 a) = 8" by simp
    then have "length a = 8" by simp
    then show "a = ''-Xzygote''" using t by simp
  qed simp
  have p: "take 14 (take 95 a) = take 14 a" by (simp add: min_def)
  have "take 14 ''-Xzygote'' \<noteq> socket_prefix" by (simp add: socket_prefix_def)
  with snoc x p show ?case
    by (auto simp: zygote_arg_def socket_of_def socket_args_def zp_copy_name_def)
qed (simp add: socket_of_def socket_args_def)

text \<open>C38: The argument area of a process is parsed as its argument list.  For arguments that can be read
  and contain no NUL, among which only the first 64 count, a process is taken for zygote exactly when
  one of them is \<open>-Xzygote\<close>; its name is that of the last argument \<open>--socket-name=\<close>, cut to the 95 and
  63 characters of the buffers, and \<open>zygote\<close> when there is none or it is empty.\<close>

theorem zygote_args_parsed:
  assumes "\<forall>a \<in> set args. NUL \<notin> set a" and "args \<noteq> []"
  shows "zp_parse_zygote_args 64 (Some (arg_area args)) =
    (if ''-Xzygote'' \<in> set (take 64 args)
     then Some (if socket_of (take 64 args) = [] then ''zygote'' else socket_of (take 64 args)) else None)"
proof -
  have "arg_area args \<noteq> []" using assms(2) by (cases args) (simp_all add: arg_area_def)
  then show ?thesis
    using zygote_args_area [OF assms(1), of 64 64 "(False, [])"]
    by (simp add: zp_parse_zygote_args_def fold_zygote_args zp_copy_name_def)
qed

theorem zygote_args_parsed_witness:
  "zp_parse_zygote_args 64 (Some (arg_area [''app_process64'', ''-Xzygote'', ''--socket-name=zygote_secondary''])) =
     Some ''zygote_secondary''"
  using zygote_args_parsed [of "[''app_process64'', ''-Xzygote'', ''--socket-name=zygote_secondary'']"]
  by (simp add: NUL_def socket_of_def socket_args_def socket_prefix_def)

section \<open>Safe mode counts the restarts\<close>

text \<open>The pids seen under a zygote's name, and how often the pid differs from the one before.\<close>

definition pids_of :: "string \<Rightarrow> (string option \<times> int) list \<Rightarrow> int list" where
  "pids_of z calls = map snd (filter (\<lambda>c. zygote_name (fst c) = z) calls)"

fun changes :: "int list \<Rightarrow> nat" where
  "changes (p # q # ps) = (if p = q then 0 else 1) + changes (q # ps)"
| "changes ps = 0"

definition sm_after :: "(string option \<times> int) list \<Rightarrow> safemode" where
  "sm_after calls = foldl (\<lambda>s c. snd (snd (zp_zygote_safemode_should_skip (fst c) (snd c) s))) safemode_initial calls"

definition names_of :: "(string option \<times> int) list \<Rightarrow> string set" where
  "names_of calls = zygote_name ` fst ` set calls"

definition seen :: "(string option \<times> int) list \<Rightarrow> string \<Rightarrow> zp_zygote_guard" where
  "seen calls z = \<lparr>zg_name = z, zg_last_pid = last (pids_of z calls), zg_crashes = of_nat (changes (pids_of z calls))\<rparr>"

lemma changes_snoc: "changes (ps @ [p]) = changes ps + (if ps \<noteq> [] \<and> last ps \<noteq> p then 1 else 0)"
  by (induction ps rule: changes.induct) auto

lemma zygote_name_set: "zygote_name n \<noteq> []" "length (zygote_name n) \<le> 63"
  by (auto simp: zygote_name_def zp_copy_name_def split: option.splits list.splits)

lemma zygote_name_copy [simp]: "zp_copy_name 64 (zygote_name n) = zygote_name n"
  using zygote_name_set(2) [of n] by (simp add: zp_copy_name_def)

lemma find_upt_Some: "i < n \<Longrightarrow> P i \<Longrightarrow> (\<And>j. j < i \<Longrightarrow> \<not> P j) \<Longrightarrow> find P [0..<n] = Some i"
  by (force simp: find_Some_iff)

lemma find_upt_None: "(\<And>j. j < n \<Longrightarrow> \<not> P j) \<Longrightarrow> find P [0..<n] = None"
  by (simp add: find_None_iff)

lemma pids_of_other: "zygote_name (fst c) \<noteq> z \<Longrightarrow> pids_of z (calls @ [c]) = pids_of z calls"
  by (simp add: pids_of_def)

lemma pids_of_same: "zygote_name (fst c) = z \<Longrightarrow> pids_of z (calls @ [c]) = pids_of z calls @ [snd c]"
  by (simp add: pids_of_def)

lemma pids_of_Nil: "pids_of z calls = [] \<longleftrightarrow> z \<notin> names_of calls"
  by (auto simp: pids_of_def names_of_def filter_empty_conv)

lemma pids_of_pos: "\<forall>c \<in> set calls. 0 < snd c \<Longrightarrow> \<forall>p \<in> set (pids_of z calls). 0 < p"
  by (auto simp: pids_of_def)

definition guards_of :: "(string option \<times> int) list \<Rightarrow> string list \<Rightarrow> zp_zygote_guard list" where
  "guards_of calls ns = map (seen calls) ns @ replicate (4 - length ns) no_guard"

lemma guards_of_nth:
  "length ns \<le> 4 \<Longrightarrow> length (guards_of calls ns) = 4"
  "i < length ns \<Longrightarrow> guards_of calls ns ! i = seen calls (ns ! i)"
  "length ns \<le> i \<Longrightarrow> i < 4 \<Longrightarrow> guards_of calls ns ! i = no_guard"
  by (simp_all add: guards_of_def nth_append)

lemma claim_known:
  assumes "distinct ns" "length ns \<le> 4" "i < length ns" "ns ! i \<noteq> []"
  shows "claim_guard (ns ! i) (guards_of calls ns) = (Some i, guards_of calls ns)"
proof -
  have "zp_zygote_guard_slot (ns ! i) (guards_of calls ns) = Some i"
    unfolding zp_zygote_guard_slot_def
    by (rule find_upt_Some) (use assms in \<open>auto simp: guards_of_nth seen_def nth_eq_iff_index_eq\<close>)
  then show ?thesis by (simp add: claim_guard_def)
qed

lemma claim_new:
  assumes "length ns < 4" "z \<notin> set ns" "[] \<notin> set ns" "zp_copy_name 64 z = z"
  shows "claim_guard z (guards_of calls ns) =
    (Some (length ns), (guards_of calls ns)[length ns := no_guard\<lparr>zg_name := z\<rparr>])"
proof -
  have nth: "zg_name (guards_of calls ns ! j) = (if j < length ns then ns ! j else [])" if "j < 4" for j
    using that assms by (simp add: guards_of_nth seen_def no_guard_def)
  have "zp_zygote_guard_slot z (guards_of calls ns) = None"
    unfolding zp_zygote_guard_slot_def using assms nth by (intro find_upt_None) (auto simp: guards_of_nth)
  moreover have "free_guard_slot (guards_of calls ns) = Some (length ns)"
    unfolding free_guard_slot_def
    by (rule find_upt_Some) (use assms nth in \<open>auto simp: guards_of_nth(1) dest: nth_mem\<close>)
  ultimately show ?thesis using assms by (simp add: claim_guard_def guards_of_nth)
qed

lemma guards_of_update:
  assumes "distinct ns" "length ns \<le> 4" "i < length ns" "ns ! i = zygote_name (fst c)"
  shows "(guards_of calls ns)[i := seen (calls @ [c]) (ns ! i)] = guards_of (calls @ [c]) ns"
proof -
  have "seen (calls @ [c]) (ns ! j) = seen calls (ns ! j)" if "j < length ns" "j \<noteq> i" for j
    using assms that by (simp add: seen_def) (metis nth_eq_iff_index_eq pids_of_other)
  then have "(map (seen calls) ns)[i := seen (calls @ [c]) (ns ! i)] ! j = map (seen (calls @ [c])) ns ! j"
    if "j < length ns" for j
    using that by (cases "j = i") simp_all
  then have "(map (seen calls) ns)[i := seen (calls @ [c]) (ns ! i)] = map (seen (calls @ [c])) ns"
    by (intro nth_equalityI) simp_all
  then show ?thesis using assms by (simp add: guards_of_def list_update_append)
qed

lemma guards_of_add:
  assumes "length ns < 4" "zygote_name (fst c) \<notin> set ns"
  shows "(guards_of calls ns)[length ns := seen (calls @ [c]) (zygote_name (fst c))] = guards_of (calls @ [c]) (ns @ [zygote_name (fst c)])"
proof -
  have "seen (calls @ [c]) z = seen calls z" if "z \<in> set ns" for z
  proof -
    have "zygote_name (fst c) \<noteq> z" using assms(2) that by auto
    then show ?thesis by (simp add: seen_def pids_of_other)
  qed
  then have "map (seen (calls @ [c])) ns = map (seen calls) ns" by simp
  moreover have "4 - length ns = Suc (3 - length ns)" using assms by simp
  ultimately show ?thesis by (simp add: guards_of_def list_update_append)
qed

text \<open>While safe mode is off, the guards count for each name; it is on once a name has three changes.\<close>

definition sm_inv :: "(string option \<times> int) list \<Rightarrow> safemode \<Rightarrow> bool" where
  "sm_inv calls s \<longleftrightarrow>
     (if sm_active s then \<exists>z. 3 \<le> changes (pids_of z calls)
      else (\<forall>z. changes (pids_of z calls) < 3) \<and>
        (\<exists>ns. distinct ns \<and> set ns = names_of calls \<and> sm_guards s = guards_of calls ns))"

lemma answer_is_active:
  "fst (zp_zygote_safemode_should_skip name pid s) = sm_active (snd (snd (zp_zygote_safemode_should_skip name pid s)))"
  by (simp add: zp_zygote_safemode_should_skip_def Let_def split: prod.split option.split)

lemma stays_active:
  "sm_active s \<Longrightarrow> sm_active (snd (snd (zp_zygote_safemode_should_skip name pid s)))"
  by (simp add: zp_zygote_safemode_should_skip_def Let_def split: prod.split option.split)

lemma changes_grow: "changes (pids_of z calls) \<le> changes (pids_of z (calls @ [c]))"
  by (cases "zygote_name (fst c) = z") (simp_all add: pids_of_same pids_of_other changes_snoc)

lemma note_known:
  assumes "\<forall>c \<in> set calls. 0 < snd c" "z \<in> names_of calls" "zygote_name (fst c) = z"
  shows "note_pid (snd c) (seen calls z) = (seen (calls @ [c]) z, last (pids_of z calls) \<noteq> snd c)"
proof -
  have n: "pids_of z calls \<noteq> []" using assms(2) by (simp add: pids_of_Nil)
  then have "0 < last (pids_of z calls)" using pids_of_pos [OF assms(1), of z] last_in_set [OF n] by blast
  then show ?thesis using n assms(3) by (simp add: note_pid_def seen_def pids_of_same changes_snoc)
qed

lemma note_new:
  assumes "z \<notin> names_of calls" "zygote_name (fst c) = z"
  shows "note_pid (snd c) (no_guard\<lparr>zg_name := z\<rparr>) = (seen (calls @ [c]) z, False)"
  using assms pids_of_Nil [of z calls] by (simp add: note_pid_def seen_def no_guard_def pids_of_same)

lemma names_nonempty: "[] \<notin> names_of calls"
proof
  assume "[] \<in> names_of calls"
  then obtain c where "[] = zygote_name (fst c)" by (auto simp: names_of_def)
  then show False using zygote_name_set(1) [of "fst c"] by simp
qed

lemma names_of_snoc: "names_of (calls @ [c]) = insert (zygote_name (fst c)) (names_of calls)"
  by (auto simp: names_of_def)

lemma few_below: "\<forall>z. changes (pids_of z calls) < 3 \<Longrightarrow> changes (pids_of (zygote_name (fst c)) (calls @ [c])) < 3 \<Longrightarrow>
    changes (pids_of z (calls @ [c])) < 3"
  by (cases "zygote_name (fst c) = z") (simp_all add: pids_of_other)

lemma crashes_below:
  assumes "\<forall>z. changes (pids_of z calls) < 3"
  shows "3 \<le> zg_crashes (seen (calls @ [c]) z) \<longleftrightarrow> 3 \<le> changes (pids_of z (calls @ [c]))"
proof -
  have "changes (pids_of z (calls @ [c])) \<le> 3"
    using assms [rule_format, of z] by (cases "zygote_name (fst c) = z") (simp_all add: pids_of_same pids_of_other changes_snoc)
  then have "changes (pids_of z (calls @ [c])) \<in> {0, 1, 2, 3}" by auto
  then show ?thesis by (elim insertE emptyE) (simp_all add: seen_def word_le_nat_alt)
qed

lemma sm_inv_step:
  assumes inv: "sm_inv calls s" and pos: "\<forall>c \<in> set calls. 0 < snd c" and card: "card (names_of (calls @ [c])) \<le> 4"
  shows "sm_inv (calls @ [c]) (snd (snd (zp_zygote_safemode_should_skip (fst c) (snd c) s)))"
proof (cases "sm_active s")
  case True
  then obtain z where "3 \<le> changes (pids_of z calls)" using inv by (auto simp: sm_inv_def)
  then have "3 \<le> changes (pids_of z (calls @ [c]))" using changes_grow le_trans by blast
  then show ?thesis using stays_active [OF True] by (auto simp: sm_inv_def)
next
  case False
  let ?z = "zygote_name (fst c)" and ?c = "calls @ [c]"
  obtain ns where few: "\<forall>z. changes (pids_of z calls) < 3" and ns: "distinct ns" "set ns = names_of calls"
    and gs: "sm_guards s = guards_of calls ns"
    using inv False by (auto simp: sm_inv_def)
  have fin: "finite (names_of ?c)" by (simp add: names_of_def)
  have nonempty: "[] \<notin> set ns" using names_nonempty ns(2) by simp
  show ?thesis
  proof (cases "?z \<in> names_of calls")
    case True
    then obtain i where i: "i < length ns" "ns ! i = ?z" using ns(2) by (metis in_set_conv_nth)
    have len: "length ns \<le> 4" using card ns True by (simp add: names_of_snoc insert_absorb distinct_card [symmetric])
    have claim: "claim_guard ?z (sm_guards s) = (Some i, guards_of calls ns)"
      using claim_known [OF ns(1) len i(1)] i gs zygote_name_set(1) by simp
    have np: "note_pid (snd c) (guards_of calls ns ! i) = (seen ?c ?z, last (pids_of ?z calls) \<noteq> snd c)"
      using note_known [OF pos True] guards_of_nth(2) [OF i(1)] i(2) by simp
    have upd: "(guards_of calls ns)[i := seen ?c ?z] = guards_of ?c ns"
      using guards_of_update [OF ns(1) len i] i(2) by simp
    have names: "names_of ?c = set ns" using ns(2) True by (auto simp: names_of_snoc)
    have same: "changes (pids_of ?z ?c) < 3" if "last (pids_of ?z calls) = snd c"
      using that few by (simp add: pids_of_same changes_snoc)
    show ?thesis
      using False few_below [OF few, of c] crashes_below [OF few, of c ?z] ns(1) names same
      by (auto simp: zp_zygote_safemode_should_skip_def Let_def claim np upd sm_inv_def not_le)
  next
    case new: False
    have len: "length ns < 4"
      using card ns new fin by (simp add: names_of_snoc distinct_card [symmetric])
    have claim: "claim_guard ?z (sm_guards s) = (Some (length ns), (guards_of calls ns)[length ns := no_guard\<lparr>zg_name := ?z\<rparr>])"
      using claim_new [OF len _ nonempty] new ns(2) gs by simp
    have np: "note_pid (snd c) ((guards_of calls ns)[length ns := no_guard\<lparr>zg_name := ?z\<rparr>] ! length ns) = (seen ?c ?z, False)"
      using note_new [OF new] len by (simp add: guards_of_nth)
    have upd: "(guards_of calls ns)[length ns := seen ?c ?z] = guards_of ?c (ns @ [?z])"
      using guards_of_add [OF len] new ns(2) by simp
    have "changes (pids_of ?z ?c) < 3" using new pids_of_Nil [of ?z calls] by (simp add: pids_of_same)
    then show ?thesis
      using False few_below [OF few, of c] ns new
      by (auto simp: zp_zygote_safemode_should_skip_def Let_def claim np upd sm_inv_def names_of_snoc intro!: exI [of _ "ns @ [?z]"])
  qed
qed

lemma sm_inv_after:
  "\<forall>c \<in> set calls. 0 < snd c \<Longrightarrow> card (names_of calls) \<le> 4 \<Longrightarrow> sm_inv calls (sm_after calls)"
proof (induction calls rule: rev_induct)
  case Nil
  then show ?case
    by (simp add: sm_inv_def sm_after_def safemode_initial_def names_of_def guards_of_def pids_of_def)
next
  case (snoc c calls)
  have "card (names_of calls) \<le> card (names_of (calls @ [c]))"
    by (rule card_mono) (auto simp: names_of_def)
  then have "sm_inv calls (sm_after calls)" using snoc by simp
  then show ?case using sm_inv_step [of calls _ c] snoc.prems by (simp add: sm_after_def)
qed

text \<open>C16: Safe mode skips the injection exactly when zygote keeps restarting.  After any sequence of
  starts of zygotes with positive pids and at most four different names, the answer for the last start
  is to skip the injection if and only if under some name the pid has changed at least three times
  since the module was loaded.\<close>

theorem safemode_exact:
  assumes "\<forall>c \<in> set (calls @ [(name, pid)]). 0 < snd c" and "card (names_of (calls @ [(name, pid)])) \<le> 4"
  shows "fst (zp_zygote_safemode_should_skip name pid (sm_after calls)) \<longleftrightarrow>
    (\<exists>z. 3 \<le> changes (pids_of z (calls @ [(name, pid)])))"
proof -
  have "snd (snd (zp_zygote_safemode_should_skip name pid (sm_after calls))) = sm_after (calls @ [(name, pid)])"
    by (simp add: sm_after_def)
  then show ?thesis
    using sm_inv_after [OF assms] answer_is_active [of name pid "sm_after calls"]
    by (auto simp: sm_inv_def not_le split: if_splits)
qed

theorem safemode_exact_witness:
  "fst (zp_zygote_safemode_should_skip None 400 (sm_after [(None, 100), (Some ''zygote'', 200), (None, 300)]))"
proof -
  have "pids_of ''zygote'' [(None, 100), (Some ''zygote'', 200), (None, 300), (None, 400)] = [100, 200, 300, 400]"
    by (simp add: pids_of_def zygote_name_def zp_copy_name_def)
  then have "3 \<le> changes (pids_of ''zygote'' ([(None, 100), (Some ''zygote'', 200), (None, 300)] @ [(None, 400)]))" by simp
  moreover have "card (names_of ([(None, 100), (Some ''zygote'', 200), (None, 300)] @ [(None, 400)])) \<le> 4"
    by (simp add: names_of_def zygote_name_def zp_copy_name_def)
  ultimately show ?thesis
    using safemode_exact [of "[(None, 100), (Some ''zygote'', 200), (None, 300)]" None 400] by auto
qed

end
