(* ===== verification/Early_Native.thy ===== *)
theory Early_Native
  imports Zygote_Guard
begin

text \<open>
  Native modules for processes that start before the daemon: a snapshot file from the last boot, read by
  \<^verbatim>\<open>kernel/feature/zygote_probe.c\<close> when such a process is executed, and the search for the targets it names.

  The file system is a function from paths to contents, \<open>None\<close> where opening fails.  Structures are read
  from the bytes of the file at the offsets the compiler gives them; an entry is kept as its 836 bytes.
\<close>

section \<open>Layouts\<close>

type_synonym file_system = "string \<Rightarrow> u8 list option"

record yz_early_native_snapshot_header =
  sh_magic :: u32
  sh_version :: u16
  sh_header_size :: u16
  sh_entry_size :: u16
  sh_flags :: u32
  sh_count :: u32
  sh_dlopen_offset :: u64
  sh_dlsym_offset :: u64
  sh_linker_size :: u64
  sh_dlopen32_offset :: u64
  sh_dlsym32_offset :: u64
  sh_linker32_size :: u64

definition read_snapshot_header :: "u8 list \<Rightarrow> yz_early_native_snapshot_header" where
  "read_snapshot_header bs = \<lparr>sh_magic = get32 bs 0, sh_version = get16 bs 4, sh_header_size = get16 bs 6,
     sh_entry_size = get16 bs 8, sh_flags = get32 bs 12, sh_count = get32 bs 16, sh_dlopen_offset = get64 bs 24,
     sh_dlsym_offset = get64 bs 32, sh_linker_size = get64 bs 40, sh_dlopen32_offset = get64 bs 48,
     sh_dlsym32_offset = get64 bs 56, sh_linker32_size = get64 bs 64\<rparr>"

abbreviation (input) SNAPSHOT_MAGIC :: u32 where "SNAPSHOT_MAGIC \<equiv> 0x59454e5a"
abbreviation (input) SNAPSHOT_VERSION :: u16 where "SNAPSHOT_VERSION \<equiv> 2"
abbreviation (input) FLAG_ENABLED :: u32 where "FLAG_ENABLED \<equiv> 1"
abbreviation (input) FLAG_ABI32 :: u32 where "FLAG_ABI32 \<equiv> 2"
abbreviation (input) FLAG_ABI64 :: u32 where "FLAG_ABI64 \<equiv> 4"
abbreviation (input) ENTRY_ABI32 :: u8 where "ENTRY_ABI32 \<equiv> 1"
abbreviation (input) ENTRY_ABI64 :: u8 where "ENTRY_ABI64 \<equiv> 2"
abbreviation (input) TARGET_MAX :: nat where "TARGET_MAX \<equiv> 64"

abbreviation (input) SNAPSHOT_HEADER_SIZE :: nat where "SNAPSHOT_HEADER_SIZE \<equiv> 72"
abbreviation (input) ENTRY_SIZE :: nat where "ENTRY_SIZE \<equiv> 836"

text \<open>A character array at an offset, up to its first zero byte.\<close>

definition c_field :: "u8 list \<Rightarrow> nat \<Rightarrow> nat \<Rightarrow> string" where
  "c_field bs off n = map (\<lambda>b. char_of (unat b)) (takeWhile (\<lambda>b. b \<noteq> 0) (take n (drop off bs)))"

definition ee_target_type :: "u8 list \<Rightarrow> u8" where "ee_target_type e = e ! 0"
definition ee_flags :: "u8 list \<Rightarrow> u8" where "ee_flags e = e ! 1"
definition ee_module_id :: "u8 list \<Rightarrow> string" where "ee_module_id e = c_field e 4 64"
definition ee_target :: "u8 list \<Rightarrow> string" where "ee_target e = c_field e 68 256"
definition ee_lib_path :: "u8 list \<Rightarrow> string" where "ee_lib_path e = c_field e 324 512"

section \<open>Files\<close>

text \<open>The content and the path that was opened.\<close>

definition zp_open_first :: "file_system \<Rightarrow> string \<Rightarrow> string \<Rightarrow> (u8 list \<times> string) option" where
  "zp_open_first fs primary fallback =
     (case fs primary of
        Some bs \<Rightarrow> Some (bs, primary)
      | None \<Rightarrow> (case fs fallback of Some bs \<Rightarrow> Some (bs, fallback) | None \<Rightarrow> None))"

text \<open>\<open>size\<close> bytes at \<open>pos\<close>, and the position behind them.\<close>

definition zp_read_exact_file :: "u8 list \<Rightarrow> nat \<Rightarrow> nat \<Rightarrow> (u8 list \<times> nat) option" where
  "zp_read_exact_file bs len pos =
     (if length (take len (drop pos bs)) = len then Some (take len (drop pos bs), pos + len) else None)"

datatype zp_file_size_check = FILE_SIZE_MATCH | FILE_SIZE_MISMATCH | FILE_SIZE_UNAVAILABLE

definition zp_check_file_size :: "file_system \<Rightarrow> string \<Rightarrow> u64 \<Rightarrow> zp_file_size_check" where
  "zp_check_file_size fs path want_size =
     (if want_size = 0 then FILE_SIZE_MISMATCH
      else case fs path of
        None \<Rightarrow> FILE_SIZE_UNAVAILABLE
      | Some bs \<Rightarrow> if of_nat (length bs) = want_size then FILE_SIZE_MATCH else FILE_SIZE_MISMATCH)"

section \<open>Loading the snapshot\<close>

record early_native =
  en_entries :: "u8 list list"
  en_loaded :: bool
  en_enabled :: bool
  en_legacy_paths :: bool
  en_dlopen_off :: u64
  en_dlsym_off :: u64
  en_dlopen32_off :: u64
  en_dlsym32_off :: u64
  en_retry_deadline :: u64
  en_missing_logged :: bool

definition early_initial :: early_native where
  "early_initial = \<lparr>en_entries = [], en_loaded = False, en_enabled = False, en_legacy_paths = False, en_dlopen_off = 0,
     en_dlsym_off = 0, en_dlopen32_off = 0, en_dlsym32_off = 0, en_retry_deadline = 0, en_missing_logged = False\<rparr>"

text \<open>The arrays are cut at their last byte, which becomes zero.\<close>

definition terminate_entry :: "u8 list \<Rightarrow> u8 list" where
  "terminate_entry e = e[67 := 0, 323 := 0, 835 := 0]"

definition zp_early_entry_valid :: "u8 list \<Rightarrow> bool \<times> u8 list" where
  "zp_early_entry_valid e0 =
     (let e = terminate_entry e0 in
      (\<not> (ee_target_type e \<noteq> TARGET_NAME \<and> ee_target_type e \<noteq> TARGET_PATH) \<and>
       ee_flags e AND (ENTRY_ABI32 OR ENTRY_ABI64) \<noteq> 0 \<and>
       \<not> (ee_module_id e = [] \<or> ee_target e = [] \<or> ee_lib_path e = []), e))"

definition snapshot_header_bad :: "yz_early_native_snapshot_header \<Rightarrow> bool" where
  "snapshot_header_bad h \<longleftrightarrow>
     sh_magic h \<noteq> SNAPSHOT_MAGIC \<or> sh_version h \<noteq> SNAPSHOT_VERSION \<or> sh_header_size h \<noteq> of_nat SNAPSHOT_HEADER_SIZE \<or>
     sh_entry_size h \<noteq> of_nat ENTRY_SIZE \<or> of_nat TARGET_MAX < sh_count h \<or> sh_flags h AND FLAG_ENABLED = 0 \<or>
     (sh_count h \<noteq> 0 \<and> sh_flags h AND (FLAG_ABI32 OR FLAG_ABI64) = 0) \<or>
     (sh_flags h AND FLAG_ABI64 \<noteq> 0 \<and> (sh_dlopen_offset h = 0 \<or> sh_dlsym_offset h = 0 \<or> sh_linker_size h = 0)) \<or>
     (sh_flags h AND FLAG_ABI32 \<noteq> 0 \<and> (sh_dlopen32_offset h = 0 \<or> sh_dlsym32_offset h = 0 \<or> sh_linker32_size h = 0))"

definition linker64 :: string where "linker64 = ''/system/bin/linker64''"
definition linker32 :: string where "linker32 = ''/system/bin/linker''"

definition snapshot_invalid :: "file_system \<Rightarrow> yz_early_native_snapshot_header \<Rightarrow> bool" where
  "snapshot_invalid fs h \<longleftrightarrow>
     snapshot_header_bad h \<or>
     (sh_flags h AND FLAG_ABI64 \<noteq> 0 \<and> zp_check_file_size fs linker64 (sh_linker_size h) = FILE_SIZE_MISMATCH) \<or>
     (sh_flags h AND FLAG_ABI32 \<noteq> 0 \<and> zp_check_file_size fs linker32 (sh_linker32_size h) = FILE_SIZE_MISMATCH)"

text \<open>The loop over \<open>n\<close> entries; it ends at the first one that cannot be read.\<close>

fun load_entries :: "u8 list \<Rightarrow> nat \<Rightarrow> nat \<Rightarrow> u8 list list" where
  "load_entries bs 0 pos = []"
| "load_entries bs (Suc n) pos =
     (case zp_read_exact_file bs ENTRY_SIZE pos of
        None \<Rightarrow> []
      | Some (e, pos') \<Rightarrow>
          (case zp_early_entry_valid e of (ok, e') \<Rightarrow>
             if ok then e' # load_entries bs n pos' else load_entries bs n pos'))"

definition manifest_default :: string where
  "manifest_default = ''/metadata/yukizygisk/native_snapshot.bin''"

definition manifest_legacy :: string where
  "manifest_legacy = ''/metadata/watchdog/ksu/yukizygisk/native_snapshot.bin''"

definition early_reset :: "early_native \<Rightarrow> early_native" where
  "early_reset s = s\<lparr>en_enabled := False, en_legacy_paths := False, en_entries := [], en_dlopen_off := 0,
     en_dlsym_off := 0, en_dlopen32_off := 0, en_dlsym32_off := 0\<rparr>"

definition load_snapshot :: "file_system \<Rightarrow> u8 list \<Rightarrow> string \<Rightarrow> early_native \<Rightarrow> early_native" where
  "load_snapshot fs bs path s =
     (case zp_read_exact_file bs SNAPSHOT_HEADER_SIZE 0 of
        None \<Rightarrow> s
      | Some (hb, pos) \<Rightarrow>
          (let h = read_snapshot_header hb in
           if snapshot_invalid fs h then s
           else let es = load_entries bs (unat (sh_count h)) pos in
             s\<lparr>en_entries := es, en_dlopen_off := sh_dlopen_offset h, en_dlsym_off := sh_dlsym_offset h,
               en_dlopen32_off := sh_dlopen32_offset h, en_dlsym32_off := sh_dlsym32_offset h,
               en_legacy_paths := (path = manifest_legacy), en_enabled := (es \<noteq> [])\<rparr>))"

text \<open>\<^verbatim>\<open>time_after (a, b)\<close> compares the distance as a signed number; \<open>hz\<close> are the ticks of a second.\<close>

definition time_after :: "u64 \<Rightarrow> u64 \<Rightarrow> bool" where
  "time_after a b \<longleftrightarrow> sint (b - a) < 0"

definition missing_snapshot :: "u64 \<Rightarrow> u64 \<Rightarrow> early_native \<Rightarrow> early_native" where
  "missing_snapshot hz jiffies s0 =
     (let s = (if en_retry_deadline s0 = 0 then s0\<lparr>en_retry_deadline := jiffies + 15 * hz\<rparr> else s0)
      in if time_after jiffies (en_retry_deadline s) then s\<lparr>en_loaded := True, en_missing_logged := True\<rparr> else s)"

definition zp_load_early_native :: "file_system \<Rightarrow> u64 \<Rightarrow> u64 \<Rightarrow> early_native \<Rightarrow> early_native" where
  "zp_load_early_native fs hz jiffies s0 =
     (if en_loaded s0 then s0
      else let s = early_reset s0 in
        case zp_open_first fs manifest_default manifest_legacy of
          None \<Rightarrow> missing_snapshot hz jiffies s
        | Some (bs, path) \<Rightarrow> load_snapshot fs bs path (s\<lparr>en_loaded := True\<rparr>))"

section \<open>Targets\<close>

text \<open>The offsets of the linker's functions, set by the daemon or from the snapshot.\<close>

record probe_offsets =
  po_dlopen :: u64
  po_dlsym :: u64
  po_dlopen32 :: u64
  po_dlsym32 :: u64

definition yz_zygote_probe_set_dlopen_off :: "u64 \<Rightarrow> u64 \<Rightarrow> probe_offsets \<Rightarrow> probe_offsets" where
  "yz_zygote_probe_set_dlopen_off dlopen_off dlsym_off p = p\<lparr>po_dlopen := dlopen_off, po_dlsym := dlsym_off\<rparr>"

definition yz_zygote_probe_set_dlopen32_off :: "u64 \<Rightarrow> u64 \<Rightarrow> probe_offsets \<Rightarrow> probe_offsets" where
  "yz_zygote_probe_set_dlopen32_off dlopen_off dlsym_off p = p\<lparr>po_dlopen32 := dlopen_off, po_dlsym32 := dlsym_off\<rparr>"

definition or_else :: "u64 \<Rightarrow> u64 \<Rightarrow> u64" where
  "or_else x y = (if x = 0 then y else x)"

definition fill_offsets :: "early_native \<Rightarrow> probe_offsets \<Rightarrow> probe_offsets" where
  "fill_offsets s p = \<lparr>po_dlopen = or_else (po_dlopen p) (en_dlopen_off s), po_dlsym = or_else (po_dlsym p) (en_dlsym_off s),
     po_dlopen32 = or_else (po_dlopen32 p) (en_dlopen32_off s), po_dlsym32 = or_else (po_dlsym32 p) (en_dlsym32_off s)\<rparr>"

definition zp_match_early_native_target ::
  "file_system \<Rightarrow> u64 \<Rightarrow> u64 \<Rightarrow> nat \<Rightarrow> string option \<Rightarrow> early_native \<times> probe_offsets \<Rightarrow>
     (string \<times> u8) option \<times> early_native \<times> probe_offsets" where
  "zp_match_early_native_target fs hz jiffies label_len filename sp =
     (case filename of
        None \<Rightarrow> (None, sp)
      | Some f \<Rightarrow>
          (let s = zp_load_early_native fs hz jiffies (fst sp); p = snd sp in
           if \<not> en_enabled s then (None, s, p)
           else case find (\<lambda>e. target_matches f (ee_target_type e) (ee_target e)) (en_entries s) of
               None \<Rightarrow> (None, s, p)
             | Some e \<Rightarrow> (Some (zp_copy_name label_len (ee_target e), ee_target_type e), s, fill_offsets s p)))"

definition early_dir :: "early_native \<Rightarrow> string" where
  "early_dir s = (if en_legacy_paths s then ''/metadata/watchdog/ksu/yukizygisk/'' else ''/metadata/yukizygisk/'')"

definition zp_early_loader_path :: "bool \<Rightarrow> early_native \<Rightarrow> string" where
  "zp_early_loader_path compat_abi s =
     early_dir s @ (if compat_abi then ''libyukilinker32.so'' else ''libyukilinker64.so'')"

definition zp_early_native_core_path :: "bool \<Rightarrow> early_native \<Rightarrow> string" where
  "zp_early_native_core_path compat_abi s =
     early_dir s @ (if compat_abi then ''libyukizncore32.so'' else ''libyukizncore64.so'')"

end
