(* ===== verification/Policy_Edit.thy ===== *)
theory Policy_Edit
  imports Kernel_Policy
begin

text \<open>
  Editing the SELinux policy of the running kernel, \<^verbatim>\<open>kernel/host/policy.c\<close>: a copy of the policy is
  made by writing it to a buffer and reading it back, allowed bits of the copy are set or cleared, and
  the copy replaces the policy; a failing step leaves the policy alone.

  The structures of SELinux are kept as what the code sees of them: symbol tables are functions from
  names, \<^verbatim>\<open>sym_val_to_name\<close> is a list, the hash table \<^verbatim>\<open>te_avtab\<close> is a map from its keys to the allowed
  bits, and of a security context only the type is used.  The kernel functions the code calls
  (\<^verbatim>\<open>policydb_write\<close>, \<^verbatim>\<open>policydb_read\<close>, allocation) are an \<open>edit_env\<close>.  The code runs under
  \<^verbatim>\<open>policy_mutex\<close>.
\<close>

section \<open>State\<close>

type_synonym avtab_key = "u16 \<times> u16 \<times> u16"

record yz_policy_key =
  pk_src :: u32
  pk_tgt :: u32
  pk_class :: u16

record class_datum =
  cls_value :: u32
  cls_perms :: "string \<Rightarrow> u32 option"
  cls_common :: "(string \<Rightarrow> u32 option) option"

record type_datum =
  ty_value :: u32
  ty_attribute :: bool

record policydb =
  db_types :: "string \<Rightarrow> type_datum option"
  db_type_names :: "string option list"
  db_classes :: "string \<Rightarrow> class_datum option"
  db_class_names :: "string option list"
  db_te_avtab :: "avtab_key \<Rightarrow> u32 option"
  db_len :: u64

record selinux_policy =
  sp_db :: policydb
  sp_sidtab :: "u32 \<Rightarrow> u32 option"

record selinux =
  se_ready :: bool
  se_initialized :: bool
  se_policy :: "selinux_policy option"

text \<open>\<open>ee_write\<close> gives the buffer of the requested length after \<^verbatim>\<open>policydb_write\<close>, \<open>ee_config\<close> the bits
  of the flags that the kernel does not write itself.\<close>

record edit_env =
  ee_vmalloc :: bool
  ee_write :: "policydb \<Rightarrow> u64 \<Rightarrow> errno + u8 list"
  ee_config :: "policydb \<Rightarrow> u32"
  ee_kmemdup :: bool
  ee_read :: "u8 list \<Rightarrow> errno + policydb"
  ee_insert :: "yz_policy_key \<Rightarrow> bool"
  ee_alloc :: "yz_policy_key \<Rightarrow> bool"

section \<open>Names and permissions\<close>

definition yz_policy_type_name_by_value :: "policydb \<Rightarrow> u32 \<Rightarrow> string option" where
  "yz_policy_type_name_by_value db t =
     (if t = 0 \<or> length (db_type_names db) < unat t then None else db_type_names db ! (unat t - 1))"

definition yz_policy_class_name_by_value :: "policydb \<Rightarrow> u16 \<Rightarrow> string option" where
  "yz_policy_class_name_by_value db c =
     (if c = 0 \<or> length (db_class_names db) < unat c then None else db_class_names db ! (unat c - 1))"

definition yz_policy_type_value_by_name :: "policydb \<Rightarrow> string \<Rightarrow> u32" where
  "yz_policy_type_value_by_name db name = (case db_types db name of Some t \<Rightarrow> ty_value t | None \<Rightarrow> 0)"

definition yz_policy_sidtab_search :: "(u32 \<Rightarrow> u32 option) \<Rightarrow> u32 \<Rightarrow> u32 option" where
  "yz_policy_sidtab_search sidtab sid = (if sid = 0 then None else sidtab sid)"

definition find_perm :: "class_datum \<Rightarrow> string \<Rightarrow> u32 option" where
  "find_perm cls p =
     (case cls_perms cls p of
        Some v \<Rightarrow> Some v
      | None \<Rightarrow> (case cls_common cls of Some common \<Rightarrow> common p | None \<Rightarrow> None))"

definition yz_policy_perm_mask :: "class_datum \<Rightarrow> string \<Rightarrow> u32" where
  "yz_policy_perm_mask cls p =
     (case find_perm cls p of
        Some v \<Rightarrow> if v = 0 \<or> v > 32 then 0 else push_bit (unat (v - 1)) 1
      | None \<Rightarrow> 0)"

definition yz_policy_required_av :: "class_datum \<Rightarrow> string list \<Rightarrow> u32" where
  "yz_policy_required_av cls perms = foldl (\<lambda>av p. av OR yz_policy_perm_mask cls p) 0 perms"

definition file_load_perms :: "string list" where
  "file_load_perms = [''read'', ''open'', ''getattr'', ''map'', ''execute'']"

definition dir_load_perms :: "string list" where
  "dir_load_perms = [''read'', ''open'', ''getattr'', ''search'']"

definition tmpfs_load_perms :: "string list" where
  "tmpfs_load_perms = [''read'', ''write'', ''open'', ''getattr'', ''map'', ''execute'']"

definition tmpfs_receive_perms :: "string list" where
  "tmpfs_receive_perms = [''read'', ''open'', ''getattr'', ''map'']"

definition process_execmem_perms :: "string list" where
  "process_execmem_perms = [''execmem'']"

record runtime_policy_class =
  rc_name :: string
  rc_perms :: "string list"
  rc_optional :: bool

definition runtime_policy_classes :: "runtime_policy_class list" where
  "runtime_policy_classes =
    [\<lparr>rc_name = ''unix_stream_socket'', rc_perms = [''read'', ''write'', ''connectto'', ''getopt'', ''getattr''], rc_optional = False\<rparr>,
     \<lparr>rc_name = ''fd'', rc_perms = [''use''], rc_optional = False\<rparr>,
     \<lparr>rc_name = ''fifo_file'', rc_perms = [''read'', ''write'', ''open'', ''getattr''], rc_optional = False\<rparr>,
     \<lparr>rc_name = ''memfd_file'', rc_perms = [''execute'', ''getattr'', ''map'', ''read'', ''write''], rc_optional = True\<rparr>,
     \<lparr>rc_name = ''process'', rc_perms = [''sigchld''], rc_optional = False\<rparr>]"

section \<open>The access vector table\<close>

definition av_key :: "yz_policy_key \<Rightarrow> avtab_key" where
  "av_key k = (ucast (pk_src k), ucast (pk_tgt k), pk_class k)"

definition yz_policy_direct_allowed_av :: "policydb \<Rightarrow> yz_policy_key \<Rightarrow> u32" where
  "yz_policy_direct_allowed_av db k = (case db_te_avtab db (av_key k) of Some av \<Rightarrow> av | None \<Rightarrow> 0)"

definition yz_policy_base_direct_allowed_av :: "selinux \<Rightarrow> yz_policy_key \<Rightarrow> u32" where
  "yz_policy_base_direct_allowed_av s k =
     (if \<not> se_ready s then 0
      else case se_policy s of Some p \<Rightarrow> yz_policy_direct_allowed_av (sp_db p) k | None \<Rightarrow> 0)"

text \<open>Finding the node of a key, or inserting one with no bits; an entry counts 16 bytes.\<close>

definition yz_policy_get_avtab_node :: "edit_env \<Rightarrow> yz_policy_key \<Rightarrow> policydb \<Rightarrow> policydb option" where
  "yz_policy_get_avtab_node env k db =
     (case db_te_avtab db (av_key k) of
        Some av \<Rightarrow> Some db
      | None \<Rightarrow> if ee_insert env k
          then Some (db\<lparr>db_te_avtab := (db_te_avtab db)(av_key k \<mapsto> 0), db_len := db_len db + 16\<rparr>)
          else None)"

definition yz_policy_remove_avtab_node :: "edit_env \<Rightarrow> yz_policy_key \<Rightarrow> policydb \<Rightarrow> policydb" where
  "yz_policy_remove_avtab_node env k db =
     (if ee_alloc env k
      then db\<lparr>db_te_avtab := (db_te_avtab db)(av_key k := None), db_len := db_len db - 16\<rparr> else db)"

definition set_av :: "yz_policy_key \<Rightarrow> u32 \<Rightarrow> policydb \<Rightarrow> policydb" where
  "set_av k av db = db\<lparr>db_te_avtab := (db_te_avtab db)(av_key k \<mapsto> av)\<rparr>"

definition clear_av :: "edit_env \<Rightarrow> yz_policy_key \<Rightarrow> u32 \<Rightarrow> policydb \<Rightarrow> policydb" where
  "clear_av env k av db =
     (case db_te_avtab db (av_key k) of
        None \<Rightarrow> db
      | Some old \<Rightarrow>
          (let db' = set_av k (old AND NOT av) db
           in if old AND NOT av = 0 then yz_policy_remove_avtab_node env k db' else db'))"

definition yz_policy_apply_av :: "edit_env \<Rightarrow> bool \<Rightarrow> yz_policy_key \<Rightarrow> u32 \<Rightarrow> policydb \<Rightarrow> errno + policydb" where
  "yz_policy_apply_av env allow k av db =
     (if av = 0 then Inr db
      else if yz_policy_type_name_by_value db (pk_src k) = None \<or> yz_policy_type_name_by_value db (pk_tgt k) = None \<or>
        yz_policy_class_name_by_value db (pk_class k) = None then Inl ENOENT
      else if allow then
        (case yz_policy_get_avtab_node env k db of
           None \<Rightarrow> Inl ENOMEM
         | Some db' \<Rightarrow> Inr (set_av k (yz_policy_direct_allowed_av db' k OR av) db'))
      else Inr (clear_av env k av db))"

section \<open>Editing a copy\<close>

definition set_config :: "u32 \<Rightarrow> u8 list \<Rightarrow> u8 list" where
  "set_config bits data =
     (if 24 \<le> length data then take 20 data @ le32 (get32 data 20 OR bits) @ drop 24 data else data)"

definition yz_policy_dup :: "edit_env \<Rightarrow> selinux_policy \<Rightarrow> errno + selinux_policy" where
  "yz_policy_dup env old =
     (if \<not> ee_vmalloc env then Inl ENOMEM
      else case ee_write env (sp_db old) (db_len (sp_db old)) of
        Inl e \<Rightarrow> Inl e
      | Inr data \<Rightarrow>
          if \<not> ee_kmemdup env then Inl ENOMEM
          else (case ee_read env (set_config (ee_config env (sp_db old)) data) of
              Inl e \<Rightarrow> Inl e
            | Inr db \<Rightarrow> Inr (old\<lparr>sp_db := db\<lparr>db_len := db_len (sp_db old)\<rparr>\<rparr>)))"

definition yz_policy_begin_edit :: "edit_env \<Rightarrow> selinux \<Rightarrow> errno + selinux_policy" where
  "yz_policy_begin_edit env s =
     (if \<not> se_ready s then Inl EOPNOTSUPP
      else if \<not> se_initialized s then Inl EAGAIN
      else case se_policy s of None \<Rightarrow> Inl ENOENT | Some old \<Rightarrow> yz_policy_dup env old)"

definition yz_policy_commit_edit :: "selinux_policy \<Rightarrow> selinux \<Rightarrow> selinux" where
  "yz_policy_commit_edit p s = s\<lparr>se_policy := Some p\<rparr>"

text \<open>The four keys in the order of the code; the first failing one ends the edit.\<close>

fun apply_keys :: "edit_env \<Rightarrow> bool \<Rightarrow> (yz_policy_key \<times> u32) list \<Rightarrow> policydb \<Rightarrow> errno + policydb" where
  "apply_keys env allow [] db = Inr db"
| "apply_keys env allow ((k, av) # kvs) db =
     (case yz_policy_apply_av env allow k av db of
        Inl e \<Rightarrow> Inl e
      | Inr db' \<Rightarrow> apply_keys env allow kvs db')"

definition commit_keys :: "edit_env \<Rightarrow> bool \<Rightarrow> (yz_policy_key \<times> u32) list \<Rightarrow> selinux \<Rightarrow> errno option \<times> selinux" where
  "commit_keys env allow kvs s =
     (if list_all (\<lambda>kv. snd kv = 0) kvs then (None, s)
      else case yz_policy_begin_edit env s of
        Inl e \<Rightarrow> (Some e, s)
      | Inr p \<Rightarrow> (case apply_keys env allow kvs (sp_db p) of
            Inl e \<Rightarrow> (Some e, s)
          | Inr db \<Rightarrow> (None, yz_policy_commit_edit (p\<lparr>sp_db := db\<rparr>) s)))"

definition yz_policy_base_commit_allow :: "edit_env \<Rightarrow> yz_policy_key \<Rightarrow> u32 \<Rightarrow> yz_policy_key \<Rightarrow> u32 \<Rightarrow>
    yz_policy_key \<Rightarrow> u32 \<Rightarrow> yz_policy_key \<Rightarrow> u32 \<Rightarrow> selinux \<Rightarrow> errno option \<times> selinux" where
  "yz_policy_base_commit_allow env fk fav dk dav tk tav pk pav =
     commit_keys env True [(fk, fav), (dk, dav), (tk, tav), (pk, pav)]"

definition yz_policy_base_commit_restore :: "edit_env \<Rightarrow> yz_policy_key \<Rightarrow> u32 \<Rightarrow> yz_policy_key \<Rightarrow> u32 \<Rightarrow>
    yz_policy_key \<Rightarrow> u32 \<Rightarrow> yz_policy_key \<Rightarrow> u32 \<Rightarrow> selinux \<Rightarrow> errno option \<times> selinux" where
  "yz_policy_base_commit_restore env fk fav dk dav tk tav pk pav =
     commit_keys env False [(fk, fav), (dk, dav), (tk, tav), (pk, pav)]"

section \<open>Keys of a request\<close>

record yz_policy_file_load_keys =
  fk_file :: yz_policy_key
  fk_dir :: yz_policy_key
  fk_tmpfs :: yz_policy_key
  fk_file_required_av :: u32
  fk_dir_required_av :: u32
  fk_tmpfs_required_av :: u32

datatype yz_policy_tmpfs_access = TMPFS_NONE | TMPFS_LOAD | TMPFS_RECEIVE

definition zero_key :: yz_policy_key where
  "zero_key = \<lparr>pk_src = 0, pk_tgt = 0, pk_class = 0\<rparr>"

definition no_keys :: yz_policy_file_load_keys where
  "no_keys = \<lparr>fk_file = zero_key, fk_dir = zero_key, fk_tmpfs = zero_key, fk_file_required_av = 0,
     fk_dir_required_av = 0, fk_tmpfs_required_av = 0\<rparr>"

definition tmpfs_perms :: "yz_policy_tmpfs_access \<Rightarrow> string list option" where
  "tmpfs_perms access =
     (case access of TMPFS_NONE \<Rightarrow> None | TMPFS_LOAD \<Rightarrow> Some tmpfs_load_perms | TMPFS_RECEIVE \<Rightarrow> Some tmpfs_receive_perms)"

text \<open>A class with a value that fits the 16-bit field of the key.\<close>

definition class_by_name :: "policydb \<Rightarrow> string \<Rightarrow> class_datum option" where
  "class_by_name db name =
     (case db_classes db name of
        Some cls \<Rightarrow> if cls_value cls > 0xFFFF then None else Some cls
      | None \<Rightarrow> None)"

definition add_file_key :: "u32 \<Rightarrow> u32 \<Rightarrow> class_datum \<Rightarrow> yz_policy_file_load_keys \<Rightarrow> yz_policy_file_load_keys" where
  "add_file_key src tgt cls keys =
     keys\<lparr>fk_file := \<lparr>pk_src = src, pk_tgt = tgt, pk_class = ucast (cls_value cls)\<rparr>,
          fk_file_required_av := yz_policy_required_av cls file_load_perms\<rparr>"

definition add_dir_key :: "u32 \<Rightarrow> u32 \<Rightarrow> class_datum \<Rightarrow> yz_policy_file_load_keys \<Rightarrow> yz_policy_file_load_keys" where
  "add_dir_key src tgt cls keys =
     keys\<lparr>fk_dir := \<lparr>pk_src = src, pk_tgt = tgt, pk_class = ucast (cls_value cls)\<rparr>,
          fk_dir_required_av := yz_policy_required_av cls dir_load_perms\<rparr>"

definition add_tmpfs_key ::
  "u32 \<Rightarrow> u32 \<Rightarrow> class_datum \<Rightarrow> string list \<Rightarrow> yz_policy_file_load_keys \<Rightarrow> yz_policy_file_load_keys" where
  "add_tmpfs_key src tmpfs_type cls perms keys =
     keys\<lparr>fk_tmpfs := \<lparr>pk_src = src, pk_tgt = tmpfs_type, pk_class = ucast (cls_value cls)\<rparr>,
          fk_tmpfs_required_av := yz_policy_required_av cls perms\<rparr>"

definition with_dir_key ::
  "policydb \<Rightarrow> bool \<Rightarrow> u32 \<Rightarrow> u32 \<Rightarrow> yz_policy_file_load_keys \<Rightarrow> errno + yz_policy_file_load_keys" where
  "with_dir_key db include_dir src tgt keys =
     (if \<not> include_dir then Inr keys
      else case class_by_name db ''dir'' of None \<Rightarrow> Inl ENOENT | Some cls \<Rightarrow> Inr (add_dir_key src tgt cls keys))"

definition with_tmpfs_key ::
  "policydb \<Rightarrow> yz_policy_tmpfs_access \<Rightarrow> u32 \<Rightarrow> yz_policy_file_load_keys \<Rightarrow> errno + yz_policy_file_load_keys" where
  "with_tmpfs_key db access src keys =
     (case tmpfs_perms access of
        None \<Rightarrow> Inr keys
      | Some perms \<Rightarrow>
          (let tmpfs_type = yz_policy_type_value_by_name db ''tmpfs''
           in if tmpfs_type = 0 then Inr keys
              else case class_by_name db ''file'' of
                None \<Rightarrow> Inl ENOENT
              | Some cls \<Rightarrow> Inr (add_tmpfs_key src tmpfs_type cls perms keys)))"

text \<open>\<open>isid\<close> is the security id of the file's inode, \<open>None\<close> without an inode security structure, and
  \<open>csid\<close> that of the credentials, 0 without a security structure.\<close>

definition yz_policy_base_get_file_load_keys ::
  "u32 option \<Rightarrow> u32 \<Rightarrow> bool \<Rightarrow> yz_policy_tmpfs_access \<Rightarrow> selinux \<Rightarrow> errno + yz_policy_file_load_keys" where
  "yz_policy_base_get_file_load_keys isid csid include_dir access s =
     (case isid of
        None \<Rightarrow> Inl EINVAL
      | Some tsid \<Rightarrow>
          if csid = 0 \<or> tsid = 0 then Inl EINVAL
          else case se_policy s of
            None \<Rightarrow> Inl ENOENT
          | Some p \<Rightarrow>
              (case (yz_policy_sidtab_search (sp_sidtab p) csid, yz_policy_sidtab_search (sp_sidtab p) tsid,
                     class_by_name (sp_db p) ''file'') of
                 (Some src, Some tgt, Some cls) \<Rightarrow>
                   (case with_dir_key (sp_db p) include_dir src tgt (add_file_key src tgt cls no_keys) of
                      Inl e \<Rightarrow> Inl e
                    | Inr keys \<Rightarrow> with_tmpfs_key (sp_db p) access src keys)
               | _ \<Rightarrow> Inl ENOENT))"

definition yz_policy_base_get_execmem_key :: "u32 \<Rightarrow> selinux \<Rightarrow> errno + yz_policy_key \<times> u32" where
  "yz_policy_base_get_execmem_key csid s =
     (if csid = 0 then Inl EINVAL
      else case se_policy s of
        None \<Rightarrow> Inl ENOENT
      | Some p \<Rightarrow>
          (case yz_policy_sidtab_search (sp_sidtab p) csid of
             None \<Rightarrow> Inl ENOENT
           | Some src \<Rightarrow>
               (case class_by_name (sp_db p) ''process'' of
                  None \<Rightarrow> Inl ENOENT
                | Some cls \<Rightarrow> Inr (\<lparr>pk_src = src, pk_tgt = src, pk_class = ucast (cls_value cls)\<rparr>,
                    yz_policy_required_av cls process_execmem_perms))))"

section \<open>Permanent rules for the daemon\<close>

fun allow_sources ::
  "edit_env \<Rightarrow> u32 \<Rightarrow> u16 \<Rightarrow> u32 \<Rightarrow> u32 list \<Rightarrow> policydb \<Rightarrow> errno + policydb" where
  "allow_sources env target tclass av [] db = Inr db"
| "allow_sources env target tclass av (src # srcs) db =
     (case yz_policy_type_name_by_value db src of
        None \<Rightarrow> allow_sources env target tclass av srcs db
      | Some name \<Rightarrow>
          (case db_types db name of
             None \<Rightarrow> allow_sources env target tclass av srcs db
           | Some t \<Rightarrow>
               if ty_attribute t then allow_sources env target tclass av srcs db
               else (case yz_policy_apply_av env True \<lparr>pk_src = src, pk_tgt = target, pk_class = tclass\<rparr> av db of
                   Inl e \<Rightarrow> Inl e
                 | Inr db' \<Rightarrow> allow_sources env target tclass av srcs db')))"

definition yz_policy_allow_all_sources ::
  "edit_env \<Rightarrow> u32 \<Rightarrow> runtime_policy_class \<Rightarrow> policydb \<Rightarrow> errno + policydb" where
  "yz_policy_allow_all_sources env target spec db =
     (let missing = (if rc_optional spec then Inr db else Inl ENOENT)
      in case class_by_name db (rc_name spec) of
        None \<Rightarrow> missing
      | Some cls \<Rightarrow>
          (let av = yz_policy_required_av cls (rc_perms spec)
           in if av = 0 then missing
              else allow_sources env target (ucast (cls_value cls)) av
                     (map of_nat [1..<Suc (length (db_type_names db))]) db))"

definition named_type :: "policydb \<Rightarrow> string \<Rightarrow> u32 option" where
  "named_type db name =
     (case db_types db name of
        None \<Rightarrow> None
      | Some t \<Rightarrow> if ty_attribute t \<or> ty_value t > 0xFFFF then None else Some (ty_value t))"

definition yz_policy_allow_named ::
  "edit_env \<Rightarrow> string \<Rightarrow> string \<Rightarrow> string \<Rightarrow> string list \<Rightarrow> policydb \<Rightarrow> errno + policydb" where
  "yz_policy_allow_named env source target class_name perms db =
     (case (named_type db source, named_type db target, class_by_name db class_name) of
        (Some src, Some tgt, Some cls) \<Rightarrow>
          (let av = yz_policy_required_av cls perms
           in if av = 0 then Inl ENOENT
              else yz_policy_apply_av env True \<lparr>pk_src = src, pk_tgt = tgt, pk_class = ucast (cls_value cls)\<rparr> av db)
      | _ \<Rightarrow> Inl ENOENT)"

fun allow_classes :: "edit_env \<Rightarrow> u32 \<Rightarrow> runtime_policy_class list \<Rightarrow> policydb \<Rightarrow> errno + policydb" where
  "allow_classes env target [] db = Inr db"
| "allow_classes env target (spec # specs) db =
     (case yz_policy_allow_all_sources env target spec db of
        Inl e \<Rightarrow> Inl e
      | Inr db' \<Rightarrow> allow_classes env target specs db')"

definition runtime_rules :: "edit_env \<Rightarrow> u32 \<Rightarrow> policydb \<Rightarrow> errno + policydb" where
  "runtime_rules env target db =
     (case allow_classes env target runtime_policy_classes db of
        Inl e \<Rightarrow> Inl e
      | Inr db' \<Rightarrow> yz_policy_allow_named env ''system_server'' ''system_server'' ''process'' process_execmem_perms db')"

definition yz_host_policy_prepare_runtime_current :: "edit_env \<Rightarrow> u32 \<Rightarrow> selinux \<Rightarrow> errno option \<times> selinux" where
  "yz_host_policy_prepare_runtime_current env csid s =
     (if \<not> se_ready s then (Some EOPNOTSUPP, s)
      else if csid = 0 then (Some EINVAL, s)
      else case se_policy s of
        None \<Rightarrow> (Some ENOENT, s)
      | Some old \<Rightarrow>
          (case yz_policy_sidtab_search (sp_sidtab old) csid of
             None \<Rightarrow> (Some ENOENT, s)
           | Some target \<Rightarrow>
               (case yz_policy_begin_edit env s of
                  Inl e \<Rightarrow> (Some e, s)
                | Inr p \<Rightarrow>
                    (case runtime_rules env target (sp_db p) of
                       Inl e \<Rightarrow> (Some e, s)
                     | Inr db \<Rightarrow> (None, yz_policy_commit_edit (p\<lparr>sp_db := db\<rparr>) s)))))"

definition yz_host_policy_cred_has_type :: "u32 \<Rightarrow> string \<Rightarrow> selinux \<Rightarrow> bool" where
  "yz_host_policy_cred_has_type csid type_name s =
     (se_ready s \<and> csid \<noteq> 0 \<and>
      (case se_policy s of
         None \<Rightarrow> False
       | Some p \<Rightarrow>
           (case yz_policy_sidtab_search (sp_sidtab p) csid of
              None \<Rightarrow> False
            | Some t \<Rightarrow> yz_policy_type_name_by_value (sp_db p) t = Some type_name)))"

section \<open>What an edit changes\<close>

text \<open>Everything of a policy but the allowed bits and the length.\<close>

definition same_symbols :: "policydb \<Rightarrow> policydb \<Rightarrow> bool" where
  "same_symbols db db' \<longleftrightarrow>
     db_types db' = db_types db \<and> db_type_names db' = db_type_names db \<and>
     db_classes db' = db_classes db \<and> db_class_names db' = db_class_names db"

lemma same_symbols_refl [simp]: "same_symbols db db"
  by (simp add: same_symbols_def)

lemma same_symbols_trans: "same_symbols a b \<Longrightarrow> same_symbols b c \<Longrightarrow> same_symbols a c"
  by (simp add: same_symbols_def)

text \<open>Some pair of the list has the key of \<open>k\<close> and the bit \<open>i\<close>.\<close>

definition names_bit :: "(yz_policy_key \<times> u32) list \<Rightarrow> yz_policy_key \<Rightarrow> nat \<Rightarrow> bool" where
  "names_bit kvs k i \<longleftrightarrow> (\<exists>kv \<in> set kvs. av_key (fst kv) = av_key k \<and> bit (snd kv) i)"

lemma names_bit_simps [simp]:
  "\<not> names_bit [] k i"
  "names_bit ((k', av) # kvs) k i \<longleftrightarrow> av_key k' = av_key k \<and> bit av i \<or> names_bit kvs k i"
  by (auto simp: names_bit_def)

abbreviation (input) allowed :: "policydb \<Rightarrow> yz_policy_key \<Rightarrow> nat \<Rightarrow> bool" where
  "allowed db k i \<equiv> bit (yz_policy_direct_allowed_av db k) i"

lemma apply_av_allow:
  assumes "yz_policy_apply_av env True k av db = Inr db'"
  shows "same_symbols db db' \<and> (allowed db' k' i \<longleftrightarrow> allowed db k' i \<or> av_key k = av_key k' \<and> bit av i)"
  using assms
  by (auto simp: yz_policy_apply_av_def yz_policy_get_avtab_node_def set_av_def same_symbols_def
      yz_policy_direct_allowed_av_def bit_or_iff split: if_splits option.splits)

lemma apply_av_restore:
  assumes "yz_policy_apply_av env False k av db = Inr db'"
  shows "same_symbols db db' \<and> (allowed db' k' i \<longleftrightarrow> allowed db k' i \<and> \<not> (av_key k = av_key k' \<and> bit av i))"
proof (cases "av = 0")
  case False
  then have db': "db' = clear_av env k av db"
    using assms by (simp add: yz_policy_apply_av_def split: if_splits)
  show ?thesis
  proof (cases "db_te_avtab db (av_key k)")
    case None
    then show ?thesis unfolding db' by (auto simp: clear_av_def yz_policy_direct_allowed_av_def)
  next
    case (Some old)
    have b: "bit (old AND NOT av) i \<longleftrightarrow> bit old i \<and> \<not> bit av i"
      by (auto simp: bit_and_iff bit_not_iff dest: bit_imp_le_length)
    then have "old AND NOT av = 0 \<Longrightarrow> bit old i \<Longrightarrow> bit av i" by simp
    with b show ?thesis unfolding db' using Some
      by (auto simp: clear_av_def set_av_def yz_policy_remove_avtab_node_def same_symbols_def Let_def
          yz_policy_direct_allowed_av_def)
  qed
qed (use assms in \<open>auto simp: yz_policy_apply_av_def\<close>)

lemma apply_keys_allow:
  assumes "apply_keys env True kvs db = Inr db'"
  shows "same_symbols db db' \<and> (allowed db' k i \<longleftrightarrow> allowed db k i \<or> names_bit kvs k i)"
  using assms
proof (induction kvs arbitrary: db)
  case (Cons kv kvs)
  obtain k' av where kv: "kv = (k', av)" by fastforce
  obtain d where d: "yz_policy_apply_av env True k' av db = Inr d" "apply_keys env True kvs d = Inr db'"
    using Cons.prems kv by (auto split: sum.splits)
  from Cons.IH [OF d(2)] apply_av_allow [OF d(1), of k i] kv show ?case
    by (auto intro: same_symbols_trans)
qed simp

lemma apply_keys_restore:
  assumes "apply_keys env False kvs db = Inr db'"
  shows "same_symbols db db' \<and> (allowed db' k i \<longleftrightarrow> allowed db k i \<and> \<not> names_bit kvs k i)"
  using assms
proof (induction kvs arbitrary: db)
  case (Cons kv kvs)
  obtain k' av where kv: "kv = (k', av)" by fastforce
  obtain d where d: "yz_policy_apply_av env False k' av db = Inr d" "apply_keys env False kvs d = Inr db'"
    using Cons.prems kv by (auto split: sum.splits)
  from Cons.IH [OF d(2)] apply_av_restore [OF d(1), of k i] kv show ?case
    by (auto intro: same_symbols_trans)
qed simp

text \<open>Reading back what was written gives the policy, whose length the code sets itself.\<close>

definition dup_documented :: "edit_env \<Rightarrow> bool" where
  "dup_documented env \<longleftrightarrow>
     (\<forall>db len data db'. ee_write env db len = Inr data \<longrightarrow>
        ee_read env (set_config (ee_config env db) data) = Inr db' \<longrightarrow> db'\<lparr>db_len := db_len db\<rparr> = db)"

lemma yz_policy_dup_same: "dup_documented env \<Longrightarrow> yz_policy_dup env p = Inr p' \<Longrightarrow> p' = p"
  by (auto simp: yz_policy_dup_def dup_documented_def split: if_splits sum.splits)

text \<open>The policy in force and its edit.\<close>

definition policy_of :: "selinux \<Rightarrow> policydb" where
  "policy_of s = sp_db (the (se_policy s))"

lemma commit_keys_fails: "commit_keys env allow kvs s = (Some e, s') \<Longrightarrow> s' = s"
  by (auto simp: commit_keys_def split: if_splits sum.splits)

lemma commit_keys_ok:
  assumes "dup_documented env" and "commit_keys env allow kvs s = (None, s')" and "se_policy s = Some p"
  obtains db where "apply_keys env allow kvs (sp_db p) = Inr db \<or> list_all (\<lambda>kv. snd kv = 0) kvs \<and> db = sp_db p"
    and "s' = s\<lparr>se_policy := Some (p\<lparr>sp_db := db\<rparr>)\<rparr>"
proof (cases "list_all (\<lambda>kv. snd kv = 0) kvs")
  case True
  then have "s' = s" using assms(2) by (simp add: commit_keys_def)
  with that [of "sp_db p"] True assms(3) show ?thesis by simp
next
  case False
  then obtain p' db where "yz_policy_begin_edit env s = Inr p'" "apply_keys env allow kvs (sp_db p') = Inr db"
      "s' = yz_policy_commit_edit (p'\<lparr>sp_db := db\<rparr>) s"
    using assms(2) by (auto simp: commit_keys_def split: if_splits sum.splits)
  moreover from this(1) have "p' = p"
    using assms(1,3) yz_policy_dup_same by (simp add: yz_policy_begin_edit_def split: if_splits)
  ultimately show ?thesis using that by (auto simp: yz_policy_commit_edit_def)
qed

lemma no_bits_named: "list_all (\<lambda>kv. snd kv = 0) kvs \<Longrightarrow> \<not> names_bit kvs k i"
  by (auto simp: names_bit_def list_all_iff)

lemma commit_allow_bits:
  assumes "dup_documented env" and "commit_keys env True kvs s = (None, s')" and "se_policy s = Some p"
  shows "\<exists>db. s' = s\<lparr>se_policy := Some (p\<lparr>sp_db := db\<rparr>)\<rparr> \<and> same_symbols (sp_db p) db \<and>
    (\<forall>k i. allowed db k i \<longleftrightarrow> allowed (sp_db p) k i \<or> names_bit kvs k i)"
  using commit_keys_ok [OF assms] apply_keys_allow no_bits_named by (metis same_symbols_refl)

lemma commit_restore_bits:
  assumes "dup_documented env" and "commit_keys env False kvs s = (None, s')" and "se_policy s = Some p"
  shows "\<exists>db. s' = s\<lparr>se_policy := Some (p\<lparr>sp_db := db\<rparr>)\<rparr> \<and> same_symbols (sp_db p) db \<and>
    (\<forall>k i. allowed db k i \<longleftrightarrow> allowed (sp_db p) k i \<and> \<not> names_bit kvs k i)"
  using commit_keys_ok [OF assms] apply_keys_restore no_bits_named by (metis same_symbols_refl)

end
