(* ===== verification/Policy_Temp.thy ===== *)
theory Policy_Temp
  imports Policy_Edit
begin

text \<open>
  Temporary SELinux allowances, \<^verbatim>\<open>kernel/host/policy_temp.c\<close>: permissions that a process lacks are added
  to the policy while a file is loaded, counted per key and permission in a table of 64 rules, and
  removed with the last one who asked for them.

  Every function runs under the policy lock and is one step.  The log messages are left out.
\<close>

section \<open>State\<close>

record yz_policy_temp_rule =
  tr_used :: bool
  tr_key :: yz_policy_key
  tr_refs :: "u16 list"

record temp_state =
  ts_selinux :: selinux
  ts_rules :: "yz_policy_temp_rule list"

record yz_file_load_policy =
  lp_src_type :: u32
  lp_tgt_type :: u32
  lp_tmpfs_type :: u32
  lp_process_type :: u32
  lp_target_class :: u16
  lp_process_class :: u16
  lp_dir_class :: u16
  lp_added_av :: u32
  lp_tmpfs_added_av :: u32
  lp_process_added_av :: u32
  lp_dir_added_av :: u32

definition empty_rule :: yz_policy_temp_rule where
  "empty_rule = \<lparr>tr_used = False, tr_key = zero_key, tr_refs = replicate 32 0\<rparr>"

definition empty_policy :: yz_file_load_policy where
  "empty_policy = \<lparr>lp_src_type = 0, lp_tgt_type = 0, lp_tmpfs_type = 0, lp_process_type = 0, lp_target_class = 0,
     lp_process_class = 0, lp_dir_class = 0, lp_added_av = 0, lp_tmpfs_added_av = 0, lp_process_added_av = 0,
     lp_dir_added_av = 0\<rparr>"

section \<open>The rule table\<close>

text \<open>The loops over the 32 permission bits that collect a mask.\<close>

definition bits_where :: "(nat \<Rightarrow> bool) \<Rightarrow> u32" where
  "bits_where P = foldl (\<lambda>m i. if P i then m OR push_bit i 1 else m) 0 [0..<32]"

definition yz_policy_temp_key_eq :: "yz_policy_key \<Rightarrow> yz_policy_key \<Rightarrow> bool" where
  "yz_policy_temp_key_eq a b \<longleftrightarrow> pk_src a = pk_src b \<and> pk_tgt a = pk_tgt b \<and> pk_class a = pk_class b"

definition yz_policy_temp_find :: "yz_policy_key \<Rightarrow> yz_policy_temp_rule list \<Rightarrow> nat option" where
  "yz_policy_temp_find k rs = find (\<lambda>i. tr_used (rs ! i) \<and> yz_policy_temp_key_eq (tr_key (rs ! i)) k) [0..<length rs]"

definition yz_policy_temp_find_free :: "yz_policy_temp_rule list \<Rightarrow> nat option" where
  "yz_policy_temp_find_free rs = find (\<lambda>i. \<not> tr_used (rs ! i)) [0..<length rs]"

definition yz_policy_temp_mask :: "yz_policy_key \<Rightarrow> yz_policy_temp_rule list \<Rightarrow> u32" where
  "yz_policy_temp_mask k rs =
     (case yz_policy_temp_find k rs of
        None \<Rightarrow> 0
      | Some j \<Rightarrow> bits_where (\<lambda>i. tr_refs (rs ! j) ! i \<noteq> 0))"

definition yz_policy_temp_validate_add :: "yz_policy_key \<Rightarrow> u32 \<Rightarrow> yz_policy_temp_rule list \<Rightarrow> errno option" where
  "yz_policy_temp_validate_add k av rs =
     (if av = 0 then None
      else case yz_policy_temp_find k rs of
        None \<Rightarrow> if yz_policy_temp_find_free rs = None then Some ENOSPC else None
      | Some j \<Rightarrow>
          if list_ex (\<lambda>i. bit av i \<and> tr_refs (rs ! j) ! i = 0xFFFF) [0..<32] then Some EOVERFLOW else None)"

definition count_up :: "u32 \<Rightarrow> u16 list \<Rightarrow> u16 list" where
  "count_up av refs = map (\<lambda>i. if bit av i then refs ! i + 1 else refs ! i) [0..<32]"

definition count_down :: "u32 \<Rightarrow> u16 list \<Rightarrow> u16 list" where
  "count_down av refs = map (\<lambda>i. if bit av i \<and> refs ! i \<noteq> 0 then refs ! i - 1 else refs ! i) [0..<32]"

definition yz_policy_temp_add :: "yz_policy_key \<Rightarrow> u32 \<Rightarrow> yz_policy_temp_rule list \<Rightarrow> yz_policy_temp_rule list" where
  "yz_policy_temp_add k av rs =
     (if av = 0 then rs
      else case yz_policy_temp_find k rs of
        Some j \<Rightarrow> rs[j := (rs ! j)\<lparr>tr_refs := count_up av (tr_refs (rs ! j))\<rparr>]
      | None \<Rightarrow>
          (case yz_policy_temp_find_free rs of
             None \<Rightarrow> rs
           | Some j \<Rightarrow> rs[j := \<lparr>tr_used = True, tr_key = k, tr_refs = count_up av (replicate 32 0)\<rparr>]))"

definition yz_policy_temp_plan_release :: "yz_policy_key \<Rightarrow> u32 \<Rightarrow> yz_policy_temp_rule list \<Rightarrow> u32" where
  "yz_policy_temp_plan_release k av rs =
     (if av = 0 then 0
      else case yz_policy_temp_find k rs of
        None \<Rightarrow> av
      | Some j \<Rightarrow> bits_where (\<lambda>i. bit av i \<and> tr_refs (rs ! j) ! i \<le> 1))"

definition yz_policy_temp_release :: "yz_policy_key \<Rightarrow> u32 \<Rightarrow> yz_policy_temp_rule list \<Rightarrow> yz_policy_temp_rule list" where
  "yz_policy_temp_release k av rs =
     (if av = 0 then rs
      else case yz_policy_temp_find k rs of
        None \<Rightarrow> rs
      | Some j \<Rightarrow>
          (let refs = count_down av (tr_refs (rs ! j))
           in rs[j := if list_ex (\<lambda>r. r \<noteq> 0) refs then (rs ! j)\<lparr>tr_refs := refs\<rparr> else empty_rule]))"

text \<open>What is to be counted for a request, and what is to be added to the policy.\<close>

definition yz_policy_temp_plan_allow :: "yz_policy_key \<Rightarrow> u32 \<Rightarrow> temp_state \<Rightarrow> errno + u32 \<times> u32" where
  "yz_policy_temp_plan_allow k required s =
     (if required = 0 then Inl ENOENT
      else
        let direct = yz_policy_base_direct_allowed_av (ts_selinux s) k;
            owned = yz_policy_temp_mask k (ts_rules s);
            request = required AND (NOT direct OR owned)
        in if request = 0 then Inr (0, 0)
           else case yz_policy_temp_validate_add k request (ts_rules s) of
               Some e \<Rightarrow> Inl e
             | None \<Rightarrow> Inr (request, request AND NOT owned))"

section \<open>Allowing and restoring\<close>

definition plan_optional :: "yz_policy_key \<Rightarrow> u32 \<Rightarrow> temp_state \<Rightarrow> errno + u32 \<times> u32" where
  "plan_optional k required s = (if required = 0 then Inr (0, 0) else yz_policy_temp_plan_allow k required s)"

definition allowed_policy :: "yz_policy_file_load_keys \<Rightarrow> u32 \<Rightarrow> u32 \<Rightarrow> u32 \<Rightarrow> yz_file_load_policy" where
  "allowed_policy keys file_av dir_av tmpfs_av =
     empty_policy\<lparr>lp_added_av := file_av, lp_dir_added_av := dir_av, lp_tmpfs_added_av := tmpfs_av,
       lp_src_type := pk_src (fk_file keys), lp_tgt_type := pk_tgt (fk_file keys), lp_tmpfs_type := pk_tgt (fk_tmpfs keys),
       lp_target_class := pk_class (fk_file keys), lp_dir_class := pk_class (fk_dir keys)\<rparr>"

definition commit_file_allow ::
  "edit_env \<Rightarrow> yz_policy_file_load_keys \<Rightarrow> u32 \<times> u32 \<Rightarrow> u32 \<times> u32 \<Rightarrow> u32 \<times> u32 \<Rightarrow> temp_state \<Rightarrow>
     errno option \<times> yz_file_load_policy \<times> temp_state" where
  "commit_file_allow env keys file dir tmpfs s =
     (case yz_policy_base_commit_allow env (fk_file keys) (snd file) (fk_dir keys) (snd dir)
             (fk_tmpfs keys) (snd tmpfs) zero_key 0 (ts_selinux s) of
        (Some e, se) \<Rightarrow> (Some e, empty_policy, s\<lparr>ts_selinux := se\<rparr>)
      | (None, se) \<Rightarrow>
          (None, allowed_policy keys (fst file) (fst dir) (fst tmpfs),
           s\<lparr>ts_selinux := se,
             ts_rules := yz_policy_temp_add (fk_tmpfs keys) (fst tmpfs)
               (yz_policy_temp_add (fk_dir keys) (fst dir)
                 (yz_policy_temp_add (fk_file keys) (fst file) (ts_rules s)))\<rparr>))"

definition plan_file_allow ::
  "yz_policy_file_load_keys \<Rightarrow> temp_state \<Rightarrow> errno + (u32 \<times> u32) \<times> (u32 \<times> u32) \<times> (u32 \<times> u32)" where
  "plan_file_allow keys s =
     (case yz_policy_temp_plan_allow (fk_file keys) (fk_file_required_av keys) s of
        Inl e \<Rightarrow> Inl e
      | Inr file \<Rightarrow>
          (case plan_optional (fk_dir keys) (fk_dir_required_av keys) s of
             Inl e \<Rightarrow> Inl e
           | Inr dir \<Rightarrow>
               (case plan_optional (fk_tmpfs keys) (fk_tmpfs_required_av keys) s of
                  Inl e \<Rightarrow> Inl e
                | Inr tmpfs \<Rightarrow> Inr (file, dir, tmpfs))))"

text \<open>The request is the file's inode and the credentials (see \<open>yz_policy_base_get_file_load_keys\<close>), \<open>None\<close>
  for a null pointer; \<open>st\<close> is the caller's state, which is overwritten.\<close>

definition yz_host_policy_allow_file ::
  "edit_env \<Rightarrow> (u32 option \<times> u32) option \<Rightarrow> bool \<Rightarrow> yz_policy_tmpfs_access \<Rightarrow> yz_file_load_policy \<Rightarrow> temp_state \<Rightarrow>
     errno option \<times> yz_file_load_policy \<times> temp_state" where
  "yz_host_policy_allow_file env request include_dir access st s =
     (case request of
        None \<Rightarrow> (Some EINVAL, st, s)
      | Some (isid, csid) \<Rightarrow>
          if \<not> se_ready (ts_selinux s) then (Some EOPNOTSUPP, empty_policy, s)
          else (case yz_policy_base_get_file_load_keys isid csid include_dir access (ts_selinux s) of
              Inl e \<Rightarrow> (Some e, empty_policy, s)
            | Inr keys \<Rightarrow>
                (case plan_file_allow keys s of
                   Inl e \<Rightarrow> (Some e, empty_policy, s)
                 | Inr (file, dir, tmpfs) \<Rightarrow> commit_file_allow env keys file dir tmpfs s)))"

definition yz_host_policy_allow_file_current where
  "yz_host_policy_allow_file_current env request = yz_host_policy_allow_file env request False TMPFS_LOAD"

definition yz_host_policy_allow_file_cred where
  "yz_host_policy_allow_file_cred env request = yz_host_policy_allow_file env request True TMPFS_RECEIVE"

definition execmem_mismatch :: "yz_file_load_policy \<Rightarrow> yz_policy_key \<Rightarrow> bool" where
  "execmem_mismatch st key \<longleftrightarrow>
     (lp_src_type st \<noteq> 0 \<and> lp_src_type st \<noteq> pk_src key) \<or>
     (lp_process_added_av st \<noteq> 0 \<and> (lp_process_type st \<noteq> pk_src key \<or> lp_process_class st \<noteq> pk_class key))"

definition commit_execmem ::
  "edit_env \<Rightarrow> yz_policy_key \<Rightarrow> u32 \<times> u32 \<Rightarrow> yz_file_load_policy \<Rightarrow> temp_state \<Rightarrow>
     errno option \<times> yz_file_load_policy \<times> temp_state" where
  "commit_execmem env key av st s =
     (case yz_policy_base_commit_allow env zero_key 0 zero_key 0 zero_key 0 key (snd av) (ts_selinux s) of
        (Some e, se) \<Rightarrow>
          (Some e, st\<lparr>lp_process_type := 0, lp_process_class := 0, lp_process_added_av := 0\<rparr>, s\<lparr>ts_selinux := se\<rparr>)
      | (None, se) \<Rightarrow>
          (None, st\<lparr>lp_process_type := pk_src key, lp_process_class := pk_class key, lp_process_added_av := fst av\<rparr>,
           s\<lparr>ts_selinux := se, ts_rules := yz_policy_temp_add key (fst av) (ts_rules s)\<rparr>))"

definition yz_host_policy_allow_execmem ::
  "edit_env \<Rightarrow> u32 option \<Rightarrow> yz_file_load_policy \<Rightarrow> temp_state \<Rightarrow> errno option \<times> yz_file_load_policy \<times> temp_state" where
  "yz_host_policy_allow_execmem env cred st s =
     (case cred of
        None \<Rightarrow> (Some EINVAL, st, s)
      | Some csid \<Rightarrow>
          if \<not> se_ready (ts_selinux s) then (Some EOPNOTSUPP, st, s)
          else (case yz_policy_base_get_execmem_key csid (ts_selinux s) of
              Inl e \<Rightarrow> (Some e, st, s)
            | Inr (key, required) \<Rightarrow>
                if execmem_mismatch st key then (Some EINVAL, st, s)
                else if lp_process_added_av st \<noteq> 0 then (None, st, s)
                else (case yz_policy_temp_plan_allow key required s of
                    Inl e \<Rightarrow> (Some e, st, s)
                  | Inr av \<Rightarrow> commit_execmem env key av st s)))"

definition file_key :: "yz_file_load_policy \<Rightarrow> yz_policy_key" where
  "file_key st = \<lparr>pk_src = lp_src_type st, pk_tgt = lp_tgt_type st, pk_class = lp_target_class st\<rparr>"

definition dir_key :: "yz_file_load_policy \<Rightarrow> yz_policy_key" where
  "dir_key st = \<lparr>pk_src = lp_src_type st, pk_tgt = lp_tgt_type st, pk_class = lp_dir_class st\<rparr>"

definition tmpfs_key :: "yz_file_load_policy \<Rightarrow> yz_policy_key" where
  "tmpfs_key st = \<lparr>pk_src = lp_src_type st, pk_tgt = lp_tmpfs_type st, pk_class = lp_target_class st\<rparr>"

definition process_key :: "yz_file_load_policy \<Rightarrow> yz_policy_key" where
  "process_key st = \<lparr>pk_src = lp_process_type st, pk_tgt = lp_process_type st, pk_class = lp_process_class st\<rparr>"

definition release_all :: "yz_file_load_policy \<Rightarrow> yz_policy_temp_rule list \<Rightarrow> yz_policy_temp_rule list" where
  "release_all st rs =
     yz_policy_temp_release (process_key st) (lp_process_added_av st)
       (yz_policy_temp_release (tmpfs_key st) (lp_tmpfs_added_av st)
         (yz_policy_temp_release (dir_key st) (lp_dir_added_av st)
           (yz_policy_temp_release (file_key st) (lp_added_av st) rs)))"

definition yz_host_policy_restore :: "edit_env \<Rightarrow> yz_file_load_policy \<Rightarrow> temp_state \<Rightarrow> errno option \<times> temp_state" where
  "yz_host_policy_restore env st s =
     (if lp_added_av st = 0 \<and> lp_tmpfs_added_av st = 0 \<and> lp_process_added_av st = 0 \<and> lp_dir_added_av st = 0 then (None, s)
      else if \<not> se_ready (ts_selinux s) then (Some EOPNOTSUPP, s)
      else
        let rs = ts_rules s;
            file_clear = yz_policy_temp_plan_release (file_key st) (lp_added_av st) rs;
            dir_clear = yz_policy_temp_plan_release (dir_key st) (lp_dir_added_av st) rs;
            tmpfs_clear = yz_policy_temp_plan_release (tmpfs_key st) (lp_tmpfs_added_av st) rs;
            process_clear = yz_policy_temp_plan_release (process_key st) (lp_process_added_av st) rs
        in case yz_policy_base_commit_restore env (file_key st) file_clear (dir_key st) dir_clear (tmpfs_key st) tmpfs_clear
                  (process_key st) process_clear (ts_selinux s) of
          (Some e, se) \<Rightarrow> (Some e, s\<lparr>ts_selinux := se\<rparr>)
        | (None, se) \<Rightarrow> (None, s\<lparr>ts_selinux := se, ts_rules := release_all st rs\<rparr>))"

definition yz_policy_temp_reset :: "temp_state \<Rightarrow> temp_state" where
  "yz_policy_temp_reset s = s\<lparr>ts_rules := replicate 64 empty_rule\<rparr>"

definition yz_host_policy_exit :: "temp_state \<Rightarrow> temp_state" where
  "yz_host_policy_exit s = (yz_policy_temp_reset s)\<lparr>ts_selinux := (ts_selinux s)\<lparr>se_ready := False\<rparr>\<rparr>"

section \<open>Reference counts\<close>

lemma bit_bits_loop: "bit (foldl (\<lambda>m i. if P i then m OR push_bit i 1 else m) (w :: u32) is) j \<longleftrightarrow>
    bit w j \<or> j < 32 \<and> j \<in> set is \<and> P j"
proof (induction "is" arbitrary: w)
  case (Cons i "is")
  have "bit (push_bit i (1 :: u32)) j \<longleftrightarrow> j < 32 \<and> j = i" by (auto simp: bit_simps)
  then show ?case using Cons.IH by (auto simp: bit_or_iff)
qed simp

lemma bit_bits_where [simp]: "bit (bits_where P) j \<longleftrightarrow> j < 32 \<and> P j"
  by (auto simp: bits_where_def bit_bits_loop)

lemma bit_u32_less: "bit (w :: u32) i \<Longrightarrow> i < 32"
  by (auto dest: bit_imp_le_length)

lemma key_eq_iff [simp]: "yz_policy_temp_key_eq a b \<longleftrightarrow> a = b"
  by (auto simp: yz_policy_temp_key_eq_def)

lemma length_count [simp]: "length (count_up av refs) = 32" "length (count_down av refs) = 32"
  by (simp_all add: count_up_def count_down_def)

definition rules_ok :: "yz_policy_temp_rule list \<Rightarrow> bool" where
  "rules_ok rs \<longleftrightarrow>
     (\<forall>j < length rs. length (tr_refs (rs ! j)) = 32) \<and>
     (\<forall>j < length rs. \<forall>j' < length rs. tr_used (rs ! j) \<longrightarrow> tr_used (rs ! j') \<longrightarrow> tr_key (rs ! j) = tr_key (rs ! j') \<longrightarrow> j = j')"

definition refs_of :: "yz_policy_temp_rule list \<Rightarrow> yz_policy_key \<Rightarrow> nat \<Rightarrow> nat" where
  "refs_of rs k i = (case yz_policy_temp_find k rs of Some j \<Rightarrow> unat (tr_refs (rs ! j) ! i) | None \<Rightarrow> 0)"

definition free_rules :: "yz_policy_temp_rule list \<Rightarrow> nat" where
  "free_rules rs = length (filter (\<lambda>r. \<not> tr_used r) rs)"

lemma find_ruleD: "yz_policy_temp_find k rs = Some j \<Longrightarrow> j < length rs \<and> tr_used (rs ! j) \<and> tr_key (rs ! j) = k"
  by (auto simp: yz_policy_temp_find_def find_Some_iff)

lemma find_rule_iff:
  assumes "rules_ok rs"
  shows "yz_policy_temp_find k rs = Some j \<longleftrightarrow> j < length rs \<and> tr_used (rs ! j) \<and> tr_key (rs ! j) = k"
proof
  assume j: "j < length rs \<and> tr_used (rs ! j) \<and> tr_key (rs ! j) = k"
  then have "yz_policy_temp_find k rs \<noteq> None" by (auto simp: yz_policy_temp_find_def find_None_iff)
  then obtain j' where "yz_policy_temp_find k rs = Some j'" by blast
  moreover from this have "j' = j" using j assms find_ruleD by (auto simp: rules_ok_def)
  ultimately show "yz_policy_temp_find k rs = Some j" by simp
qed (rule find_ruleD)

lemma find_free_Some: "yz_policy_temp_find_free rs = Some j \<Longrightarrow> j < length rs \<and> \<not> tr_used (rs ! j)"
  by (auto simp: yz_policy_temp_find_free_def find_Some_iff)

lemma find_free_exists: "0 < free_rules rs \<Longrightarrow> \<exists>j. yz_policy_temp_find_free rs = Some j"
proof -
  assume "0 < free_rules rs"
  then obtain r where "r \<in> set rs" "\<not> tr_used r" by (auto simp: free_rules_def filter_empty_conv)
  then have "yz_policy_temp_find_free rs \<noteq> None"
    by (auto simp: yz_policy_temp_find_free_def find_None_iff in_set_conv_nth)
  then show ?thesis by blast
qed

lemma free_rules_update:
  "j < length rs \<Longrightarrow> of_bool (\<not> tr_used (rs ! j)) + free_rules (rs[j := r]) = free_rules rs + of_bool (\<not> tr_used r)"
proof (induction rs arbitrary: j)
  case (Cons q rs)
  then show ?case by (cases j) (auto simp: free_rules_def)
qed simp

text \<open>Replacing the rule of a key, or a free one, changes the counts of this key only.\<close>

lemma refs_of_update:
  assumes "rules_ok rs" and "j < length rs" and "length (tr_refs r) = 32"
    and "if tr_used (rs ! j) then tr_key (rs ! j) = k else yz_policy_temp_find k rs = None"
    and "tr_used r \<Longrightarrow> tr_key r = k"
  shows "rules_ok (rs[j := r]) \<and>
    refs_of (rs[j := r]) k' i = (if k' = k then (if tr_used r then unat (tr_refs r ! i) else 0) else refs_of rs k' i)"
proof -
  have unique: "j' = j" if "j' < length rs" "tr_used (rs ! j')" "tr_key (rs ! j') = k" for j'
    using that assms(1,2,4) find_rule_iff [OF assms(1), of k j'] by (auto simp: rules_ok_def split: if_splits)
  have ok: "rules_ok (rs[j := r])"
    using assms(1,2,3,5) unique by (auto simp: rules_ok_def nth_list_update)
  have same: "refs_of (rs[j := r]) k' i = refs_of rs k' i" if "k' \<noteq> k"
  proof -
    have "tr_used (rs ! j) \<Longrightarrow> tr_key (rs ! j) = k" using assms(4) by simp
    then have "yz_policy_temp_find k' (rs[j := r]) = Some n \<longleftrightarrow> yz_policy_temp_find k' rs = Some n \<and> n \<noteq> j" for n
      unfolding find_rule_iff [OF ok] find_rule_iff [OF assms(1)]
      using assms(2,5) that by (auto simp: nth_list_update)
    moreover have "yz_policy_temp_find k' rs \<noteq> Some j"
      using find_ruleD [of k' rs j] assms(4) that by (auto split: if_splits)
    ultimately have "yz_policy_temp_find k' (rs[j := r]) = yz_policy_temp_find k' rs"
      by (metis not_Some_eq)
    moreover have "(rs[j := r]) ! n = rs ! n" if "yz_policy_temp_find k' rs = Some n" for n
      using that \<open>yz_policy_temp_find k' rs \<noteq> Some j\<close> by (cases "n = j") simp_all
    ultimately show ?thesis by (simp add: refs_of_def split: option.split)
  qed
  have new: "refs_of (rs[j := r]) k i = (if tr_used r then unat (tr_refs r ! i) else 0)"
  proof (cases "tr_used r")
    case True
    then have "yz_policy_temp_find k (rs[j := r]) = Some j"
      unfolding find_rule_iff [OF ok] using assms(2,5) by simp
    with True assms(2) show ?thesis by (simp add: refs_of_def)
  next
    case False
    have "yz_policy_temp_find k (rs[j := r]) = None"
    proof (rule ccontr)
      assume "yz_policy_temp_find k (rs[j := r]) \<noteq> None"
      then obtain n where "yz_policy_temp_find k (rs[j := r]) = Some n" by blast
      from find_ruleD [OF this] False unique assms(2) show False by (cases "n = j") (auto simp: nth_list_update)
    qed
    with False show ?thesis by (simp add: refs_of_def)
  qed
  show ?thesis using ok same new by simp
qed

text \<open>How often a list of grants names a permission.\<close>

definition held :: "(yz_policy_key \<times> u32) list \<Rightarrow> yz_policy_key \<Rightarrow> nat \<Rightarrow> nat" where
  "held gs k i = length (filter (\<lambda>g. fst g = k \<and> bit (snd g) i) gs)"

lemma held_simps [simp]:
  "held [] k i = 0" "held (g # gs) k i = of_bool (fst g = k \<and> bit (snd g) i) + held gs k i"
  "held (gs @ hs) k i = held gs k i + held hs k i"
  by (simp_all add: held_def)

lemma unat_Suc_u16: "unat w < 0xFFFF \<Longrightarrow> unat (w + 1) = Suc (unat w)" for w :: u16
  by (simp add: unat_add_lt)

lemma not_max_u16: "w \<noteq> 0xFFFF \<Longrightarrow> unat w < 0xFFFF" for w :: u16
proof -
  assume "w \<noteq> 0xFFFF"
  then have "unat w \<noteq> unat (0xFFFF :: u16)" by (metis word_eq_iff_unsigned)
  then show ?thesis using unat_lt_exp [of w] by simp
qed

lemma count_up_nth: "i < 32 \<Longrightarrow> count_up av refs ! i = (if bit av i then refs ! i + 1 else refs ! i)"
  "i < 32 \<Longrightarrow> count_down av refs ! i = (if bit av i \<and> refs ! i \<noteq> 0 then refs ! i - 1 else refs ! i)"
  by (simp_all add: count_up_def count_down_def)

lemma temp_add_counts:
  assumes "rules_ok rs" and "0 < free_rules rs" and "\<And>i. bit av i \<Longrightarrow> refs_of rs k i < 0xFFFF"
  shows "rules_ok (yz_policy_temp_add k av rs) \<and> free_rules rs \<le> free_rules (yz_policy_temp_add k av rs) + 1 \<and>
    (\<forall>k' i. i < 32 \<longrightarrow> refs_of (yz_policy_temp_add k av rs) k' i = refs_of rs k' i + held [(k, av)] k' i)"
proof (cases "yz_policy_temp_find k rs")
  case (Some j)
  let ?r = "(rs ! j)\<lparr>tr_refs := count_up av (tr_refs (rs ! j))\<rparr>"
  have j: "j < length rs" "tr_used (rs ! j)" "tr_key (rs ! j) = k" using find_ruleD [OF Some] by auto
  have up: "unat (count_up av (tr_refs (rs ! j)) ! i) = refs_of rs k i + of_bool (bit av i)" if "i < 32" for i
    using that assms(3) [of i] Some unat_Suc_u16 [of "tr_refs (rs ! j) ! i"] by (auto simp: count_up_nth refs_of_def)
  have "rules_ok (rs[j := ?r]) \<and> refs_of (rs[j := ?r]) k' i =
      (if k' = k then (if tr_used ?r then unat (tr_refs ?r ! i) else 0) else refs_of rs k' i)" for k' i
    by (rule refs_of_update) (use assms(1) j in simp_all)
  then show ?thesis using assms(1) Some j up free_rules_update [OF j(1), of ?r] by (auto simp: yz_policy_temp_add_def)
next
  case None
  obtain j where f: "yz_policy_temp_find_free rs = Some j" using find_free_exists [OF assms(2)] by blast
  let ?r = "\<lparr>tr_used = True, tr_key = k, tr_refs = count_up av (replicate 32 0)\<rparr>"
  have j: "j < length rs" "\<not> tr_used (rs ! j)" using find_free_Some [OF f] by auto
  have "rules_ok (rs[j := ?r]) \<and> refs_of (rs[j := ?r]) k' i =
      (if k' = k then (if tr_used ?r then unat (tr_refs ?r ! i) else 0) else refs_of rs k' i)" for k' i
    by (rule refs_of_update) (use assms(1) j None in simp_all)
  moreover have "refs_of rs k i = 0" for i using None by (simp add: refs_of_def)
  ultimately show ?thesis
    using None f j assms(1) free_rules_update [OF j(1), of ?r] by (auto simp: yz_policy_temp_add_def count_up_nth)
qed

lemma temp_add_free: "free_rules rs \<le> free_rules (yz_policy_temp_add k av rs) + 1"
proof -
  have "free_rules rs \<le> free_rules (rs[j := r]) + 1" if "j < length rs" for j r
    using free_rules_update [OF that, of r] by (cases "tr_used (rs ! j)") simp_all
  then show ?thesis
    by (auto simp: yz_policy_temp_add_def dest!: find_ruleD find_free_Some split: option.split)
qed

lemma add_many_free: "free_rules rs \<le> free_rules (foldl (\<lambda>rs g. yz_policy_temp_add (fst g) (snd g) rs) rs gs) + length gs"
proof (induction gs arbitrary: rs)
  case (Cons g gs)
  from Cons [of "yz_policy_temp_add (fst g) (snd g) rs"] temp_add_free [of rs "fst g" "snd g"] show ?case by simp
qed simp

lemma temp_release_counts:
  assumes "rules_ok rs" and "\<And>i. bit av i \<Longrightarrow> 0 < refs_of rs k i"
  shows "rules_ok (yz_policy_temp_release k av rs) \<and>
    (\<forall>k' i. i < 32 \<longrightarrow> refs_of (yz_policy_temp_release k av rs) k' i + held [(k, av)] k' i = refs_of rs k' i)"
proof (cases "yz_policy_temp_find k rs")
  case (Some j)
  let ?refs = "count_down av (tr_refs (rs ! j))"
  let ?r = "if list_ex (\<lambda>r. r \<noteq> 0) ?refs then (rs ! j)\<lparr>tr_refs := ?refs\<rparr> else empty_rule"
  have j: "j < length rs" "tr_used (rs ! j)" "tr_key (rs ! j) = k" using find_ruleD [OF Some] by auto
  have down: "unat (?refs ! i) + of_bool (bit av i) = refs_of rs k i" if "i < 32" for i
    using that assms(2) [of i] Some
    by (auto simp: count_up_nth refs_of_def unat_gt_0 unat_minus_one simp flip: word_neq_0_conv)
  have refs: "(if tr_used ?r then unat (tr_refs ?r ! i) else 0) = unat (?refs ! i)" if "i < 32" for i
  proof (cases "list_ex (\<lambda>r. r \<noteq> 0) ?refs")
    case False
    have "?refs ! i \<in> set ?refs" by (rule nth_mem) (simp add: that)
    with False have "?refs ! i = 0" unfolding list_ex_iff by blast
    with False show ?thesis by (simp add: empty_rule_def)
  qed (use j in simp)
  have upd: "rules_ok (rs[j := ?r]) \<and> refs_of (rs[j := ?r]) k' i =
      (if k' = k then (if tr_used ?r then unat (tr_refs ?r ! i) else 0) else refs_of rs k' i)" for k' i
    by (rule refs_of_update) (use assms(1) j in \<open>auto simp: empty_rule_def\<close>)
  have "refs_of (rs[j := ?r]) k' i + held [(k, av)] k' i = refs_of rs k' i" if "i < 32" for k' i
    using upd [of k' i] down [OF that] unfolding refs [OF that] by auto
  moreover have "yz_policy_temp_release k av rs = (if av = 0 then rs else rs[j := ?r])"
    using Some by (simp add: yz_policy_temp_release_def Let_def)
  ultimately show ?thesis using upd assms(1) by simp
next
  case None
  then have "\<not> bit av i" for i using assms(2) [of i] by (auto simp: refs_of_def)
  then show ?thesis using assms(1) None by (auto simp: yz_policy_temp_release_def)
qed

end
