(* ===== verification/Policy_Temp_Safety.thy ===== *)
theory Policy_Temp_Safety
  imports Policy_Temp
begin

text \<open>
  What the reference counting of \<open>Policy_Temp\<close> achieves over all runs of requests and restores: the
  policy allows what it allowed before plus what is still needed.  The proofs count the grants of the
  holders; one exception, a file whose own type is \<open>tmpfs\<close>, is shown at the end.
\<close>

section \<open>The policy and its outstanding grants\<close>

text \<open>Types are numbered from 1 to fewer than 65536, so truncating them to a table key loses nothing.\<close>

definition key_ok :: "yz_policy_key \<Rightarrow> bool" where
  "key_ok k \<longleftrightarrow> pk_src k < 0x10000 \<and> pk_tgt k < 0x10000"

lemma ucast_u16_inject: "a < 0x10000 \<Longrightarrow> b < 0x10000 \<Longrightarrow> (ucast a :: u16) = ucast b \<longleftrightarrow> a = b" for a b :: u32
proof -
  assume "a < 0x10000" "b < 0x10000"
  then have "unat (ucast a :: u16) = unat a" "unat (ucast b :: u16) = unat b"
    by (simp_all add: word_less_nat_alt unsigned_ucast_eq take_bit_nat_eq_self)
  then show ?thesis by (metis word_eq_iff_unsigned)
qed

lemma av_key_inject: "key_ok a \<Longrightarrow> key_ok b \<Longrightarrow> av_key a = av_key b \<longleftrightarrow> a = b"
  by (auto simp: key_ok_def av_key_def ucast_u16_inject)

text \<open>The counts are those of the grants \<open>gs\<close>; the policy allows what the policy \<open>p\<close> before all grants
  allowed, and what is granted, and nothing of the latter was allowed before.\<close>

definition temp_inv :: "selinux_policy \<Rightarrow> (yz_policy_key \<times> u32) list \<Rightarrow> temp_state \<Rightarrow> bool" where
  "temp_inv p gs s \<longleftrightarrow>
     rules_ok (ts_rules s) \<and> (\<forall>k i. i < 32 \<longrightarrow> refs_of (ts_rules s) k i = held gs k i) \<and>
     (\<exists>db. se_policy (ts_selinux s) = Some (p\<lparr>sp_db := db\<rparr>) \<and> same_symbols (sp_db p) db \<and>
        (\<forall>k i. key_ok k \<longrightarrow> (allowed db k i \<longleftrightarrow> allowed (sp_db p) k i \<or> 0 < held gs k i))) \<and>
     (\<forall>k i. 0 < held gs k i \<longrightarrow> \<not> allowed (sp_db p) k i \<and> key_ok k)"

lemma temp_inv_cong: "(\<And>k i. held gs k i = held gs' k i) \<Longrightarrow> temp_inv p gs s = temp_inv p gs' s"
  by (simp add: temp_inv_def)

lemma held_bit: "0 < held gs k i \<Longrightarrow> i < 32"
  by (induction gs) (auto simp: bit_u32_less split: if_splits)

lemma temp_mask_bits:
  assumes "temp_inv p gs s"
  shows "bit (yz_policy_temp_mask k (ts_rules s)) i \<longleftrightarrow> 0 < held gs k i"
proof (cases "i < 32")
  case True
  then have h: "held gs k i = refs_of (ts_rules s) k i" using assms by (simp add: temp_inv_def)
  show ?thesis unfolding h using True
    by (auto simp: yz_policy_temp_mask_def refs_of_def unat_gt_0 split: option.splits)
qed (auto dest: held_bit bit_u32_less)

lemma direct_bits:
  assumes "temp_inv p gs s" and "se_ready (ts_selinux s)" and "key_ok k"
  shows "bit (yz_policy_base_direct_allowed_av (ts_selinux s) k) i \<longleftrightarrow> allowed (sp_db p) k i \<or> 0 < held gs k i"
  using assms by (auto simp: temp_inv_def yz_policy_base_direct_allowed_av_def)

text \<open>A request counts exactly the required permissions that the original policy lacks.\<close>

lemma plan_bits:
  assumes "temp_inv p gs s" and "se_ready (ts_selinux s)" and "key_ok k"
    and "yz_policy_temp_plan_allow k required s = Inr (request, added)"
  shows "(bit request i \<longleftrightarrow> bit required i \<and> \<not> allowed (sp_db p) k i) \<and>
    (bit added i \<longleftrightarrow> bit request i \<and> held gs k i = 0) \<and> (bit request i \<longrightarrow> held gs k i < 0xFFFF)"
proof -
  let ?owned = "yz_policy_temp_mask k (ts_rules s)"
  let ?request = "required AND (NOT (yz_policy_base_direct_allowed_av (ts_selinux s) k) OR ?owned)"
  have req: "request = ?request"
    using assms(4) by (auto simp: yz_policy_temp_plan_allow_def Let_def split: if_splits option.splits)
  have add: "added = request AND NOT ?owned"
    using assms(4) by (auto simp: yz_policy_temp_plan_allow_def Let_def split: if_splits option.splits)
  have base: "0 < held gs k i \<Longrightarrow> \<not> allowed (sp_db p) k i" using assms(1) by (auto simp: temp_inv_def)
  have r: "bit request i \<longleftrightarrow> bit required i \<and> \<not> allowed (sp_db p) k i"
    unfolding req using direct_bits [OF assms(1-3), of i] temp_mask_bits [OF assms(1), of k i] base
    by (auto simp: bit_and_iff bit_or_iff bit_not_iff dest: bit_imp_le_length)
  have a: "bit added i \<longleftrightarrow> bit request i \<and> held gs k i = 0"
    unfolding add using temp_mask_bits [OF assms(1), of k i]
    by (auto simp: bit_and_iff bit_not_iff dest: bit_imp_le_length)
  have "held gs k i < 0xFFFF" if "bit request i"
  proof -
    have i: "i < 32" using that by (rule bit_u32_less)
    have "request \<noteq> 0" using that by auto
    then have v: "yz_policy_temp_validate_add k request (ts_rules s) = None"
      using assms(4) req by (auto simp: yz_policy_temp_plan_allow_def Let_def split: if_splits option.splits)
    have "refs_of (ts_rules s) k i < 0xFFFF"
      using v \<open>request \<noteq> 0\<close> that i
      by (auto simp: yz_policy_temp_validate_add_def refs_of_def list_ex_iff not_max_u16 split: option.splits if_splits)
    then show ?thesis using assms(1) i by (simp add: temp_inv_def)
  qed
  with r a show ?thesis by blast
qed

lemma plan_optional_bits:
  assumes "temp_inv p gs s" and "se_ready (ts_selinux s)" and "required \<noteq> 0 \<Longrightarrow> key_ok k"
    and "plan_optional k required s = Inr (request, added)"
  shows "(bit request i \<longleftrightarrow> bit required i \<and> \<not> allowed (sp_db p) k i) \<and>
    (bit added i \<longleftrightarrow> bit request i \<and> held gs k i = 0) \<and> (bit request i \<longrightarrow> held gs k i < 0xFFFF)"
proof (cases "required = 0")
  case False
  show ?thesis using plan_bits [OF assms(1,2) assms(3) [OF False]] assms(4) False by (simp add: plan_optional_def)
qed (use assms(4) in \<open>simp add: plan_optional_def\<close>)

lemma add_many_counts:
  assumes "rules_ok rs" and "length gs \<le> free_rules rs"
    and "\<And>k i. 0 < held gs k i \<Longrightarrow> refs_of rs k i + held gs k i \<le> 0xFFFF"
  shows "rules_ok (foldl (\<lambda>rs g. yz_policy_temp_add (fst g) (snd g) rs) rs gs) \<and>
    (\<forall>k i. i < 32 \<longrightarrow> refs_of (foldl (\<lambda>rs g. yz_policy_temp_add (fst g) (snd g) rs) rs gs) k i = refs_of rs k i + held gs k i)"
  using assms
proof (induction gs arbitrary: rs)
  case (Cons g gs)
  let ?rs = "yz_policy_temp_add (fst g) (snd g) rs"
  have "refs_of rs (fst g) i < 0xFFFF" if "bit (snd g) i" for i
    using Cons.prems(3) [of "fst g" i] that by auto
  then have one: "rules_ok ?rs" "free_rules rs \<le> free_rules ?rs + 1"
      "\<And>k i. i < 32 \<Longrightarrow> refs_of ?rs k i = refs_of rs k i + held [(fst g, snd g)] k i"
    using temp_add_counts [of rs "snd g" "fst g"] Cons.prems(1,2) by auto
  have "refs_of ?rs k i + held gs k i \<le> 0xFFFF" if "0 < held gs k i" for k i
    using Cons.prems(3) [of k i] one(3) [of i k] held_bit [OF that] that by simp
  then show ?case using Cons.IH [OF one(1)] Cons.prems(2) one(2,3) by simp
qed simp

lemma release_many_counts:
  assumes "rules_ok rs" and "\<And>k i. i < 32 \<Longrightarrow> held gs k i \<le> refs_of rs k i"
  shows "rules_ok (foldl (\<lambda>rs g. yz_policy_temp_release (fst g) (snd g) rs) rs gs) \<and>
    (\<forall>k i. i < 32 \<longrightarrow> refs_of (foldl (\<lambda>rs g. yz_policy_temp_release (fst g) (snd g) rs) rs gs) k i + held gs k i = refs_of rs k i)"
  using assms
proof (induction gs arbitrary: rs)
  case (Cons g gs)
  let ?rs = "yz_policy_temp_release (fst g) (snd g) rs"
  have "0 < refs_of rs (fst g) i" if "bit (snd g) i" for i
    using Cons.prems(2) [OF bit_u32_less [OF that], of "fst g"] that by simp
  then have one: "rules_ok ?rs" "\<And>k i. i < 32 \<Longrightarrow> refs_of ?rs k i + held [(fst g, snd g)] k i = refs_of rs k i"
    using temp_release_counts [of rs "snd g" "fst g"] Cons.prems(1) by auto
  have "held gs k i \<le> refs_of ?rs k i" if "i < 32" for k i
    using Cons.prems(2) [OF that, of k] one(2) [OF that, of k] by simp
  then have two: "rules_ok (foldl (\<lambda>rs g. yz_policy_temp_release (fst g) (snd g) rs) ?rs gs)"
      "\<And>k i. i < 32 \<Longrightarrow> refs_of (foldl (\<lambda>rs g. yz_policy_temp_release (fst g) (snd g) rs) ?rs gs) k i + held gs k i = refs_of ?rs k i"
    using Cons.IH [OF one(1)] by auto
  have "refs_of (foldl (\<lambda>rs g. yz_policy_temp_release (fst g) (snd g) rs) ?rs gs) k i + held (g # gs) k i = refs_of rs k i"
    if "i < 32" for k i using two(2) [OF that, of k] one(2) [OF that, of k] by simp
  with two(1) show ?case by simp
qed simp

text \<open>Granting and withdrawing.\<close>

lemma grant_inv:
  assumes "temp_inv p gs s" and "dup_documented env"
    and "commit_keys env True kvs (ts_selinux s) = (None, se)"
    and "\<And>k i. key_ok k \<Longrightarrow> names_bit kvs k i \<longleftrightarrow> 0 < held new k i \<and> held gs k i = 0"
    and "\<And>k i. 0 < held new k i \<Longrightarrow> \<not> allowed (sp_db p) k i \<and> key_ok k"
    and "rules_ok rs" and "\<And>k i. i < 32 \<Longrightarrow> refs_of rs k i = refs_of (ts_rules s) k i + held new k i"
  shows "temp_inv p (new @ gs) (s\<lparr>ts_selinux := se, ts_rules := rs\<rparr>)"
proof -
  obtain db where db: "se_policy (ts_selinux s) = Some (p\<lparr>sp_db := db\<rparr>)" "same_symbols (sp_db p) db"
      "\<And>k i. key_ok k \<Longrightarrow> allowed db k i \<longleftrightarrow> allowed (sp_db p) k i \<or> 0 < held gs k i"
    using assms(1) by (auto simp: temp_inv_def)
  obtain db' where db': "se = (ts_selinux s)\<lparr>se_policy := Some (p\<lparr>sp_db := db'\<rparr>)\<rparr>" "same_symbols db db'"
      "\<And>k i. allowed db' k i \<longleftrightarrow> allowed db k i \<or> names_bit kvs k i"
    using commit_allow_bits [OF assms(2,3) db(1)] by auto
  have "allowed db' k i \<longleftrightarrow> allowed (sp_db p) k i \<or> 0 < held (new @ gs) k i" if "key_ok k" for k i
    unfolding db'(3) db(3) [OF that] assms(4) [OF that] by auto
  moreover have "same_symbols (sp_db p) db'" using db(2) db'(2) by (rule same_symbols_trans)
  ultimately show ?thesis
    using assms(1,5,6,7) db'(1) by (auto simp: temp_inv_def)
qed

lemma withdraw_inv:
  assumes "temp_inv p (old @ gs) s" and "dup_documented env"
    and "commit_keys env False kvs (ts_selinux s) = (None, se)"
    and "\<And>k i. key_ok k \<Longrightarrow> names_bit kvs k i \<longleftrightarrow> 0 < held old k i \<and> held gs k i = 0"
    and "rules_ok rs" and "\<And>k i. i < 32 \<Longrightarrow> refs_of rs k i + held old k i = refs_of (ts_rules s) k i"
  shows "temp_inv p gs (s\<lparr>ts_selinux := se, ts_rules := rs\<rparr>)"
proof -
  obtain db where db: "se_policy (ts_selinux s) = Some (p\<lparr>sp_db := db\<rparr>)" "same_symbols (sp_db p) db"
      "\<And>k i. key_ok k \<Longrightarrow> allowed db k i \<longleftrightarrow> allowed (sp_db p) k i \<or> 0 < held (old @ gs) k i"
    using assms(1) by (auto simp: temp_inv_def)
  obtain db' where db': "se = (ts_selinux s)\<lparr>se_policy := Some (p\<lparr>sp_db := db'\<rparr>)\<rparr>" "same_symbols db db'"
      "\<And>k i. allowed db' k i \<longleftrightarrow> allowed db k i \<and> \<not> names_bit kvs k i"
    using commit_restore_bits [OF assms(2,3) db(1)] by auto
  have base: "0 < held (old @ gs) k i \<Longrightarrow> \<not> allowed (sp_db p) k i \<and> key_ok k" for k i
    using assms(1) by (auto simp: temp_inv_def)
  have "allowed db' k i \<longleftrightarrow> allowed (sp_db p) k i \<or> 0 < held gs k i" if "key_ok k" for k i
    unfolding db'(3) db(3) [OF that] assms(4) [OF that] using base [of k i] by (cases "held old k i = 0") auto
  moreover have "same_symbols (sp_db p) db'" using db(2) db'(2) by (rule same_symbols_trans)
  moreover have "refs_of rs k i = held gs k i" if "i < 32" for k i
    using assms(1) assms(6) [OF that, of k] that by (simp add: temp_inv_def)
  moreover have "0 < held gs k i \<Longrightarrow> \<not> allowed (sp_db p) k i \<and> key_ok k" for k i
    using base [of k i] by simp
  ultimately show ?thesis
    using assms(5) db'(1) by (auto simp: temp_inv_def)
qed

section \<open>Holders\<close>

definition grants :: "yz_file_load_policy \<Rightarrow> (yz_policy_key \<times> u32) list" where
  "grants st = [(file_key st, lp_added_av st), (dir_key st, lp_dir_added_av st),
     (tmpfs_key st, lp_tmpfs_added_av st), (process_key st, lp_process_added_av st)]"

text \<open>A well-formed policy numbers its types below 65536 and its classes differently.\<close>

definition policy_ok :: "selinux_policy \<Rightarrow> bool" where
  "policy_ok p \<longleftrightarrow>
     (\<forall>sid t. sp_sidtab p sid = Some t \<longrightarrow> t < 0x10000) \<and>
     yz_policy_type_value_by_name (sp_db p) ''tmpfs'' < 0x10000 \<and>
     (\<forall>a b ca cb. class_by_name (sp_db p) a = Some ca \<longrightarrow> class_by_name (sp_db p) b = Some cb \<longrightarrow>
        cls_value ca = cls_value cb \<longrightarrow> a = b)"

definition class_no :: "selinux_policy \<Rightarrow> string \<Rightarrow> u16 option" where
  "class_no p name = map_option (\<lambda>cls. ucast (cls_value cls)) (class_by_name (sp_db p) name)"

lemma class_no_inject:
  assumes "policy_ok p" and "class_no p a = Some c" and "class_no p b = Some c"
  shows "a = b"
proof -
  obtain ca cb where "class_by_name (sp_db p) a = Some ca" "class_by_name (sp_db p) b = Some cb"
      "(ucast (cls_value ca) :: u16) = ucast (cls_value cb)"
    using assms(2,3) by (auto simp: class_no_def)
  moreover have "cls_value c < 0x10000" if "class_by_name (sp_db p) n = Some c" for n c
    using that by (auto simp: class_by_name_def word_le_nat_alt word_less_nat_alt not_less split: option.splits if_splits)
  ultimately show ?thesis using assms(1) by (auto simp: policy_ok_def ucast_u16_inject)
qed

definition holder_ok :: "selinux_policy \<Rightarrow> yz_file_load_policy \<Rightarrow> bool" where
  "holder_ok p st \<longleftrightarrow>
     (lp_added_av st \<noteq> 0 \<or> lp_tmpfs_added_av st \<noteq> 0 \<longrightarrow> class_no p ''file'' = Some (lp_target_class st)) \<and>
     (lp_dir_added_av st \<noteq> 0 \<longrightarrow> class_no p ''dir'' = Some (lp_dir_class st)) \<and>
     (lp_process_added_av st \<noteq> 0 \<longrightarrow> class_no p ''process'' = Some (lp_process_class st)) \<and>
     (lp_added_av st \<noteq> 0 \<and> lp_tmpfs_added_av st \<noteq> 0 \<longrightarrow> lp_tgt_type st \<noteq> lp_tmpfs_type st)"

lemma holder_grants_once:
  assumes "policy_ok p" and "holder_ok p st"
  shows "held (grants st) k i \<le> 1"
proof -
  have ne: "class_no p a = Some c \<Longrightarrow> class_no p b = Some c \<Longrightarrow> a \<noteq> b \<Longrightarrow> False" for a b c
    using class_no_inject [OF assms(1)] by blast
  note classes = ne [of "''file''" _ "''dir''"] ne [of "''file''" _ "''process''"] ne [of "''dir''" _ "''process''"]
  define F where "F \<longleftrightarrow> file_key st = k \<and> bit (lp_added_av st) i"
  define D where "D \<longleftrightarrow> dir_key st = k \<and> bit (lp_dir_added_av st) i"
  define T where "T \<longleftrightarrow> tmpfs_key st = k \<and> bit (lp_tmpfs_added_av st) i"
  define P where "P \<longleftrightarrow> process_key st = k \<and> bit (lp_process_added_av st) i"
  note defs = F_def D_def T_def P_def file_key_def dir_key_def tmpfs_key_def process_key_def
  have F: "F \<Longrightarrow> class_no p ''file'' = Some (pk_class k)" and D: "D \<Longrightarrow> class_no p ''dir'' = Some (pk_class k)"
    and T: "T \<Longrightarrow> class_no p ''file'' = Some (pk_class k)" and P: "P \<Longrightarrow> class_no p ''process'' = Some (pk_class k)"
    and FT: "\<not> (F \<and> T)"
    using assms(2) by (auto simp: defs holder_ok_def)
  have "held (grants st) k i = of_bool F + of_bool D + of_bool T + of_bool P"
    by (simp add: grants_def F_def D_def T_def P_def)
  then show ?thesis using F D T P FT classes by (cases F; cases D; cases T; cases P) simp_all
qed

lemma names_bit_held:
  "(\<And>g. g \<in> set gs \<Longrightarrow> snd g \<noteq> 0 \<Longrightarrow> key_ok (fst g)) \<Longrightarrow> key_ok k \<Longrightarrow> names_bit gs k i \<longleftrightarrow> 0 < held gs k i"
proof (induction gs)
  case (Cons g gs)
  obtain k' av where g: "g = (k', av)" by fastforce
  have "av_key k' = av_key k \<longleftrightarrow> k' = k" if "bit av i"
  proof -
    have "av \<noteq> 0" using that by auto
    then have "key_ok k'" using Cons.prems(1) [of g] g by simp
    then show ?thesis using Cons.prems(2) by (rule av_key_inject)
  qed
  then show ?case using Cons g by auto
qed simp

lemma plan_release_bits: "bit (yz_policy_temp_plan_release k av rs) i \<longleftrightarrow> bit av i \<and> refs_of rs k i \<le> 1"
proof -
  have "w \<le> 1 \<longleftrightarrow> unat w \<le> 1" for w :: u16 by (simp add: word_le_nat_alt)
  then show ?thesis
    by (auto simp: yz_policy_temp_plan_release_def refs_of_def bit_u32_less split: option.splits)
qed

lemma held_plan_release:
  "0 < held (map (\<lambda>g. (fst g, yz_policy_temp_plan_release (fst g) (snd g) rs)) gs) k i \<longleftrightarrow>
     0 < held gs k i \<and> refs_of rs k i \<le> 1"
  by (induction gs) (auto simp: plan_release_bits)

lemma nonzero_bit: "av \<noteq> 0 \<Longrightarrow> \<exists>i. bit av i" for av :: u32
  by (metis bit_0_eq bit_eqI bot_apply bot_bool_def)

lemma held_member: "g \<in> set gs \<Longrightarrow> bit (snd g) i \<Longrightarrow> 0 < held gs (fst g) i"
  by (induction gs) auto

lemma grants_key_ok:
  assumes "temp_inv p (gs @ gs') s" and "g \<in> set gs" and "snd g \<noteq> 0"
  shows "key_ok (fst g)"
proof -
  obtain i where "bit (snd g) i" using nonzero_bit [OF assms(3)] by blast
  then have "0 < held (gs @ gs') (fst g) i" using held_member [OF assms(2)] by simp
  then show ?thesis using assms(1) by (auto simp: temp_inv_def)
qed

lemma release_all_foldl: "release_all st rs = foldl (\<lambda>rs g. yz_policy_temp_release (fst g) (snd g) rs) rs (grants st)"
  by (simp add: release_all_def grants_def)

lemma restore_cases:
  assumes "yz_host_policy_restore env st s = (None, s')"
    and "\<not> (lp_added_av st = 0 \<and> lp_tmpfs_added_av st = 0 \<and> lp_process_added_av st = 0 \<and> lp_dir_added_av st = 0)"
  obtains se where "commit_keys env False
      (map (\<lambda>g. (fst g, yz_policy_temp_plan_release (fst g) (snd g) (ts_rules s))) (grants st)) (ts_selinux s) = (None, se)"
    and "s' = s\<lparr>ts_selinux := se, ts_rules := release_all st (ts_rules s)\<rparr>"
  using assms
  by (auto simp: yz_host_policy_restore_def yz_policy_base_commit_restore_def Let_def grants_def
      split: if_splits prod.splits option.splits)

text \<open>Restoring a holder withdraws exactly its grants.\<close>

lemma restore_inv:
  assumes "temp_inv p (grants st @ gs) s" and "policy_ok p" and "holder_ok p st" and "dup_documented env"
    and "yz_host_policy_restore env st s = (None, s')"
  shows "temp_inv p gs s'"
proof (cases "lp_added_av st = 0 \<and> lp_tmpfs_added_av st = 0 \<and> lp_process_added_av st = 0 \<and> lp_dir_added_av st = 0")
  case True
  then have "held (grants st @ gs) k i = held gs k i" for k i by (simp add: grants_def)
  moreover have "s' = s" using assms(5) True by (simp add: yz_host_policy_restore_def)
  ultimately show ?thesis using assms(1) temp_inv_cong by metis
next
  case False
  let ?rs = "ts_rules s" and ?old = "grants st"
  let ?kvs = "map (\<lambda>g. (fst g, yz_policy_temp_plan_release (fst g) (snd g) (ts_rules s))) (grants st)"
  have counts: "i < 32 \<Longrightarrow> refs_of ?rs k i = held ?old k i + held gs k i" for k i
    using assms(1) by (simp add: temp_inv_def)
  obtain se where se: "commit_keys env False ?kvs (ts_selinux s) = (None, se)"
      "s' = s\<lparr>ts_selinux := se, ts_rules := release_all st ?rs\<rparr>"
    using restore_cases [OF assms(5) False] by blast
  note all = release_all_foldl [of st ?rs]
  have rel: "rules_ok (release_all st ?rs)" "i < 32 \<Longrightarrow> refs_of (release_all st ?rs) k i + held ?old k i = refs_of ?rs k i" for k i
    unfolding all using release_many_counts [of ?rs ?old] assms(1) counts by (auto simp: temp_inv_def)
  have names: "names_bit ?kvs k i \<longleftrightarrow> 0 < held ?old k i \<and> held gs k i = 0" if "key_ok k" for k i
  proof -
    have ok: "key_ok (fst g)" if g: "g \<in> set ?kvs" "snd g \<noteq> 0" for g
    proof -
      obtain h where h: "h \<in> set ?old" "fst g = fst h" "snd g = yz_policy_temp_plan_release (fst h) (snd h) ?rs"
        using g(1) by auto
      then have "snd h \<noteq> 0" using g(2) by (auto simp: yz_policy_temp_plan_release_def)
      then show ?thesis using grants_key_ok [OF assms(1) h(1)] h(2) by simp
    qed
    have "names_bit ?kvs k i \<longleftrightarrow> 0 < held ?kvs k i" by (rule names_bit_held [OF ok that])
    then show ?thesis unfolding held_plan_release
      using counts [of i k] holder_grants_once [OF assms(2,3), of k i] held_bit [of ?old k i] by auto
  qed
  show ?thesis unfolding se(2) by (rule withdraw_inv [OF assms(1,4) se(1) names rel])
qed

lemma restore_fails: "yz_host_policy_restore env st s = (Some e, s') \<Longrightarrow> s' = s"
  by (auto simp: yz_host_policy_restore_def yz_policy_base_commit_restore_def Let_def
      dest!: commit_keys_fails split: if_splits prod.splits option.splits)

section \<open>Requests\<close>

text \<open>What the policy and the grants of a holder must provide.\<close>

definition provides :: "selinux_policy \<Rightarrow> (yz_policy_key \<times> u32) list \<Rightarrow> (yz_policy_key \<times> u32) list \<Rightarrow> bool" where
  "provides p gs needs \<longleftrightarrow>
     (\<forall>n \<in> set needs. key_ok (fst n) \<and> (\<forall>i. bit (snd n) i \<longrightarrow> allowed (sp_db p) (fst n) i \<or> 0 < held gs (fst n) i))"

definition file_needs :: "yz_policy_file_load_keys \<Rightarrow> (yz_policy_key \<times> u32) list" where
  "file_needs keys = [(fk_file keys, fk_file_required_av keys), (fk_dir keys, fk_dir_required_av keys),
     (fk_tmpfs keys, fk_tmpfs_required_av keys)]"

lemma class_by_name_same: "same_symbols db db' \<Longrightarrow> class_by_name db' = class_by_name db"
  by (auto simp: same_symbols_def class_by_name_def)

lemma type_value_same: "same_symbols db db' \<Longrightarrow> yz_policy_type_value_by_name db' = yz_policy_type_value_by_name db"
  by (auto simp: same_symbols_def yz_policy_type_value_by_name_def)

lemma sidtab_type_ok: "policy_ok p \<Longrightarrow> yz_policy_sidtab_search (sp_sidtab p) sid = Some t \<Longrightarrow> t < 0x10000"
  by (auto simp: policy_ok_def yz_policy_sidtab_search_def split: if_splits)

text \<open>The three keys share the source; the directory key differs from the file key in the class, the
  tmpfs key in the target.\<close>

lemma file_load_keys:
  assumes "yz_policy_base_get_file_load_keys isid csid include_dir access se = Inr keys"
    and "se_policy se = Some (p\<lparr>sp_db := db\<rparr>)" and "same_symbols (sp_db p) db" and "policy_ok p"
  shows "key_ok (fk_file keys) \<and> class_no p ''file'' = Some (pk_class (fk_file keys)) \<and>
    (fk_dir_required_av keys \<noteq> 0 \<longrightarrow> class_no p ''dir'' = Some (pk_class (fk_dir keys)) \<and>
       pk_src (fk_dir keys) = pk_src (fk_file keys) \<and> pk_tgt (fk_dir keys) = pk_tgt (fk_file keys)) \<and> key_ok (fk_dir keys) \<and>
    (fk_tmpfs_required_av keys \<noteq> 0 \<longrightarrow> pk_src (fk_tmpfs keys) = pk_src (fk_file keys) \<and> pk_class (fk_tmpfs keys) = pk_class (fk_file keys)) \<and>
    key_ok (fk_tmpfs keys)"
proof -
  note same = class_by_name_same [OF assms(3)] type_value_same [OF assms(3)]
  obtain tsid src tgt cls keys1 where k: "isid = Some tsid" "yz_policy_sidtab_search (sp_sidtab p) csid = Some src"
      "yz_policy_sidtab_search (sp_sidtab p) tsid = Some tgt" "class_by_name (sp_db p) ''file'' = Some cls"
      "with_dir_key db include_dir src tgt (add_file_key src tgt cls no_keys) = Inr keys1"
      "with_tmpfs_key db access src keys1 = Inr keys"
    using assms(1,2) same by (auto simp: yz_policy_base_get_file_load_keys_def split: option.splits if_splits sum.splits)
  have types: "src < 0x10000" "tgt < 0x10000" using sidtab_type_ok [OF assms(4)] k(2,3) by auto
  have zero: "key_ok zero_key" by (simp add: key_ok_def zero_key_def)
  have dir: "keys1 = add_file_key src tgt cls no_keys \<or>
      (\<exists>cd. class_by_name (sp_db p) ''dir'' = Some cd \<and> keys1 = add_dir_key src tgt cd (add_file_key src tgt cls no_keys))"
    using k(5) same by (auto simp: with_dir_key_def split: if_splits option.splits)
  have tmpfs: "keys = keys1 \<or> (\<exists>t perms. t < 0x10000 \<and> keys = add_tmpfs_key src t cls perms keys1)"
    using k(4,6) same assms(4) by (auto simp: with_tmpfs_key_def Let_def policy_ok_def split: if_splits option.splits)
  show ?thesis
    using dir tmpfs types zero k(4)
    by (elim disjE exE conjE)
      (simp_all add: add_file_key_def add_dir_key_def add_tmpfs_key_def no_keys_def zero_key_def key_ok_def class_no_def)
qed

lemma grants_added:
  assumes "temp_inv p gs s" and "dup_documented env" and "length new \<le> free_rules (ts_rules s)"
    and "commit_keys env True kvs (ts_selinux s) = (None, se)"
    and "\<And>k i. held new k i \<le> 1"
    and new: "\<And>k i. 0 < held new k i \<Longrightarrow> \<not> allowed (sp_db p) k i \<and> key_ok k \<and> held gs k i < 0xFFFF"
    and added: "\<And>k i. 0 < held kvs k i \<longleftrightarrow> 0 < held new k i \<and> held gs k i = 0"
    and keys: "\<And>kv. kv \<in> set kvs \<Longrightarrow> snd kv \<noteq> 0 \<Longrightarrow> key_ok (fst kv)"
  shows "temp_inv p (new @ gs)
    (s\<lparr>ts_selinux := se, ts_rules := foldl (\<lambda>rs g. yz_policy_temp_add (fst g) (snd g) rs) (ts_rules s) new\<rparr>)"
proof -
  let ?rs = "foldl (\<lambda>rs g. yz_policy_temp_add (fst g) (snd g) rs) (ts_rules s) new"
  have "refs_of (ts_rules s) k i + held new k i \<le> 0xFFFF" if "0 < held new k i" for k i
    using new [OF that] assms(1) assms(5) [of k i] held_bit [OF that] by (simp add: temp_inv_def)
  then have "rules_ok ?rs \<and> (\<forall>k i. i < 32 \<longrightarrow> refs_of ?rs k i = refs_of (ts_rules s) k i + held new k i)"
    using add_many_counts [of "ts_rules s" new] assms(1,3) by (auto simp: temp_inv_def)
  moreover have "names_bit kvs k i \<longleftrightarrow> 0 < held new k i \<and> held gs k i = 0" if "key_ok k" for k i
    using names_bit_held [OF keys that, of kvs i] added by simp
  ultimately show ?thesis using grant_inv [OF assms(1,2,4)] new by auto
qed

lemma allow_file_cases:
  assumes run: "yz_host_policy_allow_file env (Some (isid, csid)) include_dir access st0 s = (None, st, s')"
    and keys: "yz_policy_base_get_file_load_keys isid csid include_dir access (ts_selinux s) = Inr keys"
  obtains fa fc da dc ta tc se where "se_ready (ts_selinux s)"
    and "yz_policy_temp_plan_allow (fk_file keys) (fk_file_required_av keys) s = Inr (fa, fc)"
    and "plan_optional (fk_dir keys) (fk_dir_required_av keys) s = Inr (da, dc)"
    and "plan_optional (fk_tmpfs keys) (fk_tmpfs_required_av keys) s = Inr (ta, tc)"
    and "commit_keys env True [(fk_file keys, fc), (fk_dir keys, dc), (fk_tmpfs keys, tc), (zero_key, 0)] (ts_selinux s) = (None, se)"
    and "st = allowed_policy keys fa da ta"
    and "s' = s\<lparr>ts_selinux := se, ts_rules := foldl (\<lambda>rs g. yz_policy_temp_add (fst g) (snd g) rs) (ts_rules s)
      [(fk_file keys, fa), (fk_dir keys, da), (fk_tmpfs keys, ta)]\<rparr>"
proof -
  have ready: "se_ready (ts_selinux s)" using run by (auto simp: yz_host_policy_allow_file_def split: if_splits)
  obtain fa fc da dc ta tc where plan: "yz_policy_temp_plan_allow (fk_file keys) (fk_file_required_av keys) s = Inr (fa, fc)"
      "plan_optional (fk_dir keys) (fk_dir_required_av keys) s = Inr (da, dc)"
      "plan_optional (fk_tmpfs keys) (fk_tmpfs_required_av keys) s = Inr (ta, tc)"
      and commit: "commit_file_allow env keys (fa, fc) (da, dc) (ta, tc) s = (None, st, s')"
    using run ready keys by (auto simp: yz_host_policy_allow_file_def plan_file_allow_def split: sum.splits prod.splits)
  from commit that [OF ready plan] show ?thesis
    by (auto simp: commit_file_allow_def yz_policy_base_commit_allow_def split: prod.splits option.splits)
qed

lemma held_allowed_policy:
  assumes "da = 0 \<or> pk_src (fk_dir keys) = pk_src (fk_file keys) \<and> pk_tgt (fk_dir keys) = pk_tgt (fk_file keys)"
    and "ta = 0 \<or> pk_src (fk_tmpfs keys) = pk_src (fk_file keys) \<and> pk_class (fk_tmpfs keys) = pk_class (fk_file keys)"
  shows "held (grants (allowed_policy keys fa da ta)) k i = held [(fk_file keys, fa), (fk_dir keys, da), (fk_tmpfs keys, ta)] k i"
proof -
  define st where "st = allowed_policy keys fa da ta"
  have key: "file_key st = fk_file keys" "da = 0 \<or> dir_key st = fk_dir keys" "ta = 0 \<or> tmpfs_key st = fk_tmpfs keys"
    using assms by (auto simp: st_def allowed_policy_def empty_policy_def file_key_def dir_key_def tmpfs_key_def)
  have av: "lp_added_av st = fa" "lp_dir_added_av st = da" "lp_tmpfs_added_av st = ta" "lp_process_added_av st = 0"
    by (simp_all add: st_def allowed_policy_def empty_policy_def)
  show ?thesis
    unfolding st_def [symmetric] using key by (cases "da = 0"; cases "ta = 0") (simp_all add: grants_def av)
qed

text \<open>A successful request adds grants that provide what is needed.\<close>

lemma allow_file_inv:
  assumes inv: "temp_inv p gs s" and ok: "policy_ok p" and env: "dup_documented env" and room: "3 \<le> free_rules (ts_rules s)"
    and keys: "yz_policy_base_get_file_load_keys isid csid include_dir access (ts_selinux s) = Inr keys"
    and apart: "fk_tmpfs_required_av keys \<noteq> 0 \<Longrightarrow> pk_tgt (fk_file keys) \<noteq> pk_tgt (fk_tmpfs keys)"
    and run: "yz_host_policy_allow_file env (Some (isid, csid)) include_dir access st0 s = (None, st, s')"
  shows "temp_inv p (grants st @ gs) s' \<and> holder_ok p st \<and> provides p (grants st) (file_needs keys)"
proof -
  obtain db where db: "se_policy (ts_selinux s) = Some (p\<lparr>sp_db := db\<rparr>)" "same_symbols (sp_db p) db"
    using inv by (auto simp: temp_inv_def)
  have k: "key_ok (fk_file keys)" "class_no p ''file'' = Some (pk_class (fk_file keys))" "key_ok (fk_dir keys)"
      "fk_dir_required_av keys \<noteq> 0 \<Longrightarrow> class_no p ''dir'' = Some (pk_class (fk_dir keys)) \<and>
         pk_src (fk_dir keys) = pk_src (fk_file keys) \<and> pk_tgt (fk_dir keys) = pk_tgt (fk_file keys)"
      "fk_tmpfs_required_av keys \<noteq> 0 \<Longrightarrow> pk_src (fk_tmpfs keys) = pk_src (fk_file keys) \<and> pk_class (fk_tmpfs keys) = pk_class (fk_file keys)"
      "key_ok (fk_tmpfs keys)"
    using file_load_keys [OF keys db ok] by auto
  obtain fa fc da dc ta tc se where ready: "se_ready (ts_selinux s)"
      and plan: "yz_policy_temp_plan_allow (fk_file keys) (fk_file_required_av keys) s = Inr (fa, fc)"
      "plan_optional (fk_dir keys) (fk_dir_required_av keys) s = Inr (da, dc)"
      "plan_optional (fk_tmpfs keys) (fk_tmpfs_required_av keys) s = Inr (ta, tc)"
      and se: "commit_keys env True [(fk_file keys, fc), (fk_dir keys, dc), (fk_tmpfs keys, tc), (zero_key, 0)] (ts_selinux s) = (None, se)"
      "st = allowed_policy keys fa da ta"
      "s' = s\<lparr>ts_selinux := se, ts_rules := foldl (\<lambda>rs g. yz_policy_temp_add (fst g) (snd g) rs) (ts_rules s)
         [(fk_file keys, fa), (fk_dir keys, da), (fk_tmpfs keys, ta)]\<rparr>"
    using allow_file_cases [OF run keys] by blast
  note bits = plan_bits [OF inv ready k(1) plan(1)] plan_optional_bits [OF inv ready k(3) plan(2)]
    plan_optional_bits [OF inv ready k(6) plan(3)]
  let ?new = "[(fk_file keys, fa), (fk_dir keys, da), (fk_tmpfs keys, ta)]"
  let ?kvs = "[(fk_file keys, fc), (fk_dir keys, dc), (fk_tmpfs keys, tc), (zero_key, 0)]"
  have dir: "da = 0 \<or> class_no p ''dir'' = Some (pk_class (fk_dir keys)) \<and> pk_src (fk_dir keys) = pk_src (fk_file keys) \<and> pk_tgt (fk_dir keys) = pk_tgt (fk_file keys)"
    using k(4) plan(2) by (auto simp: plan_optional_def split: if_splits)
  have tmpfs: "ta = 0 \<or> pk_src (fk_tmpfs keys) = pk_src (fk_file keys) \<and> pk_class (fk_tmpfs keys) = pk_class (fk_file keys) \<and> pk_tgt (fk_file keys) \<noteq> pk_tgt (fk_tmpfs keys)"
    using k(5) apart plan(3) by (auto simp: plan_optional_def split: if_splits)
  have st: "held (grants st) k i = held ?new k i" for k i
    unfolding se(2) by (rule held_allowed_policy) (use dir tmpfs in auto)
  have holder: "holder_ok p st"
    using dir tmpfs k(2) unfolding se(2) by (auto simp: holder_ok_def allowed_policy_def empty_policy_def)
  have "temp_inv p (?new @ gs) s'" unfolding se(3)
  proof (rule grants_added [OF inv env _ se(1)])
    show "length ?new \<le> free_rules (ts_rules s)" using room by simp
    show "key_ok (fst kv)" if "kv \<in> set ?kvs" "snd kv \<noteq> 0" for kv
      using that k(1,3,6) by (auto simp only: set_simps insert_iff fst_conv snd_conv empty_iff)
    show "held ?new k i \<le> 1" for k i using holder_grants_once [OF ok holder] st by simp
    show "\<not> allowed (sp_db p) k i \<and> key_ok k \<and> held gs k i < 0xFFFF" if "0 < held ?new k i" for k i
      using that bits [of i] k(1,3,6) by (auto split: if_splits)
    show "0 < held ?kvs k i \<longleftrightarrow> 0 < held ?new k i \<and> held gs k i = 0" for k i using bits [of i] by auto
  qed
  moreover have "temp_inv p (?new @ gs) s' = temp_inv p (grants st @ gs) s'" by (rule temp_inv_cong) (simp add: st)
  moreover have "provides p (grants st) (file_needs keys)"
    using bits k(1,3,6) by (auto simp: provides_def file_needs_def st)
  ultimately show ?thesis using holder by blast
qed

lemma allow_file_fails: "yz_host_policy_allow_file env request include_dir access st0 s = (Some e, st, s') \<Longrightarrow> s' = s"
  by (auto simp: yz_host_policy_allow_file_def commit_file_allow_def yz_policy_base_commit_allow_def
      dest!: commit_keys_fails split: option.splits if_splits sum.splits prod.splits)

lemma execmem_key:
  assumes "yz_policy_base_get_execmem_key csid se = Inr (key, required)"
    and "se_policy se = Some (p\<lparr>sp_db := db\<rparr>)" and "same_symbols (sp_db p) db" and "policy_ok p"
  shows "key_ok key \<and> class_no p ''process'' = Some (pk_class key) \<and> pk_tgt key = pk_src key"
  using assms(1,2) sidtab_type_ok [OF assms(4)] class_by_name_same [OF assms(3)]
  by (auto simp: yz_policy_base_get_execmem_key_def key_ok_def class_no_def split: if_splits option.splits)

lemma allow_execmem_inv:
  assumes inv: "temp_inv p (grants st @ gs) s" and ok: "policy_ok p" "holder_ok p st" and env: "dup_documented env"
    and room: "1 \<le> free_rules (ts_rules s)"
    and key: "yz_policy_base_get_execmem_key csid (ts_selinux s) = Inr (key, required)"
    and fresh: "lp_process_added_av st = 0"
    and run: "yz_host_policy_allow_execmem env (Some csid) st s = (None, st', s')"
  shows "temp_inv p (grants st' @ gs) s' \<and> holder_ok p st' \<and> provides p (grants st') [(key, required)] \<and>
    (\<forall>k i. held (grants st) k i \<le> held (grants st') k i)"
proof -
  obtain db where db: "se_policy (ts_selinux s) = Some (p\<lparr>sp_db := db\<rparr>)" "same_symbols (sp_db p) db"
    using inv by (auto simp: temp_inv_def)
  have k: "key_ok key" "class_no p ''process'' = Some (pk_class key)" "pk_tgt key = pk_src key"
    using execmem_key [OF key db ok(1)] by auto
  have ready: "se_ready (ts_selinux s)" using run by (auto simp: yz_host_policy_allow_execmem_def split: if_splits)
  obtain a c where plan: "yz_policy_temp_plan_allow key required s = Inr (a, c)"
      and commit: "commit_execmem env key (a, c) st s = (None, st', s')"
    using run ready key fresh by (auto simp: yz_host_policy_allow_execmem_def split: sum.splits if_splits)
  note bits = plan_bits [OF inv ready k(1) plan]
  let ?kvs = "[(zero_key, 0), (zero_key, 0), (zero_key, 0), (key, c)]"
  obtain se where se: "commit_keys env True ?kvs (ts_selinux s) = (None, se)"
      "st' = st\<lparr>lp_process_type := pk_src key, lp_process_class := pk_class key, lp_process_added_av := a\<rparr>"
      "s' = s\<lparr>ts_selinux := se, ts_rules := foldl (\<lambda>rs g. yz_policy_temp_add (fst g) (snd g) rs) (ts_rules s) [(key, a)]\<rparr>"
    using commit by (auto simp: commit_execmem_def yz_policy_base_commit_allow_def split: prod.splits option.splits)
  have "process_key st' = key" using k(3) by (simp add: se(2) process_key_def)
  then have st: "held (grants st') k i = held [(key, a)] k i + held (grants st) k i" for k i
    using fresh by (simp add: grants_def se(2) file_key_def dir_key_def tmpfs_key_def)
  have "temp_inv p ([(key, a)] @ grants st @ gs) s'" unfolding se(3)
  proof (rule grants_added [OF inv env _ se(1)])
    show "length [(key, a)] \<le> free_rules (ts_rules s)" using room by simp
    show "held [(key, a)] k i \<le> 1" for k i by simp
    show "\<not> allowed (sp_db p) k i \<and> key_ok k \<and> held (grants st @ gs) k i < 0xFFFF" if "0 < held [(key, a)] k i" for k i
      using that bits [of i] k(1) by (auto split: if_splits)
    show "0 < held ?kvs k i \<longleftrightarrow> 0 < held [(key, a)] k i \<and> held (grants st @ gs) k i = 0" for k i
      using bits [of i] by auto
  qed (use k(1) in auto)
  moreover have "temp_inv p ([(key, a)] @ grants st @ gs) s' = temp_inv p (grants st' @ gs) s'"
    by (rule temp_inv_cong) (simp add: st)
  moreover have "holder_ok p st'" using ok(2) k(2) by (simp add: holder_ok_def se(2))
  moreover have "provides p (grants st') [(key, required)]"
    using bits k(1) by (auto simp: provides_def st)
  ultimately show ?thesis using st by auto
qed

lemma allow_execmem_again:
  assumes "yz_host_policy_allow_execmem env cred st s = (r, st', s')" and "lp_process_added_av st \<noteq> 0"
  shows "st' = st \<and> s' = s"
  using assms by (auto simp: yz_host_policy_allow_execmem_def split: option.splits if_splits sum.splits)

lemma allow_execmem_fails:
  assumes "yz_host_policy_allow_execmem env cred st s = (Some e, st', s')"
  shows "s' = s \<and> (\<forall>k i. held (grants st') k i = held (grants st) k i) \<and> (holder_ok p st \<longrightarrow> holder_ok p st')"
proof (cases "st' = st")
  case False
  then have "s' = s" "st' = st\<lparr>lp_process_type := 0, lp_process_class := 0, lp_process_added_av := 0\<rparr>"
      "lp_process_added_av st = 0"
    using assms
    by (auto simp: yz_host_policy_allow_execmem_def commit_execmem_def yz_policy_base_commit_allow_def
        dest!: commit_keys_fails split: option.splits if_splits sum.splits prod.splits)
  then show ?thesis by (auto simp: grants_def holder_ok_def file_key_def dir_key_def tmpfs_key_def)
qed (use assms in \<open>auto simp: yz_host_policy_allow_execmem_def commit_execmem_def yz_policy_base_commit_allow_def
        dest!: commit_keys_fails split: option.splits if_splits sum.splits prod.splits\<close>)

section \<open>All runs\<close>

text \<open>A state of the kernel and the holders with their needs.  A request comes with a place in the table
  for each of its keys; the file it is about is not of the type \<open>tmpfs\<close> itself.\<close>

type_synonym holders = "(yz_file_load_policy \<times> (yz_policy_key \<times> u32) list) list"

definition tmpfs_apart :: "yz_policy_file_load_keys \<Rightarrow> bool" where
  "tmpfs_apart keys \<longleftrightarrow> fk_tmpfs_required_av keys \<noteq> 0 \<longrightarrow> pk_tgt (fk_file keys) \<noteq> pk_tgt (fk_tmpfs keys)"

inductive policy_run :: "temp_state \<Rightarrow> temp_state \<times> holders \<Rightarrow> bool" for s0 where
  run_init: "policy_run s0 (s0, [])"
| run_allow: "policy_run s0 (s, hs) \<Longrightarrow> dup_documented env \<Longrightarrow> 3 \<le> free_rules (ts_rules s) \<Longrightarrow>
    yz_policy_base_get_file_load_keys isid csid include_dir access (ts_selinux s) = Inr keys \<Longrightarrow> tmpfs_apart keys \<Longrightarrow>
    yz_host_policy_allow_file env (Some (isid, csid)) include_dir access st0 s = (None, st, s') \<Longrightarrow>
    policy_run s0 (s', (st, file_needs keys) # hs)"
| run_allow_fails: "policy_run s0 (s, hs) \<Longrightarrow>
    yz_host_policy_allow_file env request include_dir access st0 s = (Some e, st, s') \<Longrightarrow> policy_run s0 (s', hs)"
| run_execmem: "policy_run s0 (s, us @ (st, needs) # vs) \<Longrightarrow> dup_documented env \<Longrightarrow> 1 \<le> free_rules (ts_rules s) \<Longrightarrow>
    lp_process_added_av st = 0 \<Longrightarrow> yz_policy_base_get_execmem_key csid (ts_selinux s) = Inr (key, required) \<Longrightarrow>
    yz_host_policy_allow_execmem env (Some csid) st s = (None, st', s') \<Longrightarrow>
    policy_run s0 (s', us @ (st', (key, required) # needs) # vs)"
| run_execmem_again: "policy_run s0 (s, us @ (st, needs) # vs) \<Longrightarrow> lp_process_added_av st \<noteq> 0 \<Longrightarrow>
    yz_host_policy_allow_execmem env cred st s = (r, st', s') \<Longrightarrow> policy_run s0 (s', us @ (st', needs) # vs)"
| run_execmem_fails: "policy_run s0 (s, us @ (st, needs) # vs) \<Longrightarrow>
    yz_host_policy_allow_execmem env cred st s = (Some e, st', s') \<Longrightarrow> policy_run s0 (s', us @ (st', needs) # vs)"
| run_restore: "policy_run s0 (s, us @ (st, needs) # vs) \<Longrightarrow> dup_documented env \<Longrightarrow>
    yz_host_policy_restore env st s = (None, s') \<Longrightarrow> policy_run s0 (s', us @ vs)"
| run_restore_fails: "policy_run s0 (s, hs) \<Longrightarrow> yz_host_policy_restore env st s = (Some e, s') \<Longrightarrow> policy_run s0 (s', hs)"

definition all_grants :: "holders \<Rightarrow> (yz_policy_key \<times> u32) list" where
  "all_grants hs = concat (map (\<lambda>h. grants (fst h)) hs)"

lemma all_grants_simps [simp]:
  "all_grants [] = []" "all_grants (h # hs) = grants (fst h) @ all_grants hs"
  "all_grants (hs @ hs') = all_grants hs @ all_grants hs'"
  by (simp_all add: all_grants_def)

definition run_inv :: "selinux_policy \<Rightarrow> temp_state \<times> holders \<Rightarrow> bool" where
  "run_inv p sh \<longleftrightarrow> temp_inv p (all_grants (snd sh)) (fst sh) \<and>
     (\<forall>h \<in> set (snd sh). holder_ok p (fst h) \<and> provides p (grants (fst h)) (snd h))"

lemma provides_bit:
  "provides p gs needs \<Longrightarrow> (k, av) \<in> set needs \<Longrightarrow> bit av i \<Longrightarrow> key_ok k \<and> (allowed (sp_db p) k i \<or> 0 < held gs k i)"
  unfolding provides_def by (metis fst_conv snd_conv)

lemma provides_more:
  "provides p gs needs \<Longrightarrow> (\<And>k i. held gs k i \<le> held gs' k i) \<Longrightarrow> provides p gs' needs"
  unfolding provides_def by (meson order_less_le_trans)

lemma provides_Cons: "provides p gs (n # needs) \<longleftrightarrow> provides p gs [n] \<and> provides p gs needs"
  by (auto simp: provides_def)

lemma grants_to_front: "temp_inv p (all_grants (us @ h # vs)) s = temp_inv p (grants (fst h) @ all_grants (us @ vs)) s"
  by (rule temp_inv_cong) simp

lemma policy_run_inv:
  assumes "policy_run s0 sh" and "temp_inv p [] s0" and ok: "policy_ok p"
  shows "run_inv p sh"
  using assms(1)
proof (induction rule: policy_run.induct)
  case run_init
  show ?case using assms(2) by (simp add: run_inv_def)
next
  case (run_allow s hs env isid csid include_dir access keys st0 st s')
  from allow_file_inv [OF _ ok run_allow.hyps(2,3,4) _ run_allow.hyps(6)] run_allow.hyps(5) run_allow.IH
  show ?case by (auto simp: run_inv_def tmpfs_apart_def)
next
  case (run_allow_fails s hs env request include_dir access st0 e st s')
  then show ?case using allow_file_fails by blast
next
  case (run_execmem s us st needs vs env csid key required st' s')
  have "temp_inv p (grants st @ all_grants (us @ vs)) s" "holder_ok p st"
    using run_execmem.IH grants_to_front [of p us "(st, needs)" vs s] by (auto simp: run_inv_def)
  note step = allow_execmem_inv [OF this(1) ok this(2) run_execmem.hyps(2,3,5,4,6)]
  then have "temp_inv p (all_grants (us @ (st', (key, required) # needs) # vs)) s'"
    using grants_to_front [of p us "(st', (key, required) # needs)" vs s'] by simp
  moreover have "provides p (grants st') ((key, required) # needs)"
    unfolding provides_Cons [of p _ _ needs] using step run_execmem.IH provides_more by (auto simp: run_inv_def)
  ultimately show ?case using run_execmem.IH step by (auto simp: run_inv_def)
next
  case (run_execmem_again s us st needs vs env cred r st' s')
  then show ?case using allow_execmem_again by blast
next
  case (run_execmem_fails s us st needs vs env cred e st' s')
  note fails = allow_execmem_fails [OF run_execmem_fails.hyps(2), of p]
  have "temp_inv p (all_grants (us @ (st, needs) # vs)) s'" using run_execmem_fails.IH fails by (simp add: run_inv_def)
  moreover have "temp_inv p (all_grants (us @ (st, needs) # vs)) s' = temp_inv p (all_grants (us @ (st', needs) # vs)) s'"
    by (rule temp_inv_cong) (use fails in simp)
  moreover have "provides p (grants st') needs"
    using run_execmem_fails.IH fails provides_more [of p "grants st" needs "grants st'"] by (auto simp: run_inv_def)
  ultimately show ?case using run_execmem_fails.IH fails by (auto simp: run_inv_def)
next
  case (run_restore s us st needs vs env s')
  have "temp_inv p (grants st @ all_grants (us @ vs)) s" "holder_ok p st"
    using run_restore.IH grants_to_front [of p us "(st, needs)" vs s] by (auto simp: run_inv_def)
  from restore_inv [OF this(1) ok this(2) run_restore.hyps(2,3)] run_restore.IH
  show ?case by (auto simp: run_inv_def)
next
  case (run_restore_fails s hs env st e s')
  then show ?case using restore_fails by blast
qed

lemma empty_rules:
  "rules_ok (replicate 64 empty_rule)" "refs_of (replicate 64 empty_rule) k i = 0"
  "free_rules (replicate 64 empty_rule) = 64"
proof -
  show "rules_ok (replicate 64 empty_rule)" by (auto simp: rules_ok_def empty_rule_def)
  have "yz_policy_temp_find k (replicate 64 empty_rule) = None"
    by (auto simp: yz_policy_temp_find_def find_None_iff empty_rule_def)
  then show "refs_of (replicate 64 empty_rule) k i = 0" by (simp add: refs_of_def)
  show "free_rules (replicate 64 empty_rule) = 64" by (simp add: free_rules_def empty_rule_def)
qed

lemma initial_temp_inv:
  assumes "se_policy (ts_selinux s) = Some p"
  shows "temp_inv p [] (yz_policy_temp_reset s)"
proof -
  show ?thesis
    using assms empty_rules
    by (auto simp: temp_inv_def yz_policy_temp_reset_def intro!: exI [of _ "sp_db p"])
qed


section \<open>A file of the type tmpfs\<close>

text \<open>A permission that one holder has counted twice is not removed when this holder is restored.\<close>

lemma counted_twice_stays:
  assumes "rules_ok (ts_rules s)" and counts: "\<And>k j. j < 32 \<Longrightarrow> refs_of (ts_rules s) k j = held (grants st) k j"
    and keys: "\<And>g. g \<in> set (grants st) \<Longrightarrow> snd g \<noteq> 0 \<Longrightarrow> key_ok (fst g)"
    and p: "se_policy (ts_selinux s) = Some p" "allowed (sp_db p) k i" "key_ok k"
    and twice: "2 \<le> held (grants st) k i" and env: "dup_documented env"
    and run: "yz_host_policy_restore env st s = (None, s')"
  shows "allowed (policy_of (ts_selinux s')) k i \<and> refs_of (ts_rules s') k i = 0"
proof -
  let ?kvs = "map (\<lambda>g. (fst g, yz_policy_temp_plan_release (fst g) (snd g) (ts_rules s))) (grants st)"
  have i: "i < 32" by (rule held_bit [of "grants st" k]) (use twice in simp)
  have "\<not> (lp_added_av st = 0 \<and> lp_tmpfs_added_av st = 0 \<and> lp_process_added_av st = 0 \<and> lp_dir_added_av st = 0)"
    using twice by (auto simp: grants_def)
  then obtain se where se: "commit_keys env False ?kvs (ts_selinux s) = (None, se)"
      "s' = s\<lparr>ts_selinux := se, ts_rules := release_all st (ts_rules s)\<rparr>"
    using restore_cases [OF run] by blast
  have ok: "key_ok (fst g)" if "g \<in> set ?kvs" "snd g \<noteq> 0" for g
    using that keys by (auto simp: yz_policy_temp_plan_release_def split: if_splits)
  have "names_bit ?kvs k i \<longleftrightarrow> 0 < held ?kvs k i" by (rule names_bit_held [OF ok p(3)])
  then have "\<not> names_bit ?kvs k i" unfolding held_plan_release using counts [OF i, of k] twice by simp
  then have "allowed (policy_of se) k i"
    using commit_restore_bits [OF env se(1) p(1)] p(2) by (auto simp: policy_of_def)
  moreover have "refs_of (release_all st (ts_rules s)) k i = 0"
    using release_many_counts [OF assms(1), of "grants st"] counts i unfolding release_all_foldl by simp
  ultimately show ?thesis by (simp add: se(2))
qed

lemma key_ok_parts: "key_ok k \<Longrightarrow> pk_src k' = pk_src k \<Longrightarrow> pk_tgt k' = pk_tgt k \<Longrightarrow> key_ok k'"
  by (simp add: key_ok_def)

lemma tmpfs_file_counted_twice:
  assumes p: "se_policy (ts_selinux s) = Some p" and ok: "policy_ok p" and env: "dup_documented env"
    and rules: "ts_rules s = replicate 64 empty_rule"
    and keys: "yz_policy_base_get_file_load_keys isid csid include_dir access (ts_selinux s) = Inr keys"
    and same: "fk_tmpfs keys = fk_file keys"
    and run: "yz_host_policy_allow_file env (Some (isid, csid)) include_dir access st0 s = (None, st, s1)"
    and i: "bit (fk_file_required_av keys AND fk_tmpfs_required_av keys) i" "\<not> allowed (sp_db p) (fk_file keys) i"
  shows "rules_ok (ts_rules s1) \<and> (\<forall>k j. j < 32 \<longrightarrow> refs_of (ts_rules s1) k j = held (grants st) k j) \<and>
    (\<forall>g \<in> set (grants st). snd g \<noteq> 0 \<longrightarrow> key_ok (fst g)) \<and> 2 \<le> held (grants st) (fk_file keys) i \<and>
    key_ok (fk_file keys) \<and> (\<exists>db. se_policy (ts_selinux s1) = Some (p\<lparr>sp_db := db\<rparr>) \<and> allowed db (fk_file keys) i)"
proof -
  have inv: "temp_inv p [] s"
  proof -
    have "yz_policy_temp_reset s = s" using rules by (simp add: yz_policy_temp_reset_def)
    then show ?thesis using initial_temp_inv [OF p] by simp
  qed
  have p': "se_policy (ts_selinux s) = Some (p\<lparr>sp_db := sp_db p\<rparr>)" using p by simp
  note k = file_load_keys [OF keys p' same_symbols_refl ok]
  obtain fa fc da dc ta tc se where ready: "se_ready (ts_selinux s)"
      and plan: "yz_policy_temp_plan_allow (fk_file keys) (fk_file_required_av keys) s = Inr (fa, fc)"
        "plan_optional (fk_dir keys) (fk_dir_required_av keys) s = Inr (da, dc)"
        "plan_optional (fk_tmpfs keys) (fk_tmpfs_required_av keys) s = Inr (ta, tc)"
      and se: "commit_keys env True [(fk_file keys, fc), (fk_dir keys, dc), (fk_tmpfs keys, tc), (zero_key, 0)] (ts_selinux s) = (None, se)"
        "st = allowed_policy keys fa da ta"
        "s1 = s\<lparr>ts_selinux := se, ts_rules := foldl (\<lambda>rs g. yz_policy_temp_add (fst g) (snd g) rs) (ts_rules s)
           [(fk_file keys, fa), (fk_dir keys, da), (fk_tmpfs keys, ta)]\<rparr>"
    by (rule allow_file_cases [OF run keys])
  have dir: "da = 0 \<or> pk_src (fk_dir keys) = pk_src (fk_file keys) \<and> pk_tgt (fk_dir keys) = pk_tgt (fk_file keys)"
    using k plan(2) by (auto simp: plan_optional_def split: if_splits)
  have held: "held (grants st) k j = held [(fk_file keys, fa), (fk_dir keys, da), (fk_tmpfs keys, ta)] k j" for k j
    unfolding se(2) by (rule held_allowed_policy) (use dir same in auto)
  have ko: "key_ok (fk_file keys)" using k by blast
  have b: "bit fa i" "bit ta i" "bit fc i"
    using plan_bits [OF inv ready ko plan(1), of i] plan_optional_bits [OF inv ready _ plan(3), of i] i same ko
    by (simp_all add: bit_and_iff)
  have "\<exists>db. se_policy se = Some (p\<lparr>sp_db := db\<rparr>) \<and> allowed db (fk_file keys) i"
    using commit_allow_bits [OF env se(1) p] b(3) by auto
  moreover have "rules_ok (ts_rules s1) \<and> (\<forall>k j. j < 32 \<longrightarrow> refs_of (ts_rules s1) k j = held (grants st) k j)"
    using add_many_counts [OF empty_rules(1), of "[(fk_file keys, fa), (fk_dir keys, da), (fk_tmpfs keys, ta)]"]
    by (simp add: se(3) rules empty_rules held)
  moreover have "\<forall>g \<in> set (grants st). snd g \<noteq> 0 \<longrightarrow> key_ok (fst g)"
    using ko unfolding se(2)
    by (simp add: grants_def allowed_policy_def empty_policy_def key_ok_def file_key_def dir_key_def tmpfs_key_def same)
  moreover have "2 \<le> held (grants st) (fk_file keys) i" using b same by (simp add: held)
  ultimately show ?thesis using ko by (simp add: se(3))
qed

text \<open>For a file whose own type is \<open>tmpfs\<close> the file key and the tmpfs key are the same, and the
  permissions that both ask for are counted twice: restoring the only holder, alone and without any
  failure, releases both counts, but removes none of these permissions from the policy.\<close>

lemma tmpfs_file_permissions_stay:
  assumes "se_policy (ts_selinux s0) = Some p" and "policy_ok p" and "dup_documented env" and "dup_documented env'"
    and "ts_rules s0 = replicate 64 empty_rule"
    and "yz_policy_base_get_file_load_keys isid csid include_dir access (ts_selinux s0) = Inr keys"
    and "fk_tmpfs keys = fk_file keys"
    and "yz_host_policy_allow_file env (Some (isid, csid)) include_dir access st0 s0 = (None, st, s1)"
    and "yz_host_policy_restore env' st s1 = (None, s2)"
    and "bit (fk_file_required_av keys AND fk_tmpfs_required_av keys) i" and "\<not> allowed (sp_db p) (fk_file keys) i"
  shows "allowed (policy_of (ts_selinux s2)) (fk_file keys) i \<and> refs_of (ts_rules s2) (fk_file keys) i = 0"
proof -
  note t = tmpfs_file_counted_twice [OF assms(1,2,3,5,6,7,8,10,11)]
  then obtain db where "se_policy (ts_selinux s1) = Some (p\<lparr>sp_db := db\<rparr>)" "allowed (sp_db (p\<lparr>sp_db := db\<rparr>)) (fk_file keys) i"
    by auto
  from counted_twice_stays [OF _ _ _ this _ _ assms(4,9)] t show ?thesis by blast
qed

section \<open>A sample policy\<close>

definition sample_class :: "u32 \<Rightarrow> class_datum" where
  "sample_class v = \<lparr>cls_value = v, cls_perms = map_of [(''read'', 1), (''open'', 2), (''getattr'', 3), (''map'', 4), (''execute'', 5),
     (''write'', 6), (''search'', 7), (''execmem'', 8)], cls_common = None\<rparr>"

definition sample_db :: policydb where
  "sample_db = \<lparr>db_types = map_of [(''app'', \<lparr>ty_value = 1, ty_attribute = False\<rparr>), (''apk'', \<lparr>ty_value = 2, ty_attribute = False\<rparr>),
       (''tmpfs'', \<lparr>ty_value = 3, ty_attribute = False\<rparr>)],
     db_type_names = [Some ''app'', Some ''apk'', Some ''tmpfs''],
     db_classes = map_of [(''file'', sample_class 1), (''dir'', sample_class 2), (''process'', sample_class 3)],
     db_class_names = [Some ''file'', Some ''dir'', Some ''process''], db_te_avtab = (\<lambda>k. None), db_len = 100\<rparr>"

definition sample_policy :: selinux_policy where
  "sample_policy = \<lparr>sp_db = sample_db, sp_sidtab = map_of [(10, 1), (20, 2), (30, 3)]\<rparr>"

definition sample_state :: temp_state where
  "sample_state = \<lparr>ts_selinux = \<lparr>se_ready = True, se_initialized = True, se_policy = Some sample_policy\<rparr>,
     ts_rules = replicate 64 empty_rule\<rparr>"

text \<open>A kernel that can copy the policy \<open>db\<close>.\<close>

definition sample_env :: "policydb \<Rightarrow> edit_env" where
  "sample_env db = \<lparr>ee_vmalloc = True, ee_write = (\<lambda>d len. if d = db then Inr [] else Inl ENOMEM), ee_config = (\<lambda>d. 0),
     ee_kmemdup = True, ee_read = (\<lambda>data. Inr db), ee_insert = (\<lambda>k. True), ee_alloc = (\<lambda>k. True)\<rparr>"

lemma sample_env_documented: "dup_documented (sample_env db)"
  by (auto simp: dup_documented_def sample_env_def)

lemma sample_policy_ok: "policy_ok sample_policy"
  by (auto simp: policy_ok_def sample_policy_def sample_db_def sample_class_def yz_policy_type_value_by_name_def
      class_by_name_def split: if_splits option.splits)

lemma find_in_empty: "yz_policy_temp_find k (replicate 64 empty_rule) = None"
  "yz_policy_temp_find_free (replicate 64 empty_rule) = Some 0"
  by (auto simp: yz_policy_temp_find_def yz_policy_temp_find_free_def find_None_iff empty_rule_def upt_conv_Cons)

text \<open>With an empty table and no rules in the policy a request asks for everything.\<close>

lemma sample_plan:
  "required \<noteq> 0 \<Longrightarrow> yz_policy_temp_plan_allow k required sample_state = Inr (required, required)"
  by (simp add: yz_policy_temp_plan_allow_def sample_state_def yz_policy_base_direct_allowed_av_def sample_policy_def
      yz_policy_direct_allowed_av_def sample_db_def yz_policy_temp_mask_def find_in_empty yz_policy_temp_validate_add_def)

definition sample_key :: "u32 \<Rightarrow> u16 \<Rightarrow> yz_policy_key" where
  "sample_key tgt c = \<lparr>pk_src = 1, pk_tgt = tgt, pk_class = c\<rparr>"

text \<open>Allowing and clearing permissions of valid keys succeeds.\<close>

definition known_key :: "policydb \<Rightarrow> yz_policy_key \<Rightarrow> bool" where
  "known_key db k \<longleftrightarrow> yz_policy_type_name_by_value db (pk_src k) \<noteq> None \<and>
     yz_policy_type_name_by_value db (pk_tgt k) \<noteq> None \<and> yz_policy_class_name_by_value db (pk_class k) \<noteq> None"

lemma known_key_same: "same_symbols db db' \<Longrightarrow> known_key db' k = known_key db k"
  by (simp add: same_symbols_def known_key_def yz_policy_type_name_by_value_def yz_policy_class_name_by_value_def)

lemma apply_keys_succeeds:
  assumes "\<And>kv. kv \<in> set kvs \<Longrightarrow> snd kv \<noteq> 0 \<Longrightarrow> known_key db (fst kv)"
  shows "\<exists>db'. apply_keys (sample_env d) allow kvs db = Inr db'"
  using assms
proof (induction kvs arbitrary: db)
  case (Cons kv kvs)
  obtain k av where kv: "kv = (k, av)" by fastforce
  have "av \<noteq> 0 \<Longrightarrow> known_key db k" using Cons.prems [of kv] kv by simp
  moreover have "\<exists>db'. yz_policy_get_avtab_node (sample_env d) k db = Some db'"
    by (simp add: yz_policy_get_avtab_node_def sample_env_def split: option.split)
  ultimately have "\<exists>db1. yz_policy_apply_av (sample_env d) allow k av db = Inr db1"
    by (cases "av = 0") (auto simp: yz_policy_apply_av_def known_key_def)
  then obtain db1 where 1: "yz_policy_apply_av (sample_env d) allow k av db = Inr db1" by blast
  then have "same_symbols db db1"
    using apply_av_allow [of "sample_env d" k av db db1] apply_av_restore [of "sample_env d" k av db db1] by (cases allow) auto
  then have "\<And>kv. kv \<in> set kvs \<Longrightarrow> snd kv \<noteq> 0 \<Longrightarrow> known_key db1 (fst kv)"
    using Cons.prems known_key_same by simp
  from Cons.IH [OF this] show ?case using 1 kv by simp
qed simp

lemma commit_keys_succeeds:
  assumes "se_ready s" "se_initialized s" "se_policy s = Some p"
    and "\<And>kv. kv \<in> set kvs \<Longrightarrow> snd kv \<noteq> 0 \<Longrightarrow> known_key (sp_db p) (fst kv)"
  shows "\<exists>db. commit_keys (sample_env (sp_db p)) allow kvs s = (None, s\<lparr>se_policy := Some (p\<lparr>sp_db := db\<rparr>)\<rparr>)"
proof (cases "list_all (\<lambda>kv. snd kv = 0) kvs")
  case True
  moreover have "s\<lparr>se_policy := Some (p\<lparr>sp_db := sp_db p\<rparr>)\<rparr> = s" using assms(3) by simp
  ultimately show ?thesis by (auto simp: commit_keys_def intro!: exI [of _ "sp_db p"])
next
  case False
  have "yz_policy_begin_edit (sample_env (sp_db p)) s = Inr p"
    using assms(1-3) by (simp add: yz_policy_begin_edit_def yz_policy_dup_def sample_env_def)
  moreover obtain db where "apply_keys (sample_env (sp_db p)) allow kvs (sp_db p) = Inr db"
    using apply_keys_succeeds assms(4) by blast
  ultimately show ?thesis using False by (auto simp: commit_keys_def yz_policy_commit_edit_def)
qed

definition sample_apk_keys :: yz_policy_file_load_keys where
  "sample_apk_keys = \<lparr>fk_file = sample_key 2 1, fk_dir = sample_key 2 2, fk_tmpfs = sample_key 3 1,
     fk_file_required_av = 31, fk_dir_required_av = 71, fk_tmpfs_required_av = 15\<rparr>"

definition sample_tmpfs_keys :: yz_policy_file_load_keys where
  "sample_tmpfs_keys = \<lparr>fk_file = sample_key 3 1, fk_dir = zero_key, fk_tmpfs = sample_key 3 1,
     fk_file_required_av = 31, fk_dir_required_av = 0, fk_tmpfs_required_av = 63\<rparr>"

lemma sample_keys:
  "yz_policy_base_get_file_load_keys (Some 20) 10 True TMPFS_RECEIVE (ts_selinux sample_state) = Inr sample_apk_keys"
  "yz_policy_base_get_file_load_keys (Some 30) 10 False TMPFS_LOAD (ts_selinux sample_state) = Inr sample_tmpfs_keys"
  by (simp_all add: sample_apk_keys_def sample_tmpfs_keys_def yz_policy_base_get_file_load_keys_def sample_state_def sample_policy_def sample_db_def
      yz_policy_sidtab_search_def class_by_name_def sample_class_def with_dir_key_def with_tmpfs_key_def
      add_file_key_def add_dir_key_def add_tmpfs_key_def no_keys_def tmpfs_perms_def yz_policy_type_value_by_name_def sample_key_def
      yz_policy_required_av_def file_load_perms_def dir_load_perms_def tmpfs_load_perms_def tmpfs_receive_perms_def
      yz_policy_perm_mask_def find_perm_def)

lemma sample_keys_known: "known_key sample_db (sample_key 2 1)" "known_key sample_db (sample_key 2 2)"
  "known_key sample_db (sample_key 3 1)"
  by (simp_all add: known_key_def sample_db_def sample_key_def yz_policy_type_name_by_value_def
      yz_policy_class_name_by_value_def)

lemma sample_allow:
  assumes "yz_policy_base_get_file_load_keys isid csid include_dir access (ts_selinux sample_state) = Inr keys"
    and "fk_file_required_av keys \<noteq> 0"
    and "known_key sample_db (fk_file keys)" "fk_dir_required_av keys \<noteq> 0 \<longrightarrow> known_key sample_db (fk_dir keys)"
      "fk_tmpfs_required_av keys \<noteq> 0 \<longrightarrow> known_key sample_db (fk_tmpfs keys)"
  shows "\<exists>db rs. same_symbols sample_db db \<and>
    yz_host_policy_allow_file (sample_env sample_db) (Some (isid, csid)) include_dir access st0 sample_state =
    (None, allowed_policy keys (fk_file_required_av keys) (fk_dir_required_av keys) (fk_tmpfs_required_av keys),
     sample_state\<lparr>ts_selinux := (ts_selinux sample_state)\<lparr>se_policy := Some (sample_policy\<lparr>sp_db := db\<rparr>)\<rparr>, ts_rules := rs\<rparr>)"
proof -
  have plan: "plan_file_allow keys sample_state = Inr ((fk_file_required_av keys, fk_file_required_av keys),
      (fk_dir_required_av keys, fk_dir_required_av keys), (fk_tmpfs_required_av keys, fk_tmpfs_required_av keys))"
    using assms(2) by (simp add: plan_file_allow_def sample_plan plan_optional_def)
  let ?kvs = "[(fk_file keys, fk_file_required_av keys), (fk_dir keys, fk_dir_required_av keys),
      (fk_tmpfs keys, fk_tmpfs_required_av keys), (zero_key, 0)]"
  have "\<exists>db. commit_keys (sample_env (sp_db sample_policy)) True ?kvs (ts_selinux sample_state) =
      (None, (ts_selinux sample_state)\<lparr>se_policy := Some (sample_policy\<lparr>sp_db := db\<rparr>)\<rparr>)"
    by (rule commit_keys_succeeds) (use assms(3-5) in \<open>auto simp: sample_state_def sample_policy_def\<close>)
  then obtain db where db: "commit_keys (sample_env sample_db) True ?kvs (ts_selinux sample_state) =
      (None, (ts_selinux sample_state)\<lparr>se_policy := Some (sample_policy\<lparr>sp_db := db\<rparr>)\<rparr>)"
    by (auto simp: sample_policy_def)
  have "same_symbols sample_db db"
    using commit_allow_bits [OF sample_env_documented db, of sample_policy] by (auto simp: sample_state_def sample_policy_def)
  moreover have "se_ready (ts_selinux sample_state)" by (simp add: sample_state_def)
  ultimately show ?thesis
    using assms(1) by (auto simp: yz_host_policy_allow_file_def plan commit_file_allow_def yz_policy_base_commit_allow_def db)
qed

lemma restore_succeeds:
  assumes "se_ready (ts_selinux s)" "se_initialized (ts_selinux s)" "se_policy (ts_selinux s) = Some p"
    and "\<And>g. g \<in> set (grants st) \<Longrightarrow> snd g \<noteq> 0 \<Longrightarrow> known_key (sp_db p) (fst g)"
  shows "\<exists>s'. yz_host_policy_restore (sample_env (sp_db p)) st s = (None, s')"
proof -
  let ?kvs = "map (\<lambda>g. (fst g, yz_policy_temp_plan_release (fst g) (snd g) (ts_rules s))) (grants st)"
  have known: "known_key (sp_db p) (fst g)" if "g \<in> set ?kvs" "snd g \<noteq> 0" for g
    using that assms(4) by (auto simp: yz_policy_temp_plan_release_def split: if_splits)
  have "\<exists>se. commit_keys (sample_env (sp_db p)) False ?kvs (ts_selinux s) = (None, se)"
    using commit_keys_succeeds [OF assms(1-3) known, where allow = False] by blast
  then show ?thesis
    using assms(1) by (auto simp: yz_host_policy_restore_def yz_policy_base_commit_restore_def Let_def grants_def)
qed

lemma plan_succeeds:
  assumes "required \<noteq> 0" and "0 < free_rules (ts_rules s)" and "\<And>i. i < 32 \<Longrightarrow> refs_of (ts_rules s) k i < 0xFFFF"
  shows "\<exists>av. yz_policy_temp_plan_allow k required s = Inr av \<and> (fst av = 0 \<longrightarrow> snd av = 0)"
proof -
  have small: "tr_refs (ts_rules s ! j) ! i \<noteq> 0xFFFF" if "yz_policy_temp_find k (ts_rules s) = Some j" "i < 32" for i j
    using assms(3) [OF that(2)] that(1) by (auto simp: refs_of_def)
  have "yz_policy_temp_validate_add k request (ts_rules s) = None" for request
    using find_free_exists [OF assms(2)] small
    by (auto simp: yz_policy_temp_validate_add_def list_ex_iff split: option.splits)
  then show ?thesis using assms(1) by (simp add: yz_policy_temp_plan_allow_def Let_def)
qed

lemma allow_succeeds:
  assumes se: "se_ready (ts_selinux s)" "se_initialized (ts_selinux s)" "se_policy (ts_selinux s) = Some p"
    and keys: "yz_policy_base_get_file_load_keys isid csid include_dir access (ts_selinux s) = Inr keys"
    and "fk_file_required_av keys \<noteq> 0" and "0 < free_rules (ts_rules s)"
    and "\<And>k i. i < 32 \<Longrightarrow> refs_of (ts_rules s) k i < 0xFFFF"
    and known: "known_key (sp_db p) (fk_file keys)" "fk_dir_required_av keys \<noteq> 0 \<longrightarrow> known_key (sp_db p) (fk_dir keys)"
      "fk_tmpfs_required_av keys \<noteq> 0 \<longrightarrow> known_key (sp_db p) (fk_tmpfs keys)"
  shows "\<exists>st s'. yz_host_policy_allow_file (sample_env (sp_db p)) (Some (isid, csid)) include_dir access st0 s = (None, st, s')"
proof -
  note plan = plan_succeeds [OF _ assms(6) assms(7)]
  have optional: "\<exists>av. plan_optional k required s = Inr av \<and> (required = 0 \<longrightarrow> snd av = 0)" for k required
    using plan [of required k] by (cases "required = 0") (auto simp: plan_optional_def)
  obtain f where f: "yz_policy_temp_plan_allow (fk_file keys) (fk_file_required_av keys) s = Inr f"
    using plan [OF assms(5), of "fk_file keys"] by blast
  obtain d where d: "plan_optional (fk_dir keys) (fk_dir_required_av keys) s = Inr d" "fk_dir_required_av keys = 0 \<longrightarrow> snd d = 0"
    using optional by blast
  obtain t where t: "plan_optional (fk_tmpfs keys) (fk_tmpfs_required_av keys) s = Inr t" "fk_tmpfs_required_av keys = 0 \<longrightarrow> snd t = 0"
    using optional by blast
  let ?kvs = "[(fk_file keys, snd f), (fk_dir keys, snd d), (fk_tmpfs keys, snd t), (zero_key, 0)]"
  have ok: "known_key (sp_db p) (fst kv)" if "kv \<in> set ?kvs" "snd kv \<noteq> 0" for kv
    using that known d(2) t(2) by auto
  obtain se' where "commit_keys (sample_env (sp_db p)) True ?kvs (ts_selinux s) = (None, se')"
    using commit_keys_succeeds [OF se ok, where allow = True] by blast
  then show ?thesis
    using se(1) keys by (simp add: yz_host_policy_allow_file_def plan_file_allow_def f d(1) t(1) commit_file_allow_def
        yz_policy_base_commit_allow_def)
qed

lemma keys_same:
  assumes "se_policy se = Some p" and "se_policy se' = Some (p\<lparr>sp_db := db\<rparr>)" and "same_symbols (sp_db p) db"
  shows "yz_policy_base_get_file_load_keys isid csid include_dir access se' =
    yz_policy_base_get_file_load_keys isid csid include_dir access se"
proof -
  note same = class_by_name_same [OF assms(3)] type_value_same [OF assms(3)]
  have "with_dir_key db = with_dir_key (sp_db p)" by (intro ext) (simp add: with_dir_key_def same)
  moreover have "with_tmpfs_key db = with_tmpfs_key (sp_db p)" by (intro ext) (simp only: with_tmpfs_key_def same)
  ultimately show ?thesis using assms(1,2)
    by (cases isid) (simp_all add: yz_policy_base_get_file_load_keys_def same cong: if_cong option.case_cong prod.case_cong sum.case_cong)
qed

lemma sample_reset: "yz_policy_temp_reset sample_state = sample_state"
  by (simp add: yz_policy_temp_reset_def sample_state_def)


end
