(* ===== verification/Policy_Holders.thy ===== *)
theory Policy_Holders
  imports Policy_Temp_Safety "HOL-Library.Multiset"
begin

text \<open>
  Who holds temporary permissions, the policy part of \<^verbatim>\<open>kernel/feature/zygote_probe.c\<close>: a process that is
  being injected leaves its permissions on a list until the injected code reports or ten seconds pass,
  and app processes get permissions for the directory of their modules.

  An entry is on its list exactly while its flag \<^verbatim>\<open>pending\<close> is set, so the flag is not kept.  An entry is
  taken off its list under a mutex and restored by the one who took it, so a function is one step.  Each
  call of the policy code has an \<open>edit_env\<close> of its own, the \<open>n\<close>-th of a function being \<open>env n\<close>.
\<close>

section \<open>State and operations\<close>

record policy_holder =
  pp_tgid :: int
  pp_state :: yz_file_load_policy

record holder_lists =
  hl_temp :: temp_state
  hl_native :: "policy_holder list"
  hl_module :: "policy_holder list"

definition zp_native_policy_has_additions :: "yz_file_load_policy \<Rightarrow> bool" where
  "zp_native_policy_has_additions st \<longleftrightarrow>
     lp_added_av st \<noteq> 0 \<or> lp_tmpfs_added_av st \<noteq> 0 \<or> lp_process_added_av st \<noteq> 0 \<or> lp_dir_added_av st \<noteq> 0"

definition zp_restore_native_policy_state ::
  "edit_env \<Rightarrow> yz_file_load_policy \<Rightarrow> temp_state \<Rightarrow> yz_file_load_policy \<times> temp_state" where
  "zp_restore_native_policy_state env st s =
     (if \<not> zp_native_policy_has_additions st then (st, s)
      else (empty_policy, snd (yz_host_policy_restore env st s)))"

fun restore_entries :: "(nat \<Rightarrow> edit_env) \<Rightarrow> policy_holder list \<Rightarrow> temp_state \<Rightarrow> temp_state" where
  "restore_entries env [] s = s"
| "restore_entries env (e # es) s =
     restore_entries (\<lambda>n. env (Suc n)) es (snd (zp_restore_native_policy_state (env 0) (pp_state e) s))"

text \<open>Taking the entry at a position off a list, when its timer fires first.\<close>

definition remove_nth :: "nat \<Rightarrow> 'a list \<Rightarrow> 'a list" where
  "remove_nth i xs = take i xs @ drop (Suc i) xs"

definition zp_native_policy_timeout :: "edit_env \<Rightarrow> nat \<Rightarrow> holder_lists \<Rightarrow> holder_lists" where
  "zp_native_policy_timeout env i hl =
     hl\<lparr>hl_native := remove_nth i (hl_native hl),
        hl_temp := snd (zp_restore_native_policy_state env (pp_state (hl_native hl ! i)) (hl_temp hl))\<rparr>"

definition zp_publish_native_policy_state ::
  "(nat \<Rightarrow> edit_env) \<Rightarrow> bool \<Rightarrow> int \<Rightarrow> yz_file_load_policy \<Rightarrow> holder_lists \<Rightarrow> yz_file_load_policy \<times> holder_lists" where
  "zp_publish_native_policy_state env alloc tgid st hl =
     (if \<not> zp_native_policy_has_additions st then (st, hl)
      else if \<not> alloc then
        (case zp_restore_native_policy_state (env 0) st (hl_temp hl) of (st', s) \<Rightarrow> (st', hl\<lparr>hl_temp := s\<rparr>))
      else
        (empty_policy,
         hl\<lparr>hl_native := filter (\<lambda>e. pp_tgid e \<noteq> tgid) (hl_native hl) @ [\<lparr>pp_tgid = tgid, pp_state = st\<rparr>],
            hl_temp := restore_entries env (filter (\<lambda>e. pp_tgid e = tgid) (hl_native hl)) (hl_temp hl)\<rparr>))"

fun restore_modules :: "(nat \<Rightarrow> edit_env) \<Rightarrow> policy_holder list \<Rightarrow> errno option \<Rightarrow> temp_state \<Rightarrow> errno option \<times> temp_state" where
  "restore_modules env [] first_error s = (first_error, s)"
| "restore_modules env (e # es) first_error s =
     (case yz_host_policy_restore (env 0) (pp_state e) s of
        (ret, s') \<Rightarrow> restore_modules (\<lambda>n. env (Suc n)) es (if first_error = None then ret else first_error) s')"

definition zp_restore_module_policy :: "(nat \<Rightarrow> edit_env) \<Rightarrow> int \<Rightarrow> holder_lists \<Rightarrow> errno option \<times> holder_lists" where
  "zp_restore_module_policy env tgid hl =
     (case restore_modules env (filter (\<lambda>e. pp_tgid e = tgid) (hl_module hl)) None (hl_temp hl) of
        (ret, s) \<Rightarrow> (ret, hl\<lparr>hl_module := filter (\<lambda>e. pp_tgid e \<noteq> tgid) (hl_module hl), hl_temp := s\<rparr>))"

definition restore_native_entries :: "(nat \<Rightarrow> edit_env) \<Rightarrow> int \<Rightarrow> holder_lists \<Rightarrow> holder_lists" where
  "restore_native_entries env tgid hl =
     hl\<lparr>hl_native := filter (\<lambda>e. pp_tgid e \<noteq> tgid) (hl_native hl),
        hl_temp := restore_entries env (filter (\<lambda>e. pp_tgid e = tgid) (hl_native hl)) (hl_temp hl)\<rparr>"

definition yz_zygote_probe_restore_native_policy ::
  "(nat \<Rightarrow> edit_env) \<Rightarrow> (nat \<Rightarrow> edit_env) \<Rightarrow> int \<Rightarrow> holder_lists \<Rightarrow> errno option \<times> holder_lists" where
  "yz_zygote_probe_restore_native_policy env env' tgid hl =
     (if tgid \<le> 0 then (Some EINVAL, hl)
      else zp_restore_module_policy env' tgid (restore_native_entries env tgid hl))"

definition zp_module_policy_same :: "policy_holder \<Rightarrow> int \<Rightarrow> yz_file_load_policy \<Rightarrow> bool" where
  "zp_module_policy_same e tgid st \<longleftrightarrow>
     pp_tgid e = tgid \<and> lp_src_type (pp_state e) = lp_src_type st \<and> lp_tgt_type (pp_state e) = lp_tgt_type st \<and>
     lp_target_class (pp_state e) = lp_target_class st \<and> lp_dir_class (pp_state e) = lp_dir_class st"

definition zp_module_policy_timeout :: "edit_env \<Rightarrow> nat \<Rightarrow> holder_lists \<Rightarrow> holder_lists" where
  "zp_module_policy_timeout env i hl =
     hl\<lparr>hl_module := remove_nth i (hl_module hl),
        hl_temp := snd (zp_restore_native_policy_state env (pp_state (hl_module hl ! i)) (hl_temp hl))\<rparr>"

text \<open>Once both permissions are there: nothing to hold, held already, or a new holder.\<close>

definition hold_module_policy ::
  "edit_env \<Rightarrow> int \<Rightarrow> yz_file_load_policy \<Rightarrow> holder_lists \<Rightarrow> errno option \<times> holder_lists" where
  "hold_module_policy env tgid st hl =
     (if \<not> zp_native_policy_has_additions st then (None, hl)
      else if list_ex (\<lambda>e. zp_module_policy_same e tgid st) (hl_module hl) then
        (case yz_host_policy_restore env st (hl_temp hl) of (ret, s) \<Rightarrow> (ret, hl\<lparr>hl_temp := s\<rparr>))
      else (None, hl\<lparr>hl_module := hl_module hl @ [\<lparr>pp_tgid = tgid, pp_state = st\<rparr>]\<rparr>))"

text \<open>\<open>dir\<close> is the inode of the module directory and \<open>cred\<close> the credentials, \<open>None\<close> for a null pointer.\<close>

definition yz_zygote_probe_allow_module_policy ::
  "(nat \<Rightarrow> edit_env) \<Rightarrow> bool \<Rightarrow> int \<Rightarrow> u32 option option \<Rightarrow> u32 option \<Rightarrow> holder_lists \<Rightarrow> errno option \<times> holder_lists" where
  "yz_zygote_probe_allow_module_policy env alloc tgid dir cred hl =
     (case (dir, cred) of
        (Some isid, Some csid) \<Rightarrow>
          if tgid \<le> 0 then (Some EINVAL, hl)
          else if \<not> alloc then (Some ENOMEM, hl)
          else (case yz_host_policy_allow_file_cred (env 0) (Some (isid, csid)) empty_policy (hl_temp hl) of
              (Some e, st, s) \<Rightarrow> (Some e, hl\<lparr>hl_temp := s\<rparr>)
            | (None, st, s) \<Rightarrow>
                (case yz_host_policy_allow_execmem (env 1) (Some csid) st s of
                   (Some e, st', s') \<Rightarrow> (Some e, hl\<lparr>hl_temp := snd (yz_host_policy_restore (env 2) st' s')\<rparr>)
                 | (None, st', s') \<Rightarrow> hold_module_policy (env 2) tgid st' (hl\<lparr>hl_temp := s'\<rparr>)))
      | _ \<Rightarrow> (Some EINVAL, hl))"

definition zp_cleanup_module_policies :: "(nat \<Rightarrow> edit_env) \<Rightarrow> holder_lists \<Rightarrow> holder_lists" where
  "zp_cleanup_module_policies env hl =
     hl\<lparr>hl_module := [], hl_temp := restore_entries env (hl_module hl) (hl_temp hl)\<rparr>"

section \<open>Accounting\<close>

text \<open>The states whose restore failed, which nobody holds afterwards.\<close>

fun lost_entries :: "(nat \<Rightarrow> edit_env) \<Rightarrow> policy_holder list \<Rightarrow> temp_state \<Rightarrow> yz_file_load_policy list" where
  "lost_entries env [] s = []"
| "lost_entries env (e # es) s =
     (case yz_host_policy_restore (env 0) (pp_state e) s of
        (ret, s') \<Rightarrow> (if ret = None then [] else [pp_state e]) @ lost_entries (\<lambda>n. env (Suc n)) es s')"

definition states_grants :: "yz_file_load_policy list \<Rightarrow> (yz_policy_key \<times> u32) list" where
  "states_grants sts = concat (map grants sts)"

lemma states_grants_simps [simp]:
  "states_grants [] = []" "states_grants (st # sts) = grants st @ states_grants sts"
  "states_grants (sts @ sts') = states_grants sts @ states_grants sts'"
  by (simp_all add: states_grants_def)

text \<open>The grants in force are those of \<open>sts\<close>.\<close>

definition accounted :: "selinux_policy \<Rightarrow> yz_file_load_policy list \<Rightarrow> temp_state \<Rightarrow> bool" where
  "accounted p sts s \<longleftrightarrow> temp_inv p (states_grants sts) s \<and> (\<forall>st \<in> set sts. holder_ok p st)"

lemma accounted_perm: "mset sts = mset sts' \<Longrightarrow> accounted p sts s = accounted p sts' s"
proof -
  assume m: "mset sts = mset sts'"
  have "held (states_grants xs) k i = sum_mset (image_mset (\<lambda>st. held (grants st) k i) (mset xs))" for xs k i
    by (induction xs) auto
  then have "temp_inv p (states_grants sts) s = temp_inv p (states_grants sts') s"
    using m by (intro temp_inv_cong) simp
  moreover have "set sts = set sts'" using m by (rule mset_eq_setD)
  ultimately show ?thesis by (simp add: accounted_def)
qed

lemma no_additions_empty: "\<not> zp_native_policy_has_additions st \<Longrightarrow> held (grants st) k i = 0"
  by (simp add: zp_native_policy_has_additions_def grants_def)

lemma accounted_restore:
  assumes "accounted p (st # sts) s" and "policy_ok p" and "dup_documented env"
    and "yz_host_policy_restore env st s = (ret, s')"
  shows "accounted p ((if ret = None then [] else [st]) @ sts) s'"
proof (cases ret)
  case None
  then show ?thesis using assms restore_inv [of p st "states_grants sts" s env s'] by (simp add: accounted_def)
next
  case (Some e)
  then have "s' = s" using restore_fails assms(4) by blast
  then show ?thesis using assms(1) Some by simp
qed

lemma restore_nothing: "\<not> zp_native_policy_has_additions st \<Longrightarrow> yz_host_policy_restore env st s = (None, s)"
  by (simp add: zp_native_policy_has_additions_def yz_host_policy_restore_def)

lemma restore_state_snd: "snd (zp_restore_native_policy_state env st s) = snd (yz_host_policy_restore env st s)"
  by (simp add: zp_restore_native_policy_state_def restore_nothing)

lemma accounted_restore_entries:
  assumes "accounted p (map pp_state es @ sts) s" and "policy_ok p" and "\<And>n. dup_documented (env n)"
  shows "accounted p (lost_entries env es s @ sts) (restore_entries env es s)"
  using assms(1,3)
proof (induction es arbitrary: env sts s)
  case (Cons e es)
  obtain ret s' where r: "yz_host_policy_restore (env 0) (pp_state e) s = (ret, s')" by fastforce
  let ?kept = "if ret = None then [] else [pp_state e]"
  have "accounted p (?kept @ map pp_state es @ sts) s'"
    using accounted_restore [OF _ assms(2) Cons.prems(2) r, of "map pp_state es @ sts"] Cons.prems(1) by simp
  then have "accounted p (map pp_state es @ ?kept @ sts) s'"
    using accounted_perm [of "map pp_state es @ ?kept @ sts" "?kept @ map pp_state es @ sts"] by simp
  from Cons.IH [OF this, of "\<lambda>n. env (Suc n)"] Cons.prems(2)
  have "accounted p (lost_entries (\<lambda>n. env (Suc n)) es s' @ ?kept @ sts) (restore_entries (\<lambda>n. env (Suc n)) es s')" by simp
  then have "accounted p (?kept @ lost_entries (\<lambda>n. env (Suc n)) es s' @ sts) (restore_entries (\<lambda>n. env (Suc n)) es s')"
    using accounted_perm [of "?kept @ lost_entries (\<lambda>n. env (Suc n)) es s' @ sts" "lost_entries (\<lambda>n. env (Suc n)) es s' @ ?kept @ sts"]
    by simp
  then show ?case by (simp add: r restore_state_snd)
qed simp

lemma restore_modules_entries: "snd (restore_modules env es ret s) = restore_entries env es s"
  by (induction es arbitrary: env ret s) (auto simp: restore_state_snd split: prod.split)

section \<open>All runs\<close>

text \<open>A request of either kind that finds room in the table and is not about a \<open>tmpfs\<close> file.\<close>

definition request_fits :: "nat \<Rightarrow> u32 option \<Rightarrow> u32 \<Rightarrow> bool \<Rightarrow> yz_policy_tmpfs_access \<Rightarrow> temp_state \<Rightarrow> bool" where
  "request_fits n isid csid include_dir access s \<longleftrightarrow> n \<le> free_rules (ts_rules s) \<and>
     (case yz_policy_base_get_file_load_keys isid csid include_dir access (ts_selinux s) of
        Inl e \<Rightarrow> True | Inr keys \<Rightarrow> tmpfs_apart keys)"

definition lost_state :: "edit_env \<Rightarrow> yz_file_load_policy \<Rightarrow> temp_state \<Rightarrow> yz_file_load_policy list" where
  "lost_state env st s = (if fst (yz_host_policy_restore env st s) = None then [] else [st])"

definition allow_module_lost ::
  "(nat \<Rightarrow> edit_env) \<Rightarrow> int \<Rightarrow> u32 option \<Rightarrow> u32 \<Rightarrow> holder_lists \<Rightarrow> yz_file_load_policy list" where
  "allow_module_lost env tgid isid csid hl =
     (case yz_host_policy_allow_file_cred (env 0) (Some (isid, csid)) empty_policy (hl_temp hl) of
        (Some e, st, s) \<Rightarrow> []
      | (None, st, s) \<Rightarrow>
          (case yz_host_policy_allow_execmem (env 1) (Some csid) st s of
             (Some e, st', s') \<Rightarrow> lost_state (env 2) st' s'
           | (None, st', s') \<Rightarrow>
               if zp_native_policy_has_additions st' \<and> list_ex (\<lambda>e. zp_module_policy_same e tgid st') (hl_module hl)
               then lost_state (env 2) st' s' else []))"

text \<open>The states of processes being injected, those whose restore failed, and the lists.  An injection
  begins with an empty state, asks for its file and for anonymous executable memory, and gives up or
  publishes.\<close>

type_synonym run_state = "yz_file_load_policy list \<times> yz_file_load_policy list \<times> holder_lists"

inductive holders_run :: "temp_state \<Rightarrow> run_state \<Rightarrow> bool" for s0 where
  hr_start: "holders_run s0 ([], [], \<lparr>hl_temp = s0, hl_native = [], hl_module = []\<rparr>)"
| hr_begin: "holders_run s0 (fl, lost, hl) \<Longrightarrow> holders_run s0 (empty_policy # fl, lost, hl)"
| hr_file: "holders_run s0 (fl, lost, hl) \<Longrightarrow> dup_documented env \<Longrightarrow>
    request_fits 3 isid csid False TMPFS_LOAD (hl_temp hl) \<Longrightarrow>
    yz_host_policy_allow_file_current env (Some (isid, csid)) empty_policy (hl_temp hl) = (None, st, s) \<Longrightarrow>
    holders_run s0 (st # fl, lost, hl\<lparr>hl_temp := s\<rparr>)"
| hr_execmem: "holders_run s0 (st # fl, lost, hl) \<Longrightarrow> dup_documented env \<Longrightarrow> 1 \<le> free_rules (ts_rules (hl_temp hl)) \<Longrightarrow>
    yz_host_policy_allow_execmem env (Some csid) st (hl_temp hl) = (ret, st', s) \<Longrightarrow>
    holders_run s0 (st' # fl, lost, hl\<lparr>hl_temp := s\<rparr>)"
| hr_other: "holders_run s0 (fl, lost, hl) \<Longrightarrow> mset fl' = mset fl \<Longrightarrow> holders_run s0 (fl', lost, hl)"
| hr_give_up: "holders_run s0 (st # fl, lost, hl) \<Longrightarrow> dup_documented env \<Longrightarrow>
    holders_run s0 (fl, lost_state env st (hl_temp hl) @ lost,
      hl\<lparr>hl_temp := snd (zp_restore_native_policy_state env st (hl_temp hl))\<rparr>)"
| hr_publish: "holders_run s0 (st # fl, lost, hl) \<Longrightarrow> (\<And>n. dup_documented (env n)) \<Longrightarrow>
    zp_publish_native_policy_state env True tgid st hl = (st', hl') \<Longrightarrow>
    holders_run s0 (fl, (if zp_native_policy_has_additions st
      then lost_entries env (filter (\<lambda>e. pp_tgid e = tgid) (hl_native hl)) (hl_temp hl) else []) @ lost, hl')"
| hr_publish_fails: "holders_run s0 (st # fl, lost, hl) \<Longrightarrow> (\<And>n. dup_documented (env n)) \<Longrightarrow>
    zp_publish_native_policy_state env False tgid st hl = (st', hl') \<Longrightarrow>
    holders_run s0 (fl, lost_state (env 0) st (hl_temp hl) @ lost, hl')"
| hr_timeout: "holders_run s0 (fl, lost, hl) \<Longrightarrow> dup_documented env \<Longrightarrow> i < length (hl_native hl) \<Longrightarrow>
    holders_run s0 (fl, lost_state env (pp_state (hl_native hl ! i)) (hl_temp hl) @ lost, zp_native_policy_timeout env i hl)"
| hr_restore_native: "holders_run s0 (fl, lost, hl) \<Longrightarrow> (\<And>n. dup_documented (env n)) \<Longrightarrow>
    holders_run s0 (fl, lost_entries env (filter (\<lambda>e. pp_tgid e = tgid) (hl_native hl)) (hl_temp hl) @ lost,
      restore_native_entries env tgid hl)"
| hr_restore_module: "holders_run s0 (fl, lost, hl) \<Longrightarrow> (\<And>n. dup_documented (env n)) \<Longrightarrow>
    zp_restore_module_policy env tgid hl = (ret, hl') \<Longrightarrow>
    holders_run s0 (fl, lost_entries env (filter (\<lambda>e. pp_tgid e = tgid) (hl_module hl)) (hl_temp hl) @ lost, hl')"
| hr_module_timeout: "holders_run s0 (fl, lost, hl) \<Longrightarrow> dup_documented env \<Longrightarrow> i < length (hl_module hl) \<Longrightarrow>
    holders_run s0 (fl, lost_state env (pp_state (hl_module hl ! i)) (hl_temp hl) @ lost, zp_module_policy_timeout env i hl)"
| hr_allow_module: "holders_run s0 (fl, lost, hl) \<Longrightarrow> (\<And>n. dup_documented (env n)) \<Longrightarrow> 0 < tgid \<Longrightarrow>
    request_fits 4 isid csid True TMPFS_RECEIVE (hl_temp hl) \<Longrightarrow>
    yz_zygote_probe_allow_module_policy env True tgid (Some isid) (Some csid) hl = (ret, hl') \<Longrightarrow>
    holders_run s0 (fl, allow_module_lost env tgid isid csid hl @ lost, hl')"
| hr_cleanup: "holders_run s0 (fl, lost, hl) \<Longrightarrow> (\<And>n. dup_documented (env n)) \<Longrightarrow>
    holders_run s0 (fl, lost_entries env (hl_module hl) (hl_temp hl) @ lost, zp_cleanup_module_policies env hl)"

definition in_force :: "run_state \<Rightarrow> yz_file_load_policy list" where
  "in_force r = (case r of (fl, lost, hl) \<Rightarrow> fl @ map pp_state (hl_native hl) @ map pp_state (hl_module hl) @ lost)"

definition holders_inv :: "selinux_policy \<Rightarrow> run_state \<Rightarrow> bool" where
  "holders_inv p r \<longleftrightarrow> accounted p (in_force r) (hl_temp (snd (snd r)))"

lemma get_keys_exist:
  "yz_host_policy_allow_file env (Some (isid, csid)) include_dir access st0 s = (None, st, s') \<Longrightarrow>
    \<exists>keys. yz_policy_base_get_file_load_keys isid csid include_dir access (ts_selinux s) = Inr keys"
  by (auto simp: yz_host_policy_allow_file_def split: if_splits sum.splits)

text \<open>A request adds one holder; what it leaves is one place less per key in the table.\<close>

lemma allow_file_room:
  assumes run: "yz_host_policy_allow_file env (Some (isid, csid)) include_dir access st0 s = (None, st, s')"
    and places: "n \<le> free_rules (ts_rules s)"
  shows "lp_process_added_av st = 0 \<and> n - 3 \<le> free_rules (ts_rules s')"
proof -
  obtain keys where keys: "yz_policy_base_get_file_load_keys isid csid include_dir access (ts_selinux s) = Inr keys"
    using get_keys_exist [OF run] by blast
  show ?thesis
  proof (rule allow_file_cases [OF run keys])
    fix fa da ta se
    assume "st = allowed_policy keys fa da ta"
      and "s' = s\<lparr>ts_selinux := se, ts_rules := foldl (\<lambda>rs g. yz_policy_temp_add (fst g) (snd g) rs) (ts_rules s)
        [(fk_file keys, fa), (fk_dir keys, da), (fk_tmpfs keys, ta)]\<rparr>"
    then show ?thesis
      using add_many_free [of "ts_rules s" "[(fk_file keys, fa), (fk_dir keys, da), (fk_tmpfs keys, ta)]"] places
      by (simp add: allowed_policy_def empty_policy_def)
  qed
qed

lemma accounted_file:
  assumes "accounted p sts s" and ok: "policy_ok p" and env: "dup_documented env"
    and fits: "request_fits n isid csid include_dir access s" "3 \<le> n"
    and run: "yz_host_policy_allow_file env (Some (isid, csid)) include_dir access st0 s = (None, st, s')"
  shows "accounted p (st # sts) s' \<and> lp_process_added_av st = 0 \<and> n - 3 \<le> free_rules (ts_rules s')"
proof -
  obtain keys where keys: "yz_policy_base_get_file_load_keys isid csid include_dir access (ts_selinux s) = Inr keys"
    using get_keys_exist [OF run] by blast
  have free: "3 \<le> free_rules (ts_rules s)" "tmpfs_apart keys" using fits keys by (auto simp: request_fits_def)
  have places: "n \<le> free_rules (ts_rules s)" using fits(1) by (simp add: request_fits_def)
  have inv: "temp_inv p (states_grants sts) s" using assms(1) by (simp add: accounted_def)
  have "accounted p (st # sts) s'"
    using allow_file_inv [OF inv ok env free(1) keys _ run] free(2) assms(1) by (auto simp: accounted_def tmpfs_apart_def)
  then show ?thesis using allow_file_room [OF run places] by blast
qed

lemma accounted_execmem:
  assumes "accounted p (st # sts) s" and ok: "policy_ok p" and env: "dup_documented env"
    and room: "1 \<le> free_rules (ts_rules s)"
    and run: "yz_host_policy_allow_execmem env (Some csid) st s = (ret, st', s')"
  shows "accounted p (st' # sts) s'"
proof -
  have inv: "temp_inv p (grants st @ states_grants sts) s" "holder_ok p st"
    using assms(1) by (simp_all add: accounted_def)
  consider (again) "lp_process_added_av st \<noteq> 0" | (fails) e where "ret = Some e"
    | (granted) key required where "lp_process_added_av st = 0" "ret = None"
        "yz_policy_base_get_execmem_key csid (ts_selinux s) = Inr (key, required)"
    using run by (cases ret) (auto simp: yz_host_policy_allow_execmem_def split: if_splits sum.splits)
  then show ?thesis
  proof cases
    case again
    then show ?thesis using allow_execmem_again [OF run] assms(1) by simp
  next
    case fails
    note f = allow_execmem_fails [OF run [unfolded fails], of p]
    have "temp_inv p (states_grants (st # sts)) s = temp_inv p (states_grants (st' # sts)) s"
      by (rule temp_inv_cong) (use f in simp)
    then show ?thesis using f assms(1) by (simp add: accounted_def)
  next
    case granted
    from allow_execmem_inv [OF inv(1) ok inv(2) env room granted(3,1) run [unfolded granted(2)]] assms(1)
    show ?thesis by (simp add: accounted_def)
  qed
qed

lemma accounted_lost_state:
  assumes "accounted p (st # sts) s" and "policy_ok p" and "dup_documented env"
  shows "accounted p (lost_state env st s @ sts) (snd (yz_host_policy_restore env st s))"
  using accounted_restore [OF assms, of "fst (yz_host_policy_restore env st s)" "snd (yz_host_policy_restore env st s)"]
  by (simp add: lost_state_def)

text \<open>Permutations of what is in force.\<close>

lemma accounted_move: "accounted p sts s \<Longrightarrow> mset sts = mset sts' \<Longrightarrow> accounted p sts' s"
  using accounted_perm by blast

lemma filter_split_mset:
  "image_mset f (mset xs) = image_mset f {#x \<in># mset xs. P x#} + image_mset f {#x \<in># mset xs. \<not> P x#}"
  by (metis image_mset_union multiset_partition)

lemma remove_nth_mset: 
  "i < length xs \<Longrightarrow> image_mset f (mset xs) = add_mset (f (xs ! i)) (image_mset f (mset (remove_nth i xs)))"
proof (induction xs arbitrary: i)
  case (Cons x xs)
  then show ?case by (cases i) (simp_all add: remove_nth_def add_mset_commute)
qed simp

lemma empty_additions_accounted:
  "accounted p (st # sts) s \<Longrightarrow> \<not> zp_native_policy_has_additions st \<Longrightarrow> accounted p sts s"
  using no_additions_empty temp_inv_cong [of "states_grants (st # sts)" "states_grants sts" p s]
  by (simp add: accounted_def)

lemma empty_accounted: "accounted p sts s \<Longrightarrow> accounted p (empty_policy # sts) s"
  using no_additions_empty [of empty_policy] temp_inv_cong [of "states_grants (empty_policy # sts)" "states_grants sts" p s]
  by (simp add: accounted_def zp_native_policy_has_additions_def empty_policy_def holder_ok_def)

text \<open>The composed operation of the module directories.\<close>

lemma accounted_hold_module:
  assumes "accounted p (st # map pp_state (hl_module hl) @ sts) (hl_temp hl)" and "policy_ok p" and "dup_documented env"
    and "hold_module_policy env tgid st hl = (ret, hl')"
  shows "accounted p ((if zp_native_policy_has_additions st \<and> list_ex (\<lambda>e. zp_module_policy_same e tgid st) (hl_module hl)
      then lost_state env st (hl_temp hl) else []) @ map pp_state (hl_module hl') @ sts) (hl_temp hl') \<and> hl_native hl' = hl_native hl"
proof (cases "zp_native_policy_has_additions st")
  case False
  then show ?thesis using assms(1,4) empty_additions_accounted by (auto simp: hold_module_policy_def)
next
  case add: True
  show ?thesis
  proof (cases "list_ex (\<lambda>e. zp_module_policy_same e tgid st) (hl_module hl)")
    case True
    then have "hl' = hl\<lparr>hl_temp := snd (yz_host_policy_restore env st (hl_temp hl))\<rparr>"
      using add assms(4) by (auto simp: hold_module_policy_def split: prod.splits)
    then show ?thesis using add True accounted_lost_state [OF assms(1-3)] by simp
  next
    case False
    then have "hl' = hl\<lparr>hl_module := hl_module hl @ [\<lparr>pp_tgid = tgid, pp_state = st\<rparr>]\<rparr>"
      using add assms(4) by (auto simp: hold_module_policy_def)
    then show ?thesis using False accounted_move [OF assms(1)] by simp
  qed
qed

lemma accounted_allow_module:
  assumes "accounted p (map pp_state (hl_module hl) @ sts) (hl_temp hl)" and ok: "policy_ok p"
    and env: "\<And>n. dup_documented (env n)" and "0 < tgid"
    and fits: "request_fits 4 isid csid True TMPFS_RECEIVE (hl_temp hl)"
    and run: "yz_zygote_probe_allow_module_policy env True tgid (Some isid) (Some csid) hl = (ret, hl')"
  shows "accounted p (allow_module_lost env tgid isid csid hl @ map pp_state (hl_module hl') @ sts) (hl_temp hl') \<and>
    hl_native hl' = hl_native hl"
proof -
  obtain r1 st s where 1: "yz_host_policy_allow_file_cred (env 0) (Some (isid, csid)) empty_policy (hl_temp hl) = (r1, st, s)"
    by (metis prod_cases3)
  note asked = 1 [unfolded yz_host_policy_allow_file_cred_def]
  show ?thesis
  proof (cases r1)
    case (Some e)
    then have "s = hl_temp hl" using allow_file_fails asked by blast
    then show ?thesis using run 1 Some assms(1,4) by (auto simp: yz_zygote_probe_allow_module_policy_def allow_module_lost_def)
  next
    case None
    have a: "accounted p (st # map pp_state (hl_module hl) @ sts) s" "1 \<le> free_rules (ts_rules s)"
      using accounted_file [OF assms(1) ok env fits _ asked [unfolded None]] by auto
    obtain r2 st' s' where 2: "yz_host_policy_allow_execmem (env 1) (Some csid) st s = (r2, st', s')" by (metis prod_cases3)
    have b: "accounted p (st' # map pp_state (hl_module hl) @ sts) s'" by (rule accounted_execmem [OF a(1) ok env a(2) 2])
    show ?thesis
    proof (cases r2)
      case (Some e)
      then show ?thesis
        using run 1 2 None assms(4) accounted_lost_state [OF b ok env]
        by (auto simp: yz_zygote_probe_allow_module_policy_def allow_module_lost_def)
    next
      case n: None
      have "hold_module_policy (env 2) tgid st' (hl\<lparr>hl_temp := s'\<rparr>) = (ret, hl')"
        using run 1 2 None n assms(4) by (simp add: yz_zygote_probe_allow_module_policy_def)
      from accounted_hold_module [OF _ ok env this, of sts] b 1 2 None n
      show ?thesis by (auto simp: allow_module_lost_def split: if_splits)
    qed
  qed
qed

lemma restore_native_accounted:
  assumes "accounted p (fl @ map pp_state (hl_native hl) @ sts) (hl_temp hl)" and "policy_ok p" and "\<And>n. dup_documented (env n)"
  shows "accounted p (lost_entries env (filter (\<lambda>e. pp_tgid e = tgid) (hl_native hl)) (hl_temp hl) @ fl @
      map pp_state (filter (\<lambda>e. pp_tgid e \<noteq> tgid) (hl_native hl)) @ sts)
    (restore_entries env (filter (\<lambda>e. pp_tgid e = tgid) (hl_native hl)) (hl_temp hl))"
proof (rule accounted_restore_entries [OF _ assms(2,3)])
  show "accounted p (map pp_state (filter (\<lambda>e. pp_tgid e = tgid) (hl_native hl)) @ fl @
      map pp_state (filter (\<lambda>e. pp_tgid e \<noteq> tgid) (hl_native hl)) @ sts) (hl_temp hl)"
    by (rule accounted_move [OF assms(1)])
      (simp add: filter_split_mset [of pp_state "hl_native hl" "\<lambda>e. pp_tgid e = tgid"])
qed

lemma restore_module_accounted:
  assumes "accounted p (fl @ map pp_state (hl_module hl) @ sts) (hl_temp hl)" and "policy_ok p" and "\<And>n. dup_documented (env n)"
  shows "accounted p (lost_entries env (filter (\<lambda>e. pp_tgid e = tgid) (hl_module hl)) (hl_temp hl) @ fl @
      map pp_state (filter (\<lambda>e. pp_tgid e \<noteq> tgid) (hl_module hl)) @ sts)
    (restore_entries env (filter (\<lambda>e. pp_tgid e = tgid) (hl_module hl)) (hl_temp hl))"
  using restore_native_accounted [of p fl "hl\<lparr>hl_native := hl_module hl\<rparr>"] assms by simp

lemma timeout_accounted:
  assumes "accounted p (fl @ map pp_state es @ sts) s" and "policy_ok p" and "dup_documented env" and "i < length es"
  shows "accounted p (lost_state env (pp_state (es ! i)) s @ fl @ map pp_state (remove_nth i es) @ sts)
    (snd (zp_restore_native_policy_state env (pp_state (es ! i)) s))"
  unfolding restore_state_snd
proof (rule accounted_lost_state [OF _ assms(2,3)])
  show "accounted p (pp_state (es ! i) # fl @ map pp_state (remove_nth i es) @ sts) s"
    by (rule accounted_move [OF assms(1)]) (simp add: remove_nth_mset [OF assms(4), of pp_state])
qed

lemma give_up_inv:
  assumes inv: "holders_inv p (st # fl, lost, hl)" and ok: "policy_ok p" and env: "dup_documented env"
  shows "holders_inv p (fl, lost_state env st (hl_temp hl) @ lost,
    hl\<lparr>hl_temp := snd (zp_restore_native_policy_state env st (hl_temp hl))\<rparr>)"
proof -
  from accounted_lost_state [OF _ ok env] inv
  have "accounted p (lost_state env st (hl_temp hl) @ fl @ map pp_state (hl_native hl) @ map pp_state (hl_module hl) @ lost)
      (snd (yz_host_policy_restore env st (hl_temp hl)))" by (simp add: holders_inv_def in_force_def)
  then show ?thesis
    by (simp add: holders_inv_def in_force_def restore_state_snd) (erule accounted_move, simp)
qed

lemma publish_inv:
  assumes inv: "holders_inv p (st # fl, lost, hl)" and ok: "policy_ok p" and env: "\<And>n. dup_documented (env n)"
    and run: "zp_publish_native_policy_state env True tgid st hl = (st', hl')"
  shows "holders_inv p (fl, (if zp_native_policy_has_additions st
    then lost_entries env (filter (\<lambda>e. pp_tgid e = tgid) (hl_native hl)) (hl_temp hl) else []) @ lost, hl')"
proof -
  show ?thesis
  proof (cases "zp_native_policy_has_additions st")
    case True
    have "accounted p ((st # fl) @ map pp_state (hl_native hl) @ map pp_state (hl_module hl) @ lost) (hl_temp hl)"
      using inv by (simp add: holders_inv_def in_force_def)
    from restore_native_accounted [where env = env and tgid = tgid, OF this ok env] show ?thesis
      using run True
      by (auto simp: holders_inv_def in_force_def zp_publish_native_policy_state_def elim!: accounted_move)
  next
    case False
    then show ?thesis
      using run inv empty_additions_accounted
      by (auto simp: holders_inv_def in_force_def zp_publish_native_policy_state_def)
  qed
qed

lemma publish_fails_inv:
  assumes inv: "holders_inv p (st # fl, lost, hl)" and ok: "policy_ok p" and env: "\<And>n. dup_documented (env n)"
    and run: "zp_publish_native_policy_state env False tgid st hl = (st', hl')"
  shows "holders_inv p (fl, lost_state (env 0) st (hl_temp hl) @ lost, hl')"
proof -
  have "accounted p (lost_state (env 0) st (hl_temp hl) @ fl @ map pp_state (hl_native hl) @ map pp_state (hl_module hl) @ lost)
      (snd (yz_host_policy_restore (env 0) st (hl_temp hl)))"
    using accounted_lost_state [OF _ ok env] inv
    by (simp add: holders_inv_def in_force_def)
  moreover have "hl' = hl\<lparr>hl_temp := snd (yz_host_policy_restore (env 0) st (hl_temp hl))\<rparr>"
    using run
    by (auto simp: zp_publish_native_policy_state_def restore_nothing zp_restore_native_policy_state_def split: if_splits)
  ultimately show ?thesis by (simp add: holders_inv_def in_force_def) (erule accounted_move, simp)
qed

lemma timeout_inv:
  assumes inv: "holders_inv p (fl, lost, hl)" and ok: "policy_ok p" and env: "dup_documented env" and i: "i < length (hl_native hl)"
  shows "holders_inv p (fl, lost_state env (pp_state (hl_native hl ! i)) (hl_temp hl) @ lost, zp_native_policy_timeout env i hl)"
proof -
  have acc: "accounted p (fl @ map pp_state (hl_native hl) @ map pp_state (hl_module hl) @ lost) (hl_temp hl)"
    using inv by (simp add: holders_inv_def in_force_def)
  from timeout_accounted [OF acc ok env i]
  show ?thesis by (auto simp: holders_inv_def in_force_def zp_native_policy_timeout_def elim!: accounted_move)
qed

lemma restore_native_inv:
  assumes inv: "holders_inv p (fl, lost, hl)" and ok: "policy_ok p" and env: "\<And>n. dup_documented (env n)"
  shows "holders_inv p (fl, lost_entries env (filter (\<lambda>e. pp_tgid e = tgid) (hl_native hl)) (hl_temp hl) @ lost,
    restore_native_entries env tgid hl)"
proof -
  have acc: "accounted p (fl @ map pp_state (hl_native hl) @ map pp_state (hl_module hl) @ lost) (hl_temp hl)"
    using inv by (simp add: holders_inv_def in_force_def)
  from restore_native_accounted [where env = env and tgid = tgid, OF acc ok env]
  show ?thesis by (auto simp: holders_inv_def in_force_def restore_native_entries_def elim!: accounted_move)
qed

lemma restore_module_inv:
  assumes inv: "holders_inv p (fl, lost, hl)" and ok: "policy_ok p" and env: "\<And>n. dup_documented (env n)"
    and run: "zp_restore_module_policy env tgid hl = (ret, hl')"
  shows "holders_inv p (fl, lost_entries env (filter (\<lambda>e. pp_tgid e = tgid) (hl_module hl)) (hl_temp hl) @ lost, hl')"
proof -
  have "hl' = hl\<lparr>hl_module := filter (\<lambda>e. pp_tgid e \<noteq> tgid) (hl_module hl),
      hl_temp := restore_entries env (filter (\<lambda>e. pp_tgid e = tgid) (hl_module hl)) (hl_temp hl)\<rparr>"
    using run restore_modules_entries [of env "filter (\<lambda>e. pp_tgid e = tgid) (hl_module hl)" None "hl_temp hl"]
    by (auto simp: zp_restore_module_policy_def split: prod.splits)
  moreover have acc: "accounted p ((fl @ map pp_state (hl_native hl)) @ map pp_state (hl_module hl) @ lost) (hl_temp hl)"
    using inv by (simp add: holders_inv_def in_force_def)
  note restore_module_accounted [where env = env and tgid = tgid, OF acc ok env]
  ultimately show ?thesis by (auto simp: holders_inv_def in_force_def elim!: accounted_move)
qed

lemma module_timeout_inv:
  assumes inv: "holders_inv p (fl, lost, hl)" and ok: "policy_ok p" and env: "dup_documented env" and i: "i < length (hl_module hl)"
  shows "holders_inv p (fl, lost_state env (pp_state (hl_module hl ! i)) (hl_temp hl) @ lost, zp_module_policy_timeout env i hl)"
proof -
  have acc: "accounted p ((fl @ map pp_state (hl_native hl)) @ map pp_state (hl_module hl) @ lost) (hl_temp hl)"
    using inv by (simp add: holders_inv_def in_force_def)
  from timeout_accounted [OF acc ok env i]
  show ?thesis by (auto simp: holders_inv_def in_force_def zp_module_policy_timeout_def elim!: accounted_move)
qed

lemma allow_module_inv:
  assumes inv: "holders_inv p (fl, lost, hl)" and ok: "policy_ok p" and env: "\<And>n. dup_documented (env n)" and tgid: "0 < tgid"
    and fits: "request_fits 4 isid csid True TMPFS_RECEIVE (hl_temp hl)"
    and run: "yz_zygote_probe_allow_module_policy env True tgid (Some isid) (Some csid) hl = (ret, hl')"
  shows "holders_inv p (fl, allow_module_lost env tgid isid csid hl @ lost, hl')"
proof -
  have "accounted p (map pp_state (hl_module hl) @ fl @ map pp_state (hl_native hl) @ lost) (hl_temp hl)"
    using inv by (auto simp: holders_inv_def in_force_def elim!: accounted_move)
  from accounted_allow_module [where env = env, OF this ok env tgid fits run]
  show ?thesis by (auto simp: holders_inv_def in_force_def elim!: accounted_move)
qed

lemma cleanup_inv:
  assumes inv: "holders_inv p (fl, lost, hl)" and ok: "policy_ok p" and env: "\<And>n. dup_documented (env n)"
  shows "holders_inv p (fl, lost_entries env (hl_module hl) (hl_temp hl) @ lost, zp_cleanup_module_policies env hl)"
proof -
  have "accounted p (map pp_state (hl_module hl) @ fl @ map pp_state (hl_native hl) @ lost) (hl_temp hl)"
    using inv by (auto simp: holders_inv_def in_force_def elim!: accounted_move)
  from accounted_restore_entries [where env = env, OF this ok env]
  show ?thesis by (auto simp: holders_inv_def in_force_def zp_cleanup_module_policies_def elim!: accounted_move)
qed

lemma holders_run_inv:
  assumes "holders_run s0 r" and "temp_inv p [] s0" and ok: "policy_ok p"
  shows "holders_inv p r"
  using assms(1)
proof (induction rule: holders_run.induct)
  case hr_start
  show ?case using assms(2) by (simp add: holders_inv_def in_force_def accounted_def)
next
  case (hr_begin fl lost hl)
  then show ?case using empty_accounted by (simp add: holders_inv_def in_force_def)
next
  case (hr_file fl lost hl env isid csid st s)
  from accounted_file [OF _ ok hr_file.hyps(2,3) _ hr_file.hyps(4) [unfolded yz_host_policy_allow_file_current_def]] hr_file.IH
  show ?case by (simp add: holders_inv_def in_force_def)
next
  case (hr_execmem st fl lost hl env csid ret st' s)
  from accounted_execmem [OF _ ok hr_execmem.hyps(2,3,4)] hr_execmem.IH
  show ?case by (simp add: holders_inv_def in_force_def)
next
  case (hr_other fl lost hl fl')
  from accounted_perm [of "in_force (fl', lost, hl)" "in_force (fl, lost, hl)"] hr_other
  show ?case by (simp add: holders_inv_def in_force_def)
next
  case (hr_give_up st fl lost hl env)
  show ?case by (rule give_up_inv [OF hr_give_up.IH ok hr_give_up.hyps(2)])
next
  case (hr_publish st fl lost hl env tgid st' hl')
  show ?case by (rule publish_inv [OF hr_publish.IH ok hr_publish.hyps(2,3)])
next
  case (hr_publish_fails st fl lost hl env tgid st' hl')
  show ?case by (rule publish_fails_inv [OF hr_publish_fails.IH ok hr_publish_fails.hyps(2,3)])
next
  case (hr_timeout fl lost hl env i)
  show ?case by (rule timeout_inv [OF hr_timeout.IH ok hr_timeout.hyps(2,3)])
next
  case (hr_restore_native fl lost hl env tgid)
  show ?case by (rule restore_native_inv [OF hr_restore_native.IH ok hr_restore_native.hyps(2)])
next
  case (hr_restore_module fl lost hl env tgid ret hl')
  show ?case by (rule restore_module_inv [OF hr_restore_module.IH ok hr_restore_module.hyps(2,3)])
next
  case (hr_module_timeout fl lost hl env i)
  show ?case by (rule module_timeout_inv [OF hr_module_timeout.IH ok hr_module_timeout.hyps(2,3)])
next
  case (hr_allow_module fl lost hl env tgid isid csid ret hl')
  show ?case by (rule allow_module_inv [OF hr_allow_module.IH ok hr_allow_module.hyps(2-5)])
next
  case (hr_cleanup fl lost hl env)
  show ?case by (rule cleanup_inv [OF hr_cleanup.IH ok hr_cleanup.hyps(2)])
qed


section \<open>Staging several files\<close>

text \<open>The state a caller passes to a request is overwritten, so a caller that stages two files with one
  state, as the injection of native modules at boot does with the loader and each module, forgets what
  it was granted for the first: restoring the state leaves these permissions in the policy, with their
  counts, and no state is left to remove them.\<close>

lemma second_file_forgets_first:
  assumes "se_policy (ts_selinux s0) = Some p" and "policy_ok p"
    and "dup_documented env1" and "dup_documented env2" and "dup_documented env3"
    and "request_fits 6 isid1 csid False TMPFS_LOAD (yz_policy_temp_reset s0)"
    and "yz_host_policy_allow_file_current env1 (Some (isid1, csid)) empty_policy (yz_policy_temp_reset s0) = (None, st1, s1)"
    and "request_fits 3 isid2 csid False TMPFS_LOAD s1"
    and "yz_host_policy_allow_file_current env2 (Some (isid2, csid)) st1 s1 = (None, st2, s2)"
    and "zp_restore_native_policy_state env3 st2 s2 = (st3, s3)" and "fst (yz_host_policy_restore env3 st2 s2) = None"
    and "0 < held (grants st1) k i"
  shows "\<not> allowed (sp_db p) k i \<and> allowed (policy_of (ts_selinux s3)) k i \<and> 0 < refs_of (ts_rules s3) k i \<and>
    \<not> zp_native_policy_has_additions st3"
proof -
  have "accounted p [] (yz_policy_temp_reset s0)" using initial_temp_inv [OF assms(1)] by (simp add: accounted_def)
  from accounted_file [OF this assms(2,3,6) _ assms(7) [unfolded yz_host_policy_allow_file_current_def]]
  have "accounted p [st1] s1" by simp
  from accounted_file [OF this assms(2,4,8) _ assms(9) [unfolded yz_host_policy_allow_file_current_def]]
  have "accounted p [st2, st1] s2" by simp
  from accounted_lost_state [OF this assms(2,5)]
  have inv: "temp_inv p (grants st1) s3"
    using assms(10,11) restore_state_snd [of env3 st2 s2] by (simp add: accounted_def lost_state_def)
  moreover have "\<not> zp_native_policy_has_additions st3"
    using assms(10) by (auto simp: zp_restore_native_policy_state_def zp_native_policy_has_additions_def empty_policy_def split: if_splits)
  ultimately show ?thesis
    using assms(12) held_bit [OF assms(12)] by (auto simp: temp_inv_def policy_of_def)
qed

section \<open>A sample injection\<close>

definition sample_load_keys :: yz_policy_file_load_keys where
  "sample_load_keys = \<lparr>fk_file = sample_key 2 1, fk_dir = zero_key, fk_tmpfs = sample_key 3 1,
     fk_file_required_av = 31, fk_dir_required_av = 0, fk_tmpfs_required_av = 63\<rparr>"

lemma sample_load: "yz_policy_base_get_file_load_keys (Some 20) 10 False TMPFS_LOAD (ts_selinux sample_state) = Inr sample_load_keys"
  by (simp add: sample_load_keys_def yz_policy_base_get_file_load_keys_def sample_state_def sample_policy_def sample_db_def
      yz_policy_sidtab_search_def class_by_name_def sample_class_def with_dir_key_def with_tmpfs_key_def
      add_file_key_def add_tmpfs_key_def no_keys_def tmpfs_perms_def yz_policy_type_value_by_name_def sample_key_def
      yz_policy_required_av_def file_load_perms_def tmpfs_load_perms_def yz_policy_perm_mask_def find_perm_def)

lemma sample_fits: "n \<le> 64 \<Longrightarrow> request_fits n (Some 20) 10 False TMPFS_LOAD sample_state"
  by (simp add: request_fits_def sample_load) (simp add: sample_state_def empty_rules tmpfs_apart_def sample_load_keys_def sample_key_def)

lemma sample_injection:
  obtains db rs where "same_symbols sample_db db"
    and "yz_host_policy_allow_file_current (sample_env sample_db) (Some (Some 20, 10)) st0 sample_state =
      (None, allowed_policy sample_load_keys 31 0 63,
       sample_state\<lparr>ts_selinux := (ts_selinux sample_state)\<lparr>se_policy := Some (sample_policy\<lparr>sp_db := db\<rparr>)\<rparr>, ts_rules := rs\<rparr>)"
  using sample_allow [OF sample_load, of st0] sample_keys_known
  by (auto simp: sample_load_keys_def yz_host_policy_allow_file_current_def)

lemma sample_holds: "0 < held (grants (allowed_policy sample_load_keys 31 0 63)) (sample_key 2 1) 4"
  by (simp add: grants_def allowed_policy_def empty_policy_def file_key_def sample_load_keys_def sample_key_def)


lemma sample_known: "same_symbols sample_db db \<Longrightarrow> known_key db (sample_key 2 1) \<and> known_key db (sample_key 3 1)"
  using sample_keys_known known_key_same by simp

text \<open>After a first request of the sample there is room for a second one like it.\<close>

lemma sample_second:
  assumes "same_symbols sample_db db" and acc: "accounted sample_policy [allowed_policy sample_load_keys 31 0 63] s"
    and s: "s = sample_state\<lparr>ts_selinux := (ts_selinux sample_state)\<lparr>se_policy := Some (sample_policy\<lparr>sp_db := db\<rparr>)\<rparr>, ts_rules := rs\<rparr>"
    and free: "3 \<le> free_rules (ts_rules s)"
  shows "request_fits 3 (Some 20) 10 False TMPFS_LOAD s \<and>
    (\<exists>st s'. yz_host_policy_allow_file_current (sample_env db) (Some (Some 20, 10)) st0 s = (None, st, s'))"
proof -
  have keys: "yz_policy_base_get_file_load_keys (Some 20) 10 False TMPFS_LOAD (ts_selinux s) = Inr sample_load_keys"
    using keys_same [of "ts_selinux sample_state" sample_policy "ts_selinux s" db] assms(1) sample_load
    by (simp add: s sample_state_def sample_policy_def)
  have "refs_of (ts_rules s) k i < 0xFFFF" if "i < 32" for k i
  proof -
    have "refs_of (ts_rules s) k i = held (grants (allowed_policy sample_load_keys 31 0 63)) k i"
      using acc that by (simp add: accounted_def temp_inv_def)
    also have "\<dots> \<le> 1" by (rule holder_grants_once [OF sample_policy_ok]) (use acc in \<open>simp add: accounted_def\<close>)
    finally show ?thesis by simp
  qed
  note small = this
  have "\<exists>st s'. yz_host_policy_allow_file (sample_env (sp_db (sample_policy\<lparr>sp_db := db\<rparr>))) (Some (Some 20, 10)) False TMPFS_LOAD st0 s = (None, st, s')"
    by (rule allow_succeeds [OF _ _ _ keys _ _ small])
      (use free sample_known [OF assms(1)] in \<open>simp_all add: s sample_state_def sample_load_keys_def\<close>)
  then show ?thesis
    using free keys by (simp add: yz_host_policy_allow_file_current_def request_fits_def tmpfs_apart_def sample_load_keys_def sample_key_def)
qed

lemma allow_keeps_flags:
  assumes "yz_host_policy_allow_file env (Some (isid, csid)) include_dir access st0 s = (None, st, s')"
  shows "se_ready (ts_selinux s') = se_ready (ts_selinux s) \<and> se_initialized (ts_selinux s') = se_initialized (ts_selinux s)"
proof -
  obtain keys where "yz_policy_base_get_file_load_keys isid csid include_dir access (ts_selinux s) = Inr keys"
    using get_keys_exist [OF assms] by blast
  then show ?thesis
    by (rule allow_file_cases [OF assms]) (auto simp: commit_keys_def yz_policy_commit_edit_def split: if_splits sum.splits)
qed

lemma grants_known:
  assumes "yz_host_policy_allow_file_current env (Some (Some 20, 10)) st0 s = (None, st, s')"
    and "yz_policy_base_get_file_load_keys (Some 20) 10 False TMPFS_LOAD (ts_selinux s) = Inr sample_load_keys"
    and "same_symbols sample_db db" and "g \<in> set (grants st)" and "snd g \<noteq> 0"
  shows "known_key db (fst g)"
proof (rule allow_file_cases [OF assms(1) [unfolded yz_host_policy_allow_file_current_def] assms(2)])
  fix fa da dc ta
  assume "plan_optional (fk_dir sample_load_keys) (fk_dir_required_av sample_load_keys) s = Inr (da, dc)"
    and st: "st = allowed_policy sample_load_keys fa da ta"
  then have "da = 0" by (simp add: plan_optional_def sample_load_keys_def)
  then have "grants st = [(sample_key 2 1, fa), (dir_key st, 0), (sample_key 3 1, ta), (process_key st, 0)]"
    by (simp add: st grants_def allowed_policy_def empty_policy_def file_key_def tmpfs_key_def sample_load_keys_def sample_key_def)
  then show ?thesis using assms(4,5) sample_known [OF assms(3)] by auto
qed

end
