(* ===== verification/Native_Staging.thy ===== *)
theory Native_Staging
  imports Early_Native Policy_Holders
begin

text \<open>
  Staging files in a process that is about to run: \<^verbatim>\<open>zp_stage_fd\<close> copies a file into a memory file and
  gives the process a descriptor for it, and \<^verbatim>\<open>zp_stage_early_native_packet\<close> does so for all modules of a
  target and stages a packet that names them.  The readers of the packet are \<^verbatim>\<open>load_early_modules\<close> of the
  native core (\<^verbatim>\<open>core/src/yukizncore.cpp\<close>) and \<^verbatim>\<open>close_early_packet\<close> of the loader
  (\<^verbatim>\<open>core/src/yukilinker.cpp\<close>).

  What the kernel's functions answer while one file is staged is a record; descriptors are given out
  lowest first.  Errors are the negative numbers of the code.
\<close>

section \<open>The process and the kernel\<close>

text \<open>The open descriptors with the contents of their files; the file policy state of the injection, and
  the SELinux state behind it.\<close>

type_synonym fd_table = "int \<Rightarrow> u8 list option"

record staging =
  sg_fds :: fd_table
  sg_load :: yz_file_load_policy
  sg_temp :: temp_state

abbreviation (input) E_NOENT :: int where "E_NOENT \<equiv> - 2"
abbreviation (input) E_IO :: int where "E_IO \<equiv> - 5"
abbreviation (input) E_NOMEM :: int where "E_NOMEM \<equiv> - 12"
abbreviation (input) E_INVAL :: int where "E_INVAL \<equiv> - 22"
abbreviation (input) E_MFILE :: int where "E_MFILE \<equiv> - 24"

text \<open>The file that is opened (or an error), whether it is a regular one, its content, the request it
  stands for in the policy, and the answers of the other calls; \<open>sa_fd\<close> is an error or the number of
  descriptors the process may have.\<close>

record stage_answers =
  sa_open_error :: int
  sa_regular :: bool
  sa_content :: "u8 list"
  sa_alloc :: bool
  sa_read :: int
  sa_request :: "u32 option \<times> u32"
  sa_env :: "nat \<Rightarrow> edit_env"
  sa_shmem :: int
  sa_write :: int
  sa_fd :: "int + nat"

definition get_unused_fd :: "int + nat \<Rightarrow> fd_table \<Rightarrow> int" where
  "get_unused_fd answer fds =
     (case answer of
        Inl e \<Rightarrow> e
      | Inr limit \<Rightarrow> (case find (\<lambda>i. fds (int i) = None) [0..<limit] of None \<Rightarrow> E_MFILE | Some i \<Rightarrow> int i))"

definition zp_close_current_fd :: "int \<Rightarrow> staging \<Rightarrow> staging" where
  "zp_close_current_fd fd s = s\<lparr>sg_fds := (sg_fds s)(fd := None)\<rparr>"

definition fd_install :: "int \<Rightarrow> u8 list \<Rightarrow> staging \<Rightarrow> staging" where
  "fd_install fd bs s = s\<lparr>sg_fds := (sg_fds s)(fd \<mapsto> bs)\<rparr>"

definition restore_staging :: "edit_env \<Rightarrow> staging \<Rightarrow> staging" where
  "restore_staging env s =
     (case zp_restore_native_policy_state env (sg_load s) (sg_temp s) of
        (st, t) \<Rightarrow> s\<lparr>sg_load := st, sg_temp := t\<rparr>)"

section \<open>Staging one file\<close>

definition allow_staged :: "bool \<Rightarrow> stage_answers \<Rightarrow> staging \<Rightarrow> staging" where
  "allow_staged with_policy a s =
     (if \<not> with_policy then s
      else case yz_host_policy_allow_file_current (sa_env a 0) (Some (sa_request a)) (sg_load s) (sg_temp s) of
        (ret, st, t) \<Rightarrow> s\<lparr>sg_load := st, sg_temp := t\<rparr>)"

definition undo_staged :: "bool \<Rightarrow> stage_answers \<Rightarrow> staging \<Rightarrow> staging" where
  "undo_staged with_policy a s = (if with_policy then restore_staging (sa_env a 1) s else s)"

definition staged_error :: "int \<Rightarrow> int" where
  "staged_error r = (if r < 0 then r else E_IO)"

definition LOADER_MAX_SZ :: nat where "LOADER_MAX_SZ = 8 * 2 ^ 20"

definition zp_stage_fd :: "stage_answers \<Rightarrow> bool \<Rightarrow> staging \<Rightarrow> int \<times> staging" where
  "zp_stage_fd a with_policy s0 =
     (let sz = length (sa_content a) in
      if sa_open_error a < 0 then (E_NOENT, s0)
      else if \<not> sa_regular a then (E_INVAL, s0)
      else if sz = 0 \<or> LOADER_MAX_SZ < sz then (E_INVAL, s0)
      else if \<not> sa_alloc a then (E_NOMEM, s0)
      else if sa_read a \<noteq> int sz then (staged_error (sa_read a), s0)
      else
        let s = allow_staged with_policy a s0 in
        if sa_shmem a < 0 then (sa_shmem a, undo_staged with_policy a s)
        else if sa_write a \<noteq> int sz then (staged_error (sa_write a), undo_staged with_policy a s)
        else
          let fd = get_unused_fd (sa_fd a) (sg_fds s) in
          if fd < 0 then (fd, undo_staged with_policy a s)
          else (fd, fd_install fd (sa_content a) s))"

definition zp_stage_file_fd :: "stage_answers \<Rightarrow> bool \<Rightarrow> staging \<Rightarrow> int \<times> staging" where
  "zp_stage_file_fd a with_policy s0 =
     (let sz = length (sa_content a) in
      if sa_open_error a < 0 then (sa_open_error a, s0)
      else if \<not> sa_regular a then (E_INVAL, s0)
      else if sz = 0 \<or> LOADER_MAX_SZ < sz then (E_INVAL, s0)
      else
        let s = allow_staged with_policy a s0;
            fd = get_unused_fd (sa_fd a) (sg_fds s) in
        if fd < 0 then (fd, undo_staged with_policy a s)
        else (fd, fd_install fd (sa_content a) s))"

section \<open>The packet\<close>

record zp_early_packet_state =
  ep_packet_fd :: int
  ep_module_fds :: "int list"

definition zp_early_packet_state_init :: zp_early_packet_state where
  "zp_early_packet_state_init = \<lparr>ep_packet_fd = - 1, ep_module_fds = []\<rparr>"

text \<open>Nothing happens for a negative descriptor.\<close>

definition close_if_open :: "int \<Rightarrow> staging \<Rightarrow> staging" where
  "close_if_open fd s = (if 0 \<le> fd then zp_close_current_fd fd s else s)"

definition zp_close_early_packet_state :: "zp_early_packet_state \<Rightarrow> staging \<Rightarrow> zp_early_packet_state \<times> staging" where
  "zp_close_early_packet_state st s =
     (zp_early_packet_state_init, foldl (\<lambda>s fd. close_if_open fd s) (close_if_open (ep_packet_fd st) s) (ep_module_fds st))"

record packet_answers =
  pa_alloc_matches :: bool
  pa_alloc_packet :: bool
  pa_module :: "nat \<Rightarrow> stage_answers"
  pa_shmem :: int
  pa_write :: int
  pa_fd :: "int + nat"

definition zp_install_packet_fd :: "packet_answers \<Rightarrow> u8 list \<Rightarrow> staging \<Rightarrow> int \<times> staging" where
  "zp_install_packet_fd a bs s =
     (if pa_shmem a < 0 then (pa_shmem a, s)
      else if pa_write a \<noteq> int (length bs) then (staged_error (pa_write a), s)
      else let fd = get_unused_fd (pa_fd a) (sg_fds s) in
        if fd < 0 then (fd, s) else (fd, fd_install fd bs s))"

definition early_matches :: "u8 \<Rightarrow> string \<Rightarrow> bool \<Rightarrow> u8 list list \<Rightarrow> u8 list list" where
  "early_matches target_type target compat_abi es =
     filter (\<lambda>e. ee_target_type e = target_type \<and> ee_target e = target \<and>
       (if compat_abi then ee_flags e AND ENTRY_ABI32 \<noteq> 0 else ee_flags e AND ENTRY_ABI64 \<noteq> 0)) es"

text \<open>The loop that stages the modules, with the number of the next one: the entries with their descriptors.\<close>

fun stage_modules :: "(nat \<Rightarrow> stage_answers) \<Rightarrow> nat \<Rightarrow> u8 list list \<Rightarrow> staging \<Rightarrow> (u8 list \<times> int) list \<times> staging" where
  "stage_modules answers i [] s = ([], s)"
| "stage_modules answers i (e # es) s =
     (case zp_stage_fd (answers i) True s of
        (fd, s') \<Rightarrow>
          (case stage_modules answers (Suc i) es s' of
             (staged, s'') \<Rightarrow> (if fd < 0 then staged else (e, fd) # staged, s'')))"

definition packet_header :: "nat \<Rightarrow> u8 list" where
  "packet_header n = le32 0x59504e5a @ le16 2 @ le16 16 @ le16 844 @ [0, 0] @ le32 (of_nat n)"

definition packet_entry :: "u8 list \<times> int \<Rightarrow> u8 list" where
  "packet_entry ef = fst ef @ le32 (of_int (snd ef)) @ le32 0"

definition packet_bytes :: "(u8 list \<times> int) list \<Rightarrow> u8 list" where
  "packet_bytes efs = packet_header (length efs) @ concat (map packet_entry efs)"

definition zp_stage_early_native_packet ::
  "packet_answers \<Rightarrow> early_native \<Rightarrow> u8 \<Rightarrow> string option \<Rightarrow> bool \<Rightarrow> staging \<Rightarrow> int \<times> zp_early_packet_state \<times> staging" where
  "zp_stage_early_native_packet a loaded target_type target compat_abi s0 =
     (let st0 = zp_early_packet_state_init in
      case target of
        None \<Rightarrow> (E_INVAL, st0, s0)
      | Some t \<Rightarrow>
          if \<not> pa_alloc_matches a then (E_NOMEM, st0, s0)
          else if \<not> en_enabled loaded then (E_NOENT, st0, s0)
          else
            let matches = early_matches target_type t compat_abi (en_entries loaded) in
            if matches = [] then (E_NOENT, st0, s0)
            else if \<not> pa_alloc_packet a then (E_NOMEM, st0, s0)
            else case stage_modules (pa_module a) 0 matches s0 of
              (staged, s) \<Rightarrow>
                (let st = st0\<lparr>ep_module_fds := map snd staged\<rparr> in
                 if staged = [] then (case zp_close_early_packet_state st s of (st', s') \<Rightarrow> (E_NOENT, st', s'))
                 else case zp_install_packet_fd a (packet_bytes staged) s of
                   (ret, s') \<Rightarrow>
                     if ret < 0 then (case zp_close_early_packet_state st s' of (st', s'') \<Rightarrow> (ret, st', s''))
                     else (0, st\<lparr>ep_packet_fd := ret\<rparr>, s')))"

section \<open>The readers\<close>

text \<open>The bytes of a memory file, read from its start.\<close>

record yz_early_native_packet_header =
  ph_packet_magic :: u32
  ph_packet_version :: u16
  ph_packet_header_size :: u16
  ph_packet_entry_size :: u16
  ph_packet_count :: u32

definition read_packet_header :: "u8 list \<Rightarrow> yz_early_native_packet_header" where
  "read_packet_header bs = \<lparr>ph_packet_magic = get32 bs 0, ph_packet_version = get16 bs 4,
     ph_packet_header_size = get16 bs 6, ph_packet_entry_size = get16 bs 8, ph_packet_count = get32 bs 12\<rparr>"

definition packet_header_ok :: "yz_early_native_packet_header \<Rightarrow> bool" where
  "packet_header_ok h \<longleftrightarrow>
     ph_packet_magic h = 0x59504e5a \<and> ph_packet_version h = SNAPSHOT_VERSION \<and> ph_packet_header_size h = 16 \<and>
     ph_packet_entry_size h = 844 \<and> \<not> of_nat TARGET_MAX < ph_packet_count h"

text \<open>The count of entries, if the header is there and right, and the bytes behind it.\<close>

definition open_packet :: "u8 list \<Rightarrow> (nat \<times> u8 list) option" where
  "open_packet bs =
     (if length bs < 16 then None
      else let h = read_packet_header bs in
        if packet_header_ok h then Some (unat (ph_packet_count h), drop 16 bs) else None)"

text \<open>The entries of a packet, up to the first one that is cut off: the module and the descriptor.\<close>

fun packet_entries :: "nat \<Rightarrow> u8 list \<Rightarrow> (u8 list \<times> int) list" where
  "packet_entries 0 bs = []"
| "packet_entries (Suc n) bs =
     (if length bs < 844 then []
      else (take 836 bs, sint (get32 bs 836)) # packet_entries n (drop 844 bs))"

text \<open>The loop over the entries that closes their descriptors; it ends at the first entry that is cut off,
  or when the packet itself was closed.\<close>

fun close_entries :: "int \<Rightarrow> nat \<Rightarrow> nat \<Rightarrow> fd_table \<Rightarrow> fd_table" where
  "close_entries packet_fd 0 pos fds = fds"
| "close_entries packet_fd (Suc n) pos fds =
     (case fds packet_fd of
        None \<Rightarrow> fds
      | Some bs \<Rightarrow>
          if length bs < pos + 844 then fds
          else let fd = sint (get32 bs (pos + 836))
            in close_entries packet_fd n (pos + 844) (if 0 \<le> fd then fds(fd := None) else fds))"

definition close_early_packet :: "int \<Rightarrow> fd_table \<Rightarrow> fd_table" where
  "close_early_packet packet_fd fds =
     (if packet_fd < 0 then fds
      else (case fds packet_fd of
          None \<Rightarrow> fds
        | Some bs \<Rightarrow>
            (case open_packet bs of
               None \<Rightarrow> fds
             | Some (n, rest) \<Rightarrow> close_entries packet_fd n 16 fds))(packet_fd := None))"

section \<open>Descriptors\<close>

text \<open>A negative error, or a limit that descriptors keep.\<close>

definition answer_ok :: "int + nat \<Rightarrow> bool" where
  "answer_ok answer = (case answer of Inl e \<Rightarrow> e < 0 | Inr limit \<Rightarrow> limit \<le> 2 ^ 31)"

lemma get_unused_fd_fresh:
  assumes "answer_ok answer" "0 \<le> get_unused_fd answer fds"
  shows "fds (get_unused_fd answer fds) = None" "get_unused_fd answer fds < 2 ^ 31"
proof -
  obtain limit i where "answer = Inr limit" "find (\<lambda>i. fds (int i) = None) [0..<limit] = Some i" "get_unused_fd answer fds = int i"
    using assms by (auto simp: get_unused_fd_def answer_ok_def split: sum.splits option.splits)
  then show "fds (get_unused_fd answer fds) = None" "get_unused_fd answer fds < 2 ^ 31"
    using assms(1) by (auto simp: find_Some_iff answer_ok_def)
qed

lemma staged_fds [simp]:
  "sg_fds (allow_staged w a s) = sg_fds s" "sg_fds (undo_staged w a s) = sg_fds s" "sg_fds (restore_staging env s) = sg_fds s"
  by (simp_all add: allow_staged_def undo_staged_def restore_staging_def split: prod.split)

text \<open>Staging a file opens one fresh descriptor for its content, or none.\<close>

lemma stage_fd_cases:
  assumes "zp_stage_fd a w s = (fd, s')" "answer_ok (sa_fd a)"
  shows "fd < 0 \<and> sg_fds s' = sg_fds s \<or>
    0 \<le> fd \<and> fd < 2 ^ 31 \<and> sg_fds s fd = None \<and> sg_fds s' = (sg_fds s)(fd \<mapsto> sa_content a)"
  using assms(1) get_unused_fd_fresh [OF assms(2), of "sg_fds s"]
  by (auto simp: zp_stage_fd_def Let_def fd_install_def staged_error_def split: if_splits)

lemma install_packet_cases:
  assumes "zp_install_packet_fd a bs s = (fd, s')" "answer_ok (pa_fd a)"
  shows "fd < 0 \<and> s' = s \<or>
    0 \<le> fd \<and> fd < 2 ^ 31 \<and> sg_fds s fd = None \<and> s' = fd_install fd bs s"
  using assms(1) get_unused_fd_fresh [OF assms(2), of "sg_fds s"]
  by (auto simp: zp_install_packet_fd_def Let_def staged_error_def split: if_splits)

text \<open>The modules that were staged, by their places in the list, with the contents behind the descriptors.\<close>

definition staged_ok :: "(nat \<Rightarrow> stage_answers) \<Rightarrow> u8 list list \<Rightarrow> nat list \<Rightarrow> (u8 list \<times> int) list \<Rightarrow> fd_table \<Rightarrow> fd_table \<Rightarrow> bool" where
  "staged_ok answers es places staged fds fds' \<longleftrightarrow>
     sorted_wrt (<) places \<and> set places \<subseteq> {..<length es} \<and> map fst staged = map ((!) es) places \<and>
     distinct (map snd staged) \<and> (\<forall>fd \<in> snd ` set staged. 0 \<le> fd \<and> fd < 2 ^ 31 \<and> fds fd = None) \<and>
     fds' = fds ++ map_of (zip (map snd staged) (map (\<lambda>k. sa_content (answers k)) places))"

lemma staged_ok_skip:
  assumes "staged_ok (\<lambda>k. answers (Suc k)) es places staged fds fds'"
  shows "staged_ok answers (e # es) (map Suc places) staged fds fds'"
  using assms by (auto simp: staged_ok_def sorted_wrt_map comp_def)

lemma staged_ok_add:
  assumes "staged_ok (\<lambda>k. answers (Suc k)) es places staged (fds(fd \<mapsto> sa_content (answers 0))) fds'"
    and "0 \<le> fd" "fd < 2 ^ 31" "fds fd = None"
  shows "staged_ok answers (e # es) (0 # map Suc places) ((e, fd) # staged) fds fds'"
proof -
  have new: "fd \<notin> snd ` set staged" using assms(1) by (auto simp: staged_ok_def)
  have len: "length staged = length places" using assms(1) map_eq_imp_length_eq by (fastforce simp: staged_ok_def)
  let ?m = "map_of (zip (map snd staged) (map (\<lambda>k. sa_content (answers (Suc k))) places))"
  have "fd \<notin> dom ?m" using new len by (simp add: dom_map_of_zip)
  then have "fds(fd \<mapsto> c) ++ ?m = fds ++ ?m(fd \<mapsto> c)" for c
    by (auto simp: map_add_def fun_eq_iff split: option.splits)
  then show ?thesis
    using assms new by (auto simp: staged_ok_def sorted_wrt_map comp_def split: if_splits)
qed

lemma stage_modules_ok:
  assumes "\<And>k. answer_ok (sa_fd (answers k))" "stage_modules answers i es s = (staged, s')"
  shows "\<exists>places. staged_ok (\<lambda>k. answers (i + k)) es places staged (sg_fds s) (sg_fds s')"
  using assms(2)
proof (induction es arbitrary: i s staged s')
  case Nil
  then show ?case by (auto simp: staged_ok_def)
next
  case (Cons e es)
  obtain fd s1 where one: "zp_stage_fd (answers i) True s = (fd, s1)" by fastforce
  obtain staged1 where rest: "stage_modules answers (Suc i) es s1 = (staged1, s')"
    and staged: "staged = (if fd < 0 then staged1 else (e, fd) # staged1)"
    using Cons.prems one by (auto split: prod.splits)
  obtain places where p: "staged_ok (\<lambda>k. answers (Suc i + k)) es places staged1 (sg_fds s1) (sg_fds s')"
    using Cons.IH [OF rest] by blast
  then have p': "staged_ok (\<lambda>k. (\<lambda>k. answers (i + k)) (Suc k)) es places staged1 (sg_fds s1) (sg_fds s')" by simp
  show ?case
  proof (cases "fd < 0")
    case True
    then have "sg_fds s1 = sg_fds s" using stage_fd_cases [OF one assms(1)] by auto
    then show ?thesis using staged_ok_skip [OF p', of e] True staged by auto
  next
    case False
    then have fd: "0 \<le> fd" "fd < 2 ^ 31" "sg_fds s fd = None" "sg_fds s1 = (sg_fds s)(fd \<mapsto> sa_content (answers (i + 0)))"
      using stage_fd_cases [OF one assms(1)] by auto
    then show ?thesis using staged_ok_add [OF p' [unfolded fd(4)] fd(1-3), of e] False staged by auto
  qed
qed

lemma close_fds: "sg_fds (foldl (\<lambda>s fd. close_if_open fd s) s fds) = (\<lambda>x. if 0 \<le> x \<and> x \<in> set fds then None else sg_fds s x)"
  by (induction fds arbitrary: s) (auto simp: close_if_open_def zp_close_current_fd_def fun_eq_iff)

lemma close_fd: "sg_fds (close_if_open fd s) = (\<lambda>x. if 0 \<le> fd \<and> x = fd then None else sg_fds s x)"
  by (auto simp: close_if_open_def zp_close_current_fd_def fun_eq_iff)

lemma staged_ok_closed:
  assumes "staged_ok answers es places staged fds fds'"
  shows "(if x \<in> snd ` set staged then None else fds' x) = fds x"
proof -
  have len: "length staged = length places" using assms map_eq_imp_length_eq by (fastforce simp: staged_ok_def)
  have "map_of (zip (map snd staged) (map (\<lambda>k. sa_content (answers k)) places)) x = None" if "x \<notin> snd ` set staged"
    using that len by (simp add: map_of_zip_is_None)
  then show ?thesis using assms by (auto simp: staged_ok_def map_add_def)
qed

section \<open>The packet is read as it was staged\<close>

lemma sint_of_int_u32: "0 \<le> x \<Longrightarrow> x < 2 ^ 31 \<Longrightarrow> sint (of_int x :: u32) = x"
  by (simp add: signed_of_int signed_take_bit_int_eq_self)

lemma get32_after: "get32 (le32 w @ post) 0 = w" "length pre = n \<Longrightarrow> get32 (pre @ le32 w @ post) n = w"
  using get32_at [of "[]" w post] get32_at [of pre w post] by auto

lemma get16_after: "length pre = n \<Longrightarrow> get16 (pre @ le16 w @ post) n = w"
  using get16_at [of pre w post] by auto

lemma read_packet_bytes:
  "read_packet_header (packet_bytes efs) = \<lparr>ph_packet_magic = 0x59504e5a, ph_packet_version = 2, ph_packet_header_size = 16,
     ph_packet_entry_size = 844, ph_packet_count = of_nat (length efs)\<rparr>"
  unfolding read_packet_header_def packet_bytes_def packet_header_def
  using get16_after [of "le32 0x59504e5a" 4] get16_after [of "le32 0x59504e5a @ le16 2" 6]
    get16_after [of "le32 0x59504e5a @ le16 2 @ le16 16" 8]
    get32_after(2) [of "le32 0x59504e5a @ le16 2 @ le16 16 @ le16 844 @ [0, 0]" 12]
  by (simp add: get32_after(1))

lemma open_packet_bytes:
  assumes "length efs \<le> 64"
  shows "open_packet (packet_bytes efs) = Some (length efs, concat (map packet_entry efs))"
proof -
  have "unat (of_nat (length efs) :: u32) = length efs" using assms by (intro unat_of_nat_len) simp
  moreover have "\<not> (64 :: u32) < of_nat (length efs)"
    using calculation assms by (simp add: word_less_nat_alt)
  moreover have "drop 16 (packet_bytes efs) = concat (map packet_entry efs)" "16 \<le> length (packet_bytes efs)"
    by (simp_all add: packet_bytes_def packet_header_def)
  ultimately show ?thesis by (simp add: open_packet_def Let_def read_packet_bytes packet_header_ok_def)
qed

definition entry_ok :: "u8 list \<times> int \<Rightarrow> bool" where
  "entry_ok ef \<longleftrightarrow> length (fst ef) = 836 \<and> 0 \<le> snd ef \<and> snd ef < 2 ^ 31"

lemma packet_entry_bytes:
  assumes "entry_ok ef"
  shows "length (packet_entry ef) = 844" "take 836 (packet_entry ef @ rest) = fst ef"
    "sint (get32 (packet_entry ef @ rest) 836) = snd ef" "drop 844 (packet_entry ef @ rest) = rest"
  using assms get32_after(2) [of "fst ef" 836 "of_int (snd ef)" "le32 0 @ rest"]
  by (simp_all add: packet_entry_def entry_ok_def sint_of_int_u32)

lemma packet_entries_bytes:
  "\<forall>ef \<in> set efs. entry_ok ef \<Longrightarrow> packet_entries (length efs) (concat (map packet_entry efs)) = efs"
proof (induction efs)
  case (Cons ef efs)
  then have ef: "entry_ok ef" by simp
  show ?case
    using Cons packet_entry_bytes(1) [OF ef] packet_entry_bytes(2-4) [OF ef, of "concat (map packet_entry efs)"] by simp
qed simp

lemma close_entries_closes:
  assumes "fds packet_fd = Some bs" "\<forall>ef \<in> set (packet_entries n (drop pos bs)). snd ef \<noteq> packet_fd"
  shows "close_entries packet_fd n pos fds =
    (\<lambda>x. if 0 \<le> x \<and> x \<in> snd ` set (packet_entries n (drop pos bs)) then None else fds x)"
  using assms
proof (induction n arbitrary: pos fds)
  case (Suc n)
  show ?case
  proof (cases "length bs < pos + 844")
    case True
    then have "packet_entries (Suc n) (drop pos bs) = []" by simp
    then show ?thesis using True Suc.prems(1) by simp
  next
    case False
    then have e: "packet_entries (Suc n) (drop pos bs) =
        (take 836 (drop pos bs), sint (get32 bs (pos + 836))) # packet_entries n (drop (pos + 844) bs)"
      by (simp add: get32_def add.commute)
    let ?fd = "sint (get32 bs (pos + 836))"
    let ?fds = "if 0 \<le> ?fd then fds(?fd := None) else fds"
    have p: "?fds packet_fd = Some bs" using Suc.prems e by auto
    have "close_entries packet_fd n (pos + 844) ?fds =
        (\<lambda>x. if 0 \<le> x \<and> x \<in> snd ` set (packet_entries n (drop (pos + 844) bs)) then None else ?fds x)"
      by (rule Suc.IH [where fds = ?fds, OF p]) (use Suc.prems(2) e in auto)
    then show ?thesis using False Suc.prems(1) unfolding e by (auto simp: Let_def fun_eq_iff)
  qed
qed auto

text \<open>The entries of a loaded snapshot.\<close>

definition early_entry_ok :: "u8 list \<Rightarrow> bool" where
  "early_entry_ok e \<longleftrightarrow> length e = 836 \<and> terminate_entry e = e \<and> fst (zp_early_entry_valid e)"

definition early_ok :: "early_native \<Rightarrow> bool" where
  "early_ok s \<longleftrightarrow> length (en_entries s) \<le> 64 \<and> (\<forall>e \<in> set (en_entries s). early_entry_ok e)"

lemma update_nth: "xs[a := x] ! i = (if a = i \<and> a < length xs then x else xs ! i)"
  by (cases "a < length xs") (simp_all add: nth_list_update list_update_beyond)

lemma length_terminate [simp]: "length (terminate_entry e) = length e"
  by (simp add: terminate_entry_def)

lemma terminate_twice: "terminate_entry (terminate_entry e) = terminate_entry e"
  by (rule nth_equalityI) (simp_all add: terminate_entry_def update_nth)

lemma entry_valid_ok: "zp_early_entry_valid e = (True, e') \<Longrightarrow> length e = 836 \<Longrightarrow> early_entry_ok e'"
  using terminate_twice [of e] by (auto simp: zp_early_entry_valid_def Let_def early_entry_ok_def)

lemma load_entries_ok: "length (load_entries bs n pos) \<le> n \<and> (\<forall>e \<in> set (load_entries bs n pos). early_entry_ok e)"
proof (induction n arbitrary: pos)
  case (Suc n)
  have "early_entry_ok e'" if "zp_read_exact_file bs 836 pos = Some (e, pos')" "zp_early_entry_valid e = (True, e')" for e e' pos'
    using that entry_valid_ok by (auto simp: zp_read_exact_file_def split: if_splits)
  then show ?case using Suc by (auto simp: le_SucI split: option.split prod.split)
qed simp

lemma load_early_ok: "early_ok s \<Longrightarrow> early_ok (zp_load_early_native fs hz jiffies s)"
proof -
  have "early_ok (load_snapshot fs bs path s')" if "early_ok s'" for bs path s'
  proof (cases "zp_read_exact_file bs 72 0")
    case (Some hp)
    define h where "h = read_snapshot_header (fst hp)"
    have "unat (sh_count h) \<le> 64" if "\<not> snapshot_invalid fs h"
      using that by (simp add: snapshot_invalid_def snapshot_header_bad_def not_less word_le_nat_alt)
    then show ?thesis
      using that load_entries_ok [of bs "unat (sh_count h)" "snd hp"] Some
      by (auto simp: load_snapshot_def Let_def h_def early_ok_def split: prod.splits)
  qed (use that in \<open>simp add: load_snapshot_def\<close>)
  moreover have "early_ok (early_reset s\<lparr>en_loaded := True\<rparr>)" "early_ok (missing_snapshot hz jiffies (early_reset s))"
    by (simp_all add: missing_snapshot_def early_reset_def early_ok_def Let_def)
  ultimately show "early_ok s \<Longrightarrow> early_ok (zp_load_early_native fs hz jiffies s)"
    by (simp add: zp_load_early_native_def Let_def split: option.split)
qed

lemma staged_fd_open:
  assumes "staged_ok answers es places staged fds fds'" "ef \<in> set staged"
  shows "\<exists>k \<in> set places. fst ef = es ! k \<and> fds' (snd ef) = Some (sa_content (answers k))"
proof -
  have len: "length staged = length places" using assms map_eq_imp_length_eq by (fastforce simp: staged_ok_def)
  obtain j where j: "j < length staged" "ef = staged ! j" using assms(2) by (metis in_set_conv_nth)
  have "map_of (zip (map snd staged) (map (\<lambda>k. sa_content (answers k)) places)) (snd ef) = Some (sa_content (answers (places ! j)))"
    using assms(1) j len by (intro map_of_is_SomeI) (auto simp: staged_ok_def set_zip intro!: exI [of _ j])
  moreover have "fst ef = es ! (places ! j)"
    using assms(1) j len nth_map [of j staged fst] nth_map [of j places "(!) es"] by (simp add: staged_ok_def)
  ultimately show ?thesis using assms(1) j len by (auto simp: staged_ok_def map_add_def intro!: bexI [of _ "places ! j"])
qed

lemma staged_entries_ok:
  assumes "staged_ok answers es places staged fds fds'" "\<forall>e \<in> set es. length e = 836"
  shows "\<forall>ef \<in> set staged. entry_ok ef" and "length staged \<le> length es"
proof -
  have "fst ` set staged \<subseteq> set es"
    using assms(1) unfolding staged_ok_def by (metis image_subset_iff lessThan_iff list.set_map nth_mem subset_iff)
  then show "\<forall>ef \<in> set staged. entry_ok ef"
    using assms by (auto simp: staged_ok_def entry_ok_def)
  have len: "length staged = length places" using assms map_eq_imp_length_eq by (fastforce simp: staged_ok_def)
  have "card (set places) \<le> length es" using assms(1) card_mono [of "{..<length es}" "set places"] by (simp add: staged_ok_def)
  moreover have "distinct places" using assms(1) strict_sorted_iff [of places] by (simp add: staged_ok_def)
  ultimately show "length staged \<le> length es" using len by (simp add: distinct_card)
qed

text \<open>What a packet is for: it names staged modules, whose descriptors are open on their libraries.\<close>

definition packet_names :: "packet_answers \<Rightarrow> u8 list list \<Rightarrow> fd_table \<Rightarrow> int \<Rightarrow> fd_table \<Rightarrow> bool" where
  "packet_names a es fds packet_fd fds' \<longleftrightarrow>
     0 \<le> packet_fd \<and> packet_fd < 2 ^ 31 \<and>
     (\<exists>bs n rest places. fds' packet_fd = Some bs \<and> open_packet bs = Some (n, rest) \<and> packet_entries n rest \<noteq> [] \<and>
        staged_ok (pa_module a) es places (packet_entries n rest) fds (fds'(packet_fd := None)))"

lemma packet_closed:
  assumes "packet_names a es fds packet_fd fds'" "\<forall>e \<in> set es. length e = 836" "fds packet_fd = None"
  shows "close_early_packet packet_fd fds' = fds"
proof -
  obtain bs n rest places where bs: "fds' packet_fd = Some bs" "open_packet bs = Some (n, rest)"
      and ok: "staged_ok (pa_module a) es places (packet_entries n rest) fds (fds'(packet_fd := None))"
      and fd: "0 \<le> packet_fd"
    using assms(1) by (auto simp: packet_names_def)
  have rest: "rest = drop 16 bs" using bs(2) by (auto simp: open_packet_def Let_def split: if_splits)
  have other: "\<forall>ef \<in> set (packet_entries n rest). snd ef \<noteq> packet_fd"
  proof (rule ballI, rule notI)
    fix ef assume ef: "ef \<in> set (packet_entries n rest)" "snd ef = packet_fd"
    obtain c where "(fds'(packet_fd := None)) (snd ef) = Some c" using staged_fd_open [OF ok ef(1)] by blast
    then show False using ef(2) by simp
  qed
  have "close_early_packet packet_fd fds' x = fds x" for x
    using staged_ok_closed [OF ok, of x] staged_entries_ok(1) [OF ok assms(2)] bs fd assms(3) other
      close_entries_closes [where fds = fds' and pos = 16, OF bs(1), of n] rest
    by (auto simp: close_early_packet_def entry_ok_def split: if_splits)
  then show ?thesis by blast
qed

definition packet_answers_ok :: "packet_answers \<Rightarrow> bool" where
  "packet_answers_ok a \<longleftrightarrow> answer_ok (pa_fd a) \<and> (\<forall>k. answer_ok (sa_fd (pa_module a k)))"

lemma early_matches_length: "length (early_matches target_type t compat_abi es) \<le> length es"
  by (simp add: early_matches_def)

lemma early_matches_subset: "e \<in> set (early_matches target_type t compat_abi es) \<Longrightarrow> e \<in> set es"
  by (simp add: early_matches_def)

lemma installed_packet:
  assumes p: "staged_ok (pa_module a) es places efs (sg_fds s0) (sg_fds s1)" and efs: "\<forall>ef \<in> set efs. entry_ok ef"
    and len: "length efs \<le> 64" and ne: "efs \<noteq> []" and fresh: "sg_fds s1 fd = None" "0 \<le> fd" "fd < 2 ^ 31"
  defines "s \<equiv> fd_install fd (packet_bytes efs) s1"
  shows "packet_names a es (sg_fds s0) fd (sg_fds s)" and "sg_fds s0 fd = None"
    and "sg_fds (snd (zp_close_early_packet_state \<lparr>ep_packet_fd = fd, ep_module_fds = map snd efs\<rparr> s)) = sg_fds s0"
proof -
  have "(sg_fds s)(fd := None) = sg_fds s1" using fresh(1) by (auto simp: s_def fd_install_def fun_eq_iff)
  then show "packet_names a es (sg_fds s0) fd (sg_fds s)"
    using open_packet_bytes [OF len] packet_entries_bytes [OF efs] p ne fresh
    by (auto simp: packet_names_def s_def fd_install_def)
  show unused: "sg_fds s0 fd = None" using staged_ok_closed [OF p, of fd] fresh(1) by (auto split: if_splits)
  have "sg_fds (snd (zp_close_early_packet_state \<lparr>ep_packet_fd = fd, ep_module_fds = map snd efs\<rparr> s)) x = sg_fds s0 x" for x
    using staged_ok_closed [OF p, of x] efs fresh unused
    by (auto simp: zp_close_early_packet_state_def close_fds close_fd s_def fd_install_def entry_ok_def split: if_splits)
  then show "sg_fds (snd (zp_close_early_packet_state \<lparr>ep_packet_fd = fd, ep_module_fds = map snd efs\<rparr> s)) = sg_fds s0"
    by blast
qed

text \<open>Staging the modules and the packet either undoes all descriptors or leaves a packet that names them.\<close>

lemma staged_packet_cases:
  assumes ok: "packet_answers_ok a" "early_ok loaded"
    and run: "zp_stage_early_native_packet a loaded target_type (Some t) compat_abi s0 = (ret, st, s)"
  defines "es \<equiv> early_matches target_type t compat_abi (en_entries loaded)"
  shows "ret < 0 \<and> st = zp_early_packet_state_init \<and> sg_fds s = sg_fds s0 \<or>
    ret = 0 \<and> packet_names a es (sg_fds s0) (ep_packet_fd st) (sg_fds s) \<and> sg_fds s0 (ep_packet_fd st) = None \<and>
    sg_fds (snd (zp_close_early_packet_state st s)) = sg_fds s0"
proof -
  have es: "length es \<le> 64" "\<forall>e \<in> set es. early_entry_ok e"
    using ok(2) early_matches_length [of target_type t compat_abi "en_entries loaded"] early_matches_subset
    unfolding es_def early_ok_def by (fastforce, blast)
  then have len836: "\<forall>e \<in> set es. length e = 836" by (simp add: early_entry_ok_def)
  consider (none) "ret < 0" "st = zp_early_packet_state_init" "s = s0"
    | (staged) "es \<noteq> []" "pa_alloc_packet a" "pa_alloc_matches a" "en_enabled loaded"
    using run by (cases "es = []") (auto simp: zp_stage_early_native_packet_def Let_def es_def split: if_splits)
  then show ?thesis
  proof cases
    case staged
    obtain efs s1 where m: "stage_modules (pa_module a) 0 es s0 = (efs, s1)" by fastforce
    obtain places where p: "staged_ok (pa_module a) es places efs (sg_fds s0) (sg_fds s1)"
      using stage_modules_ok [OF _ m] ok(1) by (auto simp: packet_answers_ok_def)
    note efs = staged_entries_ok [OF p len836]
    have closed: "sg_fds (snd (zp_close_early_packet_state (zp_early_packet_state_init\<lparr>ep_module_fds := map snd efs\<rparr>) s1)) = sg_fds s0"
    proof
      fix x
      show "sg_fds (snd (zp_close_early_packet_state (zp_early_packet_state_init\<lparr>ep_module_fds := map snd efs\<rparr>) s1)) x = sg_fds s0 x"
        using staged_ok_closed [OF p, of x] efs(1)
        by (auto simp: zp_close_early_packet_state_def zp_early_packet_state_init_def close_fds close_fd entry_ok_def split: if_splits)
    qed
    show ?thesis
    proof (cases "efs = []")
      case True
      then show ?thesis
        using run staged m closed
        by (auto simp: zp_stage_early_native_packet_def Let_def es_def [symmetric] zp_close_early_packet_state_def)
    next
      case False
      obtain fd s2 where i: "zp_install_packet_fd a (packet_bytes efs) s1 = (fd, s2)" by fastforce
      have c: "fd < 0 \<and> s2 = s1 \<or> 0 \<le> fd \<and> fd < 2 ^ 31 \<and> sg_fds s1 fd = None \<and> s2 = fd_install fd (packet_bytes efs) s1"
        by (rule install_packet_cases [OF i]) (use ok(1) in \<open>simp add: packet_answers_ok_def\<close>)
      show ?thesis
      proof (cases "fd < 0")
        case True
        then show ?thesis
          using run staged m closed False i c
          by (auto simp: zp_stage_early_native_packet_def Let_def es_def [symmetric] zp_close_early_packet_state_def)
      next
        case fd: False
        then have r: "ret = 0" "st = \<lparr>ep_packet_fd = fd, ep_module_fds = map snd efs\<rparr>" "s = fd_install fd (packet_bytes efs) s1"
          using run staged m False i c
          by (auto simp: zp_stage_early_native_packet_def Let_def es_def [symmetric] zp_early_packet_state_init_def)
        have fresh: "sg_fds s1 fd = None" "0 \<le> fd" "fd < 2 ^ 31" using c fd by auto
        have len: "length efs \<le> 64" using efs(2) es(1) by simp
        show ?thesis
          using installed_packet [OF p efs(1) len False fresh] closed r by simp
      qed
    qed
  qed auto
qed

end
