(* ===== verification/Native_Core.thy ===== *)
theory Native_Core
  imports Native_Staging
begin

text \<open>
  The native core, \<^verbatim>\<open>core/src/yukizncore.cpp\<close>: the part of an injected native process that loads its
  modules, first those of the early packet, then those the daemon offers for the executable, and reports
  them to the daemon.

  What the dynamic linkers, the module and the daemon answer is data of the model: records and functions
  of the number of the call.  A request to the daemon that fails anywhere is one that is not answered.
\<close>

section \<open>State\<close>

record native_module_info =
  ni_target_type :: u8
  ni_has_companion :: bool
  ni_module_id :: string
  ni_target :: string
  ni_lib_path :: string

record module_handle =
  mh_index :: u32
  mh_module_id :: string
  mh_yuki_loaded :: bool
  mh_early :: bool
  mh_has_companion :: bool
  mh_reported :: bool

text \<open>\<open>nc_images\<close> are the libraries that are loaded and not closed again, by module id.\<close>

record native_core =
  nc_fds :: fd_table
  nc_modules :: "module_handle list"
  nc_images :: "string list"
  nc_generation :: u32
  nc_packet_fd :: int
  nc_policy_restores :: nat

definition nc_close :: "int \<Rightarrow> native_core \<Rightarrow> native_core" where
  "nc_close fd s = s\<lparr>nc_fds := (nc_fds s)(fd := None)\<rparr>"

section \<open>Paths\<close>

definition basename_of :: "string \<Rightarrow> string" where
  "basename_of path = rev (takeWhile (\<lambda>c. c \<noteq> CHR 0x2F) (rev path))"

definition deleted_suffix :: string where "deleted_suffix = '' (deleted)''"

definition clean_map_path :: "string \<Rightarrow> string" where
  "clean_map_path path =
     (if length deleted_suffix < length path \<and> drop (length path - length deleted_suffix) path = deleted_suffix
      then take (length path - length deleted_suffix) path else path)"

text \<open>The link \<^verbatim>\<open>/proc/self/exe\<close>, \<open>None\<close> when it cannot be read.\<close>

definition self_exe_path :: "string option \<Rightarrow> string" where
  "self_exe_path link =
     (case link of
        None \<Rightarrow> []
      | Some l \<Rightarrow> if take 511 l = [] then [] else clean_map_path (c_str (take 511 l)))"

definition info_matches :: "native_module_info \<Rightarrow> string \<Rightarrow> string \<Rightarrow> bool" where
  "info_matches info exe_path exe_base \<longleftrightarrow>
     (if ni_target info = [] then False
      else if ni_target_type info = TARGET_NAME then exe_base = ni_target info
      else if ni_target_type info = TARGET_PATH then exe_path = ni_target info
      else False)"

section \<open>Reporting\<close>

text \<open>The generation the daemon knows (0 if it does not answer) and whether it accepts the report.\<close>

type_synonym report_answers = "u32 \<times> bool"

definition report_native_injection :: "report_answers \<Rightarrow> native_core \<Rightarrow> bool \<times> native_core" where
  "report_native_injection ra s =
     (let g = (if nc_generation s = 0 then fst ra else nc_generation s)
      in (g \<noteq> 0 \<and> snd ra, s\<lparr>nc_generation := g\<rparr>))"

definition find_loaded_module :: "string \<Rightarrow> native_core \<Rightarrow> nat option" where
  "find_loaded_module module_id s = find (\<lambda>i. mh_module_id (nc_modules s ! i) = module_id) [0..<length (nc_modules s)]"

definition has_pending_early_report :: "native_core \<Rightarrow> bool" where
  "has_pending_early_report s \<longleftrightarrow> list_ex (\<lambda>h. mh_early h \<and> \<not> mh_reported h) (nc_modules s)"

section \<open>Loading one module\<close>

text \<open>Whether the loader and, after it, the system linker by name or by path load the library; the
  module structure in it, if it exports one: its version and whether its entry is not null.\<close>

record load_answers =
  la_yuki :: bool
  la_by_name :: bool
  la_by_path :: bool
  la_module :: "(int \<times> bool) option"
  la_report :: report_answers

definition module_supported :: "(int \<times> bool) option \<Rightarrow> bool" where
  "module_supported m =
     (case m of None \<Rightarrow> False | Some (version, entry) \<Rightarrow> \<not> ((version \<noteq> 3 \<and> version \<noteq> 4) \<or> \<not> entry))"

definition add_module :: "load_answers \<Rightarrow> native_module_info \<Rightarrow> u32 \<Rightarrow> bool \<Rightarrow> native_core \<Rightarrow> native_core" where
  "add_module la info idx early s0 =
     (let (ok, s) = (if early then (False, s0) else report_native_injection (la_report la) s0)
      in s\<lparr>nc_modules := nc_modules s @ [\<lparr>mh_index = idx, mh_module_id = ni_module_id info, mh_yuki_loaded = la_yuki la,
            mh_early = early, mh_has_companion = ni_has_companion info, mh_reported = ok\<rparr>]\<rparr>)"

definition load_native_module_from_fd ::
  "load_answers \<Rightarrow> native_module_info \<Rightarrow> u32 \<Rightarrow> int \<Rightarrow> bool \<Rightarrow> native_core \<Rightarrow> bool \<times> native_core" where
  "load_native_module_from_fd la info idx lib_fd early s0 =
     (if ni_module_id info = [] \<or> ni_lib_path info = [] then (False, if 0 \<le> lib_fd then nc_close lib_fd s0 else s0)
      else
        let so = la_yuki la \<or> la_by_name la \<or> la_by_path la;
            s1 = nc_close lib_fd s0 in
        if \<not> so then (False, s1)
        else
          let s = s1\<lparr>nc_images := ni_module_id info # nc_images s1\<rparr> in
          if \<not> module_supported (la_module la) then (False, s\<lparr>nc_images := remove1 (ni_module_id info) (nc_images s)\<rparr>)
          else (True, add_module la info idx early s))"

section \<open>The early packet\<close>

definition early_packet_entry_to_info :: "u8 list \<Rightarrow> int \<Rightarrow> native_module_info option" where
  "early_packet_entry_to_info entry fd =
     (let m = terminate_entry entry in
      if fd < 0 then None
      else if ee_target_type m \<noteq> TARGET_NAME \<and> ee_target_type m \<noteq> TARGET_PATH then None
      else if ee_module_id m = [] \<or> ee_target m = [] \<or> ee_lib_path m = [] then None
      else Some \<lparr>ni_target_type = ee_target_type m, ni_has_companion = False, ni_module_id = ee_module_id m,
             ni_target = ee_target m, ni_lib_path = ee_lib_path m\<rparr>)"

definition load_early_entry :: "load_answers \<Rightarrow> u8 list \<Rightarrow> int \<Rightarrow> native_core \<Rightarrow> native_core" where
  "load_early_entry la entry fd s =
     (case early_packet_entry_to_info entry fd of
        None \<Rightarrow> if 0 \<le> fd then nc_close fd s else s
      | Some info \<Rightarrow>
          if find_loaded_module (ni_module_id info) s \<noteq> None then nc_close fd s
          else snd (load_native_module_from_fd la info 0xffffffff fd True s))"

text \<open>The loop over the entries from a position of the packet on, which ends where it cannot be read.\<close>

fun load_early_entries :: "(nat \<Rightarrow> load_answers) \<Rightarrow> int \<Rightarrow> nat \<Rightarrow> nat \<Rightarrow> native_core \<Rightarrow> native_core" where
  "load_early_entries las packet_fd 0 pos s = s"
| "load_early_entries las packet_fd (Suc n) pos s =
     (case nc_fds s packet_fd of
        None \<Rightarrow> s
      | Some bs \<Rightarrow>
          if length bs < pos + 844 then s
          else load_early_entries (\<lambda>k. las (Suc k)) packet_fd n (pos + 844)
            (load_early_entry (las 0) (take 836 (drop pos bs)) (sint (get32 bs (pos + 836))) s))"

definition load_early_modules :: "(nat \<Rightarrow> load_answers) \<Rightarrow> native_core \<Rightarrow> native_core" where
  "load_early_modules las s0 =
     (let packet_fd = nc_packet_fd s0; s = s0\<lparr>nc_packet_fd := - 1\<rparr> in
      if packet_fd < 0 then s0
      else nc_close packet_fd
        (case nc_fds s packet_fd of
           None \<Rightarrow> s
         | Some bs \<Rightarrow>
             (case open_packet bs of None \<Rightarrow> s | Some (n, rest) \<Rightarrow> load_early_entries las packet_fd n 16 s)))"

section \<open>The modules of the daemon\<close>

text \<open>The count (if answered), the description of each module, and the file sent for it: its content and
  how the descriptor for it is found, or nothing.\<close>

record daemon_answers =
  dm_count :: "u32 option"
  dm_info :: "nat \<Rightarrow> native_module_info option"
  dm_file :: "nat \<Rightarrow> (u8 list \<times> (int + nat)) option"
  dm_load :: "nat \<Rightarrow> load_answers"

definition request_fd :: "(u8 list \<times> (int + nat)) option \<Rightarrow> native_core \<Rightarrow> int \<times> native_core" where
  "request_fd file s =
     (case file of
        None \<Rightarrow> (- 1, s)
      | Some (bs, answer) \<Rightarrow>
          (let fd = get_unused_fd answer (nc_fds s)
           in if fd < 0 then (- 1, s) else (fd, s\<lparr>nc_fds := (nc_fds s)(fd \<mapsto> bs)\<rparr>)))"

definition renew_module :: "report_answers \<Rightarrow> nat \<Rightarrow> native_module_info \<Rightarrow> nat \<Rightarrow> native_core \<Rightarrow> native_core" where
  "renew_module ra i info j s0 =
     (let h = (nc_modules s0 ! j)\<lparr>mh_index := of_nat i, mh_has_companion := ni_has_companion info\<rparr>;
          (ok, s) = (if mh_early h \<and> \<not> mh_reported h then report_native_injection ra s0 else (mh_reported h, s0))
      in s\<lparr>nc_modules := (nc_modules s)[j := h\<lparr>mh_reported := ok\<rparr>]\<rparr>)"

definition load_offered :: "daemon_answers \<Rightarrow> string \<Rightarrow> nat \<Rightarrow> native_core \<Rightarrow> native_core" where
  "load_offered dm exe i s =
     (case dm_info dm i of
        None \<Rightarrow> s
      | Some info \<Rightarrow>
          if \<not> info_matches info exe (basename_of exe) then s
          else case find_loaded_module (ni_module_id info) s of
              Some j \<Rightarrow> renew_module (la_report (dm_load dm i)) i info j s
            | None \<Rightarrow>
                (case request_fd (dm_file dm i) s of
                   (fd, s') \<Rightarrow> if fd < 0 then s' else snd (load_native_module_from_fd (dm_load dm i) info (of_nat i) fd False s')))"

definition load_matching_modules :: "daemon_answers \<Rightarrow> string option \<Rightarrow> native_core \<Rightarrow> native_core" where
  "load_matching_modules dm link s =
     (case dm_count dm of
        None \<Rightarrow> s
      | Some n \<Rightarrow> foldl (\<lambda>s i. load_offered dm (self_exe_path link) i s) s [0..<unat n])"

section \<open>Reports of the early modules\<close>

text \<open>One early module: the first description with its id is reported; the result tells whether it is reported.\<close>

fun sync_module :: "daemon_answers \<Rightarrow> nat list \<Rightarrow> nat \<Rightarrow> native_core \<Rightarrow> bool \<times> native_core" where
  "sync_module dm [] j s = (False, s)"
| "sync_module dm (i # is) j s =
     (case dm_info dm i of
        None \<Rightarrow> sync_module dm is j s
      | Some info \<Rightarrow>
          if ni_module_id info \<noteq> mh_module_id (nc_modules s ! j) then sync_module dm is j s
          else let s' = renew_module (la_report (dm_load dm i)) i info j s
            in (mh_reported (nc_modules s' ! j), s'))"

fun sync_modules :: "daemon_answers \<Rightarrow> nat list \<Rightarrow> nat list \<Rightarrow> native_core \<Rightarrow> bool \<times> native_core" where
  "sync_modules dm is [] s = (True, s)"
| "sync_modules dm is (j # js) s =
     (if \<not> mh_early (nc_modules s ! j) \<or> mh_reported (nc_modules s ! j) then sync_modules dm is js s
      else case sync_module dm is j s of
        (ok, s') \<Rightarrow> (case sync_modules dm is js s' of (all_ok, s'') \<Rightarrow> (ok \<and> all_ok, s'')))"

definition sync_early_native_reports_once :: "daemon_answers \<Rightarrow> native_core \<Rightarrow> bool \<times> native_core" where
  "sync_early_native_reports_once dm s =
     (if \<not> has_pending_early_report s then (True, s)
      else case dm_count dm of
        None \<Rightarrow> (False, s)
      | Some n \<Rightarrow> sync_modules dm [0..<unat n] [0..<length (nc_modules s)] s)"

definition restore_native_load_policy :: "native_core \<Rightarrow> native_core" where
  "restore_native_load_policy s = s\<lparr>nc_policy_restores := Suc (nc_policy_restores s)\<rparr>"

text \<open>The thread that tries again, up to \<open>n\<close> times; \<open>False\<close> when it gives up.\<close>

fun sync_attempts :: "(nat \<Rightarrow> daemon_answers) \<Rightarrow> nat \<Rightarrow> native_core \<Rightarrow> bool \<times> native_core" where
  "sync_attempts dms 0 s = (False, s)"
| "sync_attempts dms (Suc n) s =
     (case sync_early_native_reports_once (dms 0) s of
        (ok, s') \<Rightarrow> if ok then (True, restore_native_load_policy s') else sync_attempts (\<lambda>k. dms (Suc k)) n s')"

definition deferred_native_sync_main :: "(nat \<Rightarrow> daemon_answers) \<Rightarrow> native_core \<Rightarrow> bool \<times> native_core" where
  "deferred_native_sync_main dms s = sync_attempts dms 80 s"

text \<open>Whether the thread is started.\<close>

definition maybe_start_deferred_native_sync :: "daemon_answers \<Rightarrow> bool \<Rightarrow> native_core \<Rightarrow> bool \<times> native_core" where
  "maybe_start_deferred_native_sync dm thread_ok s =
     (if \<not> has_pending_early_report s then (False, s)
      else case sync_early_native_reports_once dm s of (ok, s') \<Rightarrow> (\<not> ok \<and> thread_ok, s'))"

section \<open>The start of the core\<close>

text \<open>The requests of the constructors and of the configuration do not touch this state.\<close>

definition core_start ::
  "u32 \<Rightarrow> (nat \<Rightarrow> load_answers) \<Rightarrow> daemon_answers \<Rightarrow> daemon_answers \<Rightarrow> string option \<Rightarrow> bool \<Rightarrow> native_core \<Rightarrow> bool \<times> native_core" where
  "core_start generation las dm dm' link thread_ok s0 =
     (let s1 = load_matching_modules dm link (load_early_modules las (s0\<lparr>nc_generation := generation\<rparr>));
          (started, s2) = maybe_start_deferred_native_sync dm' thread_ok s1
      in (started, restore_native_load_policy s2))"

definition core_initial :: "int \<Rightarrow> fd_table \<Rightarrow> native_core" where
  "core_initial packet_fd fds = \<lparr>nc_fds = fds, nc_modules = [], nc_images = [], nc_generation = 0,
     nc_packet_fd = packet_fd, nc_policy_restores = 0\<rparr>"

definition zygisk_core_entry ::
  "int \<Rightarrow> u32 \<Rightarrow> (nat \<Rightarrow> load_answers) \<Rightarrow> daemon_answers \<Rightarrow> daemon_answers \<Rightarrow> string option \<Rightarrow> bool \<Rightarrow> fd_table \<Rightarrow> bool \<times> native_core" where
  "zygisk_core_entry early_packet_fd_plus1 generation las dm dm' link thread_ok fds =
     core_start generation las dm dm' link thread_ok
       (core_initial (if 0 < early_packet_fd_plus1 then early_packet_fd_plus1 - 1 else - 1) fds)"

section \<open>Modules are loaded once\<close>

text \<open>No module is loaded twice, and the libraries that stay loaded are those of the modules.\<close>

definition core_ok :: "native_core \<Rightarrow> bool" where
  "core_ok s \<longleftrightarrow> distinct (map mh_module_id (nc_modules s)) \<and> mset (nc_images s) = mset (map mh_module_id (nc_modules s))"

lemma not_loaded: "find_loaded_module x s = None \<Longrightarrow> x \<notin> mh_module_id ` set (nc_modules s)"
  by (auto simp: find_loaded_module_def find_None_iff in_set_conv_nth)

lemma loaded_index: "find_loaded_module x s = Some j \<Longrightarrow> j < length (nc_modules s) \<and> mh_module_id (nc_modules s ! j) = x"
  by (auto simp: find_loaded_module_def find_Some_iff)

lemma report_frame [simp]:
  "nc_fds (snd (report_native_injection ra s)) = nc_fds s" "nc_modules (snd (report_native_injection ra s)) = nc_modules s"
  "nc_images (snd (report_native_injection ra s)) = nc_images s"
  by (simp_all add: report_native_injection_def Let_def)

lemma close_frame [simp]:
  "nc_modules (nc_close fd s) = nc_modules s" "nc_images (nc_close fd s) = nc_images s" "nc_fds (nc_close fd s) = (nc_fds s)(fd := None)"
  by (simp_all add: nc_close_def)

lemma add_module_frame [simp]:
  "nc_fds (add_module la info idx early s) = nc_fds s" "nc_images (add_module la info idx early s) = nc_images s"
  "map mh_module_id (nc_modules (add_module la info idx early s)) = map mh_module_id (nc_modules s) @ [ni_module_id info]"
  by (simp_all add: add_module_def Let_def split: prod.split) (metis report_frame snd_conv)+

lemma add_module_ids [simp]:
  "image_mset mh_module_id (mset (nc_modules (add_module la info idx early s))) =
     add_mset (ni_module_id info) (image_mset mh_module_id (mset (nc_modules s)))"
  unfolding mset_map [symmetric] add_module_frame by simp

definition loads :: "load_answers \<Rightarrow> bool" where
  "loads la \<longleftrightarrow> (la_yuki la \<or> la_by_name la \<or> la_by_path la) \<and> module_supported (la_module la)"

lemma load_fd_frame:
  assumes "0 \<le> fd"
  shows "nc_fds (snd (load_native_module_from_fd la info idx fd early s)) = (nc_fds s)(fd := None)"
    and "map mh_module_id (nc_modules (snd (load_native_module_from_fd la info idx fd early s))) =
      map mh_module_id (nc_modules s) @
        (if ni_module_id info \<noteq> [] \<and> ni_lib_path info \<noteq> [] \<and> loads la then [ni_module_id info] else [])"
  using assms by (auto simp: load_native_module_from_fd_def Let_def loads_def)

lemma load_fd_ok:
  assumes "core_ok s" "ni_module_id info \<notin> mh_module_id ` set (nc_modules s)"
  shows "core_ok (snd (load_native_module_from_fd la info idx fd early s))"
  using assms by (auto simp: core_ok_def load_native_module_from_fd_def Let_def)

lemma renew_module_frame:
  assumes "j < length (nc_modules s)"
  shows "nc_fds (renew_module ra i info j s) = nc_fds s" "nc_images (renew_module ra i info j s) = nc_images s"
    "map mh_module_id (nc_modules (renew_module ra i info j s)) = map mh_module_id (nc_modules s)"
  using assms by (auto simp: renew_module_def Let_def map_update case_prod_beta nth_map intro!: list_update_same_conv [THEN iffD2])

lemma load_early_entry_frame:
  "nc_fds (load_early_entry la e fd s) = (if 0 \<le> fd then (nc_fds s)(fd := None) else nc_fds s)"
  using load_fd_frame(1) by (auto simp: load_early_entry_def early_packet_entry_to_info_def Let_def split: option.splits)

lemma load_early_entry_ok: "core_ok s \<Longrightarrow> core_ok (load_early_entry la e fd s)"
  using load_fd_ok not_loaded
  by (auto simp: load_early_entry_def split: option.split) (auto simp: core_ok_def)

text \<open>The descriptors after the packet was processed are those after the loader's clean-up.\<close>

lemma load_early_entries_frame:
  "nc_fds (load_early_entries las packet_fd n pos s) = close_entries packet_fd n pos (nc_fds s)"
  by (induction las packet_fd n pos s rule: load_early_entries.induct)
    (auto simp: load_early_entry_frame Let_def split: option.split)

lemma load_early_entries_ok: "core_ok s \<Longrightarrow> core_ok (load_early_entries las packet_fd n pos s)"
  by (induction las packet_fd n pos s rule: load_early_entries.induct)
    (auto simp: load_early_entry_ok split: option.split)

lemma load_early_modules_frame:
  "nc_fds (load_early_modules las s) = close_early_packet (nc_packet_fd s) (nc_fds s)"
  by (auto simp: load_early_modules_def close_early_packet_def Let_def load_early_entries_frame split: option.split)

lemma load_early_modules_ok: "core_ok s \<Longrightarrow> core_ok (load_early_modules las s)"
  using load_early_entries_ok [of "s\<lparr>nc_packet_fd := - 1\<rparr>"]
  by (auto simp: load_early_modules_def Let_def core_ok_def split: option.split)

text \<open>The daemon's descriptors are fresh, or errors are negative.\<close>

definition daemon_ok :: "daemon_answers \<Rightarrow> bool" where
  "daemon_ok dm \<longleftrightarrow> (\<forall>i bs answer. dm_file dm i = Some (bs, answer) \<longrightarrow> answer_ok answer)"

lemma load_offered_frame:
  assumes "daemon_ok dm"
  shows "nc_fds (load_offered dm exe i s) = nc_fds s" and "core_ok s \<Longrightarrow> core_ok (load_offered dm exe i s)"
proof -
  consider (other) "load_offered dm exe i s = s"
    | (again) info j where "find_loaded_module (ni_module_id info) s = Some j"
        "load_offered dm exe i s = renew_module (la_report (dm_load dm i)) i info j s"
    | (no_file) info fd where "load_offered dm exe i s = snd (request_fd (dm_file dm i) s)" "fst (request_fd (dm_file dm i) s) < 0"
    | (new) info fd s' where "find_loaded_module (ni_module_id info) s = None" "request_fd (dm_file dm i) s = (fd, s')" "0 \<le> fd"
        "load_offered dm exe i s = snd (load_native_module_from_fd (dm_load dm i) info (of_nat i) fd False s')"
    by (cases "dm_info dm i"; cases "request_fd (dm_file dm i) s")
      (force simp: load_offered_def not_less split: option.splits if_splits)+
  note cases = this
  have opened: "fst (request_fd (dm_file dm i) s) < 0 \<and> snd (request_fd (dm_file dm i) s) = s \<or>
    (\<exists>fd bs. 0 \<le> fd \<and> nc_fds s fd = None \<and> request_fd (dm_file dm i) s = (fd, s\<lparr>nc_fds := (nc_fds s)(fd \<mapsto> bs)\<rparr>))"
    using assms get_unused_fd_fresh(1) by (fastforce simp: request_fd_def daemon_ok_def Let_def not_less split: option.split prod.split)
  show "nc_fds (load_offered dm exe i s) = nc_fds s"
    using cases
  proof cases
    case (again info j)
    then show ?thesis using loaded_index renew_module_frame(1) by metis
  next
    case (new info fd s')
    then show ?thesis using opened load_fd_frame(1) [OF new(3)] by (auto simp: fun_eq_iff)
  qed (use opened in auto)
  show "core_ok (load_offered dm exe i s)" if ok: "core_ok s"
    using cases
  proof cases
    case (again info j)
    then show ?thesis using loaded_index [OF again(1)] renew_module_frame [of j s] ok by (simp add: core_ok_def del: mset_map)
  next
    case (new info fd s')
    then have "nc_modules s' = nc_modules s" "core_ok s'" using opened ok by (auto simp: core_ok_def)
    then show ?thesis using new load_fd_ok [of s' info] not_loaded [OF new(1)] by simp
  qed (use opened ok in auto)
qed

lemma load_matching_frame:
  assumes "daemon_ok dm"
  shows "nc_fds (load_matching_modules dm link s) = nc_fds s" and "core_ok s \<Longrightarrow> core_ok (load_matching_modules dm link s)"
proof -
  have "nc_fds (foldl (\<lambda>s i. load_offered dm exe i s) s is) = nc_fds s \<and>
      (core_ok s \<longrightarrow> core_ok (foldl (\<lambda>s i. load_offered dm exe i s) s is))" for exe "is"
    using load_offered_frame [OF assms] by (induction "is" arbitrary: s) auto
  then show "nc_fds (load_matching_modules dm link s) = nc_fds s" "core_ok s \<Longrightarrow> core_ok (load_matching_modules dm link s)"
    by (simp_all add: load_matching_modules_def split: option.split)
qed

definition same_modules :: "native_core \<Rightarrow> native_core \<Rightarrow> bool" where
  "same_modules s s' \<longleftrightarrow> nc_fds s' = nc_fds s \<and> nc_images s' = nc_images s \<and>
     map mh_module_id (nc_modules s') = map mh_module_id (nc_modules s)"

lemma same_modules_refl [simp]: "same_modules s s"
  by (simp add: same_modules_def)

lemma same_modules_trans: "same_modules s s' \<Longrightarrow> same_modules s' s'' \<Longrightarrow> same_modules s s''"
  by (simp add: same_modules_def)

lemma same_modules_length: "same_modules s s' \<Longrightarrow> length (nc_modules s') = length (nc_modules s)"
  unfolding same_modules_def by (metis length_map)

lemma same_modules_ok: "same_modules s s' \<Longrightarrow> core_ok s \<Longrightarrow> core_ok s'"
  by (simp add: same_modules_def core_ok_def del: mset_map)

lemma sync_module_same: "j < length (nc_modules s) \<Longrightarrow> same_modules s (snd (sync_module dm is j s))"
  by (induction dm "is" j s rule: sync_module.induct)
    (auto simp: same_modules_def renew_module_frame Let_def split: option.split)

lemma sync_modules_same: "\<forall>j \<in> set js. j < length (nc_modules s) \<Longrightarrow> same_modules s (snd (sync_modules dm is js s))"
proof (induction js arbitrary: s)
  case (Cons j js)
  obtain ok s1 where one: "sync_module dm is j s = (ok, s1)" by fastforce
  have "same_modules s s1" using sync_module_same [of j s dm "is"] one Cons.prems by simp
  moreover have "same_modules s1 (snd (sync_modules dm is js s1))"
    using Cons same_modules_length [OF calculation] by simp
  ultimately show ?case using Cons one same_modules_trans by (auto split: prod.split)
qed simp

lemma sync_once_same: "same_modules s (snd (sync_early_native_reports_once dm s))"
  using sync_modules_same by (auto simp: sync_early_native_reports_once_def split: option.split)

lemma maybe_start_same: "same_modules s (snd (maybe_start_deferred_native_sync dm thread_ok s))"
  using sync_once_same [of s dm] by (auto simp: maybe_start_deferred_native_sync_def split: prod.split)

lemma restore_policy_same [simp]: "same_modules s (restore_native_load_policy s)"
  by (simp add: same_modules_def restore_native_load_policy_def)

lemma sync_attempts_same: "same_modules s (snd (sync_attempts dms n s))"
proof (induction n arbitrary: dms s)
  case (Suc n)
  obtain ok s1 where one: "sync_early_native_reports_once (dms 0) s = (ok, s1)" by fastforce
  have s: "same_modules s s1" using sync_once_same [of s "dms 0"] one by simp
  have "same_modules s1 (snd (if ok then (True, restore_native_load_policy s1) else sync_attempts (\<lambda>k. dms (Suc k)) n s1))"
    using Suc by simp
  then show ?case using same_modules_trans [OF s] one by simp
qed simp

section \<open>The whole start\<close>

lemma core_entry_frame:
  assumes "daemon_ok dm"
  shows "nc_fds (snd (zygisk_core_entry p generation las dm dm' link thread_ok fds)) = close_early_packet (p - 1) fds"
    and "core_ok (snd (zygisk_core_entry p generation las dm dm' link thread_ok fds))"
proof -
  define packet_fd where "packet_fd = (if 0 < p then p - 1 else - 1)"
  define s0 where "s0 = (core_initial packet_fd fds)\<lparr>nc_generation := generation\<rparr>"
  define s1 where "s1 = load_matching_modules dm link (load_early_modules las s0)"
  obtain started s2 where m: "maybe_start_deferred_native_sync dm' thread_ok s1 = (started, s2)" by fastforce
  have run: "zygisk_core_entry p generation las dm dm' link thread_ok fds = (started, restore_native_load_policy s2)"
    using m by (simp add: zygisk_core_entry_def core_start_def Let_def s1_def s0_def packet_fd_def)
  have same: "same_modules s1 (restore_native_load_policy s2)"
    using same_modules_trans [OF _ restore_policy_same] maybe_start_same [of s1 dm' thread_ok] m by simp
  have ok: "core_ok s0" by (simp add: s0_def core_initial_def core_ok_def)
  have "nc_fds s1 = close_early_packet packet_fd fds"
    using load_matching_frame(1) [OF assms] by (simp add: s1_def load_early_modules_frame s0_def core_initial_def)
  also have "\<dots> = close_early_packet (p - 1) fds" by (auto simp: packet_fd_def close_early_packet_def)
  finally show "nc_fds (snd (zygisk_core_entry p generation las dm dm' link thread_ok fds)) = close_early_packet (p - 1) fds"
    using run same by (simp add: same_modules_def)
  have "core_ok s1"
    unfolding s1_def by (rule load_matching_frame(2) [OF assms], rule load_early_modules_ok [OF ok])
  then show "core_ok (snd (zygisk_core_entry p generation las dm dm' link thread_ok fds))"
    using same_modules_ok [OF same] run by simp
qed

text \<open>C20: The native core loads no module twice and leaks neither libraries nor descriptors.  Whatever
  the linkers, the modules and the daemon answer, after its start the loaded modules have different
  ids, the libraries left loaded are exactly theirs, the trials to report later keep both, and the open
  descriptors are those of before without the early packet and what it names.\<close>

theorem native_modules_once:
  assumes "daemon_ok dm" and "zygisk_core_entry p generation las dm dm' link thread_ok fds = (started, s)"
    and "deferred_native_sync_main dms s = (ok, s')"
  shows "distinct (map mh_module_id (nc_modules s)) \<and> mset (nc_images s) = mset (map mh_module_id (nc_modules s)) \<and>
    map mh_module_id (nc_modules s') = map mh_module_id (nc_modules s) \<and> nc_images s' = nc_images s \<and>
    nc_fds s' = nc_fds s \<and> nc_fds s = close_early_packet (p - 1) fds"
  using core_entry_frame [OF assms(1), of p generation las dm' link thread_ok fds] assms(2,3)
    sync_attempts_same [of s dms 80]
  by (simp add: core_ok_def same_modules_def deferred_native_sync_main_def)

section \<open>The early packet is delivered\<close>

definition loaded_ids :: "native_core \<Rightarrow> string set" where
  "loaded_ids s = mh_module_id ` set (nc_modules s)"

lemma loaded_ids_map: "loaded_ids s = set (map mh_module_id (nc_modules s))"
  by (simp add: loaded_ids_def)

lemma load_fd_ids:
  "0 \<le> fd \<Longrightarrow> loaded_ids (snd (load_native_module_from_fd la info idx fd early s)) = loaded_ids s \<union>
     (if ni_module_id info \<noteq> [] \<and> ni_lib_path info \<noteq> [] \<and> loads la then {ni_module_id info} else {})"
  unfolding loaded_ids_map by (simp only: load_fd_frame(2)) simp

lemma close_ids [simp]: "loaded_ids (nc_close fd s) = loaded_ids s"
  by (simp add: loaded_ids_def)

lemma loaded_in_ids: "find_loaded_module x s = Some j \<Longrightarrow> x \<in> loaded_ids s"
  using loaded_index nth_mem by (fastforce simp: loaded_ids_def)

lemma load_early_entry_ids:
  "loaded_ids s \<subseteq> loaded_ids (load_early_entry la e fd s)"
  "early_entry_ok e \<Longrightarrow> 0 \<le> fd \<Longrightarrow> loads la \<Longrightarrow> ee_module_id e \<in> loaded_ids (load_early_entry la e fd s)"
  using loaded_in_ids
  by (auto simp: load_early_entry_def early_packet_entry_to_info_def Let_def early_entry_ok_def
      zp_early_entry_valid_def load_fd_ids split: option.splits)

lemma load_early_entries_ids:
  assumes "nc_fds s packet_fd = Some bs" "\<forall>ef \<in> set (packet_entries n (drop pos bs)). snd ef \<noteq> packet_fd"
    and "\<forall>ef \<in> set (packet_entries n (drop pos bs)). early_entry_ok (fst ef) \<and> 0 \<le> snd ef" and "\<And>k. loads (las k)"
  shows "loaded_ids s \<union> (\<lambda>ef. ee_module_id (fst ef)) ` set (packet_entries n (drop pos bs)) \<subseteq>
    loaded_ids (load_early_entries las packet_fd n pos s)"
  using assms
proof (induction n arbitrary: las pos s)
  case (Suc n)
  show ?case
  proof (cases "length bs < pos + 844")
    case True
    then have "packet_entries (Suc n) (drop pos bs) = []" by simp
    then show ?thesis using True Suc.prems(1) by simp
  next
    case False
    let ?e = "take 836 (drop pos bs)" and ?fd = "sint (get32 bs (pos + 836))"
    have es: "packet_entries (Suc n) (drop pos bs) = (?e, ?fd) # packet_entries n (drop (pos + 844) bs)"
      using False by (simp add: get32_def add.commute)
    define s1 where "s1 = load_early_entry (las 0) ?e ?fd s"
    have e: "early_entry_ok ?e" "0 \<le> ?fd" "?fd \<noteq> packet_fd" using Suc.prems es by auto
    have "nc_fds s1 packet_fd = Some bs" using e(3) Suc.prems(1) by (simp add: s1_def load_early_entry_frame)
    then have "loaded_ids s1 \<union> (\<lambda>ef. ee_module_id (fst ef)) ` set (packet_entries n (drop (pos + 844) bs)) \<subseteq>
        loaded_ids (load_early_entries (\<lambda>k. las (Suc k)) packet_fd n (pos + 844) s1)"
      by (rule Suc.IH) (use Suc.prems es in auto)
    moreover have "insert (ee_module_id ?e) (loaded_ids s) \<subseteq> loaded_ids s1"
      using load_early_entry_ids(1) load_early_entry_ids(2) [OF e(1,2)] Suc.prems(4) by (simp add: s1_def)
    ultimately show ?thesis using False Suc.prems(1) unfolding es by (auto simp: s1_def)
  qed
qed simp

lemma load_offered_ids: "loaded_ids s \<subseteq> loaded_ids (load_offered dm exe i s)"
proof (cases "dm_info dm i")
  case (Some info)
  show ?thesis
  proof (cases "find_loaded_module (ni_module_id info) s")
    case None
    obtain fd s' where r: "request_fd (dm_file dm i) s = (fd, s')" by fastforce
    then have "nc_modules s' = nc_modules s" by (auto simp: request_fd_def Let_def split: option.splits prod.splits if_splits)
    then have "loaded_ids s' = loaded_ids s" by (simp add: loaded_ids_def)
    then show ?thesis using Some None r by (auto simp: load_offered_def load_fd_ids not_less)
  next
    case (Some j)
    then show ?thesis
      using loaded_index [OF Some] renew_module_frame(3) [of j s] \<open>dm_info dm i = Some info\<close>
      by (simp add: load_offered_def loaded_ids_map del: set_map)
  qed
qed (simp add: load_offered_def)

lemma load_matching_ids: "loaded_ids s \<subseteq> loaded_ids (load_matching_modules dm link s)"
proof -
  have "loaded_ids s \<subseteq> loaded_ids (foldl (\<lambda>s i. load_offered dm exe i s) s is)" for exe "is"
    by (induction "is" arbitrary: s) (simp, metis foldl_Cons load_offered_ids subset_trans)
  then show ?thesis by (simp add: load_matching_modules_def split: option.split)
qed

lemma load_early_modules_ids:
  assumes "0 \<le> nc_packet_fd s" "nc_fds s (nc_packet_fd s) = Some bs" "open_packet bs = Some (n, rest)"
    and "\<forall>ef \<in> set (packet_entries n rest). snd ef \<noteq> nc_packet_fd s \<and> early_entry_ok (fst ef) \<and> 0 \<le> snd ef"
    and "\<And>k. loads (las k)"
  shows "(\<lambda>ef. ee_module_id (fst ef)) ` set (packet_entries n rest) \<subseteq> loaded_ids (load_early_modules las s)"
proof -
  have rest: "rest = drop 16 bs" using assms(3) by (auto simp: open_packet_def Let_def split: if_splits)
  let ?s = "s\<lparr>nc_packet_fd := - 1\<rparr>"
  have "(\<lambda>ef. ee_module_id (fst ef)) ` set (packet_entries n rest) \<subseteq> loaded_ids (load_early_entries las (nc_packet_fd s) n 16 ?s)"
    using load_early_entries_ids [of ?s "nc_packet_fd s" bs n 16 las] assms rest by auto
  then show ?thesis using assms(1-3) by (simp add: load_early_modules_def Let_def)
qed

lemma same_modules_ids: "same_modules s s' \<Longrightarrow> loaded_ids s' = loaded_ids s"
  by (simp add: same_modules_def loaded_ids_map del: set_map)

lemma core_entry_ids:
  assumes "0 < p"
  shows "loaded_ids (load_early_modules las ((core_initial (p - 1) fds)\<lparr>nc_generation := generation\<rparr>)) \<subseteq>
    loaded_ids (snd (zygisk_core_entry p generation las dm dm' link thread_ok fds))"
proof -
  define s1 where "s1 = load_matching_modules dm link (load_early_modules las ((core_initial (p - 1) fds)\<lparr>nc_generation := generation\<rparr>))"
  obtain started s2 where m: "maybe_start_deferred_native_sync dm' thread_ok s1 = (started, s2)" by fastforce
  have "loaded_ids (restore_native_load_policy s2) = loaded_ids s1"
    using same_modules_ids [OF same_modules_trans [OF _ restore_policy_same]] maybe_start_same [of s1 dm' thread_ok] m by simp
  moreover have "zygisk_core_entry p generation las dm dm' link thread_ok fds = (started, restore_native_load_policy s2)"
    using m assms by (simp add: zygisk_core_entry_def core_start_def Let_def s1_def)
  ultimately show ?thesis using load_matching_ids by (simp add: s1_def)
qed

text \<open>What a staged packet promises to its readers.\<close>

lemma packet_read:
  assumes "packet_names a es fds packet_fd fds'" "\<forall>e \<in> set es. early_entry_ok e"
  shows "\<exists>bs n rest places. fds' packet_fd = Some bs \<and> open_packet bs = Some (n, rest) \<and> packet_entries n rest \<noteq> [] \<and>
    staged_ok (pa_module a) es places (packet_entries n rest) fds (fds'(packet_fd := None)) \<and>
    (\<forall>ef \<in> set (packet_entries n rest). snd ef \<noteq> packet_fd \<and> early_entry_ok (fst ef) \<and> 0 \<le> snd ef)"
proof -
  obtain bs n rest places where p: "fds' packet_fd = Some bs" "open_packet bs = Some (n, rest)" "packet_entries n rest \<noteq> []"
      "staged_ok (pa_module a) es places (packet_entries n rest) fds (fds'(packet_fd := None))"
    using assms(1) by (auto simp: packet_names_def)
  have "snd ef \<noteq> packet_fd \<and> early_entry_ok (fst ef) \<and> 0 \<le> snd ef" if ef: "ef \<in> set (packet_entries n rest)" for ef
  proof -
    obtain k where "k \<in> set places" "fst ef = es ! k" "(fds'(packet_fd := None)) (snd ef) = Some (sa_content (pa_module a k))"
      using staged_fd_open [OF p(4) ef] by blast
    moreover have "0 \<le> snd ef" "k < length es" if "k \<in> set places" for k using p(4) ef that by (auto simp: staged_ok_def)
    ultimately show ?thesis using assms(2) by (auto split: if_splits)
  qed
  then show ?thesis using p by blast
qed

text \<open>C7: The early packet delivers its modules from the kernel to the core and leaves nothing behind.
  When the kernel staged the modules of a target in a process, the native core that is entered with the
  packet ends with the descriptors the process had before, and so does the loader when it gives up; the
  packet names, in order, modules of the snapshot for this target with descriptors of their libraries,
  and every one of them is loaded if the linkers load what they are given.\<close>

theorem early_packet_delivered:
  assumes "packet_answers_ok a" and "early_ok loaded" and "daemon_ok dm"
    and "zp_stage_early_native_packet a loaded target_type (Some t) compat_abi s0 = (0, st, s)"
    and "zygisk_core_entry (ep_packet_fd st + 1) generation las dm dm' link thread_ok (sg_fds s) = (started, c)"
  shows "nc_fds c = sg_fds s0 \<and> close_early_packet (ep_packet_fd st) (sg_fds s) = sg_fds s0 \<and>
    (\<exists>places staged. staged \<noteq> [] \<and>
       staged_ok (pa_module a) (early_matches target_type t compat_abi (en_entries loaded)) places staged
         (sg_fds s0) ((sg_fds s)(ep_packet_fd st := None)) \<and>
       ((\<forall>k. loads (las k)) \<longrightarrow> (\<forall>ef \<in> set staged. ee_module_id (fst ef) \<in> loaded_ids c)))"
proof -
  let ?es = "early_matches target_type t compat_abi (en_entries loaded)" and ?p = "ep_packet_fd st"
  have es: "\<forall>e \<in> set ?es. early_entry_ok e" using assms(2) early_matches_subset by (auto simp: early_ok_def)
  have names: "packet_names a ?es (sg_fds s0) ?p (sg_fds s)" "sg_fds s0 ?p = None"
    using staged_packet_cases [OF assms(1,2,4)] by auto
  have closed: "close_early_packet ?p (sg_fds s) = sg_fds s0"
    by (rule packet_closed [OF names(1) _ names(2)]) (use es in \<open>simp add: early_entry_ok_def\<close>)
  moreover have "nc_fds c = sg_fds s0"
    using core_entry_frame(1) [OF assms(3), where p = "?p + 1" and fds = "sg_fds s"] assms(5) closed by (metis add_diff_cancel_right' snd_conv)
  moreover obtain bs n rest places where p: "sg_fds s ?p = Some bs" "open_packet bs = Some (n, rest)" "packet_entries n rest \<noteq> []"
      "staged_ok (pa_module a) ?es places (packet_entries n rest) (sg_fds s0) ((sg_fds s)(?p := None))"
      "\<forall>ef \<in> set (packet_entries n rest). snd ef \<noteq> ?p \<and> early_entry_ok (fst ef) \<and> 0 \<le> snd ef"
    using packet_read [OF names(1) es] by blast
  moreover have "(\<lambda>ef. ee_module_id (fst ef)) ` set (packet_entries n rest) \<subseteq> loaded_ids c" if "\<forall>k. loads (las k)"
  proof -
    have pos: "0 \<le> ?p" using names(1) by (simp add: packet_names_def)
    have "(\<lambda>ef. ee_module_id (fst ef)) ` set (packet_entries n rest) \<subseteq>
        loaded_ids (load_early_modules las ((core_initial ?p (sg_fds s))\<lparr>nc_generation := generation\<rparr>))"
      by (rule load_early_modules_ids) (use p pos that in \<open>auto simp: core_initial_def\<close>)
    then show ?thesis using core_entry_ids [where p = "?p + 1" and las = las and fds = "sg_fds s" and generation = generation and dm = dm and
          dm' = dm' and link = link and thread_ok = thread_ok] assms(5) pos by simp
  qed
  ultimately show ?thesis by blast
qed

section \<open>A sample\<close>

definition char_array :: "nat \<Rightarrow> string \<Rightarrow> u8 list" where
  "char_array n cs = ascii cs @ replicate (n - length cs) 0"

definition vold_entry :: "u8 list" where
  "vold_entry = [1, 2, 0, 0] @ char_array 64 ''trace'' @ char_array 256 ''vold'' @ char_array 512 ''/l.so''"

definition vold_snapshot :: early_native where
  "vold_snapshot = early_initial\<lparr>en_entries := [vold_entry], en_loaded := True, en_enabled := True\<rparr>"

definition vold_process :: staging where
  "vold_process = \<lparr>sg_fds = Map.empty, sg_load = empty_policy, sg_temp = sample_state\<rparr>"

definition vold_stage :: stage_answers where
  "vold_stage = \<lparr>sa_open_error = 0, sa_regular = True, sa_content = [7], sa_alloc = True, sa_read = 1, sa_request = (Some 20, 10),
     sa_env = (\<lambda>_. sample_env sample_db), sa_shmem = 0, sa_write = 1, sa_fd = Inr 100\<rparr>"

definition vold_answers :: packet_answers where
  "vold_answers = \<lparr>pa_alloc_matches = True, pa_alloc_packet = True, pa_module = (\<lambda>_. vold_stage), pa_shmem = 0, pa_write = 860,
     pa_fd = Inr 100\<rparr>"

definition vold_loads :: load_answers where
  "vold_loads = \<lparr>la_yuki = True, la_by_name = False, la_by_path = False, la_module = Some (4, True), la_report = (0, False)\<rparr>"

definition silent_daemon :: daemon_answers where
  "silent_daemon = \<lparr>dm_count = None, dm_info = (\<lambda>_. None), dm_file = (\<lambda>_. None), dm_load = (\<lambda>_. vold_loads)\<rparr>"

lemma vold_entry_ok: "early_entry_ok vold_entry"
  by code_simp

lemma vold_matches: "early_matches 1 ''vold'' False [vold_entry] = [vold_entry]"
  by code_simp

lemma vold_id: "ee_module_id vold_entry = ''trace''"
  by code_simp

lemma unused_first: "get_unused_fd (Inr 100) Map.empty = 0"
  using find_upt_Some [of 0 100 "\<lambda>i. True"] by (simp add: get_unused_fd_def)

lemma unused_second: "get_unused_fd (Inr 100) [0 \<mapsto> bs] = 1"
  using find_upt_Some [of 1 100 "\<lambda>i. [0 \<mapsto> bs] (int i) = None"] by (simp add: get_unused_fd_def)

lemma vold_staged:
  "\<exists>st s. zp_stage_early_native_packet vold_answers vold_snapshot 1 (Some ''vold'') False vold_process = (0, st, s)"
proof -
  obtain s1 where one: "zp_stage_fd vold_stage True vold_process = (0, s1)" and fds: "sg_fds s1 = [0 \<mapsto> [7]]"
    by (auto simp: zp_stage_fd_def vold_stage_def Let_def LOADER_MAX_SZ_def vold_process_def unused_first fd_install_def)
  have "length (packet_bytes [(vold_entry, 0)]) = 860"
    using vold_entry_ok by (simp add: packet_bytes_def packet_header_def packet_entry_def early_entry_ok_def)
  then show ?thesis
    using one fds unused_second
    by (auto simp: zp_stage_early_native_packet_def vold_answers_def vold_snapshot_def early_initial_def vold_matches Let_def
        zp_install_packet_fd_def)
qed

theorem early_packet_delivered_witness:
  "\<exists>st s started c. zp_stage_early_native_packet vold_answers vold_snapshot 1 (Some ''vold'') False vold_process = (0, st, s) \<and>
     zygisk_core_entry (ep_packet_fd st + 1) 5 (\<lambda>_. vold_loads) silent_daemon silent_daemon None False (sg_fds s) = (started, c) \<and>
     ''trace'' \<in> loaded_ids c \<and> nc_fds c = Map.empty"
proof -
  have answers: "packet_answers_ok vold_answers"
    by (simp add: packet_answers_ok_def vold_answers_def vold_stage_def answer_ok_def)
  have snapshot: "early_ok vold_snapshot" using vold_entry_ok by (simp add: early_ok_def vold_snapshot_def)
  have daemon: "daemon_ok silent_daemon" by (simp add: daemon_ok_def silent_daemon_def)
  obtain st s where run: "zp_stage_early_native_packet vold_answers vold_snapshot 1 (Some ''vold'') False vold_process = (0, st, s)"
    using vold_staged by blast
  obtain started c where core: "zygisk_core_entry (ep_packet_fd st + 1) 5 (\<lambda>_. vold_loads) silent_daemon silent_daemon None False
      (sg_fds s) = (started, c)" by fastforce
  have loads: "loads vold_loads" by (simp add: loads_def vold_loads_def module_supported_def)
  note d = early_packet_delivered [OF answers snapshot daemon run core]
  obtain places staged where st: "staged \<noteq> []"
      "staged_ok (pa_module vold_answers) [vold_entry] places staged (sg_fds vold_process) ((sg_fds s)(ep_packet_fd st := None))"
      "\<forall>ef \<in> set staged. ee_module_id (fst ef) \<in> loaded_ids c"
    using d loads by (auto simp: vold_snapshot_def vold_matches)
  have "map fst staged = map ((!) [vold_entry]) places" "set places \<subseteq> {..<1}" using st(2) by (simp_all add: staged_ok_def)
  then have "fst (hd staged) = vold_entry" using st(1) by (cases staged; cases places) auto
  then have "''trace'' \<in> loaded_ids c" using st(1,3) vold_id by (metis hd_in_set)
  moreover have "nc_fds c = Map.empty" using d by (simp add: vold_process_def)
  ultimately show ?thesis using run core by blast
qed

definition offering_daemon :: daemon_answers where
  "offering_daemon = \<lparr>dm_count = Some 1,
     dm_info = (\<lambda>_. Some \<lparr>ni_target_type = TARGET_NAME, ni_has_companion = True, ni_module_id = ''trace'', ni_target = ''vold'',
       ni_lib_path = ''/l.so''\<rparr>),
     dm_file = (\<lambda>_. Some ([7], Inr 100)), dm_load = (\<lambda>_. vold_loads)\<rparr>"

theorem native_modules_once_witness:
  "\<exists>started s ok s'. zygisk_core_entry 0 5 (\<lambda>_. vold_loads) offering_daemon offering_daemon (Some ''/system/bin/vold'') False
       Map.empty = (started, s) \<and>
     deferred_native_sync_main (\<lambda>_. offering_daemon) s = (ok, s') \<and> distinct (map mh_module_id (nc_modules s')) \<and> nc_fds s' = Map.empty"
proof -
  have daemon: "daemon_ok offering_daemon" by (simp add: daemon_ok_def offering_daemon_def answer_ok_def)
  obtain started s where core: "zygisk_core_entry 0 5 (\<lambda>_. vold_loads) offering_daemon offering_daemon (Some ''/system/bin/vold'') False
      Map.empty = (started, s)" by fastforce
  obtain ok s' where later: "deferred_native_sync_main (\<lambda>_. offering_daemon) s = (ok, s')" by fastforce
  show ?thesis using native_modules_once [OF daemon core later] core later by (auto simp: close_early_packet_def)
qed

end
