(* ===== verification/Zygote_Runtime.thy ===== *)
theory Zygote_Runtime
  imports Zygote_Guard
begin

text \<open>
  The table of injected processes that \<^verbatim>\<open>kernel/feature/zygote_probe.c\<close> keeps for the control program:
  one record for each zygote and native process the probe handles, and one for each module such a
  process reports.

  What the kernel knows about a process at one moment, its exit state and its start time, is a function
  \<open>task_view\<close> from pids; an operation that looks processes up at several moments takes a view for each.
\<close>

section \<open>Data\<close>

abbreviation (input) KIND_ZYGOTE :: u8 where "KIND_ZYGOTE \<equiv> 1"
abbreviation (input) KIND_NATIVE :: u8 where "KIND_NATIVE \<equiv> 2"

abbreviation (input) STATE_DETECTED :: u8 where "STATE_DETECTED \<equiv> 1"
abbreviation (input) STATE_REDIRECTED :: u8 where "STATE_REDIRECTED \<equiv> 2"
abbreviation (input) STATE_INJECTED :: u8 where "STATE_INJECTED \<equiv> 3"
abbreviation (input) STATE_EXITED :: u8 where "STATE_EXITED \<equiv> 6"

record yz_runtime_record =
  rr_pid :: u32
  rr_generation :: u32
  rr_restarts :: u32
  rr_kind :: u8
  rr_state :: u8
  rr_abi :: u8
  rr_target_type :: u8
  rr_flags :: u32
  rr_process :: string
  rr_target :: string
  rr_module_id :: string

record zp_runtime_entry =
  zr_record :: yz_runtime_record
  zr_start_boottime :: u64

record runtime =
  rt_records :: "zp_runtime_entry list"
  rt_generation :: u32

abbreviation (input) RECORD_MAX :: nat where "RECORD_MAX \<equiv> 128"

definition empty_record :: yz_runtime_record where
  "empty_record = \<lparr>rr_pid = 0, rr_generation = 0, rr_restarts = 0, rr_kind = 0, rr_state = 0, rr_abi = 0,
     rr_target_type = 0, rr_flags = 0, rr_process = [], rr_target = [], rr_module_id = []\<rparr>"

definition runtime_initial :: runtime where
  "runtime_initial = \<lparr>rt_records = replicate RECORD_MAX \<lparr>zr_record = empty_record, zr_start_boottime = 0\<rparr>, rt_generation = 0\<rparr>"

text \<open>For each pid with a process, whether it has exited, and its start time.\<close>

type_synonym task_view = "u32 \<Rightarrow> (bool \<times> u64) option"

section \<open>Generations and processes\<close>

definition zp_runtime_next_generation_locked :: "u32 \<Rightarrow> u32" where
  "zp_runtime_next_generation_locked g = (if g + 1 = 0 then 1 else g + 1)"

definition zp_runtime_get_task_start :: "task_view \<Rightarrow> u32 \<Rightarrow> u64 option" where
  "zp_runtime_get_task_start tasks pid =
     (case tasks pid of None \<Rightarrow> None | Some (exited, start) \<Rightarrow> if exited then None else Some start)"

definition zp_runtime_task_alive :: "task_view \<Rightarrow> u32 \<Rightarrow> u64 \<Rightarrow> bool" where
  "zp_runtime_task_alive tasks pid start \<longleftrightarrow> zp_runtime_get_task_start tasks pid = Some start"

section \<open>Searching the table\<close>

definition find_entry :: "(zp_runtime_entry \<Rightarrow> bool) \<Rightarrow> zp_runtime_entry list \<Rightarrow> nat option" where
  "find_entry P es = find (\<lambda>i. P (es ! i)) [0..<length es]"

definition is_base_of :: "u32 \<Rightarrow> u64 \<Rightarrow> u8 \<Rightarrow> u32 \<Rightarrow> zp_runtime_entry \<Rightarrow> bool" where
  "is_base_of pid start kind generation e \<longleftrightarrow>
     rr_pid (zr_record e) = pid \<and> zr_start_boottime e = start \<and> rr_kind (zr_record e) = kind \<and>
     rr_generation (zr_record e) = generation \<and> rr_module_id (zr_record e) = [] \<and> rr_state (zr_record e) \<noteq> STATE_EXITED"

definition zp_runtime_find_base_locked :: "u32 \<Rightarrow> u64 \<Rightarrow> u8 \<Rightarrow> u32 \<Rightarrow> zp_runtime_entry list \<Rightarrow> nat option" where
  "zp_runtime_find_base_locked pid start kind generation es = find_entry (is_base_of pid start kind generation) es"

definition zp_runtime_find_native_pid_locked :: "u32 \<Rightarrow> zp_runtime_entry list \<Rightarrow> nat option" where
  "zp_runtime_find_native_pid_locked pid es =
     find_entry (\<lambda>e. rr_pid (zr_record e) = pid \<and> rr_kind (zr_record e) = KIND_NATIVE \<and> rr_module_id (zr_record e) = []) es"

definition zp_runtime_find_zygote_locked :: "string \<Rightarrow> u8 \<Rightarrow> zp_runtime_entry list \<Rightarrow> nat option" where
  "zp_runtime_find_zygote_locked target abi es =
     find_entry (\<lambda>e. rr_pid (zr_record e) \<noteq> 0 \<and> rr_kind (zr_record e) = KIND_ZYGOTE \<and> rr_abi (zr_record e) = abi \<and>
       rr_module_id (zr_record e) = [] \<and> rr_target (zr_record e) = target) es"

definition zp_runtime_find_module_locked :: "u32 \<Rightarrow> string \<Rightarrow> zp_runtime_entry list \<Rightarrow> nat option" where
  "zp_runtime_find_module_locked pid module_id es =
     find_entry (\<lambda>e. rr_pid (zr_record e) = pid \<and> rr_kind (zr_record e) = KIND_NATIVE \<and> rr_module_id (zr_record e) = module_id) es"

text \<open>A free slot, or else the exited record of the lowest generation, or else such a module record.\<close>

definition older :: "zp_runtime_entry list \<Rightarrow> nat \<Rightarrow> nat option \<Rightarrow> nat option" where
  "older es i best =
     (case best of
        None \<Rightarrow> Some i
      | Some b \<Rightarrow> if rr_generation (zr_record (es ! i)) < rr_generation (zr_record (es ! b)) then Some i else Some b)"

fun pick_slot :: "zp_runtime_entry list \<Rightarrow> nat option \<Rightarrow> nat option \<Rightarrow> nat option \<Rightarrow> nat list \<Rightarrow> nat option" where
  "pick_slot es exclude exited module [] = (case exited of Some i \<Rightarrow> Some i | None \<Rightarrow> module)"
| "pick_slot es exclude exited module (i # is) =
     (if exclude = Some i then pick_slot es exclude exited module is
      else if rr_pid (zr_record (es ! i)) = 0 then Some i
      else pick_slot es exclude
        (if rr_state (zr_record (es ! i)) = STATE_EXITED then older es i exited else exited)
        (if rr_module_id (zr_record (es ! i)) \<noteq> [] then older es i module else module) is)"

definition zp_runtime_pick_slot_locked :: "nat option \<Rightarrow> zp_runtime_entry list \<Rightarrow> nat option" where
  "zp_runtime_pick_slot_locked exclude es = pick_slot es exclude None None [0..<length es]"

section \<open>States\<close>

text \<open>The entry and the generation after its state is set.\<close>

definition zp_runtime_set_state_locked :: "u8 \<Rightarrow> zp_runtime_entry \<Rightarrow> u32 \<Rightarrow> zp_runtime_entry \<times> u32" where
  "zp_runtime_set_state_locked state e g =
     (if rr_state (zr_record e) = state then (e, g)
      else (e\<lparr>zr_record := (zr_record e)\<lparr>rr_state := state\<rparr>\<rparr>, zp_runtime_next_generation_locked g))"

text \<open>The loops over the table that mark the records with \<open>P\<close> as exited.\<close>

fun mark_exited :: "(zp_runtime_entry \<Rightarrow> bool) \<Rightarrow> zp_runtime_entry list \<Rightarrow> u32 \<Rightarrow> zp_runtime_entry list \<times> u32" where
  "mark_exited P [] g = ([], g)"
| "mark_exited P (e # es) g =
     (case (if P e then zp_runtime_set_state_locked STATE_EXITED e g else (e, g)) of
        (e', g') \<Rightarrow> (case mark_exited P es g' of (es', g'') \<Rightarrow> (e' # es', g'')))"

definition has_died :: "task_view \<Rightarrow> zp_runtime_entry \<Rightarrow> bool" where
  "has_died tasks e \<longleftrightarrow>
     \<not> (rr_pid (zr_record e) = 0 \<or> rr_state (zr_record e) = STATE_EXITED) \<and>
     \<not> zp_runtime_task_alive tasks (rr_pid (zr_record e)) (zr_start_boottime e)"

definition zp_runtime_refresh_exited_locked :: "task_view \<Rightarrow> runtime \<Rightarrow> runtime" where
  "zp_runtime_refresh_exited_locked tasks r =
     (case mark_exited (has_died tasks) (rt_records r) (rt_generation r) of
        (es, g) \<Rightarrow> \<lparr>rt_records = es, rt_generation = g\<rparr>)"

definition zp_runtime_set_state :: "u32 \<Rightarrow> u32 \<Rightarrow> u8 \<Rightarrow> runtime \<Rightarrow> runtime" where
  "zp_runtime_set_state pid generation state r =
     (if generation = 0 then r
      else case find_entry (\<lambda>e. rr_pid (zr_record e) = pid \<and> rr_generation (zr_record e) = generation \<and>
          rr_module_id (zr_record e) = []) (rt_records r) of
        None \<Rightarrow> r
      | Some i \<Rightarrow>
          (case zp_runtime_set_state_locked state (rt_records r ! i) (rt_generation r) of
             (e, g) \<Rightarrow> \<lparr>rt_records = (rt_records r)[i := e], rt_generation = g\<rparr>))"

section \<open>A process appears\<close>

definition is_module_of :: "u32 \<Rightarrow> zp_runtime_entry \<Rightarrow> bool" where
  "is_module_of pid e \<longleftrightarrow>
     rr_pid (zr_record e) = pid \<and> rr_kind (zr_record e) = KIND_NATIVE \<and> rr_module_id (zr_record e) \<noteq> []"

definition slot_or_pick :: "nat option \<Rightarrow> zp_runtime_entry list \<Rightarrow> nat option" where
  "slot_or_pick slot es = (case slot of Some i \<Rightarrow> Some i | None \<Rightarrow> zp_runtime_pick_slot_locked None es)"

text \<open>Pid and start time are those of the current process; the result is the generation of its record.\<close>

definition begin_record ::
  "u32 \<Rightarrow> u64 \<Rightarrow> u8 \<Rightarrow> u8 \<Rightarrow> u8 \<Rightarrow> u32 \<Rightarrow> string \<Rightarrow> string \<Rightarrow> u32 \<Rightarrow> u32 \<Rightarrow> zp_runtime_entry" where
  "begin_record pid start kind abi target_type flags process target restarts generation =
     \<lparr>zr_record = \<lparr>rr_pid = pid, rr_generation = generation, rr_restarts = restarts, rr_kind = kind,
        rr_state = STATE_DETECTED, rr_abi = abi, rr_target_type = target_type, rr_flags = flags,
        rr_process = zp_copy_name 256 process, rr_target = zp_copy_name 256 target, rr_module_id = []\<rparr>,
      zr_start_boottime = start\<rparr>"

definition zp_runtime_begin ::
  "task_view \<Rightarrow> u32 \<Rightarrow> u64 \<Rightarrow> u8 \<Rightarrow> u8 \<Rightarrow> u8 \<Rightarrow> u32 \<Rightarrow> string \<Rightarrow> string \<Rightarrow> runtime \<Rightarrow> u32 \<times> runtime" where
  "zp_runtime_begin tasks pid start kind abi target_type flags process target r0 =
     (let r = zp_runtime_refresh_exited_locked tasks r0;
          matched = (if kind = KIND_ZYGOTE then zp_runtime_find_zygote_locked target abi (rt_records r)
                     else zp_runtime_find_native_pid_locked pid (rt_records r));
          marked = (if kind = KIND_ZYGOTE then (rt_records r, rt_generation r)
                    else mark_exited (is_module_of pid) (rt_records r) (rt_generation r));
          es = fst marked; g = snd marked
      in case slot_or_pick matched es of
           None \<Rightarrow> (0, \<lparr>rt_records = es, rt_generation = g\<rparr>)
         | Some i \<Rightarrow>
             (let restarts = (if kind = KIND_ZYGOTE \<and> matched \<noteq> None then rr_restarts (zr_record (es ! i)) + 1 else 0);
                  generation = zp_runtime_next_generation_locked g
              in (generation,
                  \<lparr>rt_records = es[i := begin_record pid start kind abi target_type flags process target restarts generation],
                   rt_generation = generation\<rparr>)))"

definition zp_runtime_read_process :: "nat \<Rightarrow> char option list option \<Rightarrow> string" where
  "zp_runtime_read_process process_len area =
     (case area of
        None \<Rightarrow> []
      | Some bytes \<Rightarrow> (case zp_next_arg process_len bytes of None \<Rightarrow> [] | Some (arg, rest) \<Rightarrow> arg))"

section \<open>Queries and reports\<close>

record yz_runtime_query =
  rq_count :: u32
  rq_generation :: u32
  rq_safe_mode :: u32
  rq_zygote_crashes :: u32
  rq_safe_mode_zygote :: string

text \<open>\<open>entries\<close> and \<open>query\<close> are whether the pointers are not null; the list is what is stored at \<open>entries\<close>.\<close>

definition yz_zygote_probe_get_runtime ::
  "task_view \<Rightarrow> bool \<Rightarrow> u32 \<Rightarrow> bool \<Rightarrow> safemode \<Rightarrow> runtime \<Rightarrow> (errno + yz_runtime_record list \<times> yz_runtime_query) \<times> runtime" where
  "yz_zygote_probe_get_runtime tasks entries capacity query s r =
     (if \<not> query \<or> of_nat RECORD_MAX < capacity \<or> (capacity \<noteq> 0 \<and> \<not> entries) then (Inl EINVAL, r)
      else let r' = zp_runtime_refresh_exited_locked tasks r;
               rs = take (unat capacity) (filter (\<lambda>rr. rr_pid rr \<noteq> 0) (map zr_record (rt_records r')))
           in (Inr (rs, \<lparr>rq_count = of_nat (length rs), rq_generation = rt_generation r',
                  rq_safe_mode = (if sm_active s then 1 else 0), rq_zygote_crashes = sm_crashes s,
                  rq_safe_mode_zygote = zp_copy_name 64 (sm_zygote s)\<rparr>), r'))"

record yz_runtime_report =
  rp_pid :: u32
  rp_generation :: u32
  rp_kind :: u8
  rp_module_id :: string

text \<open>The record of a module of the process at slot \<open>b\<close>; when the entry is up to date nothing changes.\<close>

definition report_module :: "string \<Rightarrow> nat \<Rightarrow> nat \<Rightarrow> runtime \<Rightarrow> runtime" where
  "report_module module_id b m r =
     (let base = rt_records r ! b; e = rt_records r ! m in
      if rr_generation (zr_record e) \<noteq> rr_generation (zr_record base) \<or> rr_state (zr_record e) \<noteq> STATE_INJECTED \<or>
         zr_start_boottime e \<noteq> zr_start_boottime base
      then \<lparr>rt_records = (rt_records r)[m := base\<lparr>zr_record := (zr_record base)\<lparr>rr_module_id := module_id, rr_state := STATE_INJECTED\<rparr>\<rparr>],
            rt_generation = zp_runtime_next_generation_locked (rt_generation r)\<rparr>
      else r)"

definition module_slot :: "yz_runtime_report \<Rightarrow> nat \<Rightarrow> zp_runtime_entry list \<Rightarrow> nat option" where
  "module_slot report b es =
     (case zp_runtime_find_module_locked (rp_pid report) (zp_copy_name 64 (rp_module_id report)) es of
        Some m \<Rightarrow> Some m
      | None \<Rightarrow> zp_runtime_pick_slot_locked (Some b) es)"

definition report_base :: "yz_runtime_report \<Rightarrow> nat \<Rightarrow> runtime \<Rightarrow> errno option \<times> runtime" where
  "report_base report b r =
     (case zp_runtime_set_state_locked STATE_INJECTED (rt_records r ! b) (rt_generation r) of
        (e, g) \<Rightarrow>
          (let r' = \<lparr>rt_records = (rt_records r)[b := e], rt_generation = g\<rparr>
           in if rp_kind report = KIND_ZYGOTE then (None, r')
              else case module_slot report b (rt_records r') of
                None \<Rightarrow> (Some ENOSPC, r')
              | Some m \<Rightarrow> (None, report_module (zp_copy_name 64 (rp_module_id report)) b m r')))"

definition report_refused :: "yz_runtime_report option \<Rightarrow> bool" where
  "report_refused report =
     (case report of
        None \<Rightarrow> True
      | Some p \<Rightarrow>
          rp_pid p = 0 \<or> rp_generation p = 0 \<or> (rp_kind p \<noteq> KIND_ZYGOTE \<and> rp_kind p \<noteq> KIND_NATIVE) \<or>
          (rp_kind p = KIND_NATIVE \<and> zp_copy_name 64 (rp_module_id p) = []))"

text \<open>The three views are those of the lookup before the lock, of the refresh and of the last check.\<close>

definition yz_zygote_probe_report_runtime ::
  "task_view \<Rightarrow> task_view \<Rightarrow> task_view \<Rightarrow> yz_runtime_report option \<Rightarrow> runtime \<Rightarrow> errno option \<times> runtime" where
  "yz_zygote_probe_report_runtime tasks0 tasks1 tasks2 report r0 =
     (if report_refused report then (Some EINVAL, r0)
      else case report of None \<Rightarrow> (Some EINVAL, r0) | Some p \<Rightarrow>
        (case zp_runtime_get_task_start tasks0 (rp_pid p) of
           None \<Rightarrow> (Some ESRCH, r0)
         | Some start \<Rightarrow>
             (let r = zp_runtime_refresh_exited_locked tasks1 r0 in
              case zp_runtime_find_base_locked (rp_pid p) start (rp_kind p) (rp_generation p) (rt_records r) of
                None \<Rightarrow> (Some ESRCH, r)
              | Some b \<Rightarrow>
                  (let base = rt_records r ! b in
                   if \<not> zp_runtime_task_alive tasks2 (rr_pid (zr_record base)) (zr_start_boottime base) then
                     (case zp_runtime_set_state_locked STATE_EXITED base (rt_generation r) of
                        (e, g) \<Rightarrow> (Some ESRCH, \<lparr>rt_records = (rt_records r)[b := e], rt_generation = g\<rparr>))
                   else if rr_state (zr_record base) \<noteq> STATE_REDIRECTED \<and> rr_state (zr_record base) \<noteq> STATE_INJECTED
                   then (Some EAGAIN, r)
                   else report_base p b r))))"

section \<open>Lemmas on the table\<close>

definition with_state :: "u8 \<Rightarrow> zp_runtime_entry \<Rightarrow> zp_runtime_entry" where
  "with_state state e = e\<lparr>zr_record := (zr_record e)\<lparr>rr_state := state\<rparr>\<rparr>"

lemma with_state_simps [simp]:
  "rr_pid (zr_record (with_state s e)) = rr_pid (zr_record e)"
  "rr_generation (zr_record (with_state s e)) = rr_generation (zr_record e)"
  "rr_kind (zr_record (with_state s e)) = rr_kind (zr_record e)"
  "rr_abi (zr_record (with_state s e)) = rr_abi (zr_record e)"
  "rr_target (zr_record (with_state s e)) = rr_target (zr_record e)"
  "rr_module_id (zr_record (with_state s e)) = rr_module_id (zr_record e)"
  "rr_state (zr_record (with_state s e)) = s"
  "zr_start_boottime (with_state s e) = zr_start_boottime e"
  by (simp_all add: with_state_def)

lemma with_same_state: "rr_state (zr_record e) = s \<Longrightarrow> with_state s e = e"
  by (auto simp: with_state_def)

lemma set_state_entry: "fst (zp_runtime_set_state_locked s e g) = with_state s e"
  by (simp add: zp_runtime_set_state_locked_def with_same_state) (simp add: with_state_def)

lemma mark_exited_map:
  "fst (mark_exited P es g) = map (\<lambda>e. if P e then with_state STATE_EXITED e else e) es"
proof (induction es arbitrary: g)
  case (Cons e es)
  show ?case using Cons set_state_entry [of STATE_EXITED e g]
    by (cases "zp_runtime_set_state_locked STATE_EXITED e g") (auto simp: case_prod_beta)
qed simp

lemma refresh_records:
  "rt_records (zp_runtime_refresh_exited_locked tasks r) =
     map (\<lambda>e. if has_died tasks e then with_state STATE_EXITED e else e) (rt_records r)"
  using mark_exited_map [of "has_died tasks" "rt_records r" "rt_generation r"]
  by (simp add: zp_runtime_refresh_exited_locked_def case_prod_beta)

lemma find_entry_Some: "find_entry P es = Some i \<Longrightarrow> i < length es \<and> P (es ! i)"
  by (auto simp: find_entry_def find_Some_iff)

lemma find_entry_None: "find_entry P es = None \<Longrightarrow> i < length es \<Longrightarrow> \<not> P (es ! i)"
  by (auto simp: find_entry_def find_None_iff)

text \<open>The slots that may be given away: free, exited or a module's; the better ones are free or exited.\<close>

definition spare :: "zp_runtime_entry \<Rightarrow> bool" where
  "spare e \<longleftrightarrow> rr_pid (zr_record e) = 0 \<or> rr_state (zr_record e) = STATE_EXITED"

definition dispensable :: "zp_runtime_entry \<Rightarrow> bool" where
  "dispensable e \<longleftrightarrow> spare e \<or> rr_module_id (zr_record e) \<noteq> []"

lemma older_cases: "older es i best = Some j \<Longrightarrow> j = i \<or> best = Some j"
  by (simp add: older_def split: option.splits if_splits)

lemma older_not_None [simp]: "older es i best \<noteq> None"
  by (simp add: older_def split: option.splits)

lemma pick_slot_Some:
  "pick_slot es ex exited module is = Some j \<Longrightarrow>
     j \<in> set is \<and> ex \<noteq> Some j \<and> dispensable (es ! j) \<or> exited = Some j \<or> exited = None \<and> module = Some j"
proof (induction es ex exited module "is" rule: pick_slot.induct)
  case (2 es ex exited module i "is")
  show ?case
  proof (cases "ex = Some i \<or> rr_pid (zr_record (es ! i)) = 0")
    case True
    then show ?thesis using 2 by (auto simp: dispensable_def spare_def split: if_splits)
  next
    case False
    then have "j \<in> set is \<and> ex \<noteq> Some j \<and> dispensable (es ! j) \<or>
      (if rr_state (zr_record (es ! i)) = STATE_EXITED then older es i exited else exited) = Some j \<or>
      exited = None \<and> (if rr_module_id (zr_record (es ! i)) \<noteq> [] then older es i module else module) = Some j"
      using 2 by (auto split: if_splits)
    then show ?thesis
      using False older_cases by (fastforce simp: dispensable_def spare_def split: if_splits)
  qed
qed (auto split: option.splits)

lemma pick_slot_spare:
  "(\<exists>i \<in> set is. ex \<noteq> Some i \<and> spare (es ! i)) \<or> exited \<noteq> None \<Longrightarrow>
   (\<And>x. exited = Some x \<Longrightarrow> spare (es ! x)) \<Longrightarrow>
   \<exists>j. pick_slot es ex exited module is = Some j \<and> spare (es ! j)"
proof (induction es ex exited module "is" rule: pick_slot.induct)
  case (2 es ex exited module i "is")
  show ?case
  proof (cases "ex = Some i \<or> rr_pid (zr_record (es ! i)) = 0")
    case True
    then show ?thesis using 2 by (auto simp: spare_def)
  next
    case False
    let ?exited = "if rr_state (zr_record (es ! i)) = STATE_EXITED then older es i exited else exited"
    have "spare (es ! x)" if "?exited = Some x" for x
      using that 2(4) older_cases [of es i exited x] by (auto simp: spare_def split: if_splits)
    moreover have "(\<exists>i \<in> set is. ex \<noteq> Some i \<and> spare (es ! i)) \<or> ?exited \<noteq> None"
      using 2(3) False by (auto simp: spare_def)
    ultimately show ?thesis using False 2(2) by auto
  qed
qed auto

lemma pick_slot_module:
  "(\<exists>i \<in> set is. ex \<noteq> Some i \<and> rr_module_id (zr_record (es ! i)) \<noteq> []) \<or> exited \<noteq> None \<or> module \<noteq> None \<Longrightarrow>
   pick_slot es ex exited module is \<noteq> None"
proof (induction es ex exited module "is" rule: pick_slot.induct)
  case (2 es ex exited module i "is")
  show ?case
  proof (cases "ex = Some i \<or> rr_pid (zr_record (es ! i)) = 0")
    case True
    then show ?thesis using 2 by auto
  next
    case False
    have "older es i exited = None \<longleftrightarrow> False" "older es i module = None \<longleftrightarrow> False" by simp_all
    then show ?thesis using False 2(2,3) by (auto simp del: not_None_eq)
  qed
qed (auto split: option.splits)

lemma picked_slot:
  assumes "zp_runtime_pick_slot_locked ex es = Some j"
  shows "j < length es" and "ex \<noteq> Some j" and "dispensable (es ! j)"
  using pick_slot_Some [OF assms [unfolded zp_runtime_pick_slot_locked_def]] by auto

lemma picked_spare:
  assumes "i < length es" and "ex \<noteq> Some i" and "spare (es ! i)"
  shows "\<exists>j. zp_runtime_pick_slot_locked ex es = Some j \<and> spare (es ! j)"
proof -
  have "i \<in> set [0..<length es]" using assms(1) by simp
  then show ?thesis
    unfolding zp_runtime_pick_slot_locked_def using assms(2,3) by (intro pick_slot_spare) (blast, simp)
qed

section \<open>The invariant of the table\<close>

text \<open>What identifies the record of a process: the target and the ABI of a zygote, the pid of a native one.\<close>

definition base_key :: "zp_runtime_entry \<Rightarrow> (u8 \<times> string + u32) option" where
  "base_key e =
     (if rr_pid (zr_record e) = 0 \<or> rr_module_id (zr_record e) \<noteq> [] then None
      else if rr_kind (zr_record e) = KIND_ZYGOTE then Some (Inl (rr_abi (zr_record e), rr_target (zr_record e)))
      else if rr_kind (zr_record e) = KIND_NATIVE then Some (Inr (rr_pid (zr_record e)))
      else None)"

definition unique_keys :: "'k option list \<Rightarrow> bool" where
  "unique_keys ks \<longleftrightarrow> (\<forall>i < length ks. \<forall>j < length ks. i \<noteq> j \<longrightarrow> ks ! i = ks ! j \<longrightarrow> ks ! i = None)"

definition used_ok :: "zp_runtime_entry \<Rightarrow> bool" where
  "used_ok e \<longleftrightarrow>
     (if rr_pid (zr_record e) = 0 then zr_record e = empty_record else rr_generation (zr_record e) \<noteq> 0)"

definition runtime_ok :: "runtime \<Rightarrow> bool" where
  "runtime_ok r \<longleftrightarrow>
     length (rt_records r) = RECORD_MAX \<and> (\<forall>e \<in> set (rt_records r). used_ok e) \<and> unique_keys (map base_key (rt_records r))"

lemma base_key_with_state [simp]: "base_key (with_state s e) = base_key e"
  by (simp add: base_key_def)

lemma used_ok_with_state: "used_ok e \<Longrightarrow> rr_pid (zr_record e) \<noteq> 0 \<Longrightarrow> used_ok (with_state s e)"
  by (simp add: used_ok_def)

lemma next_generation_nonzero [simp]: "zp_runtime_next_generation_locked g \<noteq> 0"
  by (simp add: zp_runtime_next_generation_locked_def)

lemma unique_keys_update:
  assumes "unique_keys ks" and "k = None \<or> (\<forall>j < length ks. j \<noteq> i \<longrightarrow> ks ! j \<noteq> k)"
  shows "unique_keys (ks[i := k])"
  using assms unfolding unique_keys_def by (cases "i < length ks") (auto simp: nth_list_update)

lemma unique_keysD: "unique_keys ks \<Longrightarrow> i < length ks \<Longrightarrow> j < length ks \<Longrightarrow> i \<noteq> j \<Longrightarrow> ks ! i = ks ! j \<Longrightarrow> ks ! i = None"
  by (auto simp: unique_keys_def)

text \<open>Changing an entry keeps the invariant when no other entry has the new key.\<close>

lemma runtime_ok_update:
  assumes "runtime_ok r" "used_ok e"
    and "base_key e = None \<or> (\<forall>j < RECORD_MAX. j \<noteq> i \<longrightarrow> base_key (rt_records r ! j) \<noteq> base_key e)"
  shows "runtime_ok \<lparr>rt_records = (rt_records r)[i := e], rt_generation = g\<rparr>"
  using assms unique_keys_update [of "map base_key (rt_records r)" "base_key e" i] set_update_subset_insert [of "rt_records r" i e]
  by (auto simp: runtime_ok_def map_update)

lemma runtime_ok_same_key:
  assumes "runtime_ok r" "i < RECORD_MAX" "rr_pid (zr_record (rt_records r ! i)) \<noteq> 0"
  shows "runtime_ok \<lparr>rt_records = (rt_records r)[i := with_state s (rt_records r ! i)], rt_generation = g\<rparr>"
proof (rule runtime_ok_update [OF assms(1)])
  show "used_ok (with_state s (rt_records r ! i))"
    using assms by (intro used_ok_with_state) (auto simp: runtime_ok_def)
  show "base_key (with_state s (rt_records r ! i)) = None \<or>
    (\<forall>j < RECORD_MAX. j \<noteq> i \<longrightarrow> base_key (rt_records r ! j) \<noteq> base_key (with_state s (rt_records r ! i)))"
    using assms unique_keysD [of "map base_key (rt_records r)" _ i] by (fastforce simp: runtime_ok_def)
qed

lemma runtime_ok_marked:
  assumes "runtime_ok r" and "\<And>e. P e \<Longrightarrow> rr_pid (zr_record e) \<noteq> 0"
  shows "runtime_ok \<lparr>rt_records = map (\<lambda>e. if P e then with_state STATE_EXITED e else e) (rt_records r), rt_generation = g\<rparr>"
proof -
  have "base_key \<circ> (\<lambda>e. if P e then with_state STATE_EXITED e else e) = base_key"
    by (rule ext) simp
  then show ?thesis using assms used_ok_with_state by (auto simp: runtime_ok_def)
qed

lemma runtime_ok_records [simp]: "runtime_ok \<lparr>rt_records = rt_records r, rt_generation = g\<rparr> = runtime_ok r"
  by (simp add: runtime_ok_def)

lemma refresh_ok:
  assumes "runtime_ok r"
  shows "runtime_ok (zp_runtime_refresh_exited_locked tasks r)"
proof -
  obtain g where "zp_runtime_refresh_exited_locked tasks r =
      \<lparr>rt_records = map (\<lambda>e. if has_died tasks e then with_state STATE_EXITED e else e) (rt_records r), rt_generation = g\<rparr>"
    using refresh_records [of tasks r] by (cases "zp_runtime_refresh_exited_locked tasks r") simp
  then show ?thesis using runtime_ok_marked [OF assms, of "has_died tasks"] by (simp add: has_died_def)
qed

lemma set_state_ok:
  assumes "runtime_ok r" "i < RECORD_MAX" "rr_pid (zr_record (rt_records r ! i)) \<noteq> 0"
    and "zp_runtime_set_state_locked s (rt_records r ! i) (rt_generation r) = (e, g)"
  shows "runtime_ok \<lparr>rt_records = (rt_records r)[i := e], rt_generation = g\<rparr>"
  using runtime_ok_same_key [OF assms(1-3), of s g] assms(4) set_state_entry [of s "rt_records r ! i" "rt_generation r"] by simp

lemma set_runtime_state_ok:
  assumes "runtime_ok r"
  shows "runtime_ok (zp_runtime_set_state pid generation state r)"
proof (cases "find_entry (\<lambda>e. rr_pid (zr_record e) = pid \<and> rr_generation (zr_record e) = generation \<and>
          rr_module_id (zr_record e) = []) (rt_records r)")
  case None
  then show ?thesis using assms by (simp add: zp_runtime_set_state_def)
next
  case (Some i)
  show ?thesis
  proof (cases "generation = 0")
    case False
    have i: "i < RECORD_MAX" "rr_generation (zr_record (rt_records r ! i)) = generation"
      using find_entry_Some [OF Some] assms by (auto simp: runtime_ok_def)
    then have "rt_records r ! i \<in> set (rt_records r)" using assms by (simp add: runtime_ok_def)
    then have "used_ok (rt_records r ! i)" using assms by (simp add: runtime_ok_def)
    then have "rr_pid (zr_record (rt_records r ! i)) \<noteq> 0"
      using i False by (auto simp: used_ok_def empty_record_def)
    then show ?thesis
      using set_state_ok [OF assms i(1)] Some False by (auto simp: zp_runtime_set_state_def split: prod.split)
  qed (use assms in \<open>simp add: zp_runtime_set_state_def\<close>)
qed

definition begin_key :: "u32 \<Rightarrow> u8 \<Rightarrow> u8 \<Rightarrow> string \<Rightarrow> (u8 \<times> string + u32) option" where
  "begin_key pid kind abi target =
     (if kind = KIND_ZYGOTE then Some (Inl (abi, target)) else if kind = KIND_NATIVE then Some (Inr pid) else None)"

lemma base_key_begin:
  "pid \<noteq> 0 \<Longrightarrow> length target < 256 \<Longrightarrow>
   base_key (begin_record pid start kind abi target_type flags process target restarts generation) = begin_key pid kind abi target"
  by (simp add: base_key_def begin_record_def begin_key_def zp_copy_name_def)

lemma find_zygote_key:
  "zp_runtime_find_zygote_locked target abi es = find_entry (\<lambda>e. base_key e = Some (Inl (abi, target))) es"
  unfolding zp_runtime_find_zygote_locked_def by (rule arg_cong [where f = "\<lambda>P. find_entry P es"]) (auto simp: base_key_def)

lemma find_native_key:
  "pid \<noteq> 0 \<Longrightarrow> zp_runtime_find_native_pid_locked pid es = find_entry (\<lambda>e. base_key e = Some (Inr pid)) es"
  unfolding zp_runtime_find_native_pid_locked_def by (rule arg_cong [where f = "\<lambda>P. find_entry P es"]) (auto simp: base_key_def)

lemma matched_slot:
  assumes "runtime_ok r" "find_entry (\<lambda>e. base_key e = Some k) (rt_records r) = Some i" "j < RECORD_MAX" "j \<noteq> i"
  shows "base_key (rt_records r ! j) \<noteq> Some k"
  using find_entry_Some [OF assms(2)] assms(1,3,4) unique_keysD [of "map base_key (rt_records r)" j i]
  by (auto simp: runtime_ok_def)

lemma unmatched_slot:
  assumes "runtime_ok r" "find_entry (\<lambda>e. base_key e = Some k) (rt_records r) = None" "j < RECORD_MAX"
  shows "base_key (rt_records r ! j) \<noteq> Some k"
  using find_entry_None [OF assms(2)] assms(1,3) by (simp add: runtime_ok_def)

lemma marked_modules_ok:
  assumes "runtime_ok r" "pid \<noteq> 0" "mark_exited (is_module_of pid) (rt_records r) (rt_generation r) = (es, g)"
  shows "runtime_ok \<lparr>rt_records = es, rt_generation = g\<rparr>" "map base_key es = map base_key (rt_records r)"
proof -
  have "es = map (\<lambda>e. if is_module_of pid e then with_state STATE_EXITED e else e) (rt_records r)"
    using mark_exited_map [of "is_module_of pid" "rt_records r" "rt_generation r"] assms(3) by simp
  then show "runtime_ok \<lparr>rt_records = es, rt_generation = g\<rparr>" "map base_key es = map base_key (rt_records r)"
    using runtime_ok_marked [OF assms(1), of "is_module_of pid" g] assms(2) by (simp_all add: is_module_of_def)
qed

lemma begin_ok:
  assumes ok: "runtime_ok r0" and pid: "pid \<noteq> 0" and target: "length target < 256"
  shows "runtime_ok (snd (zp_runtime_begin tasks pid start kind abi target_type flags process target r0))"
proof -
  define r where "r = zp_runtime_refresh_exited_locked tasks r0"
  define matched where "matched = (if kind = KIND_ZYGOTE then zp_runtime_find_zygote_locked target abi (rt_records r)
                     else zp_runtime_find_native_pid_locked pid (rt_records r))"
  define marked where "marked = (if kind = KIND_ZYGOTE then (rt_records r, rt_generation r)
                    else mark_exited (is_module_of pid) (rt_records r) (rt_generation r))"
  obtain es g where m: "marked = (es, g)" by fastforce
  have r: "runtime_ok r" using ok refresh_ok by (simp add: r_def)
  have es: "runtime_ok \<lparr>rt_records = es, rt_generation = g\<rparr>" "map base_key es = map base_key (rt_records r)"
    using marked_modules_ok [OF r pid] r m by (auto simp: marked_def split: if_splits)
  have len: "length es = RECORD_MAX" "length (rt_records r) = RECORD_MAX" using es r by (auto simp: runtime_ok_def)
  have keys: "base_key (es ! j) = base_key (rt_records r ! j)" if "j < RECORD_MAX" for j
    using that es(2) len by (metis nth_map)
  have free: "begin_key pid kind abi target = None \<or> base_key (es ! j) \<noteq> begin_key pid kind abi target"
    if "slot_or_pick matched es = Some i" "j < RECORD_MAX" "j \<noteq> i" for i j
    using that matched_slot [OF r, of _ i j] unmatched_slot [OF r _ that(2)] keys [OF that(2)] pid
    by (cases matched)
      (auto simp: matched_def begin_key_def slot_or_pick_def find_zygote_key find_native_key split: if_splits)
  have used: "used_ok (begin_record pid start kind abi target_type flags process target n (zp_runtime_next_generation_locked g))" for n
    using pid by (simp add: used_ok_def begin_record_def)
  have put: "runtime_ok \<lparr>rt_records = es[i := begin_record pid start kind abi target_type flags process target n
      (zp_runtime_next_generation_locked g)], rt_generation = zp_runtime_next_generation_locked g\<rparr>"
    if "slot_or_pick matched es = Some i" for i n
    using runtime_ok_update [OF es(1) used [of n], of i] free [OF that] base_key_begin [OF pid target] by auto
  show ?thesis
    unfolding zp_runtime_begin_def Let_def r_def [symmetric] matched_def [symmetric] marked_def [symmetric] m fst_conv snd_conv
    using put es(1) by (cases "slot_or_pick matched es") simp_all
qed

lemma report_module_ok:
  assumes "runtime_ok r" "b < RECORD_MAX" "rr_pid (zr_record (rt_records r ! b)) \<noteq> 0" "module_id \<noteq> []"
  shows "runtime_ok (report_module module_id b m r)"
proof -
  have "used_ok (rt_records r ! b)" using assms by (simp add: runtime_ok_def)
  then show ?thesis
    unfolding report_module_def Let_def using assms
    by (auto simp: used_ok_def base_key_def intro!: runtime_ok_update)
qed

lemma report_base_ok:
  assumes "runtime_ok r" "b < RECORD_MAX" "rr_pid (zr_record (rt_records r ! b)) \<noteq> 0" "\<not> report_refused (Some p)"
  shows "runtime_ok (snd (report_base p b r))"
proof -
  obtain e g where e: "zp_runtime_set_state_locked STATE_INJECTED (rt_records r ! b) (rt_generation r) = (e, g)" by fastforce
  define r' where "r' = \<lparr>rt_records = (rt_records r)[b := e], rt_generation = g\<rparr>"
  have ok: "runtime_ok r'" using set_state_ok [OF assms(1-3) e] by (simp add: r'_def)
  have "e = with_state STATE_INJECTED (rt_records r ! b)"
    using set_state_entry [of STATE_INJECTED "rt_records r ! b" "rt_generation r"] e by simp
  then have pid: "rr_pid (zr_record (rt_records r' ! b)) \<noteq> 0" using assms by (simp add: r'_def runtime_ok_def)
  have id: "zp_copy_name 64 (rp_module_id p) \<noteq> []" if "rp_kind p \<noteq> KIND_ZYGOTE"
    using that assms(4) by (auto simp: report_refused_def)
  show ?thesis
    using ok report_module_ok [OF ok assms(2) pid id]
    by (auto simp: report_base_def e Let_def r'_def [symmetric] split: option.split)
qed

lemma found_base:
  assumes "runtime_ok r" "zp_runtime_find_base_locked pid start kind generation (rt_records r) = Some b"
  shows "b < RECORD_MAX" "is_base_of pid start kind generation (rt_records r ! b)"
  using find_entry_Some [OF assms(2) [unfolded zp_runtime_find_base_locked_def]] assms(1) by (simp_all add: runtime_ok_def)

lemma report_ok:
  assumes "runtime_ok r0"
  shows "runtime_ok (snd (yz_zygote_probe_report_runtime t0 t1 t2 report r0))"
proof (cases "report_refused report")
  case False
  then obtain p where p: "report = Some p" by (cases report) (auto simp: report_refused_def)
  define r where "r = zp_runtime_refresh_exited_locked t1 r0"
  have r: "runtime_ok r" using assms refresh_ok by (simp add: r_def)
  have step: "rr_pid (zr_record (rt_records r ! b)) \<noteq> 0" "b < RECORD_MAX"
    if "zp_runtime_find_base_locked (rp_pid p) start (rp_kind p) (rp_generation p) (rt_records r) = Some b" for start b
    using found_base [OF r that] False p by (auto simp: is_base_of_def report_refused_def)
  show ?thesis
    using False p assms r step report_base_ok [OF r] set_state_ok [OF r]
    by (auto simp: yz_zygote_probe_report_runtime_def Let_def r_def [symmetric] split: option.split prod.split)
qed (use assms in \<open>simp add: yz_zygote_probe_report_runtime_def\<close>)

section \<open>The properties\<close>

text \<open>The histories of the table: the views of the processes may differ from step to step.\<close>

inductive runtime_reachable :: "runtime \<Rightarrow> bool" where
  initial: "runtime_reachable runtime_initial"
| begin_process: "runtime_reachable r \<Longrightarrow> pid \<noteq> 0 \<Longrightarrow> length target < 256 \<Longrightarrow>
    runtime_reachable (snd (zp_runtime_begin tasks pid start kind abi target_type flags process target r))"
| set_state: "runtime_reachable r \<Longrightarrow> runtime_reachable (zp_runtime_set_state pid generation state r)"
| query: "runtime_reachable r \<Longrightarrow>
    runtime_reachable (snd (yz_zygote_probe_get_runtime tasks entries capacity query s r))"
| report: "runtime_reachable r \<Longrightarrow>
    runtime_reachable (snd (yz_zygote_probe_report_runtime t0 t1 t2 p r))"

lemma initial_ok: "runtime_ok runtime_initial"
  by (simp add: runtime_ok_def runtime_initial_def used_ok_def empty_record_def unique_keys_def base_key_def)

lemma query_ok: "runtime_ok r \<Longrightarrow> runtime_ok (snd (yz_zygote_probe_get_runtime tasks entries capacity query s r))"
  by (simp add: yz_zygote_probe_get_runtime_def Let_def refresh_ok)

lemma runtime_reachable_ok: "runtime_reachable r \<Longrightarrow> runtime_ok r"
  by (induction rule: runtime_reachable.induct)
    (simp_all add: initial_ok begin_ok set_runtime_state_ok query_ok report_ok)

text \<open>C24: The runtime table has one record for each process.  In every history of the operations, the
  table keeps its 128 entries, a used entry has a generation other than zero, and two entries never
  stand for the same thing: no two of them are records of zygotes with the same target and ABI, and no
  two are records of native processes with the same pid.\<close>

theorem runtime_table_unique:
  assumes "runtime_reachable r" and "i < 128" and "j < 128" and "i \<noteq> j"
  shows "length (rt_records r) = 128 \<and>
    (rr_pid (zr_record (rt_records r ! i)) \<noteq> 0 \<longrightarrow> rr_generation (zr_record (rt_records r ! i)) \<noteq> 0) \<and>
    (base_key (rt_records r ! i) = None \<or> base_key (rt_records r ! i) \<noteq> base_key (rt_records r ! j))"
proof -
  have ok: "runtime_ok r" using assms(1) by (rule runtime_reachable_ok)
  then have len: "length (rt_records r) = 128" by (simp add: runtime_ok_def)
  then have "used_ok (rt_records r ! i)" using ok assms(2) by (simp add: runtime_ok_def)
  then show ?thesis
    using ok assms len unique_keysD [of "map base_key (rt_records r)" i j]
    by (auto simp: runtime_ok_def used_ok_def split: if_splits)
qed

text \<open>Two starts of the same zygote leave one record.\<close>

definition two_zygotes :: runtime where
  "two_zygotes = snd (zp_runtime_begin (\<lambda>_. None) 500 9 KIND_ZYGOTE 2 0 0 ''app_process64'' ''zygote''
     (snd (zp_runtime_begin (\<lambda>_. Some (False, 7)) 300 7 KIND_ZYGOTE 2 0 0 ''app_process64'' ''zygote'' runtime_initial)))"

lemma two_zygotes_first: "base_key (rt_records two_zygotes ! 0) = Some (Inl (2, ''zygote''))"
  by code_simp

theorem runtime_table_unique_witness:
  "length (rt_records two_zygotes) = 128 \<and> base_key (rt_records two_zygotes ! 0) = Some (Inl (2, ''zygote'')) \<and>
   base_key (rt_records two_zygotes ! 1) \<noteq> Some (Inl (2, ''zygote''))"
proof -
  have "runtime_reachable two_zygotes"
    unfolding two_zygotes_def
    by (rule runtime_reachable.begin_process, rule runtime_reachable.begin_process, rule runtime_reachable.initial) simp_all
  then show ?thesis using runtime_table_unique [of two_zygotes 0 1] two_zygotes_first by auto
qed

section \<open>Reports of modules\<close>

lemma report_succeeds:
  assumes "yz_zygote_probe_report_runtime t0 t1 t2 (Some p) r0 = (None, r')"
  obtains start b where "\<not> report_refused (Some p)"
    and "zp_runtime_find_base_locked (rp_pid p) start (rp_kind p) (rp_generation p)
      (rt_records (zp_runtime_refresh_exited_locked t1 r0)) = Some b"
    and "report_base p b (zp_runtime_refresh_exited_locked t1 r0) = (None, r')"
  using assms
  by (auto simp: yz_zygote_probe_report_runtime_def Let_def split: if_splits option.splits prod.splits)

text \<open>The table with the base record marked as injected.\<close>

lemma report_base_native:
  assumes "rp_kind p \<noteq> KIND_ZYGOTE"
  obtains r2 where "rt_records r2 = (rt_records r)[b := with_state STATE_INJECTED (rt_records r ! b)]"
    and "report_base p b r = (case module_slot p b (rt_records r2) of
        None \<Rightarrow> (Some ENOSPC, r2)
      | Some m \<Rightarrow> (None, report_module (zp_copy_name 64 (rp_module_id p)) b m r2))"
proof -
  obtain e g where e: "zp_runtime_set_state_locked STATE_INJECTED (rt_records r ! b) (rt_generation r) = (e, g)" by fastforce
  moreover have "e = with_state STATE_INJECTED (rt_records r ! b)"
    using set_state_entry [of STATE_INJECTED "rt_records r ! b" "rt_generation r"] e by simp
  ultimately show thesis
    using assms by (intro that [of "\<lparr>rt_records = (rt_records r)[b := e], rt_generation = g\<rparr>"])
      (simp_all add: report_base_def Let_def cong: option.case_cong)
qed

definition records_module :: "yz_runtime_report \<Rightarrow> zp_runtime_entry \<Rightarrow> bool" where
  "records_module p e \<longleftrightarrow>
     rr_pid (zr_record e) = rp_pid p \<and> rr_kind (zr_record e) = KIND_NATIVE \<and>
     rr_generation (zr_record e) = rp_generation p \<and> rr_state (zr_record e) = STATE_INJECTED \<and>
     rr_module_id (zr_record e) = zp_copy_name 64 (rp_module_id p)"

lemma module_slot_recorded:
  assumes m: "module_slot p b (rt_records r) = Some m" and b: "b < length (rt_records r)"
    and base: "is_base_of (rp_pid p) start KIND_NATIVE (rp_generation p) (rt_records r ! b)"
    and id: "zp_copy_name 64 (rp_module_id p) \<noteq> []" "rp_generation p \<noteq> 0"
    and room: "\<exists>e \<in> set (rt_records r). spare e" and used: "\<forall>e \<in> set (rt_records r). used_ok e" "rp_pid p \<noteq> 0"
  shows "records_module p (rt_records (report_module (zp_copy_name 64 (rp_module_id p)) b m r) ! m)"
    and "m < length (rt_records r)" and "m \<noteq> b" and "dispensable (rt_records r ! m)"
proof -
  let ?id = "zp_copy_name 64 (rp_module_id p)" and ?es = "rt_records r"
  have "m < length ?es \<and> m \<noteq> b \<and> dispensable (?es ! m) \<and>
    (records_module p (?es ! m) \<or> rr_generation (zr_record (?es ! m)) \<noteq> rp_generation p \<or> rr_state (zr_record (?es ! m)) \<noteq> STATE_INJECTED)"
  proof (cases "zp_runtime_find_module_locked (rp_pid p) ?id ?es")
    case None
    then have pick: "zp_runtime_pick_slot_locked (Some b) ?es = Some m" using m by (simp add: module_slot_def)
    obtain i where i: "i < length ?es" "spare (?es ! i)" using room by (metis in_set_conv_nth)
    then have "b \<noteq> i" using base used(2) by (auto simp: spare_def is_base_of_def)
    then obtain j where "zp_runtime_pick_slot_locked (Some b) ?es = Some j" "spare (?es ! j)"
      using picked_spare [OF i(1) _ i(2), of "Some b"] by auto
    then have "spare (?es ! m)" using pick by simp
    moreover have "m < length ?es" "m \<noteq> b" "dispensable (?es ! m)" using picked_slot [OF pick] by auto
    moreover from this have "used_ok (?es ! m)" using used(1) by simp
    ultimately show ?thesis using id(2) by (auto simp: spare_def used_ok_def empty_record_def)
  next
    case (Some x)
    then have x: "m < length ?es" "rr_pid (zr_record (?es ! m)) = rp_pid p" "rr_kind (zr_record (?es ! m)) = KIND_NATIVE"
        "rr_module_id (zr_record (?es ! m)) = ?id"
      using m find_entry_Some [OF Some [unfolded zp_runtime_find_module_locked_def]] by (auto simp: module_slot_def)
    then have "m \<noteq> b" using base id(1) by (auto simp: is_base_of_def)
    then show ?thesis using x id(1) by (auto simp: records_module_def dispensable_def)
  qed
  then show "records_module p (rt_records (report_module ?id b m r) ! m)" "m < length ?es" "m \<noteq> b" "dispensable (?es ! m)"
    using base by (auto simp: report_module_def Let_def records_module_def is_base_of_def)
qed

text \<open>The table after the base at \<open>b\<close> is marked as injected.\<close>

lemma injected_table:
  assumes ok: "runtime_ok r1" and b: "b < RECORD_MAX" and base: "is_base_of pid start kind generation (rt_records r1 ! b)"
    and pid: "pid \<noteq> 0" and r2: "rt_records r2 = (rt_records r1)[b := with_state STATE_INJECTED (rt_records r1 ! b)]"
  shows "rt_records r2 ! i = (if i = b then with_state STATE_INJECTED (rt_records r1 ! b) else rt_records r1 ! i)"
    and "length (rt_records r2) = RECORD_MAX"
    and "\<forall>e \<in> set (rt_records r2). used_ok e"
    and "is_base_of pid start kind generation (rt_records r2 ! b)"
    and "\<exists>e \<in> set (rt_records r1). spare e \<Longrightarrow> \<exists>e \<in> set (rt_records r2). spare e"
proof -
  have len: "length (rt_records r1) = RECORD_MAX" using ok by (simp add: runtime_ok_def)
  show nth: "rt_records r2 ! i = (if i = b then with_state STATE_INJECTED (rt_records r1 ! b) else rt_records r1 ! i)" for i
    using b len by (simp add: r2)
  show len2: "length (rt_records r2) = RECORD_MAX" using len by (simp add: r2)
  have "used_ok (rt_records r1 ! b)" using ok b by (simp add: runtime_ok_def)
  then have "used_ok (with_state STATE_INJECTED (rt_records r1 ! b))"
    using base pid by (intro used_ok_with_state) (auto simp: is_base_of_def)
  then show "\<forall>e \<in> set (rt_records r2). used_ok e"
    using ok set_update_subset_insert [of "rt_records r1" b] by (auto simp: r2 runtime_ok_def)
  show "is_base_of pid start kind generation (rt_records r2 ! b)" using base by (simp add: nth is_base_of_def)
  assume "\<exists>e \<in> set (rt_records r1). spare e"
  then obtain i where i: "i < RECORD_MAX" "spare (rt_records r1 ! i)" using len by (metis in_set_conv_nth)
  then have "i \<noteq> b" using base pid by (auto simp: spare_def is_base_of_def)
  then show "\<exists>e \<in> set (rt_records r2). spare e" using i nth len2 by (metis nth_mem)
qed

lemma report_module_other:
  "length (rt_records (report_module mid b m r)) = length (rt_records r)"
  "j \<noteq> m \<Longrightarrow> rt_records (report_module mid b m r) ! j = rt_records r ! j"
  by (simp_all add: report_module_def Let_def)

text \<open>C31: A reported module gets a record, and no process loses its own.  When the report of a module
  of a native process succeeds and the table has a free or exited entry, the table afterwards contains
  an injected record of this module for the pid and generation of the report; and every record of a live
  process is still there, at most marked as injected.\<close>

theorem reported_module_recorded:
  assumes "runtime_reachable r" and "yz_zygote_probe_report_runtime t0 t1 t2 (Some p) r = (None, r')"
    and "rp_kind p = KIND_NATIVE" and "\<exists>e \<in> set (rt_records (zp_runtime_refresh_exited_locked t1 r)). spare e"
  shows "(\<exists>e \<in> set (rt_records r'). records_module p e) \<and>
    (\<forall>e \<in> set (rt_records (zp_runtime_refresh_exited_locked t1 r)).
       \<not> dispensable e \<longrightarrow> e \<in> set (rt_records r') \<or> with_state STATE_INJECTED e \<in> set (rt_records r'))"
proof -
  define r1 where "r1 = zp_runtime_refresh_exited_locked t1 r"
  have ok: "runtime_ok r1" using runtime_reachable_ok [OF assms(1)] refresh_ok by (simp add: r1_def)
  obtain start b where p: "\<not> report_refused (Some p)"
      and b: "zp_runtime_find_base_locked (rp_pid p) start (rp_kind p) (rp_generation p) (rt_records r1) = Some b"
      and r': "report_base p b r1 = (None, r')"
    using report_succeeds [OF assms(2)] by (auto simp: r1_def)
  obtain r2 where r2: "rt_records r2 = (rt_records r1)[b := with_state STATE_INJECTED (rt_records r1 ! b)]"
    and m: "report_base p b r1 = (case module_slot p b (rt_records r2) of
        None \<Rightarrow> (Some ENOSPC, r2) | Some m \<Rightarrow> (None, report_module (zp_copy_name 64 (rp_module_id p)) b m r2))"
    using report_base_native [of p r1 b] assms(3) by auto
  have base: "b < RECORD_MAX" "is_base_of (rp_pid p) start KIND_NATIVE (rp_generation p) (rt_records r1 ! b)"
    using found_base [OF ok b] assms(3) by simp_all
  have len: "length (rt_records r1) = RECORD_MAX" using ok by (simp add: runtime_ok_def)
  have pid: "rp_pid p \<noteq> 0" "rp_generation p \<noteq> 0" "zp_copy_name 64 (rp_module_id p) \<noteq> []"
    using p assms(3) by (auto simp: report_refused_def)
  obtain m' where m': "module_slot p b (rt_records r2) = Some m'" "r' = report_module (zp_copy_name 64 (rp_module_id p)) b m' r2"
    using r' m by (cases "module_slot p b (rt_records r2)") auto
  let ?es = "rt_records r2"
  note inj = injected_table [OF ok base pid(1) r2]
  have room: "\<exists>e \<in> set ?es. spare e" using inj(5) assms(4) by (simp add: r1_def)
  have slot: "records_module p (rt_records r' ! m')" "m' < length ?es" "m' \<noteq> b" "dispensable (?es ! m')"
    using module_slot_recorded [OF m'(1) _ inj(4) pid(3,2) room inj(3) pid(1)] base(1) inj(2) m'(2) by simp_all
  have len': "length (rt_records r') = RECORD_MAX" using m'(2) inj(2) by (simp add: report_module_other)
  show ?thesis
  proof (intro conjI ballI impI)
    show "\<exists>e \<in> set (rt_records r'). records_module p e" using slot(1,2) len' inj(2) by (metis nth_mem)
    fix e assume e: "e \<in> set (rt_records (zp_runtime_refresh_exited_locked t1 r))" "\<not> dispensable e"
    then obtain j where j: "j < RECORD_MAX" "e = rt_records r1 ! j" using len by (metis in_set_conv_nth r1_def)
    then have "j \<noteq> m'" using slot(3,4) e(2) inj(1) by (metis (full_types))
    then have "rt_records r' ! j = ?es ! j" using m'(2) by (simp add: report_module_other)
    then have "rt_records r' ! j = e \<or> rt_records r' ! j = with_state STATE_INJECTED e" using inj(1) j(2) by simp
    then show "e \<in> set (rt_records r') \<or> with_state STATE_INJECTED e \<in> set (rt_records r')"
      using j(1) len' by (metis nth_mem)
  qed
qed

definition one_native :: runtime where
  "one_native = zp_runtime_set_state 42 1 STATE_REDIRECTED
     (snd (zp_runtime_begin (\<lambda>_. Some (False, 7)) 42 7 KIND_NATIVE 2 1 0 ''vold'' ''vold'' runtime_initial))"

definition vold_report :: yz_runtime_report where
  "vold_report = \<lparr>rp_pid = 42, rp_generation = 1, rp_kind = KIND_NATIVE, rp_module_id = ''trace''\<rparr>"

lemma vold_report_ok:
  "fst (yz_zygote_probe_report_runtime (\<lambda>_. Some (False, 7)) (\<lambda>_. Some (False, 7)) (\<lambda>_. Some (False, 7)) (Some vold_report) one_native) = None"
  by code_simp

lemma vold_room:
  "list_ex spare (rt_records (zp_runtime_refresh_exited_locked (\<lambda>_. Some (False, 7)) one_native))"
  by code_simp

theorem reported_module_recorded_witness:
  "\<exists>e \<in> set (rt_records (snd (yz_zygote_probe_report_runtime (\<lambda>_. Some (False, 7)) (\<lambda>_. Some (False, 7)) (\<lambda>_. Some (False, 7))
     (Some vold_report) one_native))). records_module vold_report e"
proof -
  have "runtime_reachable one_native"
    unfolding one_native_def
    by (rule runtime_reachable.set_state, rule runtime_reachable.begin_process, rule runtime_reachable.initial) simp_all
  moreover have "rp_kind vold_report = KIND_NATIVE" by (simp add: vold_report_def)
  moreover obtain r' where r': "yz_zygote_probe_report_runtime (\<lambda>_. Some (False, 7)) (\<lambda>_. Some (False, 7))
      (\<lambda>_. Some (False, 7)) (Some vold_report) one_native = (None, r')"
    using vold_report_ok by (metis prod.collapse)
  moreover have "\<exists>e \<in> set (rt_records (zp_runtime_refresh_exited_locked (\<lambda>_. Some (False, 7)) one_native)). spare e"
    using vold_room by (simp only: list_ex_iff)
  ultimately have "\<exists>e \<in> set (rt_records r'). records_module vold_report e"
    using reported_module_recorded by blast
  then show ?thesis by (simp only: r' snd_conv)
qed

section \<open>A full table\<close>

text \<open>Without a free or exited slot the module record of the lowest generation is taken, also when it
  belongs to another module of the same process; its entry then counts as up to date.\<close>

lemma older_least:
  "older es i best = Some j \<Longrightarrow> rr_generation (zr_record (es ! j)) \<le> rr_generation (zr_record (es ! i)) \<and>
     (\<forall>x. best = Some x \<longrightarrow> rr_generation (zr_record (es ! j)) \<le> rr_generation (zr_record (es ! x)))"
  by (auto simp: older_def split: option.splits if_splits)

lemma pick_slot_oldest:
  "pick_slot es ex None module is = Some j \<Longrightarrow> \<forall>i \<in> set is. ex \<noteq> Some i \<longrightarrow> \<not> spare (es ! i) \<Longrightarrow>
   (\<forall>i \<in> set is. ex \<noteq> Some i \<longrightarrow> rr_module_id (zr_record (es ! i)) \<noteq> [] \<longrightarrow>
      rr_generation (zr_record (es ! j)) \<le> rr_generation (zr_record (es ! i))) \<and>
   (\<forall>x. module = Some x \<longrightarrow> rr_generation (zr_record (es ! j)) \<le> rr_generation (zr_record (es ! x)))"
proof (induction es ex "None :: nat option" module "is" rule: pick_slot.induct)
  case (2 es ex module i "is")
  show ?case
  proof (cases "ex = Some i")
    case True
    then show ?thesis using 2 by auto
  next
    case False
    then have i: "\<not> spare (es ! i)" using 2(4) by simp
    define module' where "module' = (if rr_module_id (zr_record (es ! i)) \<noteq> [] then older es i module else module)"
    have "pick_slot es ex None module' is = Some j"
      using 2(3) False i by (auto simp: spare_def module'_def)
    then have IH: "(\<forall>i \<in> set is. ex \<noteq> Some i \<longrightarrow> rr_module_id (zr_record (es ! i)) \<noteq> [] \<longrightarrow>
        rr_generation (zr_record (es ! j)) \<le> rr_generation (zr_record (es ! i))) \<and>
        (\<forall>x. module' = Some x \<longrightarrow> rr_generation (zr_record (es ! j)) \<le> rr_generation (zr_record (es ! x)))"
      using 2(2,4) False i by (auto simp: spare_def module'_def)
    show ?thesis
    proof (cases "rr_module_id (zr_record (es ! i)) = []")
      case True
      then show ?thesis using IH by (auto simp: module'_def)
    next
      case m: False
      obtain x where o: "older es i module = Some x" using older_not_None [of es i module] by blast
      then have x: "module' = Some x" "older es i module = Some x" using m by (simp_all add: module'_def)
      then have "rr_generation (zr_record (es ! j)) \<le> rr_generation (zr_record (es ! x))" using IH by simp
      then show ?thesis using IH older_least [OF x(2)] order_trans by (metis set_ConsD)
    qed
  qed
qed simp

definition crowded_entry :: "yz_runtime_report \<Rightarrow> u64 \<Rightarrow> zp_runtime_entry \<Rightarrow> bool" where
  "crowded_entry p start e \<longleftrightarrow>
     \<not> spare e \<and> rr_module_id (zr_record e) \<noteq> zp_copy_name 64 (rp_module_id p) \<and>
     (rr_module_id (zr_record e) \<noteq> [] \<longrightarrow> rp_generation p \<le> rr_generation (zr_record e) \<and>
        (rr_generation (zr_record e) = rp_generation p \<longrightarrow>
           rr_state (zr_record e) = STATE_INJECTED \<and> zr_start_boottime e = start))"

definition crowded :: "yz_runtime_report \<Rightarrow> u64 \<Rightarrow> zp_runtime_entry list \<Rightarrow> bool" where
  "crowded p start es \<longleftrightarrow>
     (\<forall>e \<in> set es. crowded_entry p start e) \<and>
     (\<exists>e \<in> set es. rr_module_id (zr_record e) \<noteq> [] \<and> rr_generation (zr_record e) = rp_generation p)"

lemma crowded_slot:
  assumes c: "crowded p start (rt_records r)" and b: "rr_module_id (zr_record (rt_records r ! b)) = []"
    "rr_generation (zr_record (rt_records r ! b)) = rp_generation p" "zr_start_boottime (rt_records r ! b) = start"
  shows "\<exists>m. module_slot p b (rt_records r) = Some m \<and> report_module mid b m r = r"
proof -
  let ?es = "rt_records r"
  have c': "\<not> spare (?es ! i)" "rr_module_id (zr_record (?es ! i)) \<noteq> zp_copy_name 64 (rp_module_id p)"
    "rr_module_id (zr_record (?es ! i)) \<noteq> [] \<Longrightarrow> rp_generation p \<le> rr_generation (zr_record (?es ! i)) \<and>
      (rr_generation (zr_record (?es ! i)) = rp_generation p \<longrightarrow> rr_state (zr_record (?es ! i)) = STATE_INJECTED \<and> zr_start_boottime (?es ! i) = start)"
    if "i < length ?es" for i
    using c that nth_mem [OF that] by (auto simp: crowded_def crowded_entry_def)
  obtain k where k: "k < length ?es" "rr_module_id (zr_record (?es ! k)) \<noteq> []" "rr_generation (zr_record (?es ! k)) = rp_generation p"
    using c by (auto simp: crowded_def in_set_conv_nth)
  then have kb: "Some b \<noteq> Some k" using b(1) by auto
  have none: "zp_runtime_find_module_locked (rp_pid p) (zp_copy_name 64 (rp_module_id p)) ?es = None"
    unfolding zp_runtime_find_module_locked_def find_entry_def
    by (rule find_upt_None) (use c'(2) in blast)
  have "pick_slot ?es (Some b) None None [0..<length ?es] \<noteq> None"
    by (rule pick_slot_module) (use k kb in force)
  then obtain m where m: "pick_slot ?es (Some b) None None [0..<length ?es] = Some m" by blast
  then have m': "m < length ?es" "Some b \<noteq> Some m" "dispensable (?es ! m)"
    using picked_slot [of "Some b" ?es m] by (auto simp: zp_runtime_pick_slot_locked_def)
  then have "rr_module_id (zr_record (?es ! m)) \<noteq> []" using c'(1) by (auto simp: dispensable_def)
  moreover have "rr_generation (zr_record (?es ! m)) \<le> rr_generation (zr_record (?es ! k))"
    using pick_slot_oldest [OF m] c'(1) k kb by auto
  ultimately have "rr_generation (zr_record (?es ! m)) = rp_generation p" "rr_state (zr_record (?es ! m)) = STATE_INJECTED"
      "zr_start_boottime (?es ! m) = start"
    using c'(3) [OF m'(1)] k(3) by auto
  then show ?thesis
    using b m none by (auto simp: module_slot_def zp_runtime_pick_slot_locked_def report_module_def Let_def)
qed

lemma crowded_injected:
  assumes c: "crowded p start es" and b: "b < length es" "is_base_of pid start kind generation (es ! b)"
  shows "crowded p start (es[b := with_state STATE_INJECTED (es ! b)])"
proof -
  let ?e = "with_state STATE_INJECTED (es ! b)"
  have base: "\<not> spare (es ! b)" "rr_module_id (zr_record (es ! b)) \<noteq> zp_copy_name 64 (rp_module_id p)" "rr_module_id (zr_record (es ! b)) = []"
    using c b nth_mem [OF b(1)] by (auto simp: crowded_def crowded_entry_def is_base_of_def)
  obtain k where k: "k < length es" "rr_module_id (zr_record (es ! k)) \<noteq> []" "rr_generation (zr_record (es ! k)) = rp_generation p"
    using c by (auto simp: crowded_def in_set_conv_nth)
  then have "es[b := ?e] ! k = es ! k" using base(3) by (metis nth_list_update_neq)
  then have "\<exists>e \<in> set (es[b := ?e]). rr_module_id (zr_record e) \<noteq> [] \<and> rr_generation (zr_record e) = rp_generation p"
    using k by (metis length_list_update nth_mem)
  moreover have "e \<in> set es \<or> e = ?e" if "e \<in> set (es[b := ?e])" for e
    using that set_update_subset_insert [of es b] by auto
  moreover have "crowded_entry p start ?e" using base by (simp add: crowded_entry_def spare_def)
  ultimately show ?thesis using c unfolding crowded_def by blast
qed

text \<open>The report of a module succeeds and leaves no record of it.\<close>

lemma full_table_drops_module:
  assumes "\<not> report_refused (Some p)" "rp_kind p = KIND_NATIVE" "zp_runtime_get_task_start tasks (rp_pid p) = Some start"
    and "rt_records (zp_runtime_refresh_exited_locked tasks r) = es"
    and "zp_runtime_find_base_locked (rp_pid p) start KIND_NATIVE (rp_generation p) es = Some b"
    and "rr_state (zr_record (es ! b)) = STATE_REDIRECTED \<or> rr_state (zr_record (es ! b)) = STATE_INJECTED"
    and "crowded p start es"
  shows "\<exists>r'. yz_zygote_probe_report_runtime tasks tasks tasks (Some p) r = (None, r') \<and>
    (\<forall>e \<in> set (rt_records r'). rr_module_id (zr_record e) \<noteq> zp_copy_name 64 (rp_module_id p))"
proof -
  define r1 where "r1 = zp_runtime_refresh_exited_locked tasks r"
  have es: "rt_records r1 = es" using assms(4) by (simp add: r1_def)
  have b: "b < length es" "is_base_of (rp_pid p) start KIND_NATIVE (rp_generation p) (es ! b)"
    using find_entry_Some [OF assms(5) [unfolded zp_runtime_find_base_locked_def]] by auto
  obtain r2 where r2: "rt_records r2 = es[b := with_state STATE_INJECTED (es ! b)]"
    and slot: "report_base p b r1 = (case module_slot p b (rt_records r2) of
        None \<Rightarrow> (Some ENOSPC, r2) | Some m \<Rightarrow> (None, report_module (zp_copy_name 64 (rp_module_id p)) b m r2))"
    using report_base_native [of p r1 b] assms(2) es by auto
  have entry: "e \<in> set es \<or> e = with_state STATE_INJECTED (es ! b)" if "e \<in> set (rt_records r2)" for e
    using that set_update_subset_insert [of es b] by (auto simp: r2)
  have "crowded p start (rt_records r2)" using crowded_injected [OF assms(7) b] r2 by simp
  then obtain m where "module_slot p b (rt_records r2) = Some m" "report_module (zp_copy_name 64 (rp_module_id p)) b m r2 = r2"
    using crowded_slot [of p start r2 b] b by (auto simp: r2 is_base_of_def)
  then have "report_base p b r1 = (None, r2)" using slot by simp
  moreover have "yz_zygote_probe_report_runtime tasks tasks tasks (Some p) r = report_base p b r1"
    using assms(1-3,5,6) es b(2)
    by (auto simp: yz_zygote_probe_report_runtime_def Let_def r1_def [symmetric] zp_runtime_task_alive_def is_base_of_def)
  moreover have "rr_module_id (zr_record e) \<noteq> zp_copy_name 64 (rp_module_id p)" if "e \<in> set (rt_records r2)" for e
    using entry [OF that] assms(7) nth_mem [OF b(1)] by (auto simp: crowded_def crowded_entry_def)
  ultimately show ?thesis by simp
qed

definition busy_entry :: "string \<Rightarrow> zp_runtime_entry" where
  "busy_entry module_id =
     \<lparr>zr_record = \<lparr>rr_pid = 42, rr_generation = 1, rr_restarts = 0, rr_kind = KIND_NATIVE, rr_state = STATE_INJECTED,
        rr_abi = 2, rr_target_type = 1, rr_flags = 0, rr_process = ''vold'', rr_target = ''vold'', rr_module_id = module_id\<rparr>,
      zr_start_boottime = 7\<rparr>"

definition busy_table :: "zp_runtime_entry list" where
  "busy_table = busy_entry [] # replicate 127 (busy_entry ''other'')"

lemma full_table_drops_module_witness:
  "\<exists>r'. yz_zygote_probe_report_runtime (\<lambda>_. Some (False, 7)) (\<lambda>_. Some (False, 7)) (\<lambda>_. Some (False, 7)) (Some vold_report)
     \<lparr>rt_records = busy_table, rt_generation = 1\<rparr> = (None, r') \<and>
   (\<forall>e \<in> set (rt_records r'). rr_module_id (zr_record e) \<noteq> zp_copy_name 64 ''trace'')"
proof -
  let ?tasks = "\<lambda>_ :: u32. Some (False, 7 :: u64)"
  have table: "e \<in> set busy_table \<longleftrightarrow> e = busy_entry [] \<or> e = busy_entry ''other''" for e
    by (auto simp: busy_table_def)
  have "\<not> has_died ?tasks e" if "e \<in> set busy_table" for e
    using that by (auto simp: table has_died_def zp_runtime_task_alive_def zp_runtime_get_task_start_def busy_entry_def)
  then have records: "rt_records (zp_runtime_refresh_exited_locked ?tasks \<lparr>rt_records = busy_table, rt_generation = 1\<rparr>) = busy_table"
    by (simp add: refresh_records map_idI)
  have base: "zp_runtime_find_base_locked 42 7 KIND_NATIVE 1 busy_table = Some 0"
    unfolding zp_runtime_find_base_locked_def find_entry_def
    by (rule find_upt_Some) (simp_all add: busy_table_def busy_entry_def is_base_of_def)
  have "\<exists>e \<in> set busy_table. rr_module_id (zr_record e) \<noteq> [] \<and> rr_generation (zr_record e) = 1"
    by (rule bexI [of _ "busy_entry ''other''"]) (simp_all add: table busy_entry_def)
  then have "crowded vold_report 7 busy_table"
    by (auto simp: crowded_def table crowded_entry_def busy_entry_def spare_def vold_report_def zp_copy_name_def)
  then show ?thesis
    using full_table_drops_module [of vold_report ?tasks 7 "\<lparr>rt_records = busy_table, rt_generation = 1\<rparr>" busy_table 0] records base
    by (simp add: vold_report_def report_refused_def zp_copy_name_def zp_runtime_get_task_start_def busy_table_def busy_entry_def)
qed

end
