(* ===== verification/Native_Manifest.thy ===== *)
theory Native_Manifest
  imports Json
begin

text \<open>
  Lines of a native module manifest, \<^verbatim>\<open>userspace/zygisk/daemon/native_modules.hpp\<close>: a target
  \<^verbatim>\<open>name=...\<close> or \<^verbatim>\<open>path=...\<close>, the path of the library with \<^verbatim>\<open>${moduleId}\<close> and \<^verbatim>\<open>$moduleId\<close>
  replaced, and the flag \<^verbatim>\<open>companion\<close>.  Whether a library exists (\<^verbatim>\<open>access\<close>) is a parameter.
\<close>

section \<open>Parsing\<close>

record native_module =
  nm_module_id :: string
  nm_target_type :: u8
  nm_target :: string
  nm_lib_path :: string
  nm_has_companion :: bool

definition trim_copy :: "string \<Rightarrow> string" where
  "trim_copy s = rev (dropWhile is_space (rev (dropWhile is_space s)))"

text \<open>The token and what is left after it; both are empty at the end.\<close>

definition next_token :: "string \<Rightarrow> string \<times> string" where
  "next_token rest =
     (let r = dropWhile is_space rest
      in (takeWhile (\<lambda>c. \<not> is_space c) r, dropWhile (\<lambda>c. \<not> is_space c) r))"

lemma next_token_shorter: "next_token rest = (t, rest') \<Longrightarrow> t \<noteq> [] \<Longrightarrow> length rest' < length rest"
proof -
  assume a: "next_token rest = (t, rest')" and t: "t \<noteq> []"
  let ?r = "dropWhile is_space rest"
  have "length t + length rest' = length ?r"
    using a by (auto simp: next_token_def Let_def simp flip: length_append)
  moreover have "length ?r \<le> length rest" by (rule length_dropWhile_le)
  ultimately show "length rest' < length rest" using t by (cases t) auto
qed

text \<open>The text after a replacement is not searched again.\<close>

function replace_from :: "string \<Rightarrow> string \<Rightarrow> string \<Rightarrow> string" where
  "replace_from pat to_text [] = []"
| "replace_from pat to_text (c # cs) =
     (if pat \<noteq> [] \<and> take (length pat) (c # cs) = pat
      then to_text @ replace_from pat to_text (drop (length pat) (c # cs))
      else c # replace_from pat to_text cs)"
  by pat_completeness auto
termination
  by (relation "measure (\<lambda>(pat, to_text, s). length s)") (auto simp: neq_Nil_conv)

definition replace_all :: "string \<Rightarrow> string \<Rightarrow> string \<Rightarrow> string" where
  "replace_all s pat to_text = (if pat = [] then s else replace_from pat to_text s)"

text \<open>The loop over the tokens after the target: the library path and the companion flag.\<close>

function token_loop :: "string \<Rightarrow> bool \<Rightarrow> string \<Rightarrow> string \<times> bool" where
  "token_loop lib_rel companion rest =
     (case next_token rest of (token, rest') \<Rightarrow>
        if token = [] then (lib_rel, companion)
        else if token = ''companion'' then token_loop lib_rel True rest'
        else if lib_rel = [] then token_loop token companion rest'
        else token_loop lib_rel companion rest')"
  by pat_completeness auto
termination
  by (relation "measure (\<lambda>(lib_rel, companion, rest). length rest)") (auto dest: next_token_shorter [OF sym])

declare token_loop.simps [simp del]

definition has_prefix :: "string \<Rightarrow> string \<Rightarrow> bool" where
  "has_prefix p s \<longleftrightarrow> take (length p) s = p"

definition parse_native_module_line ::
  "(string \<Rightarrow> bool) \<Rightarrow> string \<Rightarrow> string \<Rightarrow> string \<Rightarrow> native_module option" where
  "parse_native_module_line exists_file module_id base line =
     (if length module_id \<ge> 64 then None
      else
        let text = trim_copy line
        in if text = [] \<or> hd text = CHR ''#'' then None
           else case next_token text of (head, rest) \<Rightarrow>
             if head = [] then None
             else
               let target_type = (if has_prefix ''name='' head then 1 else if has_prefix ''path='' head then 2 else 0);
                   target = drop 5 head
               in if target_type = 0 then None
                  else if target = [] \<or> length target \<ge> 256 then None
                  else case token_loop [] False rest of (lib_rel, companion) \<Rightarrow>
                    if lib_rel = [] then None
                    else
                      let lib_rel1 = replace_all lib_rel ''${moduleId}'' module_id;
                          lib_rel2 = replace_all lib_rel1 ''$moduleId'' module_id;
                          lib_path = (if lib_rel2 \<noteq> [] \<and> hd lib_rel2 = CHR ''/'' then lib_rel2
                                      else base @ ''/'' @ lib_rel2)
                      in if \<not> exists_file (c_str lib_path) then None
                         else Some \<lparr>nm_module_id = module_id, nm_target_type = target_type, nm_target = target,
                                nm_lib_path = lib_path, nm_has_companion = companion\<rparr>)"

section \<open>Accepted lines\<close>

text \<open>A parsed line fits the fixed-size fields of the kernel's target list: the module id has fewer than
  64 characters, the target has at least one and fewer than 256 and contains no white space, its type
  is one of the two, and the library exists at an absolute path if the module directory is absolute.\<close>

lemma native_module_fits:
  assumes "parse_native_module_line exists_file module_id base line = Some m"
  shows "nm_module_id m = module_id \<and> length (nm_module_id m) < 64 \<and>
    nm_target m \<noteq> [] \<and> length (nm_target m) < 256 \<and> list_all (\<lambda>c. \<not> is_space c) (nm_target m) \<and>
    nm_target_type m \<in> {1, 2} \<and> exists_file (c_str (nm_lib_path m)) \<and>
    (has_prefix ''/'' base \<longrightarrow> has_prefix ''/'' (nm_lib_path m))"
proof -
  obtain head rest where t: "next_token (trim_copy line) = (head, rest)" by fastforce
  have "list_all (\<lambda>c. \<not> is_space c) head"
    using t by (auto simp: next_token_def Let_def list_all_iff dest: set_takeWhileD)
  then have h: "list_all (\<lambda>c. \<not> is_space c) (drop 5 head)" by (auto simp: list_all_iff dest: in_set_dropD)
  have abs: "has_prefix ''/'' base \<Longrightarrow> has_prefix ''/'' (base @ s)" for s
    by (cases base) (auto simp: has_prefix_def)
  have hd_abs: "s \<noteq> [] \<Longrightarrow> hd s = CHR ''/'' \<Longrightarrow> has_prefix ''/'' s" for s by (cases s) (auto simp: has_prefix_def)
  show ?thesis
    using assms h abs hd_abs
    by (auto simp: parse_native_module_line_def t Let_def split: prod.splits if_splits)
qed

definition sample_module :: native_module where
  "sample_module = \<lparr>nm_module_id = ''demo'', nm_target_type = 1, nm_target = ''surfaceflinger'',
     nm_lib_path = ''/data/adb/modules/demo/lib/x.so'', nm_has_companion = True\<rparr>"

lemma sample_parses:
  "parse_native_module_line (\<lambda>path. True) ''demo'' ''/data/adb/modules/demo''
     '' name=surfaceflinger lib/x.so companion'' = Some sample_module"
  by (simp add: parse_native_module_line_def trim_copy_def next_token_def is_space_def has_prefix_def
      token_loop.simps replace_all_def sample_module_def)

section \<open>Printing and parsing\<close>

definition manifest_line :: "native_module \<Rightarrow> string \<Rightarrow> string" where
  "manifest_line m lib =
     (if nm_target_type m = 1 then ''name='' else ''path='') @ nm_target m @ '' '' @ lib @
     (if nm_has_companion m then '' companion'' else [])"

definition solid :: "string \<Rightarrow> bool" where
  "solid s \<longleftrightarrow> s \<noteq> [] \<and> list_all (\<lambda>c. \<not> is_space c) s"

lemma solid_append: "solid s \<Longrightarrow> list_all (\<lambda>c. \<not> is_space c) t \<Longrightarrow> solid (s @ t)"
  by (simp add: solid_def)

lemma next_token_solid:
  assumes "list_all is_space w" and "solid t" and "rest = [] \<or> is_space (hd rest)"
  shows "next_token (w @ t @ rest) = (t, rest)"
proof -
  have "dropWhile is_space (w @ t @ rest) = t @ rest"
    using assms(1,2) by (cases t) (auto simp: solid_def list_all_iff dropWhile_append)
  moreover have "takeWhile (\<lambda>c. \<not> is_space c) (t @ rest) = t" "dropWhile (\<lambda>c. \<not> is_space c) (t @ rest) = rest"
    using assms(2,3) by (cases rest; auto simp: solid_def list_all_iff takeWhile_append dropWhile_append)+
  ultimately show ?thesis by (simp add: next_token_def)
qed

lemma next_token_end: "list_all is_space w \<Longrightarrow> next_token w = ([], [])"
  by (simp add: next_token_def list_all_iff dropWhile_eq_Nil_conv [THEN iffD2])

lemma trim_copy_middle:
  assumes "list_all is_space w" "list_all is_space v" and "s \<noteq> []" "\<not> is_space (hd s)" "\<not> is_space (last s)"
  shows "trim_copy (w @ s @ v) = s"
proof -
  have "dropWhile is_space (w @ s @ v) = s @ v"
    using assms(1,3,4) by (cases s) (auto simp: list_all_iff dropWhile_append)
  moreover have "dropWhile is_space (rev v @ rev s) = rev s"
    using assms(2,3,5) by (cases s rule: rev_cases) (auto simp: list_all_iff dropWhile_append)
  ultimately show ?thesis by (simp add: trim_copy_def)
qed

lemma replace_from_absent:
  assumes "pat = CHR ''$'' # p" and "CHR ''$'' \<notin> set s"
  shows "replace_from pat to_text s = s"
  using assms(2) by (induction s) (auto simp: assms(1))

lemma token_loop_line:
  assumes "solid lib" and "lib \<noteq> ''companion''"
  shows "token_loop [] False ('' '' @ lib @ (if companion then '' companion'' else [])) = (lib, companion)"
proof -
  have 1: "next_token ('' '' @ lib @ (if companion then '' companion'' else [])) =
      (lib, if companion then '' companion'' else [])"
    by (rule next_token_solid) (use assms(1) in \<open>auto simp: is_space_def\<close>)
  have 2: "next_token ('' '' @ ''companion'' @ []) = (''companion'', [])"
    by (rule next_token_solid) (auto simp: is_space_def solid_def)
  have 3: "token_loop lib b [] = (lib, b)" for b by (simp add: token_loop.simps next_token_def)
  have "token_loop lib False (if companion then '' companion'' else []) = (lib, companion)"
    using 2 3 by (simp add: token_loop.simps [of lib False "'' companion''"])
  then show ?thesis using 1 assms by (subst token_loop.simps) (auto simp: solid_def)
qed

text \<open>A line made of a target, a library path relative to the module directory and the optional flag,
  with any white space around it, is read back as exactly that module.\<close>

lemma manifest_line_parses:
  assumes "length (nm_module_id m) < 64" and "solid (nm_target m)" and "length (nm_target m) < 256"
    and "nm_target_type m = 1 \<or> nm_target_type m = 2"
    and "solid lib" and "lib \<noteq> ''companion''" and "CHR ''$'' \<notin> set lib" and "hd lib \<noteq> CHR ''/''"
    and "nm_lib_path m = base @ ''/'' @ lib" and "exists_file (c_str (nm_lib_path m))"
    and "list_all is_space w" and "list_all is_space v"
  shows "parse_native_module_line exists_file (nm_module_id m) base (w @ manifest_line m lib @ v) = Some m"
proof -
  define key where "key = (if nm_target_type m = 1 then ''name='' else ''path='')"
  define rest where "rest = '' '' @ lib @ (if nm_has_companion m then '' companion'' else [])"
  have line: "manifest_line m lib = (key @ nm_target m) @ rest" by (simp add: manifest_line_def key_def rest_def)
  have key: "length key = 5" "solid key" "hd key \<noteq> CHR ''#''" by (simp_all add: key_def solid_def is_space_def)
  have head: "solid (key @ nm_target m)" using key(2) assms(2) by (simp add: solid_def)
  have ends: "hd (manifest_line m lib) = hd key" "last (manifest_line m lib) = last rest" "manifest_line m lib \<noteq> []"
    using key(2) by (auto simp: line solid_def rest_def)
  have "\<not> is_space (hd key)" "\<not> is_space (last rest)"
    using key(2) assms(5) by (auto simp: key_def rest_def is_space_def solid_def list_all_iff last_append split: if_splits)
  then have trimmed: "trim_copy (w @ manifest_line m lib @ v) = manifest_line m lib"
    using assms(11,12) ends by (intro trim_copy_middle) simp_all
  have tok: "next_token (manifest_line m lib) = (key @ nm_target m, rest)"
    unfolding line using next_token_solid [of "[]" "key @ nm_target m" rest] head
    by (simp add: rest_def is_space_def)
  have types: "has_prefix ''name='' (key @ nm_target m) \<longleftrightarrow> nm_target_type m = 1"
      "has_prefix ''path='' (key @ nm_target m) \<longleftrightarrow> nm_target_type m = 2"
    using assms(4) by (auto simp: has_prefix_def key_def)
  have subst: "replace_all lib ''${moduleId}'' x = lib" "replace_all lib ''$moduleId'' x = lib" for x
    using replace_from_absent [OF refl assms(7)] by (simp_all add: replace_all_def)
  have loop: "token_loop [] False rest = (lib, nm_has_companion m)"
    unfolding rest_def by (rule token_loop_line [OF assms(5,6)])
  show ?thesis
    using assms(1-6,8-10) key(1,3) ends(1,3)
    by (auto simp: parse_native_module_line_def trimmed tok types subst loop solid_def)
qed

end
