(* ===== verification/Daemon_Server.thy ===== *)
theory Daemon_Server
  imports Native_Core Zygote_Runtime Native_Manifest
begin

text \<open>
  The server of the daemon, \<^verbatim>\<open>userspace/zygisk/daemon/zygiskd.cpp\<close>: which modules there are, the requests of
  the injected processes, the companion processes that are started for modules on demand, and the copies of
  module files that are handed out.

  What the client sends is a list of bytes; a read behind its end fails.  The answers of system calls are data
  of the model, the descriptors of the daemon a map from numbers to open objects.
\<close>

section \<open>State\<close>

text \<open>An open file, a memory file, a directory, or one of the two ends of a numbered pair of sockets.\<close>

datatype file_object = OpenFile string | MemFile "u8 list" | Directory string | SockEnd nat bool

record zygisk_module =
  zm_name :: string
  zm_lib_path :: string

record companion =
  cn_pid :: int
  cn_ctrl :: int
  cn_has_entry :: bool

record yz_config =
  yc_yukilinker :: u8
  yc_denylist_mode :: u8
  yc_dmesg_log :: u8

text \<open>The companion processes: the library each has been started for, and the pair of sockets that leads to it.\<close>

record companion_process =
  pr_lib_path :: string
  pr_native :: bool
  pr_pair :: nat

text \<open>The requests to the kernel driver, as far as they change something.\<close>

datatype ioctl =
  AllowModuleLoadPolicy int string
| RestoreNativeLoadPolicy int
| UmountPid int
| PatchText int u64 "u8 list"
| ReportRuntime yz_runtime_report
| SetNativeTargets "(u8 \<times> string) list"
| SetYukilinker u8

text \<open>What leaves the daemon apart from the reply: requests to the kernel with their success, and objects that are
  passed over a pair of sockets.\<close>

datatype daemon_event = Ioctl ioctl bool | Passed nat file_object

record daemon =
  dn_modules :: "zygisk_module list"
  dn_native_targets :: "native_module list"
  dn_native_modules :: "native_module list"
  dn_companions :: "companion list"
  dn_native_companions :: "companion list"
  dn_config :: yz_config
  dn_fds :: "int \<Rightarrow> file_object option"
  dn_pairs :: nat
  dn_processes :: "int \<Rightarrow> companion_process option"
  dn_events :: "daemon_event list"

definition no_companion :: companion where
  "no_companion = \<lparr>cn_pid = - 1, cn_ctrl = - 1, cn_has_entry = False\<rparr>"

definition daemon_initial :: "(int \<Rightarrow> file_object option) \<Rightarrow> daemon" where
  "daemon_initial fds = \<lparr>dn_modules = [], dn_native_targets = [], dn_native_modules = [], dn_companions = [],
     dn_native_companions = [], dn_config = \<lparr>yc_yukilinker = 1, yc_denylist_mode = 0, yc_dmesg_log = 0\<rparr>, dn_fds = fds,
     dn_pairs = 0, dn_processes = (\<lambda>_. None), dn_events = []\<rparr>"

section \<open>Descriptors\<close>

text \<open>The lowest free number below the limit, if the call works.\<close>

definition free_fd :: "nat \<Rightarrow> (int \<Rightarrow> file_object option) \<Rightarrow> int option" where
  "free_fd limit fds = map_option int (find (\<lambda>i. fds (int i) = None) [0..<limit])"

definition open_fd :: "bool \<Rightarrow> nat \<Rightarrow> file_object \<Rightarrow> daemon \<Rightarrow> int \<times> daemon" where
  "open_fd ok limit obj d =
     (if \<not> ok then (- 1, d)
      else case free_fd limit (dn_fds d) of
        None \<Rightarrow> (- 1, d)
      | Some fd \<Rightarrow> (fd, d\<lparr>dn_fds := (dn_fds d)(fd \<mapsto> obj)\<rparr>))"

definition close_fd :: "int \<Rightarrow> daemon \<Rightarrow> daemon" where
  "close_fd fd d = d\<lparr>dn_fds := (dn_fds d)(fd := None)\<rparr>"

text \<open>Both ends of a new pair, or neither.\<close>

definition socketpair :: "bool \<Rightarrow> nat \<Rightarrow> daemon \<Rightarrow> (int \<times> int) option \<times> daemon" where
  "socketpair ok limit d =
     (if \<not> ok then (None, d)
      else case free_fd limit (dn_fds d) of
        None \<Rightarrow> (None, d)
      | Some a \<Rightarrow>
          let k = dn_pairs d; fds = (dn_fds d)(a \<mapsto> SockEnd k False) in
          (case free_fd limit fds of
             None \<Rightarrow> (None, d)
           | Some b \<Rightarrow> (Some (a, b), d\<lparr>dn_fds := fds(b \<mapsto> SockEnd k True), dn_pairs := Suc k\<rparr>)))"

definition emit :: "daemon_event \<Rightarrow> daemon \<Rightarrow> daemon" where
  "emit e d = d\<lparr>dn_events := dn_events d @ [e]\<rparr>"

section \<open>Copies of module files\<close>

text \<open>The answers to the calls that copy: \<open>n\<close> bytes, an interrupted call, or an error; behind the end of the
  list every call transfers all that is asked for.\<close>

datatype io_answer = Got nat | Interrupted | Failed

fun write_left :: "io_answer list \<Rightarrow> nat \<Rightarrow> bool \<times> io_answer list" where
  "write_left [] left = (True, [])"
| "write_left (a # as) left =
     (if left = 0 then (True, a # as)
      else case a of
        Interrupted \<Rightarrow> write_left as left
      | Failed \<Rightarrow> (False, as)
      | Got n \<Rightarrow> if n = 0 then (False, as) else write_left as (left - n))"

lemma write_left_shorter: "write_left as left = (ok, as') \<Longrightarrow> length as' \<le> length as"
  by (induction as left arbitrary: ok as' rule: write_left.induct) (fastforce split: if_splits io_answer.splits)+

text \<open>The loop that reads \<open>rest\<close> in pieces of up to 64 KiB and writes each; the result is what has been written.\<close>

function copy_loop :: "io_answer list \<Rightarrow> u8 list \<Rightarrow> u8 list \<Rightarrow> u8 list option" where
  "copy_loop [] rest written = Some (written @ rest)"
| "copy_loop (a # as) rest written =
     (case a of
        Interrupted \<Rightarrow> copy_loop as rest written
      | Failed \<Rightarrow> None
      | Got n \<Rightarrow>
          let chunk = take (min n 0x10000) rest in
          if chunk = [] then Some written
          else (case write_left as (length chunk) of
              (False, _) \<Rightarrow> None
            | (True, as') \<Rightarrow> copy_loop as' (drop (length chunk) rest) (written @ chunk)))"
  by pat_completeness auto
termination
  by (relation "measure (\<lambda>(as, rest, written). length as)") (auto dest: write_left_shorter [OF sym])

record copy_answers =
  ca_open :: bool
  ca_stat :: bool
  ca_memfd :: bool
  ca_truncate :: bool
  ca_io :: "io_answer list"
  ca_seek :: bool
  ca_seal :: bool
  ca_reopen :: bool

text \<open>What is at a path: whether it is a regular file, and its content.\<close>

type_synonym module_files = "string \<Rightarrow> (bool \<times> u8 list) option"

text \<open>The memory file has the size of the source from the start; what is not written is zero.\<close>

definition padded :: "nat \<Rightarrow> u8 list \<Rightarrow> u8 list" where
  "padded n bs = bs @ replicate (n - length bs) 0"

text \<open>What follows once the memory file and the source are open.\<close>

definition fill_memfd :: "copy_answers \<Rightarrow> nat \<Rightarrow> u8 list \<Rightarrow> int \<Rightarrow> int \<Rightarrow> daemon \<Rightarrow> int \<times> daemon" where
  "fill_memfd a limit content src mfd d =
     (if \<not> ca_truncate a then (- 1, close_fd src (close_fd mfd d))
      else case copy_loop (ca_io a) content [] of
        None \<Rightarrow> (- 1, close_fd src (close_fd mfd d))
      | Some written \<Rightarrow>
          let d1 = close_fd src d in
          if \<not> ca_seek a then (- 1, close_fd mfd d1)
          else if \<not> ca_seal a then (- 1, close_fd mfd d1)
          else (case open_fd (ca_reopen a) limit (MemFile (padded (length content) written)) d1 of
              (ro_fd, d2) \<Rightarrow> if ro_fd < 0 then (- 1, close_fd mfd d2) else (ro_fd, close_fd mfd d2)))"

definition copy_file_to_memfd :: "copy_answers \<Rightarrow> nat \<Rightarrow> module_files \<Rightarrow> string \<Rightarrow> daemon \<Rightarrow> int \<times> daemon" where
  "copy_file_to_memfd a limit files path d =
     (case files path of
        None \<Rightarrow> (- 1, d)
      | Some (regular, content) \<Rightarrow>
          (case open_fd (ca_open a) limit (OpenFile path) d of
             (src, d1) \<Rightarrow>
               if src < 0 then (- 1, d1)
               else if \<not> ca_stat a \<or> content = [] \<or> \<not> regular then (- 1, close_fd src d1)
               else (case open_fd (ca_memfd a) limit (MemFile []) d1 of
                   (mfd, d2) \<Rightarrow> if mfd < 0 then (- 1, close_fd src d2) else fill_memfd a limit content src mfd d2)))"

section \<open>Companions\<close>

text \<open>Whether the pair can be made, the process that is started, and the byte it sends in time.\<close>

record companion_answers =
  ea_pair :: bool
  ea_fork :: "int option"
  ea_ready :: "u8 option"

text \<open>A new companion, or none: then nothing is left of it.\<close>

definition start_companion :: "companion_answers \<Rightarrow> nat \<Rightarrow> string \<Rightarrow> bool \<Rightarrow> daemon \<Rightarrow> companion option \<times> daemon" where
  "start_companion e limit lib_path native d =
     (case socketpair (ea_pair e) limit d of
        (None, d1) \<Rightarrow> (None, d1)
      | (Some (a, b), d1) \<Rightarrow>
          (case ea_fork e of
             None \<Rightarrow> (None, close_fd b (close_fd a d1))
           | Some pid \<Rightarrow>
               let d2 = (close_fd b d1)\<lparr>dn_processes := (dn_processes d1)
                   (pid \<mapsto> \<lparr>pr_lib_path = lib_path, pr_native = native, pr_pair = dn_pairs d\<rparr>)\<rparr>
               in (case ea_ready e of
                   None \<Rightarrow> (None, close_fd a (d2\<lparr>dn_processes := (dn_processes d2)(pid := None)\<rparr>))
                 | Some ready \<Rightarrow> (Some \<lparr>cn_pid = pid, cn_ctrl = a, cn_has_entry = (ready = 1)\<rparr>, d2))))"

definition resized :: "nat \<Rightarrow> companion list \<Rightarrow> companion list" where
  "resized n cs = (if length cs \<noteq> n then take n cs @ replicate (n - length cs) no_companion else cs)"

definition ensure_companion :: "companion_answers \<Rightarrow> nat \<Rightarrow> nat \<Rightarrow> daemon \<Rightarrow> bool \<times> daemon" where
  "ensure_companion e limit idx d =
     (if length (dn_modules d) \<le> idx then (False, d)
      else let cs = resized (length (dn_modules d)) (dn_companions d); d0 = d\<lparr>dn_companions := cs\<rparr> in
        if 0 < cn_pid (cs ! idx) then (cn_has_entry (cs ! idx), d0)
        else (case start_companion e limit (zm_lib_path (dn_modules d ! idx)) False d0 of
            (None, d1) \<Rightarrow> (False, d1)
          | (Some c, d1) \<Rightarrow> (cn_has_entry c, d1\<lparr>dn_companions := cs[idx := c]\<rparr>)))"

definition ensure_native_companion :: "companion_answers \<Rightarrow> nat \<Rightarrow> nat \<Rightarrow> daemon \<Rightarrow> bool \<times> daemon" where
  "ensure_native_companion e limit idx d =
     (if length (dn_native_modules d) \<le> idx \<or> \<not> nm_has_companion (dn_native_modules d ! idx) then (False, d)
      else let cs = resized (length (dn_native_modules d)) (dn_native_companions d); d0 = d\<lparr>dn_native_companions := cs\<rparr> in
        if 0 < cn_pid (cs ! idx) then (cn_has_entry (cs ! idx), d0)
        else (case start_companion e limit (nm_lib_path (dn_native_modules d ! idx)) True d0 of
            (None, d1) \<Rightarrow> (False, d1)
          | (Some c, d1) \<Rightarrow> (cn_has_entry c, d1\<lparr>dn_native_companions := cs[idx := c]\<rparr>)))"

section \<open>Requests\<close>

text \<open>A reply: nothing, bytes, or one byte with a descriptor (or without one).\<close>

datatype reply = NoReply | Bytes "u8 list" | Descriptor "file_object option"

text \<open>What the client sends and which process it is (if known), whether a reply with a descriptor reaches it, and
  the answers of the system: the limit of descriptors, files, directories, pairs, handing a descriptor to a companion,
  the driver, the policy for a uid and the records of the driver.\<close>

record server_answers =
  sv_input :: "u8 list"
  sv_peer :: "int option"
  sv_sent :: bool
  sv_limit :: nat
  sv_files :: module_files
  sv_copy :: copy_answers
  sv_dir :: bool
  sv_companion :: companion_answers
  sv_pair :: bool
  sv_pass :: bool
  sv_ctl :: "ioctl \<Rightarrow> bool"
  sv_umount :: "u32 \<Rightarrow> bool"
  sv_runtime :: "yz_runtime_record list option"

abbreviation (input) MODULES_DIR :: string where "MODULES_DIR \<equiv> ''/data/adb/modules''"

definition ctl :: "server_answers \<Rightarrow> ioctl \<Rightarrow> daemon \<Rightarrow> bool \<times> daemon" where
  "ctl a r d = (sv_ctl a r, emit (Ioctl r (sv_ctl a r)) d)"

text \<open>The process of the client, where the socket knows it.\<close>

definition peer :: "server_answers \<Rightarrow> int option" where
  "peer a = (case sv_peer a of None \<Rightarrow> None | Some pid \<Rightarrow> if 0 < pid then Some pid else None)"

definition flag_bytes :: "bool \<Rightarrow> u8 list" where "flag_bytes ok = [if ok then 1 else 0]"

text \<open>The number of a module in the request, if it is complete.\<close>

definition read_index :: "u8 list \<Rightarrow> nat option" where
  "read_index bs = (if length bs < 4 then None else Some (unat (get32 bs 0)))"

text \<open>A file is copied, sent and closed.\<close>

definition send_copy :: "server_answers \<Rightarrow> string \<Rightarrow> daemon \<Rightarrow> reply \<times> daemon" where
  "send_copy a path d =
     (case copy_file_to_memfd (sv_copy a) (sv_limit a) (sv_files a) path d of
        (fd, d1) \<Rightarrow> if fd < 0 then (Descriptor None, d1) else (Descriptor (dn_fds d1 fd), close_fd fd d1))"

definition get_module_fd :: "server_answers \<Rightarrow> u8 list \<Rightarrow> daemon \<Rightarrow> reply \<times> daemon" where
  "get_module_fd a bs d =
     (case read_index bs of
        None \<Rightarrow> (Descriptor None, d)
      | Some idx \<Rightarrow>
          if length (dn_modules d) \<le> idx then (Descriptor None, d) else send_copy a (zm_lib_path (dn_modules d ! idx)) d)"

definition get_native_module_fd :: "server_answers \<Rightarrow> u8 list \<Rightarrow> daemon \<Rightarrow> reply \<times> daemon" where
  "get_native_module_fd a bs d =
     (case read_index bs of
        None \<Rightarrow> (Descriptor None, d)
      | Some idx \<Rightarrow>
          if length (dn_native_modules d) \<le> idx then (Descriptor None, d)
          else send_copy a (nm_lib_path (dn_native_modules d ! idx)) d)"

text \<open>A new pair: one end goes to the companion at \<open>ctrl\<close>, the other to the client.\<close>

definition connect_pair :: "server_answers \<Rightarrow> int \<Rightarrow> daemon \<Rightarrow> reply \<times> daemon" where
  "connect_pair a ctrl d =
     (case socketpair (sv_pair a) (sv_limit a) d of
        (None, d1) \<Rightarrow> (Descriptor None, d1)
      | (Some (x, y), d1) \<Rightarrow>
          (case (sv_pass a, dn_fds d1 ctrl, dn_fds d1 y) of
             (True, Some (SockEnd p e), Some obj) \<Rightarrow>
               let d2 = close_fd y (emit (Passed p obj) d1)
               in (Descriptor (dn_fds d2 x), close_fd x d2)
           | _ \<Rightarrow> (Descriptor None, close_fd y (close_fd x d1))))"

definition connect_companion :: "server_answers \<Rightarrow> u8 list \<Rightarrow> daemon \<Rightarrow> reply \<times> daemon" where
  "connect_companion a bs d =
     (case read_index bs of
        None \<Rightarrow> (Descriptor None, d)
      | Some idx \<Rightarrow>
          (case ensure_companion (sv_companion a) (sv_limit a) idx d of
             (ok, d1) \<Rightarrow> if \<not> ok then (Descriptor None, d1) else connect_pair a (cn_ctrl (dn_companions d1 ! idx)) d1))"

definition connect_native_companion :: "server_answers \<Rightarrow> u8 list \<Rightarrow> daemon \<Rightarrow> reply \<times> daemon" where
  "connect_native_companion a bs d =
     (case read_index bs of
        None \<Rightarrow> (Descriptor None, d)
      | Some idx \<Rightarrow>
          (case ensure_native_companion (sv_companion a) (sv_limit a) idx d of
             (ok, d1) \<Rightarrow> if \<not> ok then (Descriptor None, d1) else connect_pair a (cn_ctrl (dn_native_companions d1 ! idx)) d1))"

text \<open>The directory of a module, for which the client gets permissions; they are taken back when it cannot be sent.\<close>

definition send_module_dir :: "server_answers \<Rightarrow> string \<Rightarrow> daemon \<Rightarrow> reply \<times> daemon" where
  "send_module_dir a path d =
     (case open_fd (sv_dir a) (sv_limit a) (Directory path) d of
        (fd, d1) \<Rightarrow>
          if fd < 0 then (Descriptor None, d1)
          else (case peer a of
              None \<Rightarrow> (Descriptor None, close_fd fd d1)
            | Some pid \<Rightarrow>
                (case ctl a (AllowModuleLoadPolicy pid path) d1 of
                   (armed, d2) \<Rightarrow>
                     if \<not> armed then (Descriptor None, close_fd fd d2)
                     else let d3 = close_fd fd d2
                       in (Descriptor (dn_fds d2 fd), if sv_sent a then d3 else snd (ctl a (RestoreNativeLoadPolicy pid) d3)))))"

definition get_module_dir :: "server_answers \<Rightarrow> u8 list \<Rightarrow> daemon \<Rightarrow> reply \<times> daemon" where
  "get_module_dir a bs d =
     (case read_index bs of
        None \<Rightarrow> (Descriptor None, d)
      | Some idx \<Rightarrow>
          if length (dn_modules d) \<le> idx then (Descriptor None, d)
          else send_module_dir a (MODULES_DIR @ ''/'' @ zm_name (dn_modules d ! idx)) d)"

definition query_flags :: "server_answers \<Rightarrow> u32 \<Rightarrow> daemon \<Rightarrow> u32" where
  "query_flags a uid d = (if yc_denylist_mode (dn_config d) \<noteq> 0 \<and> sv_umount a uid then 2 else 0)"

text \<open>A request to the driver about the client, answered with one byte.\<close>

definition for_peer :: "server_answers \<Rightarrow> (int \<Rightarrow> ioctl) \<Rightarrow> daemon \<Rightarrow> reply \<times> daemon" where
  "for_peer a r d =
     (case peer a of
        None \<Rightarrow> (Bytes (flag_bytes False), d)
      | Some pid \<Rightarrow> (case ctl a (r pid) d of (ok, d1) \<Rightarrow> (Bytes (flag_bytes ok), d1)))"

text \<open>The segments are read, but only the mounts are reverted.\<close>

definition self_destruct :: "server_answers \<Rightarrow> u8 list \<Rightarrow> daemon \<Rightarrow> reply \<times> daemon" where
  "self_destruct a bs d =
     (case bs of
        [] \<Rightarrow> (NoReply, d)
      | n # segments \<Rightarrow>
          if n = 0 \<or> 8 < n then (NoReply, d)
          else if length segments < 16 * unat n then (Bytes (flag_bytes False), d)
          else for_peer a UmountPid d)"

definition patch_text :: "server_answers \<Rightarrow> u8 list \<Rightarrow> daemon \<Rightarrow> reply \<times> daemon" where
  "patch_text a bs d =
     (if length bs < 12 then (NoReply, d)
      else let addr = get64 bs 0; len = unat (get32 bs 8); code = drop 12 bs in
        if len = 0 \<or> 64 < len \<or> length code < len then (NoReply, d)
        else for_peer a (\<lambda>pid. PatchText pid addr (take len code)) d)"

definition report_runtime :: "server_answers \<Rightarrow> int \<Rightarrow> u8 \<Rightarrow> u32 \<Rightarrow> string \<Rightarrow> daemon \<Rightarrow> bool \<times> daemon" where
  "report_runtime a pid kind generation module_id d =
     (if pid \<le> 0 \<or> generation = 0 then (False, d)
      else ctl a (ReportRuntime \<lparr>rp_pid = of_int pid, rp_generation = generation, rp_kind = kind,
          rp_module_id = take 63 (c_str module_id)\<rparr>) d)"

definition report_zygote :: "server_answers \<Rightarrow> u8 list \<Rightarrow> daemon \<Rightarrow> reply \<times> daemon" where
  "report_zygote a bs d =
     (case (4 \<le> length bs, peer a) of
        (True, Some pid) \<Rightarrow> (case report_runtime a pid 1 (get32 bs 0) [] d of (ok, d1) \<Rightarrow> (Bytes (flag_bytes ok), d1))
      | _ \<Rightarrow> (Bytes (flag_bytes False), d))"

definition report_native :: "server_answers \<Rightarrow> u8 list \<Rightarrow> daemon \<Rightarrow> reply \<times> daemon" where
  "report_native a bs d =
     (case (8 \<le> length bs, peer a) of
        (True, Some pid) \<Rightarrow>
          (if unat (get32 bs 0) < length (dn_native_modules d)
           then (case report_runtime a pid 2 (get32 bs 4) (nm_module_id (dn_native_modules d ! unat (get32 bs 0))) d of
               (ok, d1) \<Rightarrow> (Bytes (flag_bytes ok), d1))
           else (Bytes (flag_bytes False), d))
      | _ \<Rightarrow> (Bytes (flag_bytes False), d))"

text \<open>The records of a process that the core may report for, in this build with 64-bit processes.\<close>

definition reportable :: "int \<Rightarrow> u8 \<Rightarrow> yz_runtime_record \<Rightarrow> bool" where
  "reportable pid kind r \<longleftrightarrow>
     rr_pid r = of_int pid \<and> rr_kind r = kind \<and> rr_abi r = 2 \<and> rr_module_id r = [] \<and> (rr_state r = 2 \<or> rr_state r = 3)"

definition query_runtime_snapshot :: "server_answers \<Rightarrow> yz_runtime_record list" where
  "query_runtime_snapshot a = (case sv_runtime a of None \<Rightarrow> [] | Some rs \<Rightarrow> rs)"

definition runtime_generation :: "server_answers \<Rightarrow> int \<Rightarrow> u8 \<Rightarrow> u32" where
  "runtime_generation a pid kind =
     (if pid \<le> 0 \<or> (kind \<noteq> 1 \<and> kind \<noteq> 2) then 0
      else foldl (\<lambda>g r. if reportable pid kind r then max g (rr_generation r) else g) 0 (query_runtime_snapshot a))"

definition get_runtime_generation :: "server_answers \<Rightarrow> u8 list \<Rightarrow> reply" where
  "get_runtime_generation a bs =
     (case (bs, peer a) of
        (kind # _, Some pid) \<Rightarrow> Bytes (le32 (runtime_generation a pid kind))
      | _ \<Rightarrow> Bytes (le32 0))"

text \<open>The description of a native module; a text is cut to its array, which ends in a zero byte.\<close>

definition char_array :: "nat \<Rightarrow> string \<Rightarrow> u8 list" where
  "char_array n s = (let t = take (n - 1) (c_str s) in ascii t @ replicate (n - length t) 0)"

definition info_bytes :: "native_module \<Rightarrow> u8 list" where
  "info_bytes m = [nm_target_type m, if nm_has_companion m then 1 else 0, 0, 0] @
     char_array 64 (nm_module_id m) @ char_array 256 (nm_target m) @ char_array 512 (nm_lib_path m)"

definition get_native_module_info :: "u8 list \<Rightarrow> daemon \<Rightarrow> reply" where
  "get_native_module_info bs d =
     (case read_index bs of
        None \<Rightarrow> Bytes (replicate 836 0)
      | Some idx \<Rightarrow>
          if length (dn_native_modules d) \<le> idx then Bytes (replicate 836 0) else Bytes (info_bytes (dn_native_modules d ! idx)))"

definition config_bytes :: "yz_config \<Rightarrow> u8 list" where
  "config_bytes c = [yc_yukilinker c, yc_denylist_mode c, yc_dmesg_log c, 0]"

text \<open>One request; those without a reply are log lines and unknown ones.\<close>

definition handle_client :: "server_answers \<Rightarrow> daemon \<Rightarrow> reply \<times> daemon" where
  "handle_client a d =
     (case sv_input a of
        [] \<Rightarrow> (NoReply, d)
      | op # bs \<Rightarrow>
          if op = 1 then (if length bs < 4 then (NoReply, d) else (Bytes (le32 (query_flags a (get32 bs 0) d)), d))
          else if op = 2 then (Bytes (le32 (of_nat (length (dn_modules d)))), d)
          else if op = 3 then get_module_fd a bs d
          else if op = 4 then connect_companion a bs d
          else if op = 5 then get_module_dir a bs d
          else if op = 6 then (Bytes (config_bytes (dn_config d)), d)
          else if op = 8 then for_peer a UmountPid d
          else if op = 9 then self_destruct a bs d
          else if op = 11 then patch_text a bs d
          else if op = 12 then report_zygote a bs d
          else if op = 13 then (Bytes (le32 (of_nat (length (dn_native_modules d)))), d)
          else if op = 14 then (get_native_module_info bs d, d)
          else if op = 15 then get_native_module_fd a bs d
          else if op = 16 then connect_native_companion a bs d
          else if op = 17 then for_peer a RestoreNativeLoadPolicy d
          else if op = 18 then report_native a bs d
          else if op = 21 then (get_runtime_generation a bs, d)
          else (NoReply, d))"

section \<open>The modules\<close>

text \<open>The names in the directory of modules (if it can be read) and which paths exist.\<close>

definition usable_module :: "(string \<Rightarrow> bool) \<Rightarrow> string \<Rightarrow> bool" where
  "usable_module exists_file name \<longleftrightarrow>
     hd name \<noteq> CHR ''.'' \<and> \<not> exists_file (MODULES_DIR @ ''/'' @ name @ ''/disable'') \<and>
     \<not> exists_file (MODULES_DIR @ ''/'' @ name @ ''/remove'')"

definition scan_modules :: "string list option \<Rightarrow> (string \<Rightarrow> bool) \<Rightarrow> zygisk_module list" where
  "scan_modules names exists_file =
     (case names of
        None \<Rightarrow> []
      | Some ns \<Rightarrow>
          map (\<lambda>n. \<lparr>zm_name = n, zm_lib_path = MODULES_DIR @ ''/'' @ n @ ''/zygisk/arm64-v8a.so''\<rparr>)
            (filter (\<lambda>n. usable_module exists_file n \<and> exists_file (MODULES_DIR @ ''/'' @ n @ ''/zygisk/arm64-v8a.so'')) ns))"

text \<open>The lines of a text, without an empty one at its end.\<close>

fun manifest_lines :: "string \<Rightarrow> string list" where
  "manifest_lines [] = []"
| "manifest_lines (c # cs) =
     (if c = CHR 0x0A then [] # manifest_lines cs
      else case manifest_lines cs of [] \<Rightarrow> [[c]] | l # ls \<Rightarrow> (c # l) # ls)"

definition scan_native_modules ::
  "string list option \<Rightarrow> (string \<Rightarrow> bool) \<Rightarrow> (string \<Rightarrow> string option) \<Rightarrow> native_module list" where
  "scan_native_modules names exists_file read_text =
     (case names of
        None \<Rightarrow> []
      | Some ns \<Rightarrow>
          concat (map (\<lambda>n.
            if \<not> usable_module exists_file n then []
            else case read_text (MODULES_DIR @ ''/'' @ n @ ''/zn_modules.txt'') of
                None \<Rightarrow> []
              | Some text \<Rightarrow> List.map_filter (parse_native_module_line exists_file n (MODULES_DIR @ ''/'' @ n)) (manifest_lines text)) ns))"

text \<open>The class of an ELF file: 1 for 32 bits, 2 for 64 bits.\<close>

definition native_module_elf_class :: "(string \<Rightarrow> u8 list option) \<Rightarrow> string \<Rightarrow> u8" where
  "native_module_elf_class files path =
     (case files path of
        None \<Rightarrow> 0
      | Some bs \<Rightarrow> if length bs < 16 \<or> take 4 bs \<noteq> [0x7f, 0x45, 0x4c, 0x46] \<or> bs ! 5 \<noteq> 1 then 0 else bs ! 4)"

text \<open>The targets for the kernel: each once, 64 at most.\<close>

definition add_target :: "(u8 \<times> string) list \<Rightarrow> native_module \<Rightarrow> (u8 \<times> string) list" where
  "add_target ts m =
     (if 64 \<le> length ts then ts
      else if \<exists>t \<in> set ts. fst t = nm_target_type m \<and> snd t = c_str (nm_target m) then ts
      else ts @ [(nm_target_type m, take 255 (c_str (nm_target m)))])"

definition publish_native_targets :: "server_answers \<Rightarrow> daemon \<Rightarrow> daemon" where
  "publish_native_targets a d = snd (ctl a (SetNativeTargets (foldl add_target [] (dn_native_targets d))) d)"

definition rescan_modules ::
  "server_answers \<Rightarrow> string list option \<Rightarrow> string list option \<Rightarrow> (string \<Rightarrow> bool) \<Rightarrow> (string \<Rightarrow> string option) \<Rightarrow>
     (string \<Rightarrow> u8 list option) \<Rightarrow> daemon \<Rightarrow> daemon" where
  "rescan_modules a names names' exists_file read_text files d =
     (let cls = (\<lambda>m. native_module_elf_class files (nm_lib_path m));
          targets = filter (\<lambda>m. cls m = 1 \<or> cls m = 2) (scan_native_modules names' exists_file read_text)
      in publish_native_targets a (d\<lparr>dn_modules := scan_modules names exists_file, dn_native_targets := targets,
           dn_native_modules := filter (\<lambda>m. cls m = 2) targets\<rparr>))"

section \<open>The configuration\<close>

text \<open>The file \<^verbatim>\<open>yzconfig.json\<close>, if it can be read.  The parser may run out of fuel, or throw, which ends the daemon.\<close>

definition config_of :: "'n::{zero,numeral} jvalue \<Rightarrow> yz_config \<Rightarrow> yz_config" where
  "config_of root c0 =
     (if jtype_of root \<noteq> TObject then c0
      else
        let c1 = (if contains_member ''yukilinker'' root
                  then c0\<lparr>yc_yukilinker := (if as_bool (at_member ''yukilinker'' root) then 1 else 0)\<rparr> else c0);
            mode = as_number (at_member ''denylist_mode'' root);
            c2 = (if contains_member ''denylist_mode'' root \<and> (mode = 0 \<or> mode = 1 \<or> mode = 2)
                  then c1\<lparr>yc_denylist_mode := (if mode = 0 then 0 else if mode = 1 then 1 else 2)\<rparr> else c1)
        in (if contains_member ''dmesg_log'' root
            then c2\<lparr>yc_dmesg_log := (if as_bool (at_member ''dmesg_log'' root) then 1 else 0)\<rparr> else c2))"

definition read_yzconfig ::
  "'n::{zero,numeral} num_ops \<Rightarrow> nat \<Rightarrow> string option \<Rightarrow> server_answers \<Rightarrow> daemon \<Rightarrow> daemon outcome" where
  "read_yzconfig ops fuel text a d =
     (let c0 = \<lparr>yc_yukilinker = 1, yc_denylist_mode = 0, yc_dmesg_log = 0\<rparr>;
          apply_config = (\<lambda>c. snd (ctl a (SetYukilinker (yc_yukilinker c)) (d\<lparr>dn_config := c\<rparr>)))
      in case text of
           None \<Rightarrow> Done (apply_config c0)
         | Some s \<Rightarrow>
             (case parse ops fuel s of
                No_Fuel \<Rightarrow> No_Fuel
              | Throws \<Rightarrow> Throws
              | Done root \<Rightarrow> Done (apply_config (config_of root c0))))"

end
