(* ===== verification/Daemon_Safety.thy ===== *)
theory Daemon_Safety
  imports Daemon_Server
begin

text \<open>
  Properties of the daemon's server: a request leaves no descriptor behind, clients reach the companion of the
  module they ask for, and a native process learns and loads the modules that are meant for it.
\<close>

section \<open>Descriptors\<close>

lemma free_fd_free: "free_fd limit fds = Some fd \<Longrightarrow> 0 \<le> fd \<and> fds fd = None"
  by (auto simp: free_fd_def find_Some_iff)

lemma open_fd_cases:
  assumes "open_fd ok limit obj d = (fd, d')"
  obtains (failed) "fd = - 1" "d' = d" | (opened) "0 \<le> fd" "dn_fds d fd = None" "d' = d\<lparr>dn_fds := (dn_fds d)(fd \<mapsto> obj)\<rparr>"
  using assms free_fd_free by (fastforce simp: open_fd_def split: if_splits option.splits)

lemma socketpair_cases:
  assumes "socketpair ok limit d = (r, d')"
  obtains (failed) "r = None" "d' = d"
  | (made) a b where "r = Some (a, b)" "0 \<le> a" "0 \<le> b" "a \<noteq> b" "dn_fds d a = None" "dn_fds d b = None"
      "d' = d\<lparr>dn_fds := (dn_fds d)(a \<mapsto> SockEnd (dn_pairs d) False, b \<mapsto> SockEnd (dn_pairs d) True), dn_pairs := Suc (dn_pairs d)\<rparr>"
proof -
  note cases = failed made
  show thesis
  proof (cases "ok \<and> r \<noteq> None")
    case False
    then show thesis using assms cases(1) by (auto simp: socketpair_def Let_def split: if_splits option.splits)
  next
    case True
    then obtain a b where ab: "free_fd limit (dn_fds d) = Some a"
        "free_fd limit ((dn_fds d)(a \<mapsto> SockEnd (dn_pairs d) False)) = Some b" "r = Some (a, b)"
        "d' = d\<lparr>dn_fds := (dn_fds d)(a \<mapsto> SockEnd (dn_pairs d) False, b \<mapsto> SockEnd (dn_pairs d) True), dn_pairs := Suc (dn_pairs d)\<rparr>"
      using assms by (auto simp: socketpair_def Let_def split: if_splits option.splits)
    show thesis
      using free_fd_free [OF ab(1)] free_fd_free [OF ab(2)] ab(3,4) by (intro cases(2)) (auto split: if_splits)
  qed
qed

lemma close_fd_simps [simp]:
  "dn_fds (close_fd fd d) = (dn_fds d)(fd := None)" "dn_pairs (close_fd fd d) = dn_pairs d"
  "dn_modules (close_fd fd d) = dn_modules d" "dn_native_modules (close_fd fd d) = dn_native_modules d"
  "dn_companions (close_fd fd d) = dn_companions d" "dn_native_companions (close_fd fd d) = dn_native_companions d"
  "dn_processes (close_fd fd d) = dn_processes d" "dn_events (close_fd fd d) = dn_events d"
  by (simp_all add: close_fd_def)

lemma close_opened: "dn_fds d fd = None \<Longrightarrow> close_fd fd (d\<lparr>dn_fds := (dn_fds d)(fd \<mapsto> obj)\<rparr>) = d"
  by (simp add: close_fd_def fun_upd_idem)

lemma fill_memfd_fds:
  assumes "fill_memfd a limit content src mfd d = (fd, d')" and "src \<noteq> mfd"
  shows "(fd = - 1 \<and> d' = close_fd mfd (close_fd src d)) \<or>
    (0 \<le> fd \<and> dn_fds (close_fd src d) fd = None \<and>
     (\<exists>written. copy_loop (ca_io a) content [] = Some written \<and>
       d' = close_fd mfd ((close_fd src d)\<lparr>dn_fds := (dn_fds (close_fd src d))(fd \<mapsto> MemFile (padded (length content) written))\<rparr>)))"
proof -
  have swap: "close_fd src (close_fd mfd d) = close_fd mfd (close_fd src d)"
    using assms(2) by (simp add: close_fd_def fun_upd_twist)
  show ?thesis
  proof (cases "copy_loop (ca_io a) content [] = None \<or> \<not> ca_truncate a \<or> \<not> ca_seek a \<or> \<not> ca_seal a")
    case True
    then show ?thesis using assms(1) swap by (auto simp: fill_memfd_def Let_def split: if_splits option.splits)
  next
    case False
    then obtain written where w: "copy_loop (ca_io a) content [] = Some written" by auto
    obtain fd2 d2 where o: "open_fd (ca_reopen a) limit (MemFile (padded (length content) written)) (close_fd src d) = (fd2, d2)"
      by fastforce
    have r: "(fd, d') = (if fd2 < 0 then (- 1, close_fd mfd d2) else (fd2, close_fd mfd d2))"
      using assms(1) False w o by (auto simp: fill_memfd_def Let_def)
    from o show ?thesis
      by (cases rule: open_fd_cases) (use r w in auto)
  qed
qed

lemma daemon_fds_eq: "dn_fds d = f \<Longrightarrow> d\<lparr>dn_fds := f\<rparr> = d"
  by auto

lemma copy_file_fds:
  assumes "copy_file_to_memfd a limit files path d = (fd, d')"
  shows "(fd < 0 \<and> d' = d) \<or> (0 \<le> fd \<and> dn_fds d fd = None \<and>
    (\<exists>content written. files path = Some (True, content) \<and> content \<noteq> [] \<and> copy_loop (ca_io a) content [] = Some written \<and>
       d' = d\<lparr>dn_fds := (dn_fds d)(fd \<mapsto> MemFile (padded (length content) written))\<rparr>))"
proof (cases "files path")
  case None
  then show ?thesis using assms by (simp add: copy_file_to_memfd_def)
next
  case (Some rc)
  obtain regular content where rc: "rc = (regular, content)" by fastforce
  obtain src d1 where o: "open_fd (ca_open a) limit (OpenFile path) d = (src, d1)" by fastforce
  note r = assms [unfolded copy_file_to_memfd_def Some rc o, simplified]
  from o show ?thesis
  proof (cases rule: open_fd_cases)
    case failed
    then show ?thesis using r by simp
  next
    case opened
    show ?thesis
    proof (cases "\<not> ca_stat a \<or> content = [] \<or> \<not> regular")
      case True
      then show ?thesis using r opened by (auto simp: close_opened)
    next
      case False
      obtain mfd d2 where m: "open_fd (ca_memfd a) limit (MemFile []) d1 = (mfd, d2)" by fastforce
      from m show ?thesis
      proof (cases rule: open_fd_cases)
        case failed
        then show ?thesis using r False opened m by (auto simp: close_opened)
      next
        case mopened: opened
        then have ne: "src \<noteq> mfd" and free: "dn_fds d mfd = None" using opened by (auto split: if_splits)
        have f: "fill_memfd a limit content src mfd d2 = (fd, d')" using r False opened m mopened by simp
        have closed: "close_fd src d2 = d\<lparr>dn_fds := (dn_fds d)(mfd \<mapsto> MemFile [])\<rparr>"
          using opened mopened ne by (simp add: close_fd_def fun_upd_twist fun_upd_idem)
        have gone: "close_fd mfd (close_fd src d2) = d" using free by (simp only: closed close_opened)
        from fill_memfd_fds [OF f ne] show ?thesis
        proof (elim disjE conjE exE)
          assume "fd = - 1" "d' = close_fd mfd (close_fd src d2)"
          then show ?thesis using gone by simp
        next
          fix written
          assume new: "0 \<le> fd" "dn_fds (close_fd src d2) fd = None" and w: "copy_loop (ca_io a) content [] = Some written"
            and d': "d' = close_fd mfd ((close_fd src d2)\<lparr>dn_fds := (dn_fds (close_fd src d2))(fd \<mapsto> MemFile (padded (length content) written))\<rparr>)"
          have "fd \<noteq> mfd" "dn_fds d fd = None" using new(2) by (auto simp: closed split: if_splits)
          moreover from this have "d' = d\<lparr>dn_fds := (dn_fds d)(fd \<mapsto> MemFile (padded (length content) written))\<rparr>"
            using free d' [unfolded closed] by (simp add: close_fd_def fun_upd_twist fun_upd_idem)
          ultimately show ?thesis using new(1) w False Some rc by auto
        qed
      qed
    qed
  qed
qed

section \<open>A request leaves no descriptor behind\<close>

text \<open>The descriptors after a request: as before, or with the socket of a companion that has been started.\<close>

definition kept_fds :: "daemon \<Rightarrow> daemon \<Rightarrow> bool" where
  "kept_fds d d' \<longleftrightarrow> dn_fds d' = dn_fds d \<or>
     (\<exists>c. c \<in> set (dn_companions d') \<union> set (dn_native_companions d') \<and> 0 < cn_pid c \<and> dn_fds d (cn_ctrl c) = None \<and>
        dn_fds d' = (dn_fds d)(cn_ctrl c \<mapsto> SockEnd (dn_pairs d) False))"

lemma send_copy_fds: "dn_fds (snd (send_copy a path d)) = dn_fds d"
proof -
  obtain fd d1 where c: "copy_file_to_memfd (sv_copy a) (sv_limit a) (sv_files a) path d = (fd, d1)" by fastforce
  from copy_file_fds [OF c] show ?thesis
    by (elim disjE conjE exE) (simp_all add: send_copy_def c fun_upd_idem)
qed

text \<open>A new companion.\<close>

definition companion_started :: "companion_answers \<Rightarrow> string \<Rightarrow> bool \<Rightarrow> daemon \<Rightarrow> companion \<Rightarrow> daemon \<Rightarrow> bool" where
  "companion_started e lib_path native d c d' \<longleftrightarrow>
     dn_fds d (cn_ctrl c) = None \<and> ea_fork e = Some (cn_pid c) \<and>
     d' = d\<lparr>dn_fds := (dn_fds d)(cn_ctrl c \<mapsto> SockEnd (dn_pairs d) False), dn_pairs := Suc (dn_pairs d),
       dn_processes := (dn_processes d)(cn_pid c \<mapsto> \<lparr>pr_lib_path = lib_path, pr_native = native, pr_pair = dn_pairs d\<rparr>)\<rparr>"

text \<open>The number of a process that is started is positive and not in use.\<close>

definition fork_documented :: "companion_answers \<Rightarrow> daemon \<Rightarrow> bool" where
  "fork_documented e d \<longleftrightarrow> (case ea_fork e of None \<Rightarrow> True | Some pid \<Rightarrow> 0 < pid \<and> dn_processes d pid = None)"

lemma fork_documented_cong: "dn_processes d' = dn_processes d \<Longrightarrow> fork_documented e d' = fork_documented e d"
  by (simp add: fork_documented_def cong: option.case_cong)

lemma start_companion_cases:
  assumes "start_companion e limit lib_path native d = (r, d')" and "fork_documented e d"
  obtains (failed) k where "r = None" "dn_pairs d \<le> k" "d' = d\<lparr>dn_pairs := k\<rparr>"
  | (started) c where "r = Some c" "companion_started e lib_path native d c d'" "0 < cn_pid c"
proof -
  obtain p d1 where p: "socketpair (ea_pair e) limit d = (p, d1)" by fastforce
  note r = assms(1) [unfolded start_companion_def p, simplified]
  note cases = failed started
  from p show thesis
  proof (cases rule: socketpair_cases)
    case failed
    then show thesis using r by (intro cases(1) [of "dn_pairs d"]) simp_all
  next
    case (made a b)
    show thesis
    proof (cases "ea_fork e")
      case None
      then show thesis
        using r made by (intro cases(1) [of "Suc (dn_pairs d)"]) (auto simp: close_fd_def fun_upd_twist fun_upd_idem)
    next
      case (Some pid)
      have pid: "0 < pid" "dn_processes d pid = None" using assms(2) Some by (simp_all add: fork_documented_def)
      show thesis
      proof (cases "ea_ready e")
        case None
        then show thesis
          using r made Some pid
          by (intro cases(1) [of "Suc (dn_pairs d)"]) (auto simp: close_fd_def Let_def fun_upd_twist fun_upd_idem)
      next
        case (Some ready)
        then show thesis
          using r made \<open>ea_fork e = Some pid\<close> pid
          by (intro cases(2)) (auto simp: close_fd_def Let_def fun_upd_twist fun_upd_idem companion_started_def)
      qed
    qed
  qed
qed

lemma emit_simps [simp]:
  "dn_fds (emit e d) = dn_fds d" "dn_pairs (emit e d) = dn_pairs d" "dn_modules (emit e d) = dn_modules d"
  "dn_native_modules (emit e d) = dn_native_modules d" "dn_companions (emit e d) = dn_companions d"
  "dn_native_companions (emit e d) = dn_native_companions d" "dn_processes (emit e d) = dn_processes d"
  "dn_events (emit e d) = dn_events d @ [e]"
  by (simp_all add: emit_def)

text \<open>What a new connection leaves: the pair is passed on, and the companions are as they were.\<close>

definition same_companions :: "daemon \<Rightarrow> daemon \<Rightarrow> bool" where
  "same_companions d d' \<longleftrightarrow> dn_fds d' = dn_fds d \<and> dn_companions d' = dn_companions d \<and>
     dn_native_companions d' = dn_native_companions d \<and> dn_modules d' = dn_modules d \<and>
     dn_native_modules d' = dn_native_modules d \<and> dn_processes d' = dn_processes d \<and> dn_pairs d \<le> dn_pairs d'"

lemma same_companions_refl [simp]: "same_companions d d"
  by (simp add: same_companions_def)

lemma same_companions_trans: "same_companions d d' \<Longrightarrow> same_companions d' d'' \<Longrightarrow> same_companions d d''"
  by (simp add: same_companions_def)

lemma same_companions_emit [simp]: "same_companions d (emit e d)"
  by (simp add: same_companions_def)

lemma connect_pair_result:
  assumes "connect_pair a ctrl d = (r, d')"
  shows "same_companions d d'" and "r = Descriptor (Some obj) \<Longrightarrow> dn_fds d ctrl = Some (SockEnd p e) \<Longrightarrow>
    obj = SockEnd (dn_pairs d) False \<and> dn_events d' = dn_events d @ [Passed p (SockEnd (dn_pairs d) True)]"
proof -
  obtain q d1 where s: "socketpair (sv_pair a) (sv_limit a) d = (q, d1)" by fastforce
  note res = assms [unfolded connect_pair_def s, simplified]
  have "same_companions d d' \<and> (r = Descriptor (Some obj) \<longrightarrow> dn_fds d ctrl = Some (SockEnd p e) \<longrightarrow>
    obj = SockEnd (dn_pairs d) False \<and> dn_events d' = dn_events d @ [Passed p (SockEnd (dn_pairs d) True)])"
    using s
  proof (cases rule: socketpair_cases)
    case failed
    then show ?thesis using res by auto
  next
    case (made x y)
    show ?thesis
    proof (cases "sv_pass a \<and> (\<exists>p e. dn_fds d1 ctrl = Some (SockEnd p e))")
      case True
      then obtain p' e' where p': "sv_pass a" "dn_fds d1 ctrl = Some (SockEnd p' e')" by blast
      have d': "r = Descriptor (Some (SockEnd (dn_pairs d) False))"
        "d' = close_fd x (close_fd y (emit (Passed p' (SockEnd (dn_pairs d) True)) d1))"
        using res made p' by (auto simp: Let_def)
      have "dn_fds d ctrl = Some (SockEnd p e) \<Longrightarrow> p' = p" using made p' by (auto split: if_splits)
      then show ?thesis using d' made by (auto simp: same_companions_def fun_upd_twist fun_upd_idem)
    next
      case False
      then have "r = Descriptor None" "d' = close_fd y (close_fd x d1)"
        using res made by (auto split: bool.splits option.splits file_object.splits)
      then show ?thesis using made by (auto simp: same_companions_def fun_upd_twist fun_upd_idem)
    qed
  qed
  then show "same_companions d d'" and "r = Descriptor (Some obj) \<Longrightarrow> dn_fds d ctrl = Some (SockEnd p e) \<Longrightarrow>
    obj = SockEnd (dn_pairs d) False \<and> dn_events d' = dn_events d @ [Passed p (SockEnd (dn_pairs d) True)]"
    by blast+
qed

text \<open>Either a companion was there (or none could be started), or one has been started.\<close>

lemma ensure_companion_cases:
  assumes "ensure_companion e limit idx d = (ok, d')" and "fork_documented e d"
  obtains (refused) "\<not> ok" "d' = d" "length (dn_modules d) \<le> idx"
  | (kept) k where "idx < length (dn_modules d)" "dn_pairs d \<le> k"
      "d' = d\<lparr>dn_companions := resized (length (dn_modules d)) (dn_companions d), dn_pairs := k\<rparr>"
      "ok \<longrightarrow> 0 < cn_pid (resized (length (dn_modules d)) (dn_companions d) ! idx)"
  | (started) c where "idx < length (dn_modules d)" "0 < cn_pid c" "ok = cn_has_entry c"
      "companion_started e (zm_lib_path (dn_modules d ! idx)) False d c
        (d'\<lparr>dn_companions := dn_companions d\<rparr>)"
      "dn_companions d' = (resized (length (dn_modules d)) (dn_companions d))[idx := c]"
proof -
  let ?cs = "resized (length (dn_modules d)) (dn_companions d)"
  let ?d0 = "d\<lparr>dn_companions := ?cs\<rparr>"
  note cases = refused kept started
  show thesis
  proof (cases "idx < length (dn_modules d) \<and> \<not> 0 < cn_pid (?cs ! idx)")
    case False
    show thesis
    proof (cases "idx < length (dn_modules d)")
      case True
      then have "ok = cn_has_entry (?cs ! idx)" "d' = ?d0" "0 < cn_pid (?cs ! idx)"
        using assms(1) False by (simp_all add: ensure_companion_def Let_def)
      then show thesis using True by (intro cases(2) [of "dn_pairs d"]) simp_all
    next
      case False
      then show thesis using assms(1) by (intro cases(1)) (simp_all add: ensure_companion_def)
    qed
  next
    case True
    obtain r d1 where s: "start_companion e limit (zm_lib_path (dn_modules d ! idx)) False ?d0 = (r, d1)" by fastforce
    have doc: "fork_documented e ?d0" using assms(2) fork_documented_cong [of ?d0 d e] by simp
    note res = assms(1) [unfolded ensure_companion_def Let_def]
    from s doc show thesis
    proof (cases rule: start_companion_cases)
      case (failed k)
      then show thesis using res True s by (intro cases(2) [of k]) auto
    next
      case (started c)
      then show thesis using res True s by (intro cases(3) [of c]) (auto simp: companion_started_def)
    qed
  qed
qed

lemma ensure_native_cases:
  assumes "ensure_native_companion e limit idx d = (ok, d')" and "fork_documented e d"
  obtains (refused) "\<not> ok" "d' = d"
  | (kept) k where "idx < length (dn_native_modules d)" "dn_pairs d \<le> k"
      "d' = d\<lparr>dn_native_companions := resized (length (dn_native_modules d)) (dn_native_companions d), dn_pairs := k\<rparr>"
      "ok \<longrightarrow> 0 < cn_pid (resized (length (dn_native_modules d)) (dn_native_companions d) ! idx)"
  | (started) c where "idx < length (dn_native_modules d)" "0 < cn_pid c" "ok = cn_has_entry c"
      "companion_started e (nm_lib_path (dn_native_modules d ! idx)) True d c
        (d'\<lparr>dn_native_companions := dn_native_companions d\<rparr>)"
      "dn_native_companions d' = (resized (length (dn_native_modules d)) (dn_native_companions d))[idx := c]"
proof -
  let ?cs = "resized (length (dn_native_modules d)) (dn_native_companions d)"
  let ?d0 = "d\<lparr>dn_native_companions := ?cs\<rparr>"
  note cases = refused kept started
  show thesis
  proof (cases "idx < length (dn_native_modules d) \<and> nm_has_companion (dn_native_modules d ! idx) \<and> \<not> 0 < cn_pid (?cs ! idx)")
    case False
    show thesis
    proof (cases "idx < length (dn_native_modules d) \<and> nm_has_companion (dn_native_modules d ! idx)")
      case True
      then have "ok = cn_has_entry (?cs ! idx)" "d' = ?d0" "0 < cn_pid (?cs ! idx)"
        using assms(1) False by (simp_all add: ensure_native_companion_def Let_def)
      then show thesis using True by (intro cases(2) [of "dn_pairs d"]) simp_all
    next
      case False
      then have "ok = False" "d' = d" using assms(1) unfolding ensure_native_companion_def by (auto split: if_splits)
      then show thesis by (intro cases(1)) simp_all
    qed
  next
    case True
    obtain r d1 where s: "start_companion e limit (nm_lib_path (dn_native_modules d ! idx)) True ?d0 = (r, d1)" by fastforce
    have doc: "fork_documented e ?d0" using assms(2) fork_documented_cong [of ?d0 d e] by simp
    note res = assms(1) [unfolded ensure_native_companion_def Let_def]
    from s doc show thesis
    proof (cases rule: start_companion_cases)
      case (failed k)
      then show thesis using res True s by (intro cases(2) [of k]) auto
    next
      case (started c)
      then show thesis using res True s by (intro cases(3) [of c]) (auto simp: companion_started_def)
    qed
  qed
qed

lemma length_resized [simp]: "length (resized n cs) = n"
  by (auto simp: resized_def)

lemma kept_same: "kept_fds d d1 \<Longrightarrow> same_companions d1 d' \<Longrightarrow> kept_fds d d'"
  by (simp add: kept_fds_def same_companions_def)

lemma kept_refl [simp]: "kept_fds d d"
  by (simp add: kept_fds_def)

lemma started_kept:
  assumes "companion_started e lib native d c d1" "0 < cn_pid c" "dn_fds d' = dn_fds d1"
    "c \<in> set (dn_companions d') \<union> set (dn_native_companions d')"
  shows "kept_fds d d'"
  using assms by (auto simp: kept_fds_def companion_started_def)

lemma ensure_kept:
  assumes "ensure_companion e limit idx d = (ok, d')" and "fork_documented e d"
  shows "kept_fds d d'"
  using assms
proof (cases rule: ensure_companion_cases)
  case (started c)
  then have "c \<in> set (dn_companions d')" by (simp add: set_update_memI)
  with started show ?thesis by (intro started_kept [OF started(4)]) simp_all
qed (simp_all add: kept_fds_def)

lemma ensure_native_kept:
  assumes "ensure_native_companion e limit idx d = (ok, d')" and "fork_documented e d"
  shows "kept_fds d d'"
  using assms
proof (cases rule: ensure_native_cases)
  case (started c)
  then have "c \<in> set (dn_native_companions d')" by (simp add: set_update_memI)
  with started show ?thesis by (intro started_kept [OF started(4)]) simp_all
qed (simp_all add: kept_fds_def)

lemma connect_companion_kept:
  assumes "fork_documented (sv_companion a) d"
  shows "kept_fds d (snd (connect_companion a bs d))"
proof (cases "read_index bs")
  case None
  then show ?thesis by (simp add: connect_companion_def)
next
  case (Some idx)
  obtain ok d1 where e: "ensure_companion (sv_companion a) (sv_limit a) idx d = (ok, d1)" by fastforce
  have "same_companions d1 (snd (connect_pair a ctrl d1))" for ctrl
    using connect_pair_result(1) [of a ctrl d1] by (metis prod.collapse)
  then show ?thesis using ensure_kept [OF e assms] kept_same by (simp add: connect_companion_def Some e)
qed

lemma connect_native_companion_kept:
  assumes "fork_documented (sv_companion a) d"
  shows "kept_fds d (snd (connect_native_companion a bs d))"
proof (cases "read_index bs")
  case None
  then show ?thesis by (simp add: connect_native_companion_def)
next
  case (Some idx)
  obtain ok d1 where e: "ensure_native_companion (sv_companion a) (sv_limit a) idx d = (ok, d1)" by fastforce
  have "same_companions d1 (snd (connect_pair a ctrl d1))" for ctrl
    using connect_pair_result(1) [of a ctrl d1] by (metis prod.collapse)
  then show ?thesis using ensure_native_kept [OF e assms] kept_same by (simp add: connect_native_companion_def Some e)
qed

lemma ctl_same [simp]: "same_companions d (snd (ctl a r d))"
  by (simp add: ctl_def)

lemma for_peer_same [simp]: "same_companions d (snd (for_peer a r d))"
  by (simp add: for_peer_def ctl_def split: option.splits)

lemma report_runtime_same [simp]: "same_companions d (snd (report_runtime a pid kind g m d))"
  by (simp add: report_runtime_def)

lemma send_copy_same [simp]: "same_companions d (snd (send_copy a path d))"
proof -
  obtain fd d1 where c: "copy_file_to_memfd (sv_copy a) (sv_limit a) (sv_files a) path d = (fd, d1)" by fastforce
  from copy_file_fds [OF c] show ?thesis
    by (elim disjE conjE exE) (simp_all add: send_copy_def c close_opened)
qed

lemma send_module_dir_same [simp]: "same_companions d (snd (send_module_dir a path d))"
proof -
  obtain fd d1 where o: "open_fd (sv_dir a) (sv_limit a) (Directory path) d = (fd, d1)" by fastforce
  from o show ?thesis
    by (cases rule: open_fd_cases)
      (auto simp: send_module_dir_def o ctl_def Let_def same_companions_def fun_upd_idem split: option.splits)
qed

lemma other_requests_same:
  "same_companions d (snd (get_module_fd a bs d))" "same_companions d (snd (get_native_module_fd a bs d))"
  "same_companions d (snd (get_module_dir a bs d))" "same_companions d (snd (self_destruct a bs d))"
  "same_companions d (snd (patch_text a bs d))"
  by (simp_all add: get_module_fd_def get_native_module_fd_def get_module_dir_def self_destruct_def patch_text_def Let_def
      split: option.splits list.splits)

lemma reports_same: "same_companions d (snd (report_zygote a bs d))" "same_companions d (snd (report_native a bs d))"
proof -
  have r: "report_runtime a pid kind g m d = (ok, d') \<Longrightarrow> same_companions d d'" for pid kind g m ok d'
    using report_runtime_same by (metis snd_conv)
  show "same_companions d (snd (report_zygote a bs d))" "same_companions d (snd (report_native a bs d))"
    using r by (auto simp: report_zygote_def report_native_def split: option.splits bool.splits prod.splits)
qed

text \<open>C25: whatever a client sends, and whichever system calls fail while it is served, the daemon has the same
  descriptors afterwards, except that the control socket of a companion it has just started stays open, under a
  number that was free, and is recorded with the companion.\<close>

theorem requests_leave_no_descriptor:
  assumes "fork_documented (sv_companion a) d"
  shows "kept_fds d (snd (handle_client a d))"
proof (cases "sv_input a")
  case Nil
  then show ?thesis by (simp add: handle_client_def)
next
  case (Cons op bs)
  note connect = connect_companion_kept [OF assms, of bs] connect_native_companion_kept [OF assms, of bs]
  note same = other_requests_same [THEN kept_same [OF kept_refl]] reports_same [THEN kept_same [OF kept_refl]]
    for_peer_same [THEN kept_same [OF kept_refl]]
  show ?thesis unfolding handle_client_def Cons list.case using connect same by simp
qed

section \<open>Companions\<close>

text \<open>The process behind a companion has been started for a library, and its control socket leads there.\<close>

definition leads_to :: "daemon \<Rightarrow> companion \<Rightarrow> string \<Rightarrow> bool \<Rightarrow> bool" where
  "leads_to d c lib native \<longleftrightarrow>
     (\<exists>pr. dn_processes d (cn_pid c) = Some pr \<and> pr_lib_path pr = lib \<and> pr_native pr = native \<and>
        dn_fds d (cn_ctrl c) = Some (SockEnd (pr_pair pr) False))"

definition all_lead :: "daemon \<Rightarrow> companion list \<Rightarrow> string list \<Rightarrow> bool \<Rightarrow> bool" where
  "all_lead d cs libs native \<longleftrightarrow>
     (\<forall>i < length libs. i < length cs \<longrightarrow> 0 < cn_pid (cs ! i) \<longrightarrow> leads_to d (cs ! i) (libs ! i) native)"

definition companions_ok :: "daemon \<Rightarrow> bool" where
  "companions_ok d \<longleftrightarrow>
     all_lead d (dn_companions d) (map zm_lib_path (dn_modules d)) False \<and>
     all_lead d (dn_native_companions d) (map nm_lib_path (dn_native_modules d)) True"

lemma all_lead_same: "same_companions d d' \<Longrightarrow> all_lead d' cs libs native = all_lead d cs libs native"
  by (simp add: all_lead_def leads_to_def same_companions_def)

lemma companions_ok_same: "same_companions d d' \<Longrightarrow> companions_ok d \<Longrightarrow> companions_ok d'"
  using all_lead_same [of d d'] by (simp add: companions_ok_def) (simp add: same_companions_def)

lemma nth_resized: "i < n \<Longrightarrow> resized n cs ! i = (if i < length cs then cs ! i else no_companion)"
  by (auto simp: resized_def nth_append)

lemma all_lead_resized: "all_lead d cs libs native \<Longrightarrow> all_lead d (resized (length libs) cs) libs native"
  by (auto simp: all_lead_def nth_resized no_companion_def)

lemma leads_started:
  "companion_started e lib nat_lib d c d1 \<Longrightarrow> fork_documented e d \<Longrightarrow> leads_to d b l n \<Longrightarrow> leads_to d1 b l n"
  by (auto simp: leads_to_def companion_started_def fork_documented_def)

lemma all_lead_started:
  assumes "companion_started e lib native d c d1" "fork_documented e d" "all_lead d cs libs n"
  shows "all_lead d1 cs libs n"
  using leads_started [OF assms(1,2)] assms(3) by (auto simp: all_lead_def)

lemma started_leads: "companion_started e lib native d c d1 \<Longrightarrow> leads_to d1 c lib native"
  by (simp add: leads_to_def companion_started_def)

lemma all_lead_put:
  "all_lead d cs libs n \<Longrightarrow> leads_to d c (libs ! i) n \<Longrightarrow> all_lead d (cs[i := c]) libs n"
  unfolding all_lead_def length_list_update by (metis nth_list_update_eq nth_list_update_neq)

lemma all_lead_cong:
  "dn_fds d' = dn_fds d \<Longrightarrow> dn_processes d' = dn_processes d \<Longrightarrow> all_lead d' cs libs n = all_lead d cs libs n"
  by (simp add: all_lead_def leads_to_def)

lemma ensure_ok:
  assumes e: "ensure_companion e limit idx d = (ok, d')" and doc: "fork_documented e d" and inv: "companions_ok d"
  shows "companions_ok d' \<and> dn_modules d' = dn_modules d \<and> dn_native_modules d' = dn_native_modules d \<and>
    (ok \<longrightarrow> idx < length (dn_modules d) \<and> leads_to d' (dn_companions d' ! idx) (zm_lib_path (dn_modules d ! idx)) False)"
  using e doc
proof (cases rule: ensure_companion_cases)
  case refused
  then show ?thesis using inv by simp
next
  case (kept k)
  let ?cs = "resized (length (dn_modules d)) (dn_companions d)"
  have "all_lead d ?cs (map zm_lib_path (dn_modules d)) False"
    using inv all_lead_resized [of d "dn_companions d" "map zm_lib_path (dn_modules d)"] by (simp add: companions_ok_def)
  moreover have "all_lead d' cs libs n = all_lead d cs libs n" for cs libs n using kept(3) by (intro all_lead_cong) simp_all
  ultimately have a: "all_lead d' ?cs (map zm_lib_path (dn_modules d)) False"
    "all_lead d' (dn_native_companions d) (map nm_lib_path (dn_native_modules d)) True"
    using inv by (simp_all add: companions_ok_def)
  then have "ok \<longrightarrow> leads_to d' (?cs ! idx) (zm_lib_path (dn_modules d ! idx)) False"
    using kept(1,4) by (auto simp: all_lead_def)
  with a show ?thesis using kept by (simp add: companions_ok_def)
next
  case (started c)
  let ?cs = "resized (length (dn_modules d)) (dn_companions d)" and ?d1 = "d'\<lparr>dn_companions := dn_companions d\<rparr>"
  have same: "dn_modules d' = dn_modules d" "dn_native_modules d' = dn_native_modules d"
    "dn_native_companions d' = dn_native_companions d"
    using started(4) by (auto simp: companion_started_def dest: arg_cong [of _ _ dn_modules] arg_cong [of _ _ dn_native_modules]
        arg_cong [of _ _ dn_native_companions])
  have cong: "all_lead d' cs libs n = all_lead ?d1 cs libs n" "leads_to d' b l n = leads_to ?d1 b l n" for cs libs n b l
    by (simp_all add: all_lead_def leads_to_def)
  have c: "leads_to ?d1 c (zm_lib_path (dn_modules d ! idx)) False" by (rule started_leads [OF started(4)])
  have "all_lead ?d1 ?cs (map zm_lib_path (dn_modules d)) False"
    using inv all_lead_started [OF started(4) doc] all_lead_resized [of d "dn_companions d" "map zm_lib_path (dn_modules d)"]
    by (simp add: companions_ok_def)
  then have "all_lead ?d1 (?cs[idx := c]) (map zm_lib_path (dn_modules d)) False"
    using c started(1) by (intro all_lead_put) simp_all
  moreover have "all_lead ?d1 (dn_native_companions d) (map nm_lib_path (dn_native_modules d)) True"
    using inv all_lead_started [OF started(4) doc] by (simp add: companions_ok_def)
  ultimately show ?thesis using started(1,5) same c cong by (simp add: companions_ok_def)
qed

lemma ensure_native_ok:
  assumes e: "ensure_native_companion e limit idx d = (ok, d')" and doc: "fork_documented e d" and inv: "companions_ok d"
  shows "companions_ok d' \<and> dn_modules d' = dn_modules d \<and> dn_native_modules d' = dn_native_modules d \<and>
    (ok \<longrightarrow> idx < length (dn_native_modules d) \<and>
       leads_to d' (dn_native_companions d' ! idx) (nm_lib_path (dn_native_modules d ! idx)) True)"
  using e doc
proof (cases rule: ensure_native_cases)
  case refused
  then show ?thesis using inv by simp
next
  case (kept k)
  let ?cs = "resized (length (dn_native_modules d)) (dn_native_companions d)"
  have "all_lead d ?cs (map nm_lib_path (dn_native_modules d)) True"
    using inv all_lead_resized [of d "dn_native_companions d" "map nm_lib_path (dn_native_modules d)"] by (simp add: companions_ok_def)
  moreover have "all_lead d' cs libs n = all_lead d cs libs n" for cs libs n using kept(3) by (intro all_lead_cong) simp_all
  ultimately have a: "all_lead d' ?cs (map nm_lib_path (dn_native_modules d)) True"
    "all_lead d' (dn_companions d) (map zm_lib_path (dn_modules d)) False"
    using inv by (simp_all add: companions_ok_def)
  then have "ok \<longrightarrow> leads_to d' (?cs ! idx) (nm_lib_path (dn_native_modules d ! idx)) True"
    using kept(1,4) by (auto simp: all_lead_def)
  with a show ?thesis using kept by (simp add: companions_ok_def)
next
  case (started c)
  let ?cs = "resized (length (dn_native_modules d)) (dn_native_companions d)"
  let ?d1 = "d'\<lparr>dn_native_companions := dn_native_companions d\<rparr>"
  have same: "dn_modules d' = dn_modules d" "dn_native_modules d' = dn_native_modules d" "dn_companions d' = dn_companions d"
    using started(4) by (auto simp: companion_started_def dest: arg_cong [of _ _ dn_modules] arg_cong [of _ _ dn_native_modules]
        arg_cong [of _ _ dn_companions])
  have cong: "all_lead d' cs libs n = all_lead ?d1 cs libs n" "leads_to d' b l n = leads_to ?d1 b l n" for cs libs n b l
    by (simp_all add: all_lead_def leads_to_def)
  have c: "leads_to ?d1 c (nm_lib_path (dn_native_modules d ! idx)) True" by (rule started_leads [OF started(4)])
  have "all_lead ?d1 ?cs (map nm_lib_path (dn_native_modules d)) True"
    using inv all_lead_started [OF started(4) doc] all_lead_resized [of d "dn_native_companions d" "map nm_lib_path (dn_native_modules d)"]
    by (simp add: companions_ok_def)
  then have "all_lead ?d1 (?cs[idx := c]) (map nm_lib_path (dn_native_modules d)) True"
    using c started(1) by (intro all_lead_put) simp_all
  moreover have "all_lead ?d1 (dn_companions d) (map zm_lib_path (dn_modules d)) False"
    using inv all_lead_started [OF started(4) doc] by (simp add: companions_ok_def)
  ultimately show ?thesis using started(1,5) same c cong by (simp add: companions_ok_def)
qed

text \<open>A connection that succeeds: the client holds one end of a new pair, and the other was passed to the process
  of the module.\<close>

definition reaches :: "reply \<Rightarrow> daemon \<Rightarrow> string \<Rightarrow> bool \<Rightarrow> bool" where
  "reaches r d' lib native \<longleftrightarrow>
     (\<exists>k p pid pr evs. r = Descriptor (Some (SockEnd k False)) \<and> dn_events d' = evs @ [Passed p (SockEnd k True)] \<and>
        dn_processes d' pid = Some pr \<and> pr_pair pr = p \<and> pr_lib_path pr = lib \<and> pr_native pr = native)"

lemma connect_pair_reaches:
  assumes "connect_pair a (cn_ctrl c) d = (Descriptor (Some obj), d')" and "leads_to d c lib native"
  shows "reaches (Descriptor (Some obj)) d' lib native"
proof -
  obtain pr where pr: "dn_processes d (cn_pid c) = Some pr" "pr_lib_path pr = lib" "pr_native pr = native"
    "dn_fds d (cn_ctrl c) = Some (SockEnd (pr_pair pr) False)" using assms(2) by (auto simp: leads_to_def)
  have "obj = SockEnd (dn_pairs d) False" "dn_events d' = dn_events d @ [Passed (pr_pair pr) (SockEnd (dn_pairs d) True)]"
    using connect_pair_result(2) [OF assms(1) refl pr(4)] by simp_all
  moreover have "dn_processes d' = dn_processes d" using connect_pair_result(1) [OF assms(1)] by (simp add: same_companions_def)
  ultimately show ?thesis using pr unfolding reaches_def by auto
qed

lemma connect_companion_ok:
  assumes "connect_companion a bs d = (r, d')" and doc: "fork_documented (sv_companion a) d" and inv: "companions_ok d"
  shows "companions_ok d' \<and> dn_modules d' = dn_modules d \<and> dn_native_modules d' = dn_native_modules d \<and>
    (r = Descriptor (Some obj) \<longrightarrow> (\<exists>idx. read_index bs = Some idx \<and> idx < length (dn_modules d) \<and>
       reaches r d' (zm_lib_path (dn_modules d ! idx)) False))"
proof (cases "read_index bs")
  case None
  then show ?thesis using assms by (auto simp: connect_companion_def)
next
  case (Some idx)
  obtain ok d1 where e: "ensure_companion (sv_companion a) (sv_limit a) idx d = (ok, d1)" by fastforce
  note ens = ensure_ok [OF e doc inv]
  show ?thesis
  proof (cases ok)
    case False
    then show ?thesis using assms(1) ens by (auto simp: connect_companion_def Some e)
  next
    case True
    then have c: "connect_pair a (cn_ctrl (dn_companions d1 ! idx)) d1 = (r, d')"
      using assms(1) by (simp add: connect_companion_def Some e)
    have "same_companions d1 d'" by (rule connect_pair_result(1) [OF c])
    moreover have "r = Descriptor (Some obj) \<Longrightarrow> reaches r d' (zm_lib_path (dn_modules d ! idx)) False"
      using connect_pair_reaches [of a "dn_companions d1 ! idx" d1 obj d'] c ens True by blast
    ultimately show ?thesis using ens True Some companions_ok_same [of d1 d'] by (auto simp: same_companions_def)
  qed
qed

lemma connect_native_companion_ok:
  assumes "connect_native_companion a bs d = (r, d')" and doc: "fork_documented (sv_companion a) d" and inv: "companions_ok d"
  shows "companions_ok d' \<and> dn_modules d' = dn_modules d \<and> dn_native_modules d' = dn_native_modules d \<and>
    (r = Descriptor (Some obj) \<longrightarrow> (\<exists>idx. read_index bs = Some idx \<and> idx < length (dn_native_modules d) \<and>
       reaches r d' (nm_lib_path (dn_native_modules d ! idx)) True))"
proof (cases "read_index bs")
  case None
  then show ?thesis using assms by (auto simp: connect_native_companion_def)
next
  case (Some idx)
  obtain ok d1 where e: "ensure_native_companion (sv_companion a) (sv_limit a) idx d = (ok, d1)" by fastforce
  note ens = ensure_native_ok [OF e doc inv]
  show ?thesis
  proof (cases ok)
    case False
    then show ?thesis using assms(1) ens by (auto simp: connect_native_companion_def Some e)
  next
    case True
    then have c: "connect_pair a (cn_ctrl (dn_native_companions d1 ! idx)) d1 = (r, d')"
      using assms(1) by (simp add: connect_native_companion_def Some e)
    have "same_companions d1 d'" by (rule connect_pair_result(1) [OF c])
    moreover have "r = Descriptor (Some obj) \<Longrightarrow> reaches r d' (nm_lib_path (dn_native_modules d ! idx)) True"
      using connect_pair_reaches [of a "dn_native_companions d1 ! idx" d1 obj d'] c ens True by blast
    ultimately show ?thesis using ens True Some companions_ok_same [of d1 d'] by (auto simp: same_companions_def)
  qed
qed

section \<open>Histories\<close>

text \<open>The daemon from its start on: requests, reloads of the module directory and of the configuration.  With
  \<open>keep\<close> a reload finds the same modules in the same order.\<close>

inductive served :: "bool \<Rightarrow> daemon \<Rightarrow> bool" for keep where
  start: "dn_companions d = [] \<Longrightarrow> dn_native_companions d = [] \<Longrightarrow> served keep d"
| request: "served keep d \<Longrightarrow> fork_documented (sv_companion a) d \<Longrightarrow> served keep (snd (handle_client a d))"
| rescan: "served keep d \<Longrightarrow> d' = rescan_modules a names names' exists_file read_text files d \<Longrightarrow>
    (keep \<Longrightarrow> dn_modules d' = dn_modules d \<and> dn_native_modules d' = dn_native_modules d) \<Longrightarrow> served keep d'"
| configure: "served keep d \<Longrightarrow> served keep (d\<lparr>dn_config := c, dn_events := dn_events d @ evs\<rparr>)"

lemma configure_step:
  "read_yzconfig ops fuel text a d = Done d' \<Longrightarrow> \<exists>c evs. d' = d\<lparr>dn_config := c, dn_events := dn_events d @ evs\<rparr>"
  by (auto simp: read_yzconfig_def Let_def ctl_def emit_def split: option.splits outcome.splits)

lemma request_ok:
  assumes doc: "fork_documented (sv_companion a) d" and inv: "companions_ok d"
  shows "companions_ok (snd (handle_client a d))"
proof (cases "sv_input a")
  case Nil
  then show ?thesis using inv by (simp add: handle_client_def)
next
  case (Cons op bs)
  have c: "companions_ok (snd (connect_companion a bs d))" "companions_ok (snd (connect_native_companion a bs d))"
    using connect_companion_ok [OF prod.collapse [symmetric] doc inv] connect_native_companion_ok [OF prod.collapse [symmetric] doc inv]
    by blast+
  note same = other_requests_same [THEN companions_ok_same, OF inv] reports_same [THEN companions_ok_same, OF inv]
    for_peer_same [THEN companions_ok_same, OF inv]
  show ?thesis unfolding handle_client_def Cons list.case using c same inv by simp
qed

lemma rescan_frame:
  assumes "d' = rescan_modules a names names' exists_file read_text files d"
  shows "dn_fds d' = dn_fds d" "dn_processes d' = dn_processes d" "dn_companions d' = dn_companions d"
    "dn_native_companions d' = dn_native_companions d"
  by (simp_all add: assms rescan_modules_def publish_native_targets_def ctl_def Let_def)

lemma reload_ok:
  assumes "companions_ok d" and "dn_fds d' = dn_fds d" "dn_processes d' = dn_processes d" "dn_companions d' = dn_companions d"
    "dn_native_companions d' = dn_native_companions d" and "dn_modules d' = dn_modules d" "dn_native_modules d' = dn_native_modules d"
  shows "companions_ok d'"
  using assms(1) all_lead_cong [OF assms(2,3)] by (simp add: companions_ok_def assms(4-7))

lemma served_ok: "served True d \<Longrightarrow> companions_ok d"
proof (induction rule: served.induct)
  case (start d)
  then show ?case by (simp add: companions_ok_def all_lead_def)
next
  case (request d a)
  show ?case by (rule request_ok [OF request.hyps(2) request.IH])
next
  case (rescan d d' a names names' exists_file read_text files)
  show ?case using rescan.hyps(3) by (intro reload_ok [OF rescan.IH rescan_frame [OF rescan.hyps(2)]]) blast+
next
  case (configure d c evs)
  show ?case by (rule reload_ok [OF configure.IH]) simp_all
qed

text \<open>A reload that no longer finds the first of two modules.\<close>

definition lib_of :: "string \<Rightarrow> string" where
  "lib_of n = MODULES_DIR @ ''/'' @ n @ ''/zygisk/arm64-v8a.so''"

definition two_modules :: daemon where
  "two_modules = (daemon_initial (\<lambda>_. None))\<lparr>dn_modules := [\<lparr>zm_name = ''a'', zm_lib_path = lib_of ''a''\<rparr>,
     \<lparr>zm_name = ''b'', zm_lib_path = lib_of ''b''\<rparr>]\<rparr>"

definition connect_first :: server_answers where
  "connect_first = \<lparr>sv_input = [4, 0, 0, 0, 0], sv_peer = Some 50, sv_sent = True, sv_limit = 8, sv_files = (\<lambda>_. None),
     sv_copy = \<lparr>ca_open = True, ca_stat = True, ca_memfd = True, ca_truncate = True, ca_io = [], ca_seek = True, ca_seal = True,
       ca_reopen = True\<rparr>, sv_dir = True, sv_companion = \<lparr>ea_pair = True, ea_fork = Some 100, ea_ready = Some 1\<rparr>,
     sv_pair = True, sv_pass = True, sv_ctl = (\<lambda>_. True), sv_umount = (\<lambda>_. False), sv_runtime = None\<rparr>"

definition first_gone :: "daemon \<Rightarrow> daemon" where
  "first_gone = rescan_modules connect_first (Some [''b'']) None (\<lambda>p. p = lib_of ''b'') (\<lambda>_. None) (\<lambda>_. None)"

lemma only_second: "scan_modules (Some [''b'']) (\<lambda>p. p = lib_of ''b'') = [\<lparr>zm_name = ''b'', zm_lib_path = lib_of ''b''\<rparr>]"
  by code_simp

lemma first_gone_fields:
  "dn_modules (first_gone d) = [\<lparr>zm_name = ''b'', zm_lib_path = lib_of ''b''\<rparr>]"
  "dn_fds (first_gone d) = dn_fds d" "dn_processes (first_gone d) = dn_processes d"
  "dn_companions (first_gone d) = dn_companions d" "dn_pairs (first_gone d) = dn_pairs d"
  "dn_events (first_gone d) = dn_events d @ [Ioctl (SetNativeTargets []) True]"
  by (simp_all add: first_gone_def rescan_modules_def publish_native_targets_def ctl_def emit_def Let_def only_second
      scan_native_modules_def connect_first_def)

lemma zero_index: "read_index [0, 0, 0, 0] = Some 0"
  by (simp add: read_index_def get32_def)

lemma connect_first_two:
  assumes "(r, d') = handle_client connect_first two_modules"
  shows "r = Descriptor (Some (SockEnd 1 False))" "dn_fds d' = [0 \<mapsto> SockEnd 0 False]"
    "dn_companions d' = [\<lparr>cn_pid = 100, cn_ctrl = 0, cn_has_entry = True\<rparr>, no_companion]"
    "dn_processes d' = [100 \<mapsto> \<lparr>pr_lib_path = lib_of ''a'', pr_native = False, pr_pair = 0\<rparr>]"
    "dn_pairs d' = 2" "dn_events d' = [Passed 0 (SockEnd 1 True)]"
  using assms
  by (simp_all add: handle_client_def connect_first_def connect_companion_def zero_index ensure_companion_def Let_def
      two_modules_def daemon_initial_def resized_def no_companion_def start_companion_def socketpair_def free_fd_def
      connect_pair_def upt_rec close_fd_def emit_def fun_upd_twist fun_upd_idem)

definition connect_again :: server_answers where
  "connect_again = connect_first\<lparr>sv_companion := \<lparr>ea_pair = True, ea_fork = None, ea_ready = None\<rparr>\<rparr>"

lemma connect_after_reload:
  assumes "dn_modules d = [\<lparr>zm_name = ''b'', zm_lib_path = lib_of ''b''\<rparr>]" "dn_fds d = [0 \<mapsto> SockEnd 0 False]"
    "dn_companions d = [\<lparr>cn_pid = 100, cn_ctrl = 0, cn_has_entry = True\<rparr>, no_companion]"
    "(r, d') = handle_client connect_again d"
  shows "r = Descriptor (Some (SockEnd (dn_pairs d) False))" "dn_processes d' = dn_processes d"
    "dn_events d' = dn_events d @ [Passed 0 (SockEnd (dn_pairs d) True)]"
  using assms(4)
  by (simp_all add: handle_client_def connect_again_def connect_first_def connect_companion_def zero_index ensure_companion_def
      Let_def assms(1-3) resized_def socketpair_def free_fd_def connect_pair_def upt_rec close_fd_def emit_def)

lemma lib_of_inject: "lib_of m = lib_of n \<longleftrightarrow> m = n"
  by (simp add: lib_of_def)

lemma wrong_companion:
  "\<exists>d r d'. served False d \<and> fork_documented (sv_companion connect_again) d \<and> handle_client connect_again d = (r, d') \<and>
    r = Descriptor (Some (SockEnd 2 False)) \<and> dn_modules d = [\<lparr>zm_name = ''b'', zm_lib_path = lib_of ''b''\<rparr>] \<and>
    reaches r d' (lib_of ''a'') False \<and> \<not> reaches r d' (lib_of ''b'') False"
proof -
  define d where "d = first_gone (snd (handle_client connect_first two_modules))"
  obtain r0 d0 where "(r0, d0) = handle_client connect_first two_modules" by (metis surj_pair)
  note f = connect_first_two [OF this]
  have d0: "d0 = snd (handle_client connect_first two_modules)" using \<open>(r0, d0) = _\<close> by (metis snd_conv)
  have "served False two_modules" by (rule served.start) (simp_all add: two_modules_def daemon_initial_def)
  moreover have "fork_documented (sv_companion connect_first) two_modules"
    by (simp add: fork_documented_def connect_first_def two_modules_def daemon_initial_def)
  ultimately have "served False (snd (handle_client connect_first two_modules))" by (rule served.request)
  then have s: "served False d" by (rule served.rescan) (simp_all add: d_def first_gone_def)
  have fields: "dn_modules d = [\<lparr>zm_name = ''b'', zm_lib_path = lib_of ''b''\<rparr>]" "dn_fds d = [0 \<mapsto> SockEnd 0 False]"
    "dn_companions d = [\<lparr>cn_pid = 100, cn_ctrl = 0, cn_has_entry = True\<rparr>, no_companion]" "dn_pairs d = 2"
    "dn_processes d = [100 \<mapsto> \<lparr>pr_lib_path = lib_of ''a'', pr_native = False, pr_pair = 0\<rparr>]"
    using f by (simp_all add: d_def first_gone_fields d0)
  obtain r d' where h: "handle_client connect_again d = (r, d')" by fastforce
  note res = connect_after_reload [OF fields(1-3) h [symmetric]]
  have "reaches r d' (lib_of ''a'') False"
    unfolding reaches_def using res fields by (intro exI [of _ 2] exI [of _ 0] exI [of _ 100]) (auto simp: fields)
  moreover have "\<not> reaches r d' (lib_of ''b'') False"
    unfolding reaches_def using res fields by (auto simp: lib_of_inject split: if_splits)
  moreover have "fork_documented (sv_companion connect_again) d" by (simp add: fork_documented_def connect_again_def)
  ultimately show ?thesis using s h res fields by metis
qed

text \<open>C18: a client that asks for the companion of a module and receives a socket reaches a process that was started
  for the library of that very module, in every history of requests and reloads in which reloads find the same modules.
  When a reload finds other modules this fails: the list of companions is cut or extended but not reordered, so
  after the first of two modules is gone, clients of the second are connected to the companion of the first.\<close>

theorem companions_of_their_modules:
  assumes "served True d" and "fork_documented (sv_companion a) d"
    and "handle_client a d = (Descriptor (Some obj), d')" and "sv_input a = op # bs"
  shows "(op = 4 \<longrightarrow> (\<exists>i. read_index bs = Some i \<and> i < length (dn_modules d) \<and>
        reaches (Descriptor (Some obj)) d' (zm_lib_path (dn_modules d ! i)) False)) \<and>
     (op = 16 \<longrightarrow> (\<exists>i. read_index bs = Some i \<and> i < length (dn_native_modules d) \<and>
        reaches (Descriptor (Some obj)) d' (nm_lib_path (dn_native_modules d ! i)) True)) \<and>
     (\<exists>d r d'. served False d \<and> fork_documented (sv_companion connect_again) d \<and> handle_client connect_again d = (r, d') \<and>
        r = Descriptor (Some (SockEnd 2 False)) \<and> dn_modules d = [\<lparr>zm_name = ''b'', zm_lib_path = lib_of ''b''\<rparr>] \<and>
        reaches r d' (lib_of ''a'') False \<and> \<not> reaches r d' (lib_of ''b'') False)"
proof (intro conjI impI)
  note inv = served_ok [OF assms(1)]
  assume "op = 4"
  then have "connect_companion a bs d = (Descriptor (Some obj), d')" using assms(3,4) by (simp add: handle_client_def)
  from connect_companion_ok [OF this assms(2) inv]
  show "\<exists>i. read_index bs = Some i \<and> i < length (dn_modules d) \<and>
    reaches (Descriptor (Some obj)) d' (zm_lib_path (dn_modules d ! i)) False" by blast
next
  note inv = served_ok [OF assms(1)]
  assume "op = 16"
  then have "connect_native_companion a bs d = (Descriptor (Some obj), d')" using assms(3,4) by (simp add: handle_client_def)
  from connect_native_companion_ok [OF this assms(2) inv]
  show "\<exists>i. read_index bs = Some i \<and> i < length (dn_native_modules d) \<and>
    reaches (Descriptor (Some obj)) d' (nm_lib_path (dn_native_modules d ! i)) True" by blast
qed (rule wrong_companion)

theorem companions_of_their_modules_witness:
  "\<exists>d'. handle_client connect_first two_modules = (Descriptor (Some (SockEnd 1 False)), d') \<and>
     reaches (Descriptor (Some (SockEnd 1 False))) d' (lib_of ''a'') False"
proof -
  obtain r d' where "(r, d') = handle_client connect_first two_modules" by (metis surj_pair)
  then have h: "handle_client connect_first two_modules = (Descriptor (Some (SockEnd 1 False)), d')"
    using connect_first_two(1) by simp
  have s: "served True two_modules" by (rule served.start) (simp_all add: two_modules_def daemon_initial_def)
  have doc: "fork_documented (sv_companion connect_first) two_modules"
    by (simp add: fork_documented_def connect_first_def two_modules_def daemon_initial_def)
  have i: "sv_input connect_first = 4 # [0, 0, 0, 0]" by (simp add: connect_first_def)
  from companions_of_their_modules [OF s doc h i] have "reaches (Descriptor (Some (SockEnd 1 False))) d' (lib_of ''a'') False"
    by (simp add: zero_index) (simp add: two_modules_def)
  with h show ?thesis by blast
qed

theorem requests_leave_no_descriptor_witness:
  "kept_fds two_modules (snd (handle_client connect_first two_modules)) \<and>
     dn_fds (snd (handle_client connect_first two_modules)) = [0 \<mapsto> SockEnd 0 False]"
proof -
  obtain r d' where h: "(r, d') = handle_client connect_first two_modules" by (metis surj_pair)
  then have "d' = snd (handle_client connect_first two_modules)" by (metis snd_conv)
  moreover have "fork_documented (sv_companion connect_first) two_modules"
    by (simp add: fork_documented_def connect_first_def two_modules_def daemon_initial_def)
  ultimately show ?thesis using connect_first_two(2) [OF h] requests_leave_no_descriptor by metis
qed

end
