(* ===== verification/Daemon_Modules.thy ===== *)
theory Daemon_Modules
  imports Daemon_Safety
begin

text \<open>
  The native core and the daemon together: the requests of \<^verbatim>\<open>yukizncore.cpp\<close> are the bytes the server reads, its
  replies are read back, and the modules that are loaded are those of the daemon's list that are meant for the
  executable.
\<close>

section \<open>Requests of the native core\<close>

definition received_info :: "u8 list \<Rightarrow> native_module_info" where
  "received_info bs = \<lparr>ni_target_type = bs ! 0, ni_has_companion = (bs ! 1 \<noteq> 0), ni_module_id = c_field bs 4 64,
     ni_target = c_field bs 68 256, ni_lib_path = c_field bs 324 512\<rparr>"

definition reply_to :: "server_answers \<Rightarrow> daemon \<Rightarrow> u8 list \<Rightarrow> reply" where
  "reply_to a d request = fst (handle_client (a\<lparr>sv_input := request\<rparr>) d)"

definition request_native_count :: "server_answers \<Rightarrow> daemon \<Rightarrow> u32 option" where
  "request_native_count a d =
     (case reply_to a d [13] of Bytes bs \<Rightarrow> if length bs < 4 then None else Some (get32 bs 0) | _ \<Rightarrow> None)"

definition request_native_info :: "server_answers \<Rightarrow> daemon \<Rightarrow> nat \<Rightarrow> native_module_info option" where
  "request_native_info a d i =
     (case reply_to a d (14 # le32 (of_nat i)) of
        Bytes bs \<Rightarrow> if length bs < 836 then None else Some (received_info bs) | _ \<Rightarrow> None)"

definition request_native_file :: "server_answers \<Rightarrow> daemon \<Rightarrow> nat \<Rightarrow> u8 list option" where
  "request_native_file a d i =
     (case reply_to a d (15 # le32 (of_nat i)) of Descriptor (Some (MemFile bs)) \<Rightarrow> Some bs | _ \<Rightarrow> None)"

text \<open>The daemon as the native core sees it; \<open>a i\<close> are the answers while the request for module \<open>i\<close> is served,
  \<open>fds\<close> how the process finds a descriptor for a file it receives.\<close>

definition daemon_view :: "(nat \<Rightarrow> server_answers) \<Rightarrow> (nat \<Rightarrow> int + nat) \<Rightarrow> (nat \<Rightarrow> load_answers) \<Rightarrow> daemon \<Rightarrow> daemon_answers" where
  "daemon_view a fds las d = \<lparr>dm_count = request_native_count (a 0) d, dm_info = (\<lambda>i. request_native_info (a i) d i),
     dm_file = (\<lambda>i. map_option (\<lambda>bs. (bs, fds i)) (request_native_file (a i) d i)), dm_load = las\<rparr>"

section \<open>What arrives\<close>

lemma unat_of_char: "unat (of_char c :: u8) = of_char c"
proof -
  have "(of_char c :: u8) = of_nat (of_char c)" by (simp add: of_nat_of_char)
  then show ?thesis by (simp add: unat_of_nat)
qed

lemma of_char_nonzero: "c \<noteq> CHR 0x00 \<Longrightarrow> of_char c \<noteq> (0 :: u8)"
proof
  assume "c \<noteq> CHR 0x00" "of_char c = (0 :: u8)"
  then have "(of_char c :: nat) = of_char (CHR 0x00)" using unat_of_char [of c] by simp
  with \<open>c \<noteq> CHR 0x00\<close> show False by (simp only: of_char_eq_iff)
qed

lemma read_ascii: "map (\<lambda>b. char_of (unat b)) (ascii t) = t"
  by (simp add: ascii_def unat_of_char comp_def)

lemma c_field_ascii:
  assumes "take n (drop off bs) = ascii t @ replicate k 0" and "CHR 0x00 \<notin> set t"
  shows "c_field bs off n = t"
proof -
  have "\<forall>b \<in> set (ascii t). b \<noteq> 0"
  proof
    fix b assume "b \<in> set (ascii t)"
    then obtain c where c: "c \<in> set t" "b = of_char c" unfolding ascii_def by auto
    then have "c \<noteq> CHR 0x00" using assms(2) by metis
    then show "b \<noteq> 0" unfolding c(2) by (rule of_char_nonzero)
  qed
  moreover have "takeWhile (\<lambda>b. b \<noteq> 0) (replicate k (0 :: u8)) = []" by (cases k) simp_all
  ultimately have "takeWhile (\<lambda>b. b \<noteq> 0) (ascii t @ replicate k 0) = ascii t"
    using takeWhile_append2 [of "ascii t" "\<lambda>b. b \<noteq> 0" "replicate k 0"] by simp
  then show ?thesis by (simp add: c_field_def assms(1) read_ascii)
qed

lemma c_str_free: "CHR 0x00 \<notin> set (take n (c_str s))"
  using set_takeWhileD [of _ "\<lambda>c. c \<noteq> CHR 0x00" s] by (auto simp: c_str_def dest: in_set_takeD)

lemma char_array_field:
  assumes "take n (drop off bs) = char_array n s"
  shows "c_field bs off n = take (n - 1) (c_str s)"
  using assms by (intro c_field_ascii [where k = "n - length (take (n - 1) (c_str s))"] c_str_free) (simp add: char_array_def Let_def)

lemma length_char_array: "0 < n \<Longrightarrow> length (char_array n s) = n"
  by (auto simp: char_array_def Let_def ascii_def)

definition info_of :: "native_module \<Rightarrow> native_module_info" where
  "info_of m = \<lparr>ni_target_type = nm_target_type m, ni_has_companion = nm_has_companion m,
     ni_module_id = take 63 (c_str (nm_module_id m)), ni_target = take 255 (c_str (nm_target m)),
     ni_lib_path = take 511 (c_str (nm_lib_path m))\<rparr>"

lemma info_received: "received_info (info_bytes m) = info_of m"
proof -
  have len: "length (char_array 64 s) = 64" "length (char_array 256 s) = 256" "length (char_array 512 s) = 512" for s
    by (simp_all add: length_char_array)
  obtain h where h: "info_bytes m = h @ char_array 64 (nm_module_id m) @ char_array 256 (nm_target m) @ char_array 512 (nm_lib_path m)"
      "length h = 4" "h ! 0 = nm_target_type m" "h ! 1 = (if nm_has_companion m then 1 else 0)"
    by (rule that [of "[nm_target_type m, if nm_has_companion m then 1 else 0, 0, 0]"]) (simp_all add: info_bytes_def)
  have "take 64 (drop 4 (info_bytes m)) = char_array 64 (nm_module_id m)"
    "take 256 (drop 68 (info_bytes m)) = char_array 256 (nm_target m)"
    "take 512 (drop 324 (info_bytes m)) = char_array 512 (nm_lib_path m)"
    by (simp_all add: h len)
  moreover have "info_bytes m ! 0 = nm_target_type m" "info_bytes m ! 1 \<noteq> 0 \<longleftrightarrow> nm_has_companion m"
    using h by (auto simp: nth_append)
  ultimately show ?thesis using char_array_field by (simp add: received_info_def info_of_def)
qed

lemma length_info: "length (info_bytes m) = 836"
  by (simp add: info_bytes_def length_char_array)

section \<open>The replies\<close>

lemma read_sent: "i < 2 ^ 32 \<Longrightarrow> read_index (le32 (of_nat i)) = Some i"
  by (simp add: read_index_def get32_def unat_of_nat)

lemma count_received: "length (dn_native_modules d) < 2 ^ 32 \<Longrightarrow> request_native_count a d = Some (of_nat (length (dn_native_modules d)))"
  by (simp add: request_native_count_def reply_to_def handle_client_def get32_def)

lemma info_requested:
  assumes "i < length (dn_native_modules d)" and "length (dn_native_modules d) < 2 ^ 32"
  shows "request_native_info a d i = Some (info_of (dn_native_modules d ! i))"
  using assms
  by (simp add: request_native_info_def reply_to_def handle_client_def get_native_module_info_def read_sent length_info info_received)

text \<open>The copy of a file succeeds.\<close>

definition copied :: "server_answers \<Rightarrow> string \<Rightarrow> daemon \<Rightarrow> bool" where
  "copied a path d \<longleftrightarrow> 0 \<le> fst (copy_file_to_memfd (sv_copy a) (sv_limit a) (sv_files a) path d)"

lemma file_requested:
  assumes "i < length (dn_native_modules d)" and "length (dn_native_modules d) < 2 ^ 32"
  shows "request_native_file a d i \<noteq> None \<longleftrightarrow> copied a (nm_lib_path (dn_native_modules d ! i)) d"
    and "request_native_file a d i = Some bs \<Longrightarrow>
      \<exists>content written. sv_files a (nm_lib_path (dn_native_modules d ! i)) = Some (True, content) \<and>
        copy_loop (ca_io (sv_copy a)) content [] = Some written \<and> bs = padded (length content) written"
proof -
  let ?p = "nm_lib_path (dn_native_modules d ! i)"
  obtain fd d1 where c: "copy_file_to_memfd (sv_copy a) (sv_limit a) (sv_files a) ?p d = (fd, d1)" by fastforce
  have r: "reply_to a d (15 # le32 (of_nat i)) = (if fd < 0 then Descriptor None else Descriptor (dn_fds d1 fd))"
    using assms by (simp add: reply_to_def handle_client_def get_native_module_fd_def read_sent send_copy_def c)
  from copy_file_fds [OF c] show "request_native_file a d i \<noteq> None \<longleftrightarrow> copied a ?p d"
    and "request_native_file a d i = Some bs \<Longrightarrow> \<exists>content written. sv_files a ?p = Some (True, content) \<and>
        copy_loop (ca_io (sv_copy a)) content [] = Some written \<and> bs = padded (length content) written"
    by (elim disjE conjE exE; simp add: request_native_file_def copied_def r c)+
qed

text \<open>Without a read that ends too early, the copy is the file.\<close>

lemma write_left_subset: "write_left as left = (ok, as') \<Longrightarrow> set as' \<subseteq> set as"
  by (induction as left arbitrary: ok as' rule: write_left.induct) (fastforce split: if_splits io_answer.splits)+

lemma copy_loop_all: "copy_loop as rest written = Some w \<Longrightarrow> Got 0 \<notin> set as \<Longrightarrow> w = written @ rest"
proof (induction as rest written arbitrary: w rule: copy_loop.induct)
  case (2 a as rest written)
  show ?case
  proof (cases a)
    case (Got n)
    define chunk where "chunk = take (min n 0x10000) rest"
    show ?thesis
    proof (cases "chunk = []")
      case True
      then show ?thesis using 2 Got by (auto simp: chunk_def)
    next
      case False
      obtain ok as' where wl: "write_left as (length chunk) = (ok, as')" by fastforce
      then have zero: "Got 0 \<notin> set as'" using write_left_subset 2(4) by fastforce
      have "copy_loop (a # as) rest written = (case write_left as (length chunk) of (False, _) \<Rightarrow> None
          | (True, as') \<Rightarrow> copy_loop as' (drop (length chunk) rest) (written @ chunk))"
        using False unfolding copy_loop.simps Got chunk_def Let_def by (simp only: io_answer.case if_False)
      then have ok: "ok" and rec: "copy_loop as' (drop (length chunk) rest) (written @ chunk) = Some w"
        using 2(3) wl by (auto split: bool.splits)
      have "w = (written @ chunk) @ drop (length chunk) rest"
        using "2.IH"(1) [OF Got chunk_def False] wl ok rec zero by simp
      then show ?thesis by (simp add: chunk_def min_def)
    qed
  qed (use 2 in auto)
qed simp

section \<open>The modules that are loaded\<close>

definition for_executable :: "native_module \<Rightarrow> string \<Rightarrow> bool" where
  "for_executable m exe \<longleftrightarrow> info_matches (info_of m) exe (basename_of exe) \<and> c_str (nm_module_id m) \<noteq> [] \<and> c_str (nm_lib_path m) \<noteq> []"

lemma take_c_str: "0 < n \<Longrightarrow> take n (c_str s) = [] \<longleftrightarrow> c_str s = []"
  by simp

lemma offered_ids:
  assumes info: "dm_info dm i = Some (info_of m)" and dok: "daemon_ok dm"
    and content: "dm_file dm i = map_option (\<lambda>bs. (bs, answer)) f" and room: "0 \<le> get_unused_fd answer (nc_fds s)"
  shows "loaded_ids (load_offered dm exe i s) = loaded_ids s \<union>
    (if for_executable m exe \<and> f \<noteq> None \<and> loads (dm_load dm i) then {take 63 (c_str (nm_module_id m))} else {})"
proof -
  let ?info = "info_of m"
  have fields: "ni_module_id ?info = take 63 (c_str (nm_module_id m))" "ni_lib_path ?info = take 511 (c_str (nm_lib_path m))"
    by (simp_all add: info_of_def)
  show ?thesis
  proof (cases "info_matches ?info exe (basename_of exe)")
    case False
    then show ?thesis by (simp add: load_offered_def info for_executable_def)
  next
    case matches: True
    show ?thesis
    proof (cases "find_loaded_module (ni_module_id ?info) s")
      case (Some j)
      then show ?thesis
        using loaded_index [OF Some] renew_module_frame(3) [of j s] loaded_in_ids [OF Some] matches
        by (auto simp: load_offered_def info loaded_ids_map fields simp del: set_map)
    next
      case None
      show ?thesis
      proof (cases f)
        case None
        then show ?thesis using matches \<open>find_loaded_module _ s = None\<close> by (simp add: load_offered_def info content request_fd_def)
      next
        case (Some bs)
        let ?fd = "get_unused_fd answer (nc_fds s)" and ?s = "s\<lparr>nc_fds := (nc_fds s)(get_unused_fd answer (nc_fds s) \<mapsto> bs)\<rparr>"
        have "load_offered dm exe i s = snd (load_native_module_from_fd (dm_load dm i) ?info (of_nat i) ?fd False ?s)"
          using matches None Some room by (simp add: load_offered_def info content request_fd_def Let_def)
        moreover have "loaded_ids ?s = loaded_ids s" by (simp add: loaded_ids_def)
        ultimately show ?thesis
          using load_fd_ids [OF room] matches Some by (simp add: for_executable_def fields)
      qed
    qed
  qed
qed

text \<open>C10: the native core that asks the daemon for its modules loads exactly those of the daemon's list whose target is
  the executable, whose file the daemon can copy and whose library the linkers accept with a supported module in
  it, besides those it has already; each is read from a copy that is the file itself unless a read of the daemon ends
  too early, and no descriptor is left in the process.\<close>

theorem offered_modules_loaded:
  assumes "length (dn_native_modules d) < 2 ^ 32"
    and "\<And>i. answer_ok (fds i)" and "\<And>i. 0 \<le> get_unused_fd (fds i) (nc_fds s)"
  shows "loaded_ids (load_matching_modules (daemon_view a fds las d) link s) = loaded_ids s \<union>
      {take 63 (c_str (nm_module_id m)) | i m. i < length (dn_native_modules d) \<and> m = dn_native_modules d ! i \<and>
         for_executable m (self_exe_path link) \<and> copied (a i) (nm_lib_path m) d \<and> loads (las i)} \<and>
    nc_fds (load_matching_modules (daemon_view a fds las d) link s) = nc_fds s \<and>
    (\<forall>i < length (dn_native_modules d). \<forall>bs. request_native_file (a i) d i = Some bs \<and> Got 0 \<notin> set (ca_io (sv_copy (a i))) \<longrightarrow>
       sv_files (a i) (nm_lib_path (dn_native_modules d ! i)) = Some (True, bs))"
proof -
  let ?ms = "dn_native_modules d" and ?dm = "daemon_view a fds las d" and ?exe = "self_exe_path link"
  let ?new = "\<lambda>i. if for_executable (?ms ! i) ?exe \<and> copied (a i) (nm_lib_path (?ms ! i)) d \<and> loads (las i)
    then {take 63 (c_str (nm_module_id (?ms ! i)))} else {}"
  have dok: "daemon_ok ?dm" using assms(2) by (auto simp: daemon_ok_def daemon_view_def)
  have step: "loaded_ids (load_offered ?dm ?exe i t) = loaded_ids t \<union> ?new i"
    if "i < length ?ms" "nc_fds t = nc_fds s" for i t
    using offered_ids [of ?dm i "?ms ! i" "fds i" "request_native_file (a i) d i" t ?exe] dok assms(3) that
      info_requested [OF that(1) assms(1)] file_requested(1) [OF that(1) assms(1)]
    by (simp add: daemon_view_def)
  have "loaded_ids (foldl (\<lambda>t i. load_offered ?dm ?exe i t) t is) = loaded_ids t \<union> (\<Union>i \<in> set is. ?new i)"
    if "set is \<subseteq> {..<length ?ms}" "nc_fds t = nc_fds s" for "is" t
    using that
  proof (induction "is" arbitrary: t)
    case (Cons i "is")
    have "nc_fds (load_offered ?dm ?exe i t) = nc_fds s" using load_offered_frame(1) [OF dok] Cons.prems(2) by simp
    then show ?case using Cons step [of i t] by auto
  qed simp
  from this [of "[0..<length ?ms]" s] have "loaded_ids (load_matching_modules ?dm link s) = loaded_ids s \<union> (\<Union>i < length ?ms. ?new i)"
    using count_received [OF assms(1)] assms(1)
    by (simp add: load_matching_modules_def daemon_view_def unat_of_nat lessThan_atLeast0)
  moreover have "(\<Union>i < length ?ms. ?new i) = {take 63 (c_str (nm_module_id m)) | i m. i < length ?ms \<and> m = ?ms ! i \<and>
         for_executable m ?exe \<and> copied (a i) (nm_lib_path m) d \<and> loads (las i)}"
    by (auto split: if_splits)
  moreover have "sv_files (a i) (nm_lib_path (?ms ! i)) = Some (True, bs)"
    if "i < length ?ms" "request_native_file (a i) d i = Some bs" "Got 0 \<notin> set (ca_io (sv_copy (a i)))" for i bs
  proof -
    note h = that
    obtain content written where c: "sv_files (a i) (nm_lib_path (?ms ! i)) = Some (True, content)"
      "copy_loop (ca_io (sv_copy (a i))) content [] = Some written" "bs = padded (length content) written"
      using file_requested(2) [OF h(1) assms(1) h(2)] by blast
    have "written = content" using copy_loop_all [OF c(2) h(3)] by simp
    then show ?thesis using c(1,3) by (simp add: padded_def)
  qed
  ultimately show ?thesis using load_matching_frame(1) [OF dok] by auto
qed

definition one_native_module :: daemon where
  "one_native_module = (daemon_initial (\<lambda>_. None))\<lparr>dn_native_modules := [\<lparr>nm_module_id = ''demo'', nm_target_type = 1,
     nm_target = ''vold'', nm_lib_path = ''/x.so'', nm_has_companion = False\<rparr>]\<rparr>"

definition with_library :: server_answers where
  "with_library = connect_first\<lparr>sv_files := (\<lambda>p. if p = ''/x.so'' then Some (True, [7, 8]) else None)\<rparr>"

definition demo_loads :: load_answers where
  "demo_loads = \<lparr>la_yuki = True, la_by_name = False, la_by_path = False, la_module = Some (3, True), la_report = (1, True)\<rparr>"

lemma demo_copied: "copied with_library ''/x.so'' one_native_module"
  by (simp add: copied_def copy_file_to_memfd_def with_library_def connect_first_def open_fd_def free_fd_def upt_rec
      one_native_module_def daemon_initial_def fill_memfd_def close_fd_def Let_def)

theorem offered_modules_loaded_witness:
  "loaded_ids (load_matching_modules (daemon_view (\<lambda>_. with_library) (\<lambda>_. Inr 4) (\<lambda>_. demo_loads) one_native_module)
      (Some ''/bin/vold'') (core_initial (- 1) (\<lambda>_. None))) = {''demo''}"
proof -
  let ?s = "core_initial (- 1) (\<lambda>_. None)"
  have ok: "answer_ok (Inr 4)" "0 \<le> get_unused_fd (Inr 4) (nc_fds ?s)"
    by (simp_all add: answer_ok_def get_unused_fd_def core_initial_def upt_rec)
  have short: "length (dn_native_modules one_native_module) < 2 ^ 32" by (simp add: one_native_module_def)
  have exe: "self_exe_path (Some ''/bin/vold'') = ''/bin/vold''"
    by (simp add: self_exe_path_def clean_map_path_def deleted_suffix_def c_str_def)
  let ?m = "\<lparr>nm_module_id = ''demo'', nm_target_type = 1, nm_target = ''vold'', nm_lib_path = ''/x.so'', nm_has_companion = False\<rparr>"
  have m: "dn_native_modules one_native_module = [?m]" by (simp add: one_native_module_def)
  have "for_executable ?m ''/bin/vold''"
    by (simp add: for_executable_def info_matches_def info_of_def c_str_def basename_of_def)
  moreover have "loads demo_loads" by (simp add: loads_def demo_loads_def module_supported_def)
  moreover have "take 63 (c_str ''demo'') = ''demo''" by (simp add: c_str_def)
  moreover have "loaded_ids ?s = {}" by (simp add: loaded_ids_def core_initial_def)
  ultimately show ?thesis
    using offered_modules_loaded [OF short ok, where a = "\<lambda>_. with_library" and las = "\<lambda>_. demo_loads" and link = "Some ''/bin/vold''"] demo_copied by (simp add: exe m)
qed

end
