(* ===== verification/Injection.thy ===== *)
theory Injection
  imports Native_Staging Zygote_Runtime Address_Space Page_Writes
begin

text \<open>
  The injection of \<^verbatim>\<open>kernel/feature/zygote_probe.c\<close>: the hook on program execution decides about a new
  process, and its task work, run before the process enters user mode, stages the files, writes a stub
  into a page of the process and redirects the entry address the dynamic linker will jump to.

  The memory of the process is the \<open>vm\<close> of the loader's theories.  A process has the argument area and the
  saved auxiliary vector of its \<^verbatim>\<open>mm\<close>, \<open>None\<close> where there is none.  The answers of the kernel during one task
  work are a record.  Searching the initial stack may not end on arbitrary memory, so it is a partial
  function, \<open>None\<close> where it does not return.
\<close>

section \<open>Access to user memory\<close>

abbreviation (input) E_FAULT :: int where "E_FAULT \<equiv> - 14"

definition user_ok :: "u32 \<Rightarrow> u64 \<Rightarrow> nat \<Rightarrow> vm \<Rightarrow> bool" where
  "user_ok access p n v = list_all (\<lambda>i. case vm_prot v (p + of_nat i) of None \<Rightarrow> False | Some pr \<Rightarrow> pr AND access \<noteq> 0) [0..<n]"

text \<open>A word of the process has four bytes under the compatibility ABI and eight otherwise.\<close>

definition word_len :: "bool \<Rightarrow> nat" where "word_len compat_abi = (if compat_abi then 4 else 8)"

definition get_user :: "bool \<Rightarrow> vm \<Rightarrow> u64 \<Rightarrow> u64 option" where
  "get_user compat_abi v p =
     (if user_ok PROT_READ p (word_len compat_abi) v
      then Some (if compat_abi then ucast (read32 (vm_mem v) p) else read64 (vm_mem v) p) else None)"

text \<open>Skipping the pointers from \<open>p\<close> on up to a null pointer: the address behind it, or a fault.\<close>

partial_function (option) skip_pointers :: "bool \<Rightarrow> vm \<Rightarrow> u64 \<Rightarrow> u64 option option" where
  "skip_pointers compat_abi v p =
     (case get_user compat_abi v p of
        None \<Rightarrow> Some None
      | Some word \<Rightarrow>
          if word = 0 then Some (Some (p + of_nat (word_len compat_abi)))
          else skip_pointers compat_abi v (p + of_nat (word_len compat_abi)))"

abbreviation (input) AT_NULL :: u64 where "AT_NULL \<equiv> 0"
abbreviation (input) AT_BASE :: u64 where "AT_BASE \<equiv> 7"
abbreviation (input) AT_ENTRY :: u64 where "AT_ENTRY \<equiv> 9"

partial_function (option) find_at_entry :: "bool \<Rightarrow> vm \<Rightarrow> u64 \<Rightarrow> (int + u64 \<times> u64) option" where
  "find_at_entry compat_abi v p =
     (case (get_user compat_abi v p, get_user compat_abi v (p + of_nat (word_len compat_abi))) of
        (Some word, Some val) \<Rightarrow>
          if word = AT_NULL then Some (Inl E_NOENT)
          else if word = AT_ENTRY then Some (Inr (p + of_nat (word_len compat_abi), val))
          else find_at_entry compat_abi v (p + of_nat (2 * word_len compat_abi))
      | _ \<Rightarrow> Some (Inl E_FAULT))"

text \<open>The count of arguments is a signed 32-bit number.\<close>

definition zp_find_stack_at_entry :: "bool \<Rightarrow> vm \<Rightarrow> u64 \<Rightarrow> (int + u64 \<times> u64) option" where
  "zp_find_stack_at_entry compat_abi v sp =
     (case get_user compat_abi v sp of
        None \<Rightarrow> Some (Inl E_FAULT)
      | Some word \<Rightarrow>
          (let argc = ucast word :: u32;
               p = sp + of_nat (word_len compat_abi) + scast (argc + 1) * of_nat (word_len compat_abi)
           in case skip_pointers compat_abi v p of
                None \<Rightarrow> None
              | Some None \<Rightarrow> Some (Inl E_FAULT)
              | Some (Some q) \<Rightarrow> find_at_entry compat_abi v q))"

definition zp_write_stack_at_entry :: "u64 \<Rightarrow> u64 \<Rightarrow> bool \<Rightarrow> vm \<Rightarrow> int \<times> vm" where
  "zp_write_stack_at_entry addr val compat_abi v =
     (if user_ok PROT_WRITE addr (word_len compat_abi) v
      then (0, vm_store addr (if compat_abi then le32 (ucast val) else le64 val) v) else (E_FAULT, v))"

definition zp_read_stack_at_entry :: "u64 \<Rightarrow> bool \<Rightarrow> vm \<Rightarrow> int \<times> u64" where
  "zp_read_stack_at_entry addr compat_abi v =
     (case get_user compat_abi v addr of None \<Rightarrow> (E_FAULT, 0) | Some val \<Rightarrow> (0, val))"

text \<open>The words of the saved vector, which are halves of longs under the compatibility ABI; the entry and
  the base that were found so far.\<close>

fun scan_auxv :: "u64 list \<Rightarrow> u64 \<times> u64 \<Rightarrow> u64 \<times> u64" where
  "scan_auxv (type # val # rest) found =
     (if type = AT_NULL then found
      else scan_auxv rest
        (if type = AT_ENTRY then (val, snd found) else if type = AT_BASE then (fst found, val) else found))"
| "scan_auxv _ found = found"

definition halves :: "u64 list \<Rightarrow> u64 list" where
  "halves ws = concat (map (\<lambda>w. [ucast (ucast w :: u32), ucast (ucast (drop_bit 32 w) :: u32)]) ws)"

definition zp_read_saved_auxv :: "u64 list \<Rightarrow> bool \<Rightarrow> u64 \<times> u64" where
  "zp_read_saved_auxv saved_auxv compat_abi = scan_auxv (if compat_abi then halves saved_auxv else saved_auxv) (0, 0)"

section \<open>The stub\<close>

definition tmpl :: "u32 list" where
  "tmpl = [
     0x10000013, 0xd10103ff, 0xd2800014, 0xf2a00014, 0xf2c00014,
     0xf2e00014, 0xd2800015, 0xf2a00015, 0xf2c00015, 0xf2e00015,
     0xd2800017, 0xf2a00017, 0xf2c00017, 0xf2e00017, 0xf90003f3,
     0xf90007f4, 0xf9000bf7, 0xf9000fe0, 0x5289c430, 0x72aa4830,
     0xb9080270, 0x91300260, 0xd2800041, 0x91280262, 0xaa1403e3,
     0xd63f02a0, 0xf94003f3, 0xf9040660, 0xf90013e0, 0xb94a1e60,
     0xd2800728, 0xd4000001, 0xf94003f3, 0xf94013e0, 0xb40000c0,
     0x91340261, 0xf94007e2, 0xf9400bf7, 0xd63f02e0, 0xb50000a0,
     0xd2800000, 0xd2800728, 0xd4000001, 0x14000005, 0xaa0003f9,
     0xd2800000, 0xd2800001, 0xd63f0320, 0xf9400fe0, 0xf94007f4,
     0x910103ff, 0xaa1403f0, 0xd61f0200]"

definition compat_tmpl :: "u8 list" where
  "compat_tmpl = [
     0x2d, 0xe9, 0xf7, 0x43, 0xf8, 0x46, 0xa8, 0xf1, 0x08, 0x08,
     0x11, 0x4c, 0x11, 0x4d, 0x12, 0x4e, 0x08, 0xf6, 0x00, 0x40,
     0x02, 0x21, 0x08, 0xf6, 0x00, 0x22, 0x23, 0x46, 0xa8, 0x47,
     0x81, 0x46, 0x0e, 0x48, 0x06, 0x27, 0x00, 0xdf, 0x48, 0x46,
     0x48, 0xb1, 0x08, 0xf6, 0x00, 0x51, 0x22, 0x46, 0xb0, 0x47,
     0x20, 0xb1, 0x03, 0x46, 0x0a, 0x48, 0x0a, 0x49, 0x98, 0x47,
     0x04, 0xe0, 0x08, 0x48, 0x00, 0x28, 0x01, 0xdb, 0x06, 0x27,
     0x00, 0xdf, 0xa4, 0x46, 0xbd, 0xe8, 0xf7, 0x43, 0x60, 0x47,
     0x00, 0x00, 0x00, 0x00, 0x00, 0x00, 0x00, 0x00, 0x00, 0x00,
     0x00, 0x00, 0x00, 0x00, 0x00, 0x00, 0x00, 0x00, 0x00, 0x00,
     0x00, 0x00, 0x00, 0x00]"

text \<open>The four move instructions from \<open>start\<close> on get the 16-bit pieces of a value.\<close>

definition patch_insn :: "u32 \<Rightarrow> u16 \<Rightarrow> u32" where
  "patch_insn insn imm = (insn AND NOT (push_bit 5 0xffff)) OR push_bit 5 (ucast imm)"

definition zp_patch_imm64 :: "nat \<Rightarrow> u64 \<Rightarrow> u32 list \<Rightarrow> u32 list" where
  "zp_patch_imm64 start val code =
     foldl (\<lambda>code i. code[start + i := patch_insn (code ! (start + i)) (ucast (drop_bit (16 * i) val AND 0xffff))]) code [0..<4]"

definition stub_code :: "u64 \<Rightarrow> u64 \<Rightarrow> u64 \<Rightarrow> int \<Rightarrow> int \<Rightarrow> u32 list" where
  "stub_code saved dlopen_addr dlsym_addr stub_core_fd early_packet_arg =
     (let code = zp_patch_imm64 10 dlsym_addr (zp_patch_imm64 6 dlopen_addr (zp_patch_imm64 2 saved tmpl));
          fd = push_bit 5 (of_int stub_core_fd AND 0xffff)
      in code[40 := 0xd2800000 OR fd, 45 := 0xd2800000 OR fd,
              46 := 0xd2800001 OR push_bit 5 (of_int early_packet_arg AND 0xffff)])"

definition memcpy_at :: "nat \<Rightarrow> u8 list \<Rightarrow> u8 list \<Rightarrow> u8 list" where
  "memcpy_at off bs dst = take off dst @ bs @ drop (off + length bs) dst"

definition compat_code :: "u64 \<Rightarrow> u64 \<Rightarrow> u64 \<Rightarrow> int \<Rightarrow> int \<Rightarrow> int \<Rightarrow> u8 list" where
  "compat_code saved dlopen_addr dlsym_addr loader_fd stub_core_fd early_packet_arg =
     memcpy_at 0x64 (le32 (of_int early_packet_arg)) (memcpy_at 0x60 (le32 (of_int stub_core_fd))
       (memcpy_at 0x5c (le32 (of_int loader_fd)) (memcpy_at 0x58 (le32 (ucast dlsym_addr))
         (memcpy_at 0x54 (le32 (ucast dlopen_addr)) (memcpy_at 0x50 (le32 (ucast saved)) compat_tmpl)))))"

record zp_dlextinfo =
  dx_flags :: u64
  dx_library_fd :: int

text \<open>The structures for either ABI; the other fields are zero.\<close>

definition zp_dlextinfo_bytes :: "zp_dlextinfo \<Rightarrow> u8 list" where
  "zp_dlextinfo_bytes x =
     le64 (dx_flags x) @ le64 0 @ le64 0 @ le32 0 @ le32 (of_int (dx_library_fd x)) @ le64 0 @ le64 0"

definition zp_compat_dlextinfo_bytes :: "zp_dlextinfo \<Rightarrow> u8 list" where
  "zp_compat_dlextinfo_bytes x =
     le64 (dx_flags x) @ le32 0 @ le32 0 @ le32 0 @ le32 (of_int (dx_library_fd x)) @ le64 0 @ le32 0 @ le32 0"

abbreviation (input) DLEXT_USE_LIBRARY_FD :: u64 where "DLEXT_USE_LIBRARY_FD \<equiv> 0x10"
abbreviation (input) DLEXT_FORCE_LOAD :: u64 where "DLEXT_FORCE_LOAD \<equiv> 0x40"

abbreviation (input) STUB_EXTINFO_OFF :: nat where "STUB_EXTINFO_OFF \<equiv> 0xa00"
abbreviation (input) STUB_STR_OFF :: nat where "STUB_STR_OFF \<equiv> 0xc00"
abbreviation (input) STUB_ENTRY_STR_OFF :: nat where "STUB_ENTRY_STR_OFF \<equiv> 0xd00"

definition lib_str :: "bool \<Rightarrow> bool \<Rightarrow> bool \<Rightarrow> string" where
  "lib_str yuki native compat_abi =
     (if yuki then (if compat_abi then ''libyukilinker32.so'' else ''libyukilinker64.so'')
      else if native then (if compat_abi then ''libyukizncore32.so'' else ''libyukizncore64.so'')
      else (if compat_abi then ''libzygisk32.so'' else ''libzygisk64.so''))"

definition entry_str :: "bool \<Rightarrow> string" where
  "entry_str yuki = (if yuki then ''yuki_bootstrap'' else ''zygisk_core_entry_direct'')"

section \<open>The current process\<close>

record mm =
  mm_args :: "char option list"
  mm_saved_auxv :: "u64 list"

record current_task =
  ct_tgid :: int
  ct_start :: u64
  ct_cred :: u32
  ct_compat :: bool
  ct_mm :: "mm option"
  ct_sp :: u64

datatype zp_inject_kind = INJECT_ZYGOTE | INJECT_NATIVE

record zp_inject_tw =
  tw_kind :: zp_inject_kind
  tw_native_target_type :: u8
  tw_early_native :: bool
  tw_label :: string

text \<open>What the daemon has set, and the snapshot.\<close>

record probe_config =
  pc_offsets :: probe_offsets
  pc_yukilinker :: bool
  pc_early :: early_native

text \<open>The memory and the descriptors of the process; the state of the probe; the events for the daemon.\<close>

record probe_state =
  ps_vm :: vm
  ps_fds :: fd_table
  ps_holders :: holder_lists
  ps_runtime :: runtime
  ps_safemode :: safemode
  ps_events :: "(int \<times> u32) list"

text \<open>The answers: files are looked up by path, \<open>ia_mmap\<close> is an address or an error value, and
  \<open>ia_copied\<close> gives for each copy to the process how many bytes arrive.\<close>

record inject_answers =
  ia_tasks :: task_view
  ia_loader :: "string \<Rightarrow> stage_answers"
  ia_core :: "string \<Rightarrow> stage_answers"
  ia_packet :: packet_answers
  ia_execmem :: edit_env
  ia_restore :: edit_env
  ia_mmap :: u64
  ia_copied :: "nat \<Rightarrow> nat"
  ia_publish :: "nat \<Rightarrow> edit_env"
  ia_publish_alloc :: bool

definition is_native :: "zp_inject_tw \<Rightarrow> bool" where "is_native tw \<longleftrightarrow> tw_kind tw = INJECT_NATIVE"

section \<open>Staging the files\<close>

definition library_path :: "string \<Rightarrow> string" where "library_path name = ''/data/adb/yukizygisk/lib/'' @ name"

definition loader_path :: "zp_inject_tw \<Rightarrow> bool \<Rightarrow> early_native \<Rightarrow> string" where
  "loader_path tw compat_abi early =
     (if is_native tw \<and> tw_early_native tw then zp_early_loader_path compat_abi early
      else library_path (if compat_abi then ''libyukilinker32.so'' else ''libyukilinker64.so''))"

definition core_path :: "zp_inject_tw \<Rightarrow> bool \<Rightarrow> early_native \<Rightarrow> string" where
  "core_path tw compat_abi early =
     (if is_native tw then
        if tw_early_native tw then zp_early_native_core_path compat_abi early
        else library_path (if compat_abi then ''libyukizncore32.so'' else ''libyukizncore64.so'')
      else library_path (if compat_abi then ''libzygisk32.so'' else ''libzygisk64.so''))"

definition stage_loader :: "inject_answers \<Rightarrow> probe_config \<Rightarrow> zp_inject_tw \<Rightarrow> bool \<Rightarrow> staging \<Rightarrow> int \<times> staging" where
  "stage_loader a cfg tw compat_abi st =
     (if is_native tw \<or> pc_yukilinker cfg then zp_stage_fd (ia_loader a (loader_path tw compat_abi (pc_early cfg))) True st
      else if is_native tw then zp_stage_file_fd (ia_core a (core_path tw compat_abi (pc_early cfg))) True st
      else zp_stage_fd (ia_core a (core_path tw compat_abi (pc_early cfg))) True st)"

text \<open>What every later failure does.\<close>

definition abandon :: "inject_answers \<Rightarrow> bool \<Rightarrow> int \<Rightarrow> int \<Rightarrow> zp_early_packet_state \<Rightarrow> staging \<Rightarrow> staging" where
  "abandon a yuki loader_fd core_fd packet st =
     (let st1 = zp_close_current_fd loader_fd st;
          st2 = (if yuki then zp_close_current_fd core_fd st1 else st1)
      in restore_staging (ia_restore a) (snd (zp_close_early_packet_state packet st2)))"

text \<open>The loader and the core: their descriptors, or nothing is left.\<close>

definition stage_files ::
  "inject_answers \<Rightarrow> probe_config \<Rightarrow> zp_inject_tw \<Rightarrow> bool \<Rightarrow> staging \<Rightarrow> (int \<times> int) option \<times> staging" where
  "stage_files a cfg tw compat_abi st0 =
     (let yuki = is_native tw \<or> pc_yukilinker cfg in
      case stage_loader a cfg tw compat_abi st0 of
        (loader_fd, st1) \<Rightarrow>
          if loader_fd < 0 then (None, st1)
          else (case (if yuki then zp_stage_fd (ia_core a (core_path tw compat_abi (pc_early cfg))) False st1
                      else (loader_fd, st1)) of
              (core_fd, st2) \<Rightarrow>
                if yuki \<and> core_fd < 0 then (None, restore_staging (ia_restore a) (zp_close_current_fd loader_fd st2))
                else (Some (loader_fd, core_fd), st2)))"

definition yz_host_policy_allow_execmem_current where
  "yz_host_policy_allow_execmem_current env cred = yz_host_policy_allow_execmem env (Some cred)"

text \<open>The packet and the permission for executable memory.\<close>

definition stage_packet ::
  "inject_answers \<Rightarrow> probe_config \<Rightarrow> zp_inject_tw \<Rightarrow> bool \<Rightarrow> staging \<Rightarrow> bool \<times> zp_early_packet_state \<times> staging" where
  "stage_packet a cfg tw compat_abi st =
     (if is_native tw \<and> tw_early_native tw then
        (case zp_stage_early_native_packet (ia_packet a) (pc_early cfg) (tw_native_target_type tw) (Some (tw_label tw)) compat_abi st of
           (ret, packet, st') \<Rightarrow> (\<not> (ret < 0 \<or> ep_packet_fd packet < 0 \<or> 0xffff \<le> ep_packet_fd packet), packet, st'))
      else (True, zp_early_packet_state_init, st))"

definition allow_execmem :: "inject_answers \<Rightarrow> current_task \<Rightarrow> staging \<Rightarrow> errno option \<times> staging" where
  "allow_execmem a t st =
     (case yz_host_policy_allow_execmem_current (ia_execmem a) (ct_cred t) (sg_load st) (sg_temp st) of
        (ret, load, temp) \<Rightarrow> (ret, st\<lparr>sg_load := load, sg_temp := temp\<rparr>))"

record staged_files =
  sf_loader_fd :: int
  sf_core_fd :: int
  sf_packet :: zp_early_packet_state

definition stage_all ::
  "inject_answers \<Rightarrow> current_task \<Rightarrow> probe_config \<Rightarrow> zp_inject_tw \<Rightarrow> staging \<Rightarrow> staged_files option \<times> staging" where
  "stage_all a t cfg tw st0 =
     (let yuki = is_native tw \<or> pc_yukilinker cfg in
      case stage_files a cfg tw (ct_compat t) st0 of
        (None, st1) \<Rightarrow> (None, st1)
      | (Some (loader_fd, core_fd), st1) \<Rightarrow>
          (case stage_packet a cfg tw (ct_compat t) st1 of
             (ok, packet, st2) \<Rightarrow>
               if \<not> ok then (None, abandon a yuki loader_fd core_fd packet st2)
               else (case allow_execmem a t st2 of
                   (Some e, st3) \<Rightarrow> (None, abandon a yuki loader_fd core_fd packet st3)
                 | (None, st3) \<Rightarrow>
                     (Some \<lparr>sf_loader_fd = loader_fd, sf_core_fd = core_fd, sf_packet = packet\<rparr>, st3))))"

section \<open>The page of the stub\<close>

definition is_err_value :: "u64 \<Rightarrow> bool" where "is_err_value x \<longleftrightarrow> - 4095 \<le> x"

definition copy_to_user :: "nat \<Rightarrow> u64 \<Rightarrow> u8 list \<Rightarrow> vm \<Rightarrow> bool \<times> vm" where
  "copy_to_user arrived p bs v = (arrived < length bs, vm_store p (take arrived bs) v)"

text \<open>One copy after the other, up to the first that fails.\<close>

fun copy_all :: "(nat \<Rightarrow> nat) \<Rightarrow> u64 \<Rightarrow> (nat \<times> u8 list) list \<Rightarrow> vm \<Rightarrow> bool \<times> vm" where
  "copy_all copied stub [] v = (False, v)"
| "copy_all copied stub ((off, bs) # copies) v =
     (case copy_to_user (copied 0) (stub + of_nat off) bs v of
        (True, v') \<Rightarrow> (True, v')
      | (False, v') \<Rightarrow> copy_all (\<lambda>n. copied (Suc n)) stub copies v')"

text \<open>What is written: the code, the structure and the names it refers to, and a marker.\<close>

definition stub_copies :: "bool \<Rightarrow> bool \<Rightarrow> bool \<Rightarrow> u64 \<Rightarrow> u64 \<Rightarrow> u64 \<Rightarrow> staged_files \<Rightarrow> (nat \<times> u8 list) list" where
  "stub_copies yuki native compat_abi saved dlopen_addr dlsym_addr f =
     (let early_packet_arg = (if 0 \<le> ep_packet_fd (sf_packet f) then ep_packet_fd (sf_packet f) + 1 else 0);
          stub_core_fd = (if yuki then sf_core_fd f else - 1);
          extinfo = \<lparr>dx_flags = DLEXT_USE_LIBRARY_FD OR (if native then DLEXT_FORCE_LOAD else 0), dx_library_fd = sf_loader_fd f\<rparr>
      in (if compat_abi
          then [(0, compat_code saved dlopen_addr dlsym_addr (sf_loader_fd f) stub_core_fd early_packet_arg),
                (STUB_EXTINFO_OFF, zp_compat_dlextinfo_bytes extinfo)]
          else [(0, concat (map le32 (stub_code saved dlopen_addr dlsym_addr stub_core_fd early_packet_arg))),
                (STUB_EXTINFO_OFF, zp_dlextinfo_bytes extinfo)]) @
         [(STUB_STR_OFF, ascii (lib_str yuki native compat_abi) @ [0]),
          (STUB_ENTRY_STR_OFF, ascii (entry_str yuki) @ [0]),
          (0x800, le32 0x52414e21)])"

text \<open>The page, if it could be mapped and filled.\<close>

definition place_stub :: "inject_answers \<Rightarrow> (nat \<times> u8 list) list \<Rightarrow> vm \<Rightarrow> u64 option \<times> vm" where
  "place_stub a copies v =
     (let stub = ia_mmap a in
      if is_err_value stub then (None, v)
      else case copy_all (ia_copied a) stub copies (vm_map_anon stub 0x1000 (PROT_READ OR PROT_WRITE OR PROT_EXEC) v) of
          (True, v') \<Rightarrow> (None, vm_munmap stub 0x1000 v')
        | (False, v') \<Rightarrow> (Some stub, v'))"

section \<open>The task work\<close>

definition with_staging :: "staging \<Rightarrow> probe_state \<Rightarrow> probe_state" where
  "with_staging st s = s\<lparr>ps_fds := sg_fds st, ps_holders := (ps_holders s)\<lparr>hl_temp := sg_temp st\<rparr>\<rparr>"

definition linker_offsets :: "bool \<Rightarrow> probe_offsets \<Rightarrow> u64 \<times> u64" where
  "linker_offsets compat_abi p = (if compat_abi then (po_dlopen32 p, po_dlsym32 p) else (po_dlopen p, po_dlsym p))"

abbreviation (input) STATE_FAILED :: u8 where "STATE_FAILED \<equiv> 4"
abbreviation (input) STATE_SAFEMODE :: u8 where "STATE_SAFEMODE \<equiv> 5"

text \<open>Once everything is staged: the page, the entry address, and the permissions are published.\<close>

definition redirect ::
  "inject_answers \<Rightarrow> current_task \<Rightarrow> probe_config \<Rightarrow> zp_inject_tw \<Rightarrow> u32 \<Rightarrow> u64 \<Rightarrow> u64 \<Rightarrow> u64 \<Rightarrow> staged_files \<Rightarrow> staging \<Rightarrow>
     probe_state \<Rightarrow> bool \<times> probe_state" where
  "redirect a t cfg tw generation saved base at_entry f st s =
     (let yuki = is_native tw \<or> pc_yukilinker cfg;
          offs = linker_offsets (ct_compat t) (pc_offsets cfg);
          gave_up = abandon a yuki (sf_loader_fd f) (sf_core_fd f) (sf_packet f) st
      in case place_stub a (stub_copies yuki (is_native tw) (ct_compat t) saved (base + fst offs) (base + snd offs) f) (ps_vm s) of
           (None, v) \<Rightarrow> (False, with_staging gave_up (s\<lparr>ps_vm := v\<rparr>))
         | (Some stub, v) \<Rightarrow>
             (case zp_write_stack_at_entry at_entry (if ct_compat t then stub OR 1 else stub) (ct_compat t) v of
                (werr, v') \<Rightarrow>
                  if werr \<noteq> 0 then (False, with_staging gave_up (s\<lparr>ps_vm := vm_munmap stub 0x1000 v'\<rparr>))
                  else
                    let s' = with_staging st (s\<lparr>ps_vm := v'\<rparr>) in
                    (True, s'\<lparr>ps_holders := snd (zp_publish_native_policy_state (ia_publish a) (ia_publish_alloc a)
                                (ct_tgid t) (sg_load st) (ps_holders s')),
                              ps_runtime := zp_runtime_set_state (of_int (ct_tgid t)) generation STATE_REDIRECTED (ps_runtime s')\<rparr>)))"

definition stage_and_redirect ::
  "inject_answers \<Rightarrow> current_task \<Rightarrow> probe_config \<Rightarrow> zp_inject_tw \<Rightarrow> u32 \<Rightarrow> u64 \<Rightarrow> u64 \<Rightarrow> u64 \<Rightarrow> probe_state \<Rightarrow> bool \<times> probe_state" where
  "stage_and_redirect a t cfg tw generation saved base at_entry s =
     (let offs = linker_offsets (ct_compat t) (pc_offsets cfg) in
      if base = 0 \<or> fst offs = 0 \<or> snd offs = 0 then (False, s)
      else case stage_all a t cfg tw
          \<lparr>sg_fds = ps_fds s, sg_load = empty_policy, sg_temp = hl_temp (ps_holders s)\<rparr> of
        (None, st) \<Rightarrow> (False, with_staging st s)
      | (Some f, st) \<Rightarrow> redirect a t cfg tw generation saved base at_entry f st s)"

text \<open>The search for the entry, the rewriting of its own value, and the redirection; \<open>None\<close> when the search
  does not end.\<close>

definition inject_process ::
  "inject_answers \<Rightarrow> current_task \<Rightarrow> probe_config \<Rightarrow> zp_inject_tw \<Rightarrow> u32 \<Rightarrow> mm \<Rightarrow> probe_state \<Rightarrow> (bool \<times> probe_state) option" where
  "inject_process a t cfg tw generation m s =
     (case zp_read_saved_auxv (mm_saved_auxv m) (ct_compat t) of
        (saved, base) \<Rightarrow>
          (case zp_find_stack_at_entry (ct_compat t) (ps_vm s) (ct_sp t) of
             None \<Rightarrow> None
           | Some (Inl e) \<Rightarrow> Some (False, s)
           | Some (Inr (at_entry, val)) \<Rightarrow>
               (let s1 = (if at_entry \<noteq> 0 \<and> val = saved
                          then s\<lparr>ps_vm := snd (zp_write_stack_at_entry at_entry saved (ct_compat t) (ps_vm s))\<rparr> else s)
                in Some (if at_entry \<noteq> 0 \<and> val = saved \<and> saved \<noteq> 0
                         then stage_and_redirect a t cfg tw generation saved base at_entry s1 else (False, s1)))))"

datatype begun = Skipped | Stopped | Going mm

text \<open>The record of the process and safe mode: its generation, and whether to go on.\<close>

definition begin_native :: "inject_answers \<Rightarrow> current_task \<Rightarrow> zp_inject_tw \<Rightarrow> probe_state \<Rightarrow> u32 \<times> begun \<times> probe_state" where
  "begin_native a t tw s =
     (case zp_runtime_begin (ia_tasks a) (of_int (ct_tgid t)) (ct_start t) KIND_NATIVE (if ct_compat t then 1 else 2)
         (tw_native_target_type tw) (if tw_early_native tw then 1 else 0)
         (zp_runtime_read_process 256 (map_option mm_args (ct_mm t)))
         (zp_copy_name 256 (if tw_label tw \<noteq> [] then tw_label tw else ''native'')) (ps_runtime s) of
        (generation, r) \<Rightarrow>
          if sm_active (ps_safemode s) then
            (generation, Skipped, s\<lparr>ps_runtime := zp_runtime_set_state (of_int (ct_tgid t)) generation STATE_SAFEMODE r\<rparr>)
          else (generation, (case ct_mm t of None \<Rightarrow> Stopped | Some m \<Rightarrow> Going m), s\<lparr>ps_runtime := r\<rparr>))"

definition begin_zygote :: "inject_answers \<Rightarrow> current_task \<Rightarrow> probe_state \<Rightarrow> u32 \<times> begun \<times> probe_state" where
  "begin_zygote a t s =
     (case ct_mm t of
        None \<Rightarrow> (0, Stopped, s)
      | Some m \<Rightarrow>
          (case zp_parse_zygote_args 64 (Some (mm_args m)) of
             None \<Rightarrow> (0, Stopped, s)
           | Some socket_name \<Rightarrow>
               (case zp_runtime_begin (ia_tasks a) (of_int (ct_tgid t)) (ct_start t) KIND_ZYGOTE (if ct_compat t then 1 else 2)
                   0 0 (zp_runtime_read_process 256 (Some (mm_args m))) socket_name (ps_runtime s) of
                  (generation, r) \<Rightarrow>
                    (case zp_zygote_safemode_should_skip (Some socket_name) (ct_tgid t) (ps_safemode s) of
                       (skip, event, sm) \<Rightarrow>
                         (let s' = s\<lparr>ps_runtime := r, ps_safemode := sm,
                                ps_events := ps_events s @ (case event of None \<Rightarrow> [] | Some e \<Rightarrow> [e])\<rparr>
                          in if skip then
                               (generation, Skipped,
                                s'\<lparr>ps_runtime := zp_runtime_set_state (of_int (ct_tgid t)) generation STATE_SAFEMODE r\<rparr>)
                             else (generation, Going m, s'))))))"

definition zp_inject_tw_func ::
  "inject_answers \<Rightarrow> current_task \<Rightarrow> probe_config \<Rightarrow> zp_inject_tw \<Rightarrow> probe_state \<Rightarrow> probe_state option" where
  "zp_inject_tw_func a t cfg tw s0 =
     (let fail = (\<lambda>generation s. if generation = 0 then s
            else s\<lparr>ps_runtime := zp_runtime_set_state (of_int (ct_tgid t)) generation STATE_FAILED (ps_runtime s)\<rparr>)
      in case (if is_native tw then begin_native a t tw s0 else begin_zygote a t s0) of
           (generation, Skipped, s) \<Rightarrow> Some s
         | (generation, Stopped, s) \<Rightarrow> Some (fail generation s)
         | (generation, Going m, s) \<Rightarrow>
             (case inject_process a t cfg tw generation m s of
                None \<Rightarrow> None
              | Some (redirected, s') \<Rightarrow> Some (if redirected then s' else fail generation s')))"

section \<open>The hook\<close>

definition zp_is_init_child :: "int option \<Rightarrow> bool" where
  "zp_is_init_child parent \<longleftrightarrow> parent = Some 1"

definition zygote_tw :: zp_inject_tw where
  "zygote_tw = \<lparr>tw_kind = INJECT_ZYGOTE, tw_native_target_type = 0, tw_early_native = False, tw_label = []\<rparr>"

definition native_tw :: "bool \<Rightarrow> string \<times> u8 \<Rightarrow> zp_inject_tw" where
  "native_tw early target =
     \<lparr>tw_kind = INJECT_NATIVE, tw_native_target_type = snd target, tw_early_native = early,
      tw_label = zp_copy_name 256 (fst target)\<rparr>"

text \<open>The task work to be run for a process that executes \<open>filename\<close>, and the snapshot afterwards, which
  may have been loaded; \<open>alloc\<close> and \<open>add\<close> say whether the work could be allocated and queued.\<close>

definition my_bprm_committed_creds ::
  "file_system \<Rightarrow> u64 \<Rightarrow> u64 \<Rightarrow> int option \<Rightarrow> yz_native_target list \<Rightarrow> bool \<Rightarrow> bool \<Rightarrow> string option \<Rightarrow>
     early_native \<times> probe_offsets \<Rightarrow> zp_inject_tw option \<times> early_native \<times> probe_offsets" where
  "my_bprm_committed_creds fs hz jiffies parent targets alloc add filename sp0 =
     (let by_path = zp_is_app_process_path filename;
          live = (if by_path then None else zp_match_live_native_target 256 filename targets);
          by_live = (live \<noteq> None \<and> zp_is_init_child parent)
      in case (if by_path \<or> by_live then (None, sp0) else zp_match_early_native_target fs hz jiffies 256 filename sp0) of
           (early, sp) \<Rightarrow>
             (let work =
                (if by_path then Some zygote_tw
                 else if by_live then map_option (native_tw False) live
                 else map_option (native_tw True) early)
              in (if alloc \<and> add then work else None, sp)))"

section \<open>The initial stack\<close>

definition stack_words :: "bool \<Rightarrow> vm \<Rightarrow> u64 \<Rightarrow> u64 list \<Rightarrow> bool" where
  "stack_words c v p ws \<longleftrightarrow> (\<forall>i < length ws. get_user c v (p + of_nat (i * word_len c)) = Some (ws ! i))"

lemma stack_words_Nil [simp]: "stack_words c v p []"
  by (simp add: stack_words_def)

lemma stack_words_Cons [simp]:
  "stack_words c v p (w # ws) \<longleftrightarrow> get_user c v p = Some w \<and> stack_words c v (p + of_nat (word_len c)) ws"
proof -
  have "stack_words c v p (w # ws) \<longleftrightarrow> (\<forall>i. i = 0 \<or> (\<exists>j. i = Suc j \<and> j < length ws) \<longrightarrow>
      get_user c v (p + of_nat (i * word_len c)) = Some ((w # ws) ! i))"
    unfolding stack_words_def length_Cons less_Suc_eq_0_disj ..
  also have "\<dots> \<longleftrightarrow> get_user c v p = Some w \<and> (\<forall>j < length ws. get_user c v (p + of_nat (Suc j * word_len c)) = Some (ws ! j))"
    by (simp only: disj_imp) (metis add.right_neutral mult_0 nth_Cons_0 nth_Cons_Suc of_nat_0 nat.distinct(1))
  also have "\<dots> \<longleftrightarrow> get_user c v p = Some w \<and> stack_words c v (p + of_nat (word_len c)) ws"
    unfolding stack_words_def by (simp add: add.assoc distrib_right)
  finally show ?thesis .
qed

lemma stack_words_append [simp]:
  "stack_words c v p (us @ ws) \<longleftrightarrow> stack_words c v p us \<and> stack_words c v (p + of_nat (length us * word_len c)) ws"
  by (induction us arbitrary: p) (simp_all add: ac_simps)

lemma skip_pointers_ends:
  "stack_words c v p (ps @ [0]) \<Longrightarrow> 0 \<notin> set ps \<Longrightarrow>
     skip_pointers c v p = Some (Some (p + of_nat (Suc (length ps) * word_len c)))"
proof (induction ps arbitrary: p)
  case (Cons w ps)
  then show ?case by (subst skip_pointers.simps) (simp add: ac_simps)
qed (simp add: skip_pointers.simps)

definition aux_words :: "(u64 \<times> u64) list \<Rightarrow> u64 list" where
  "aux_words av = concat (map (\<lambda>(type, val). [type, val]) av)"

lemma aux_words_simps [simp]:
  "aux_words [] = []" "aux_words ((type, val) # av) = type # val # aux_words av"
  by (simp_all add: aux_words_def)

lemma find_at_entry_finds:
  "stack_words c v p (aux_words (av @ [(AT_ENTRY, val)])) \<Longrightarrow> \<forall>x \<in> fst ` set av. x \<noteq> AT_NULL \<and> x \<noteq> AT_ENTRY \<Longrightarrow>
     find_at_entry c v p = Some (Inr (p + of_nat ((2 * length av + 1) * word_len c), val))"
proof (induction av arbitrary: p)
  case Nil
  then show ?case by (subst find_at_entry.simps) simp
next
  case (Cons tv av)
  obtain type val' where tv: "tv = (type, val')" by fastforce
  from Cons show ?case by (subst find_at_entry.simps) (simp add: tv algebra_simps)
qed

text \<open>While some byte is not readable, both loops end: they read on without a gap.\<close>

lemma readable_step:
  assumes "user_ok PROT_READ p n v" and "\<not> user_ok PROT_READ a 1 v" and "n \<le> 2 ^ 64"
  shows "n \<le> unat (a - p)" and "unat (a - (p + of_nat n)) = unat (a - p) - n"
proof -
  show n: "n \<le> unat (a - p)"
  proof (rule ccontr)
    assume "\<not> n \<le> unat (a - p)"
    then have "unat (a - p) \<in> set [0..<n]" by simp
    with assms(1) have "case vm_prot v (p + of_nat (unat (a - p))) of None \<Rightarrow> False | Some pr \<Rightarrow> pr AND PROT_READ \<noteq> 0"
      unfolding user_ok_def list_all_iff by blast
    with assms(2) show False by (simp add: user_ok_def)
  qed
  have small: "n < 2 ^ 64" using n unat_lt_exp [of "a - p"] by simp
  have "a - (p + of_nat n) = (a - p) - of_nat n" by simp
  also have "unat \<dots> = unat (a - p) - n"
    using n small unat_diff_le [of "of_nat n" "a - p"] by (simp add: unat_of_nat_u64)
  finally show "unat (a - (p + of_nat n)) = unat (a - p) - n" .
qed

lemma word_len_pos: "0 < word_len c" "word_len c \<le> 8" by (simp_all add: word_len_def)

lemma get_user_readable: "get_user c v p = Some w \<Longrightarrow> user_ok PROT_READ p (word_len c) v"
  by (simp add: get_user_def split: if_splits)

lemma get_user_step:
  assumes "get_user c v p = Some w" and "\<not> user_ok PROT_READ a 1 v"
  shows "unat (a - (p + of_nat (word_len c))) < unat (a - p)"
  using readable_step [OF get_user_readable [OF assms(1)] assms(2)] word_len_pos [of c] by simp

lemma skip_pointers_returns: "\<not> user_ok PROT_READ a 1 v \<Longrightarrow> skip_pointers c v p \<noteq> None"
proof (induction "unat (a - p)" arbitrary: p rule: less_induct)
  case less
  show ?case
    using less get_user_step [of c v p _ a] by (subst skip_pointers.simps) (auto split: option.split)
qed

lemma find_at_entry_returns: "\<not> user_ok PROT_READ a 1 v \<Longrightarrow> find_at_entry c v p \<noteq> None"
proof (induction "unat (a - p)" arbitrary: p rule: less_induct)
  case less
  show ?case
  proof (cases "get_user c v p")
    case None
    then show ?thesis by (subst find_at_entry.simps) simp
  next
    case w: (Some w)
    show ?thesis
    proof (cases "get_user c v (p + of_nat (word_len c))")
      case None
      then show ?thesis using w by (subst find_at_entry.simps) simp
    next
      case (Some val)
      from get_user_step [OF w less.prems] get_user_step [OF Some less.prems]
      have "unat (a - (p + of_nat (2 * word_len c))) < unat (a - p)" by (simp add: ac_simps)
      then show ?thesis using less w Some by (subst find_at_entry.simps) simp
    qed
  qed
qed

definition is_entry_word :: "bool \<Rightarrow> vm \<Rightarrow> int + u64 \<times> u64 \<Rightarrow> bool" where
  "is_entry_word c v y = (case y of
     Inl e \<Rightarrow> e = E_NOENT \<or> e = E_FAULT
   | Inr (addr, val) \<Rightarrow> get_user c v addr = Some val \<and> get_user c v (addr - of_nat (word_len c)) = Some AT_ENTRY)"

lemma find_at_entry_word: "find_at_entry c v p = Some y \<Longrightarrow> is_entry_word c v y"
proof (rule find_at_entry.raw_induct [where P = "\<lambda>c v p y. is_entry_word c v y"])
  fix f c v p y
  assume "\<And>c v p y. f c v p = Some y \<Longrightarrow> is_entry_word c v y"
    and "(case (get_user c v p, get_user c v (p + of_nat (word_len c))) of
        (Some word, Some val) \<Rightarrow>
          if word = AT_NULL then Some (Inl E_NOENT)
          else if word = AT_ENTRY then Some (Inr (p + of_nat (word_len c), val))
          else f c v (p + of_nat (2 * word_len c))
      | _ \<Rightarrow> Some (Inl E_FAULT)) = Some y"
  then show "is_entry_word c v y"
    by (auto simp: is_entry_word_def split: option.splits if_splits)
qed

lemma find_stack_word: "zp_find_stack_at_entry c v sp = Some y \<Longrightarrow> is_entry_word c v y"
  using find_at_entry_word [of c v]
  by (auto simp: zp_find_stack_at_entry_def Let_def split: option.splits) (simp_all add: is_entry_word_def)

lemma signed_of_nat_small: "n < 2 ^ 31 \<Longrightarrow> scast (of_nat n :: u32) = (of_nat n :: u64)"
proof -
  assume n: "n < 2 ^ 31"
  have s: "sint (of_nat n :: u32) = int n" using n by (simp add: signed_of_nat signed_take_bit_int_eq_self)
  have "(scast w :: u64) = word_of_int (sint w)" for w :: u32 by transfer simp
  then have "scast (of_nat n :: u32) = (word_of_int (int n) :: u64)" by (simp only: s)
  then show ?thesis by (simp only: of_int_of_nat_eq)
qed

text \<open>C28: The search for the entry on the initial stack ends and is right.  While some byte of the address
  space is not readable it returns, with an error or with the address and the value of a word behind
  \<^verbatim>\<open>AT_ENTRY\<close>; and on a stack as the kernel builds it, with arguments, environment and auxiliary vector,
  for words of either size, it returns the place of the value of the first \<^verbatim>\<open>AT_ENTRY\<close>.\<close>

theorem at_entry_found:
  assumes "\<not> user_ok PROT_READ a 1 v"
  shows "(\<exists>y. zp_find_stack_at_entry c v sp = Some y \<and> is_entry_word c v y) \<and>
    (\<forall>argv envp av val rest. stack_words c v sp (of_nat (length argv) # argv @ [0] @ envp @ [0] @ aux_words (av @ [(AT_ENTRY, val)]) @ rest) \<longrightarrow>
      length argv < 2 ^ 31 - 1 \<longrightarrow> 0 \<notin> set envp \<longrightarrow> (\<forall>x \<in> fst ` set av. x \<noteq> AT_NULL \<and> x \<noteq> AT_ENTRY) \<longrightarrow>
      zp_find_stack_at_entry c v sp =
        Some (Inr (sp + of_nat ((4 + length argv + length envp + 2 * length av) * word_len c), val)))"
proof (intro conjI allI impI)
  show "\<exists>y. zp_find_stack_at_entry c v sp = Some y \<and> is_entry_word c v y"
  proof -
    obtain y where "zp_find_stack_at_entry c v sp = Some y"
      using skip_pointers_returns [OF assms, of c] find_at_entry_returns [OF assms, of c]
      by (fastforce simp: zp_find_stack_at_entry_def Let_def split: option.splits)
    then show ?thesis using find_stack_word by blast
  qed
next
  fix argv envp av val rest
  assume s: "stack_words c v sp (of_nat (length argv) # argv @ [0] @ envp @ [0] @ aux_words (av @ [(AT_ENTRY, val)]) @ rest)"
    and argc: "length argv < 2 ^ 31 - 1" and envp: "0 \<notin> set envp" and av: "\<forall>x \<in> fst ` set av. x \<noteq> AT_NULL \<and> x \<noteq> AT_ENTRY"
  let ?n = "word_len c"
  have "(ucast (of_nat (length argv) :: u64) :: u32) = of_nat (length argv)"
    using argc by (simp add: unsigned_of_nat take_bit_nat_eq_self)
  then have "ucast (of_nat (length argv) :: u64) + 1 = (of_nat (Suc (length argv)) :: u32)" by simp
  moreover have "scast (of_nat (Suc (length argv)) :: u32) = (of_nat (Suc (length argv)) :: u64)"
    using argc by (simp only: signed_of_nat_small)
  moreover define p where "p = sp + of_nat ?n + of_nat (Suc (length argv)) * of_nat ?n"
  moreover have "skip_pointers c v p = Some (Some (p + of_nat (Suc (length envp) * ?n)))"
    using s envp by (intro skip_pointers_ends) (simp_all add: p_def algebra_simps)
  moreover have "find_at_entry c v (p + of_nat (Suc (length envp) * ?n)) =
      Some (Inr (p + of_nat (Suc (length envp) * ?n) + of_nat ((2 * length av + 1) * ?n), val))"
    using s av by (intro find_at_entry_finds) (simp_all add: p_def algebra_simps)
  ultimately show "zp_find_stack_at_entry c v sp =
      Some (Inr (sp + of_nat ((4 + length argv + length envp + 2 * length av) * ?n), val))"
    using s by (simp add: zp_find_stack_at_entry_def Let_def algebra_simps)
qed

end
