(* ===== verification/Injection_Safety.thy ===== *)
theory Injection_Safety
  imports Injection
begin

text \<open>
  What the injection of \<open>Injection\<close> guarantees: it redirects a process completely or leaves it as it was,
  and its permissions are accounted for by the histories of \<open>Policy_Holders\<close>.
\<close>

section \<open>Descriptors\<close>

definition packet_fds :: "zp_early_packet_state \<Rightarrow> int set" where
  "packet_fds packet = {fd. 0 \<le> fd \<and> (fd = ep_packet_fd packet \<or> fd \<in> set (ep_module_fds packet))}"

lemma packet_fds_init [simp]: "packet_fds zp_early_packet_state_init = {}"
  by (simp add: packet_fds_def zp_early_packet_state_init_def)

lemma close_packet_fds:
  "sg_fds (snd (zp_close_early_packet_state packet st)) = (\<lambda>x. if x \<in> packet_fds packet then None else sg_fds st x)"
  by (auto simp: zp_close_early_packet_state_def close_fds close_fd packet_fds_def fun_eq_iff)

lemma close_current_fds [simp]: "sg_fds (zp_close_current_fd fd st) = (sg_fds st)(fd := None)"
  by (simp add: zp_close_current_fd_def)

lemma abandon_fds:
  "sg_fds (abandon a yuki l c packet st) = (\<lambda>x. if x = l \<or> yuki \<and> x = c \<or> x \<in> packet_fds packet then None else sg_fds st x)"
  by (auto simp: abandon_def Let_def close_packet_fds fun_eq_iff)

definition uses_loader :: "probe_config \<Rightarrow> zp_inject_tw \<Rightarrow> bool" where
  "uses_loader cfg tw \<longleftrightarrow> is_native tw \<or> pc_yukilinker cfg"

definition is_early :: "zp_inject_tw \<Rightarrow> bool" where
  "is_early tw \<longleftrightarrow> is_native tw \<and> tw_early_native tw"

text \<open>Descriptors that were free are now open on the loader and the core.\<close>

definition files_open ::
  "inject_answers \<Rightarrow> probe_config \<Rightarrow> zp_inject_tw \<Rightarrow> bool \<Rightarrow> fd_table \<Rightarrow> int \<Rightarrow> int \<Rightarrow> fd_table \<Rightarrow> bool" where
  "files_open a cfg tw c fds loader_fd core_fd fds' \<longleftrightarrow>
     0 \<le> loader_fd \<and> loader_fd < 2 ^ 31 \<and> fds loader_fd = None \<and>
     (let core = sa_content (ia_core a (core_path tw c (pc_early cfg))) in
      if uses_loader cfg tw
      then 0 \<le> core_fd \<and> core_fd < 2 ^ 31 \<and> fds core_fd = None \<and> core_fd \<noteq> loader_fd \<and>
        fds' = fds(loader_fd \<mapsto> sa_content (ia_loader a (loader_path tw c (pc_early cfg))), core_fd \<mapsto> core)
      else core_fd = loader_fd \<and> fds' = fds(loader_fd \<mapsto> core))"

text \<open>Moreover, an early target has a packet that names its modules, and closing it leaves the two.\<close>

definition files_staged ::
  "inject_answers \<Rightarrow> probe_config \<Rightarrow> zp_inject_tw \<Rightarrow> bool \<Rightarrow> fd_table \<Rightarrow> staged_files \<Rightarrow> fd_table \<Rightarrow> bool" where
  "files_staged a cfg tw c fds f fds' \<longleftrightarrow>
     (\<exists>fds1. files_open a cfg tw c fds (sf_loader_fd f) (sf_core_fd f) fds1 \<and>
        (\<forall>x. (if x \<in> packet_fds (sf_packet f) then None else fds' x) = fds1 x) \<and>
        (if is_early tw
         then packet_names (ia_packet a) (early_matches (tw_native_target_type tw) (tw_label tw) c (en_entries (pc_early cfg)))
             fds1 (ep_packet_fd (sf_packet f)) fds' \<and> ep_packet_fd (sf_packet f) < 0xffff
         else sf_packet f = zp_early_packet_state_init))"

definition inject_answers_ok :: "inject_answers \<Rightarrow> bool" where
  "inject_answers_ok a \<longleftrightarrow> (\<forall>p. answer_ok (sa_fd (ia_loader a p))) \<and> (\<forall>p. answer_ok (sa_fd (ia_core a p))) \<and>
     packet_answers_ok (ia_packet a)"

lemma stage_loader_yuki:
  "stage_loader a cfg tw c st =
     (if uses_loader cfg tw then zp_stage_fd (ia_loader a (loader_path tw c (pc_early cfg))) True st
      else zp_stage_fd (ia_core a (core_path tw c (pc_early cfg))) True st)"
  by (simp add: stage_loader_def uses_loader_def)

lemma stage_files_cases:
  assumes ok: "inject_answers_ok a" and run: "stage_files a cfg tw c st0 = (r, st)"
  shows "case r of None \<Rightarrow> sg_fds st = sg_fds st0
    | Some (l, core) \<Rightarrow> files_open a cfg tw c (sg_fds st0) l core (sg_fds st)"
proof -
  have fds_ok: "answer_ok (sa_fd (ia_loader a p))" "answer_ok (sa_fd (ia_core a p))" for p
    using ok by (simp_all add: inject_answers_ok_def)
  obtain l st1 where one: "stage_loader a cfg tw c st0 = (l, st1)" by fastforce
  show ?thesis
  proof (cases "uses_loader cfg tw")
    case True
    have 1: "zp_stage_fd (ia_loader a (loader_path tw c (pc_early cfg))) True st0 = (l, st1)"
      using one True by (simp add: stage_loader_yuki)
    obtain core st2 where 2: "zp_stage_fd (ia_core a (core_path tw c (pc_early cfg))) False st1 = (core, st2)" by fastforce
    show ?thesis
      using run one 2 True stage_fd_cases [OF 1 fds_ok(1)] stage_fd_cases [OF 2 fds_ok(2)]
      by (auto simp: stage_files_def Let_def uses_loader_def [symmetric] files_open_def fun_upd_idem_iff split: if_splits)
  next
    case False
    have 1: "zp_stage_fd (ia_core a (core_path tw c (pc_early cfg))) True st0 = (l, st1)"
      using one False by (simp add: stage_loader_yuki)
    show ?thesis
      using run one False stage_fd_cases [OF 1 fds_ok(2)]
      by (auto simp: stage_files_def Let_def uses_loader_def [symmetric] files_open_def split: if_splits)
  qed
qed

lemma files_open_closed:
  assumes "files_open a cfg tw c fds l core fds1"
  shows "(if x = l \<or> uses_loader cfg tw \<and> x = core then None else fds1 x) = fds x"
  using assms by (auto simp: files_open_def Let_def split: if_splits)

lemma files_staged_closed:
  assumes "files_staged a cfg tw c (sg_fds st0) f (sg_fds st)"
  shows "sg_fds (abandon a (uses_loader cfg tw) (sf_loader_fd f) (sf_core_fd f) (sf_packet f) st) = sg_fds st0"
proof
  fix x
  obtain fds1 where "files_open a cfg tw c (sg_fds st0) (sf_loader_fd f) (sf_core_fd f) fds1"
    "(if x \<in> packet_fds (sf_packet f) then None else sg_fds st x) = fds1 x"
    using assms by (auto simp: files_staged_def)
  with files_open_closed [OF this(1), of x]
  show "sg_fds (abandon a (uses_loader cfg tw) (sf_loader_fd f) (sf_core_fd f) (sf_packet f) st) x = sg_fds st0 x"
    by (auto simp: abandon_fds split: if_splits)
qed

lemma stage_packet_cases:
  assumes ok: "inject_answers_ok a" "early_ok (pc_early cfg)" and run: "stage_packet a cfg tw c st1 = (good, packet, st)"
    and files: "files_open a cfg tw c fds l core (sg_fds st1)"
  shows "\<forall>x. (if x \<in> packet_fds packet then None else sg_fds st x) = sg_fds st1 x"
    and "good \<Longrightarrow> files_staged a cfg tw c fds \<lparr>sf_loader_fd = l, sf_core_fd = core, sf_packet = packet\<rparr> (sg_fds st)"
proof -
  have "(\<forall>x. (if x \<in> packet_fds packet then None else sg_fds st x) = sg_fds st1 x) \<and>
    (good \<longrightarrow> files_staged a cfg tw c fds \<lparr>sf_loader_fd = l, sf_core_fd = core, sf_packet = packet\<rparr> (sg_fds st))"
  proof (cases "is_early tw")
    case True
    obtain ret packet' st' where p: "zp_stage_early_native_packet (ia_packet a) (pc_early cfg) (tw_native_target_type tw)
        (Some (tw_label tw)) c st1 = (ret, packet', st')" by (metis prod_cases3)
    then have r: "packet = packet'" "st = st'" "good \<longleftrightarrow> \<not> (ret < 0 \<or> ep_packet_fd packet < 0 \<or> 0xffff \<le> ep_packet_fd packet)"
      using run True by (auto simp: stage_packet_def is_early_def)
    have pa: "packet_answers_ok (ia_packet a)" using ok(1) by (simp add: inject_answers_ok_def)
    have closed: "\<forall>x. (if x \<in> packet_fds packet then None else sg_fds st x) = sg_fds st1 x"
    proof -
      have "sg_fds (snd (zp_close_early_packet_state packet st)) = sg_fds st1"
        using staged_packet_cases [OF pa ok(2) p] r by (auto simp: close_packet_fds)
      then show ?thesis by (simp add: close_packet_fds fun_eq_iff)
    qed
    have names: "good \<longrightarrow> packet_names (ia_packet a)
        (early_matches (tw_native_target_type tw) (tw_label tw) c (en_entries (pc_early cfg)))
        (sg_fds st1) (ep_packet_fd packet) (sg_fds st) \<and> ep_packet_fd packet < 0xffff"
      using staged_packet_cases [OF pa ok(2) p] r by auto
    show ?thesis
    proof (intro conjI impI)
      assume good
      then show "files_staged a cfg tw c fds \<lparr>sf_loader_fd = l, sf_core_fd = core, sf_packet = packet\<rparr> (sg_fds st)"
        unfolding files_staged_def
        by (intro exI [of _ "sg_fds st1"] conjI) (use closed names files True in simp_all)
    qed (rule closed)
  next
    case False
    then show ?thesis using run files by (auto simp: stage_packet_def is_early_def files_staged_def)
  qed
  then show "\<forall>x. (if x \<in> packet_fds packet then None else sg_fds st x) = sg_fds st1 x"
    and "good \<Longrightarrow> files_staged a cfg tw c fds \<lparr>sf_loader_fd = l, sf_core_fd = core, sf_packet = packet\<rparr> (sg_fds st)"
    by blast+
qed

lemma stage_all_cases:
  assumes ok: "inject_answers_ok a" "early_ok (pc_early cfg)" and run: "stage_all a t cfg tw st0 = (r, st)"
  shows "case r of None \<Rightarrow> sg_fds st = sg_fds st0
    | Some f \<Rightarrow> files_staged a cfg tw (ct_compat t) (sg_fds st0) f (sg_fds st)"
proof -
  obtain r1 st1 where 1: "stage_files a cfg tw (ct_compat t) st0 = (r1, st1)" by fastforce
  note files = stage_files_cases [OF ok(1) 1]
  show ?thesis
  proof (cases r1)
    case None
    then show ?thesis using files run 1 by (auto simp: stage_all_def)
  next
    case (Some lc)
    obtain l core where lc: "lc = (l, core)" by fastforce
    have opened: "files_open a cfg tw (ct_compat t) (sg_fds st0) l core (sg_fds st1)" using files Some lc by simp
    obtain good packet st2 where 2: "stage_packet a cfg tw (ct_compat t) st1 = (good, packet, st2)" by (metis prod_cases3)
    note packet = stage_packet_cases [OF ok 2 opened]
    obtain e st3 where 3: "allow_execmem a t st2 = (e, st3)" by fastforce
    have same: "sg_fds st3 = sg_fds st2" using 3 by (auto simp: allow_execmem_def split: prod.splits)
    have "sg_fds (abandon a (uses_loader cfg tw) l core packet st') = sg_fds st0" if "sg_fds st' = sg_fds st2" for st'
    proof
      fix x
      show "sg_fds (abandon a (uses_loader cfg tw) l core packet st') x = sg_fds st0 x"
        using packet(1) [rule_format, of x] files_open_closed [OF opened, of x] that by (auto simp: abandon_fds split: if_splits)
    qed
    then show ?thesis
      using run 1 2 3 Some lc same packet(2)
      by (auto simp: stage_all_def Let_def uses_loader_def [symmetric] split: if_splits option.splits)
  qed
qed

section \<open>The page\<close>

lemma map_fresh:
  "(\<And>x. in_range p 0x1000 x \<Longrightarrow> vm_prot v x = None) \<Longrightarrow> one_more_page v p prot (vm_map_anon p 0x1000 prot v)"
  unfolding one_more_page_def vm_map_anon_def vm_protect_def by fastforce

lemma store_in_page:
  assumes "one_more_page v p prot w" and "off + length bs \<le> 0x1000"
  shows "one_more_page v p prot (vm_store (p + of_nat off) bs w)"
proof -
  have "write_bytes (vm_mem w) (p + of_nat off) bs x = vm_mem w x" if "vm_prot v x \<noteq> None" for x
    using that assms in_page [of p off "length bs" x] by (intro write_bytes_frame) (auto simp: one_more_page_def)
  with assms(1) show ?thesis by (auto simp: one_more_page_def)
qed

lemma copy_all_page:
  "one_more_page v p prot w \<Longrightarrow> within_page copies \<Longrightarrow> copy_all copied p copies w = (failed, w') \<Longrightarrow>
     one_more_page v p prot w' \<and> (\<not> failed \<longrightarrow> vm_mem w' = page_writes p copies (vm_mem w))"
proof (induction copies arbitrary: copied w)
  case Nil
  then show ?case by (simp add: page_writes_def)
next
  case (Cons c copies)
  obtain off bs where c: "c = (off, bs)" by fastforce
  have fits: "off + length bs \<le> 0x1000" "within_page copies" using Cons.prems(2) c by (simp_all add: within_page_def)
  let ?w = "vm_store (p + of_nat off) (take (copied 0) bs) w"
  have one: "one_more_page v p prot ?w"
    by (rule store_in_page [OF Cons.prems(1)]) (use fits(1) in auto)
  show ?case
  proof (cases "copied 0 < length bs")
    case True
    then show ?thesis using Cons.prems(3) one by (simp add: c copy_to_user_def)
  next
    case False
    then have "copy_all (\<lambda>n. copied (Suc n)) p copies ?w = (failed, w')" using Cons.prems(3) by (simp add: c copy_to_user_def)
    from Cons.IH [OF one fits(2) this] show ?thesis using False by (simp add: c page_writes_def)
  qed
qed

text \<open>Writes that do not overlap are all still there at the end.\<close>

definition apart :: "nat \<times> u8 list \<Rightarrow> nat \<times> u8 list \<Rightarrow> bool" where
  "apart x y \<longleftrightarrow> fst x + length (snd x) \<le> fst y \<or> fst y + length (snd y) \<le> fst x"

lemma page_writes_all:
  fixes p :: u64
  assumes "within_page ws" and "sorted_wrt apart ws" and "(k, bs) \<in> set ws"
  shows "read_bytes (page_writes p ws m) (p + of_nat k) (length bs) = bs"
proof -
  obtain us ws' where ws: "ws = us @ (k, bs) # ws'" using assms(3) split_list by metis
  have "off_limits (k + 0) (length bs) ws'"
    using assms(2) by (auto simp: ws sorted_wrt_append off_limits_def list_all_iff apart_def)
  with page_writes_read [of us k bs ws' 0 "length bs" p m] assms(1) show ?thesis by (simp add: ws)
qed

lemma length_patch [simp]: "length (zp_patch_imm64 start val code) = length code"
  by (simp add: zp_patch_imm64_def numeral_eq_Suc)

lemma length_stub_code [simp]: "length (stub_code saved dl ds core packet) = 53"
  by (simp add: stub_code_def Let_def tmpl_def)

lemma length_code_bytes [simp]: "length (concat (map le32 ws)) = 4 * length ws"
  by (induction ws) simp_all

lemma length_memcpy: "off + length bs \<le> length dst \<Longrightarrow> length (memcpy_at off bs dst) = length dst"
  by (simp add: memcpy_at_def)

lemma length_compat_code [simp]: "length (compat_code saved dl ds loader core packet) = 0x68"
  by (simp add: compat_code_def length_memcpy compat_tmpl_def)

lemma length_ascii [simp]: "length (ascii s) = length s"
  by (simp add: ascii_def)

lemma stub_names_short: "length (lib_str yuki native c) \<le> 20" "length (entry_str yuki) \<le> 24"
  by (simp_all add: lib_str_def entry_str_def)

lemma length_extinfo [simp]:
  "length (zp_dlextinfo_bytes x) = 48" "length (zp_compat_dlextinfo_bytes x) = 40"
  by (simp_all add: zp_dlextinfo_bytes_def zp_compat_dlextinfo_bytes_def)

lemma stub_copies_fit:
  "within_page (stub_copies yuki native c saved dl ds f)" "sorted_wrt apart (stub_copies yuki native c saved dl ds f)"
  using stub_names_short(1) [of yuki native True] stub_names_short(1) [of yuki native False] stub_names_short(2) [of yuki] by (auto simp: stub_copies_def Let_def within_page_def apart_def)

definition fresh_stub :: "inject_answers \<Rightarrow> vm \<Rightarrow> bool" where
  "fresh_stub a v \<longleftrightarrow> is_err_value (ia_mmap a) \<or> (\<forall>x. in_range (ia_mmap a) 0x1000 x \<longrightarrow> vm_prot v x = None)"

lemma place_stub_cases:
  assumes "fresh_stub a v" and "within_page copies" and "sorted_wrt apart copies" and "place_stub a copies v = (r, w)"
  shows "case r of None \<Rightarrow> same_pages v w
    | Some stub \<Rightarrow> stub = ia_mmap a \<and> one_more_page v stub 7 w \<and>
        (\<forall>(off, bs) \<in> set copies. read_bytes (vm_mem w) (stub + of_nat off) (length bs) = bs)"
proof (cases "is_err_value (ia_mmap a)")
  case True
  then show ?thesis using assms(4) by (auto simp: place_stub_def same_pages_refl)
next
  case False
  have "one_more_page v (ia_mmap a) 7 (vm_map_anon (ia_mmap a) 0x1000 7 v)"
    using assms(1) False by (intro map_fresh) (auto simp: fresh_stub_def)
  moreover obtain failed w' where c: "copy_all (ia_copied a) (ia_mmap a) copies (vm_map_anon (ia_mmap a) 0x1000 7 v) = (failed, w')"
    by fastforce
  ultimately have w': "one_more_page v (ia_mmap a) 7 w'"
    and "\<not> failed \<longrightarrow> vm_mem w' = page_writes (ia_mmap a) copies (vm_mem (vm_map_anon (ia_mmap a) 0x1000 7 v))"
    using copy_all_page [OF _ assms(2) c] by blast+
  then have "\<not> failed \<longrightarrow> (\<forall>(off, bs) \<in> set copies. read_bytes (vm_mem w') (ia_mmap a + of_nat off) (length bs) = bs)"
    using page_writes_all [OF assms(2,3)] by auto
  then show ?thesis
    using assms(4) False c w' more_then_unmap [OF w'] by (auto simp: place_stub_def Let_def split: bool.splits)
qed

section \<open>The entry of the process\<close>

lemma write_same: "n \<le> 2 ^ 64 \<Longrightarrow> write_bytes m p (read_bytes m p n) = m" for p :: u64
proof
  fix x
  show "write_bytes m p (read_bytes m p n) x = m x"
    by (cases "unat (x - p) < n") (simp_all add: write_bytes_def)
qed

lemma le_of_nat_le_nat:
  "length bs = 4 \<Longrightarrow> le32 (of_nat (le_nat bs)) = bs" "length bs = 8 \<Longrightarrow> le64 (of_nat (le_nat bs)) = bs"
proof -
  assume l: "length bs = 4"
  have "unat (of_nat (le_nat bs) :: u32) = le_nat bs" using le_nat_less [of bs] l by (intro unat_of_nat_len) simp
  then show "le32 (of_nat (le_nat bs)) = bs" using nat_le_le_nat [of bs] l by (simp add: le32_def)
next
  assume l: "length bs = 8"
  have "unat (of_nat (le_nat bs) :: u64) = le_nat bs" using le_nat_less [of bs] l by (intro unat_of_nat_len) simp
  then show "le64 (of_nat (le_nat bs)) = bs" using nat_le_le_nat [of bs] l by (simp add: le64_def)
qed

lemma ucast_u32_id: "ucast (ucast w :: u64) = w" for w :: u32
  by (rule bit_word_eqI) (auto simp: bit_simps)

text \<open>Writing back the value that is there changes nothing.\<close>

lemma write_entry_same:
  assumes "get_user c v p = Some val"
  shows "snd (zp_write_stack_at_entry p val c v) = v"
proof -
  have "(if c then le32 (ucast val) else le64 val) = read_bytes (vm_mem v) p (word_len c)"
    using assms by (auto simp: get_user_def read32_def read64_def word_len_def le_of_nat_le_nat ucast_u32_id split: if_splits)
  then show ?thesis using write_same [of "word_len c" "vm_mem v" p] word_len_pos [of c]
    by (simp add: zp_write_stack_at_entry_def vm_store_def)
qed

text \<open>What a word of the process can hold.\<close>

definition as_word :: "bool \<Rightarrow> u64 \<Rightarrow> u64" where
  "as_word c val = (if c then ucast (ucast val :: u32) else val)"

lemma write_entry_cases:
  assumes "zp_write_stack_at_entry p val c v = (werr, v')"
  shows "if werr = 0 then user_ok PROT_WRITE p (word_len c) v \<and> vm_prot v' = vm_prot v \<and>
      (\<forall>x. \<not> in_range p (word_len c) x \<longrightarrow> vm_mem v' x = vm_mem v x) \<and>
      (user_ok PROT_READ p (word_len c) v \<longrightarrow> get_user c v' p = Some (as_word c val))
    else v' = v"
proof (cases "user_ok PROT_WRITE p (word_len c) v")
  case True
  let ?bs = "if c then le32 (ucast val) else le64 val"
  have v': "werr = 0" "v' = vm_store p ?bs v" using True assms by (simp_all add: zp_write_stack_at_entry_def)
  have "user_ok PROT_READ p (word_len c) v' = user_ok PROT_READ p (word_len c) v" by (simp add: user_ok_def v')
  moreover have "c \<Longrightarrow> read32 (vm_mem v') p = ucast val" "\<not> c \<Longrightarrow> read64 (vm_mem v') p = val"
    using read32_write32 [of "vm_mem v" p "ucast val"] read64_write64 [of "vm_mem v" p val]
    by (simp_all add: v'(2) write32_def write64_def)
  ultimately show ?thesis
    using True by (auto simp: v' get_user_def as_word_def word_len_def write_bytes_frame)
next
  case False
  then show ?thesis using assms by (auto simp: zp_write_stack_at_entry_def)
qed

section \<open>All or nothing\<close>

text \<open>Afterwards the entry address of the process leads to the stub, in a page of its own that holds what
  was written, the files are staged, and nothing else in the memory has changed.\<close>

definition redirected_at ::
  "inject_answers \<Rightarrow> current_task \<Rightarrow> probe_config \<Rightarrow> zp_inject_tw \<Rightarrow> u64 \<Rightarrow> u64 \<Rightarrow> u64 \<Rightarrow> staged_files \<Rightarrow> vm \<Rightarrow> vm \<Rightarrow> bool" where
  "redirected_at a t cfg tw saved base at_entry f v v' \<longleftrightarrow>
     (let stub = ia_mmap a; c = ct_compat t; offs = linker_offsets c (pc_offsets cfg) in
      (\<forall>x. in_range stub 0x1000 x \<longrightarrow> vm_prot v x = None) \<and>
      vm_prot v' = (\<lambda>x. if in_range stub 0x1000 x then Some 7 else vm_prot v x) \<and>
      (\<forall>x. vm_prot v x \<noteq> None \<longrightarrow> \<not> in_range at_entry (word_len c) x \<longrightarrow> vm_mem v' x = vm_mem v x) \<and>
      get_user c v' at_entry = Some (as_word c (if c then stub OR 1 else stub)) \<and>
      (\<forall>(off, bs) \<in> set (stub_copies (uses_loader cfg tw) (is_native tw) c saved (base + fst offs) (base + snd offs) f).
         read_bytes (vm_mem v') (stub + of_nat off) (length bs) = bs))"

definition redirected :: "inject_answers \<Rightarrow> current_task \<Rightarrow> probe_config \<Rightarrow> zp_inject_tw \<Rightarrow> mm \<Rightarrow> probe_state \<Rightarrow> probe_state \<Rightarrow> bool" where
  "redirected a t cfg tw m s s' \<longleftrightarrow>
     (\<exists>at_entry saved base f.
        zp_read_saved_auxv (mm_saved_auxv m) (ct_compat t) = (saved, base) \<and> saved \<noteq> 0 \<and>
        zp_find_stack_at_entry (ct_compat t) (ps_vm s) (ct_sp t) = Some (Inr (at_entry, saved)) \<and>
        redirected_at a t cfg tw saved base at_entry f (ps_vm s) (ps_vm s') \<and>
        files_staged a cfg tw (ct_compat t) (ps_fds s) f (ps_fds s'))"

definition untouched :: "probe_state \<Rightarrow> probe_state \<Rightarrow> bool" where
  "untouched s s' \<longleftrightarrow> same_pages (ps_vm s) (ps_vm s') \<and> ps_fds s' = ps_fds s \<and>
     hl_native (ps_holders s') = hl_native (ps_holders s) \<and> hl_module (ps_holders s') = hl_module (ps_holders s)"

lemma untouched_refl [simp]: "untouched s s"
  by (simp add: untouched_def same_pages_refl)

lemma user_ok_mapped: "user_ok access p n v \<Longrightarrow> in_range p n x \<Longrightarrow> vm_prot v x \<noteq> None"
proof -
  assume "user_ok access p n v" and "in_range p n x"
  then have "case vm_prot v (p + of_nat (unat (x - p))) of None \<Rightarrow> False | Some pr \<Rightarrow> pr AND access \<noteq> 0"
    unfolding user_ok_def list_all_iff in_range_def set_upt by (metis atLeastLessThan_iff zero_le)
  then show "vm_prot v x \<noteq> None" by (auto split: option.splits)
qed

lemma entry_redirected:
  assumes entry: "get_user c v at_entry = Some old" and page: "one_more_page v stub 7 w"
    and copies: "\<forall>(off, bs) \<in> set copies. read_bytes (vm_mem w) (stub + of_nat off) (length bs) = bs" "within_page copies"
    and "zp_write_stack_at_entry at_entry val c w = (0, w')"
  shows "one_more_page v stub 7 (w'\<lparr>vm_mem := vm_mem w\<rparr>) \<and>
    (\<forall>x. vm_prot v x \<noteq> None \<longrightarrow> \<not> in_range at_entry (word_len c) x \<longrightarrow> vm_mem w' x = vm_mem v x) \<and>
    get_user c w' at_entry = Some (as_word c val) \<and>
    (\<forall>(off, bs) \<in> set copies. read_bytes (vm_mem w') (stub + of_nat off) (length bs) = bs)"
proof -
  have w': "vm_prot w' = vm_prot w" "\<forall>x. \<not> in_range at_entry (word_len c) x \<longrightarrow> vm_mem w' x = vm_mem w x"
    "user_ok PROT_READ at_entry (word_len c) w \<longrightarrow> get_user c w' at_entry = Some (as_word c val)"
    using write_entry_cases [OF assms(5)] by simp_all
  have mapped: "vm_prot v x \<noteq> None" if "in_range at_entry (word_len c) x" for x
    using user_ok_mapped [OF get_user_readable [OF entry] that] .
  have "vm_prot w (at_entry + of_nat i) = vm_prot v (at_entry + of_nat i)" if "i < word_len c" for i
    using page mapped [of "at_entry + of_nat i"] that word_len_pos [of c]
    by (auto simp: one_more_page_def in_range_def unat_of_nat_u64)
  then have "user_ok PROT_READ at_entry (word_len c) w"
    using get_user_readable [OF entry] by (simp add: user_ok_def list_all_iff)
  moreover have "read_bytes (vm_mem w') (stub + of_nat off) (length bs) = read_bytes (vm_mem w) (stub + of_nat off) (length bs)"
    if "(off, bs) \<in> set copies" for off bs
  proof (rule read_bytes_cong)
    have fits: "off + length bs \<le> 0x1000" using copies(2) that by (auto simp: within_page_def list_all_iff)
    then show "length bs \<le> 2 ^ 64" by simp
    fix x assume "in_range (stub + of_nat off) (length bs) x"
    then have "vm_prot v x = None" using in_page [where p = stub, OF _ fits] page by (auto simp: one_more_page_def)
    then show "vm_mem w' x = vm_mem w x" using mapped w'(2) by blast
  qed
  ultimately show ?thesis
    using w' page copies(1) by (fastforce simp: one_more_page_def)
qed

lemma redirect_cases:
  assumes fresh: "fresh_stub a (ps_vm s)" and entry: "get_user (ct_compat t) (ps_vm s) at_entry = Some saved"
    and staged: "files_staged a cfg tw (ct_compat t) (ps_fds s) f (sg_fds st)"
    and run: "redirect a t cfg tw g saved base at_entry f st s = (success, s')"
  shows "if success then redirected_at a t cfg tw saved base at_entry f (ps_vm s) (ps_vm s') \<and> ps_fds s' = sg_fds st \<and>
      ps_runtime s' = zp_runtime_set_state (of_int (ct_tgid t)) g STATE_REDIRECTED (ps_runtime s)
    else untouched s s' \<and> ps_runtime s' = ps_runtime s"
proof -
  let ?c = "ct_compat t" and ?offs = "linker_offsets (ct_compat t) (pc_offsets cfg)"
  let ?copies = "stub_copies (uses_loader cfg tw) (is_native tw) ?c saved (base + fst ?offs) (base + snd ?offs) f"
  have undone: "sg_fds (abandon a (uses_loader cfg tw) (sf_loader_fd f) (sf_core_fd f) (sf_packet f) st) = ps_fds s"
    using files_staged_closed [of a cfg tw ?c "\<lparr>sg_fds = ps_fds s, sg_load = empty_policy, sg_temp = hl_temp (ps_holders s)\<rparr>" f st] staged
    by simp
  obtain r v where p: "place_stub a ?copies (ps_vm s) = (r, v)" by fastforce
  note placed = place_stub_cases [OF fresh stub_copies_fit p]
  show ?thesis
  proof (cases r)
    case None
    then show ?thesis using run p placed undone
      by (auto simp: redirect_def Let_def uses_loader_def [symmetric] with_staging_def untouched_def)
  next
    case (Some stub)
    then have stub: "stub = ia_mmap a" "one_more_page (ps_vm s) stub 7 v"
      "\<forall>(off, bs) \<in> set ?copies. read_bytes (vm_mem v) (stub + of_nat off) (length bs) = bs"
      using placed unfolding Some option.case by blast+
    obtain werr v' where w: "zp_write_stack_at_entry at_entry (if ?c then stub OR 1 else stub) ?c v = (werr, v')" by fastforce
    show ?thesis
    proof (cases "werr = 0")
      case False
      then have "v' = v" using write_entry_cases [OF w] by simp
      then show ?thesis using run p Some w False undone more_then_unmap [OF stub(2)]
        by (auto simp: redirect_def Let_def uses_loader_def [symmetric] with_staging_def untouched_def)
    next
      case True
      note entry_done = entry_redirected [OF entry stub(2,3) stub_copies_fit(1) w [unfolded True]]
      have "ps_vm s' = v'" "ps_fds s' = sg_fds st" "success"
        "ps_runtime s' = zp_runtime_set_state (of_int (ct_tgid t)) g STATE_REDIRECTED (ps_runtime s)"
        using run p Some w True
        by (auto simp: redirect_def Let_def uses_loader_def [symmetric] with_staging_def)
      then show ?thesis using entry_done stub(1) by (simp add: redirected_at_def Let_def one_more_page_def)
    qed
  qed
qed

section \<open>The record of the process\<close>

definition process_state :: "u32 \<Rightarrow> u32 \<Rightarrow> u8 \<Rightarrow> runtime \<Rightarrow> bool" where
  "process_state pid generation state r \<longleftrightarrow>
     (\<exists>e \<in> set (rt_records r). rr_pid (zr_record e) = pid \<and> rr_generation (zr_record e) = generation \<and>
        rr_module_id (zr_record e) = [] \<and> rr_state (zr_record e) = state)"

lemma set_state_process:
  assumes "process_state pid g old r" and "g \<noteq> 0"
  shows "process_state pid g state (zp_runtime_set_state pid g state r)"
proof -
  let ?P = "\<lambda>e. rr_pid (zr_record e) = pid \<and> rr_generation (zr_record e) = g \<and> rr_module_id (zr_record e) = []"
  obtain j where "j < length (rt_records r)" "?P (rt_records r ! j)"
    using assms(1) by (auto simp: process_state_def in_set_conv_nth)
  then obtain i where i: "find_entry ?P (rt_records r) = Some i"
    using find_entry_None [of ?P "rt_records r" j] by (cases "find_entry ?P (rt_records r)") auto
  obtain e gen where e: "zp_runtime_set_state_locked state (rt_records r ! i) (rt_generation r) = (e, gen)" by fastforce
  then have "e = with_state state (rt_records r ! i)" using set_state_entry by (metis fst_conv)
  moreover have "i < length (rt_records r)" "?P (rt_records r ! i)" using find_entry_Some [OF i] by simp_all
  ultimately show ?thesis
    using i e assms(2) by (auto simp: process_state_def zp_runtime_set_state_def intro!: bexI [of _ e] set_update_memI)
qed

lemma begin_process:
  assumes "zp_runtime_begin tasks pid start kind abi ttype flags process target r0 = (g, r)"
  shows "g = 0 \<or> process_state pid g STATE_DETECTED r"
proof -
  let ?r = "zp_runtime_refresh_exited_locked tasks r0"
  let ?matched = "if kind = KIND_ZYGOTE then zp_runtime_find_zygote_locked target abi (rt_records ?r)
    else zp_runtime_find_native_pid_locked pid (rt_records ?r)"
  define es where "es = fst (if kind = KIND_ZYGOTE then (rt_records ?r, rt_generation ?r)
    else mark_exited (is_module_of pid) (rt_records ?r) (rt_generation ?r))"
  have len: "length es = length (rt_records ?r)" by (simp add: es_def mark_exited_map)
  consider "g = 0" | i n gen where "slot_or_pick ?matched es = Some i" "g = gen"
      "r = \<lparr>rt_records = es[i := begin_record pid start kind abi ttype flags process target n gen], rt_generation = gen\<rparr>"
    using assms by (auto simp: zp_runtime_begin_def Let_def es_def split: option.splits)
  then show ?thesis
  proof cases
    case 2
    have "i < length es"
      using 2(1) picked_slot(1) find_entry_Some len
      by (fastforce simp: slot_or_pick_def zp_runtime_find_zygote_locked_def zp_runtime_find_native_pid_locked_def
          split: option.splits if_splits)
    then show ?thesis
      by (auto simp: 2 process_state_def begin_record_def intro!: bexI set_update_memI)
  qed simp
qed

text \<open>What a process begins with.\<close>

definition begin_process_of where
  "begin_process_of a t tw s = (if is_native tw then begin_native a t tw s else begin_zygote a t s)"

lemma begin_cases:
  assumes "begin_process_of a t tw s = (g, b, s1)"
  shows "ps_vm s1 = ps_vm s \<and> ps_fds s1 = ps_fds s \<and> ps_holders s1 = ps_holders s \<and>
    (g = 0 \<or> process_state (of_int (ct_tgid t)) g (if b = Skipped then STATE_SAFEMODE else STATE_DETECTED) (ps_runtime s1)) \<and>
    (\<forall>m. b = Going m \<longrightarrow> ct_mm t = Some m)"
proof (cases "is_native tw")
  case True
  obtain gen r where b: "zp_runtime_begin (ia_tasks a) (of_int (ct_tgid t)) (ct_start t) KIND_NATIVE (if ct_compat t then 1 else 2)
      (tw_native_target_type tw) (if tw_early_native tw then 1 else 0)
      (zp_runtime_read_process 256 (map_option mm_args (ct_mm t)))
      (zp_copy_name 256 (if tw_label tw \<noteq> [] then tw_label tw else ''native'')) (ps_runtime s) = (gen, r)" by fastforce
  show ?thesis
  proof (cases "sm_active (ps_safemode s)")
    case active: True
    then have "g = gen" "b = Skipped" "s1 = s\<lparr>ps_runtime := zp_runtime_set_state (of_int (ct_tgid t)) gen STATE_SAFEMODE r\<rparr>"
      using assms True by (auto simp: begin_process_of_def begin_native_def b)
    then show ?thesis
      using begin_process [OF b] set_state_process [of "of_int (ct_tgid t)" gen STATE_DETECTED r STATE_SAFEMODE] by auto
  next
    case inactive: False
    then have "g = gen" "b = (case ct_mm t of None \<Rightarrow> Stopped | Some m \<Rightarrow> Going m)" "s1 = s\<lparr>ps_runtime := r\<rparr>"
      using assms True by (auto simp: begin_process_of_def begin_native_def b)
    then show ?thesis using begin_process [OF b] by (simp split: option.split)
  qed
next
  case False
  show ?thesis
  proof (cases "\<exists>m name. ct_mm t = Some m \<and> zp_parse_zygote_args 64 (Some (mm_args m)) = Some name")
    case True
    then obtain m name where m: "ct_mm t = Some m" "zp_parse_zygote_args 64 (Some (mm_args m)) = Some name" by blast
    obtain gen r where b: "zp_runtime_begin (ia_tasks a) (of_int (ct_tgid t)) (ct_start t) KIND_ZYGOTE (if ct_compat t then 1 else 2)
        0 0 (zp_runtime_read_process 256 (Some (mm_args m))) name (ps_runtime s) = (gen, r)" by fastforce
    obtain skip event sm where k: "zp_zygote_safemode_should_skip (Some name) (ct_tgid t) (ps_safemode s) = (skip, event, sm)"
      by (metis prod_cases3)
    define s2 where "s2 = s\<lparr>ps_runtime := r, ps_safemode := sm, ps_events := ps_events s @ (case event of None \<Rightarrow> [] | Some e \<Rightarrow> [e])\<rparr>"
    have "(g, b, s1) = (if skip then (gen, Skipped, s2\<lparr>ps_runtime := zp_runtime_set_state (of_int (ct_tgid t)) gen STATE_SAFEMODE r\<rparr>)
        else (gen, Going m, s2))"
      using assms False by (auto simp: begin_process_of_def begin_zygote_def m b k s2_def Let_def)
    then have "g = gen" "b = (if skip then Skipped else Going m)"
      "s1 = (if skip then s2\<lparr>ps_runtime := zp_runtime_set_state (of_int (ct_tgid t)) gen STATE_SAFEMODE r\<rparr> else s2)"
      by (cases skip; simp)+
    then show ?thesis
      using begin_process [OF b] set_state_process [of "of_int (ct_tgid t)" gen STATE_DETECTED r STATE_SAFEMODE] m
      by (cases skip) (auto simp: s2_def)
  next
    case False2: False
    then show ?thesis using assms False
      by (auto simp: begin_process_of_def begin_zygote_def split: option.splits)
  qed
qed

section \<open>The task work\<close>

lemma stage_and_redirect_cases:
  assumes ok: "inject_answers_ok a" "early_ok (pc_early cfg)" and fresh: "fresh_stub a (ps_vm s)"
    and entry: "get_user (ct_compat t) (ps_vm s) at_entry = Some saved"
    and run: "stage_and_redirect a t cfg tw g saved base at_entry s = (success, s')"
  shows "if success then (\<exists>f. redirected_at a t cfg tw saved base at_entry f (ps_vm s) (ps_vm s') \<and>
        files_staged a cfg tw (ct_compat t) (ps_fds s) f (ps_fds s')) \<and>
      ps_runtime s' = zp_runtime_set_state (of_int (ct_tgid t)) g STATE_REDIRECTED (ps_runtime s)
    else untouched s s' \<and> ps_runtime s' = ps_runtime s"
proof -
  let ?st = "\<lparr>sg_fds = ps_fds s, sg_load = empty_policy, sg_temp = hl_temp (ps_holders s)\<rparr>"
  obtain r st where st: "stage_all a t cfg tw ?st = (r, st)" by fastforce
  note staged = stage_all_cases [OF ok st]
  show ?thesis
  proof (cases r)
    case None
    then have "\<not> success \<and> (s' = s \<or> s' = with_staging st s)"
      using run by (simp add: stage_and_redirect_def Let_def st split: if_splits)
    moreover have "untouched s (with_staging st s) \<and> ps_runtime (with_staging st s) = ps_runtime s"
      using staged None by (simp add: with_staging_def untouched_def same_pages_refl)
    ultimately show ?thesis by auto
  next
    case (Some f)
    then have f: "files_staged a cfg tw (ct_compat t) (ps_fds s) f (sg_fds st)" using staged by simp
    consider (missing) "\<not> success" "s' = s" | (going) "redirect a t cfg tw g saved base at_entry f st s = (success, s')"
    proof (cases "base = 0 \<or> fst (linker_offsets (ct_compat t) (pc_offsets cfg)) = 0 \<or> snd (linker_offsets (ct_compat t) (pc_offsets cfg)) = 0")
      case True
      then show ?thesis using run missing by (simp add: stage_and_redirect_def Let_def)
    next
      case False
      then have "stage_and_redirect a t cfg tw g saved base at_entry s = redirect a t cfg tw g saved base at_entry f st s"
        unfolding stage_and_redirect_def Let_def st Some by simp
      then show ?thesis using run going by simp
    qed
    then show ?thesis
    proof cases
      case going
      note r = redirect_cases [OF fresh entry f going]
      show ?thesis
      proof (cases success)
        case True
        then have "redirected_at a t cfg tw saved base at_entry f (ps_vm s) (ps_vm s')" "ps_fds s' = sg_fds st"
          "ps_runtime s' = zp_runtime_set_state (of_int (ct_tgid t)) g STATE_REDIRECTED (ps_runtime s)"
          using r by simp_all
        then show ?thesis using f True by (simp only: if_True) blast
      next
        case False
        then show ?thesis using r by simp
      qed
    qed simp
  qed
qed

lemma inject_process_cases:
  assumes ok: "inject_answers_ok a" "early_ok (pc_early cfg)" and fresh: "fresh_stub a (ps_vm s)"
    and run: "inject_process a t cfg tw g m s = Some (success, s')"
  shows "if success then redirected a t cfg tw m s s' \<and>
      ps_runtime s' = zp_runtime_set_state (of_int (ct_tgid t)) g STATE_REDIRECTED (ps_runtime s)
    else untouched s s' \<and> ps_runtime s' = ps_runtime s"
proof -
  obtain saved base where auxv: "zp_read_saved_auxv (mm_saved_auxv m) (ct_compat t) = (saved, base)" by fastforce
  consider (none) "\<not> success" "s' = s"
    | (entry) at_entry val where "zp_find_stack_at_entry (ct_compat t) (ps_vm s) (ct_sp t) = Some (Inr (at_entry, val))"
    using run auxv by (auto simp: inject_process_def split: option.splits sum.splits)
  then show ?thesis
  proof cases
    case entry
    have val: "get_user (ct_compat t) (ps_vm s) at_entry = Some val"
      using find_stack_word [OF entry] by (simp add: is_entry_word_def)
    have same: "s\<lparr>ps_vm := snd (zp_write_stack_at_entry at_entry val (ct_compat t) (ps_vm s))\<rparr> = s"
      using write_entry_same [OF val] by simp
    show ?thesis
    proof (cases "at_entry \<noteq> 0 \<and> val = saved \<and> saved \<noteq> 0")
      case True
      then have "stage_and_redirect a t cfg tw g saved base at_entry s = (success, s')"
        using run auxv entry same by (simp add: inject_process_def Let_def)
      from stage_and_redirect_cases [OF ok fresh _ this] val True auxv entry show ?thesis
        unfolding redirected_def by (auto split: if_splits)
    next
      case False
      then have "\<not> success" "s' = s"
        using run auxv entry same by (auto simp: inject_process_def Let_def split: if_splits)
      then show ?thesis by simp
    qed
  qed simp
qed

text \<open>C4: A process is injected as a whole or not at all.  When the task work returns, either the process is
  redirected: its stack has the address of the stub as the entry, the stub is a new page with all its
  parts, the files are open under descriptors that were free, all other memory is as before, and its
  record says so; or its memory, its descriptors and the lists of permissions are what they were, and its
  record, if it has one, says failed or safe mode.\<close>

theorem injection_all_or_nothing:
  assumes "inject_answers_ok a" and "early_ok (pc_early cfg)" and "fresh_stub a (ps_vm s)"
    and "zp_inject_tw_func a t cfg tw s = Some s'"
  shows "\<exists>g b s1 state. begin_process_of a t tw s = (g, b, s1) \<and>
    (g = 0 \<or> process_state (of_int (ct_tgid t)) g state (ps_runtime s')) \<and>
    (state = STATE_REDIRECTED \<and> (\<exists>m. ct_mm t = Some m \<and> b = Going m \<and> redirected a t cfg tw m s s') \<or>
     state = (if b = Skipped then STATE_SAFEMODE else STATE_FAILED) \<and> untouched s s')"
proof -
  obtain g b s1 where b: "begin_process_of a t tw s = (g, b, s1)" by (metis prod_cases3)
  note begun = begin_cases [OF b]
  let ?pid = "of_int (ct_tgid t) :: u32"
  have func: "zp_inject_tw_func a t cfg tw s =
    (let fail = (\<lambda>s. if g = 0 then s else s\<lparr>ps_runtime := zp_runtime_set_state ?pid g STATE_FAILED (ps_runtime s)\<rparr>)
     in case b of
        Skipped \<Rightarrow> Some s1
      | Stopped \<Rightarrow> Some (fail s1)
      | Going m \<Rightarrow> (case inject_process a t cfg tw g m s1 of None \<Rightarrow> None
          | Some (success, s2) \<Rightarrow> Some (if success then s2 else fail s2)))"
    using b unfolding zp_inject_tw_func_def begin_process_of_def by (simp add: Let_def split: begun.split)
  have failed: ?thesis if "s' = (if g = 0 then s2 else s2\<lparr>ps_runtime := zp_runtime_set_state ?pid g STATE_FAILED (ps_runtime s2)\<rparr>)"
      "untouched s1 s2" "ps_runtime s2 = ps_runtime s1" "b \<noteq> Skipped" for s2
  proof -
    have "g = 0 \<or> process_state ?pid g STATE_FAILED (ps_runtime s')"
      using begun that set_state_process [of ?pid g STATE_DETECTED "ps_runtime s1" STATE_FAILED] by auto
    moreover have "untouched s s'" using begun that(1,2) by (auto simp: untouched_def)
    ultimately show ?thesis using b that(4) by (intro exI [of _ g] exI [of _ b] exI [of _ s1] exI [of _ STATE_FAILED]) simp
  qed
  show ?thesis
  proof (cases b)
    case Skipped
    then have "s' = s1" using assms(4) func by simp
    then show ?thesis using begun b Skipped
      by (intro exI [of _ g] exI [of _ b] exI [of _ s1] exI [of _ STATE_SAFEMODE]) (auto simp: untouched_def same_pages_refl)
  next
    case Stopped
    then show ?thesis using assms(4) func by (intro failed [of s1]) (simp_all add: Let_def)
  next
    case (Going m)
    obtain success s2 where run: "inject_process a t cfg tw g m s1 = Some (success, s2)"
      and s': "s' = (if success then s2 else if g = 0 then s2
        else s2\<lparr>ps_runtime := zp_runtime_set_state ?pid g STATE_FAILED (ps_runtime s2)\<rparr>)"
      using assms(4) func Going by (auto simp: Let_def split: option.splits)
    have fresh: "fresh_stub a (ps_vm s1)" using assms(3) begun by simp
    note cases = inject_process_cases [OF assms(1,2) fresh run]
    show ?thesis
    proof (cases success)
      case True
      then have "redirected a t cfg tw m s s'" using cases s' begun by (simp add: redirected_def)
      moreover have "g = 0 \<or> process_state ?pid g STATE_REDIRECTED (ps_runtime s')"
        using True cases s' begun Going set_state_process [of ?pid g STATE_DETECTED "ps_runtime s1" STATE_REDIRECTED] by auto
      ultimately show ?thesis using b begun Going
        by (intro exI [of _ g] exI [of _ b] exI [of _ s1] exI [of _ STATE_REDIRECTED]) simp
    next
      case False
      then show ?thesis using cases s' Going by (intro failed [of s2]) simp_all
    qed
  qed
qed

section \<open>A sample injection\<close>

definition demo_stack :: "u64 list" where
  "demo_stack = [1, 0x100, 0, 0, 7, 0x10000, 9, 0x4000, 0, 0]"

definition demo_vm :: vm where
  "demo_vm = \<lparr>vm_mem = write_bytes (\<lambda>x. 0) 0x7000 (concat (map le64 demo_stack)),
     vm_prot = (\<lambda>x. if in_range 0x7000 0x1000 x then Some 3 else None), vm_munmaps = []\<rparr>"

lemma demo_word: "i < 10 \<Longrightarrow> get_user False demo_vm (0x7000 + of_nat (8 * i)) = Some (demo_stack ! i)"
proof -
  assume i: "i < 10"
  have "user_ok PROT_READ (0x7000 + of_nat (8 * i)) 8 demo_vm"
  proof -
    have "in_range 0x7000 0x1000 ((0x7000 :: u64) + of_nat (8 * i) + of_nat j)" if "j < 8" for j
    proof -
      have "((0x7000 :: u64) + of_nat (8 * i) + of_nat j) = 0x7000 + of_nat (8 * i + j)" by simp
      moreover have "unat ((0x7000 :: u64) + of_nat (8 * i + j) - 0x7000) = 8 * i + j"
        unfolding add_diff_cancel_left' by (rule unat_of_nat_u64) (use i that in simp)
      ultimately show ?thesis using i that unfolding in_range_def by (simp only:)
    qed
    then show ?thesis by (auto simp: user_ok_def list_all_iff demo_vm_def)
  qed
  moreover have "read_bytes (vm_mem demo_vm) (0x7000 + of_nat (8 * i)) 8 = take 8 (drop (8 * i) (concat (map le64 demo_stack)))"
    unfolding demo_vm_def vm.simps by (rule read_slice) (use i in \<open>simp_all add: demo_stack_def\<close>)
  moreover have "take 8 (drop (8 * i) (concat (map le64 demo_stack))) = le64 (demo_stack ! i)"
    using i by (auto simp: demo_stack_def less_Suc_eq numeral_eq_Suc)
  ultimately show ?thesis by (simp add: get_user_def word_len_def read64_def)
qed

text \<open>The process, the files and the answers of a sample.\<close>

definition demo_task :: current_task where
  "demo_task = \<lparr>ct_tgid = 42, ct_start = 9, ct_cred = 10, ct_compat = False,
     ct_mm = Some \<lparr>mm_args = map Some ''vold'' @ [Some NUL], mm_saved_auxv = [7, 0x10000, 9, 0x4000, 0, 0]\<rparr>, ct_sp = 0x7000\<rparr>"

definition demo_tw :: zp_inject_tw where
  "demo_tw = native_tw False (''vold'', TARGET_NAME)"

definition demo_stage :: stage_answers where
  "demo_stage = \<lparr>sa_open_error = 0, sa_regular = True, sa_content = [7], sa_alloc = True, sa_read = 1, sa_request = (None, 10),
     sa_env = (\<lambda>_. sample_env sample_db), sa_shmem = 0, sa_write = 1, sa_fd = Inr 100\<rparr>"

definition demo_inject :: inject_answers where
  "demo_inject = \<lparr>ia_tasks = (\<lambda>_. None), ia_loader = (\<lambda>_. demo_stage), ia_core = (\<lambda>_. demo_stage),
     ia_packet = \<lparr>pa_alloc_matches = True, pa_alloc_packet = True, pa_module = (\<lambda>_. demo_stage), pa_shmem = 0, pa_write = 0,
       pa_fd = Inr 100\<rparr>,
     ia_execmem = sample_env sample_db, ia_restore = sample_env sample_db, ia_mmap = 0x20000, ia_copied = (\<lambda>_. 0x1000),
     ia_publish = (\<lambda>_. sample_env sample_db), ia_publish_alloc = True\<rparr>"

definition demo_config :: probe_config where
  "demo_config = \<lparr>pc_offsets = \<lparr>po_dlopen = 0x100, po_dlsym = 0x200, po_dlopen32 = 0, po_dlsym32 = 0\<rparr>,
     pc_yukilinker = False, pc_early = early_initial\<rparr>"

definition demo_probe :: probe_state where
  "demo_probe = \<lparr>ps_vm = demo_vm, ps_fds = Map.empty,
     ps_holders = \<lparr>hl_temp = sample_state, hl_native = [], hl_module = []\<rparr>, ps_runtime = runtime_initial,
     ps_safemode = safemode_initial, ps_events = []\<rparr>"

lemma demo_find: "zp_find_stack_at_entry False demo_vm 0x7000 = Some (Inr (0x7038, 0x4000))"
proof -
  have w: "get_user False demo_vm 0x7000 = Some 1" "get_user False demo_vm 0x7018 = Some 0" "get_user False demo_vm 0x7020 = Some 7"
    "get_user False demo_vm 0x7028 = Some 0x10000" "get_user False demo_vm 0x7030 = Some 9" "get_user False demo_vm 0x7038 = Some 0x4000"
    using demo_word [of 0] demo_word [of 3] demo_word [of 4] demo_word [of 5] demo_word [of 6] demo_word [of 7]
    by (simp_all add: demo_stack_def)
  have "skip_pointers False demo_vm 0x7018 = Some (Some 0x7020)"
    by (subst skip_pointers.simps) (simp add: w word_len_def)
  moreover have "find_at_entry False demo_vm 0x7030 = Some (Inr (0x7038, 0x4000))"
    by (subst find_at_entry.simps) (simp add: w word_len_def)
  then have "find_at_entry False demo_vm 0x7020 = Some (Inr (0x7038, 0x4000))"
    by (subst find_at_entry.simps) (simp add: w word_len_def)
  ultimately show ?thesis by (simp add: zp_find_stack_at_entry_def w word_len_def)
qed

lemma demo_execmem:
  "\<exists>st' s'. yz_host_policy_allow_execmem (sample_env sample_db) (Some 10) empty_policy sample_state = (None, st', s')"
proof -
  have key: "yz_policy_base_get_execmem_key 10 (ts_selinux sample_state) = Inr (sample_key 1 3, 128)"
    by (simp add: yz_policy_base_get_execmem_key_def sample_state_def sample_policy_def sample_db_def
        yz_policy_sidtab_search_def class_by_name_def sample_class_def sample_key_def
        yz_policy_required_av_def process_execmem_perms_def yz_policy_perm_mask_def find_perm_def)
  have "known_key sample_db (sample_key 1 3)"
    by (simp add: known_key_def sample_db_def sample_key_def yz_policy_type_name_by_value_def yz_policy_class_name_by_value_def)
  then have "\<exists>db. commit_keys (sample_env (sp_db sample_policy)) True
      [(zero_key, 0), (zero_key, 0), (zero_key, 0), (sample_key 1 3, 128)] (ts_selinux sample_state) =
      (None, (ts_selinux sample_state)\<lparr>se_policy := Some (sample_policy\<lparr>sp_db := db\<rparr>)\<rparr>)"
    by (intro commit_keys_succeeds) (auto simp: sample_state_def sample_policy_def)
  moreover have "se_ready (ts_selinux sample_state)" by (simp add: sample_state_def)
  moreover have "\<not> execmem_mismatch empty_policy (sample_key 1 3)" "lp_process_added_av empty_policy = 0"
    by (simp_all add: execmem_mismatch_def empty_policy_def)
  ultimately show ?thesis
    using sample_plan [of 128 "sample_key 1 3"] key
    by (auto simp: yz_host_policy_allow_execmem_def commit_execmem_def yz_policy_base_commit_allow_def sample_policy_def)
qed

lemma demo_request: "yz_host_policy_allow_file_current env (Some (None, 10)) empty_policy sample_state = (Some EINVAL, empty_policy, sample_state)"
  by (simp add: yz_host_policy_allow_file_current_def yz_host_policy_allow_file_def yz_policy_base_get_file_load_keys_def sample_state_def)

lemma restore_empty: "zp_restore_native_policy_state env empty_policy s = (empty_policy, s)"
  by (simp add: zp_restore_native_policy_state_def zp_native_policy_has_additions_def empty_policy_def)

lemma demo_stage_file:
  "zp_stage_fd demo_stage w \<lparr>sg_fds = fds, sg_load = empty_policy, sg_temp = sample_state\<rparr> =
     (let fd = get_unused_fd (Inr 100) fds
      in (fd, \<lparr>sg_fds = if fd < 0 then fds else fds(fd \<mapsto> [7]), sg_load = empty_policy, sg_temp = sample_state\<rparr>))"
  by (simp add: zp_stage_fd_def allow_staged_def undo_staged_def restore_staging_def demo_stage_def LOADER_MAX_SZ_def demo_request
      fd_install_def Let_def restore_empty)

lemma demo_staged:
  "\<exists>load temp. stage_all demo_inject demo_task demo_config demo_tw
      \<lparr>sg_fds = Map.empty, sg_load = empty_policy, sg_temp = sample_state\<rparr> =
    (Some \<lparr>sf_loader_fd = 0, sf_core_fd = 1, sf_packet = zp_early_packet_state_init\<rparr>,
     \<lparr>sg_fds = [0 \<mapsto> [7], 1 \<mapsto> [7]], sg_load = load, sg_temp = temp\<rparr>)"
proof -
  have tw: "is_native demo_tw" "\<not> tw_early_native demo_tw" by (simp_all add: is_native_def demo_tw_def native_tw_def)
  have fds: "get_unused_fd (Inr 100) Map.empty = 0" "get_unused_fd (Inr 100) [0 \<mapsto> [7]] = 1"
    by (simp_all add: get_unused_fd_def upt_conv_Cons)
  have files: "stage_files demo_inject demo_config demo_tw False
      \<lparr>sg_fds = Map.empty, sg_load = empty_policy, sg_temp = sample_state\<rparr> =
    (Some (0, 1), \<lparr>sg_fds = [0 \<mapsto> [7], 1 \<mapsto> [7]], sg_load = empty_policy, sg_temp = sample_state\<rparr>)"
    using tw fds by (simp add: stage_files_def stage_loader_def demo_inject_def demo_stage_file)
  obtain st' s' where "yz_host_policy_allow_execmem (sample_env sample_db) (Some 10) empty_policy sample_state = (None, st', s')"
    using demo_execmem by blast
  then show ?thesis
    using files tw by (simp add: stage_all_def stage_packet_def allow_execmem_def yz_host_policy_allow_execmem_current_def
        demo_task_def demo_inject_def)
qed

lemma copies_arrive: "within_page copies \<Longrightarrow> (\<And>n. 0x1000 \<le> copied n) \<Longrightarrow> \<exists>w'. copy_all copied p copies w = (False, w')"
proof (induction copies arbitrary: copied w)
  case (Cons c copies)
  obtain off bs where c: "c = (off, bs)" by fastforce
  have "length bs \<le> copied 0" "within_page copies"
    using Cons.prems(1) Cons.prems(2) [of 0] by (auto simp: c within_page_def)
  then show ?case using Cons.IH [of "\<lambda>n. copied (Suc n)"] Cons.prems(2) by (simp add: c copy_to_user_def)
qed simp

lemma demo_fresh: "fresh_stub demo_inject demo_vm"
proof -
  have "in_range 0x20000 0x1000 x \<Longrightarrow> \<not> in_range 0x7000 0x1000 x" for x :: u64
  proof -
    assume "in_range 0x20000 0x1000 x"
    then obtain j where j: "j < 0x1000" "x = 0x7000 + of_nat (0x19000 + j)"
      using offset_repr [of x "0x20000"] by (auto simp: in_range_def intro!: that [of "unat (x - 0x20000)"])
    show "\<not> in_range 0x7000 0x1000 x"
      using in_range_offset [of "0x19000 + j" 0 "0x1000" "0x7000"] j by simp
  qed
  then show ?thesis by (auto simp: fresh_stub_def demo_inject_def demo_vm_def)
qed

lemma demo_run:
  "\<exists>s'. zp_inject_tw_func demo_inject demo_task demo_config demo_tw demo_probe = Some s' \<and> ps_fds s' 0 = Some [7]"
proof -
  obtain load temp where staged: "stage_all demo_inject demo_task demo_config demo_tw
      \<lparr>sg_fds = Map.empty, sg_load = empty_policy, sg_temp = sample_state\<rparr> =
    (Some \<lparr>sf_loader_fd = 0, sf_core_fd = 1, sf_packet = zp_early_packet_state_init\<rparr>,
     \<lparr>sg_fds = [0 \<mapsto> [7], 1 \<mapsto> [7]], sg_load = load, sg_temp = temp\<rparr>)" using demo_staged by blast
  let ?f = "\<lparr>sf_loader_fd = 0, sf_core_fd = 1, sf_packet = zp_early_packet_state_init\<rparr>"
  let ?copies = "stub_copies True True False 0x4000 0x10100 0x10200 ?f"
  obtain w where c: "copy_all (ia_copied demo_inject) (ia_mmap demo_inject) ?copies (vm_map_anon (ia_mmap demo_inject) 0x1000 7 demo_vm) = (False, w)"
  proof -
    have all: "\<And>n. 0x1000 \<le> ia_copied demo_inject n" by (simp add: demo_inject_def)
    show ?thesis
      using copies_arrive [where copied = "ia_copied demo_inject" and copies = ?copies, OF stub_copies_fit(1) all] that by blast
  qed
  then have p: "place_stub demo_inject ?copies demo_vm = (Some 0x20000, w)"
    by (simp add: place_stub_def demo_inject_def is_err_value_def)
  have "one_more_page demo_vm 0x20000 7 w"
    using place_stub_cases [OF demo_fresh stub_copies_fit p] by simp
  then have "vm_prot w = (\<lambda>x. if in_range 0x20000 0x1000 x then Some 7 else vm_prot demo_vm x)" by (simp add: one_more_page_def)
  moreover have "user_ok PROT_READ 0x7038 8 demo_vm"
    using demo_word [of 7] get_user_readable [of False demo_vm] by (simp add: word_len_def)
  ultimately have "user_ok PROT_WRITE 0x7038 8 w"
    by (auto simp: user_ok_def list_all_iff demo_vm_def split: if_splits)
  then have entry: "\<exists>v'. zp_write_stack_at_entry 0x7038 0x20000 False w = (0, v')"
    by (simp add: zp_write_stack_at_entry_def word_len_def)
  have same: "snd (zp_write_stack_at_entry 0x7038 0x4000 False demo_vm) = demo_vm"
    using demo_word [of 7] by (intro write_entry_same) (simp add: demo_stack_def)
  have tw: "is_native demo_tw" "\<not> tw_early_native demo_tw" by (simp_all add: is_native_def demo_tw_def native_tw_def)
  let ?m = "\<lparr>mm_args = map Some ''vold'' @ [Some NUL], mm_saved_auxv = [7, 0x10000, 9, 0x4000, 0, 0]\<rparr>"
  have redirect: "\<exists>s'. redirect demo_inject demo_task demo_config demo_tw g 0x4000 0x10000 0x7038 ?f
      \<lparr>sg_fds = [0 \<mapsto> [7], 1 \<mapsto> [7]], sg_load = load, sg_temp = temp\<rparr> s = (True, s') \<and> ps_fds s' 0 = Some [7]"
    if "ps_vm s = demo_vm" for g s
    using that p entry tw by (auto simp: redirect_def demo_task_def demo_config_def linker_offsets_def with_staging_def Let_def)
  have inject: "\<exists>s'. inject_process demo_inject demo_task demo_config demo_tw g ?m s = Some (True, s') \<and> ps_fds s' 0 = Some [7]"
    if "ps_vm s = demo_vm" "ps_fds s = Map.empty" "hl_temp (ps_holders s) = sample_state" for g s
  proof -
    have id: "s\<lparr>ps_vm := demo_vm\<rparr> = s" using that(1) by simp
    have "ct_compat demo_task = False" "ct_sp demo_task = 0x7000" by (simp_all add: demo_task_def)
    moreover have "zp_read_saved_auxv (mm_saved_auxv ?m) False = (0x4000, 0x10000)" by (simp add: zp_read_saved_auxv_def)
    moreover have "linker_offsets False (pc_offsets demo_config) = (0x100, 0x200)" by (simp add: linker_offsets_def demo_config_def)
    moreover have "stage_and_redirect demo_inject demo_task demo_config demo_tw g 0x4000 0x10000 0x7038 s =
        redirect demo_inject demo_task demo_config demo_tw g 0x4000 0x10000 0x7038 ?f
          \<lparr>sg_fds = [0 \<mapsto> [7], 1 \<mapsto> [7]], sg_load = load, sg_temp = temp\<rparr> s"
      unfolding stage_and_redirect_def that calculation staged by simp
    ultimately show ?thesis
      using redirect [OF that(1), of g] that(1) demo_find same by (simp add: inject_process_def id)
  qed
  obtain g r where "zp_runtime_begin (ia_tasks demo_inject) (of_int (ct_tgid demo_task)) (ct_start demo_task) KIND_NATIVE
      (if ct_compat demo_task then 1 else 2) (tw_native_target_type demo_tw) (if tw_early_native demo_tw then 1 else 0)
      (zp_runtime_read_process 256 (map_option mm_args (ct_mm demo_task)))
      (zp_copy_name 256 (if tw_label demo_tw \<noteq> [] then tw_label demo_tw else ''native'')) (ps_runtime demo_probe) = (g, r)"
    by fastforce
  then have "begin_native demo_inject demo_task demo_tw demo_probe = (g, Going ?m, demo_probe\<lparr>ps_runtime := r\<rparr>)"
    by (simp add: begin_native_def) (simp add: demo_probe_def safemode_initial_def demo_task_def)
  then show ?thesis
    using inject [of "demo_probe\<lparr>ps_runtime := r\<rparr>" g] tw
    by (auto simp: zp_inject_tw_func_def) (auto simp: demo_probe_def)
qed

theorem injection_all_or_nothing_witness:
  "\<exists>s' m. zp_inject_tw_func demo_inject demo_task demo_config demo_tw demo_probe = Some s' \<and>
     redirected demo_inject demo_task demo_config demo_tw m demo_probe s'"
proof -
  obtain s' where run: "zp_inject_tw_func demo_inject demo_task demo_config demo_tw demo_probe = Some s'"
    and fd: "ps_fds s' 0 = Some [7]" using demo_run by blast
  have "inject_answers_ok demo_inject"
    by (simp add: inject_answers_ok_def packet_answers_ok_def answer_ok_def demo_inject_def demo_stage_def)
  moreover have "early_ok (pc_early demo_config)" by (simp add: demo_config_def early_ok_def early_initial_def)
  moreover have "fresh_stub demo_inject (ps_vm demo_probe)" using demo_fresh by (simp add: demo_probe_def)
  moreover have "\<not> untouched demo_probe s'" using fd by (auto simp: untouched_def demo_probe_def)
  ultimately show ?thesis using injection_all_or_nothing [OF _ _ _ run] run by blast
qed

section \<open>The permissions of an injection\<close>

text \<open>The state that stages the files holds what it was granted, or has given it back.\<close>

definition run_with :: "temp_state \<Rightarrow> yz_file_load_policy list \<Rightarrow> holder_lists \<Rightarrow> staging \<Rightarrow> bool" where
  "run_with s0 fl hl st \<longleftrightarrow> (\<exists>lost. holders_run s0 (sg_load st # fl, lost, hl\<lparr>hl_temp := sg_temp st\<rparr>))"

definition run_without :: "temp_state \<Rightarrow> yz_file_load_policy list \<Rightarrow> holder_lists \<Rightarrow> staging \<Rightarrow> bool" where
  "run_without s0 fl hl st \<longleftrightarrow> (\<exists>lost. holders_run s0 (fl, lost, hl\<lparr>hl_temp := sg_temp st\<rparr>))"

definition has_room :: "nat \<Rightarrow> staging \<Rightarrow> bool" where
  "has_room n st \<longleftrightarrow> n \<le> free_rules (ts_rules (sg_temp st))"

lemma restore_run: "run_with s0 fl hl st \<Longrightarrow> dup_documented env \<Longrightarrow> run_without s0 fl hl (restore_staging env st)"
proof -
  assume "run_with s0 fl hl st" and env: "dup_documented env"
  then obtain lost where "holders_run s0 (sg_load st # fl, lost, hl\<lparr>hl_temp := sg_temp st\<rparr>)" by (auto simp: run_with_def)
  from hr_give_up [OF this env]
  show ?thesis by (auto simp: run_without_def restore_staging_def split: prod.split)
qed

lemma commit_file_empty: "commit_file_allow env keys file dir tmpfs s = (Some e, st, s') \<Longrightarrow> st = empty_policy"
  unfolding commit_file_allow_def
  by (cases "yz_policy_base_commit_allow env (fk_file keys) (snd file) (fk_dir keys) (snd dir)
             (fk_tmpfs keys) (snd tmpfs) zero_key 0 (ts_selinux s)") (auto split: option.splits)

lemma allow_file_empty:
  assumes "yz_host_policy_allow_file env (Some (isid, csid)) include_dir access st0 s = (Some e, st, s')"
  shows "st = empty_policy"
proof (cases "yz_policy_base_get_file_load_keys isid csid include_dir access (ts_selinux s)")
  case (Inl e')
  then show ?thesis using assms by (simp add: yz_host_policy_allow_file_def split: if_splits)
next
  case (Inr keys)
  show ?thesis
  proof (cases "plan_file_allow keys s")
    case (Inl e')
    then show ?thesis using assms Inr by (simp add: yz_host_policy_allow_file_def split: if_splits)
  next
    case plan: (Inr fdt)
    obtain f d m where "fdt = (f, d, m)" by (metis prod_cases3)
    then show ?thesis using assms Inr plan commit_file_empty [of env keys f d m s e st s']
      by (simp add: yz_host_policy_allow_file_def split: if_splits)
  qed
qed

lemma allow_staged_run:
  assumes run: "run_without s0 fl hl st" and env: "dup_documented (sa_env a 0)"
    and fits: "request_fits 4 (fst (sa_request a)) (snd (sa_request a)) False TMPFS_LOAD (sg_temp st)"
  shows "run_with s0 fl hl (allow_staged True a st) \<and> has_room 1 (allow_staged True a st)"
proof -
  obtain isid csid where r: "sa_request a = (isid, csid)" by fastforce
  obtain lost where base: "holders_run s0 (fl, lost, hl\<lparr>hl_temp := sg_temp st\<rparr>)" using run by (auto simp: run_without_def)
  obtain ret load temp where call: "yz_host_policy_allow_file_current (sa_env a 0) (Some (isid, csid)) (sg_load st) (sg_temp st) = (ret, load, temp)"
    by (metis prod_cases3)
  then have staged: "allow_staged True a st = st\<lparr>sg_load := load, sg_temp := temp\<rparr>" by (simp add: allow_staged_def r)
  have room: "4 \<le> free_rules (ts_rules (sg_temp st))" using fits by (simp add: request_fits_def)
  note call' = call [unfolded yz_host_policy_allow_file_current_def]
  show ?thesis
  proof (cases ret)
    case None
    have "yz_host_policy_allow_file (sa_env a 0) (Some (isid, csid)) False TMPFS_LOAD empty_policy (sg_temp st) = (None, load, temp)"
      using call' None by (auto simp: yz_host_policy_allow_file_def split: if_splits sum.splits)
    moreover have "request_fits 3 isid csid False TMPFS_LOAD (sg_temp st)" using fits r by (simp add: request_fits_def)
    ultimately have "holders_run s0 (load # fl, lost, hl\<lparr>hl_temp := temp\<rparr>)"
      using hr_file [OF base env, of isid csid load temp] by (simp add: yz_host_policy_allow_file_current_def)
    moreover have "1 \<le> free_rules (ts_rules temp)"
      using allow_file_room [OF call' [unfolded None] room] by simp
    ultimately show ?thesis using staged by (auto simp: run_with_def has_room_def)
  next
    case (Some e)
    then have "temp = sg_temp st" "load = empty_policy"
      using allow_file_fails allow_file_empty call' by blast+
    then show ?thesis using hr_begin [OF base] staged room by (auto simp: run_with_def has_room_def)
  qed
qed

definition stage_documented :: "stage_answers \<Rightarrow> bool" where
  "stage_documented a \<longleftrightarrow> (\<forall>n. dup_documented (sa_env a n))"

text \<open>Staging the file that brings the permissions, and one that does not.\<close>

lemma stage_fd_run:
  assumes "zp_stage_fd a True st0 = (fd, st)" and "run_without s0 fl hl st0" and "sg_load st0 = empty_policy"
    and "stage_documented a" and fits: "request_fits 4 (fst (sa_request a)) (snd (sa_request a)) False TMPFS_LOAD (sg_temp st0)"
    and "answer_ok (sa_fd a)"
  shows "if fd < 0 then run_without s0 fl hl st else run_with s0 fl hl st \<and> has_room 1 st"
proof -
  have env: "dup_documented (sa_env a n)" for n using assms(4) by (simp add: stage_documented_def)
  note allowed = allow_staged_run [OF assms(2) env fits]
  have undone: "run_without s0 fl hl (undo_staged True a (allow_staged True a st0))"
    using restore_run [OF conjunct1 [OF allowed] env] by (simp add: undo_staged_def)
  have kept: "run_with s0 fl hl (fd_install fd bs st') = run_with s0 fl hl st'" "has_room n (fd_install fd bs st') = has_room n st'"
    for fd bs st' n by (simp_all add: run_with_def has_room_def fd_install_def)
  have neg: "staged_error e < 0" for e by (simp add: staged_error_def)
  show ?thesis
    using assms(1) assms(2) allowed undone kept neg by (auto simp: zp_stage_fd_def Let_def split: if_splits)
qed

lemma stage_fd_plain: "zp_stage_fd a False st0 = (fd, st) \<Longrightarrow> sg_load st = sg_load st0 \<and> sg_temp st = sg_temp st0"
  by (auto simp: zp_stage_fd_def Let_def allow_staged_def undo_staged_def fd_install_def split: if_splits)

text \<open>The answers for the file that brings the permissions.\<close>

definition first_file :: "inject_answers \<Rightarrow> probe_config \<Rightarrow> zp_inject_tw \<Rightarrow> bool \<Rightarrow> stage_answers" where
  "first_file a cfg tw c = (if uses_loader cfg tw then ia_loader a (loader_path tw c (pc_early cfg))
     else ia_core a (core_path tw c (pc_early cfg)))"

definition inject_documented :: "inject_answers \<Rightarrow> bool" where
  "inject_documented a \<longleftrightarrow> (\<forall>p. stage_documented (ia_loader a p)) \<and> (\<forall>p. stage_documented (ia_core a p)) \<and>
     dup_documented (ia_execmem a) \<and> dup_documented (ia_restore a) \<and> (\<forall>n. dup_documented (ia_publish a n))"

lemma same_policy_run:
  assumes "sg_load st' = sg_load st" and "sg_temp st' = sg_temp st"
  shows "run_with s0 fl hl st' = run_with s0 fl hl st" "run_without s0 fl hl st' = run_without s0 fl hl st" "has_room n st' = has_room n st"
  using assms by (simp_all add: run_with_def run_without_def has_room_def)

lemma close_keeps_policy [simp]:
  "sg_load (zp_close_current_fd fd st) = sg_load st" "sg_temp (zp_close_current_fd fd st) = sg_temp st"
  by (simp_all add: zp_close_current_fd_def)

lemma close_packet_keeps_policy [simp]:
  "sg_load (snd (zp_close_early_packet_state packet st)) = sg_load st" "sg_temp (snd (zp_close_early_packet_state packet st)) = sg_temp st"
proof -
  have one: "sg_load (close_if_open fd s) = sg_load s" "sg_temp (close_if_open fd s) = sg_temp s" for fd s
    by (simp_all add: close_if_open_def)
  have "sg_load (foldl (\<lambda>s fd. close_if_open fd s) s fds) = sg_load s" "sg_temp (foldl (\<lambda>s fd. close_if_open fd s) s fds) = sg_temp s" for s fds
    by (induction fds arbitrary: s) (simp_all add: one)
  then show "sg_load (snd (zp_close_early_packet_state packet st)) = sg_load st" "sg_temp (snd (zp_close_early_packet_state packet st)) = sg_temp st"
    by (simp_all add: zp_close_early_packet_state_def one)
qed

lemma abandon_run:
  assumes "run_with s0 fl hl st" and "inject_documented a"
  shows "run_without s0 fl hl (abandon a yuki l core packet st)"
proof -
  have "run_with s0 fl hl (snd (zp_close_early_packet_state packet (if yuki then zp_close_current_fd core (zp_close_current_fd l st) else zp_close_current_fd l st)))"
    using assms(1) by (subst same_policy_run(1) [where st = st]) simp_all
  then show ?thesis
    using restore_run assms(2) unfolding abandon_def Let_def inject_documented_def by blast
qed

lemma stage_files_run:
  assumes run: "stage_files a cfg tw c st0 = (r, st)" and base: "run_without s0 fl hl st0" and empty: "sg_load st0 = empty_policy"
    and docs: "inject_documented a" "inject_answers_ok a"
    and fits: "request_fits 4 (fst (sa_request (first_file a cfg tw c))) (snd (sa_request (first_file a cfg tw c))) False TMPFS_LOAD (sg_temp st0)"
  shows "if r = None then run_without s0 fl hl st else run_with s0 fl hl st \<and> has_room 1 st"
proof -
  obtain l st1 where one: "zp_stage_fd (first_file a cfg tw c) True st0 = (l, st1)" by fastforce
  then have loader: "stage_loader a cfg tw c st0 = (l, st1)" by (cases "uses_loader cfg tw") (simp_all add: stage_loader_yuki first_file_def)
  have "stage_documented (first_file a cfg tw c)" "answer_ok (sa_fd (first_file a cfg tw c))"
    using docs by (simp_all add: first_file_def inject_documented_def inject_answers_ok_def)
  note first = stage_fd_run [OF one base empty this(1) fits this(2)]
  obtain core st2 where two: "zp_stage_fd (ia_core a (core_path tw c (pc_early cfg))) False st1 = (core, st2)" by fastforce
  note plain = stage_fd_plain [OF two]
  have "run_without s0 fl hl (restore_staging (ia_restore a) (zp_close_current_fd l st2))" if "run_with s0 fl hl st1"
    using that plain docs(1) same_policy_run(1) [of "zp_close_current_fd l st2" st1 s0 fl hl]
    by (intro restore_run) (simp_all add: inject_documented_def)
  then show ?thesis
    using run loader two first plain same_policy_run [of st2 st1]
    by (auto simp: stage_files_def Let_def split: if_splits)
qed

lemma stage_all_run:
  assumes run: "stage_all a t cfg tw st0 = (r, st)" and base: "run_without s0 fl hl st0" and empty: "sg_load st0 = empty_policy"
    and docs: "inject_documented a" "inject_answers_ok a" and late: "\<not> is_early tw"
    and fits: "request_fits 4 (fst (sa_request (first_file a cfg tw (ct_compat t)))) (snd (sa_request (first_file a cfg tw (ct_compat t))))
      False TMPFS_LOAD (sg_temp st0)"
  shows "if r = None then run_without s0 fl hl st else run_with s0 fl hl st"
proof -
  obtain r1 st1 where 1: "stage_files a cfg tw (ct_compat t) st0 = (r1, st1)" by fastforce
  note files = stage_files_run [OF 1 base empty docs fits]
  have packet: "stage_packet a cfg tw (ct_compat t) st1 = (True, zp_early_packet_state_init, st1)"
    using late by (simp only: stage_packet_def is_early_def [symmetric] if_False)
  show ?thesis
  proof (cases r1)
    case None
    then show ?thesis using run 1 files by (auto simp: stage_all_def)
  next
    case (Some lc)
    obtain l core where lc: "lc = (l, core)" by fastforce
    obtain ret load temp where call: "yz_host_policy_allow_execmem (ia_execmem a) (Some (ct_cred t)) (sg_load st1) (sg_temp st1) = (ret, load, temp)"
      by (metis prod_cases3)
    let ?st3 = "st1\<lparr>sg_load := load, sg_temp := temp\<rparr>"
    have execmem: "allow_execmem a t st1 = (ret, ?st3)"
      by (simp add: allow_execmem_def yz_host_policy_allow_execmem_current_def call)
    obtain lost where "holders_run s0 (sg_load st1 # fl, lost, hl\<lparr>hl_temp := sg_temp st1\<rparr>)"
      using files Some by (auto simp: run_with_def)
    from hr_execmem [OF this, of "ia_execmem a" "ct_cred t" ret load temp]
    have "run_with s0 fl hl ?st3"
      using files Some docs(1) call by (auto simp: run_with_def has_room_def inject_documented_def)
    then show ?thesis
      using run 1 Some lc packet execmem abandon_run [OF _ docs(1)]
      by (auto simp: stage_all_def Let_def split: option.splits)
  qed
qed

lemma publish_run:
  assumes "run_with s0 fl hl st" and "inject_documented a"
  shows "\<exists>lost. holders_run s0 (fl, lost, snd (zp_publish_native_policy_state (ia_publish a) (ia_publish_alloc a) tgid (sg_load st)
    (hl\<lparr>hl_temp := sg_temp st\<rparr>)))"
proof -
  obtain lost where run: "holders_run s0 (sg_load st # fl, lost, hl\<lparr>hl_temp := sg_temp st\<rparr>)" using assms(1) by (auto simp: run_with_def)
  have env: "dup_documented (ia_publish a n)" for n using assms(2) by (simp add: inject_documented_def)
  obtain st' hl' where p: "zp_publish_native_policy_state (ia_publish a) (ia_publish_alloc a) tgid (sg_load st) (hl\<lparr>hl_temp := sg_temp st\<rparr>) = (st', hl')"
    by fastforce
  show ?thesis
  proof (cases "ia_publish_alloc a")
    case True
    then show ?thesis using hr_publish [where env = "ia_publish a" and tgid = tgid, OF run env] p by auto
  next
    case False
    then show ?thesis using hr_publish_fails [where env = "ia_publish a" and tgid = tgid, OF run env] p by auto
  qed
qed

lemma with_staging_run: "run_without s0 fl (ps_holders s) st \<Longrightarrow> \<exists>lost. holders_run s0 (fl, lost, ps_holders (with_staging st s))"
  by (simp add: run_without_def with_staging_def)

lemma redirect_run:
  assumes run: "redirect a t cfg tw g saved base at_entry f st s = (success, s')"
    and held: "run_with s0 fl (ps_holders s) st" and docs: "inject_documented a"
  shows "\<exists>lost. holders_run s0 (fl, lost, ps_holders s')"
proof -
  let ?gave_up = "abandon a (is_native tw \<or> pc_yukilinker cfg) (sf_loader_fd f) (sf_core_fd f) (sf_packet f) st"
  have given: "\<exists>lost. holders_run s0 (fl, lost, ps_holders (with_staging ?gave_up (s\<lparr>ps_vm := v\<rparr>)))" for v
    using abandon_run [OF held docs] by (intro with_staging_run) simp
  note published = publish_run [OF held docs, of "ct_tgid t"]
  obtain r v where p: "place_stub a (stub_copies (is_native tw \<or> pc_yukilinker cfg) (is_native tw) (ct_compat t) saved
      (base + fst (linker_offsets (ct_compat t) (pc_offsets cfg))) (base + snd (linker_offsets (ct_compat t) (pc_offsets cfg))) f) (ps_vm s) = (r, v)"
    by fastforce
  show ?thesis
  proof (cases r)
    case None
    then have "s' = with_staging ?gave_up (s\<lparr>ps_vm := v\<rparr>)" using run p by (simp add: redirect_def Let_def)
    then show ?thesis using given by simp
  next
    case (Some stub)
    obtain werr v' where w: "zp_write_stack_at_entry at_entry (if ct_compat t then stub OR 1 else stub) (ct_compat t) v = (werr, v')"
      by fastforce
    show ?thesis
    proof (cases "werr = 0")
      case False
      then have "s' = with_staging ?gave_up (s\<lparr>ps_vm := vm_munmap stub 0x1000 v'\<rparr>)"
        using run p Some w by (auto simp: redirect_def Let_def)
      then show ?thesis using given by simp
    next
      case True
      then have "ps_holders s' = snd (zp_publish_native_policy_state (ia_publish a) (ia_publish_alloc a) (ct_tgid t) (sg_load st)
          ((ps_holders s)\<lparr>hl_temp := sg_temp st\<rparr>))"
        using run p Some w by (auto simp: redirect_def Let_def with_staging_def)
      then show ?thesis using published by simp
    qed
  qed
qed



theorem at_entry_found_witness:
  "zp_find_stack_at_entry False demo_vm 0x7000 = Some (Inr (0x7038, 0x4000)) \<and>
   stack_words False demo_vm 0x7000 (of_nat (length [0x100 :: u64]) # [0x100] @ [0] @ [] @ [0] @ aux_words ([(7, 0x10000)] @ [(9, 0x4000)]) @ [])"
proof -
  have stack: "stack_words False demo_vm 0x7000 (of_nat (length [0x100 :: u64]) # [0x100] @ [0] @ [] @ [0] @ aux_words ([(7, 0x10000)] @ [(9, 0x4000)]) @ [])"
    using demo_word [of 0] demo_word [of 1] demo_word [of 2] demo_word [of 3] demo_word [of 4] demo_word [of 5] demo_word [of 6] demo_word [of 7]
    by (simp add: demo_stack_def word_len_def)
  have "\<not> user_ok PROT_READ 0 1 demo_vm" by (simp add: user_ok_def demo_vm_def in_range_def)
  from conjunct2 [OF at_entry_found [OF this, of False "0x7000"], rule_format, OF stack]
  show ?thesis using stack by (simp add: word_len_def)
qed

end
