(* ===== verification/Stub_Machine.thy ===== *)
theory Stub_Machine
  imports Injection_Safety
begin

text \<open>
  The stub of the injection on arm64 and the machine it runs on: the words of \<open>stub_code\<close> are decoded and run on a small
  model of the processor, with the encodings and meanings of the Arm architecture manual.  A call leaves
  the stub for a function of the process, of which only the calling convention is known: it returns behind
  the call, keeps \<^verbatim>\<open>x19\<close> to \<^verbatim>\<open>x29\<close> and the stack pointer, and leaves the frame of the stub and its page alone.
\<close>

section \<open>Instructions\<close>

datatype insn =
  Adr nat int | AddImm nat nat nat | SubImm nat nat nat
| Movz64 nat nat u16 | Movk64 nat nat u16 | Movz32 nat nat u16 | Movk32 nat nat u16
| Str64 nat nat nat | Ldr64 nat nat nat | Str32 nat nat nat | Ldr32 nat nat nat
| MovReg nat nat | Blr nat | Br nat | Cbz nat int | Cbnz nat int | Branch int | Svc

text \<open>Fields of an instruction word: \<open>n\<close> bits from \<open>lo\<close> on, as a number or as a signed number.\<close>

definition field :: "u32 \<Rightarrow> nat \<Rightarrow> nat \<Rightarrow> nat" where
  "field w lo n = unat (take_bit n (drop_bit lo w))"

definition sfield :: "u32 \<Rightarrow> nat \<Rightarrow> nat \<Rightarrow> int" where
  "sfield w lo n = sint (signed_take_bit (n - 1) (drop_bit lo w))"

definition move_insn :: "u32 \<Rightarrow> nat \<Rightarrow> nat \<Rightarrow> u16 \<Rightarrow> insn option" where
  "move_insn op hw rd imm =
     (if op = 0x1a5 then Some (Movz64 rd hw imm)
      else if op = 0x1e5 then Some (Movk64 rd hw imm)
      else if op = 0xa5 then Some (Movz32 rd hw imm)
      else if op = 0xe5 then Some (Movk32 rd hw imm)
      else None)"

definition other_insn :: "u32 \<Rightarrow> insn option" where
  "other_insn w =
     (let rd = field w 0 5; rn = field w 5 5; imm12 = field w 10 12 in
      if w AND 0x9f000000 = 0x10000000 then Some (Adr rd (sfield w 5 19 * 4 + int (field w 29 2)))
      else if w AND 0xffc00000 = 0x91000000 then Some (AddImm rd rn imm12)
      else if w AND 0xffc00000 = 0xd1000000 then Some (SubImm rd rn imm12)
      else if w AND 0xffc00000 = 0xf9000000 then Some (Str64 rd rn (8 * imm12))
      else if w AND 0xffc00000 = 0xf9400000 then Some (Ldr64 rd rn (8 * imm12))
      else if w AND 0xffc00000 = 0xb9000000 then Some (Str32 rd rn (4 * imm12))
      else if w AND 0xffc00000 = 0xb9400000 then Some (Ldr32 rd rn (4 * imm12))
      else if w AND 0xffe0ffe0 = 0xaa0003e0 then Some (MovReg rd (field w 16 5))
      else if w AND 0xfffffc1f = 0xd63f0000 then Some (Blr rn)
      else if w AND 0xfffffc1f = 0xd61f0000 then Some (Br rn)
      else if w AND 0xff000000 = 0xb4000000 then Some (Cbz rd (sfield w 5 19))
      else if w AND 0xff000000 = 0xb5000000 then Some (Cbnz rd (sfield w 5 19))
      else if w AND 0xfc000000 = 0x14000000 then Some (Branch (sfield w 0 26))
      else if w AND 0xffe0001f = 0xd4000001 then Some Svc
      else None)"

definition decode :: "u32 \<Rightarrow> insn option" where
  "decode w =
     (case move_insn (drop_bit 23 w) (field w 21 2) (field w 0 5) (ucast (drop_bit 5 w)) of
        Some i \<Rightarrow> Some i
      | None \<Rightarrow> other_insn w)"

section \<open>The processor\<close>

text \<open>What leaves the stub: a call with its first four arguments, and a system call with its number and
  first argument.\<close>

datatype event = Call u64 "u64 list" | Syscall u64 u64

record cpu =
  cp_x :: "nat \<Rightarrow> u64"
  cp_sp :: u64
  cp_pc :: u64
  cp_mem :: memory
  cp_trace :: "event list"

text \<open>The result of the \<open>n\<close>-th event, what it leaves in the registers it may use, and in the memory.\<close>

record callees =
  ce_result :: "nat \<Rightarrow> u64"
  ce_regs :: "nat \<Rightarrow> nat \<Rightarrow> u64"
  ce_mem :: "nat \<Rightarrow> memory \<Rightarrow> memory"

text \<open>Register 31 of an address is the stack pointer.\<close>

definition base_reg :: "cpu \<Rightarrow> nat \<Rightarrow> u64" where
  "base_reg s n = (if n = 31 then cp_sp s else cp_x s n)"

definition set_reg :: "nat \<Rightarrow> u64 \<Rightarrow> cpu \<Rightarrow> cpu" where
  "set_reg n v s = s\<lparr>cp_x := (cp_x s)(n := v)\<rparr>"

definition set_base :: "nat \<Rightarrow> u64 \<Rightarrow> cpu \<Rightarrow> cpu" where
  "set_base n v s = (if n = 31 then s\<lparr>cp_sp := v\<rparr> else set_reg n v s)"

definition moved :: "nat \<Rightarrow> u16 \<Rightarrow> u64" where
  "moved hw imm = push_bit (16 * hw) (ucast imm)"

definition kept :: "nat \<Rightarrow> u64 \<Rightarrow> u64" where
  "kept hw v = v AND NOT (push_bit (16 * hw) 0xffff)"

definition do_call :: "callees \<Rightarrow> u64 \<Rightarrow> cpu \<Rightarrow> cpu" where
  "do_call ce addr s =
     (let k = length (cp_trace s) in
      s\<lparr>cp_x := (\<lambda>n. if n = 0 then ce_result ce k else if 19 \<le> n \<and> n \<le> 29 then cp_x s n else ce_regs ce k n),
        cp_mem := ce_mem ce k (cp_mem s),
        cp_trace := cp_trace s @ [Call addr (map (cp_x s) [0, 1, 2, 3])]\<rparr>)"

definition do_svc :: "callees \<Rightarrow> cpu \<Rightarrow> cpu" where
  "do_svc ce s =
     s\<lparr>cp_x := (cp_x s)(0 := ce_result ce (length (cp_trace s))),
       cp_trace := cp_trace s @ [Syscall (cp_x s 8) (cp_x s 0)]\<rparr>"

text \<open>The effect of an instruction other than on the program counter.\<close>

definition effect :: "callees \<Rightarrow> insn \<Rightarrow> cpu \<Rightarrow> cpu" where
  "effect ce i s =
     (case i of
        Adr rd off \<Rightarrow> set_reg rd (cp_pc s + of_int off) s
      | AddImm rd rn imm \<Rightarrow> set_base rd (base_reg s rn + of_nat imm) s
      | SubImm rd rn imm \<Rightarrow> set_base rd (base_reg s rn - of_nat imm) s
      | Movz64 rd hw imm \<Rightarrow> set_reg rd (moved hw imm) s
      | Movk64 rd hw imm \<Rightarrow> set_reg rd (kept hw (cp_x s rd) OR moved hw imm) s
      | Movz32 rd hw imm \<Rightarrow> set_reg rd (ucast (ucast (moved hw imm) :: u32)) s
      | Movk32 rd hw imm \<Rightarrow> set_reg rd (ucast (ucast (kept hw (cp_x s rd) OR moved hw imm) :: u32)) s
      | Str64 rt rn off \<Rightarrow> s\<lparr>cp_mem := write64 (cp_mem s) (base_reg s rn + of_nat off) (cp_x s rt)\<rparr>
      | Ldr64 rt rn off \<Rightarrow> set_reg rt (read64 (cp_mem s) (base_reg s rn + of_nat off)) s
      | Str32 rt rn off \<Rightarrow> s\<lparr>cp_mem := write32 (cp_mem s) (base_reg s rn + of_nat off) (ucast (cp_x s rt))\<rparr>
      | Ldr32 rt rn off \<Rightarrow> set_reg rt (ucast (read32 (cp_mem s) (base_reg s rn + of_nat off))) s
      | MovReg rd rm \<Rightarrow> set_reg rd (cp_x s rm) s
      | Blr rn \<Rightarrow> do_call ce (cp_x s rn) s
      | Svc \<Rightarrow> do_svc ce s
      | _ \<Rightarrow> s)"

text \<open>The distance to the next instruction, in words.\<close>

definition distance :: "insn \<Rightarrow> cpu \<Rightarrow> int" where
  "distance i s =
     (case i of
        Cbz rt off \<Rightarrow> if cp_x s rt = 0 then off else 1
      | Cbnz rt off \<Rightarrow> if cp_x s rt \<noteq> 0 then off else 1
      | Branch off \<Rightarrow> off
      | _ \<Rightarrow> 1)"

text \<open>At most \<open>n\<close> instructions, until one jumps to a register; \<open>None\<close> for a word that is not known, or when
  the instructions do not suffice.\<close>

fun run :: "nat \<Rightarrow> callees \<Rightarrow> cpu \<Rightarrow> cpu option" where
  "run 0 ce s = None"
| "run (Suc n) ce s =
     (case decode (read32 (cp_mem s) (cp_pc s)) of
        None \<Rightarrow> None
      | Some (Br rn) \<Rightarrow> Some (s\<lparr>cp_pc := cp_x s rn\<rparr>)
      | Some i \<Rightarrow> run n ce ((effect ce i s)\<lparr>cp_pc := cp_pc s + of_int (4 * distance i s)\<rparr>))"

section \<open>Decoding the stub\<close>

lemma mask16: "(0xffff :: u32) = mask 16" "(0xffff :: u64) = mask 16"
  by (simp_all add: mask_eq_exp_minus_1)

lemma patch_fields:
  "drop_bit 21 (patch_insn w imm) = drop_bit 21 w" "take_bit 5 (patch_insn w imm) = take_bit 5 w"
  "(ucast (drop_bit 5 (patch_insn w imm)) :: u16) = imm"
  unfolding patch_insn_def mask16
  by (rule bit_word_eqI; auto simp: bit_simps dest: bit_imp_le_length)+

lemma patch_decode:
  "move_insn (drop_bit 23 (patch_insn w imm)) (field (patch_insn w imm) 21 2) (field (patch_insn w imm) 0 5)
     (ucast (drop_bit 5 (patch_insn w imm))) = move_insn (drop_bit 23 w) (field w 21 2) (field w 0 5) imm"
proof -
  have "drop_bit 23 v = drop_bit 2 (drop_bit 21 v)" for v :: u32 by (simp add: drop_bit_drop_bit)
  then have "drop_bit 23 (patch_insn w imm) = drop_bit 23 w" by (simp only: patch_fields(1))
  then show ?thesis by (simp only: field_def patch_fields drop_bit_0 id_apply)
qed

lemma decode_patch:
  "move_insn (drop_bit 23 w) (field w 21 2) (field w 0 5) imm = Some i \<Longrightarrow> decode (patch_insn w imm) = Some i"
  by (simp add: decode_def patch_decode)

text \<open>The pieces of a value in the four moves, and their sum.\<close>

definition piece :: "nat \<Rightarrow> u64 \<Rightarrow> u16" where
  "piece i v = ucast (drop_bit (16 * i) v AND 0xffff)"

lemma pieces_sum:
  "kept 3 (kept 2 (kept 1 (moved 0 (piece 0 v)) OR moved 1 (piece 1 v)) OR moved 2 (piece 2 v)) OR moved 3 (piece 3 v) = v"
  (is "?sum = v")
proof (rule bit_word_eqI)
  fix n assume "n < LENGTH(64)"
  then consider "n < 16" | "16 \<le> n" "n < 32" | "32 \<le> n" "n < 48" | "48 \<le> n" "n < 64" by fastforce
  then show "bit ?sum n = bit v n"
    by cases (auto simp: kept_def moved_def piece_def mask16 bit_simps)
qed

text \<open>The instructions of the stub.\<close>

definition load_imm :: "nat \<Rightarrow> u64 \<Rightarrow> insn list" where
  "load_imm rd v = [Movz64 rd 0 (piece 0 v), Movk64 rd 1 (piece 1 v), Movk64 rd 2 (piece 2 v), Movk64 rd 3 (piece 3 v)]"

definition stub_insns :: "u64 \<Rightarrow> u64 \<Rightarrow> u64 \<Rightarrow> int \<Rightarrow> int \<Rightarrow> insn list" where
  "stub_insns saved dlopen_addr dlsym_addr core_fd packet_arg =
     [Adr 19 0, SubImm 31 31 64] @ load_imm 20 saved @ load_imm 21 dlopen_addr @ load_imm 23 dlsym_addr @
     [Str64 19 31 0, Str64 20 31 8, Str64 23 31 16, Str64 0 31 24,
      Movz32 16 0 0x4e21, Movk32 16 1 0x5241, Str32 16 19 0x800,
      AddImm 0 19 0xc00, Movz64 1 0 2, AddImm 2 19 0xa00, MovReg 3 20, Blr 21,
      Ldr64 19 31 0, Str64 0 19 0x808, Str64 0 31 32, Ldr32 0 19 0xa1c, Movz64 8 0 57, Svc,
      Ldr64 19 31 0, Ldr64 0 31 32, Cbz 0 6,
      AddImm 1 19 0xd00, Ldr64 2 31 8, Ldr64 23 31 16, Blr 23, Cbnz 0 5,
      Movz64 0 0 (of_int core_fd), Movz64 8 0 57, Svc, Branch 5,
      MovReg 25 0, Movz64 0 0 (of_int core_fd), Movz64 1 0 (of_int packet_arg), Blr 25,
      Ldr64 0 31 24, Ldr64 20 31 8, AddImm 31 31 64, MovReg 16 20, Br 16]"

lemma fd_patch:
  "0xd2800000 OR push_bit 5 (of_int x AND 0xffff) = patch_insn 0xd2800000 (of_int x)"
  "0xd2800001 OR push_bit 5 (of_int x AND 0xffff) = patch_insn 0xd2800001 (of_int x)"
proof -
  have x: "(of_int x :: u32) AND 0xffff = ucast (of_int x :: u16)"
    unfolding mask16 by (rule bit_word_eqI) (auto simp: bit_simps)
  show "0xd2800000 OR push_bit 5 (of_int x AND 0xffff) = patch_insn 0xd2800000 (of_int x)"
    "0xd2800001 OR push_bit 5 (of_int x AND 0xffff) = patch_insn 0xd2800001 (of_int x)"
    unfolding x patch_insn_def by simp_all
qed

lemma stub_code_words:
  "stub_code saved dlopen_addr dlsym_addr core_fd packet_arg = [
    0x10000013, 0xd10103ff, patch_insn 0xd2800014 (piece 0 saved), patch_insn 0xf2a00014 (piece 1 saved),
    patch_insn 0xf2c00014 (piece 2 saved), patch_insn 0xf2e00014 (piece 3 saved),
    patch_insn 0xd2800015 (piece 0 dlopen_addr), patch_insn 0xf2a00015 (piece 1 dlopen_addr),
    patch_insn 0xf2c00015 (piece 2 dlopen_addr), patch_insn 0xf2e00015 (piece 3 dlopen_addr),
    patch_insn 0xd2800017 (piece 0 dlsym_addr), patch_insn 0xf2a00017 (piece 1 dlsym_addr),
    patch_insn 0xf2c00017 (piece 2 dlsym_addr), patch_insn 0xf2e00017 (piece 3 dlsym_addr), 0xf90003f3, 0xf90007f4,
    0xf9000bf7, 0xf9000fe0, 0x5289c430, 0x72aa4830, 0xb9080270, 0x91300260, 0xd2800041, 0x91280262, 0xaa1403e3,
    0xd63f02a0, 0xf94003f3, 0xf9040660, 0xf90013e0, 0xb94a1e60, 0xd2800728, 0xd4000001, 0xf94003f3, 0xf94013e0,
    0xb40000c0, 0x91340261, 0xf94007e2, 0xf9400bf7, 0xd63f02e0, 0xb50000a0, patch_insn 0xd2800000 (of_int core_fd),
    0xd2800728, 0xd4000001, 0x14000005, 0xaa0003f9, patch_insn 0xd2800000 (of_int core_fd),
    patch_insn 0xd2800001 (of_int packet_arg), 0xd63f0320, 0xf9400fe0, 0xf94007f4, 0x910103ff, 0xaa1403f0, 0xd61f0200]"
  unfolding stub_code_def Let_def fd_patch zp_patch_imm64_def tmpl_def piece_def
  by (simp add: upt_rec)

text \<open>The constant words, and the moves that carry values.\<close>

lemma decode_fixed:
  "map decode [
     0x10000013, 0xd10103ff, 0xf90003f3, 0xf90007f4, 0xf9000bf7, 0xf9000fe0, 0x5289c430, 0x72aa4830,
     0xb9080270, 0x91300260, 0xd2800041, 0x91280262, 0xaa1403e3, 0xd63f02a0, 0xf94003f3, 0xf9040660,
     0xf90013e0, 0xb94a1e60, 0xd2800728, 0xd4000001, 0xf94003f3, 0xf94013e0, 0xb40000c0, 0x91340261,
     0xf94007e2, 0xf9400bf7, 0xd63f02e0, 0xb50000a0, 0xd2800728, 0xd4000001, 0x14000005, 0xaa0003f9,
     0xd63f0320, 0xf9400fe0, 0xf94007f4, 0x910103ff, 0xaa1403f0, 0xd61f0200] = map Some
    [Adr 19 0, SubImm 31 31 64, Str64 19 31 0, Str64 20 31 8, Str64 23 31 16, Str64 0 31 24,
     Movz32 16 0 0x4e21, Movk32 16 1 0x5241, Str32 16 19 0x800,
     AddImm 0 19 0xc00, Movz64 1 0 2, AddImm 2 19 0xa00, MovReg 3 20, Blr 21,
     Ldr64 19 31 0, Str64 0 19 0x808, Str64 0 31 32, Ldr32 0 19 0xa1c, Movz64 8 0 57, Svc,
     Ldr64 19 31 0, Ldr64 0 31 32, Cbz 0 6,
     AddImm 1 19 0xd00, Ldr64 2 31 8, Ldr64 23 31 16, Blr 23, Cbnz 0 5,
     Movz64 8 0 57, Svc, Branch 5, MovReg 25 0, Blr 25,
     Ldr64 0 31 24, Ldr64 20 31 8, AddImm 31 31 64, MovReg 16 20, Br 16]"
  by code_simp

lemma decode_moves:
  "decode (patch_insn 0xd2800014 imm) = Some (Movz64 20 0 imm)" "decode (patch_insn 0xf2a00014 imm) = Some (Movk64 20 1 imm)"
  "decode (patch_insn 0xf2c00014 imm) = Some (Movk64 20 2 imm)" "decode (patch_insn 0xf2e00014 imm) = Some (Movk64 20 3 imm)"
  "decode (patch_insn 0xd2800015 imm) = Some (Movz64 21 0 imm)" "decode (patch_insn 0xf2a00015 imm) = Some (Movk64 21 1 imm)"
  "decode (patch_insn 0xf2c00015 imm) = Some (Movk64 21 2 imm)" "decode (patch_insn 0xf2e00015 imm) = Some (Movk64 21 3 imm)"
  "decode (patch_insn 0xd2800017 imm) = Some (Movz64 23 0 imm)" "decode (patch_insn 0xf2a00017 imm) = Some (Movk64 23 1 imm)"
  "decode (patch_insn 0xf2c00017 imm) = Some (Movk64 23 2 imm)" "decode (patch_insn 0xf2e00017 imm) = Some (Movk64 23 3 imm)"
  "decode (patch_insn 0xd2800000 imm) = Some (Movz64 0 0 imm)" "decode (patch_insn 0xd2800001 imm) = Some (Movz64 1 0 imm)"
  by (rule decode_patch; simp add: field_def move_insn_def)+

lemma stub_code_insns:
  "map decode (stub_code saved dl ds core packet) = map Some (stub_insns saved dl ds core packet)"
  using decode_fixed by (simp add: stub_code_words stub_insns_def load_imm_def decode_moves)

section \<open>Running the stub\<close>

text \<open>The processor before instruction \<open>i\<close> of the stub.\<close>

definition at_insn :: "u64 \<Rightarrow> nat \<Rightarrow> (nat \<Rightarrow> u64) \<Rightarrow> u64 \<Rightarrow> memory \<Rightarrow> event list \<Rightarrow> cpu" where
  "at_insn stub i x sp m t = \<lparr>cp_x = x, cp_sp = sp, cp_pc = stub + of_nat (4 * i), cp_mem = m, cp_trace = t\<rparr>"

lemma at_insn_simps [simp]:
  "cp_x (at_insn stub i x sp m t) = x" "cp_sp (at_insn stub i x sp m t) = sp" "cp_mem (at_insn stub i x sp m t) = m"
  "cp_trace (at_insn stub i x sp m t) = t"
  by (simp_all add: at_insn_def)

definition code_at :: "u64 \<Rightarrow> u32 list \<Rightarrow> memory \<Rightarrow> bool" where
  "code_at stub ws m \<longleftrightarrow> (\<forall>i < length ws. read32 m (stub + of_nat (4 * i)) = ws ! i)"

text \<open>One instruction, as a change of the parts.\<close>

lemma run_insn:
  assumes ws: "map decode ws = map Some is" and code: "code_at stub ws m" and i: "i < length is" "0 < n"
    and fwd: "0 \<le> int i + distance (is ! i) (at_insn stub i x sp m t)"
  shows "run n ce (at_insn stub i x sp m t) =
    (case is ! i of
       Br rn \<Rightarrow> Some ((at_insn stub i x sp m t)\<lparr>cp_pc := x rn\<rparr>)
     | ins \<Rightarrow> run (n - 1) ce (at_insn stub (nat (int i + distance ins (at_insn stub i x sp m t)))
         (cp_x (effect ce ins (at_insn stub i x sp m t))) (cp_sp (effect ce ins (at_insn stub i x sp m t)))
         (cp_mem (effect ce ins (at_insn stub i x sp m t))) (cp_trace (effect ce ins (at_insn stub i x sp m t)))))"
proof -
  have len: "length ws = length is" using ws map_eq_imp_length_eq by blast
  then have "decode (read32 m (stub + of_nat (4 * i))) = Some (is ! i)"
    using ws code i nth_map [of i ws decode] nth_map [of i "is" Some] by (simp add: code_at_def)
  moreover have "cp_pc (at_insn stub i x sp m t) = stub + of_nat (4 * i)" by (simp add: at_insn_def)
  moreover obtain k where "n = Suc k" using i(2) gr0_implies_Suc by blast
  moreover have "(effect ce (is ! i) (at_insn stub i x sp m t))\<lparr>cp_pc := stub + of_nat (4 * i) + of_int (4 * distance (is ! i) (at_insn stub i x sp m t))\<rparr> =
      at_insn stub (nat (int i + distance (is ! i) (at_insn stub i x sp m t)))
         (cp_x (effect ce (is ! i) (at_insn stub i x sp m t))) (cp_sp (effect ce (is ! i) (at_insn stub i x sp m t)))
         (cp_mem (effect ce (is ! i) (at_insn stub i x sp m t))) (cp_trace (effect ce (is ! i) (at_insn stub i x sp m t)))"
  proof -
    have "(of_nat (4 * nat (int i + distance (is ! i) (at_insn stub i x sp m t))) :: u64) =
        of_int (4 * (int i + distance (is ! i) (at_insn stub i x sp m t)))"
      using fwd by simp
    then show ?thesis by (simp add: at_insn_def algebra_simps)
  qed
  ultimately show ?thesis by (cases "is ! i") (simp_all del: of_int_mult of_int_add of_nat_mult of_int_numeral)
qed

end
