(* ===== verification/Entry_Stub.thy ===== *)
theory Entry_Stub
  imports Stub_Machine
begin

text \<open>
  The stub of the injection, run from its first instruction to the jump to the program's own entry: what it
  calls with which arguments, and what it leaves in the registers, for every answer of the functions it calls.
\<close>

section \<open>The frame and the page\<close>

text \<open>The frame of the stub lies outside its page, and the functions it calls leave both alone.\<close>

definition frame_apart :: "u64 \<Rightarrow> u64 \<Rightarrow> bool" where
  "frame_apart stub fp \<longleftrightarrow> (\<forall>x. in_range fp 64 x \<longrightarrow> \<not> in_range stub 0x1000 x)"

definition callees_quiet :: "callees \<Rightarrow> u64 \<Rightarrow> u64 \<Rightarrow> bool" where
  "callees_quiet ce stub fp \<longleftrightarrow>
     (\<forall>k m x. in_range stub 0x1000 x \<or> in_range fp 64 x \<longrightarrow> ce_mem ce k m x = m x)"

lemma read64_cong: "(\<And>x. in_range a 8 x \<Longrightarrow> m x = m' x) \<Longrightarrow> read64 m a = read64 m' a"
  using read_bytes_cong [of a 8 m m'] by (simp add: read64_def)

lemma read32_cong: "(\<And>x. in_range a 4 x \<Longrightarrow> m x = m' x) \<Longrightarrow> read32 m a = read32 m' a"
  using read_bytes_cong [of a 4 m m'] by (simp add: read32_def)

lemma in_part: "in_range (d + of_nat k) n x \<Longrightarrow> k + n \<le> w \<Longrightarrow> w \<le> 0x1000 \<Longrightarrow> in_range d w x" for d :: u64
  using in_range_within [of d k n x w] by simp

lemma not_in_page:
  fixes stub :: u64
  assumes "in_range (stub + of_nat k) n x" and "in_range (stub + of_nat j) l x" and "k + n \<le> j \<or> j + l \<le> k"
    and "k + n \<le> 0x1000" and "j + l \<le> 0x1000"
  shows False
proof -
  have "in_range stub 0x1000 x" using in_part [OF assms(1)] assms(4) by simp
  then obtain i where i: "i < 0x1000" "x = stub + of_nat i"
    using offset_repr [of x stub] by (auto simp: in_range_def)
  show False
    using assms in_range_offset [of i k n stub] in_range_offset [of i j l stub] i by auto
qed

text \<open>What must stay in the memory while the stub runs: its code, the descriptor of the loader, and the words
  it has saved in its frame.\<close>

definition holds :: "u64 \<Rightarrow> u64 \<Rightarrow> u32 list \<Rightarrow> u32 \<Rightarrow> memory \<Rightarrow> bool" where
  "holds stub fp ws fd m \<longleftrightarrow> code_at stub ws m \<and> read32 m (stub + 0xa1c) = fd"

lemma holds_cong:
  assumes "\<And>x. in_range stub 0xd4 x \<or> in_range (stub + 0xa1c) 4 x \<Longrightarrow> m' x = m x" and "length ws = 53"
  shows "holds stub fp ws fd m' = holds stub fp ws fd m"
proof -
  have "read32 m' (stub + of_nat (4 * i)) = read32 m (stub + of_nat (4 * i))" if "i < 53" for i
    using in_part [of stub "4 * i" 4 _ "0xd4"] that by (intro read32_cong assms(1)) auto
  moreover have "read32 m' (stub + 0xa1c) = read32 m (stub + 0xa1c)" by (intro read32_cong assms(1)) simp
  ultimately show ?thesis using assms(2) by (simp add: holds_def code_at_def)
qed

lemma page_parts: "in_range stub 0xd4 x \<or> in_range (stub + 0xa1c) 4 x \<Longrightarrow> in_range stub 0x1000 x" for stub :: u64
  using in_part [of stub 0 "0xd4" x "0x1000"] in_part [of stub "0xa1c" 4 x "0x1000"] by auto

lemma holds_frame_store:
  assumes "frame_apart stub fp" and "k + 8 \<le> 64" and "length ws = 53"
  shows "holds stub fp ws fd (write64 m (fp + of_nat k) v) = holds stub fp ws fd m"
proof (rule holds_cong [OF _ assms(3)])
  fix x assume "in_range stub 0xd4 x \<or> in_range (stub + 0xa1c) 4 x"
  then show "write64 m (fp + of_nat k) v x = m x"
    using page_parts assms(1,2) in_part [of fp k 8 x 64] by (intro write64_frame) (auto simp: frame_apart_def)
qed

lemma holds_page_store:
  assumes "bs \<noteq> [] \<longrightarrow> 0x800 \<le> k \<and> k + length bs \<le> 0xa00" and "length ws = 53"
  shows "holds stub fp ws fd (write_bytes m (stub + of_nat k) bs) = holds stub fp ws fd m"
proof (rule holds_cong [OF _ assms(2)])
  fix x assume "in_range stub 0xd4 x \<or> in_range (stub + 0xa1c) 4 x"
  then have "\<not> in_range (stub + of_nat k) (length bs) x"
    using not_in_page [of stub k "length bs" x 0 "0xd4"] not_in_page [of stub k "length bs" x "0xa1c" 4] assms(1)
    by (cases "bs = []") (auto simp: in_range_def)
  then show "write_bytes m (stub + of_nat k) bs x = m x" by (rule write_bytes_frame)
qed

lemma holds_callee: "callees_quiet ce stub fp \<Longrightarrow> length ws = 53 \<Longrightarrow> holds stub fp ws fd (ce_mem ce k m) = holds stub fp ws fd m"
  using page_parts [of stub] by (intro holds_cong) (auto simp: callees_quiet_def)

text \<open>The words of the frame.\<close>

lemma frame_read:
  assumes "k + 8 \<le> 64" and "j + 8 \<le> 64" and "k + 8 \<le> j \<or> j + 8 \<le> k"
  shows "read64 (write64 m (fp + of_nat j) v) (fp + of_nat k) = read64 m (fp + of_nat k)"
  using assms by (intro read64_write64_apart word_apart_offset) auto

lemma frame_read_page:
  assumes "frame_apart stub fp" and "k + 8 \<le> 64" and "j + length bs \<le> 0x1000"
  shows "read64 (write_bytes m (stub + of_nat j) bs) (fp + of_nat k) = read64 m (fp + of_nat k)"
proof (rule read64_cong, rule write_bytes_frame)
  fix x assume "in_range (fp + of_nat k) 8 x"
  then have "\<not> in_range stub 0x1000 x" using in_part [of fp k 8 x 64] assms(1,2) by (auto simp: frame_apart_def)
  then show "\<not> in_range (stub + of_nat j) (length bs) x" using in_part [of stub j "length bs" x "0x1000"] assms(3) by auto
qed

lemma frame_read_callee:
  "callees_quiet ce stub fp \<Longrightarrow> k + 8 \<le> 64 \<Longrightarrow> read64 (ce_mem ce n m) (fp + of_nat k) = read64 m (fp + of_nat k)"
  using in_part [of fp k 8 _ 64] by (intro read64_cong) (auto simp: callees_quiet_def)

section \<open>The parts of the run\<close>

lemma stub_insns_length: "length (stub_insns saved dl ds core packet) = 53"
  by (simp add: stub_insns_def load_imm_def)

lemma stub_length: "map decode ws = map Some (stub_insns saved dl ds core packet) \<Longrightarrow> length ws = 53"
  using map_eq_imp_length_eq stub_insns_length by metis

lemma holds_code: "holds stub fp ws fd m \<Longrightarrow> code_at stub ws m"
  by (simp add: holds_def)

text \<open>The addresses the stub uses, as they appear in its instructions.\<close>

lemma frame_at:
  "frame_apart stub fp \<Longrightarrow> length ws = 53 \<Longrightarrow> holds stub fp ws fd (write64 m fp v) = holds stub fp ws fd m"
  "frame_apart stub fp \<Longrightarrow> length ws = 53 \<Longrightarrow> holds stub fp ws fd (write64 m (fp + 8) v) = holds stub fp ws fd m"
  "frame_apart stub fp \<Longrightarrow> length ws = 53 \<Longrightarrow> holds stub fp ws fd (write64 m (fp + 16) v) = holds stub fp ws fd m"
  "frame_apart stub fp \<Longrightarrow> length ws = 53 \<Longrightarrow> holds stub fp ws fd (write64 m (fp + 24) v) = holds stub fp ws fd m"
  "frame_apart stub fp \<Longrightarrow> length ws = 53 \<Longrightarrow> holds stub fp ws fd (write64 m (fp + 32) v) = holds stub fp ws fd m"
  using holds_frame_store [of stub fp 0 ws fd m v] holds_frame_store [of stub fp 8 ws fd m v]
    holds_frame_store [of stub fp 16 ws fd m v] holds_frame_store [of stub fp 24 ws fd m v]
    holds_frame_store [of stub fp 32 ws fd m v] by simp_all

lemma page_at:
  "length ws = 53 \<Longrightarrow> holds stub fp ws fd (write32 m (stub + 0x800) w) = holds stub fp ws fd m"
  "length ws = 53 \<Longrightarrow> holds stub fp ws fd (write64 m (stub + 0x808) v) = holds stub fp ws fd m"
  using holds_page_store [of "le32 w" "0x800" ws stub fp fd m] holds_page_store [of "le64 v" "0x808" ws stub fp fd m]
  by (simp_all add: write32_def write64_def)

definition frame_is :: "u64 \<Rightarrow> u64 \<Rightarrow> u64 \<Rightarrow> u64 \<Rightarrow> u64 \<Rightarrow> memory \<Rightarrow> bool" where
  "frame_is fp a b c d m \<longleftrightarrow> read64 m fp = a \<and> read64 m (fp + 8) = b \<and> read64 m (fp + 16) = c \<and> read64 m (fp + 24) = d"

lemma frame_is_callee: "callees_quiet ce stub fp \<Longrightarrow> frame_is fp a b c d (ce_mem ce n m) = frame_is fp a b c d m"
  using frame_read_callee [of ce stub fp 0 n m] frame_read_callee [of ce stub fp 8 n m]
    frame_read_callee [of ce stub fp 16 n m] frame_read_callee [of ce stub fp 24 n m]
  by (simp add: frame_is_def)

lemma frame_written:
  "frame_is fp a b c d (write64 (write64 (write64 (write64 m fp a) (fp + 8) b) (fp + 16) c) (fp + 24) d)"
  using frame_read [of 0 8 _ fp] frame_read [of 0 16 _ fp] frame_read [of 0 24 _ fp] frame_read [of 8 16 _ fp]
    frame_read [of 8 24 _ fp] frame_read [of 16 24 _ fp]
  by (simp add: frame_is_def)

lemma frame_is_page:
  "frame_apart stub fp \<Longrightarrow> frame_is fp a b c d (write32 m (stub + 0x800) w) = frame_is fp a b c d m"
  "frame_apart stub fp \<Longrightarrow> frame_is fp a b c d (write64 m (stub + 0x808) v) = frame_is fp a b c d m"
  "frame_is fp a b c d (write64 m (fp + 32) v) = frame_is fp a b c d m"
  using frame_read_page [of stub fp 0 "0x800" "le32 w" m] frame_read_page [of stub fp 8 "0x800" "le32 w" m]
    frame_read_page [of stub fp 16 "0x800" "le32 w" m] frame_read_page [of stub fp 24 "0x800" "le32 w" m]
    frame_read_page [of stub fp 0 "0x808" "le64 v" m] frame_read_page [of stub fp 8 "0x808" "le64 v" m]
    frame_read_page [of stub fp 16 "0x808" "le64 v" m] frame_read_page [of stub fp 24 "0x808" "le64 v" m]
    frame_read [of 0 32 m fp v] frame_read [of 8 32 m fp v] frame_read [of 16 32 m fp v] frame_read [of 24 32 m fp v]
  by (simp_all add: frame_is_def write32_def write64_def)

lemma stub_insns_nth:
  "stub_insns saved dl ds core packet ! 0 = Adr 19 0" "stub_insns saved dl ds core packet ! Suc 0 = SubImm 31 31 64"
  "stub_insns saved dl ds core packet ! 2 = Movz64 20 0 (piece 0 saved)"
  "stub_insns saved dl ds core packet ! 3 = Movk64 20 (Suc 0) (piece (Suc 0) saved)"
  "stub_insns saved dl ds core packet ! 4 = Movk64 20 2 (piece 2 saved)"
  "stub_insns saved dl ds core packet ! 5 = Movk64 20 3 (piece 3 saved)"
  "stub_insns saved dl ds core packet ! 6 = Movz64 21 0 (piece 0 dl)"
  "stub_insns saved dl ds core packet ! 7 = Movk64 21 (Suc 0) (piece (Suc 0) dl)"
  "stub_insns saved dl ds core packet ! 8 = Movk64 21 2 (piece 2 dl)"
  "stub_insns saved dl ds core packet ! 9 = Movk64 21 3 (piece 3 dl)"
  "stub_insns saved dl ds core packet ! 10 = Movz64 23 0 (piece 0 ds)"
  "stub_insns saved dl ds core packet ! 11 = Movk64 23 (Suc 0) (piece (Suc 0) ds)"
  "stub_insns saved dl ds core packet ! 12 = Movk64 23 2 (piece 2 ds)"
  "stub_insns saved dl ds core packet ! 13 = Movk64 23 3 (piece 3 ds)"
  "stub_insns saved dl ds core packet ! 14 = Str64 19 31 0" "stub_insns saved dl ds core packet ! 15 = Str64 20 31 8"
  "stub_insns saved dl ds core packet ! 16 = Str64 23 31 16" "stub_insns saved dl ds core packet ! 17 = Str64 0 31 24"
  "stub_insns saved dl ds core packet ! 18 = Movz32 16 0 0x4e21" "stub_insns saved dl ds core packet ! 19 = Movk32 16 (Suc 0) 0x5241"
  "stub_insns saved dl ds core packet ! 20 = Str32 16 19 0x800" "stub_insns saved dl ds core packet ! 21 = AddImm 0 19 0xc00"
  "stub_insns saved dl ds core packet ! 22 = Movz64 (Suc 0) 0 2" "stub_insns saved dl ds core packet ! 23 = AddImm 2 19 0xa00"
  "stub_insns saved dl ds core packet ! 24 = MovReg 3 20" "stub_insns saved dl ds core packet ! 25 = Blr 21"
  "stub_insns saved dl ds core packet ! 26 = Ldr64 19 31 0" "stub_insns saved dl ds core packet ! 27 = Str64 0 19 0x808"
  "stub_insns saved dl ds core packet ! 28 = Str64 0 31 32" "stub_insns saved dl ds core packet ! 29 = Ldr32 0 19 0xa1c"
  "stub_insns saved dl ds core packet ! 30 = Movz64 8 0 57" "stub_insns saved dl ds core packet ! 31 = Svc"
  "stub_insns saved dl ds core packet ! 32 = Ldr64 19 31 0" "stub_insns saved dl ds core packet ! 33 = Ldr64 0 31 32"
  "stub_insns saved dl ds core packet ! 34 = Cbz 0 6" "stub_insns saved dl ds core packet ! 35 = AddImm (Suc 0) 19 0xd00"
  "stub_insns saved dl ds core packet ! 36 = Ldr64 2 31 8" "stub_insns saved dl ds core packet ! 37 = Ldr64 23 31 16"
  "stub_insns saved dl ds core packet ! 38 = Blr 23" "stub_insns saved dl ds core packet ! 39 = Cbnz 0 5"
  "stub_insns saved dl ds core packet ! 40 = Movz64 0 0 (of_int core)" "stub_insns saved dl ds core packet ! 41 = Movz64 8 0 57"
  "stub_insns saved dl ds core packet ! 42 = Svc" "stub_insns saved dl ds core packet ! 43 = Branch 5"
  "stub_insns saved dl ds core packet ! 44 = MovReg 25 0" "stub_insns saved dl ds core packet ! 45 = Movz64 0 0 (of_int core)"
  "stub_insns saved dl ds core packet ! 46 = Movz64 (Suc 0) 0 (of_int packet)" "stub_insns saved dl ds core packet ! 47 = Blr 25"
  "stub_insns saved dl ds core packet ! 48 = Ldr64 0 31 24" "stub_insns saved dl ds core packet ! 49 = Ldr64 20 31 8"
  "stub_insns saved dl ds core packet ! 50 = AddImm 31 31 64" "stub_insns saved dl ds core packet ! 51 = MovReg 16 20"
  "stub_insns saved dl ds core packet ! 52 = Br 16"
  by (simp_all add: stub_insns_def load_imm_def)

lemmas stub_run = run_insn [OF _ holds_code] stub_insns_length stub_insns_nth
lemmas insn_effects = distance_def effect_def base_reg_def set_base_def set_reg_def do_call_def do_svc_def Let_def

lemma first_address: "cp_pc (at_insn stub 0 x sp m t) = stub"
  by (simp add: at_insn_def)

lemma moved_low: "moved 0 v = ucast v"
  by (simp add: moved_def)

text \<open>The constants are loaded.\<close>

lemma load_part:
  assumes ws: "map decode ws = map Some (stub_insns saved dl ds core packet)" and m: "holds stub fp ws fd m"
  shows "run (n + 14) ce (at_insn stub 0 x (fp + 64) m []) =
    run n ce (at_insn stub 14 (x(19 := stub, 20 := saved, 21 := dl, 23 := ds)) fp m [])"
  using m
  by (simp add: stub_run(1) [OF ws, where fp = fp and fd = fd] stub_run(2-) insn_effects first_address
      pieces_sum [simplified] del: run.simps)

text \<open>The frame is filled, the page marked, and \<^verbatim>\<open>dlopen\<close> called.\<close>

lemma frame_part:
  assumes ws: "map decode ws = map Some (stub_insns saved dl ds core packet)" and m: "holds stub fp ws fd m"
    and apart: "frame_apart stub fp"
  shows "\<exists>m'. run (n + 4) ce (at_insn stub 14 (x(19 := stub, 20 := saved, 21 := dl, 23 := ds)) fp m []) =
      run n ce (at_insn stub 18 (x(19 := stub, 20 := saved, 21 := dl, 23 := ds)) fp m' []) \<and>
    holds stub fp ws fd m' \<and> frame_is fp stub saved ds (x 0) m'"
  using m
  apply (simp add: stub_run(1) [OF ws, where fp = fp and fd = fd] stub_run(2-) insn_effects
      frame_at [OF apart stub_length [OF ws]] del: run.simps)
  apply (rule exI, rule conjI, rule refl)
  apply (simp add: frame_at [OF apart stub_length [OF ws]] frame_written)
  done

lemma dlopen_part:
  assumes ws: "map decode ws = map Some (stub_insns saved dl ds core packet)" and m: "holds stub fp ws fd m"
    and apart: "frame_apart stub fp" and quiet: "callees_quiet ce stub fp" and "frame_is fp stub saved ds r m"
  shows "\<exists>y m'. run (n + 8) ce (at_insn stub 18 (x(19 := stub, 20 := saved, 21 := dl, 23 := ds)) fp m []) =
      run n ce (at_insn stub 26 y fp m' [Call dl [stub + 0xc00, 2, stub + 0xa00, saved]]) \<and>
    holds stub fp ws fd m' \<and> frame_is fp stub saved ds r m' \<and> y 0 = ce_result ce 0"
  using m assms(5)
  apply (simp add: stub_run(1) [OF ws, where fp = fp and fd = fd] stub_run(2-) insn_effects moved_low
      page_at [OF stub_length [OF ws]] del: run.simps)
  apply (rule exI, rule exI, rule conjI, rule refl)
  apply (simp add: page_at [OF stub_length [OF ws]]
      holds_callee [OF quiet stub_length [OF ws]] frame_is_callee [OF quiet] frame_is_page(1) [OF apart])
  done

text \<open>What the stub reads back.\<close>

lemma frame_reads:
  assumes "frame_is fp a b c d m"
  shows "read64 m fp = a" "read64 m (fp + 8) = b" "read64 m (fp + 16) = c" "read64 m (fp + 24) = d"
  using assms by (simp_all add: frame_is_def)

lemma holds_fd: "holds stub fp ws fd m \<Longrightarrow> read32 m (stub + 0xa1c) = fd"
  by (simp add: holds_def)

text \<open>The descriptor of the loader is closed, and the handle tested.\<close>

lemma close_part:
  assumes ws: "map decode ws = map Some (stub_insns saved dl ds core packet)" and m: "holds stub fp ws fd m"
    and apart: "frame_apart stub fp" and "frame_is fp stub saved ds r m"
  shows "\<exists>y' m'. run (n + 9) ce (at_insn stub 26 y fp m t) =
      run n ce (at_insn stub (if y 0 = 0 then 40 else 35) y' fp m' (t @ [Syscall 57 (ucast fd)])) \<and>
    holds stub fp ws fd m' \<and> frame_is fp stub saved ds r m' \<and> y' 0 = y 0 \<and> y' 19 = stub"
  using m assms(4)
  apply (cases "y 0 = 0"; simp add: stub_run(1) [OF ws, where fp = fp and fd = fd] stub_run(2-) insn_effects moved_low
      page_at [OF stub_length [OF ws]] frame_at [OF apart stub_length [OF ws]]
      frame_is_page(2) [OF apart] frame_is_page(3) holds_fd [of stub fp ws fd] read64_write64
      frame_reads [of fp stub saved ds r] del: run.simps)
   apply (rule exI, rule exI, rule conjI, rule refl, simp add: page_at [OF stub_length [OF ws]] frame_at [OF apart stub_length [OF ws]]
      frame_is_page(2) [OF apart] frame_is_page(3))+
  done

text \<open>The entry is looked up.\<close>

lemma dlsym_part:
  assumes ws: "map decode ws = map Some (stub_insns saved dl ds core packet)" and m: "holds stub fp ws fd m"
    and quiet: "callees_quiet ce stub fp" and "frame_is fp stub saved ds r m" and "y 19 = stub"
  shows "\<exists>y' m'. run (n + 4) ce (at_insn stub 35 y fp m t) =
      run n ce (at_insn stub 39 y' fp m' (t @ [Call ds [y 0, stub + 0xd00, saved, y 3]])) \<and>
    holds stub fp ws fd m' \<and> frame_is fp stub saved ds r m' \<and> y' 0 = ce_result ce (length t)"
  using m assms(4,5)
  apply (simp add: stub_run(1) [OF ws, where fp = fp and fd = fd] stub_run(2-) insn_effects
      frame_reads [of fp stub saved ds r] del: run.simps)
  apply (rule exI, rule exI, rule conjI, rule refl)
  apply (simp add: holds_callee [OF quiet stub_length [OF ws]] frame_is_callee [OF quiet])
  done

lemma test_part:
  assumes ws: "map decode ws = map Some (stub_insns saved dl ds core packet)" and m: "holds stub fp ws fd m"
  shows "run (n + 1) ce (at_insn stub 39 y fp m t) = run n ce (at_insn stub (if y 0 = 0 then 40 else 44) y fp m t)"
  using m by (simp add: stub_run(1) [OF ws, where fp = fp and fd = fd] stub_run(2-) insn_effects del: run.simps)

text \<open>Without an entry the descriptor of the core is closed; otherwise the entry is called.\<close>

lemma give_up_part:
  assumes ws: "map decode ws = map Some (stub_insns saved dl ds core packet)" and m: "holds stub fp ws fd m"
  shows "\<exists>y'. run (n + 4) ce (at_insn stub 40 y fp m t) =
    run n ce (at_insn stub 48 y' fp m (t @ [Syscall 57 (ucast (of_int core :: u16))]))"
  using m
  apply (simp add: stub_run(1) [OF ws, where fp = fp and fd = fd] stub_run(2-) insn_effects moved_low del: run.simps)
  apply (rule exI, rule refl)
  done

lemma entry_part:
  assumes ws: "map decode ws = map Some (stub_insns saved dl ds core packet)" and m: "holds stub fp ws fd m"
    and quiet: "callees_quiet ce stub fp" and "frame_is fp stub saved ds r m"
  shows "\<exists>y' m'. run (n + 4) ce (at_insn stub 44 y fp m t) =
      run n ce (at_insn stub 48 y' fp m' (t @ [Call (y 0)
        [ucast (of_int core :: u16), ucast (of_int packet :: u16), y 2, y 3]])) \<and>
    holds stub fp ws fd m' \<and> frame_is fp stub saved ds r m'"
  using m assms(4)
  apply (simp add: stub_run(1) [OF ws, where fp = fp and fd = fd] stub_run(2-) insn_effects moved_low del: run.simps)
  apply (rule exI, rule exI, rule conjI, rule refl)
  apply (simp add: holds_callee [OF quiet stub_length [OF ws]] frame_is_callee [OF quiet])
  done

text \<open>The register of the argument is restored, and the program starts.\<close>

lemma leave_part:
  assumes ws: "map decode ws = map Some (stub_insns saved dl ds core packet)" and m: "holds stub fp ws fd m"
    and "frame_is fp stub saved ds r m"
  shows "\<exists>s. run (n + 5) ce (at_insn stub 48 y fp m t) = Some s \<and>
    cp_pc s = saved \<and> cp_sp s = fp + 64 \<and> cp_x s 0 = r \<and> cp_trace s = t \<and> cp_mem s = m"
  using m assms(3)
  by (simp add: stub_run(1) [OF ws, where fp = fp and fd = fd] stub_run(2-) insn_effects
      frame_reads [of fp stub saved ds r] del: run.simps)

section \<open>The whole run\<close>

text \<open>What leaves the stub, for the handle that \<^verbatim>\<open>dlopen\<close> returns and the entry that \<^verbatim>\<open>dlsym\<close>
  returns; a descriptor in an immediate operand has 16 bits.\<close>

definition word16 :: "int \<Rightarrow> u64" where
  "word16 fd = ucast (of_int fd :: u16)"

definition stub_trace :: "u64 \<Rightarrow> u64 \<Rightarrow> u64 \<Rightarrow> u64 \<Rightarrow> u32 \<Rightarrow> int \<Rightarrow> int \<Rightarrow> u64 \<Rightarrow> u64 \<Rightarrow> u64 list \<Rightarrow> event list" where
  "stub_trace stub saved dl ds loader core packet handle entry z =
     [Call dl [stub + 0xc00, 2, stub + 0xa00, saved], Syscall 57 (ucast loader)] @
     (if handle = 0 then [Syscall 57 (word16 core)]
      else Call ds [handle, stub + 0xd00, saved, z ! 0] #
        (if entry = 0 then [Syscall 57 (word16 core)]
         else [Call entry [word16 core, word16 packet, z ! 1, z ! 2]]))"

lemma give_up_leave:
  assumes ws: "map decode ws = map Some (stub_insns saved dl ds core packet)" and m: "holds stub fp ws fd m"
    and frame: "frame_is fp stub saved ds r m"
  shows "\<exists>s. run (n + 9) ce (at_insn stub 40 y fp m t) = Some s \<and> cp_pc s = saved \<and> cp_sp s = fp + 64 \<and>
    cp_x s 0 = r \<and> cp_trace s = t @ [Syscall 57 (word16 core)]"
proof -
  have "n + 9 = n + 5 + 4" by simp
  then obtain y' where "run (n + 9) ce (at_insn stub 40 y fp m t) =
      run (n + 5) ce (at_insn stub 48 y' fp m (t @ [Syscall 57 (word16 core)]))"
    using give_up_part [OF ws m, of "n + 5" ce y t] unfolding word16_def by metis
  then show ?thesis using leave_part [OF ws m frame, of n ce y' "t @ [Syscall 57 (word16 core)]"] by auto
qed

lemma stub_run_all:
  assumes ws: "map decode ws = map Some (stub_insns saved dl ds core packet)" and m: "holds stub fp ws fd m"
    and apart: "frame_apart stub fp" and quiet: "callees_quiet ce stub fp"
  shows "\<exists>s z. run 60 ce (at_insn stub 0 x (fp + 64) m []) = Some s \<and> cp_pc s = saved \<and> cp_sp s = fp + 64 \<and>
    cp_x s 0 = x 0 \<and> cp_trace s = stub_trace stub saved dl ds fd core packet (ce_result ce 0) (ce_result ce 2) z"
proof -
  let ?handle = "ce_result ce 0" and ?entry = "ce_result ce 2"
  let ?t1 = "[Call dl [stub + 0xc00, 2, stub + 0xa00, saved]]"
  let ?t2 = "?t1 @ [Syscall 57 (ucast fd)]"
  obtain m1 where m1: "run 46 ce (at_insn stub 14 (x(19 := stub, 20 := saved, 21 := dl, 23 := ds)) fp m []) =
      run 42 ce (at_insn stub 18 (x(19 := stub, 20 := saved, 21 := dl, 23 := ds)) fp m1 [])"
    "holds stub fp ws fd m1" "frame_is fp stub saved ds (x 0) m1"
    using frame_part [OF ws m apart, of 42 ce x] by auto
  obtain y2 m2 where m2: "run 42 ce (at_insn stub 18 (x(19 := stub, 20 := saved, 21 := dl, 23 := ds)) fp m1 []) =
      run 34 ce (at_insn stub 26 y2 fp m2 ?t1)"
    "holds stub fp ws fd m2" "frame_is fp stub saved ds (x 0) m2" "y2 0 = ?handle"
    using dlopen_part [OF ws m1(2) apart quiet m1(3), of 34 x] by auto
  obtain y3 m3 where m3: "run 34 ce (at_insn stub 26 y2 fp m2 ?t1) =
      run 25 ce (at_insn stub (if ?handle = 0 then 40 else 35) y3 fp m3 ?t2)"
    "holds stub fp ws fd m3" "frame_is fp stub saved ds (x 0) m3" "y3 0 = ?handle" "y3 19 = stub"
    using close_part [OF ws m2(2) apart m2(3), of 25 ce y2 ?t1] m2(4) by auto
  have upto: "run 60 ce (at_insn stub 0 x (fp + 64) m []) = run 25 ce (at_insn stub (if ?handle = 0 then 40 else 35) y3 fp m3 ?t2)"
    using load_part [OF ws m, of 46 ce x] m1(1) m2(1) m3(1) by simp
  show ?thesis
  proof (cases "?handle = 0")
    case True
    then show ?thesis using give_up_leave [OF ws m3(2,3), of 16 ce y3 ?t2] upto by (auto simp: stub_trace_def)
  next
    case False
    let ?t3 = "?t2 @ [Call ds [?handle, stub + 0xd00, saved, y3 3]]"
    obtain y4 m4 where m4: "run 25 ce (at_insn stub 35 y3 fp m3 ?t2) = run 21 ce (at_insn stub 39 y4 fp m4 ?t3)"
      "holds stub fp ws fd m4" "frame_is fp stub saved ds (x 0) m4" "y4 0 = ?entry"
      using dlsym_part [OF ws m3(2) quiet m3(3), where y = y3 and n = 21 and t = ?t2, OF m3(5)] m3(4) by (auto simp: numeral_2_eq_2)
    have tested: "run 60 ce (at_insn stub 0 x (fp + 64) m []) = run 20 ce (at_insn stub (if ?entry = 0 then 40 else 44) y4 fp m4 ?t3)"
      using upto False m4(1,4) test_part [OF ws m4(2), of 20 ce y4 ?t3] by simp
    show ?thesis
    proof (cases "?entry = 0")
      case True
      then show ?thesis
        using give_up_leave [OF ws m4(2,3), of 11 ce y4 ?t3] tested False by (auto simp: stub_trace_def intro!: exI [of _ "[y3 3]"])
    next
      case entry: False
      let ?t4 = "?t3 @ [Call ?entry [word16 core, word16 packet, y4 2, y4 3]]"
      obtain y5 m5 where m5: "run 20 ce (at_insn stub 44 y4 fp m4 ?t3) = run 16 ce (at_insn stub 48 y5 fp m5 ?t4)"
        "holds stub fp ws fd m5" "frame_is fp stub saved ds (x 0) m5"
        using entry_part [OF ws m4(2) quiet m4(3), of 16 y4 ?t3] m4(4) by (auto simp: word16_def)
      show ?thesis
        using leave_part [OF ws m5(2,3), of 11 ce y5 ?t4] tested False entry m5(1)
        by (auto simp: stub_trace_def intro!: exI [of _ "[y3 3, y4 2, y4 3]"])
    qed
  qed
qed

section \<open>The page as it is written\<close>

lemma read_bytes_part:
  "i + n \<le> N \<Longrightarrow> read_bytes m (a + of_nat i) n = take n (drop i (read_bytes m a N))" for a :: u64
  by (rule nth_equalityI) (auto simp: read_bytes_def add.assoc)

lemma word_of_code: "i < length ws \<Longrightarrow> take 4 (drop (4 * i) (concat (map le32 ws))) = le32 (ws ! i)"
proof (induction ws arbitrary: i)
  case (Cons w ws)
  then show ?case by (cases i) simp_all
qed simp

lemma read32_bytes: "read_bytes m a 4 = le32 w \<Longrightarrow> read32 m a = w"
  by (simp add: read32_def)

lemma extinfo_fd: "take 4 (drop 28 (zp_dlextinfo_bytes x)) = le32 (of_int (dx_library_fd x))"
  by (simp add: zp_dlextinfo_bytes_def)

lemma placed_holds:
  assumes "fresh_stub a v" and "place_stub a (stub_copies yuki native False saved dl ds f) v = (Some stub, w)"
  shows "holds stub fp (stub_code saved dl ds (if yuki then sf_core_fd f else - 1)
      (if 0 \<le> ep_packet_fd (sf_packet f) then ep_packet_fd (sf_packet f) + 1 else 0)) (of_int (sf_loader_fd f)) (vm_mem w)"
proof -
  let ?code = "stub_code saved dl ds (if yuki then sf_core_fd f else - 1)
      (if 0 \<le> ep_packet_fd (sf_packet f) then ep_packet_fd (sf_packet f) + 1 else 0)"
  note placed = place_stub_cases [OF assms(1) stub_copies_fit assms(2), simplified]
  have code: "read_bytes (vm_mem w) stub 212 = concat (map le32 ?code)"
    and ext: "read_bytes (vm_mem w) (stub + 0xa00) 48 = zp_dlextinfo_bytes
        \<lparr>dx_flags = 0x10 OR (if native then 0x40 else 0), dx_library_fd = sf_loader_fd f\<rparr>"
    using placed by (auto simp: stub_copies_def Let_def)
  have "read32 (vm_mem w) (stub + of_nat (4 * i)) = ?code ! i" if "i < 53" for i
  proof (rule read32_bytes)
    have "read_bytes (vm_mem w) (stub + of_nat (4 * i)) 4 = take 4 (drop (4 * i) (concat (map le32 ?code)))"
      using read_bytes_part [of "4 * i" 4 212 "vm_mem w" stub] that code by simp
    then show "read_bytes (vm_mem w) (stub + of_nat (4 * i)) 4 = le32 (?code ! i)"
      using word_of_code [of i ?code] that by simp
  qed
  moreover have "read32 (vm_mem w) (stub + 0xa1c) = of_int (sf_loader_fd f)"
    using read_bytes_part [of 28 4 48 "vm_mem w" "stub + 0xa00"] ext extinfo_fd by (intro read32_bytes) (simp add: add.assoc)
  ultimately show ?thesis by (simp add: holds_def code_at_def)
qed

text \<open>C8: on arm64 the stub, once its page is written and started in place of the entry of the process, always
  ends at that entry with the stack pointer and the first argument as they were, whatever the functions it calls
  return.  On the way it calls \<^verbatim>\<open>dlopen\<close> with the name and the structure the page holds, closes the
  descriptor of the loader, and, when a handle came back, looks up the entry of the library and calls it with the
  descriptor of the core and the number of the packet; when either call fails it closes the descriptor of the core
  instead.  The called functions only have to leave the page and the frame of the stub alone.\<close>

theorem stub_reaches_entry:
  assumes "fresh_stub a v" and "place_stub a (stub_copies yuki native False saved dl ds f) v = (Some stub, w)"
    and "frame_apart stub fp" and "callees_quiet ce stub fp"
  shows "\<exists>s z. run 60 ce \<lparr>cp_x = x, cp_sp = fp + 64, cp_pc = stub, cp_mem = vm_mem w, cp_trace = []\<rparr> = Some s \<and>
    cp_pc s = saved \<and> cp_sp s = fp + 64 \<and> cp_x s 0 = x 0 \<and>
    cp_trace s = stub_trace stub saved dl ds (of_int (sf_loader_fd f)) (if yuki then sf_core_fd f else - 1)
      (if 0 \<le> ep_packet_fd (sf_packet f) then ep_packet_fd (sf_packet f) + 1 else 0) (ce_result ce 0) (ce_result ce 2) z \<and>
    read_bytes (vm_mem w) (stub + 0xc00) (length (lib_str yuki native False) + 1) = ascii (lib_str yuki native False) @ [0] \<and>
    read_bytes (vm_mem w) (stub + 0xd00) (length (entry_str yuki) + 1) = ascii (entry_str yuki) @ [0] \<and>
    read_bytes (vm_mem w) (stub + 0xa00) 48 =
      zp_dlextinfo_bytes \<lparr>dx_flags = 0x10 OR (if native then 0x40 else 0), dx_library_fd = sf_loader_fd f\<rparr>"
proof -
  have "at_insn stub 0 x (fp + 64) (vm_mem w) [] =
      \<lparr>cp_x = x, cp_sp = fp + 64, cp_pc = stub, cp_mem = vm_mem w, cp_trace = []\<rparr>" by (simp add: at_insn_def)
  moreover note stub_run_all [OF stub_code_insns placed_holds [OF assms(1,2)] assms(3,4), of x]
  moreover note place_stub_cases [OF assms(1) stub_copies_fit assms(2), simplified]
  ultimately show ?thesis by (auto simp: stub_copies_def Let_def)
qed

definition demo_callees :: callees where
  "demo_callees = \<lparr>ce_result = (\<lambda>n. [0x77, 0, 0x99] ! n), ce_regs = (\<lambda>n r. 0), ce_mem = (\<lambda>n m. m)\<rparr>"

lemma demo_frame: "frame_apart 0x20000 0x7f00"
proof -
  have "in_range 0x20000 0x1000 x \<Longrightarrow> \<not> in_range 0x7f00 64 x" for x :: u64
  proof -
    assume "in_range 0x20000 0x1000 x"
    then obtain j where j: "j < 0x1000" "x = 0x7f00 + of_nat (0x18100 + j)"
      using offset_repr [of x "0x20000"] by (auto simp: in_range_def intro!: that [of "unat (x - 0x20000)"])
    show "\<not> in_range 0x7f00 64 x" using in_range_offset [of "0x18100 + j" 0 64 "0x7f00"] j by simp
  qed
  then show ?thesis by (auto simp: frame_apart_def)
qed

theorem stub_reaches_entry_witness:
  "\<exists>w s z. place_stub demo_inject (stub_copies True True False 0x4000 0x10100 0x10200
        \<lparr>sf_loader_fd = 0, sf_core_fd = 1, sf_packet = zp_early_packet_state_init\<rparr>) demo_vm = (Some 0x20000, w) \<and>
    run 60 demo_callees \<lparr>cp_x = (\<lambda>n. 5), cp_sp = 0x7f40, cp_pc = 0x20000, cp_mem = vm_mem w, cp_trace = []\<rparr> = Some s \<and>
    cp_pc s = 0x4000 \<and> cp_sp s = 0x7f40 \<and> cp_x s 0 = 5 \<and>
    cp_trace s = [Call 0x10100 [0x20c00, 2, 0x20a00, 0x4000], Syscall 57 0, Call 0x10200 [0x77, 0x20d00, 0x4000, z ! 0],
      Call 0x99 [1, 0, z ! 1, z ! 2]]"
proof -
  let ?f = "\<lparr>sf_loader_fd = 0, sf_core_fd = 1, sf_packet = zp_early_packet_state_init\<rparr>"
  let ?copies = "stub_copies True True False 0x4000 0x10100 0x10200 ?f"
  have all: "\<And>n. 0x1000 \<le> ia_copied demo_inject n" by (simp add: demo_inject_def)
  obtain w where "copy_all (ia_copied demo_inject) (ia_mmap demo_inject) ?copies (vm_map_anon (ia_mmap demo_inject) 0x1000 7 demo_vm) = (False, w)"
    using copies_arrive [where copied = "ia_copied demo_inject" and copies = ?copies, OF stub_copies_fit(1) all] by blast
  then have p: "place_stub demo_inject ?copies demo_vm = (Some 0x20000, w)"
    by (simp add: place_stub_def demo_inject_def is_err_value_def)
  have quiet: "callees_quiet demo_callees 0x20000 0x7f00" by (simp add: callees_quiet_def demo_callees_def)
  show ?thesis
    using p stub_reaches_entry [OF demo_fresh p demo_frame quiet, of "\<lambda>n. 5"]
    by (auto simp: stub_trace_def demo_callees_def word16_def zp_early_packet_state_init_def)
qed

end
