(* ===== verification/Spec2Isabelle.thy ===== *)
theory Spec2Isabelle
  imports Loader_Safety Hook32_Safety Policy_Sync Zygote_Orch Zygote_Ctl Daemon_Modules Entry_Stub
begin

text \<open>
  \<^bold>\<open>YukiZygisk: a verification library\<close>

  YukiZygisk runs modules inside Android's zygote and system processes.  A kernel module
  (\<^verbatim>\<open>src/kernel\<close>) finds out which root implementation is installed, traps zygote and decides for
  which apps the module mounts are removed; a daemon (\<^verbatim>\<open>src/userspace/zygisk/daemon\<close>) supplies it with
  the policy and serves the injected code; the injected core (\<^verbatim>\<open>src/userspace/zygisk/core\<close>) loads the
  modules with an ELF loader of its own, without the system linker's bookkeeping, and hooks functions
  in place.

  \<^bold>\<open>Parts and theories\<close>

  \<^item> \<open>Yz_Prelude\<close>: machine words, overflow guards, little-endian encodings, byte memories.
    \<open>Page_Writes\<close>: building one page by writes at offsets, for both hook back ends.

  \<^item> The loader, \<^verbatim>\<open>core/src/yukilinker.cpp\<close>, 64-bit build, in the order of the file:
    \<open>Elf_Arith\<close> (checked arithmetic, page rounding), \<open>Metadata_Arena\<close> (\<^verbatim>\<open>metadata_allocate\<close>),
    \<open>Image_Registry\<close> (the linked list of images), \<open>Elf_Layout\<close> (\<^verbatim>\<open>inspect_source\<close>),
    \<open>Address_Space\<close> and \<open>Segment_Mapping\<close> (\<^verbatim>\<open>create_address_space\<close>, \<^verbatim>\<open>map_one_segment\<close>, protections),
    \<open>Image_State\<close> (the structures of an image), \<open>Dynamic_Parse\<close> (\<^verbatim>\<open>parse_dynamic_tags\<close>,
    \<^verbatim>\<open>establish_symbol_count\<close>), \<open>Probe_Table\<close> and \<open>Symbol_Index\<close> (\<^verbatim>\<open>build_symbol_index\<close>,
    \<^verbatim>\<open>find_defined_symbol\<close>), \<open>Tls_Runtime\<close> (\<^verbatim>\<open>activate_tls\<close>, \<^verbatim>\<open>deactivate_tls\<close>,
    \<^verbatim>\<open>yuki_tls_get_addr\<close>), \<open>Relocation\<close> (\<^verbatim>\<open>apply_relocation\<close>, \<^verbatim>\<open>apply_relr_span\<close>, \<^verbatim>\<open>relocate_image\<close>),
    \<open>Exit_Callbacks\<close> (\<^verbatim>\<open>module_cxa_atexit\<close>, \<^verbatim>\<open>drain_exit_callbacks\<close>), \<open>Loader\<close> and \<open>Loader_Safety\<close>
    (\<^verbatim>\<open>dlopen_memfd\<close>, \<^verbatim>\<open>dlsym\<close>, \<^verbatim>\<open>dlclose\<close> over the whole state).

  \<^item> The inline hook, \<^verbatim>\<open>core/src/inline_hook.hpp\<close>: \<open>Inline_Hook64\<close> for arm64, \<open>Inline_Hook32\<close> and
    \<open>Hook32_Safety\<close> for ARM and Thumb.  The state is the process memory with its protections, and the
    record of the hook.

  \<^item> The JSON library, \<^verbatim>\<open>userspace/common/json.hpp\<close>: \<open>Json\<close>.

  \<^item> The root policy.  \<open>Kernel_Policy\<close> is the kernel side, \<^verbatim>\<open>kernel/host/root_impl.c\<close> with the handlers
    of \<^verbatim>\<open>kernel/core/control.c\<close> for it: detection, the policy cache and its binary search, the decision
    for a uid.  \<open>Root_Policy\<close> is the daemon side, \<^verbatim>\<open>daemon/root_policy.cpp\<close>: allow list, APatch
    configuration, KernelSU client, cache file, refresh and queries.  \<open>Policy_Sync\<close> composes the two:
    the bytes that one writes are those that the other checks and searches.

  \<^item> Native module manifests, \<^verbatim>\<open>daemon/native_modules.hpp\<close>: \<open>Native_Manifest\<close>.

  \<^item> Zygote and its children, in the kernel: \<open>Zygote_Orch\<close> (\<^verbatim>\<open>kernel/feature/zygote_orch.c\<close>: which
    children exist, when one becomes an app, the ring of events for the daemon) and \<open>Zygote_Ctl\<close>
    (\<^verbatim>\<open>kernel/feature/zygote_ctl.c\<close>: handing module files to a process).  \<open>Bounded_Fifo\<close> is the contract of
    the ring.

  \<^item> SELinux, in the kernel: \<open>Policy_Edit\<close> (\<^verbatim>\<open>kernel/host/policy.c\<close>: editing a copy of the policy),
    \<open>Policy_Temp\<close> and \<open>Policy_Temp_Safety\<close> (\<^verbatim>\<open>kernel/host/policy_temp.c\<close>: permissions that are counted and
    taken back), \<open>Policy_Holders\<close> (the part of \<^verbatim>\<open>kernel/feature/zygote_probe.c\<close> that holds such permissions
    for injected processes and module directories).

  \<^item> The zygote probe, \<^verbatim>\<open>kernel/feature/zygote_probe.c\<close>, in the order in which an injection uses it:
    \<open>Zygote_Guard\<close> (the command line of zygote, safe mode, the list of native targets), \<open>Zygote_Runtime\<close>
    (the table the status command reads: processes, states, modules), \<open>Early_Native\<close> (the snapshot of
    early modules), \<open>Native_Staging\<close> (\<^verbatim>\<open>zp_stage_fd\<close>, the packet of descriptors for early modules, and
    its readers in the process), \<open>Injection\<close> and \<open>Injection_Safety\<close> (\<^verbatim>\<open>my_bprm_committed_creds\<close> and the
    task work \<^verbatim>\<open>zp_inject_tw_func\<close>: the search for \<^verbatim>\<open>AT_ENTRY\<close>, staging, the page of the stub, the
    redirection, every error path), \<open>Stub_Machine\<close> and \<open>Entry_Stub\<close> (the words of the stub decoded and run
    on a model of the arm64 instructions it consists of).

  \<^item> The native module core, \<^verbatim>\<open>core/src/yukizncore.cpp\<close>: \<open>Native_Core\<close> (early packet, modules of the daemon,
    loading through either linker, the unloading of rejected modules).

  \<^item> The server of the daemon, \<^verbatim>\<open>daemon/zygiskd.cpp\<close>: \<open>Daemon_Server\<close> (\<^verbatim>\<open>handle_client\<close> with every request,
    companions, \<^verbatim>\<open>copy_file_to_memfd\<close>, the scan of the module directory, the configuration), \<open>Daemon_Safety\<close>
    (descriptors and companions) and \<open>Daemon_Modules\<close> (the native core as its client, byte by byte).  The
    state is the record \<open>daemon\<close>: the lists of modules and companions, the descriptors, the companion processes.

  \<^bold>\<open>How code becomes definitions\<close>

  A struct or class is a record (or a datatype with the source's cases), a function of the source is a
  definition of the same name where the name is free, a fixed-width integer is a word of that width, a
  pointer is an address with 0 for null, memory is a map from addresses to bytes.  A function that
  returns false or null returns \<open>None\<close> or \<open>False\<close> with the state it leaves, on every path.  A
  \<^verbatim>\<open>std::map\<close> is an association list in ascending key order.  What the program calls but does not
  contain is a parameter: \<open>os\<close> and \<open>mmap\<close> (which mapping calls succeed and where), \<open>libc\<close> (allocation,
  thread keys), \<open>sysenv\<close> (the system linker, resolvers), \<open>hook_env\<close> (pages, protections, the text patch
  service, the assembled stub), \<open>num_ops\<close> (printing and parsing of doubles), \<open>probe_env\<close> (kernel
  symbols), \<open>ksu_driver\<close> and \<open>policy_env\<close> (the KernelSU driver, files, system calls), \<open>edit_env\<close> (copying a
  SELinux policy), \<open>task_view\<close> (which processes exist), \<open>file_system\<close>, \<open>stage_answers\<close>, \<open>packet_answers\<close> and
  \<open>inject_answers\<close> (what files, descriptors, mappings and copies to the process answer in a staging or an
  injection), \<open>load_answers\<close> and \<open>daemon_answers\<close> (linkers, modules and the daemon, seen from the native core),
  \<open>server_answers\<close> (a client of the daemon and the system calls made for it), \<open>callees\<close> (what the functions the stub calls return and leave behind).  Hypotheses on
  them are named predicates stating documented behaviour, such as \<open>mmap_documented\<close> (a fresh mapping
  is aligned, not null and disjoint from the live ones), and every theorem with hypotheses has an
  instance on concrete data.

  \<^bold>\<open>What the theorems show\<close>

  \<^item> Loader: the layout check admits only disjoint segments inside the file; after mapping, every byte of
    every segment holds what the file prescribes and nothing else changed; checked pointers stay inside
    the image; dynamic tables and relocations stay inside the image; the symbol index answers as the
    linear scan, the bitmap relocation as its reference; the symbol count is found; module ids and
    generations of thread-local storage stay consistent in every reachable state and an access never
    reaches storage of an unloaded module; exit callbacks run in reverse order and once; a failing load
    leaves registry, mappings and handles as they were, closing gives everything back.

  \<^item> Hooks: after installing, the function branches to the stub, the stub holds its two slots, the
    trampoline runs the saved instructions and returns behind the patch, and no other byte changes;
    removing restores the code; a failing install changes nothing that matters; the 32-bit back end
    copies whole instructions only.

  \<^item> JSON: printing and parsing are inverse on values without unusual control characters; results are
    canonical.

  \<^item> Policy: the cache search is exact in every reachable kernel state, including overlapping installs;
    the daemon's contexts are always accepted by the kernel; an APatch configuration is enforced as
    written; a request of the kernel is answered with KernelSU's decision; only one root implementation
    is ever accepted.

  \<^item> Zygote: the ring is a bounded queue and no event waits for ever; a process is specialised at most
    once per fork; references to files are neither leaked nor dropped twice.

  \<^item> SELinux: in every reachable state the policy allows what it allowed at first, plus what some holder
    still has counted, and every such permission has an owner who will take it back.

  \<^item> Probe: safe mode skips an injection exactly when a zygote has been started too often; the command line
    is parsed as its list of arguments reads; the table of processes never has two entries for one process,
    and a module reported to it is recorded while there is room; an injection either redirects the process
    completely, with the page, the descriptors and the permissions it needs, or leaves memory, descriptors
    and permissions as they were; the stub always reaches the program's own entry with its stack and argument.

  \<^item> Native core: the early modules staged in the kernel reach the native core and are loaded; no module is
    loaded twice, and no library or descriptor is leaked.

  \<^item> Daemon: a request leaves no descriptor behind; the native core loads exactly the modules the daemon has for
    its executable, from exact copies; a client reaches the companion of the module it names as long as a
    reload does not change the list of modules.

  \<^item> Errors in the code that the model shows: a reservation unmapped twice, a relocation that writes
    behind the image, an undetected Thumb \<^verbatim>\<open>ADR\<close>, a parser loop that never ends, control characters
    that change in a JSON round trip, a task work that is queued twice, and permissions that stay in the
    policy when a file is of the type \<open>tmpfs\<close> or several files are staged with one state, clients
    that are connected to the companion of another module after a reload, a module that is
    dropped although a full table could make room, a descriptor that the stub cuts to 16 bits, and the
    descriptors of early modules that stay open when the loader cannot be opened.

  \<^bold>\<open>Interfaces\<close>

  \<open>fresh_allocator\<close> (\<open>Metadata_Arena\<close>): allocations are disjoint; interpreted on the arena.
  \<open>image_list\<close> (\<open>Image_Registry\<close>): adding, removing and walking refine a list; interpreted on the
  registry and used by exit callbacks and the loader.  \<open>probe_table\<close> (\<open>Probe_Table\<close>): linear probing
  finds the first item with a key; interpreted on the symbol index.  \<open>bounded_fifo\<close> (\<open>Bounded_Fifo\<close>): pushes
  and pops give the results of a list of bounded length; interpreted on the ring of events.

  \<^bold>\<open>Loops\<close>

  A loop bounded by the data is a recursive function.  Loops that end only on well-formed data are
  \<^theory_text>\<open>partial_function (option)\<close>, where not returning is \<open>None\<close>, and the theorems say that they return:
  the walk over the registry, the end of a GNU hash chain, the growth of tables, the draining of exit
  callbacks (for callbacks that stop registering), the worker that empties the ring.  The search on the initial stack is such a loop, too: it returns because
  some byte of the address space cannot be read.  The run of the stub has fuel 60; its longest path takes 49
  instructions, and the theorem gives the result.  The JSON parser runs on fuel because it can really
  loop; the round trip states that all sufficiently large fuel gives the value, and the loop is proved
  for every fuel.

  \<^bold>\<open>Not modelled\<close>

  Mutexes: a function under a lock is one step, and in \<open>Kernel_Policy\<close> the unlocked check and the
  locked commit are separate steps.  Memory faults, instruction cache maintenance, and what loaded code
  does to memory while it runs.  The 32-bit build of the loader and its bootstrap entry, and the
  assembly of the hook stubs and of the TLS descriptor; the 32-bit stub of the injection, whose bytes are
  written but not run.  The daemon's main
  loop, its netlink socket and its start, what runs inside a companion process, the control program and the kernel module's registration,
  which are calls into the system with little logic between them.  The zygisk core over JNI
  (\<^verbatim>\<open>core.cpp\<close>, \<^verbatim>\<open>hook.cpp\<close>), the hiding of linker entries (\<^verbatim>\<open>solist.cpp\<close>), the interface the native core
  offers to its modules (hooks of PLT entries and of functions, symbol resolvers), and the search for the
  KernelPatch symbol table are left for later.  Tracepoint registration, the resolution of kernel
  symbols, and the access vector cache are calls into the kernel.  The XZ decoder is third-party code.
\<close>

end
